(* ===== verification/Prelude.thy ===== *)
theory Prelude
  imports Main "HOL-Library.Word" "HOL-Library.Signed_Division"
begin

text \<open>
  Types, casts and generic lemmas shared by every component of the cockpit model.

  Integers of the code: \<open>std::uint8_t\<close> \dots \<open>std::uint64_t\<close> are the words \<open>u8\<close> \dots \<open>u64\<close>, which
  wrap as the code's do. The signed types are \<open>int\<close>; a narrowing \<open>static_cast\<close> to one of them is
  \<open>to_i16\<close> or \<open>to_i32\<close>, written out where the code casts. Overflow of a signed type is undefined in
  C++, so where a component computes with \<open>std::int64_t\<close> near the limits a bounds lemma states that
  the mathematical value fits (\<open>fits_i64\<close>).

  A \<open>std::array<std::uint8_t, 64>\<close> is a list of bytes of length 64; an out-parameter is a component
  of the result.
\<close>

unbundle bit_operations_syntax

named_theorems codec_simps \<open>definitions that unfold a byte-level encoder or decoder\<close>
named_theorems step_defs \<open>definitions of the state-changing operations\<close>

type_synonym u8 = "8 word"
type_synonym u16 = "16 word"
type_synonym u32 = "32 word"
type_synonym u64 = "64 word"

section \<open>Integers\<close>

definition fits_i64 :: "int \<Rightarrow> bool" where
  "fits_i64 x \<longleftrightarrow> - (2 ^ 63) \<le> x \<and> x < 2 ^ 63"

definition fits_i32 :: "int \<Rightarrow> bool" where
  "fits_i32 x \<longleftrightarrow> - (2 ^ 31) \<le> x \<and> x < 2 ^ 31"

definition fits_i16 :: "int \<Rightarrow> bool" where
  "fits_i16 x \<longleftrightarrow> - (2 ^ 15) \<le> x \<and> x < 2 ^ 15"

definition to_i16 :: "int \<Rightarrow> int" where
  "to_i16 x = sint (word_of_int x :: u16)"

definition to_i32 :: "int \<Rightarrow> int" where
  "to_i32 x = sint (word_of_int x :: u32)"

lemma to_i16_id: "fits_i16 x \<Longrightarrow> to_i16 x = x"
  by (simp add: fits_i16_def to_i16_def sint_sbintrunc' signed_take_bit_int_eq_self)

lemma to_i32_id: "fits_i32 x \<Longrightarrow> to_i32 x = x"
  by (simp add: fits_i32_def to_i32_def sint_sbintrunc' signed_take_bit_int_eq_self)

lemma fits_i16_sint [simp]: "fits_i16 (sint (w :: u16))"
  using sint_ge [of w] sint_lt [of w] by (simp add: fits_i16_def)

text \<open>\<open>std::clamp\<close>, with the order of its two tests.\<close>

definition clamp :: "int \<Rightarrow> int \<Rightarrow> int \<Rightarrow> int" where
  "clamp v lo hi = (if v < lo then lo else if hi < v then hi else v)"

lemma clamp_bounds: "lo \<le> hi \<Longrightarrow> lo \<le> clamp v lo hi \<and> clamp v lo hi \<le> hi"
  by (simp add: clamp_def)

lemma clamp_id: "lo \<le> v \<Longrightarrow> v \<le> hi \<Longrightarrow> clamp v lo hi = v"
  by (simp add: clamp_def)

lemma clamp_abs: "0 \<le> m \<Longrightarrow> \<bar>clamp v (- m) m\<bar> \<le> m"
  by (auto simp: clamp_def)

text \<open>C++ integer division truncates towards zero; on non-negative operands it is \<open>div\<close>.\<close>

lemma sdiv_nonneg: "0 \<le> a \<Longrightarrow> 0 < b \<Longrightarrow> (a :: int) sdiv b = a div b"
  by (cases "a = 0") (simp_all add: signed_divide_int_def)

lemma smod_nonneg: "0 \<le> a \<Longrightarrow> 0 < b \<Longrightarrow> (a :: int) smod b = a mod b"
  by (cases "a = 0") (simp_all add: signed_modulo_int_def)

section \<open>Words\<close>

lemma word_xor_cancel [simp]:
  "(a XOR k = b XOR k) = (a = b)"
  "(k XOR a = k XOR b) = (a = (b :: 'a::len word))"
  by (auto simp: bit_eq_iff bit_xor_iff)

section \<open>Little-endian fields of a byte array\<close>

definition get_u16 :: "u8 list \<Rightarrow> nat \<Rightarrow> u16" where
  "get_u16 d i = ucast (d ! i) OR push_bit 8 (ucast (d ! (i + 1)))"

definition get_i16 :: "u8 list \<Rightarrow> nat \<Rightarrow> int" where
  "get_i16 d i = sint (get_u16 d i)"

definition get_u32 :: "u8 list \<Rightarrow> nat \<Rightarrow> u32" where
  "get_u32 d i = ucast (d ! i) OR push_bit 8 (ucast (d ! (i + 1))) OR
     push_bit 16 (ucast (d ! (i + 2))) OR push_bit 24 (ucast (d ! (i + 3)))"

definition get_i32 :: "u8 list \<Rightarrow> nat \<Rightarrow> int" where
  "get_i32 d i = sint (get_u32 d i)"

definition put_u16 :: "u8 list \<Rightarrow> nat \<Rightarrow> u16 \<Rightarrow> u8 list" where
  "put_u16 d i v = d[i := ucast (v AND 0xFF), i + 1 := ucast (drop_bit 8 v)]"

definition put_i16 :: "u8 list \<Rightarrow> nat \<Rightarrow> int \<Rightarrow> u8 list" where
  "put_i16 d i v = (let encoded = (word_of_int v :: u16) in
     d[i := ucast (encoded AND 0xFF), i + 1 := ucast (drop_bit 8 encoded)])"

definition put_u32 :: "u8 list \<Rightarrow> nat \<Rightarrow> u32 \<Rightarrow> u8 list" where
  "put_u32 d i v = d[i := ucast (v AND 0xFF), i + 1 := ucast (drop_bit 8 v AND 0xFF),
     i + 2 := ucast (drop_bit 16 v AND 0xFF), i + 3 := ucast (drop_bit 24 v)]"

lemma length_put [simp]:
  "length (put_u16 d i v) = length d"
  "length (put_i16 d i x) = length d"
  "length (put_u32 d i w) = length d"
  by (simp_all add: put_u16_def put_i16_def put_u32_def Let_def)

lemma put_i16_eq_put_u16: "put_i16 d i x = put_u16 d i (word_of_int x)"
  by (simp add: put_i16_def put_u16_def Let_def)

lemma bytes_u16:
  "ucast (ucast (v AND 0xFF) :: u8) OR push_bit 8 (ucast (ucast (drop_bit 8 v) :: u8)) = (v :: u16)"
proof -
  have m: "(0xFF :: u16) = mask 8" by (simp add: mask_eq_exp_minus_1)
  show ?thesis
    unfolding m by (rule bit_word_eqI) (auto simp: bit_simps)
qed

lemma bytes_u32:
  "ucast (ucast (v AND 0xFF) :: u8) OR push_bit 8 (ucast (ucast (drop_bit 8 v AND 0xFF) :: u8)) OR
   push_bit 16 (ucast (ucast (drop_bit 16 v AND 0xFF) :: u8)) OR
   push_bit 24 (ucast (ucast (drop_bit 24 v) :: u8)) = (v :: u32)"
proof -
  have m: "(0xFF :: u32) = mask 8" by (simp add: mask_eq_exp_minus_1)
  show ?thesis
    unfolding m
  proof (rule bit_word_eqI)
    fix n
    assume "n < LENGTH(32)"
    then consider "n < 8" | "8 \<le> n" "n < 16" | "16 \<le> n" "n < 24" | "24 \<le> n" "n < 32"
      by fastforce
    then show "bit ((ucast (ucast (v AND mask 8) :: u8) OR
        push_bit 8 (ucast (ucast (drop_bit 8 v AND mask 8) :: u8)) OR
        push_bit 16 (ucast (ucast (drop_bit 16 v AND mask 8) :: u8)) OR
        push_bit 24 (ucast (ucast (drop_bit 24 v) :: u8))) :: u32) n = bit v n"
      by cases (auto simp: bit_simps)
  qed
qed

lemma get_put_u16: "i + 1 < length d \<Longrightarrow> get_u16 (put_u16 d i v) i = v"
  by (simp add: get_u16_def put_u16_def bytes_u16)

lemma get_put_i16: "i + 1 < length d \<Longrightarrow> fits_i16 x \<Longrightarrow> get_i16 (put_i16 d i x) i = x"
  using to_i16_id [of x] by (simp add: get_i16_def put_i16_eq_put_u16 get_put_u16 to_i16_def)

lemma get_put_u32: "i + 3 < length d \<Longrightarrow> get_u32 (put_u32 d i v) i = v"
  by (simp add: get_u32_def put_u32_def bytes_u32)

lemma put_nth_other:
  "j \<noteq> i \<Longrightarrow> j \<noteq> i + 1 \<Longrightarrow> put_u16 d i v ! j = d ! j"
  "j \<noteq> i \<Longrightarrow> j \<noteq> i + 1 \<Longrightarrow> put_i16 d i x ! j = d ! j"
  "j \<noteq> i \<Longrightarrow> j \<noteq> i + 1 \<Longrightarrow> j \<noteq> i + 2 \<Longrightarrow> j \<noteq> i + 3 \<Longrightarrow> put_u32 d i w ! j = d ! j"
  by (simp_all add: put_u16_def put_i16_def put_u32_def Let_def)

lemma take_put_u16: "n \<le> i \<Longrightarrow> take n (put_u16 d i v) = take n d"
  by (simp add: put_u16_def)

section \<open>Text of numbers\<close>

text \<open>\<open>std::to_string\<close> and stream output of a non-negative integer, in base 10 and in upper-case
  hexadecimal.\<close>

definition digit_char :: "nat \<Rightarrow> char" where
  "digit_char d = ''0123456789ABCDEF'' ! d"

fun dec_str :: "nat \<Rightarrow> string" where
  "dec_str n = (if n < 10 then [digit_char n] else dec_str (n div 10) @ [digit_char (n mod 10)])"

fun hex_str :: "nat \<Rightarrow> string" where
  "hex_str n = (if n < 16 then [digit_char n] else hex_str (n div 16) @ [digit_char (n mod 16)])"

definition hex2 :: "u8 \<Rightarrow> string" where
  "hex2 b = [digit_char (unat b div 16), digit_char (unat b mod 16)]"

definition dec_str_int :: "int \<Rightarrow> string" where
  "dec_str_int x = (if x < 0 then CHR ''-'' # dec_str (nat (- x)) else dec_str (nat x))"

declare dec_str.simps [simp del] hex_str.simps [simp del]

section \<open>Characters\<close>

text \<open>The codes of characters, and the classes of the C locale that \<open>std::isdigit\<close>, \<open>std::isxdigit\<close> and \<open>std::isalnum\<close>
  test.\<close>

definition code :: "char \<Rightarrow> nat" where "code c = of_char c"

definition is_hex_digit :: "char \<Rightarrow> bool" where
  "is_hex_digit c \<longleftrightarrow> 48 \<le> code c \<and> code c \<le> 57 \<or> 97 \<le> code c \<and> code c \<le> 102 \<or> 65 \<le> code c \<and> code c \<le> 70"

definition is_digit :: "char \<Rightarrow> bool" where
  "is_digit c \<longleftrightarrow> 48 \<le> code c \<and> code c \<le> 57"

definition is_alnum :: "char \<Rightarrow> bool" where
  "is_alnum c \<longleftrightarrow> is_digit c \<or> 65 \<le> code c \<and> code c \<le> 90 \<or> 97 \<le> code c \<and> code c \<le> 122"

end
