(* ===== verification/Can_Frame.thy ===== *)
theory Can_Frame
  imports Prelude
begin

text \<open>
  CAN frames: \<open>cockpit/driver/can\<close> (the driver's own frame type, its validity test and its
  conversion to and from the transport's frame) and the pure parts of
  \<open>cockpit/driver/platform/socketcan\<close> (the transport frame, its send test, and the mapping of kernel
  receive timestamps to the steady clock). The socket calls themselves are parameters of the
  components that use them.
\<close>

section \<open>The driver's frame\<close>

record can_frame =
  cf_id :: u32
  cf_data :: "u8 list"
  cf_len :: u8
  cf_extended :: bool
  cf_remote :: bool
  cf_fd :: bool
  cf_brs :: bool
  cf_esi :: bool

definition max_data_length :: nat where
  "max_data_length = 64"

definition zero_data :: "u8 list" where
  "zero_data = replicate max_data_length 0"

text \<open>The type invariant of \<open>std::array<std::uint8_t, 64>\<close>.\<close>

definition frame_wf :: "can_frame \<Rightarrow> bool" where
  "frame_wf f \<longleftrightarrow> length (cf_data f) = max_data_length"

definition can_frame_valid :: "can_frame \<Rightarrow> bool" where
  "can_frame_valid f =
     (let id_mask = (if cf_extended f then 0x1FFFFFFF else 0x7FF :: u32) in
      if max_data_length < unat (cf_len f) \<or> cf_id f AND NOT id_mask \<noteq> 0 then False
      else if cf_fd f then \<not> cf_remote f
      else cf_len f \<le> 8 \<and> \<not> cf_brs f \<and> \<not> cf_esi f)"

definition can_frame_to_string :: "can_frame \<Rightarrow> string" where
  "can_frame_to_string f =
     hex_str (unat (cf_id f)) @ ''#'' @
     (if cf_remote f then CHR ''R'' # dec_str (unat (cf_len f))
      else (if cf_fd f
            then CHR ''#'' # hex_str ((if cf_brs f then 1 else 0) + (if cf_esi f then 2 else 0))
            else []) @
           concat (map hex2 (take (unat (cf_len f)) (cf_data f))))"

section \<open>The transport's frame\<close>

record socket_can_frame =
  sf_id :: u32
  sf_data :: "u8 list"
  sf_len :: u8
  sf_extended :: bool
  sf_remote :: bool
  sf_fd :: bool
  sf_brs :: bool
  sf_esi :: bool
  sf_error :: bool
  sf_error_mask :: u32
  sf_bus_off :: bool
  sf_error_passive :: bool
  sf_error_warning :: bool
  sf_ack_error :: bool
  sf_protocol_error :: bool
  sf_kernel_timestamp_valid :: bool
  sf_kernel_realtime_ns :: int
  sf_received_steady_ns :: int
  sf_dequeued_steady_ns :: int

definition socket_can_frame0 :: socket_can_frame where
  "socket_can_frame0 =
     \<lparr>sf_id = 0, sf_data = zero_data, sf_len = 0, sf_extended = False, sf_remote = False,
      sf_fd = False, sf_brs = False, sf_esi = False, sf_error = False, sf_error_mask = 0,
      sf_bus_off = False, sf_error_passive = False, sf_error_warning = False,
      sf_ack_error = False, sf_protocol_error = False, sf_kernel_timestamp_valid = False,
      sf_kernel_realtime_ns = 0, sf_received_steady_ns = 0, sf_dequeued_steady_ns = 0\<rparr>"

definition socket_wf :: "socket_can_frame \<Rightarrow> bool" where
  "socket_wf s \<longleftrightarrow> length (sf_data s) = max_data_length"

definition valid_for_send :: "socket_can_frame \<Rightarrow> bool" where
  "valid_for_send s =
     (let id_mask = (if sf_extended s then 0x1FFFFFFF else 0x7FF :: u32) in
      if sf_id s AND NOT id_mask \<noteq> 0 \<or> max_data_length < unat (sf_len s) \<or> sf_error s then False
      else if sf_fd s then \<not> sf_remote s
      else sf_len s \<le> 8 \<and> \<not> sf_brs s \<and> \<not> sf_esi s)"

text \<open>
  \<open>ToSocketCanFrame\<close> copies \<open>data_length\<close> bytes into a zeroed 64-byte array. A longer frame would
  read and write past both arrays; that undefined behaviour is the result \<open>None\<close>.
\<close>

definition to_socket_can_frame :: "can_frame \<Rightarrow> socket_can_frame option" where
  "to_socket_can_frame f =
     (let n = unat (cf_len f) in
      if max_data_length < n then None
      else Some (socket_can_frame0
        \<lparr>sf_id := cf_id f, sf_len := cf_len f, sf_extended := cf_extended f,
         sf_remote := cf_remote f, sf_fd := cf_fd f, sf_brs := cf_brs f, sf_esi := cf_esi f,
         sf_data := take n (cf_data f) @ drop n zero_data\<rparr>))"

definition from_socket_can_frame :: "socket_can_frame \<Rightarrow> string + can_frame" where
  "from_socket_can_frame s =
     (if sf_error s then
        Inl (''SocketCAN error frame mask='' @ dec_str (unat (sf_error_mask s)))
      else
        let result = \<lparr>cf_id = sf_id s, cf_data = sf_data s, cf_len = sf_len s,
                      cf_extended = sf_extended s, cf_remote = sf_remote s, cf_fd = sf_fd s,
                      cf_brs = sf_brs s, cf_esi = sf_esi s\<rparr>
        in if \<not> can_frame_valid result then Inl ''invalid SocketCAN data frame'' else Inr result)"

section \<open>Receive timestamps\<close>

definition map_kernel_realtime_to_steady :: "int \<Rightarrow> int \<Rightarrow> int \<Rightarrow> int option" where
  "map_kernel_realtime_to_steady kernel_ns sampled_realtime_ns sampled_steady_ns =
     (if kernel_ns \<le> 0 \<or> sampled_realtime_ns \<le> 0 \<or> sampled_steady_ns \<le> 0
         \<or> kernel_ns > sampled_realtime_ns then None
      else let age_ns = sampled_realtime_ns - kernel_ns in
        if age_ns > sampled_steady_ns then None else Some (sampled_steady_ns - age_ns))"

definition map_to_logical_steady_ms :: "socket_can_frame \<Rightarrow> int \<Rightarrow> int option" where
  "map_to_logical_steady_ms s logical_dequeue_ms =
     (if \<not> sf_kernel_timestamp_valid s \<or> logical_dequeue_ms < 0 \<or> sf_received_steady_ns s \<le> 0
         \<or> sf_dequeued_steady_ns s < sf_received_steady_ns s then None
      else
        let age_ns = sf_dequeued_steady_ns s - sf_received_steady_ns s;
            age_ms = age_ns sdiv 1000000 + (if age_ns smod 1000000 \<noteq> 0 then 1 else 0)
        in if age_ms > logical_dequeue_ms then None else Some (logical_dequeue_ms - age_ms))"

section \<open>Lemmas\<close>

lemma zero_data_length [simp]: "length zero_data = 64"
  by (simp add: zero_data_def max_data_length_def)

lemma to_socket_can_frame_Some:
  "unat (cf_len f) \<le> 64 \<Longrightarrow> \<exists>s. to_socket_can_frame f = Some s"
  by (auto simp: to_socket_can_frame_def max_data_length_def Let_def)

lemma valid_frame_len: "can_frame_valid f \<Longrightarrow> unat (cf_len f) \<le> 64"
  by (simp add: can_frame_valid_def Let_def max_data_length_def split: if_splits)

text \<open>A frame the driver calls valid is one the transport accepts, and the other way round.\<close>

lemma to_socket_valid_for_send:
  assumes "to_socket_can_frame f = Some s"
  shows "valid_for_send s = can_frame_valid f"
  using assms
  by (auto simp: to_socket_can_frame_def valid_for_send_def can_frame_valid_def
      socket_can_frame0_def Let_def max_data_length_def split: if_splits)

lemma from_socket_valid: "from_socket_can_frame s = Inr f \<Longrightarrow> can_frame_valid f"
  by (auto simp: from_socket_can_frame_def Let_def split: if_splits)

lemma from_socket_wf: "from_socket_can_frame s = Inr f \<Longrightarrow> socket_wf s \<Longrightarrow> frame_wf f"
  by (auto simp: from_socket_can_frame_def Let_def socket_wf_def frame_wf_def split: if_splits)

end
