(* ===== verification/Socket_Can.thy ===== *)
theory Socket_Can
  imports Can_Frame
begin

text \<open>
  The SocketCAN driver, \<open>cockpit/driver/platform/socketcan/socket_can.cc\<close>: how \<open>Send\<close> lays a frame out in
  the kernel's \<open>canfd_frame\<close> and how \<open>Receive\<close> reads one back with its kernel receive time. What the
  system calls return is the record \<open>rx_event\<close> for a receive and the written size for a send.
\<close>

unbundle bit_operations_syntax

section \<open>Kernel frames and constants\<close>

record native_frame =
  nf_can_id :: u32
  nf_len :: u8
  nf_flags :: u8
  nf_data :: "u8 list"

definition can_eff_flag :: u32 where "can_eff_flag = 0x80000000"
definition can_rtr_flag :: u32 where "can_rtr_flag = 0x40000000"
definition can_err_flag :: u32 where "can_err_flag = 0x20000000"
definition can_sff_mask :: u32 where "can_sff_mask = 0x7FF"
definition can_eff_mask :: u32 where "can_eff_mask = 0x1FFFFFFF"
definition can_mtu :: int where "can_mtu = 16"
definition canfd_mtu :: int where "canfd_mtu = 72"

lemmas can_flag_defs = can_eff_flag_def can_rtr_flag_def can_err_flag_def can_sff_mask_def can_eff_mask_def
  can_mtu_def canfd_mtu_def

datatype can_io_status = IoOk | IoTimeout | IoClosed | IoError

record timespec =
  ts_sec :: int
  ts_nsec :: int

text \<open>One pass of the receive system calls: the results that \<open>Receive\<close> reads.\<close>

record rx_event =
  rx_poll :: int
  rx_poll_error :: bool
  rx_received :: int
  rx_truncated :: bool
  rx_timestamp :: "timespec option"
  rx_realtime :: "timespec option"
  rx_steady :: "timespec option"
  rx_frame :: native_frame

section \<open>Operations\<close>

definition timespec_nanoseconds :: "timespec \<Rightarrow> int option" where
  "timespec_nanoseconds t =
     (let int64_max = 9223372036854775807; per_second = 1000000000 in
      if ts_sec t < 0 \<or> ts_nsec t < 0 \<or> ts_nsec t \<ge> per_second \<or> ts_sec t > int64_max div per_second then None
      else
        let seconds_ns = ts_sec t * per_second in
        if ts_nsec t > int64_max - seconds_ns then None else Some (seconds_ns + ts_nsec t))"

definition native_of_frame :: "socket_can_frame \<Rightarrow> native_frame" where
  "native_of_frame s =
     \<lparr>nf_can_id = sf_id s OR (if sf_extended s then can_eff_flag else 0) OR
        (if sf_remote s then can_rtr_flag else 0),
      nf_len = sf_len s,
      nf_flags = (if sf_brs s then 1 else 0) OR (if sf_esi s then 2 else 0),
      nf_data = take (unat (sf_len s)) (sf_data s) @ drop (unat (sf_len s)) zero_data\<rparr>"

text \<open>
  \<open>Send\<close>: the native frame and the size written, with the result of \<open>write\<close> as an argument; the strings
  are its error texts, the text of \<open>errno\<close> left out.
\<close>

definition socket_send ::
  "bool \<Rightarrow> socket_can_frame \<Rightarrow> int \<Rightarrow> (native_frame \<times> int) option \<times> string option" where
  "socket_send is_open s written =
     (if \<not> is_open then (None, Some ''CAN socket is closed'')
      else if \<not> valid_for_send s then (None, Some ''invalid CAN frame'')
      else
        let native_size = (if sf_fd s then canfd_mtu else can_mtu) in
        (Some (native_of_frame s, native_size),
         if written \<noteq> native_size then Some ''send CAN frame failed'' else None))"

definition frame_of_native :: "native_frame \<Rightarrow> int \<Rightarrow> int \<Rightarrow> int \<Rightarrow> int \<Rightarrow> socket_can_frame" where
  "frame_of_native n received kernel_ns received_ns dequeued_ns =
     (let extended = (nf_can_id n AND can_eff_flag \<noteq> 0);
          err = (nf_can_id n AND can_err_flag \<noteq> 0);
          mask = (if err then nf_can_id n AND can_eff_mask else 0);
          controller = nf_data n ! 1;
          fd = (received = canfd_mtu);
          max_length = (if fd then 64 else 8 :: u8);
          len = (if nf_len n > max_length then max_length else nf_len n)
      in \<lparr>sf_id = nf_can_id n AND (if extended then can_eff_mask else can_sff_mask),
          sf_data = take (unat len) (nf_data n) @ drop (unat len) zero_data,
          sf_len = len,
          sf_extended = extended,
          sf_remote = (nf_can_id n AND can_rtr_flag \<noteq> 0),
          sf_fd = fd,
          sf_brs = (fd \<and> nf_flags n AND 1 \<noteq> 0),
          sf_esi = (fd \<and> nf_flags n AND 2 \<noteq> 0),
          sf_error = err,
          sf_error_mask = mask,
          sf_bus_off = (err \<and> mask AND 0x40 \<noteq> 0),
          sf_error_passive = (err \<and> mask AND 0x4 \<noteq> 0 \<and> controller AND 0x30 \<noteq> 0),
          sf_error_warning = (err \<and> mask AND 0x4 \<noteq> 0 \<and> controller AND 0x0C \<noteq> 0),
          sf_ack_error = (err \<and> mask AND 0x20 \<noteq> 0),
          sf_protocol_error = (err \<and> mask AND 0x8 \<noteq> 0),
          sf_kernel_timestamp_valid = True,
          sf_kernel_realtime_ns = kernel_ns,
          sf_received_steady_ns = received_ns,
          sf_dequeued_steady_ns = dequeued_ns\<rparr>)"

definition socket_receive :: "bool \<Rightarrow> rx_event \<Rightarrow> int \<Rightarrow> can_io_status \<times> socket_can_frame option" where
  "socket_receive is_open ev timeout_ms =
     (if \<not> is_open then (IoClosed, None)
      else if timeout_ms < - 1 then (IoError, None)
      else if rx_poll ev = 0 then (IoTimeout, None)
      else if rx_poll ev < 0 \<or> rx_poll_error ev then (IoError, None)
      else if rx_received ev \<noteq> can_mtu \<and> rx_received ev \<noteq> canfd_mtu then (IoError, None)
      else if rx_truncated ev then (IoError, None)
      else
        case (Option.bind (rx_timestamp ev) timespec_nanoseconds, Option.bind (rx_realtime ev) timespec_nanoseconds,
              Option.bind (rx_steady ev) timespec_nanoseconds) of
          (Some kernel_ns, Some realtime_ns, Some steady_ns) \<Rightarrow>
            (case map_kernel_realtime_to_steady kernel_ns realtime_ns steady_ns of
               None \<Rightarrow> (IoError, None)
             | Some received_ns \<Rightarrow>
                 (IoOk, Some (frame_of_native (rx_frame ev) (rx_received ev) kernel_ns received_ns steady_ns)))
        | _ \<Rightarrow> (IoError, None))"

section \<open>Reading back what was sent\<close>

text \<open>The 32 bits of a CAN identifier word: 29 of identifier and the three flags.\<close>

lemma mask_bits:
  "bit can_eff_flag n = (n = 31)" "bit can_rtr_flag n = (n = 30)" "bit can_err_flag n = (n = 29)"
  "bit can_sff_mask n = (n < 11)" "bit can_eff_mask n = (n < 29)"
proof -
  have e: "can_eff_flag = 2 ^ 31" "can_rtr_flag = 2 ^ 30" "can_err_flag = 2 ^ 29"
    "can_sff_mask = mask 11" "can_eff_mask = mask 29"
    by (simp_all add: can_flag_defs mask_eq_exp_minus_1)
  show "bit can_eff_flag n = (n = 31)" "bit can_rtr_flag n = (n = 30)" "bit can_err_flag n = (n = 29)"
    "bit can_sff_mask n = (n < 11)" "bit can_eff_mask n = (n < 29)"
    unfolding e by (auto simp only: bit_exp_iff bit_mask_iff possible_bit_word) simp_all
qed

lemma flag_nonzero_iff: "w AND can_eff_flag \<noteq> 0 \<longleftrightarrow> bit w 31" "w AND can_rtr_flag \<noteq> 0 \<longleftrightarrow> bit w 30"
  "w AND can_err_flag \<noteq> 0 \<longleftrightarrow> bit w 29"
proof -
  have e: "can_eff_flag = 2 ^ 31" "can_rtr_flag = 2 ^ 30" "can_err_flag = 2 ^ 29"
    by (simp_all add: can_flag_defs)
  show "w AND can_eff_flag \<noteq> 0 \<longleftrightarrow> bit w 31" "w AND can_rtr_flag \<noteq> 0 \<longleftrightarrow> bit w 30"
    "w AND can_err_flag \<noteq> 0 \<longleftrightarrow> bit w 29"
    unfolding e by (simp_all only: and_exp_eq_0_iff_not_bit not_not)
qed

lemma id_high_bits:
  assumes "w AND NOT m = 0" "\<not> bit m n" "n < 32"
  shows "\<not> bit (w :: u32) n"
proof
  assume "bit w n"
  then have "bit (w AND NOT m) n" using assms(2,3) by (simp add: bit_and_iff bit_not_iff)
  then show False by (simp add: assms(1))
qed

lemma native_id:
  assumes "valid_for_send s"
  shows "nf_can_id (native_of_frame s) AND can_eff_flag \<noteq> 0 \<longleftrightarrow> sf_extended s"
    and "nf_can_id (native_of_frame s) AND can_rtr_flag \<noteq> 0 \<longleftrightarrow> sf_remote s"
    and "nf_can_id (native_of_frame s) AND can_err_flag = 0"
    and "nf_can_id (native_of_frame s) AND (if sf_extended s then can_eff_mask else can_sff_mask) = sf_id s"
proof -
  let ?m = "if sf_extended s then can_eff_mask else can_sff_mask"
  have id: "sf_id s AND NOT ?m = 0"
    using assms by (simp add: valid_for_send_def Let_def can_flag_defs split: if_splits)
  have high: "\<not> bit (sf_id s) 31" "\<not> bit (sf_id s) 30" "\<not> bit (sf_id s) 29"
    by (rule id_high_bits [OF id]; simp add: mask_bits)+
  note b = bit_or_iff mask_bits native_of_frame_def
  show "nf_can_id (native_of_frame s) AND can_eff_flag \<noteq> 0 \<longleftrightarrow> sf_extended s"
    "nf_can_id (native_of_frame s) AND can_rtr_flag \<noteq> 0 \<longleftrightarrow> sf_remote s"
    unfolding flag_nonzero_iff using high by (simp_all add: b)
  have "\<not> nf_can_id (native_of_frame s) AND can_err_flag \<noteq> 0"
    unfolding flag_nonzero_iff using high by (simp add: b)
  then show "nf_can_id (native_of_frame s) AND can_err_flag = 0" by simp
  have low: "\<not> bit (sf_id s) n" if "\<not> bit ?m n" "n < 32" for n
    using id that by (rule id_high_bits)
  show "nf_can_id (native_of_frame s) AND ?m = sf_id s"
  proof (rule bit_word_eqI)
    fix n assume "n < LENGTH(32)"
    then have n: "n < 32" by simp
    have "bit ?m n = (if sf_extended s then n < 29 else n < 11)" by (simp add: mask_bits)
    then show "bit (nf_can_id (native_of_frame s) AND ?m) n = bit (sf_id s) n"
      using low [of n] n by (auto simp: bit_and_iff b)
  qed
qed

lemma native_flags [simp]:
  "nf_flags (native_of_frame s) AND 1 \<noteq> 0 \<longleftrightarrow> sf_brs s"
  "nf_flags (native_of_frame s) AND 2 \<noteq> 0 \<longleftrightarrow> sf_esi s"
  by (simp_all add: native_of_frame_def)

lemma take_drop_pad:
  "length xs = n \<Longrightarrow> m \<le> n \<Longrightarrow> take m (take m xs @ ys) @ zs = take m xs @ zs"
  by simp

text \<open>What \<open>Receive\<close> makes of a frame that \<open>Send\<close> laid out.\<close>

lemma frame_of_sent:
  assumes v: "valid_for_send s" and wf: "socket_wf s"
  shows "frame_of_native (native_of_frame s) (if sf_fd s then canfd_mtu else can_mtu) k r d =
    socket_can_frame0
      \<lparr>sf_id := sf_id s, sf_len := sf_len s, sf_extended := sf_extended s, sf_remote := sf_remote s,
       sf_fd := sf_fd s, sf_brs := sf_brs s, sf_esi := sf_esi s,
       sf_data := take (unat (sf_len s)) (sf_data s) @ drop (unat (sf_len s)) zero_data,
       sf_kernel_timestamp_valid := True, sf_kernel_realtime_ns := k, sf_received_steady_ns := r,
       sf_dequeued_steady_ns := d\<rparr>"
proof -
  have fd: "((if sf_fd s then canfd_mtu else can_mtu) = canfd_mtu) = sf_fd s"
    by (simp add: can_mtu_def canfd_mtu_def)
  have len: "\<not> (if sf_fd s then 64 else 8) < sf_len s" "sf_len s \<le> 64"
    using v by (auto simp: valid_for_send_def Let_def max_data_length_def word_le_nat_alt word_less_nat_alt split: if_splits)
  have len': "min (unat (sf_len s)) (unat (sf_len s)) = unat (sf_len s)" "unat (sf_len s) \<le> length (sf_data s)"
    using len(2) wf by (simp_all add: socket_wf_def max_data_length_def word_le_nat_alt)
  have classic: "\<not> sf_fd s \<Longrightarrow> \<not> sf_brs s" "\<not> sf_fd s \<Longrightarrow> \<not> sf_esi s"
    using v by (auto simp: valid_for_send_def Let_def split: if_splits)
  have data: "take (unat (sf_len s)) (nf_data (native_of_frame s)) = take (unat (sf_len s)) (sf_data s)"
    "nf_len (native_of_frame s) = sf_len s"
    using len' by (simp_all add: native_of_frame_def)
  show ?thesis
    unfolding frame_of_native_def Let_def fd native_id [OF v]
    using len(1) classic by (auto simp: data native_id [OF v] socket_can_frame0_def)
qed

definition zero_padded :: "can_frame \<Rightarrow> bool" where
  "zero_padded f \<longleftrightarrow> drop (unat (cf_len f)) (cf_data f) = drop (unat (cf_len f)) zero_data"

text \<open>An event that delivers a frame written by a send: the poll succeeds and \<open>recvmsg\<close> returns it whole.\<close>

definition delivers :: "rx_event \<Rightarrow> native_frame \<Rightarrow> int \<Rightarrow> bool" where
  "delivers ev n sz \<longleftrightarrow>
     rx_poll ev > 0 \<and> \<not> rx_poll_error ev \<and> rx_received ev = sz \<and> \<not> rx_truncated ev \<and> rx_frame ev = n"

lemma receive_ok_frame:
  assumes "socket_receive True ev t = (IoOk, Some r)"
  obtains k m d where "r = frame_of_native (rx_frame ev) (rx_received ev) k m d"
  using assms by (auto simp: socket_receive_def split: if_splits option.splits)

lemma received_frame:
  assumes f: "can_frame_valid f" "frame_wf f" "zero_padded f"
    and send: "to_socket_can_frame f = Some s" "socket_send True s written = (Some (n, sz), e)"
    and recv: "delivers ev n sz" "socket_receive True ev timeout_ms = (IoOk, Some r)"
  shows "from_socket_can_frame r = Inr f"
proof -
  have len: "unat (cf_len f) \<le> 64" using f(1) by (rule valid_frame_len)
  have s: "s = socket_can_frame0
      \<lparr>sf_id := cf_id f, sf_len := cf_len f, sf_extended := cf_extended f, sf_remote := cf_remote f,
       sf_fd := cf_fd f, sf_brs := cf_brs f, sf_esi := cf_esi f,
       sf_data := take (unat (cf_len f)) (cf_data f) @ drop (unat (cf_len f)) zero_data\<rparr>"
    using send(1) len by (simp add: to_socket_can_frame_def Let_def max_data_length_def)
  have data: "take (unat (cf_len f)) (cf_data f) @ drop (unat (cf_len f)) zero_data = cf_data f"
    using f(3) unfolding zero_padded_def by (metis append_take_drop_id)
  have v: "valid_for_send s" using to_socket_valid_for_send [OF send(1)] f(1) by simp
  have wf: "socket_wf s"
    using f(2) by (simp add: s data socket_wf_def frame_wf_def)
  have n: "n = native_of_frame s" "sz = (if sf_fd s then canfd_mtu else can_mtu)"
    using send(2) v by (auto simp: socket_send_def Let_def split: if_splits)
  obtain k m d where r: "r = frame_of_native n sz k m d"
    using receive_ok_frame [OF recv(2)] recv(1) unfolding delivers_def by metis
  have rec: "\<lparr>cf_id = cf_id f, cf_data = cf_data f, cf_len = cf_len f, cf_extended = cf_extended f,
      cf_remote = cf_remote f, cf_fd = cf_fd f, cf_brs = cf_brs f, cf_esi = cf_esi f\<rparr> = f"
    by simp
  show ?thesis
    unfolding r n frame_of_sent [OF v wf] using f(1)
    by (simp add: from_socket_can_frame_def s socket_can_frame0_def data Let_def) (simp only: rec)
qed

text \<open>
  C18: a frame survives the bus. Whatever valid, zero-padded frame the driver sends, the frame that a later
  receive returns for the bytes written, if the kernel stamped them, converts back to the same driver frame.
\<close>

theorem can_frame_crosses_socket:
  assumes f: "can_frame_valid f" "frame_wf f" "zero_padded f"
    and send: "to_socket_can_frame f = Some s" "socket_send True s written = (Some (n, sz), e)"
    and recv: "delivers ev n sz" "socket_receive True ev timeout_ms = (IoOk, Some r)"
  shows "from_socket_can_frame r = Inr f"
  using assms by (rule received_frame)

lemma receive_deterministic_frame:
  assumes "can_frame_valid f" "frame_wf f" "zero_padded f" "to_socket_can_frame f = Some s" "cf_fd f"
    and "delivers ev (native_of_frame s) canfd_mtu" "socket_receive True ev timeout_ms = (IoOk, Some r)"
  shows "from_socket_can_frame r = Inr f"
proof -
  have "sf_fd s" using assms(4,5) by (auto simp: to_socket_can_frame_def Let_def split: if_splits)
  then have "socket_send True s canfd_mtu = (Some (native_of_frame s, canfd_mtu), None)"
    using to_socket_valid_for_send [OF assms(4)] assms(1) by (simp add: socket_send_def)
  with assms show ?thesis by (blast intro: received_frame)
qed

definition sample_can_frame :: can_frame where
  "sample_can_frame = \<lparr>cf_id = 0x123, cf_data = [7, 9] @ replicate 62 0, cf_len = 2, cf_extended = False,
     cf_remote = False, cf_fd = True, cf_brs = True, cf_esi = False\<rparr>"

definition sample_event :: "native_frame \<Rightarrow> rx_event" where
  "sample_event n = \<lparr>rx_poll = 1, rx_poll_error = False, rx_received = canfd_mtu, rx_truncated = False,
     rx_timestamp = Some \<lparr>ts_sec = 1000, ts_nsec = 5\<rparr>, rx_realtime = Some \<lparr>ts_sec = 1000, ts_nsec = 905\<rparr>,
     rx_steady = Some \<lparr>ts_sec = 20, ts_nsec = 0\<rparr>, rx_frame = n\<rparr>"

theorem can_frame_crosses_socket_witness:
  "\<exists>r. socket_receive True (sample_event (native_of_frame (the (to_socket_can_frame sample_can_frame)))) 10 = (IoOk, Some r) \<and>
     from_socket_can_frame r = Inr sample_can_frame"
proof -
  let ?s = "the (to_socket_can_frame sample_can_frame)"
  let ?n = "native_of_frame ?s"
  have valid: "can_frame_valid sample_can_frame" "frame_wf sample_can_frame" "zero_padded sample_can_frame"
    by (simp_all add: sample_can_frame_def can_frame_valid_def frame_wf_def zero_padded_def max_data_length_def
        zero_data_def drop_replicate)
  have s: "to_socket_can_frame sample_can_frame = Some ?s"
    using to_socket_can_frame_Some [OF valid_frame_len [OF valid(1)]] by auto
  have "sf_fd ?s" using s by (auto simp: to_socket_can_frame_def Let_def sample_can_frame_def split: if_splits)
  then have send: "socket_send True ?s canfd_mtu = (Some (?n, canfd_mtu), None)"
    using to_socket_valid_for_send [OF s] valid(1) by (simp add: socket_send_def)
  have "fst (socket_receive True (sample_event ?n) 10) = IoOk \<and> snd (socket_receive True (sample_event ?n) 10) \<noteq> None"
    by (simp add: socket_receive_def sample_event_def canfd_mtu_def can_mtu_def timespec_nanoseconds_def
        map_kernel_realtime_to_steady_def)
  then obtain r where r: "socket_receive True (sample_event ?n) 10 = (IoOk, Some r)"
    by (metis not_None_eq prod.collapse)
  have "delivers (sample_event ?n) ?n canfd_mtu" by (simp add: delivers_def sample_event_def)
  from can_frame_crosses_socket [OF valid s send this r] r show ?thesis by blast
qed

section \<open>Receive times\<close>

text \<open>A received frame is stamped no later than it was taken, and the age the kernel clock shows.\<close>

lemma receive_time:
  assumes "socket_receive True ev t = (IoOk, Some r)"
  shows "sf_kernel_timestamp_valid r" "0 \<le> sf_received_steady_ns r" "sf_received_steady_ns r \<le> sf_dequeued_steady_ns r"
    and "\<exists>real. Option.bind (rx_realtime ev) timespec_nanoseconds = Some real \<and>
       sf_dequeued_steady_ns r - sf_received_steady_ns r = real - sf_kernel_realtime_ns r"
  using assms
  by (auto simp: socket_receive_def frame_of_native_def map_kernel_realtime_to_steady_def Let_def
      split: if_splits option.splits)

lemma logical_age:
  assumes "map_to_logical_steady_ms s now = Some t"
  shows "0 \<le> t" "t \<le> now"
    and "(now - t) * 1000000 \<ge> sf_dequeued_steady_ns s - sf_received_steady_ns s"
    and "(now - t) * 1000000 < sf_dequeued_steady_ns s - sf_received_steady_ns s + 1000000"
proof -
  let ?a = "sf_dequeued_steady_ns s - sf_received_steady_ns s"
  have a: "0 \<le> ?a" and t: "t = now - (?a div 1000000 + (if ?a mod 1000000 \<noteq> 0 then 1 else 0))" "0 \<le> t"
    using assms by (auto simp: map_to_logical_steady_ms_def Let_def sdiv_nonneg smod_nonneg split: if_splits)
  show "0 \<le> t" by (rule t(2))
  have "0 \<le> ?a div 1000000" using a by simp
  then show "t \<le> now" using t(1) by (auto split: if_splits)
  have "?a = 1000000 * q + m \<Longrightarrow> 0 \<le> m \<Longrightarrow> m < 1000000 \<Longrightarrow> now - t = q + (if m \<noteq> 0 then 1 else 0) \<Longrightarrow>
      ?a \<le> (now - t) * 1000000 \<and> (now - t) * 1000000 < ?a + 1000000" for q m :: int
    by (cases "m = 0") simp_all
  from this [of "?a div 1000000" "?a mod 1000000"] t(1)
  show "(now - t) * 1000000 \<ge> ?a" "(now - t) * 1000000 < ?a + 1000000" by simp_all
qed

end
