(* ===== verification/Chassis_Codec.thy ===== *)
theory Chassis_Codec
  imports Can_Frame
begin

text \<open>
  The chassis protocol on CAN FD, \<open>cockpit/driver/vehicle/chassis_can_codec.cc\<close>: the messages, the
  CRC, the encoders and decoders. A decoder that only ever writes its out-parameter when it returns
  true is an \<open>option\<close>; \<open>DecodeMotion\<close> writes it before its last range test, so it returns the
  status together with the verdict.
\<close>

section \<open>Messages\<close>

record velocity_command =
  vc_enabled :: bool
  vc_sequence :: u8
  vc_linear :: int
  vc_angular :: int

record motion_status =
  ms_valid :: bool
  ms_running :: bool
  ms_sequence :: u8
  ms_control_state :: u8
  ms_left_velocity :: int
  ms_right_velocity :: int
  ms_linear_velocity :: int
  ms_angular_velocity :: int
  ms_left_output :: int
  ms_right_output :: int

record odometry_report =
  od_valid :: bool
  od_sequence :: u8
  od_timestamp_ms :: u32
  od_x :: int
  od_y :: int
  od_heading :: int
  od_linear_velocity :: int
  od_angular_velocity :: int

record heartbeat =
  hb_node_state :: u8
  hb_sequence :: u8
  hb_flags :: u8
  hb_uptime_ms :: u32
  hb_fault_summary :: u16

record fault_status =
  fs_severity :: u8
  fs_sequence :: u8
  fs_flags :: u8
  fs_active_faults :: u32
  fs_latched_faults :: u32
  fs_fault_sequence :: u16

definition velocity_command_id :: u32 where "velocity_command_id = 0x101"
definition motion_status_id :: u32 where "motion_status_id = 0x180"
definition odometry_report_id :: u32 where "odometry_report_id = 0x181"
definition heartbeat_id :: u32 where "heartbeat_id = 0x200"
definition fault_status_id :: u32 where "fault_status_id = 0x240"
definition handshake_request_id :: u32 where "handshake_request_id = 0x720"
definition handshake_response_id :: u32 where "handshake_response_id = 0x721"
definition schema_version :: u8 where "schema_version = 1"

lemmas can_id_defs = velocity_command_id_def motion_status_id_def odometry_report_id_def
  heartbeat_id_def fault_status_id_def handshake_request_id_def handshake_response_id_def

section \<open>CRC-16\<close>

definition crc_bit :: "u16 \<Rightarrow> u16" where
  "crc_bit crc = (if crc AND 0x8000 \<noteq> 0 then push_bit 1 crc XOR 0x1021 else push_bit 1 crc)"

definition crc_byte :: "u8 \<Rightarrow> u16 \<Rightarrow> u16" where
  "crc_byte b crc = (crc_bit ^^ 8) (crc XOR push_bit 8 (ucast b))"

text \<open>\<open>Crc16\<close>: the identifier's two bytes, then the payload; the payload is \<open>None\<close> for a null pointer.\<close>

definition crc16 :: "u16 \<Rightarrow> u8 list option \<Rightarrow> u8 \<Rightarrow> u16" where
  "crc16 identifier payload len =
     (let header = [ucast (identifier AND 0xFF), ucast (drop_bit 8 identifier)] :: u8 list;
          crc = fold crc_byte header 0xFFFF
      in case payload of
           None \<Rightarrow> if len \<noteq> 0 then 0 else crc
         | Some bytes \<Rightarrow> fold crc_byte (take (unat len) bytes) crc)"

section \<open>Encoders\<close>

definition fd_frame :: "u32 \<Rightarrow> u8 list \<Rightarrow> u8 \<Rightarrow> can_frame" where
  "fd_frame ident data len =
     \<lparr>cf_id = ident, cf_data = data, cf_len = len, cf_extended = False, cf_remote = False,
      cf_fd = True, cf_brs = True, cf_esi = False\<rparr>"

definition handshake :: "u8 list \<Rightarrow> can_frame" where
  "handshake payload = fd_frame handshake_request_id (payload @ drop 8 zero_data) 8"

definition encode_handshake_ping :: can_frame where
  "encode_handshake_ping = handshake [0x50, 0x49, 0x4E, 0x47, 1, 0, 0, 0]"

definition encode_handshake_pass :: can_frame where
  "encode_handshake_pass = handshake [0x50, 0x41, 0x53, 0x53, 1, 0, 0, 0]"

definition decode_handshake_response :: "can_frame \<Rightarrow> bool" where
  "decode_handshake_response f \<longleftrightarrow>
     cf_id f = handshake_response_id \<and> \<not> cf_extended f \<and> \<not> cf_remote f \<and> cf_fd f \<and> cf_brs f \<and>
     cf_len f = 8 \<and> take 8 (cf_data f) = [0x43, 0x48, 0x41, 0x53, 0x53, 0x49, 0x53, 1]"

definition encode_velocity :: "velocity_command \<Rightarrow> can_frame option" where
  "encode_velocity c =
     (if vc_linear c < - 2000 \<or> vc_linear c > 2000 \<or> vc_angular c < - 10000 \<or> vc_angular c > 10000
         \<or> (\<not> vc_enabled c \<and> (vc_linear c \<noteq> 0 \<or> vc_angular c \<noteq> 0)) then None
      else
        let data = zero_data[0 := schema_version, 1 := (if vc_enabled c then 1 else 0),
                             2 := vc_sequence c];
            data = put_i16 data 4 (vc_linear c);
            data = put_i16 data 6 (vc_angular c);
            crc = crc16 (ucast velocity_command_id) (Some data) 10;
            data = data[10 := ucast (crc AND 0xFF), 11 := ucast (drop_bit 8 crc)]
        in Some (fd_frame velocity_command_id data 12))"

definition encode_heartbeat :: "heartbeat \<Rightarrow> can_frame option" where
  "encode_heartbeat h =
     (if hb_node_state h > 5 \<or> hb_flags h AND 0xFE \<noteq> 0 then None
      else
        let data = zero_data[0 := schema_version, 1 := hb_node_state h, 2 := hb_sequence h,
                             3 := hb_flags h];
            data = put_u32 data 4 (hb_uptime_ms h);
            data = put_u16 data 8 (hb_fault_summary h);
            data = put_u16 data 10 (crc16 (ucast heartbeat_id) (Some data) 10)
        in Some (fd_frame heartbeat_id data 12))"

section \<open>Decoders\<close>

definition is_frame :: "can_frame \<Rightarrow> u32 \<Rightarrow> u8 \<Rightarrow> bool" where
  "is_frame f ident len \<longleftrightarrow>
     cf_id f = ident \<and> \<not> cf_extended f \<and> \<not> cf_remote f \<and> cf_fd f \<and> cf_brs f \<and>
     cf_len f = len \<and> cf_data f ! 0 = schema_version"

definition decode_motion :: "can_frame \<Rightarrow> motion_status \<Rightarrow> bool \<times> motion_status" where
  "decode_motion f out =
     (let d = cf_data f in
      if \<not> is_frame f motion_status_id 16 \<or> d ! 1 AND 0xFC \<noteq> 0 \<or> d ! 3 > 5 then (False, out)
      else
        let s = \<lparr>ms_valid = d ! 1 AND 1 \<noteq> 0, ms_running = d ! 1 AND 2 \<noteq> 0, ms_sequence = d ! 2,
                 ms_control_state = d ! 3, ms_left_velocity = get_i16 d 4,
                 ms_right_velocity = get_i16 d 6, ms_linear_velocity = get_i16 d 8,
                 ms_angular_velocity = get_i16 d 10, ms_left_output = get_i16 d 12,
                 ms_right_output = get_i16 d 14\<rparr>
        in (ms_left_output s \<ge> - 1000 \<and> ms_left_output s \<le> 1000 \<and>
            ms_right_output s \<ge> - 1000 \<and> ms_right_output s \<le> 1000, s))"

definition decode_odometry :: "can_frame \<Rightarrow> odometry_report option" where
  "decode_odometry f =
     (let d = cf_data f in
      if \<not> is_frame f odometry_report_id 24 \<or> d ! 1 AND 0xFE \<noteq> 0 \<or> d ! 3 \<noteq> 0 then None
      else Some \<lparr>od_valid = d ! 1 AND 1 \<noteq> 0, od_sequence = d ! 2, od_timestamp_ms = get_u32 d 4,
                 od_x = get_i32 d 8, od_y = get_i32 d 12, od_heading = get_i32 d 16,
                 od_linear_velocity = get_i16 d 20, od_angular_velocity = get_i16 d 22\<rparr>)"

definition decode_heartbeat :: "can_frame \<Rightarrow> heartbeat option" where
  "decode_heartbeat f =
     (let d = cf_data f in
      if \<not> is_frame f heartbeat_id 12 \<or> d ! 1 > 5 \<or> d ! 3 AND 0xFE \<noteq> 0 \<or>
         get_u16 d 10 \<noteq> crc16 (ucast heartbeat_id) (Some d) 10 then None
      else Some \<lparr>hb_node_state = d ! 1, hb_sequence = d ! 2, hb_flags = d ! 3,
                 hb_uptime_ms = get_u32 d 4, hb_fault_summary = get_u16 d 8\<rparr>)"

definition decode_fault :: "can_frame \<Rightarrow> fault_status option" where
  "decode_fault f =
     (let d = cf_data f in
      if \<not> is_frame f fault_status_id 16 \<or> d ! 1 > 2 \<or> d ! 3 AND 0xFC \<noteq> 0 \<or>
         get_u16 d 14 \<noteq> crc16 (ucast fault_status_id) (Some d) 14 then None
      else Some \<lparr>fs_severity = d ! 1, fs_sequence = d ! 2, fs_flags = d ! 3,
                 fs_active_faults = get_u32 d 4, fs_latched_faults = get_u32 d 8,
                 fs_fault_sequence = get_u16 d 12\<rparr>)"

section \<open>The CRC detects local corruption\<close>

lemma crc_bit_alt: "crc_bit c = push_bit 1 c XOR (if bit c 15 then 0x1021 else 0)"
proof -
  have "c AND 0x8000 \<noteq> 0 \<longleftrightarrow> bit c 15"
    using and_exp_eq_0_iff_not_bit [of c 15] by simp
  then show ?thesis by (simp add: crc_bit_def)
qed

lemma crc_bit_xor: "crc_bit (a XOR b) = crc_bit a XOR crc_bit b"
  by (auto simp: crc_bit_alt push_bit_xor bit_xor_iff ac_simps)

lemma bit_shl1: "bit (push_bit 1 (c :: u16)) n \<longleftrightarrow> 1 \<le> n \<and> n < 16 \<and> bit c (n - 1)"
  unfolding bit_push_bit_iff by auto

lemma crc_bit_low: "bit (crc_bit c) 0 = bit c 15"
  unfolding crc_bit_alt bit_xor_iff bit_shl1 by simp

lemma crc_bit_inj:
  assumes "crc_bit a = crc_bit b"
  shows "a = b"
proof (rule bit_word_eqI)
  fix n
  assume n: "n < LENGTH(16)"
  have top: "bit a 15 = bit b 15"
    using assms crc_bit_low [of a] crc_bit_low [of b] by simp
  have "push_bit 1 a = push_bit 1 b"
    using assms unfolding crc_bit_alt top word_xor_cancel .
  then have "bit (push_bit 1 a) (Suc n) = bit (push_bit 1 b) (Suc n)"
    by (rule arg_cong)
  then show "bit a n = bit b n"
    using n top unfolding bit_shl1 by (cases "n = 15") auto
qed

lemma crc_bits_inj: "(crc_bit ^^ n) a = (crc_bit ^^ n) b \<Longrightarrow> a = b"
  by (induction n) (auto dest: crc_bit_inj)

lemma crc_byte_inj_state: "crc_byte v a = crc_byte v b \<Longrightarrow> a = b"
  by (auto simp: crc_byte_def dest!: crc_bits_inj)

lemma push_ucast_inj: "push_bit 8 (ucast v :: u16) = push_bit 8 (ucast w) \<Longrightarrow> v = (w :: u8)"
proof (rule bit_word_eqI)
  fix n
  assume eq: "push_bit 8 (ucast v :: u16) = push_bit 8 (ucast w)" and n: "n < LENGTH(8)"
  then have "bit (push_bit 8 (ucast v :: u16)) (n + 8) = bit (push_bit 8 (ucast w :: u16)) (n + 8)"
    by simp
  with n show "bit v n = bit w n"
    by (simp add: bit_push_bit_iff bit_ucast_iff)
qed

lemma crc_byte_inj_byte: "crc_byte v a = crc_byte w a \<Longrightarrow> v = w"
  by (auto simp: crc_byte_def dest!: crc_bits_inj push_ucast_inj)

lemma crc_bytes_inj_state: "fold crc_byte bs a = fold crc_byte bs b \<Longrightarrow> a = b"
  by (induction bs arbitrary: a b) (auto dest: crc_byte_inj_state)

lemma crc_bytes_update:
  "i < length bs \<Longrightarrow> v \<noteq> bs ! i \<Longrightarrow> fold crc_byte (bs[i := v]) c \<noteq> fold crc_byte bs c"
proof (induction bs arbitrary: i c)
  case (Cons b bs)
  then show ?case
    by (cases i) (auto dest: crc_bytes_inj_state crc_byte_inj_byte)
qed simp

definition crc_protected :: "u16 \<Rightarrow> u8 \<Rightarrow> u8 list \<Rightarrow> bool" where
  "crc_protected ident n d \<longleftrightarrow> get_u16 d (unat n) = crc16 ident (Some d) n"

lemma get_u16_update:
  assumes "i + 1 < length d" "j = i \<or> j = i + 1" "v \<noteq> d ! j"
  shows "get_u16 (d[j := v]) i \<noteq> get_u16 d i"
proof
  assume eq: "get_u16 (d[j := v]) i = get_u16 d i"
  have "bit v n = bit (d ! j) n" if "n < 8" for n
  proof -
    have "bit (get_u16 (d[j := v]) i) (n + (j - i) * 8) = bit (get_u16 d i) (n + (j - i) * 8)"
      by (simp only: eq)
    then show ?thesis
      using assms(1,2) that unfolding get_u16_def bit_or_iff bit_push_bit_iff bit_ucast_iff
      by (auto dest: bit_imp_le_length)
  qed
  then have "v = d ! j" by (intro bit_word_eqI) simp
  with assms(3) show False by simp
qed

text \<open>Any change confined to one byte of the payload or of the stored checksum breaks the checksum.\<close>

lemma crc_protected_update:
  assumes "crc_protected ident n d" "unat n + 1 < length d" "i < unat n + 2" "v \<noteq> d ! i"
  shows "\<not> crc_protected ident n (d[i := v])"
proof (cases "i < unat n")
  case True
  have "crc16 ident (Some (d[i := v])) n \<noteq> crc16 ident (Some d) n"
    using True assms by (simp add: crc16_def Let_def take_update_swap crc_bytes_update)
  moreover have "get_u16 (d[i := v]) (unat n) = get_u16 d (unat n)"
    using True by (simp add: get_u16_def)
  ultimately show ?thesis using assms(1) by (simp add: crc_protected_def)
next
  case False
  then have i: "i = unat n \<or> i = unat n + 1" using assms(3) by linarith
  have "crc16 ident (Some (d[i := v])) n = crc16 ident (Some d) n"
    using False by (simp add: crc16_def Let_def take_update_cancel)
  moreover have "get_u16 (d[i := v]) (unat n) \<noteq> get_u16 d (unat n)"
    using assms(2,4) i by (intro get_u16_update) auto
  ultimately show ?thesis using assms(1) by (simp add: crc_protected_def)
qed

text \<open>Two adjacent payload bytes: the polynomial shifts byte \<open>b\<close> onto \<open>push_bit 8 b\<close>, and \<open>crc_bit\<close> is
  linear, so the two bytes enter the register as one 16-bit value before sixteen injective steps.\<close>

lemma crc_bits_xor: "(crc_bit ^^ n) (a XOR b) = (crc_bit ^^ n) a XOR (crc_bit ^^ n) b"
  by (induction n) (simp_all add: crc_bit_xor)

lemma crc_bit_shift:
  assumes "\<not> bit c 15"
  shows "crc_bit c = push_bit 1 c"
  using assms by (simp only: crc_bit_alt if_False xor.right_neutral)

lemma crc_bits_shift: "n \<le> 8 \<Longrightarrow> (crc_bit ^^ n) (ucast (b :: u8)) = push_bit n (ucast b)"
proof (induction n)
  case (Suc n)
  have "\<not> bit (push_bit n (ucast b :: u16)) 15"
    using Suc.prems by (auto simp: bit_push_bit_iff bit_ucast_iff dest: bit_imp_le_length)
  then have "crc_bit (push_bit n (ucast b)) = push_bit 1 (push_bit n (ucast b))"
    by (rule crc_bit_shift)
  with Suc show ?case
    by (simp only: funpow.simps comp_apply push_bit_push_bit plus_1_eq_Suc)
qed simp

lemma crc_two_bytes:
  "crc_byte w (crc_byte v c) = (crc_bit ^^ 16) (c XOR (push_bit 8 (ucast v) XOR ucast w))"
proof -
  have "(crc_bit ^^ 8) (ucast w) = push_bit 8 (ucast w)" by (rule crc_bits_shift) simp
  then have "crc_byte w (crc_byte v c) =
      (crc_bit ^^ 8) ((crc_bit ^^ 8) (c XOR push_bit 8 (ucast v)) XOR (crc_bit ^^ 8) (ucast w))"
    by (simp only: crc_byte_def)
  also have "\<dots> = (crc_bit ^^ 8) ((crc_bit ^^ 8) ((c XOR push_bit 8 (ucast v)) XOR ucast w))"
    by (simp only: crc_bits_xor)
  also have "\<dots> = (crc_bit ^^ (8 + 8)) (c XOR (push_bit 8 (ucast v) XOR ucast w))"
    by (simp only: funpow_add comp_apply xor.assoc)
  finally show ?thesis by simp
qed

lemma two_bytes_inj:
  assumes "push_bit 8 (ucast v) XOR ucast w = (push_bit 8 (ucast v') XOR ucast w' :: u16)"
  shows "(v :: u8) = v' \<and> (w :: u8) = w'"
proof -
  have b: "bit (push_bit 8 (ucast v) XOR ucast w :: u16) n =
      bit (push_bit 8 (ucast v') XOR ucast w' :: u16) n" for n
    by (simp only: assms)
  have "bit v n = bit v' n" if "n < 8" for n
    using b [of "n + 8"] that unfolding bit_xor_iff bit_push_bit_iff bit_ucast_iff
    by (auto dest: bit_imp_le_length)
  moreover have "bit w n = bit w' n" if "n < 8" for n
    using b [of n] that unfolding bit_xor_iff bit_push_bit_iff bit_ucast_iff by auto
  ultimately show ?thesis by (intro conjI bit_word_eqI) simp_all
qed

lemma crc_two_bytes_inj: "crc_byte w (crc_byte v c) = crc_byte w' (crc_byte v' c) \<Longrightarrow> v = v' \<and> w = w'"
  unfolding crc_two_bytes by (intro two_bytes_inj) (auto dest!: crc_bits_inj)

lemma crc_burst:
  assumes "(v, w) \<noteq> (v', w')"
  shows "fold crc_byte (xs @ [v, w] @ ys) c \<noteq> fold crc_byte (xs @ [v', w'] @ ys) c"
  using assms by (auto dest!: crc_bytes_inj_state crc_two_bytes_inj)

section \<open>Round trips\<close>

lemma bytes_of_get_u16:
  "ucast (get_u16 d i AND 0xFF) = d ! i"
  "ucast (drop_bit 8 (get_u16 d i)) = d ! (i + 1)"
proof -
  have m: "(0xFF :: u16) = mask 8" by (simp add: mask_eq_exp_minus_1)
  show "ucast (get_u16 d i AND 0xFF) = d ! i"
    unfolding m by (rule bit_word_eqI) (auto simp: get_u16_def bit_simps)
  show "ucast (drop_bit 8 (get_u16 d i)) = d ! (i + 1)"
    by (rule bit_word_eqI) (auto simp: get_u16_def bit_simps dest: bit_imp_le_length)
qed

lemma bytes_of_get_u32:
  "ucast (get_u32 d i AND 0xFF) = d ! i"
  "ucast (drop_bit 8 (get_u32 d i) AND 0xFF) = d ! (i + 1)"
  "ucast (drop_bit 16 (get_u32 d i) AND 0xFF) = d ! (i + 2)"
  "ucast (drop_bit 24 (get_u32 d i)) = d ! (i + 3)"
proof -
  have m: "(0xFF :: u32) = mask 8" by (simp add: mask_eq_exp_minus_1)
  note bits = get_u32_def bit_simps
  show "ucast (get_u32 d i AND 0xFF) = d ! i"
    unfolding m by (rule bit_word_eqI) (auto simp: bits)
  show "ucast (drop_bit 8 (get_u32 d i) AND 0xFF) = d ! (i + 1)"
    unfolding m by (rule bit_word_eqI) (auto simp: bits dest: bit_imp_le_length)
  show "ucast (drop_bit 16 (get_u32 d i) AND 0xFF) = d ! (i + 2)"
    unfolding m by (rule bit_word_eqI) (auto simp: bits dest: bit_imp_le_length)
  show "ucast (drop_bit 24 (get_u32 d i)) = d ! (i + 3)"
    by (rule bit_word_eqI) (auto simp: bits dest: bit_imp_le_length)
qed

text \<open>The twelve bytes the heartbeat encoder writes.\<close>

definition heartbeat_head :: "heartbeat \<Rightarrow> u8 list" where
  "heartbeat_head h =
     put_u16 (put_u32 (zero_data[0 := schema_version, 1 := hb_node_state h, 2 := hb_sequence h,
       3 := hb_flags h]) 4 (hb_uptime_ms h)) 8 (hb_fault_summary h)"

lemma encode_heartbeat_eq:
  "encode_heartbeat h =
     (if hb_node_state h > 5 \<or> hb_flags h AND 0xFE \<noteq> 0 then None
      else Some (fd_frame heartbeat_id
        (put_u16 (heartbeat_head h) 10 (crc16 (ucast heartbeat_id) (Some (heartbeat_head h)) 10)) 12))"
  by (simp add: encode_heartbeat_def heartbeat_head_def Let_def)

lemma heartbeat_head_bytes:
  "heartbeat_head h ! 0 = schema_version" "heartbeat_head h ! Suc 0 = hb_node_state h"
  "heartbeat_head h ! 2 = hb_sequence h" "heartbeat_head h ! 3 = hb_flags h"
  "get_u32 (heartbeat_head h) 4 = hb_uptime_ms h" "get_u16 (heartbeat_head h) 8 = hb_fault_summary h"
  "length (heartbeat_head h) = 64"
proof -
  let ?d = "put_u32 (zero_data[0 := schema_version, 1 := hb_node_state h, 2 := hb_sequence h,
       3 := hb_flags h]) 4 (hb_uptime_ms h)"
  have "get_u32 (heartbeat_head h) 4 = get_u32 ?d 4"
    by (simp add: heartbeat_head_def get_u32_def put_nth_other)
  then show "get_u32 (heartbeat_head h) 4 = hb_uptime_ms h"
    by (simp add: get_put_u32)
qed (simp_all add: heartbeat_head_def put_nth_other get_put_u16)

lemma crc16_put_u16:
  "crc16 ident (Some (put_u16 d (unat n) v)) n = crc16 ident (Some d) n"
  by (simp add: crc16_def take_put_u16)

lemma heartbeat_data_protected:
  "crc_protected (ucast heartbeat_id) 10
     (put_u16 (heartbeat_head h) 10 (crc16 (ucast heartbeat_id) (Some (heartbeat_head h)) 10))"
  using crc16_put_u16 [of "ucast heartbeat_id" "heartbeat_head h" 10]
  by (simp add: crc_protected_def get_put_u16 heartbeat_head_bytes)

lemma get_put_u16_other:
  "j + 1 < i \<or> i + 1 < j \<Longrightarrow> get_u16 (put_u16 d i v) j = get_u16 d j"
  "j + 3 < i \<or> i + 1 < j \<Longrightarrow> get_u32 (put_u16 d i v) j = get_u32 d j"
  by (auto simp: get_u16_def get_u32_def put_nth_other)

lemma decode_heartbeat_iff:
  "decode_heartbeat f = Some h \<longleftrightarrow>
     is_frame f heartbeat_id 12 \<and> crc_protected (ucast heartbeat_id) 10 (cf_data f) \<and>
     cf_data f ! 1 \<le> 5 \<and> cf_data f ! 3 AND 0xFE = 0 \<and>
     h = \<lparr>hb_node_state = cf_data f ! 1, hb_sequence = cf_data f ! 2, hb_flags = cf_data f ! 3,
          hb_uptime_ms = get_u32 (cf_data f) 4, hb_fault_summary = get_u16 (cf_data f) 8\<rparr>"
  by (auto simp: decode_heartbeat_def crc_protected_def Let_def not_less)

lemma decode_fault_iff:
  "decode_fault f = Some s \<longleftrightarrow>
     is_frame f fault_status_id 16 \<and> crc_protected (ucast fault_status_id) 14 (cf_data f) \<and>
     cf_data f ! 1 \<le> 2 \<and> cf_data f ! 3 AND 0xFC = 0 \<and>
     s = \<lparr>fs_severity = cf_data f ! 1, fs_sequence = cf_data f ! 2, fs_flags = cf_data f ! 3,
          fs_active_faults = get_u32 (cf_data f) 4, fs_latched_faults = get_u32 (cf_data f) 8,
          fs_fault_sequence = get_u16 (cf_data f) 12\<rparr>"
  by (auto simp: decode_fault_def crc_protected_def Let_def not_less)

lemma decode_needs_crc:
  "\<not> crc_protected (ucast heartbeat_id) 10 (cf_data f) \<Longrightarrow> decode_heartbeat f = None"
  "\<not> crc_protected (ucast fault_status_id) 14 (cf_data f) \<Longrightarrow> decode_fault f = None"
  by (auto simp: decode_heartbeat_def decode_fault_def crc_protected_def Let_def)

lemma decode_has_crc:
  "decode_heartbeat f \<noteq> None \<Longrightarrow> crc_protected (ucast heartbeat_id) 10 (cf_data f)"
  "decode_fault f \<noteq> None \<Longrightarrow> crc_protected (ucast fault_status_id) 14 (cf_data f)"
  by (rule ccontr, simp add: decode_needs_crc)+

lemma heartbeat_decode_encode:
  assumes "encode_heartbeat h = Some f"
  shows "decode_heartbeat f = Some h \<and> can_frame_valid f \<and> frame_wf f"
proof -
  let ?d = "put_u16 (heartbeat_head h) 10 (crc16 (ucast heartbeat_id) (Some (heartbeat_head h)) 10)"
  have f: "f = fd_frame heartbeat_id ?d 12" "hb_node_state h \<le> 5" "hb_flags h AND 0xFE = 0"
    using assms by (auto simp: encode_heartbeat_eq split: if_splits)
  have "decode_heartbeat f = Some h"
    using f heartbeat_data_protected [of h]
    by (simp add: decode_heartbeat_iff is_frame_def fd_frame_def put_nth_other heartbeat_head_bytes
        get_put_u16_other)
  moreover have "can_frame_valid f" "frame_wf f"
    by (simp_all add: f(1) can_frame_valid_def frame_wf_def fd_frame_def heartbeat_head_bytes
        heartbeat_id_def max_data_length_def Let_def)
  ultimately show ?thesis by simp
qed

text \<open>Every heartbeat the encoder accepts is decoded back to itself, from a frame that the driver
  and the transport accept.\<close>

theorem heartbeat_roundtrip:
  assumes "encode_heartbeat h = Some f"
  shows "decode_heartbeat f = Some h \<and> can_frame_valid f \<and> frame_wf f"
  using assms by (rule heartbeat_decode_encode)

theorem heartbeat_roundtrip_witness:
  "let h = \<lparr>hb_node_state = 1, hb_sequence = 200, hb_flags = 1, hb_uptime_ms = 305419896,
            hb_fault_summary = 48879\<rparr>
   in \<exists>f. encode_heartbeat h = Some f \<and> decode_heartbeat f = Some h"
proof -
  let ?h = "\<lparr>hb_node_state = 1, hb_sequence = 200, hb_flags = 1, hb_uptime_ms = 305419896,
            hb_fault_summary = 48879\<rparr>"
  obtain f where f: "encode_heartbeat ?h = Some f"
    by (simp add: encode_heartbeat_eq)
  from f heartbeat_roundtrip [OF f] show ?thesis by (auto simp: Let_def)
qed

lemma heartbeat_head_of_decoded:
  assumes "decode_heartbeat f = Some h" "frame_wf f" "i < 10"
  shows "heartbeat_head h ! i = cf_data f ! i"
proof -
  have h: "h = \<lparr>hb_node_state = cf_data f ! 1, hb_sequence = cf_data f ! 2, hb_flags = cf_data f ! 3,
      hb_uptime_ms = get_u32 (cf_data f) 4, hb_fault_summary = get_u16 (cf_data f) 8\<rparr>"
    and v: "cf_data f ! 0 = schema_version"
    using assms(1) by (auto simp: decode_heartbeat_iff is_frame_def)
  have "i \<in> {0, 1, 2, 3, 4, 5, 6, 7, 8, 9}" using assms(3) by auto
  then show ?thesis
    using bytes_of_get_u32 [of "cf_data f" 4] bytes_of_get_u16 [of "cf_data f" 8]
    by (auto simp: h v heartbeat_head_def put_u16_def put_u32_def)
qed

text \<open>A heartbeat the decoder accepts is the canonical encoding of what it returns: re-encoding the
  decoded message reproduces the frame's twelve bytes.\<close>

theorem heartbeat_canonical:
  assumes "decode_heartbeat f = Some h" "frame_wf f"
  shows "\<exists>g. encode_heartbeat h = Some g \<and> take 12 (cf_data g) = take 12 (cf_data f)"
proof -
  let ?c = "crc16 (ucast heartbeat_id) (Some (heartbeat_head h)) 10"
  have wf: "length (cf_data f) = 64" using assms(2) by (simp add: frame_wf_def max_data_length_def)
  have enc: "encode_heartbeat h = Some (fd_frame heartbeat_id (put_u16 (heartbeat_head h) 10 ?c) 12)"
    using assms(1) by (auto simp: decode_heartbeat_iff encode_heartbeat_eq not_less)
  have head: "take 10 (heartbeat_head h) = take 10 (cf_data f)"
    by (rule nth_equalityI) (simp_all add: wf heartbeat_head_bytes heartbeat_head_of_decoded [OF assms])
  have "crc_protected (ucast heartbeat_id) 10 (cf_data f)"
    using assms(1) by (simp add: decode_heartbeat_iff)
  then have c: "?c = get_u16 (cf_data f) 10"
    by (simp add: crc16_def head crc_protected_def)
  have "take 12 (put_u16 (heartbeat_head h) 10 ?c) = take 12 (cf_data f)"
  proof (rule nth_equalityI)
    fix i
    assume "i < length (take 12 (put_u16 (heartbeat_head h) 10 ?c))"
    then have "i < 12" by (simp add: heartbeat_head_bytes)
    then consider "i < 10" | "i = 10" | "i = 11" by linarith
    then show "take 12 (put_u16 (heartbeat_head h) 10 ?c) ! i = take 12 (cf_data f) ! i"
      using bytes_of_get_u16 [of "cf_data f" 10]
      by cases (simp_all add: c put_nth_other heartbeat_head_of_decoded [OF assms],
        simp_all add: put_u16_def heartbeat_head_bytes)
  qed (simp add: wf heartbeat_head_bytes)
  with enc show ?thesis by (simp add: fd_frame_def)
qed

text \<open>C31: corrupting any one byte of a heartbeat or fault frame, checksum included, makes the decoder
  reject it.\<close>

theorem single_byte_corruption_rejected:
  assumes "frame_wf f" "v \<noteq> cf_data f ! i"
  shows "(decode_heartbeat f \<noteq> None \<and> i < 12 \<longrightarrow>
            decode_heartbeat (f\<lparr>cf_data := (cf_data f)[i := v]\<rparr>) = None) \<and>
         (decode_fault f \<noteq> None \<and> i < 16 \<longrightarrow>
            decode_fault (f\<lparr>cf_data := (cf_data f)[i := v]\<rparr>) = None)"
proof (intro conjI impI)
  have len: "length (cf_data f) = 64"
    using assms(1) by (simp add: frame_wf_def max_data_length_def)
  show "decode_heartbeat (f\<lparr>cf_data := (cf_data f)[i := v]\<rparr>) = None"
    if "decode_heartbeat f \<noteq> None \<and> i < 12"
  proof -
    have "crc_protected (ucast heartbeat_id) 10 (cf_data f)"
      using that by (intro decode_has_crc) simp
    then show ?thesis
      using that assms(2) len by (intro decode_needs_crc) (simp add: crc_protected_update)
  qed
  show "decode_fault (f\<lparr>cf_data := (cf_data f)[i := v]\<rparr>) = None"
    if "decode_fault f \<noteq> None \<and> i < 16"
  proof -
    have "crc_protected (ucast fault_status_id) 14 (cf_data f)"
      using that by (intro decode_has_crc) simp
    then show ?thesis
      using that assms(2) len by (intro decode_needs_crc) (simp add: crc_protected_update)
  qed
qed

definition sample_heartbeat :: heartbeat where
  "sample_heartbeat = \<lparr>hb_node_state = 1, hb_sequence = 200, hb_flags = 1,
     hb_uptime_ms = 305419896, hb_fault_summary = 48879\<rparr>"

definition sample_heartbeat_frame :: can_frame where
  "sample_heartbeat_frame = the (encode_heartbeat sample_heartbeat)"

lemma sample_heartbeat_encodes: "encode_heartbeat sample_heartbeat = Some sample_heartbeat_frame"
  by (simp add: sample_heartbeat_frame_def sample_heartbeat_def encode_heartbeat_eq)

lemma sample_heartbeat_bytes:
  "cf_data sample_heartbeat_frame ! 4 = 0x78" "cf_data sample_heartbeat_frame ! 5 = 0x56"
  by (simp_all add: sample_heartbeat_frame_def sample_heartbeat_def encode_heartbeat_eq fd_frame_def
      heartbeat_head_def put_nth_other, simp_all add: put_u32_def)

lemma sample_heartbeat_decodes:
  "decode_heartbeat sample_heartbeat_frame = Some sample_heartbeat" "frame_wf sample_heartbeat_frame"
  using heartbeat_decode_encode [OF sample_heartbeat_encodes] by simp_all

text \<open>A controller's fault report, for the examples: the repository decodes these but never sends one.\<close>

definition sample_fault_frame :: "u8 \<Rightarrow> u8 \<Rightarrow> can_frame" where
  "sample_fault_frame severity seq =
     (let d = zero_data[0 := schema_version, 1 := severity, 2 := seq] in
      fd_frame fault_status_id (put_u16 d 14 (crc16 (ucast fault_status_id) (Some d) 14)) 16)"

lemma sample_fault_decodes:
  assumes "severity \<le> 2"
  shows "decode_fault (sample_fault_frame severity seq) =
    Some \<lparr>fs_severity = severity, fs_sequence = seq, fs_flags = 0, fs_active_faults = 0,
      fs_latched_faults = 0, fs_fault_sequence = 0\<rparr>"
    and "frame_wf (sample_fault_frame severity seq)"
proof -
  let ?d = "zero_data[0 := schema_version, 1 := severity, 2 := seq]"
  let ?e = "put_u16 ?d 14 (crc16 (ucast fault_status_id) (Some ?d) 14)"
  have f: "sample_fault_frame severity seq = fd_frame fault_status_id ?e 16"
    by (simp add: sample_fault_frame_def Let_def)
  have "crc_protected (ucast fault_status_id) 14 ?e"
    using crc16_put_u16 [of "ucast fault_status_id" ?d 14] by (simp add: crc_protected_def get_put_u16)
  moreover have "?e ! 0 = schema_version" "?e ! 1 = severity" "?e ! 2 = seq" "?e ! 3 = 0"
    by (simp_all add: put_nth_other, simp add: zero_data_def max_data_length_def)
  moreover have "get_u32 ?e 4 = 0" "get_u32 ?e 8 = 0" "get_u16 ?e 12 = 0"
    by (simp_all add: get_put_u16_other, simp_all add: get_u32_def get_u16_def zero_data_def max_data_length_def)
  ultimately show "decode_fault (sample_fault_frame severity seq) =
    Some \<lparr>fs_severity = severity, fs_sequence = seq, fs_flags = 0, fs_active_faults = 0,
      fs_latched_faults = 0, fs_fault_sequence = 0\<rparr>"
    using assms unfolding decode_fault_iff f by (simp add: is_frame_def fd_frame_def)
  show "frame_wf (sample_fault_frame severity seq)"
    by (simp add: f frame_wf_def fd_frame_def max_data_length_def)
qed

theorem heartbeat_canonical_witness:
  "\<exists>g. encode_heartbeat sample_heartbeat = Some g \<and>
       take 12 (cf_data g) = take 12 (cf_data sample_heartbeat_frame)"
  by (rule heartbeat_canonical [OF sample_heartbeat_decodes])

theorem single_byte_corruption_rejected_witness:
  "decode_heartbeat (sample_heartbeat_frame
     \<lparr>cf_data := (cf_data sample_heartbeat_frame)[4 := 0x79]\<rparr>) = None"
  using single_byte_corruption_rejected [OF sample_heartbeat_decodes(2), of "0x79" 4]
  by (simp add: sample_heartbeat_bytes sample_heartbeat_decodes)

lemma list_update_two:
  "i + 1 < length bs \<Longrightarrow> bs[i := v, i + 1 := w] = take i bs @ [v, w] @ drop (i + 2) bs"
proof (induction bs arbitrary: i)
  case (Cons b bs)
  then show ?case by (cases i; cases bs) auto
qed simp

lemma crc_protected_burst:
  assumes "crc_protected ident n d" "unat n < length d" "i + 1 < unat n" "(v, w) \<noteq> (d ! i, d ! (i + 1))"
  shows "\<not> crc_protected ident n (d[i := v, i + 1 := w])"
proof -
  let ?p = "take (unat n) d"
  have p: "i + 1 < length ?p" using assms by simp
  have "fold crc_byte (?p[i := v, i + 1 := w]) c \<noteq> fold crc_byte ?p c" for c
  proof -
    have "?p = take i ?p @ [d ! i, d ! (i + 1)] @ drop (i + 2) ?p"
      using list_update_two [OF p, of "d ! i" "d ! (i + 1)"] assms(3)
        list_update_id [of ?p i] list_update_id [of ?p "i + 1"] by simp
    then show ?thesis
      using crc_burst [of v w "d ! i" "d ! (i + 1)"] assms(4) by (metis list_update_two [OF p])
  qed
  then have "crc16 ident (Some (d[i := v, i + 1 := w])) n \<noteq> crc16 ident (Some d) n"
    by (simp add: crc16_def Let_def take_update_swap)
  moreover have "get_u16 (d[i := v, i + 1 := w]) (unat n) = get_u16 d (unat n)"
    using assms(3) by (simp add: get_u16_def)
  ultimately show ?thesis using assms(1) by (simp add: crc_protected_def)
qed

text \<open>Any corruption of two adjacent payload bytes (a burst of up to sixteen bits) is rejected too.\<close>

theorem burst_corruption_rejected:
  assumes "frame_wf f" "(v, w) \<noteq> (cf_data f ! i, cf_data f ! (i + 1))"
  shows "(decode_heartbeat f \<noteq> None \<and> i + 1 < 10 \<longrightarrow>
            decode_heartbeat (f\<lparr>cf_data := (cf_data f)[i := v, i + 1 := w]\<rparr>) = None) \<and>
         (decode_fault f \<noteq> None \<and> i + 1 < 14 \<longrightarrow>
            decode_fault (f\<lparr>cf_data := (cf_data f)[i := v, i + 1 := w]\<rparr>) = None)"
proof (intro conjI impI)
  have len: "length (cf_data f) = 64"
    using assms(1) by (simp add: frame_wf_def max_data_length_def)
  note broken = crc_protected_burst [of _ _ "cf_data f" i v w, OF _ _ _ assms(2)]
  show "decode_heartbeat (f\<lparr>cf_data := (cf_data f)[i := v, i + 1 := w]\<rparr>) = None"
    if "decode_heartbeat f \<noteq> None \<and> i + 1 < 10"
  proof -
    have "crc_protected (ucast heartbeat_id) 10 (cf_data f)"
      using that by (intro decode_has_crc) simp
    then have "\<not> crc_protected (ucast heartbeat_id) 10 ((cf_data f)[i := v, i + 1 := w])"
      using that len by (intro broken) simp_all
    then show ?thesis by (intro decode_needs_crc) simp
  qed
  show "decode_fault (f\<lparr>cf_data := (cf_data f)[i := v, i + 1 := w]\<rparr>) = None"
    if "decode_fault f \<noteq> None \<and> i + 1 < 14"
  proof -
    have "crc_protected (ucast fault_status_id) 14 (cf_data f)"
      using that by (intro decode_has_crc) simp
    then have "\<not> crc_protected (ucast fault_status_id) 14 ((cf_data f)[i := v, i + 1 := w])"
      using that len by (intro broken) simp_all
    then show ?thesis by (intro decode_needs_crc) simp
  qed
qed

theorem burst_corruption_rejected_witness:
  "decode_heartbeat (sample_heartbeat_frame
     \<lparr>cf_data := (cf_data sample_heartbeat_frame)[4 := 0x79, 5 := 0x55]\<rparr>) = None"
  using burst_corruption_rejected [OF sample_heartbeat_decodes(2), of "0x79" "0x55" 4]
  by (simp add: sample_heartbeat_bytes sample_heartbeat_decodes)

definition velocity_in_range :: "velocity_command \<Rightarrow> bool" where
  "velocity_in_range c \<longleftrightarrow> \<bar>vc_linear c\<bar> \<le> 2000 \<and> \<bar>vc_angular c\<bar> \<le> 10000 \<and>
     (vc_enabled c \<or> vc_linear c = 0 \<and> vc_angular c = 0)"

definition velocity_head :: "velocity_command \<Rightarrow> u8 list" where
  "velocity_head c = put_i16 (put_i16 (zero_data[0 := schema_version,
     1 := (if vc_enabled c then 1 else 0), 2 := vc_sequence c]) 4 (vc_linear c)) 6 (vc_angular c)"

lemma encode_velocity_eq:
  "encode_velocity c = (if velocity_in_range c
     then Some (fd_frame velocity_command_id
       (put_u16 (velocity_head c) 10 (crc16 (ucast velocity_command_id) (Some (velocity_head c)) 10)) 12)
     else None)"
  by (auto simp: encode_velocity_def velocity_in_range_def velocity_head_def put_u16_def Let_def)

lemma velocity_head_bytes:
  "length (velocity_head c) = 64" "velocity_head c ! 0 = schema_version"
  "velocity_head c ! Suc 0 = (if vc_enabled c then 1 else 0)" "velocity_head c ! 2 = vc_sequence c"
  "fits_i16 (vc_linear c) \<Longrightarrow> get_i16 (velocity_head c) 4 = vc_linear c"
  "fits_i16 (vc_angular c) \<Longrightarrow> get_i16 (velocity_head c) 6 = vc_angular c"
proof -
  let ?d = "put_i16 (zero_data[0 := schema_version,
     1 := (if vc_enabled c then 1 else 0), 2 := vc_sequence c]) 4 (vc_linear c)"
  have "get_i16 (velocity_head c) 4 = get_i16 ?d 4"
    by (simp add: velocity_head_def get_i16_def put_i16_eq_put_u16 get_put_u16_other)
  then show "fits_i16 (vc_linear c) \<Longrightarrow> get_i16 (velocity_head c) 4 = vc_linear c"
    by (simp add: get_put_i16)
qed (simp_all add: velocity_head_def put_nth_other get_put_i16)

lemma encode_velocity_facts:
  assumes "encode_velocity c = Some f"
  shows "velocity_in_range c" "can_frame_valid f" "frame_wf f" "is_frame f velocity_command_id 12"
    "cf_data f ! 1 = (if vc_enabled c then 1 else 0)" "cf_data f ! 2 = vc_sequence c"
    "get_i16 (cf_data f) 4 = vc_linear c" "get_i16 (cf_data f) 6 = vc_angular c"
    "crc_protected (ucast velocity_command_id) 10 (cf_data f)"
proof -
  show r: "velocity_in_range c"
    using assms by (auto simp: encode_velocity_eq split: if_splits)
  then have f: "f = fd_frame velocity_command_id
      (put_u16 (velocity_head c) 10 (crc16 (ucast velocity_command_id) (Some (velocity_head c)) 10)) 12"
    using assms by (auto simp: encode_velocity_eq split: if_splits)
  have fit: "fits_i16 (vc_linear c)" "fits_i16 (vc_angular c)"
    using r by (auto simp: velocity_in_range_def fits_i16_def)
  show "can_frame_valid f"
    by (simp add: f can_frame_valid_def fd_frame_def max_data_length_def velocity_command_id_def Let_def)
  show "frame_wf f" "is_frame f velocity_command_id 12"
    by (simp_all add: f frame_wf_def is_frame_def fd_frame_def velocity_head_bytes put_nth_other
        max_data_length_def)
  show "cf_data f ! 1 = (if vc_enabled c then 1 else 0)" "cf_data f ! 2 = vc_sequence c"
    by (simp_all add: f fd_frame_def velocity_head_bytes put_nth_other)
  show "get_i16 (cf_data f) 4 = vc_linear c" "get_i16 (cf_data f) 6 = vc_angular c"
    using velocity_head_bytes(5,6) [of c] fit
    by (simp_all add: f fd_frame_def get_i16_def get_put_u16_other)
  show "crc_protected (ucast velocity_command_id) 10 (cf_data f)"
    using crc16_put_u16 [of "ucast velocity_command_id" "velocity_head c" 10]
    by (simp add: f fd_frame_def crc_protected_def get_put_u16 velocity_head_bytes)
qed

text \<open>The velocity encoder accepts exactly the commands inside the protocol's range, with a disabled
  command at rest, and what it writes is a valid frame that carries the command and its checksum.\<close>

theorem velocity_encoding_correct:
  "(encode_velocity c \<noteq> None \<longleftrightarrow> velocity_in_range c) \<and>
   (\<forall>f. encode_velocity c = Some f \<longrightarrow>
      can_frame_valid f \<and> frame_wf f \<and> is_frame f velocity_command_id 12 \<and>
      cf_data f ! 1 = (if vc_enabled c then 1 else 0) \<and> cf_data f ! 2 = vc_sequence c \<and>
      get_i16 (cf_data f) 4 = vc_linear c \<and> get_i16 (cf_data f) 6 = vc_angular c \<and>
      crc_protected (ucast velocity_command_id) 10 (cf_data f))"
  by (intro conjI allI impI) (simp_all add: encode_velocity_facts del: One_nat_def, simp add: encode_velocity_eq)

theorem velocity_encoding_correct_witness:
  "\<exists>f. encode_velocity \<lparr>vc_enabled = True, vc_sequence = 7, vc_linear = - 350, vc_angular = 1200\<rparr> = Some f \<and>
       get_i16 (cf_data f) 4 = - 350 \<and> get_i16 (cf_data f) 6 = 1200"
proof -
  let ?c = "\<lparr>vc_enabled = True, vc_sequence = 7, vc_linear = - 350, vc_angular = 1200\<rparr>"
  have "velocity_in_range ?c" by (simp add: velocity_in_range_def)
  then show ?thesis using velocity_encoding_correct [of ?c] by auto
qed

end
