(* ===== verification/Heartbeat_Monitor.thy ===== *)
theory Heartbeat_Monitor
  imports Chassis_Codec
begin

text \<open>
  \<open>ChassisHeartbeatMonitor\<close> of \<open>cockpit/driver/vehicle/chassis_can_codec.cc\<close>: which heartbeats of the
  chassis controller are taken, when the peer counts as timed out, and how its reboots are counted.
  Sequence numbers and uptimes are serial numbers of 8 and 32 bits, so all differences wrap.
\<close>

datatype heartbeat_status = HbUnknown | HbAlive | HbTimeout

record heartbeat_snapshot =
  hs_status :: heartbeat_status
  hs_heartbeat :: heartbeat
  hs_received_ms :: int
  hs_age_ms :: int
  hs_reboot_count :: u64

record heartbeat_monitor =
  mon_snapshot :: heartbeat_snapshot
  mon_sequence_valid :: bool
  mon_last_sequence :: u8

definition heartbeat0 :: heartbeat where
  "heartbeat0 = \<lparr>hb_node_state = 0, hb_sequence = 0, hb_flags = 0, hb_uptime_ms = 0,
     hb_fault_summary = 0\<rparr>"

definition monitor0 :: heartbeat_monitor where
  "monitor0 = \<lparr>mon_snapshot = \<lparr>hs_status = HbUnknown, hs_heartbeat = heartbeat0, hs_received_ms = 0,
     hs_age_ms = 0, hs_reboot_count = 0\<rparr>, mon_sequence_valid = False, mon_last_sequence = 0\<rparr>"

definition heartbeat_timeout_ms :: int where "heartbeat_timeout_ms = 300"

definition monitor_process :: "heartbeat_monitor \<Rightarrow> can_frame \<Rightarrow> int \<Rightarrow> bool \<times> heartbeat_monitor" where
  "monitor_process m f now =
     (if now < 0 then (False, m)
      else case decode_heartbeat f of
        None \<Rightarrow> (False, m)
      | Some h \<Rightarrow>
          let snap = mon_snapshot m;
              delta = hb_sequence h - mon_last_sequence m
          in if mon_sequence_valid m \<and> (delta = 0 \<or> hs_status snap \<noteq> HbTimeout \<and> delta \<ge> 128)
             then (False, m)
             else
               let last_uptime = hb_uptime_ms (hs_heartbeat snap);
                   rebooted = mon_sequence_valid m \<and> hb_uptime_ms h < last_uptime \<and>
                     hb_uptime_ms h - last_uptime \<ge> push_bit 31 1
               in (True, \<lparr>mon_snapshot = \<lparr>hs_status = HbAlive, hs_heartbeat = h, hs_received_ms = now,
                     hs_age_ms = 0,
                     hs_reboot_count = hs_reboot_count snap + (if rebooted then 1 else 0)\<rparr>,
                     mon_sequence_valid = True, mon_last_sequence = hb_sequence h\<rparr>))"

definition monitor_update :: "heartbeat_monitor \<Rightarrow> int \<Rightarrow> heartbeat_monitor" where
  "monitor_update m now =
     (let snap = mon_snapshot m in
      if hs_status snap = HbAlive \<and> now - hs_received_ms snap \<ge> heartbeat_timeout_ms
      then m\<lparr>mon_snapshot := snap\<lparr>hs_status := HbTimeout\<rparr>\<rparr> else m)"

definition monitor_snapshot :: "heartbeat_monitor \<Rightarrow> int \<Rightarrow> heartbeat_snapshot" where
  "monitor_snapshot m now =
     (let snap = mon_snapshot m in
      if mon_sequence_valid m \<and> now \<ge> hs_received_ms snap
      then snap\<lparr>hs_age_ms := now - hs_received_ms snap\<rparr> else snap)"

lemmas monitor_defs [step_defs] = monitor_process_def monitor_update_def

section \<open>Runs\<close>

text \<open>What can happen to a monitor: a frame is offered, or time passes.\<close>

inductive monitor_step :: "heartbeat_monitor \<Rightarrow> heartbeat_monitor \<Rightarrow> bool" where
  frame: "monitor_process m f now = (ok, m') \<Longrightarrow> monitor_step m m'"
| tick: "monitor_step m (monitor_update m now)"

inductive_cases monitor_stepE: "monitor_step m m'"

inductive monitor_reachable :: "heartbeat_monitor \<Rightarrow> bool" where
  init: "monitor_reachable monitor0"
| step: "monitor_reachable m \<Longrightarrow> monitor_step m m' \<Longrightarrow> monitor_reachable m'"

definition monitor_inv :: "heartbeat_monitor \<Rightarrow> bool" where
  "monitor_inv m \<longleftrightarrow>
     (hs_status (mon_snapshot m) = HbUnknown \<longleftrightarrow> \<not> mon_sequence_valid m) \<and>
     hb_sequence (hs_heartbeat (mon_snapshot m)) = mon_last_sequence m \<and>
     hs_age_ms (mon_snapshot m) = 0 \<and> 0 \<le> hs_received_ms (mon_snapshot m) \<and>
     (\<not> mon_sequence_valid m \<longrightarrow> m = monitor0)"

lemma monitor_inv_init: "monitor_inv monitor0"
  by (simp add: monitor_inv_def monitor0_def heartbeat0_def)

lemma monitor_process_inv: "monitor_inv m \<Longrightarrow> monitor_process m f now = (ok, m') \<Longrightarrow> monitor_inv m'"
  by (auto simp: monitor_inv_def monitor_process_def Let_def split: if_splits option.splits)

lemma monitor_update_inv: "monitor_inv m \<Longrightarrow> monitor_inv (monitor_update m now)"
  by (auto simp: monitor_inv_def monitor_update_def monitor0_def Let_def)

lemma monitor_reachable_inv: "monitor_reachable m \<Longrightarrow> monitor_inv m"
  by (induction rule: monitor_reachable.induct)
    (auto elim!: monitor_stepE intro: monitor_inv_init monitor_process_inv monitor_update_inv)

lemma monitor_process_accepted:
  assumes "monitor_process m f now = (True, m')"
  shows "decode_heartbeat f = Some (hs_heartbeat (mon_snapshot m'))"
    and "hs_status (mon_snapshot m') = HbAlive" and "hs_received_ms (mon_snapshot m') = now"
    and "0 \<le> now" and "mon_sequence_valid m'"
  using assms by (auto simp: monitor_process_def Let_def split: if_splits option.splits)

lemma monitor_process_rejected: "monitor_process m f now = (False, m') \<Longrightarrow> m' = m"
  by (auto simp: monitor_process_def Let_def split: if_splits option.splits)

lemma monitor_update_alive:
  "hs_status (mon_snapshot (monitor_update m now)) = HbAlive \<Longrightarrow>
     hs_status (mon_snapshot m) = HbAlive \<and> now - hs_received_ms (mon_snapshot m) < 300"
  by (auto simp: monitor_update_def heartbeat_timeout_ms_def Let_def split: if_splits)

lemma monitor_update_frame [simp]:
  "mon_sequence_valid (monitor_update m now) = mon_sequence_valid m"
  "mon_last_sequence (monitor_update m now) = mon_last_sequence m"
  "hs_heartbeat (mon_snapshot (monitor_update m now)) = hs_heartbeat (mon_snapshot m)"
  "hs_received_ms (mon_snapshot (monitor_update m now)) = hs_received_ms (mon_snapshot m)"
  "hs_reboot_count (mon_snapshot (monitor_update m now)) = hs_reboot_count (mon_snapshot m)"
  by (simp_all add: monitor_update_def Let_def)

section \<open>What the monitor accepts\<close>

definition acceptable :: "heartbeat_monitor \<Rightarrow> can_frame \<Rightarrow> int \<Rightarrow> bool" where
  "acceptable m f now \<longleftrightarrow> 0 \<le> now \<and>
     (\<exists>h. decode_heartbeat f = Some h \<and>
        (hs_status (mon_snapshot m) = HbUnknown \<or>
         (\<exists>k\<in>{1..127}. unat (hb_sequence h) = (unat (mon_last_sequence m) + k) mod 256) \<or>
         hs_status (mon_snapshot m) = HbTimeout \<and> hb_sequence h \<noteq> mon_last_sequence m))"

lemma serial_ahead:
  fixes s l :: u8
  shows "s - l \<noteq> 0 \<and> \<not> s - l \<ge> 128 \<longleftrightarrow> (\<exists>k\<in>{1..127}. unat s = (unat l + k) mod 256)"
proof
  assume a: "s - l \<noteq> 0 \<and> \<not> s - l \<ge> 128"
  let ?k = "unat (s - l)"
  have "unat s = unat (l + (s - l))" by simp
  also have "\<dots> = (unat l + ?k) mod 256" by (simp only: unat_word_ariths) simp
  finally have "unat s = (unat l + ?k) mod 256" .
  moreover have "0 < ?k" using a by (simp add: unat_gt_0)
  moreover have "?k < 128" using a by (simp add: word_le_nat_alt)
  ultimately show "\<exists>k\<in>{1..127}. unat s = (unat l + k) mod 256" by (intro bexI [of _ ?k]) auto
next
  assume "\<exists>k\<in>{1..127}. unat s = (unat l + k) mod 256"
  then obtain k where k: "k \<in> {1..127}" "unat s = (unat l + k) mod 256" by blast
  have "s = l + of_nat k"
    using k by (intro word_unat_eq_iff [THEN iffD2]) (simp add: unat_word_ariths unat_of_nat mod_simps)
  then have "s - l = of_nat k" by simp
  moreover have "unat (of_nat k :: u8) = k" using k by (simp add: unat_of_nat)
  ultimately show "s - l \<noteq> 0 \<and> \<not> s - l \<ge> 128"
    using k by (auto simp: word_le_nat_alt word_unat_eq_iff)
qed

text \<open>
  In every reachable state, the monitor accepts a frame exactly when it is a well-formed heartbeat
  offered at a non-negative time that is the first one, or is 1 to 127 ahead of the last accepted one, or
  differs from it while the peer is timed out.
\<close>

theorem monitor_accepts_iff:
  assumes "monitor_reachable m"
  shows "fst (monitor_process m f now) \<longleftrightarrow> acceptable m f now"
proof -
  have inv: "monitor_inv m" using assms by (rule monitor_reachable_inv)
  show ?thesis
  proof (cases "decode_heartbeat f")
    case (Some h)
    have "fst (monitor_process m f now) \<longleftrightarrow> 0 \<le> now \<and>
        (\<not> mon_sequence_valid m \<or> hb_sequence h - mon_last_sequence m \<noteq> 0 \<and>
         (hs_status (mon_snapshot m) = HbTimeout \<or> \<not> hb_sequence h - mon_last_sequence m \<ge> 128))"
      using Some by (auto simp: monitor_process_def Let_def)
    moreover have "\<not> mon_sequence_valid m \<longleftrightarrow> hs_status (mon_snapshot m) = HbUnknown"
      using inv by (simp add: monitor_inv_def)
    ultimately show ?thesis
      using Some serial_ahead [of "hb_sequence h" "mon_last_sequence m"]
      by (auto simp: acceptable_def)
  qed (simp add: monitor_process_def acceptable_def)
qed

lemma monitor0_accepts_sample:
  "monitor_process monitor0 sample_heartbeat_frame 50 =
     (True, \<lparr>mon_snapshot = \<lparr>hs_status = HbAlive, hs_heartbeat = sample_heartbeat, hs_received_ms = 50,
        hs_age_ms = 0, hs_reboot_count = 0\<rparr>, mon_sequence_valid = True, mon_last_sequence = 200\<rparr>)"
  by (simp add: monitor_process_def sample_heartbeat_decodes monitor0_def Let_def,
      simp add: sample_heartbeat_def)

theorem monitor_accepts_iff_witness:
  "monitor_reachable monitor0 \<and> fst (monitor_process monitor0 sample_heartbeat_frame 50) \<and>
   acceptable monitor0 sample_heartbeat_frame 50"
  using monitor_accepts_iff [OF monitor_reachable.init, of sample_heartbeat_frame 50]
  by (simp add: monitor0_accepts_sample monitor_reachable.init)

definition monitor_ticks :: "heartbeat_monitor \<Rightarrow> int list \<Rightarrow> heartbeat_monitor" where
  "monitor_ticks m ts = foldl monitor_update m ts"

lemma monitor_ticks_frame [simp]:
  "mon_sequence_valid (monitor_ticks m ts) = mon_sequence_valid m"
  "mon_last_sequence (monitor_ticks m ts) = mon_last_sequence m"
  unfolding monitor_ticks_def by (induction ts arbitrary: m) simp_all

text \<open>
  A heartbeat that was accepted is never accepted again as the next frame, whatever time has passed
  in between and however often the monitor was told the time.
\<close>

theorem replay_rejected:
  assumes "monitor_process m f now = (True, m')"
  shows "\<not> fst (monitor_process (monitor_ticks m' ts) f later)"
proof -
  obtain h where h: "decode_heartbeat f = Some h" "mon_sequence_valid m'" "mon_last_sequence m' = hb_sequence h"
    using assms by (auto simp: monitor_process_def Let_def split: if_splits option.splits)
  then show ?thesis by (simp add: monitor_process_def Let_def)
qed

theorem replay_rejected_witness:
  "\<not> fst (monitor_process (monitor_ticks (snd (monitor_process monitor0 sample_heartbeat_frame 50)) [200, 900])
        sample_heartbeat_frame 901)"
  using replay_rejected [OF monitor0_accepts_sample, of "[200, 900]" 901]
  by (simp add: monitor0_accepts_sample)

lemma diff_mod_wrap:
  assumes "(0 :: int) \<le> a" "a < b" "b < m"
  shows "(a - b) mod m = a - b + m"
proof -
  have "(a - b) mod m = (a - b + m) mod m" by simp
  then show ?thesis using assms by (simp only: mod_pos_pos_trivial)
qed

lemma uptime_went_back:
  fixes u l :: u32
  shows "u < l \<and> u - l \<ge> push_bit 31 1 \<longleftrightarrow> u < l \<and> uint l - uint u \<le> 2 ^ 31"
proof (cases "u < l")
  case True
  then have lt: "uint u < uint l" by (simp add: word_less_def)
  have "uint (u - l) = (uint u - uint l) mod 2 ^ 32" by (simp add: uint_word_ariths)
  also have "\<dots> = uint u - uint l + 2 ^ 32"
    using lt uint_lt2p [of l] by (intro diff_mod_wrap) simp_all
  finally have "uint (u - l) = uint u - uint l + 2 ^ 32" .
  with True show ?thesis by (auto simp: word_le_def)
qed simp

text \<open>
  The reboot counter moves exactly when an accepted heartbeat's uptime is behind the last one by at
  most half the 32-bit range; an uptime that wrapped past \<open>2^32\<close> is not a reboot.
\<close>

theorem reboot_counted_iff:
  assumes "monitor_process m f now = (True, m')"
  shows "hs_reboot_count (mon_snapshot m') = hs_reboot_count (mon_snapshot m) +
     (let last = uint (hb_uptime_ms (hs_heartbeat (mon_snapshot m)));
          new = uint (hb_uptime_ms (hs_heartbeat (mon_snapshot m')))
      in if mon_sequence_valid m \<and> new < last \<and> last - new \<le> 2 ^ 31 then 1 else 0)"
proof -
  obtain h where h: "decode_heartbeat f = Some h" "hs_heartbeat (mon_snapshot m') = h"
    "hs_reboot_count (mon_snapshot m') = hs_reboot_count (mon_snapshot m) +
       (if mon_sequence_valid m \<and> hb_uptime_ms h < hb_uptime_ms (hs_heartbeat (mon_snapshot m)) \<and>
         hb_uptime_ms h - hb_uptime_ms (hs_heartbeat (mon_snapshot m)) \<ge> push_bit 31 1 then 1 else 0)"
    using assms by (auto simp: monitor_process_def Let_def split: if_splits option.splits)
  then show ?thesis
    using uptime_went_back [of "hb_uptime_ms h" "hb_uptime_ms (hs_heartbeat (mon_snapshot m))"]
    by (auto simp: Let_def word_less_def)
qed

theorem reboot_counted_iff_witness:
  "hs_reboot_count (mon_snapshot (snd (monitor_process monitor0 sample_heartbeat_frame 50))) = 0"
  using reboot_counted_iff [OF monitor0_accepts_sample]
  unfolding monitor0_accepts_sample by (simp add: monitor0_def)

end
