(* ===== verification/Chassis_Client.thy ===== *)
theory Chassis_Client
  imports Heartbeat_Monitor
begin

text \<open>
  \<open>ChassisClient\<close> of \<open>cockpit/driver/vehicle/chassis_client.cc\<close> with its \<open>ChassisState\<close>: frames of the
  chassis controller are decoded into one state record, heartbeats go through the monitor, fault
  reports are filtered by a serial number whose baseline is forgotten when the peer reboots or times
  out, and the host's own heartbeat is built every 100 ms. The wall clock read by the code is an
  argument.
\<close>

section \<open>State\<close>

record chassis_state =
  cs_timestamp_ms :: int
  cs_source :: string
  cs_motion_valid :: bool
  cs_running :: bool
  cs_control_state :: u8
  cs_left_velocity :: int
  cs_right_velocity :: int
  cs_linear_velocity :: int
  cs_angular_velocity :: int
  cs_left_output :: int
  cs_right_output :: int
  cs_odometry_valid :: bool
  cs_odometry_timestamp_ms :: u32
  cs_x :: int
  cs_y :: int
  cs_heading :: int
  cs_odometry_linear_velocity :: int
  cs_odometry_angular_velocity :: int
  cs_heartbeat_status :: heartbeat_status
  cs_heartbeat_age_ms :: int
  cs_node_state :: u8
  cs_uptime_ms :: u32
  cs_peer_reboot_count :: u64
  cs_fault_summary :: u16
  cs_fault_severity :: u8
  cs_active_faults :: u32
  cs_latched_faults :: u32
  cs_fault_sequence :: u16

definition chassis_state0 :: chassis_state where
  "chassis_state0 =
     \<lparr>cs_timestamp_ms = 0, cs_source = ''socketcan'', cs_motion_valid = False, cs_running = False,
      cs_control_state = 0, cs_left_velocity = 0, cs_right_velocity = 0, cs_linear_velocity = 0,
      cs_angular_velocity = 0, cs_left_output = 0, cs_right_output = 0, cs_odometry_valid = False,
      cs_odometry_timestamp_ms = 0, cs_x = 0, cs_y = 0, cs_heading = 0,
      cs_odometry_linear_velocity = 0, cs_odometry_angular_velocity = 0,
      cs_heartbeat_status = HbUnknown, cs_heartbeat_age_ms = 0, cs_node_state = 0,
      cs_uptime_ms = 0, cs_peer_reboot_count = 0, cs_fault_summary = 0, cs_fault_severity = 0,
      cs_active_faults = 0, cs_latched_faults = 0, cs_fault_sequence = 0\<rparr>"

datatype decode_status = DsUpdated | DsIgnored | DsInvalid

record chassis_client =
  cc_state :: chassis_state
  cc_monitor :: heartbeat_monitor
  cc_reported_status :: heartbeat_status
  cc_started_ms :: int
  cc_heartbeat_due_ms :: int
  cc_heartbeat_sequence :: u8
  cc_fault_sequence_valid :: bool
  cc_last_fault_sequence :: u8

definition heartbeat_period_ms :: int where "heartbeat_period_ms = 100"

definition chassis_client_new :: "int \<Rightarrow> int \<Rightarrow> chassis_client" where
  "chassis_client_new started_steady_ms wall_ms =
     \<lparr>cc_state = chassis_state0\<lparr>cs_timestamp_ms := wall_ms\<rparr>, cc_monitor = monitor0,
      cc_reported_status = HbUnknown, cc_started_ms = started_steady_ms,
      cc_heartbeat_due_ms = started_steady_ms, cc_heartbeat_sequence = 0,
      cc_fault_sequence_valid = False, cc_last_fault_sequence = 0\<rparr>"

section \<open>Private steps\<close>

definition reset_fault_sequence_baseline :: "chassis_client \<Rightarrow> chassis_client" where
  "reset_fault_sequence_baseline c = c\<lparr>cc_fault_sequence_valid := False, cc_last_fault_sequence := 0\<rparr>"

definition refresh_heartbeat :: "chassis_client \<Rightarrow> int \<Rightarrow> chassis_client" where
  "refresh_heartbeat c now =
     (let hb = monitor_snapshot (cc_monitor c) now in
      c\<lparr>cc_state := (cc_state c)
        \<lparr>cs_heartbeat_status := hs_status hb, cs_heartbeat_age_ms := hs_age_ms hb,
         cs_node_state := hb_node_state (hs_heartbeat hb),
         cs_uptime_ms := hb_uptime_ms (hs_heartbeat hb),
         cs_peer_reboot_count := hs_reboot_count hb,
         cs_fault_summary := hb_fault_summary (hs_heartbeat hb)\<rparr>\<rparr>)"

definition update_heartbeat_timeout :: "chassis_client \<Rightarrow> int \<Rightarrow> chassis_client" where
  "update_heartbeat_timeout c now =
     (let previous_status = cs_heartbeat_status (cc_state c);
          c1 = refresh_heartbeat (c\<lparr>cc_monitor := monitor_update (cc_monitor c) now\<rparr>) now
      in if previous_status \<noteq> HbTimeout \<and> cs_heartbeat_status (cc_state c1) = HbTimeout
         then reset_fault_sequence_baseline c1 else c1)"

definition apply_motion :: "chassis_client \<Rightarrow> motion_status \<Rightarrow> chassis_client" where
  "apply_motion c m = c\<lparr>cc_state := (cc_state c)
     \<lparr>cs_motion_valid := ms_valid m, cs_running := ms_running m,
      cs_control_state := ms_control_state m, cs_left_velocity := ms_left_velocity m,
      cs_right_velocity := ms_right_velocity m, cs_linear_velocity := ms_linear_velocity m,
      cs_angular_velocity := ms_angular_velocity m, cs_left_output := ms_left_output m,
      cs_right_output := ms_right_output m\<rparr>\<rparr>"

definition apply_odometry :: "chassis_client \<Rightarrow> odometry_report \<Rightarrow> chassis_client" where
  "apply_odometry c r = c\<lparr>cc_state := (cc_state c)
     \<lparr>cs_odometry_valid := od_valid r, cs_odometry_timestamp_ms := od_timestamp_ms r,
      cs_x := od_x r, cs_y := od_y r, cs_heading := od_heading r,
      cs_odometry_linear_velocity := od_linear_velocity r,
      cs_odometry_angular_velocity := od_angular_velocity r\<rparr>\<rparr>"

definition apply_fault :: "chassis_client \<Rightarrow> fault_status \<Rightarrow> chassis_client" where
  "apply_fault c s = c\<lparr>cc_fault_sequence_valid := True, cc_last_fault_sequence := fs_sequence s,
     cc_state := (cc_state c)
       \<lparr>cs_fault_severity := fs_severity s, cs_active_faults := fs_active_faults s,
        cs_latched_faults := fs_latched_faults s, cs_fault_sequence := fs_fault_sequence s\<rparr>\<rparr>"

definition finish_update :: "chassis_client \<Rightarrow> int \<Rightarrow> chassis_client" where
  "finish_update c wall_ms =
     c\<lparr>cc_state := (cc_state c)\<lparr>cs_timestamp_ms := wall_ms\<rparr>,
       cc_reported_status := cs_heartbeat_status (cc_state c)\<rparr>"

definition motion_status0 :: motion_status where
  "motion_status0 = \<lparr>ms_valid = False, ms_running = False, ms_sequence = 0, ms_control_state = 0,
     ms_left_velocity = 0, ms_right_velocity = 0, ms_linear_velocity = 0, ms_angular_velocity = 0,
     ms_left_output = 0, ms_right_output = 0\<rparr>"

section \<open>Operations\<close>

text \<open>
  \<open>ProcessFrame\<close> writes its out-parameter exactly when it returns \<open>kUpdated\<close>, and then with the
  client's state, so the result is the status and the new client.
\<close>

definition process_frame :: "chassis_client \<Rightarrow> can_frame \<Rightarrow> int \<Rightarrow> int \<Rightarrow> decode_status \<times> chassis_client" where
  "process_frame c0 f now wall_ms =
     (if now < 0 then (DsInvalid, c0)
      else
        let c = update_heartbeat_timeout c0 now in
        if cf_id f = motion_status_id then
          (case decode_motion f motion_status0 of
             (False, _) \<Rightarrow> (DsInvalid, c)
           | (True, m) \<Rightarrow> (DsUpdated, finish_update (apply_motion c m) wall_ms))
        else if cf_id f = odometry_report_id then
          (case decode_odometry f of
             None \<Rightarrow> (DsInvalid, c)
           | Some r \<Rightarrow> (DsUpdated, finish_update (apply_odometry c r) wall_ms))
        else if cf_id f = heartbeat_id then
          (let previous_reboot_count = cs_peer_reboot_count (cc_state c) in
           case monitor_process (cc_monitor c) f now of
             (False, m) \<Rightarrow>
               (case decode_heartbeat f of Some _ \<Rightarrow> (DsIgnored, c) | None \<Rightarrow> (DsInvalid, c))
           | (True, m) \<Rightarrow>
               let c1 = refresh_heartbeat (c\<lparr>cc_monitor := m\<rparr>) now;
                   c2 = (if cs_peer_reboot_count (cc_state c1) \<noteq> previous_reboot_count
                         then reset_fault_sequence_baseline c1 else c1)
               in (DsUpdated, finish_update c2 wall_ms))
        else if cf_id f = fault_status_id then
          (case decode_fault f of
             None \<Rightarrow> (DsInvalid, c)
           | Some s \<Rightarrow>
               let delta = fs_sequence s - cc_last_fault_sequence c in
               if cc_fault_sequence_valid c \<and> (delta = 0 \<or> delta \<ge> 128) then (DsIgnored, c)
               else (DsUpdated, finish_update (apply_fault c s) wall_ms))
        else (DsIgnored, c))"

definition client_update :: "chassis_client \<Rightarrow> int \<Rightarrow> int \<Rightarrow> bool \<times> chassis_client" where
  "client_update c0 now wall_ms =
     (if now < 0 then (False, c0)
      else
        let c = update_heartbeat_timeout c0 now in
        if cs_heartbeat_status (cc_state c) = cc_reported_status c then (False, c)
        else (True, c\<lparr>cc_reported_status := cs_heartbeat_status (cc_state c),
                      cc_state := (cc_state c)\<lparr>cs_timestamp_ms := wall_ms\<rparr>\<rparr>))"

definition heartbeat_due :: "chassis_client \<Rightarrow> int \<Rightarrow> bool" where
  "heartbeat_due c now \<longleftrightarrow> now \<ge> cc_heartbeat_due_ms c"

definition own_heartbeat :: "chassis_client \<Rightarrow> int \<Rightarrow> heartbeat" where
  "own_heartbeat c now =
     (let uptime = nat (now - cc_started_ms c) in
      \<lparr>hb_node_state = 1, hb_sequence = cc_heartbeat_sequence c, hb_flags = 1,
       hb_uptime_ms = of_nat (min uptime (2 ^ 32 - 1)), hb_fault_summary = 0\<rparr>)"

definition build_heartbeat :: "chassis_client \<Rightarrow> int \<Rightarrow> can_frame option \<times> chassis_client" where
  "build_heartbeat c now =
     (if now < cc_started_ms c \<or> \<not> heartbeat_due c now then (None, c)
      else case encode_heartbeat (own_heartbeat c now) of
        None \<Rightarrow> (None, c)
      | Some f \<Rightarrow> (Some f, c\<lparr>cc_heartbeat_sequence := cc_heartbeat_sequence c + 1,
                             cc_heartbeat_due_ms := now + heartbeat_period_ms\<rparr>))"

definition client_get_state :: "chassis_client \<Rightarrow> int \<Rightarrow> chassis_state" where
  "client_get_state c now =
     (let hb = monitor_snapshot (cc_monitor c) now in
      (cc_state c)\<lparr>cs_heartbeat_status := hs_status hb, cs_heartbeat_age_ms := hs_age_ms hb\<rparr>)"

lemmas client_defs [step_defs] = process_frame_def client_update_def update_heartbeat_timeout_def
  refresh_heartbeat_def reset_fault_sequence_baseline_def apply_motion_def apply_odometry_def
  apply_fault_def finish_update_def

section \<open>The state mirrors the monitor\<close>

definition mirrors :: "chassis_client \<Rightarrow> bool" where
  "mirrors c \<longleftrightarrow>
     cs_heartbeat_status (cc_state c) = hs_status (mon_snapshot (cc_monitor c)) \<and>
     cs_node_state (cc_state c) = hb_node_state (hs_heartbeat (mon_snapshot (cc_monitor c))) \<and>
     cs_uptime_ms (cc_state c) = hb_uptime_ms (hs_heartbeat (mon_snapshot (cc_monitor c))) \<and>
     cs_peer_reboot_count (cc_state c) = hs_reboot_count (mon_snapshot (cc_monitor c)) \<and>
     cs_fault_summary (cc_state c) = hb_fault_summary (hs_heartbeat (mon_snapshot (cc_monitor c)))"

definition client_inv :: "chassis_client \<Rightarrow> bool" where
  "client_inv c \<longleftrightarrow> mirrors c \<and> monitor_reachable (cc_monitor c)"

lemma monitor_snapshot_fields [simp]:
  "hs_status (monitor_snapshot m now) = hs_status (mon_snapshot m)"
  "hs_heartbeat (monitor_snapshot m now) = hs_heartbeat (mon_snapshot m)"
  "hs_reboot_count (monitor_snapshot m now) = hs_reboot_count (mon_snapshot m)"
  "hs_received_ms (monitor_snapshot m now) = hs_received_ms (mon_snapshot m)"
  by (simp_all add: monitor_snapshot_def Let_def)

lemma refresh_heartbeat_mirrors [simp]: "mirrors (refresh_heartbeat c now)"
  by (simp add: mirrors_def refresh_heartbeat_def Let_def)

lemma mirrors_frame [simp]:
  "mirrors (reset_fault_sequence_baseline c) = mirrors c"
  "mirrors (apply_motion c m) = mirrors c"
  "mirrors (apply_odometry c r) = mirrors c"
  "mirrors (apply_fault c s) = mirrors c"
  "mirrors (finish_update c w) = mirrors c"
  by (simp_all add: mirrors_def reset_fault_sequence_baseline_def apply_motion_def apply_odometry_def
      apply_fault_def finish_update_def)

lemma update_heartbeat_timeout_mirrors [simp]: "mirrors (update_heartbeat_timeout c now)"
  by (simp add: update_heartbeat_timeout_def Let_def)

lemma monitor_of_steps [simp]:
  "cc_monitor (reset_fault_sequence_baseline c) = cc_monitor c"
  "cc_monitor (refresh_heartbeat c now) = cc_monitor c"
  "cc_monitor (apply_motion c m) = cc_monitor c"
  "cc_monitor (apply_odometry c r) = cc_monitor c"
  "cc_monitor (apply_fault c s) = cc_monitor c"
  "cc_monitor (finish_update c w) = cc_monitor c"
  "cc_monitor (update_heartbeat_timeout c now) = monitor_update (cc_monitor c) now"
  by (simp_all add: client_defs Let_def)

lemma process_frame_monitor:
  assumes "process_frame c f now w = (st, c')"
  shows "cc_monitor c' = cc_monitor c \<or> cc_monitor c' = monitor_update (cc_monitor c) now \<or>
    (\<exists>m. monitor_process (monitor_update (cc_monitor c) now) f now = (True, m) \<and> cc_monitor c' = m)"
  using assms
  by (auto simp: process_frame_def Let_def split: if_splits option.splits prod.splits bool.splits)

lemma monitor_reachable_update: "monitor_reachable m \<Longrightarrow> monitor_reachable (monitor_update m now)"
  by (blast intro: monitor_reachable.step monitor_step.tick)

lemma monitor_reachable_process:
  "monitor_reachable m \<Longrightarrow> monitor_process m f now = (ok, m') \<Longrightarrow> monitor_reachable m'"
  by (blast intro: monitor_reachable.step monitor_step.frame)

lemma client_inv_new: "client_inv (chassis_client_new s w)"
  by (simp add: client_inv_def mirrors_def chassis_client_new_def chassis_state0_def monitor0_def
      heartbeat0_def monitor_reachable.init [unfolded monitor0_def heartbeat0_def])

lemma process_frame_mirrors: "mirrors c \<Longrightarrow> process_frame c f now w = (st, c') \<Longrightarrow> mirrors c'"
  by (auto simp: process_frame_def Let_def split: if_splits option.splits prod.splits bool.splits)

lemma process_frame_inv: "client_inv c \<Longrightarrow> process_frame c f now w = (st, c') \<Longrightarrow> client_inv c'"
  unfolding client_inv_def using process_frame_monitor [of c f now w st c']
  by (auto intro: process_frame_mirrors monitor_reachable_update monitor_reachable_process)

lemma client_update_inv: "client_inv c \<Longrightarrow> client_update c now w = (b, c') \<Longrightarrow> client_inv c'"
proof -
  assume c: "client_inv c" and u: "client_update c now w = (b, c')"
  have "mirrors (update_heartbeat_timeout c now)" by simp
  then show "client_inv c'"
    using c u unfolding client_inv_def
    by (auto simp: client_update_def mirrors_def Let_def monitor_reachable_update split: if_splits)
qed

lemma build_heartbeat_inv: "client_inv c \<Longrightarrow> build_heartbeat c now = (r, c') \<Longrightarrow> client_inv c'"
  by (auto simp: build_heartbeat_def client_inv_def mirrors_def split: if_splits option.splits)

section \<open>Reachable clients\<close>

inductive client_step :: "chassis_client \<Rightarrow> chassis_client \<Rightarrow> bool" where
  frame: "process_frame c f now w = (st, c') \<Longrightarrow> client_step c c'"
| update: "client_update c now w = (changed, c') \<Longrightarrow> client_step c c'"
| build: "build_heartbeat c now = (out, c') \<Longrightarrow> client_step c c'"

inductive_cases client_stepE: "client_step c c'"

inductive client_reachable :: "chassis_client \<Rightarrow> bool" where
  init: "client_reachable (chassis_client_new started w)"
| step: "client_reachable c \<Longrightarrow> client_step c c' \<Longrightarrow> client_reachable c'"

lemma client_reachable_inv: "client_reachable c \<Longrightarrow> client_inv c"
  by (induction rule: client_reachable.induct)
    (auto elim!: client_stepE intro: client_inv_new process_frame_inv client_update_inv build_heartbeat_inv)

text \<open>
  In every reachable client the published heartbeat fields (status, node state, uptime, reboot count,
  fault summary) are those of its monitor, and the status is unknown exactly until the first accepted
  heartbeat.
\<close>

theorem client_state_mirrors_monitor:
  assumes "client_reachable c"
  shows "mirrors c \<and>
    (cs_heartbeat_status (cc_state c) = HbUnknown \<longleftrightarrow> \<not> mon_sequence_valid (cc_monitor c))"
proof -
  have m: "mirrors c" "monitor_inv (cc_monitor c)"
    using client_reachable_inv [OF assms] by (simp_all add: client_inv_def monitor_reachable_inv)
  have "cs_heartbeat_status (cc_state c) = hs_status (mon_snapshot (cc_monitor c))"
    using m(1) unfolding mirrors_def by blast
  moreover have "hs_status (mon_snapshot (cc_monitor c)) = HbUnknown \<longleftrightarrow> \<not> mon_sequence_valid (cc_monitor c)"
    using m(2) unfolding monitor_inv_def by blast
  ultimately show ?thesis using m(1) by simp
qed

lemma monitor_update_monitor0 [simp]: "monitor_update monitor0 now = monitor0"
  by (simp add: monitor_update_def monitor0_def Let_def)

lemma cc_monitor_new [simp]: "cc_monitor (chassis_client_new s w) = monitor0"
  by (simp add: chassis_client_new_def)

theorem client_state_mirrors_monitor_witness:
  "mirrors (snd (process_frame (chassis_client_new 0 5) sample_heartbeat_frame 50 7))"
proof -
  have "client_reachable (snd (process_frame (chassis_client_new 0 5) sample_heartbeat_frame 50 7))"
    by (rule client_reachable.step [OF client_reachable.init client_step.frame]) (rule prod.collapse [symmetric])
  then show ?thesis by (rule client_state_mirrors_monitor [THEN conjunct1])
qed

section \<open>Fault reports\<close>

definition peer_timed_out_at :: "chassis_client \<Rightarrow> int \<Rightarrow> bool" where
  "peer_timed_out_at c now \<longleftrightarrow>
     cs_heartbeat_status (cc_state c) = HbAlive \<and>
     now - hs_received_ms (mon_snapshot (cc_monitor c)) \<ge> heartbeat_timeout_ms"

lemma update_heartbeat_timeout_baseline:
  assumes "mirrors c"
  shows "cc_fault_sequence_valid (update_heartbeat_timeout c now) \<longleftrightarrow>
      cc_fault_sequence_valid c \<and> \<not> peer_timed_out_at c now"
    and "\<not> peer_timed_out_at c now \<Longrightarrow>
      cc_last_fault_sequence (update_heartbeat_timeout c now) = cc_last_fault_sequence c"
  using assms
  by (auto simp: update_heartbeat_timeout_def peer_timed_out_at_def mirrors_def Let_def
      refresh_heartbeat_def monitor_update_def reset_fault_sequence_baseline_def)

lemma if_guarded_swap: "V \<Longrightarrow> (if V \<and> (A \<or> B) then x else y) = (if \<not> A \<and> \<not> B then y else x)"
  by simp

text \<open>
  A well-formed fault report is taken exactly when no report has been taken since the baseline was
  last forgotten, or the peer times out at this moment, or its serial number is 1 to 127 ahead of the
  last one taken. Otherwise it is ignored, never treated as invalid.
\<close>

theorem fault_report_taken_iff:
  assumes "client_reachable c" "0 \<le> now" "decode_fault f = Some s"
  shows "fst (process_frame c f now w) = (if \<not> cc_fault_sequence_valid c \<or> peer_timed_out_at c now \<or>
       (\<exists>k\<in>{1..127}. unat (fs_sequence s) = (unat (cc_last_fault_sequence c) + k) mod 256)
     then DsUpdated else DsIgnored)"
proof -
  have m: "mirrors c" using client_reachable_inv [OF assms(1)] by (simp add: client_inv_def)
  have ident: "cf_id f = fault_status_id"
    using assms(3) by (simp add: decode_fault_iff is_frame_def)
  let ?c = "update_heartbeat_timeout c now"
  let ?d = "fs_sequence s - cc_last_fault_sequence ?c"
  have "fst (process_frame c f now w) =
      (if cc_fault_sequence_valid ?c \<and> (?d = 0 \<or> ?d \<ge> 128) then DsIgnored else DsUpdated)"
    using assms(2,3) ident by (simp add: process_frame_def Let_def can_id_defs)
  note taken = this
  show ?thesis
  proof (cases "cc_fault_sequence_valid c \<and> \<not> peer_timed_out_at c now")
    case True
    then have c: "cc_fault_sequence_valid ?c" "cc_last_fault_sequence ?c = cc_last_fault_sequence c"
      using update_heartbeat_timeout_baseline [OF m] by simp_all
    let ?e = "fs_sequence s - cc_last_fault_sequence c"
    have "fst (process_frame c f now w) = (if ?e \<noteq> 0 \<and> \<not> ?e \<ge> 128 then DsUpdated else DsIgnored)"
      using taken unfolding c(2) if_guarded_swap [OF c(1)] .
    then show ?thesis
      using True unfolding serial_ahead by simp
  next
    case False
    then have "\<not> cc_fault_sequence_valid ?c"
      using update_heartbeat_timeout_baseline(1) [OF m] by simp
    with False taken show ?thesis by auto
  qed
qed

theorem fault_report_taken_iff_witness:
  "fst (process_frame (chassis_client_new 0 5) (sample_fault_frame 2 9) 50 7) = DsUpdated"
  using fault_report_taken_iff [OF client_reachable.init _ sample_fault_decodes(1), of 50 2 0 5 9 7]
  by (simp add: chassis_client_new_def)

text \<open>
  An accepted heartbeat that shows a reboot makes the client forget the fault baseline, so the first
  report of the rebooted controller is taken whatever its serial number.
\<close>

theorem reboot_forgets_fault_baseline:
  assumes "client_reachable c" "process_frame c f now w = (DsUpdated, c')" "cf_id f = heartbeat_id"
    and "cs_peer_reboot_count (cc_state c') \<noteq> cs_peer_reboot_count (cc_state c)"
    and "decode_fault g = Some s" "now \<le> later"
  shows "fst (process_frame c' g later w') = DsUpdated"
proof -
  have m: "mirrors c" using client_reachable_inv [OF assms(1)] by (simp add: client_inv_def)
  have now: "0 \<le> now" using assms(2) by (auto simp: process_frame_def split: if_splits)
  have keep: "cs_peer_reboot_count (cc_state (update_heartbeat_timeout c now)) =
      cs_peer_reboot_count (cc_state c)"
    using m update_heartbeat_timeout_mirrors [of c now] by (simp add: mirrors_def)
  have "\<not> cc_fault_sequence_valid c'"
    using assms(2-4) now keep
    by (auto simp: process_frame_def Let_def can_id_defs finish_update_def
        reset_fault_sequence_baseline_def split: if_splits option.splits prod.splits bool.splits)
  moreover have "client_reachable c'"
    using assms(1,2) by (blast intro: client_reachable.step client_step.frame)
  ultimately show ?thesis
    using fault_report_taken_iff [of c' later g s w'] assms(5,6) now by simp
qed

definition test_beat :: "u8 \<Rightarrow> u32 \<Rightarrow> heartbeat" where
  "test_beat seq uptime = \<lparr>hb_node_state = 1, hb_sequence = seq, hb_flags = 1, hb_uptime_ms = uptime,
     hb_fault_summary = 0\<rparr>"

definition test_beat_frame :: "u8 \<Rightarrow> u32 \<Rightarrow> can_frame" where
  "test_beat_frame seq uptime = the (encode_heartbeat (test_beat seq uptime))"

lemma test_beat_decodes: "decode_heartbeat (test_beat_frame seq uptime) = Some (test_beat seq uptime)"
proof -
  have "encode_heartbeat (test_beat seq uptime) = Some (test_beat_frame seq uptime)"
    by (simp add: test_beat_frame_def encode_heartbeat_eq, simp add: test_beat_def)
  then show ?thesis using heartbeat_decode_encode by blast
qed

lemma decoded_heartbeat_id: "decode_heartbeat f = Some h \<Longrightarrow> cf_id f = heartbeat_id"
  by (simp add: decode_heartbeat_iff is_frame_def)

lemma process_frame_heartbeat:
  assumes "monitor_process (monitor_update (cc_monitor c) now) f now = (True, m)"
  shows "fst (process_frame c f now w) = DsUpdated" "cc_monitor (snd (process_frame c f now w)) = m"
    "0 \<le> now" "cf_id f = heartbeat_id"
proof -
  show now: "0 \<le> now" using monitor_process_accepted(4) [OF assms] .
  show ident: "cf_id f = heartbeat_id"
    using monitor_process_accepted(1) [OF assms] by (rule decoded_heartbeat_id)
  show "fst (process_frame c f now w) = DsUpdated" "cc_monitor (snd (process_frame c f now w)) = m"
    using now ident assms by (simp_all add: process_frame_def Let_def can_id_defs)
qed

theorem reboot_forgets_fault_baseline_witness:
  "let c1 = snd (process_frame (chassis_client_new 0 5) (test_beat_frame 1 5000) 50 7);
       c2 = snd (process_frame c1 (test_beat_frame 2 10) 150 8)
   in fst (process_frame c2 (sample_fault_frame 1 77) 160 9) = DsUpdated"
proof -
  let ?m1 = "\<lparr>mon_snapshot = \<lparr>hs_status = HbAlive, hs_heartbeat = test_beat 1 5000, hs_received_ms = 50,
        hs_age_ms = 0, hs_reboot_count = 0\<rparr>, mon_sequence_valid = True, mon_last_sequence = 1\<rparr>"
  let ?m2 = "\<lparr>mon_snapshot = \<lparr>hs_status = HbAlive, hs_heartbeat = test_beat 2 10, hs_received_ms = 150,
        hs_age_ms = 0, hs_reboot_count = 1\<rparr>, mon_sequence_valid = True, mon_last_sequence = 2\<rparr>"
  define c1 where "c1 = snd (process_frame (chassis_client_new 0 5) (test_beat_frame 1 5000) 50 7)"
  define c2 where "c2 = snd (process_frame c1 (test_beat_frame 2 10) 150 8)"
  have r1: "client_reachable c1"
    unfolding c1_def
    by (rule client_reachable.step [OF client_reachable.init client_step.frame]) (rule prod.collapse [symmetric])
  have "monitor_process monitor0 (test_beat_frame 1 5000) 50 = (True, ?m1)"
    by (simp add: monitor_process_def test_beat_decodes Let_def monitor0_def, simp add: test_beat_def)
  then have m1: "cc_monitor c1 = ?m1"
    unfolding c1_def by (intro process_frame_heartbeat) simp
  have "monitor_process (monitor_update ?m1 150) (test_beat_frame 2 10) 150 = (True, ?m2)"
    by (simp add: monitor_update_def heartbeat_timeout_ms_def Let_def monitor_process_def test_beat_decodes,
        simp add: test_beat_def word_le_nat_alt)
  then have p: "monitor_process (monitor_update (cc_monitor c1) 150) (test_beat_frame 2 10) 150 = (True, ?m2)"
    by (simp only: m1)
  have step: "process_frame c1 (test_beat_frame 2 10) 150 8 = (DsUpdated, c2)"
    using process_frame_heartbeat(1) [OF p] by (simp add: c2_def prod_eq_iff)
  have m2: "cc_monitor c2 = ?m2"
    unfolding c2_def by (rule process_frame_heartbeat(2) [OF p])
  have "mirrors c1" "mirrors c2"
    using client_reachable_inv [OF r1] process_frame_mirrors [OF _ step] by (simp_all add: client_inv_def)
  then have "cs_peer_reboot_count (cc_state c2) \<noteq> cs_peer_reboot_count (cc_state c1)"
    by (simp add: mirrors_def m1 m2)
  then have "fst (process_frame c2 (sample_fault_frame 1 77) 160 9) = DsUpdated"
    using reboot_forgets_fault_baseline [OF r1 step process_frame_heartbeat(4) [OF p] _
        sample_fault_decodes(1), of 1 160 77 9] by simp
  then show ?thesis by (simp add: c1_def c2_def Let_def)
qed

section \<open>The host's own heartbeat\<close>

text \<open>
  The host and a peer that runs the same monitor, over a list of times: at each time the host builds a
  heartbeat if one is due, and the peer's clock ticks and then sees the frame. The result holds the
  monitor's verdict on every frame sent.
\<close>

fun link_run :: "chassis_client \<Rightarrow> heartbeat_monitor \<Rightarrow> int list \<Rightarrow> bool list \<times> heartbeat_monitor" where
  "link_run c m [] = ([], m)"
| "link_run c m (t # ts) =
     (case build_heartbeat c t of
        (None, c') \<Rightarrow> link_run c' (monitor_update m t) ts
      | (Some f, c') \<Rightarrow>
          (case monitor_process (monitor_update m t) f t of
             (ok, m') \<Rightarrow> (case link_run c' m' ts of (oks, m'') \<Rightarrow> (ok # oks, m''))))"

lemma own_heartbeat_encodes: "\<exists>f. encode_heartbeat (own_heartbeat c now) = Some f"
  by (simp add: encode_heartbeat_eq own_heartbeat_def Let_def)

lemma build_heartbeat_due:
  assumes "cc_started_ms c \<le> now" "heartbeat_due c now"
  shows "\<exists>f. build_heartbeat c now = (Some f, c\<lparr>cc_heartbeat_sequence := cc_heartbeat_sequence c + 1,
      cc_heartbeat_due_ms := now + heartbeat_period_ms\<rparr>) \<and> decode_heartbeat f = Some (own_heartbeat c now)"
  using own_heartbeat_encodes [of c now] assms
  by (auto simp: build_heartbeat_def dest: heartbeat_decode_encode)

definition link_inv :: "int \<Rightarrow> chassis_client \<Rightarrow> heartbeat_monitor \<Rightarrow> bool" where
  "link_inv t c m \<longleftrightarrow> 0 \<le> cc_started_ms c \<and> cc_started_ms c \<le> t \<and> hs_reboot_count (mon_snapshot m) = 0 \<and>
     (mon_sequence_valid m \<longrightarrow> mon_last_sequence m = cc_heartbeat_sequence c - 1 \<and>
        hb_uptime_ms (hs_heartbeat (mon_snapshot m)) \<le> hb_uptime_ms (own_heartbeat c t))"

lemma own_uptime_mono:
  assumes "cc_started_ms c' = cc_started_ms c" "t \<le> t'"
  shows "hb_uptime_ms (own_heartbeat c t) \<le> hb_uptime_ms (own_heartbeat c' t')"
proof -
  have "min (nat (t - cc_started_ms c)) (2 ^ 32 - 1) \<le> min (nat (t' - cc_started_ms c)) (2 ^ 32 - 1)"
    using assms(2) by (auto simp: min_le_iff_disj)
  then show ?thesis
    using assms(1) by (simp add: own_heartbeat_def Let_def word_le_nat_alt unat_of_nat)
qed

lemma link_process:
  assumes "link_inv t0 c m" "t0 \<le> t" "decode_heartbeat f = Some (own_heartbeat c t)"
  shows "\<exists>m'. monitor_process (monitor_update m t) f t = (True, m') \<and>
     link_inv t (c\<lparr>cc_heartbeat_sequence := cc_heartbeat_sequence c + 1, cc_heartbeat_due_ms := d\<rparr>) m'"
proof -
  let ?s = "cc_heartbeat_sequence c"
  have inv: "0 \<le> cc_started_ms c" "cc_started_ms c \<le> t0" "hs_reboot_count (mon_snapshot m) = 0"
    using assms(1) by (auto simp: link_inv_def)
  have one: "?s - (?s - 1) = 1" "\<not> (128 :: u8) \<le> 1" by (simp_all add: word_le_nat_alt)
  have last: "mon_sequence_valid m \<Longrightarrow> mon_last_sequence m = ?s - 1"
    using assms(1) by (simp add: link_inv_def)
  have up: "mon_sequence_valid m \<Longrightarrow> hb_uptime_ms (hs_heartbeat (mon_snapshot m)) \<le> hb_uptime_ms (own_heartbeat c t)"
    using assms(1) own_uptime_mono [OF refl assms(2), of c] by (auto simp: link_inv_def)
  have seq: "hb_sequence (own_heartbeat c t) = ?s" by (simp add: own_heartbeat_def Let_def)
  have noreboot: "\<not> (mon_sequence_valid m \<and> hb_uptime_ms (own_heartbeat c t) < hb_uptime_ms (hs_heartbeat (mon_snapshot m)) \<and> P)" for P
    using up by (auto simp: not_less)
  have now: "\<not> t < 0" using inv(1,2) assms(2) by linarith
  have same: "hb_uptime_ms (own_heartbeat (c\<lparr>cc_heartbeat_sequence := q, cc_heartbeat_due_ms := d\<rparr>) t) =
      hb_uptime_ms (own_heartbeat c t)" for q
    by (simp add: own_heartbeat_def Let_def)
  show ?thesis
    using now inv assms(2) last
    by (auto simp: monitor_process_def assms(3) Let_def seq one noreboot link_inv_def same simp del: diff_diff_eq2)
qed

lemma link_run_accepted:
  "link_inv t0 c m \<Longrightarrow> sorted (t0 # ts) \<Longrightarrow> link_run c m ts = (oks, m') \<Longrightarrow>
     list_all id oks \<and> hs_reboot_count (mon_snapshot m') = 0"
proof (induction ts arbitrary: c m t0 oks)
  case Nil
  then show ?case by (simp add: link_inv_def)
next
  case (Cons t ts)
  have t: "t0 \<le> t" "sorted (t # ts)" using Cons.prems(2) by simp_all
  have started: "cc_started_ms c \<le> t" using Cons.prems(1) t by (simp add: link_inv_def)
  show ?case
  proof (cases "heartbeat_due c t")
    case False
    have "link_inv t c (monitor_update m t)"
      using Cons.prems(1) t(1) own_uptime_mono [OF refl t(1), of c] by (auto simp: link_inv_def)
    then show ?thesis
      using Cons.IH [OF _ t(2)] Cons.prems(3) False by (simp add: build_heartbeat_def)
  next
    case True
    obtain f where f: "build_heartbeat c t = (Some f, c\<lparr>cc_heartbeat_sequence := cc_heartbeat_sequence c + 1,
        cc_heartbeat_due_ms := t + heartbeat_period_ms\<rparr>)" "decode_heartbeat f = Some (own_heartbeat c t)"
      using build_heartbeat_due [OF started True] by blast
    obtain m1 where m1: "monitor_process (monitor_update m t) f t = (True, m1)"
      "link_inv t (c\<lparr>cc_heartbeat_sequence := cc_heartbeat_sequence c + 1,
        cc_heartbeat_due_ms := t + heartbeat_period_ms\<rparr>) m1"
      using link_process [OF Cons.prems(1) t(1) f(2)] by blast
    show ?thesis
      using Cons.IH [OF m1(2) t(2)] Cons.prems(3) f(1) m1(1) by (auto split: prod.splits)
  qed
qed

text \<open>
  A heartbeat is sent whenever one is due, decodes to the host's own status, and a peer that runs the
  monitor accepts every one of them and counts no reboot, over any non-decreasing times, sequence and
  uptime wrap-around included.
\<close>

theorem own_heartbeats_accepted:
  assumes "0 \<le> started" "sorted (started # ts)"
    and "link_run (chassis_client_new started w) monitor0 ts = (oks, m)"
  shows "(ts \<noteq> [] \<longrightarrow> oks \<noteq> []) \<and> list_all id oks \<and> hs_reboot_count (mon_snapshot m) = 0"
proof -
  have "link_inv started (chassis_client_new started w) monitor0"
    using assms(1) by (simp add: link_inv_def chassis_client_new_def monitor0_def)
  moreover have "oks \<noteq> []" if "ts = t # us" for t us
  proof -
    have "\<exists>f c'. build_heartbeat (chassis_client_new started w) t = (Some f, c')"
      using build_heartbeat_due [of "chassis_client_new started w" t] assms(2) that
      by (auto simp: chassis_client_new_def heartbeat_due_def)
    then show ?thesis using assms(3) that by (auto split: prod.splits)
  qed
  ultimately show ?thesis
    using link_run_accepted [OF _ assms(2,3)] by (cases ts) auto
qed

theorem own_heartbeats_accepted_witness:
  "fst (link_run (chassis_client_new 10 5) monitor0 [10, 20, 110, 600, 700]) \<noteq> [] \<and>
   list_all id (fst (link_run (chassis_client_new 10 5) monitor0 [10, 20, 110, 600, 700]))"
  using own_heartbeats_accepted [of 10 "[10, 20, 110, 600, 700]" 5, OF _ _ prod.collapse [symmetric]]
  by simp

end
