(* ===== verification/Float64.thy ===== *)
theory Float64
  imports Complex_Main Prelude
begin

text \<open>
  The IEEE-754 binary64 values the vehicle code computes with: a finite value is \<open>m * 2 ^ e\<close> with an
  integer significand, results are rounded to 53 significant bits with ties to even (gradual underflow
  at exponent -1074, overflow to infinity). The sign of zero is not represented: no operation used by
  the code observes it. Everything is executable on integers.
\<close>

datatype f64 = NaN | Inf bool | Fin int int

fun is_finite :: "f64 \<Rightarrow> bool" where
  "is_finite (Fin m e) = True"
| "is_finite _ = False"

fun bits :: "nat \<Rightarrow> nat" where
  "bits n = (if n = 0 then 0 else Suc (bits (n div 2)))"

declare bits.simps [simp del]

definition sig_bits :: "int \<Rightarrow> int" where
  "sig_bits m = int (bits (nat \<bar>m\<bar>))"

text \<open>\<open>m / 2 ^ k\<close> rounded to the nearest integer, ties to even.\<close>

definition rne :: "int \<Rightarrow> nat \<Rightarrow> int" where
  "rne m k =
     (let q = m div 2 ^ k; r = m mod 2 ^ k in
      if 2 * r < 2 ^ k then q else if 2 * r > 2 ^ k then q + 1 else if even q then q else q + 1)"

definition f64_round :: "int \<Rightarrow> int \<Rightarrow> f64" where
  "f64_round p e =
     (let k = max (sig_bits p - 53) (- 1074 - e);
          m = (if k \<le> 0 then p else rne p (nat k));
          e' = (if k \<le> 0 then e else e + k)
      in if 1024 < sig_bits m + e' then Inf (p < 0) else Fin m e')"

fun f64_mul :: "f64 \<Rightarrow> f64 \<Rightarrow> f64" where
  "f64_mul (Fin a ea) (Fin b eb) = f64_round (a * b) (ea + eb)"
| "f64_mul NaN _ = NaN"
| "f64_mul _ NaN = NaN"
| "f64_mul (Inf s) (Inf t) = Inf (s \<noteq> t)"
| "f64_mul (Inf s) (Fin b _) = (if b = 0 then NaN else Inf (s \<noteq> (b < 0)))"
| "f64_mul (Fin a _) (Inf t) = (if a = 0 then NaN else Inf ((a < 0) \<noteq> t))"

fun f64_less :: "f64 \<Rightarrow> f64 \<Rightarrow> bool" where
  "f64_less (Fin a ea) (Fin b eb) =
     (let e = min ea eb in a * 2 ^ nat (ea - e) < b * 2 ^ nat (eb - e))"
| "f64_less (Inf s) (Fin _ _) = s"
| "f64_less (Fin _ _) (Inf t) = (\<not> t)"
| "f64_less (Inf s) (Inf t) = (s \<and> \<not> t)"
| "f64_less _ _ = False"

text \<open>\<open>std::llround\<close>: nearest integer, halves away from zero; no result for a value that is not finite.\<close>

fun f64_llround :: "f64 \<Rightarrow> int option" where
  "f64_llround (Fin m e) =
     Some (if 0 \<le> e then m * 2 ^ nat e
           else sgn m * ((2 * \<bar>m\<bar> + 2 ^ nat (- e)) div 2 ^ (nat (- e) + 1)))"
| "f64_llround _ = None"

definition f64_of_int :: "int \<Rightarrow> f64" where
  "f64_of_int n = Fin n 0"

section \<open>Values\<close>

definition f64_val :: "int \<Rightarrow> int \<Rightarrow> real" where
  "f64_val m e = of_int m * 2 powi e"

lemma powi_split: "e0 \<le> e \<Longrightarrow> (2 :: real) powi e = 2 powi e0 * 2 ^ nat (e - e0)"
  using power_int_add [of "2 :: real" e0 "e - e0"] by (simp add: power_int_def)

lemma f64_less_val: "f64_less (Fin a ea) (Fin b eb) \<longleftrightarrow> f64_val a ea < f64_val b eb"
proof -
  define e where "e = min ea eb"
  have "f64_val a ea = of_int (a * 2 ^ nat (ea - e)) * 2 powi e"
    using powi_split [of e ea] by (simp add: f64_val_def e_def)
  moreover have "f64_val b eb = of_int (b * 2 ^ nat (eb - e)) * 2 powi e"
    using powi_split [of e eb] by (simp add: f64_val_def e_def)
  ultimately have "f64_val a ea < f64_val b eb \<longleftrightarrow>
      real_of_int (a * 2 ^ nat (ea - e)) < real_of_int (b * 2 ^ nat (eb - e))"
    by (simp only: mult_less_cancel_right_pos zero_less_power_int zero_less_numeral)
  then show ?thesis by (simp only: of_int_less_iff f64_less.simps Let_def e_def)
qed

lemma half_up_error:
  fixes a :: int and k :: nat
  assumes "0 \<le> a"
  shows "\<bar>of_int ((2 * a + 2 ^ k) div 2 ^ (k + 1)) - of_int a / 2 ^ k\<bar> \<le> (1 / 2 :: real)"
proof -
  let ?d = "2 ^ (k + 1) :: int"
  let ?q = "(2 * a + 2 ^ k) div ?d"
  have d: "0 < ?d" by simp
  have "?q * ?d \<le> 2 * a + 2 ^ k" "2 * a + 2 ^ k < ?q * ?d + ?d"
    using d div_mult_mod_eq [of "2 * a + 2 ^ k" ?d] pos_mod_sign [OF d, of "2 * a + 2 ^ k"]
      pos_mod_bound [OF d, of "2 * a + 2 ^ k"] by linarith+
  then have "real_of_int (?q * ?d) \<le> real_of_int (2 * a + 2 ^ k)"
    "real_of_int (2 * a + 2 ^ k) < real_of_int (?q * ?d + ?d)"
    by (simp_all only: of_int_le_iff of_int_less_iff)
  then have "of_int ?q - of_int a / 2 ^ k \<le> (1 / 2 :: real)" "of_int a / 2 ^ k - of_int ?q \<le> (1 / 2 :: real)"
    by (simp_all add: field_simps)
  then show ?thesis unfolding abs_le_iff by simp
qed

lemma f64_llround_error:
  assumes "f64_llround (Fin m e) = Some r"
  shows "\<bar>of_int r - f64_val m e\<bar> \<le> 1 / 2"
proof (cases "0 \<le> e")
  case True
  then show ?thesis using assms by (auto simp: f64_val_def power_int_def)
next
  case False
  have v: "f64_val m e = of_int m / 2 ^ nat (- e)"
  proof -
    have "(2 :: real) powi e = inverse 2 ^ nat (- e)" using False by (simp only: power_int_def if_False)
    then show ?thesis by (simp only: f64_val_def divide_inverse power_inverse)
  qed
  define q where "q = (2 * \<bar>m\<bar> + 2 ^ nat (- e)) div 2 ^ (nat (- e) + 1)"
  have q: "\<bar>of_int q - of_int \<bar>m\<bar> / 2 ^ nat (- e)\<bar> \<le> (1 / 2 :: real)"
    unfolding q_def by (rule half_up_error) simp
  have r: "r = sgn m * q" using assms False by (simp add: q_def)
  consider "m = 0" | "0 < m" | "m < 0" by linarith
  then show ?thesis
  proof cases
    case 1
    then show ?thesis by (simp add: r f64_val_def)
  next
    case 2
    with q show ?thesis unfolding v r by simp
  next
    case 3
    then have "\<bar>of_int r - f64_val m e\<bar> = \<bar>of_int q - of_int \<bar>m\<bar> / (2 :: real) ^ nat (- e)\<bar>"
      unfolding v r by simp
    with q show ?thesis by simp
  qed
qed

lemma f64_llround_bounds:
  assumes "f64_llround (Fin m e) = Some r" "of_int lo \<le> f64_val m e" "f64_val m e \<le> of_int hi"
  shows "lo \<le> r \<and> r \<le> hi"
proof -
  have "real_of_int lo - 1 / 2 \<le> of_int r" "of_int r \<le> real_of_int hi + 1 / 2"
    using f64_llround_error [OF assms(1)] assms(2,3) by linarith+
  then show ?thesis by linarith
qed

section \<open>Rounding\<close>

lemma bits_bounds: "n < 2 ^ bits n \<and> (0 < n \<longrightarrow> 2 ^ bits n \<le> 2 * n)"
proof (induction n rule: bits.induct)
  case (1 n)
  show ?case
  proof (cases "n = 0")
    case False
    then have "n div 2 < 2 ^ bits (n div 2)" "0 < n div 2 \<longrightarrow> 2 ^ bits (n div 2) \<le> 2 * (n div 2)"
      using 1 by simp_all
    moreover have "bits n = Suc (bits (n div 2))" using False by (subst bits.simps) simp
    moreover have "n div 2 = 0 \<Longrightarrow> bits (n div 2) = 0" by (simp add: bits.simps)
    ultimately show ?thesis using False by (cases "n div 2 = 0") auto
  qed (simp add: bits.simps)
qed

lemma sig_bits_lower:
  assumes "53 < sig_bits p"
  shows "2 ^ nat (sig_bits p - 1) \<le> \<bar>p\<bar>"
proof -
  let ?n = "nat \<bar>p\<bar>"
  have b: "0 < bits ?n" using assms by (simp add: sig_bits_def)
  then have "0 < ?n" by (cases "?n = 0") (auto simp: bits.simps)
  then have "2 ^ bits ?n \<le> 2 * ?n" using bits_bounds by blast
  moreover have "2 ^ bits ?n = 2 * (2 :: nat) ^ (bits ?n - 1)" using b by (cases "bits ?n") auto
  ultimately have "2 ^ (bits ?n - 1) \<le> ?n" by simp
  moreover have "nat (sig_bits p - 1) = bits ?n - 1" by (simp add: sig_bits_def)
  ultimately show ?thesis by (simp add: le_nat_iff)
qed

lemma rne_error: "\<bar>of_int (rne m k) - of_int m / 2 ^ k\<bar> \<le> (1 / 2 :: real)"
proof -
  let ?d = "2 ^ k :: int"
  let ?q = "m div ?d" and ?r = "m mod ?d"
  have r: "0 \<le> ?r" "?r < ?d" by simp_all
  have m: "real_of_int m = of_int ?q * 2 ^ k + of_int ?r"
  proof -
    have "real_of_int m = of_int (?q * ?d + ?r)" by (simp only: div_mult_mod_eq)
    then show ?thesis by simp
  qed
  have k: "(0 :: real) < 2 ^ k" by simp
  have low: "2 * ?r \<le> ?d \<Longrightarrow> of_int ?r / 2 ^ k \<le> (1 / 2 :: real)"
  proof -
    assume "2 * ?r \<le> ?d"
    then have "real_of_int (2 * ?r) \<le> of_int ?d" by (simp only: of_int_le_iff)
    then show ?thesis using k by (simp add: field_simps)
  qed
  have high: "?d \<le> 2 * ?r \<Longrightarrow> (1 / 2 :: real) \<le> of_int ?r / 2 ^ k"
  proof -
    assume "?d \<le> 2 * ?r"
    then have "real_of_int ?d \<le> of_int (2 * ?r)" by (simp only: of_int_le_iff)
    then show ?thesis using k by (simp add: field_simps)
  qed
  have "of_int ?r / (2 ^ k :: real) < 1" "0 \<le> of_int ?r / (2 ^ k :: real)"
  proof -
    have "real_of_int ?r < of_int ?d" using r by (simp only: of_int_less_iff)
    then show "of_int ?r / (2 ^ k :: real) < 1" using k by (simp add: field_simps)
    show "0 \<le> of_int ?r / (2 ^ k :: real)" using r k by simp
  qed
  moreover have "of_int m / 2 ^ k = of_int ?q + of_int ?r / (2 ^ k :: real)"
    using m k by (simp add: field_simps)
  ultimately obtain x :: real where x: "of_int m / 2 ^ k = of_int ?q + x" "0 \<le> x" "x < 1"
    "2 * ?r \<le> ?d \<Longrightarrow> x \<le> 1 / 2" "?d \<le> 2 * ?r \<Longrightarrow> 1 / 2 \<le> x"
    using low high by blast
  have "rne m k = ?q \<and> 2 * ?r \<le> ?d \<or> rne m k = ?q + 1 \<and> ?d \<le> 2 * ?r"
    by (auto simp: rne_def Let_def)
  then show ?thesis
    unfolding x(1) using x(2-5) by (elim disjE conjE) (simp_all add: abs_le_iff)
qed

text \<open>Relative error of a rounded result that is finite and not in the subnormal range.\<close>

lemma f64_round_error:
  assumes "f64_round p e = Fin m e'" "- 1074 \<le> e"
  shows "\<bar>f64_val m e' - f64_val p e\<bar> \<le> \<bar>f64_val p e\<bar> * 2 powi (- 53)"
proof (cases "sig_bits p \<le> 53")
  case True
  then have "m = p" "e' = e"
    using assms by (auto simp: f64_round_def Let_def split: if_splits)
  then show ?thesis by simp
next
  case False
  define k where "k = sig_bits p - 53"
  have k: "0 < k" "max (sig_bits p - 53) (- 1074 - e) = k" using False assms(2) by (simp_all add: k_def)
  have m: "m = rne p (nat k)" "e' = e + k"
    using assms(1) k by (auto simp: f64_round_def Let_def split: if_splits)
  have big: "2 ^ nat (sig_bits p - 1) \<le> \<bar>p\<bar>" using False by (intro sig_bits_lower) simp
  have "nat (sig_bits p - 1) = 52 + nat k" using k(1) by (simp add: k_def nat_diff_distrib' nat_add_distrib [symmetric])
  then have big: "(2 :: real) ^ 52 * 2 ^ nat k \<le> \<bar>of_int p\<bar>"
    using big by (metis of_int_abs of_int_le_iff of_int_numeral of_int_power power_add)
  have pk: "(2 :: real) powi k = 2 ^ nat k" using k(1) by (simp add: power_int_def)
  have "f64_val m e' = of_int m * 2 ^ nat k * 2 powi e"
    using pk by (simp add: f64_val_def m(2) power_int_add)
  moreover have "f64_val p e = of_int p / 2 ^ nat k * 2 ^ nat k * 2 powi e"
    by (simp add: f64_val_def)
  ultimately have "f64_val m e' - f64_val p e = (of_int m - of_int p / 2 ^ nat k) * 2 ^ nat k * 2 powi e"
    by (simp only: left_diff_distrib)
  then have "\<bar>f64_val m e' - f64_val p e\<bar> = \<bar>of_int m - of_int p / 2 ^ nat k\<bar> * 2 ^ nat k * 2 powi e"
    by (simp only: abs_mult) simp
  also have "\<dots> \<le> 1 / 2 * 2 ^ nat k * 2 powi e"
    using rne_error [of p "nat k"] by (intro mult_right_mono) (simp_all add: m(1))
  also have "\<dots> \<le> \<bar>of_int p\<bar> * 2 powi (- 53) * 2 powi e"
  proof (intro mult_right_mono)
    have "(2 :: real) powi (- 53) = 1 / 2 / 2 ^ 52" by (simp add: power_int_def power_one_over)
    then show "1 / 2 * 2 ^ nat k \<le> \<bar>real_of_int p\<bar> * 2 powi (- 53)"
      using big by (simp add: field_simps)
  qed simp
  also have "\<dots> = \<bar>f64_val p e\<bar> * 2 powi (- 53)"
    by (simp add: f64_val_def abs_mult mult_ac)
  finally show ?thesis .
qed

end
