(* ===== verification/Safety_Adapter.thy ===== *)
theory Safety_Adapter
  imports Float64
begin

text \<open>
  The chassis safety shield, \<open>cockpit/shield/chassis/chassis_safety_adapter.cc\<close>: the tracker that turns
  heartbeat and fault times into the interlocks of a \<open>ChassisSafetyState\<close>, and the adapter that turns
  velocity requests into bounded, slew-limited commands and stops on every interlock, stale request or
  clock regression.
\<close>

section \<open>State\<close>

datatype stop_reason = SrNone | SrDisabled | SrAuthorityLost | SrEmergencyStop | SrPeerUnavailable
  | SrChassisFault | SrNoCommand | SrInvalidCommand | SrCommandStale | SrClockRegression

record safety_policy =
  sp_max_linear :: int
  sp_max_angular :: int
  sp_max_linear_acc :: int
  sp_max_angular_acc :: int
  sp_command_timeout_ms :: int
  sp_output_period_ms :: int

record safety_state =
  ss_enabled :: bool
  ss_authority :: bool
  ss_emergency_stop :: bool
  ss_peer_alive :: bool
  ss_chassis_fault :: bool

record freshness_policy =
  fp_peer_timeout_ms :: int
  fp_fault_timeout_ms :: int

record safety_tracker =
  tr_policy :: freshness_policy
  tr_last_peer_ms :: int
  tr_last_fault_ms :: int
  tr_fault :: bool

record velocity_request =
  vr_linear :: f64
  vr_angular :: f64

record safe_command =
  sc_enabled :: bool
  sc_sequence :: u8
  sc_linear :: int
  sc_angular :: int
  sc_generated_at_ms :: int
  sc_stop_reason :: stop_reason

record safety_adapter =
  ad_policy :: safety_policy
  ad_request :: "velocity_request option"
  ad_last_request_ms :: int
  ad_last_output_ms :: int
  ad_last_linear :: int
  ad_last_angular :: int
  ad_next_sequence :: u8
  ad_invalid_pending :: bool

definition default_policy :: safety_policy where
  "default_policy = \<lparr>sp_max_linear = 400, sp_max_angular = 1200, sp_max_linear_acc = 400,
     sp_max_angular_acc = 1200, sp_command_timeout_ms = 250, sp_output_period_ms = 20\<rparr>"

definition default_freshness :: freshness_policy where
  "default_freshness = \<lparr>fp_peer_timeout_ms = 300, fp_fault_timeout_ms = 300\<rparr>"

section \<open>The interlock tracker\<close>

definition freshness_valid :: "freshness_policy \<Rightarrow> bool" where
  "freshness_valid p \<longleftrightarrow> fp_peer_timeout_ms p > 0 \<and> fp_fault_timeout_ms p > 0"

definition tracker_new :: "freshness_policy \<Rightarrow> safety_tracker" where
  "tracker_new p = \<lparr>tr_policy = p, tr_last_peer_ms = - 1, tr_last_fault_ms = - 1, tr_fault = True\<rparr>"

definition tracker_peer_heartbeat :: "safety_tracker \<Rightarrow> int \<Rightarrow> bool \<times> safety_tracker" where
  "tracker_peer_heartbeat t now =
     (if \<not> freshness_valid (tr_policy t) \<or> now < 0 \<or>
         (tr_last_peer_ms t \<ge> 0 \<and> now < tr_last_peer_ms t) then (False, t)
      else (True, t\<lparr>tr_last_peer_ms := now\<rparr>))"

definition tracker_chassis_fault :: "safety_tracker \<Rightarrow> bool \<Rightarrow> int \<Rightarrow> bool \<times> safety_tracker" where
  "tracker_chassis_fault t faulted now =
     (if \<not> freshness_valid (tr_policy t) \<or> now < 0 \<or>
         (tr_last_fault_ms t \<ge> 0 \<and> now < tr_last_fault_ms t) then (False, t)
      else (True, t\<lparr>tr_fault := faulted, tr_last_fault_ms := now\<rparr>))"

definition tracker_evaluate :: "safety_tracker \<Rightarrow> safety_state \<Rightarrow> int \<Rightarrow> safety_state" where
  "tracker_evaluate t controls now =
     (let peer_time_valid = tr_last_peer_ms t \<ge> 0 \<and> now \<ge> tr_last_peer_ms t \<and>
            now - tr_last_peer_ms t \<le> fp_peer_timeout_ms (tr_policy t);
          peer_alive = freshness_valid (tr_policy t) \<and> peer_time_valid;
          fault_time_valid = tr_last_fault_ms t \<ge> 0 \<and> now \<ge> tr_last_fault_ms t \<and>
            now - tr_last_fault_ms t \<le> fp_fault_timeout_ms (tr_policy t)
      in controls\<lparr>ss_peer_alive := peer_alive,
                  ss_chassis_fault := peer_alive \<and> (\<not> fault_time_valid \<or> tr_fault t)\<rparr>)"

definition tracker_reset :: "safety_tracker \<Rightarrow> safety_tracker" where
  "tracker_reset t = t\<lparr>tr_last_peer_ms := - 1, tr_last_fault_ms := - 1, tr_fault := True\<rparr>"

section \<open>The adapter\<close>

definition policy_valid :: "safety_policy \<Rightarrow> bool" where
  "policy_valid p \<longleftrightarrow>
     sp_max_linear p > 0 \<and> sp_max_linear p \<le> 2000 \<and>
     sp_max_angular p > 0 \<and> sp_max_angular p \<le> 10000 \<and>
     sp_max_linear_acc p > 0 \<and> sp_max_angular_acc p > 0 \<and>
     sp_command_timeout_ms p > 0 \<and> sp_output_period_ms p > 0 \<and>
     sp_output_period_ms p \<le> sp_command_timeout_ms p"

definition adapter_new :: "safety_policy \<Rightarrow> safety_adapter" where
  "adapter_new p = \<lparr>ad_policy = p, ad_request = None, ad_last_request_ms = 0, ad_last_output_ms = 0,
     ad_last_linear = 0, ad_last_angular = 0, ad_next_sequence = 0, ad_invalid_pending = False\<rparr>"

definition approach :: "int \<Rightarrow> int \<Rightarrow> int \<Rightarrow> int" where
  "approach current target maximum_delta =
     (let delta = target - current;
          bounded = clamp delta (- maximum_delta) maximum_delta
      in to_i32 (current + bounded))"

text \<open>\<open>ToScaledInteger\<close>: \<open>None\<close> is its \<open>false\<close>.\<close>

definition to_scaled_integer :: "f64 \<Rightarrow> f64 \<Rightarrow> int option" where
  "to_scaled_integer value scale =
     (if \<not> is_finite value then None
      else let scaled = f64_mul value scale in
        if f64_less scaled (f64_of_int (- 2147483648)) \<or> f64_less (f64_of_int 2147483647) scaled then None
        else map_option to_i32 (f64_llround scaled))"

definition milli :: f64 where "milli = f64_of_int 1000"

definition adapter_stop :: "safety_adapter \<Rightarrow> stop_reason \<Rightarrow> int \<Rightarrow> safe_command \<times> safety_adapter" where
  "adapter_stop a reason now =
     (\<lparr>sc_enabled = False, sc_sequence = ad_next_sequence a, sc_linear = 0, sc_angular = 0,
       sc_generated_at_ms = now, sc_stop_reason = reason\<rparr>,
      a\<lparr>ad_request := None, ad_last_request_ms := 0, ad_last_linear := 0, ad_last_angular := 0,
        ad_last_output_ms := max 0 now, ad_next_sequence := ad_next_sequence a + 1\<rparr>)"

text \<open>\<open>Submit\<close>: the text of the error, or \<open>None\<close> when the request is taken.\<close>

definition adapter_submit ::
  "safety_adapter \<Rightarrow> velocity_request \<Rightarrow> safety_state \<Rightarrow> int \<Rightarrow> string option \<times> safety_adapter" where
  "adapter_submit a r st now =
     (if \<not> policy_valid (ad_policy a) then
        (Some ''invalid chassis safety policy'', a\<lparr>ad_invalid_pending := True, ad_request := None\<rparr>)
      else if \<not> ss_enabled st \<or> \<not> ss_authority st \<or> ss_emergency_stop st \<or> \<not> ss_peer_alive st \<or>
              ss_chassis_fault st then
        (Some ''velocity command rejected while safety interlock is active'',
         a\<lparr>ad_request := None, ad_last_request_ms := 0\<rparr>)
      else if now < 0 \<or> to_scaled_integer (vr_linear r) milli = None \<or>
              to_scaled_integer (vr_angular r) milli = None then
        (Some ''velocity command must be finite and representable'',
         a\<lparr>ad_invalid_pending := True, ad_request := None, ad_last_request_ms := now\<rparr>)
      else
        (None, a\<lparr>ad_request := Some r, ad_last_request_ms := now, ad_invalid_pending := False\<rparr>))"

definition adapter_reject_invalid :: "safety_adapter \<Rightarrow> int \<Rightarrow> safety_adapter" where
  "adapter_reject_invalid a now =
     a\<lparr>ad_request := None, ad_last_request_ms := now, ad_invalid_pending := True\<rparr>"

definition adapter_reset :: "safety_adapter \<Rightarrow> int \<Rightarrow> safety_adapter" where
  "adapter_reset a now =
     a\<lparr>ad_request := None, ad_invalid_pending := False, ad_last_request_ms := 0,
       ad_last_output_ms := now, ad_last_linear := 0, ad_last_angular := 0\<rparr>"

definition elapsed_ms :: "safety_adapter \<Rightarrow> int \<Rightarrow> int" where
  "elapsed_ms a now =
     (if ad_last_output_ms a = 0 then sp_output_period_ms (ad_policy a)
      else clamp (now - ad_last_output_ms a) 0 (sp_command_timeout_ms (ad_policy a)))"

definition max_step :: "int \<Rightarrow> int \<Rightarrow> int" where
  "max_step acceleration elapsed = max 1 (acceleration * elapsed sdiv 1000)"

definition adapter_evaluate :: "safety_adapter \<Rightarrow> safety_state \<Rightarrow> int \<Rightarrow> safe_command \<times> safety_adapter" where
  "adapter_evaluate a st now =
     (let p = ad_policy a in
      if \<not> policy_valid p then adapter_stop a SrInvalidCommand now
      else if ss_emergency_stop st then adapter_stop a SrEmergencyStop now
      else if ss_chassis_fault st then adapter_stop a SrChassisFault now
      else if \<not> ss_peer_alive st then adapter_stop a SrPeerUnavailable now
      else if \<not> ss_authority st then adapter_stop a SrAuthorityLost now
      else if \<not> ss_enabled st then adapter_stop a SrDisabled now
      else if ad_invalid_pending a then adapter_stop a SrInvalidCommand now
      else case ad_request a of
        None \<Rightarrow> adapter_stop a SrNoCommand now
      | Some r \<Rightarrow>
          if now < ad_last_request_ms a \<or> now < ad_last_output_ms a then
            adapter_stop a SrClockRegression now
          else if now - ad_last_request_ms a > sp_command_timeout_ms p then
            adapter_stop a SrCommandStale now
          else
            (case (to_scaled_integer (vr_linear r) milli, to_scaled_integer (vr_angular r) milli) of
              (Some lin, Some ang) \<Rightarrow>
               (let target_linear = clamp lin (- sp_max_linear p) (sp_max_linear p);
                    target_angular = clamp ang (- sp_max_angular p) (sp_max_angular p);
                    elapsed = elapsed_ms a now;
                    linear = approach (ad_last_linear a) target_linear
                      (max_step (sp_max_linear_acc p) elapsed);
                    angular = approach (ad_last_angular a) target_angular
                      (max_step (sp_max_angular_acc p) elapsed)
                in (\<lparr>sc_enabled = True, sc_sequence = ad_next_sequence a, sc_linear = to_i16 linear,
                     sc_angular = to_i16 angular, sc_generated_at_ms = now, sc_stop_reason = SrNone\<rparr>,
                    a\<lparr>ad_last_linear := linear, ad_last_angular := angular, ad_last_output_ms := now,
                      ad_next_sequence := ad_next_sequence a + 1\<rparr>))
            | _ \<Rightarrow> adapter_stop a SrInvalidCommand now))"

fun stop_reason_name :: "stop_reason \<Rightarrow> string" where
  "stop_reason_name SrNone = ''none''"
| "stop_reason_name SrDisabled = ''disabled''"
| "stop_reason_name SrAuthorityLost = ''authority_lost''"
| "stop_reason_name SrEmergencyStop = ''emergency_stop''"
| "stop_reason_name SrPeerUnavailable = ''peer_unavailable''"
| "stop_reason_name SrChassisFault = ''chassis_fault''"
| "stop_reason_name SrNoCommand = ''no_command''"
| "stop_reason_name SrInvalidCommand = ''invalid_command''"
| "stop_reason_name SrCommandStale = ''command_stale''"
| "stop_reason_name SrClockRegression = ''clock_regression''"

lemmas adapter_defs [step_defs] = adapter_submit_def adapter_reject_invalid_def adapter_reset_def
  adapter_evaluate_def adapter_stop_def

section \<open>Scaled requests\<close>

lemma to_scaled_integer_cases:
  assumes "to_scaled_integer v s = Some r"
  obtains m e q where "f64_mul v s = Fin m e" "f64_llround (Fin m e) = Some q" "r = to_i32 q"
    "- 2147483648 \<le> f64_val m e" "f64_val m e \<le> 2147483647"
proof -
  obtain q where q: "f64_llround (f64_mul v s) = Some q" "r = to_i32 q"
    and range: "\<not> f64_less (f64_mul v s) (f64_of_int (- 2147483648))"
      "\<not> f64_less (f64_of_int 2147483647) (f64_mul v s)"
    using assms by (auto simp: to_scaled_integer_def Let_def split: if_splits)
  from q(1) obtain m e where me: "f64_mul v s = Fin m e"
    by (cases "f64_mul v s") auto
  have "f64_val n 0 = of_int n" for n by (simp add: f64_val_def)
  with range have "- 2147483648 \<le> f64_val m e" "f64_val m e \<le> 2147483647"
    unfolding me f64_of_int_def f64_less_val by simp_all
  with me q that show thesis by simp
qed

lemma to_scaled_integer_fits:
  assumes "to_scaled_integer v s = Some r"
  shows "fits_i32 r \<and> (\<exists>m e. f64_mul v s = Fin m e \<and> \<bar>of_int r - f64_val m e\<bar> \<le> 1 / 2)"
proof -
  obtain m e q where q: "f64_mul v s = Fin m e" "f64_llround (Fin m e) = Some q" "r = to_i32 q"
    "- 2147483648 \<le> f64_val m e" "f64_val m e \<le> 2147483647"
    using assms by (rule to_scaled_integer_cases)
  have "- 2147483648 \<le> q \<and> q \<le> 2147483647"
    using q(4,5) by (intro f64_llround_bounds [OF q(2)]) simp_all
  then have "fits_i32 q" by (simp add: fits_i32_def)
  then show ?thesis
    using q f64_llround_error [OF q(2)] by (auto simp: to_i32_id)
qed

text \<open>
  A request that \<open>ToScaledInteger\<close> accepts is the velocity in thousandths: the 32-bit result is within
  one half and one rounding error of the multiplication of 1000 times the requested value.
\<close>

theorem scaled_request_accurate:
  assumes "to_scaled_integer (Fin m e) milli = Some r" "- 1074 \<le> e"
  shows "fits_i32 r \<and>
    \<bar>of_int r - 1000 * f64_val m e\<bar> \<le> 1 / 2 + \<bar>1000 * f64_val m e\<bar> * 2 powi (- 53)"
proof -
  obtain m' e' where r: "fits_i32 r" "f64_mul (Fin m e) milli = Fin m' e'" "\<bar>of_int r - f64_val m' e'\<bar> \<le> 1 / 2"
    using to_scaled_integer_fits [OF assms(1)] by blast
  have "f64_round (m * 1000) e = Fin m' e'"
    using r(2) by (simp add: milli_def f64_of_int_def)
  moreover have "f64_val (m * 1000) e = 1000 * f64_val m e" by (simp add: f64_val_def)
  ultimately have "\<bar>f64_val m' e' - 1000 * f64_val m e\<bar> \<le> \<bar>1000 * f64_val m e\<bar> * 2 powi (- 53)"
    using f64_round_error [of "m * 1000" e m' e'] assms(2) by simp
  with r(1,3) show ?thesis by linarith
qed

text \<open>A quarter metre per second is 250 mm/s; the double nearest to 0.35 is 350 mm/s.\<close>

lemma scaled_examples:
  "to_scaled_integer (Fin 1 (- 2)) milli = Some 250"
  "to_scaled_integer (Fin 6305039478318694 (- 54)) milli = Some 350"
  by (simp_all add: to_scaled_integer_def milli_def f64_of_int_def f64_round_def sig_bits_def bits.simps
      rne_def to_i32_def)

theorem scaled_request_accurate_witness:
  "fits_i32 350 \<and> \<bar>350 - 1000 * f64_val 6305039478318694 (- 54)\<bar> \<le>
     1 / 2 + \<bar>1000 * f64_val 6305039478318694 (- 54)\<bar> * 2 powi (- 53)"
  using scaled_request_accurate [OF scaled_examples(2)] by simp

section \<open>When a command moves the chassis\<close>

definition interlocks_clear :: "safety_state \<Rightarrow> bool" where
  "interlocks_clear st \<longleftrightarrow> ss_enabled st \<and> ss_authority st \<and> \<not> ss_emergency_stop st \<and>
     ss_peer_alive st \<and> \<not> ss_chassis_fault st"

definition request_live :: "safety_adapter \<Rightarrow> int \<Rightarrow> bool" where
  "request_live a now \<longleftrightarrow> ad_request a \<noteq> None \<and> \<not> ad_invalid_pending a \<and>
     ad_last_request_ms a \<le> now \<and> ad_last_output_ms a \<le> now \<and>
     now - ad_last_request_ms a \<le> sp_command_timeout_ms (ad_policy a)"

definition request_representable :: "velocity_request \<Rightarrow> bool" where
  "request_representable r \<longleftrightarrow>
     to_scaled_integer (vr_linear r) milli \<noteq> None \<and> to_scaled_integer (vr_angular r) milli \<noteq> None"

definition adapter_inv :: "safety_adapter \<Rightarrow> bool" where
  "adapter_inv a \<longleftrightarrow>
     (policy_valid (ad_policy a) \<longrightarrow>
        \<bar>ad_last_linear a\<bar> \<le> sp_max_linear (ad_policy a) \<and> \<bar>ad_last_angular a\<bar> \<le> sp_max_angular (ad_policy a)) \<and>
     (\<forall>r. ad_request a = Some r \<longrightarrow> request_representable r)"

lemma approach_bounded:
  assumes "\<bar>current\<bar> \<le> m" "\<bar>target\<bar> \<le> m" "0 \<le> d" "m \<le> 10000"
  shows "approach current target d = current + clamp (target - current) (- d) d"
    and "\<bar>approach current target d\<bar> \<le> m"
proof -
  let ?b = "current + clamp (target - current) (- d) d"
  have b: "\<bar>?b\<bar> \<le> m" using assms(1-3) by (auto simp: clamp_def abs_le_iff)
  then have "fits_i32 ?b" using assms(4) by (auto simp: fits_i32_def abs_le_iff)
  then show "approach current target d = ?b" by (simp add: approach_def Let_def to_i32_id)
  with b show "\<bar>approach current target d\<bar> \<le> m" by simp
qed

lemma max_step_pos: "1 \<le> max_step a e"
  by (simp add: max_step_def)

lemma adapter_stop_simps [simp]:
  "sc_enabled (fst (adapter_stop a r now)) = False"
  "sc_linear (fst (adapter_stop a r now)) = 0" "sc_angular (fst (adapter_stop a r now)) = 0"
  "sc_stop_reason (fst (adapter_stop a r now)) = r"
  "sc_sequence (fst (adapter_stop a r now)) = ad_next_sequence a"
  "ad_request (snd (adapter_stop a r now)) = None"
  "ad_policy (snd (adapter_stop a r now)) = ad_policy a"
  "ad_last_linear (snd (adapter_stop a r now)) = 0" "ad_last_angular (snd (adapter_stop a r now)) = 0"
  "ad_invalid_pending (snd (adapter_stop a r now)) = ad_invalid_pending a"
  "ad_next_sequence (snd (adapter_stop a r now)) = ad_next_sequence a + 1"
  by (simp_all add: adapter_stop_def)

text \<open>The two outcomes of \<open>Evaluate\<close>: a stop, or a step of the slew limiter.\<close>

lemma adapter_evaluate_cases:
  assumes "adapter_inv a"
  obtains (stop) reason where "adapter_evaluate a st now = adapter_stop a reason now" "reason \<noteq> SrNone"
      "\<not> (policy_valid (ad_policy a) \<and> interlocks_clear st \<and> request_live a now)"
  | (move) r lin ang where
      "policy_valid (ad_policy a)" "interlocks_clear st" "request_live a now" "ad_request a = Some r"
      "to_scaled_integer (vr_linear r) milli = Some lin" "to_scaled_integer (vr_angular r) milli = Some ang"
      "adapter_evaluate a st now =
        (let p = ad_policy a;
             linear = approach (ad_last_linear a) (clamp lin (- sp_max_linear p) (sp_max_linear p))
               (max_step (sp_max_linear_acc p) (elapsed_ms a now));
             angular = approach (ad_last_angular a) (clamp ang (- sp_max_angular p) (sp_max_angular p))
               (max_step (sp_max_angular_acc p) (elapsed_ms a now))
         in (\<lparr>sc_enabled = True, sc_sequence = ad_next_sequence a, sc_linear = to_i16 linear,
              sc_angular = to_i16 angular, sc_generated_at_ms = now, sc_stop_reason = SrNone\<rparr>,
             a\<lparr>ad_last_linear := linear, ad_last_angular := angular, ad_last_output_ms := now,
               ad_next_sequence := ad_next_sequence a + 1\<rparr>))"
proof (cases "policy_valid (ad_policy a) \<and> interlocks_clear st \<and> request_live a now")
  case True
  then obtain r where r: "ad_request a = Some r" by (auto simp: request_live_def)
  then obtain lin ang where "to_scaled_integer (vr_linear r) milli = Some lin"
    "to_scaled_integer (vr_angular r) milli = Some ang"
    using assms by (auto simp: adapter_inv_def request_representable_def)
  with True r show ?thesis
    by (intro move) (auto simp: adapter_evaluate_def interlocks_clear_def request_live_def Let_def)
next
  case False
  then show ?thesis
    by (intro stop [of "sc_stop_reason (fst (adapter_evaluate a st now))"])
      (auto simp: adapter_evaluate_def interlocks_clear_def request_live_def Let_def
        split: option.splits if_splits)
qed

lemma evaluate_enables_lemma:
  assumes "adapter_inv a"
  shows "sc_enabled (fst (adapter_evaluate a st now)) \<longleftrightarrow>
      policy_valid (ad_policy a) \<and> interlocks_clear st \<and> request_live a now"
    and "sc_enabled (fst (adapter_evaluate a st now)) \<longleftrightarrow>
      sc_stop_reason (fst (adapter_evaluate a st now)) = SrNone"
  using assms by (rule adapter_evaluate_cases [of a st now]; simp add: Let_def)+

lemma evaluate_stopped:
  "adapter_inv a \<Longrightarrow> \<not> sc_enabled (fst (adapter_evaluate a st now)) \<Longrightarrow>
     sc_linear (fst (adapter_evaluate a st now)) = 0 \<and> sc_angular (fst (adapter_evaluate a st now)) = 0 \<and>
     ad_request (snd (adapter_evaluate a st now)) = None"
  by (rule adapter_evaluate_cases [of a st now]) (simp_all add: Let_def)

section \<open>Reachable adapters\<close>

datatype adapter_op = OpSubmit velocity_request safety_state int | OpRejectInvalid int
  | OpEvaluate safety_state int | OpReset int

fun adapter_step :: "safety_adapter \<Rightarrow> adapter_op \<Rightarrow> safety_adapter" where
  "adapter_step a (OpSubmit r st now) = snd (adapter_submit a r st now)"
| "adapter_step a (OpRejectInvalid now) = adapter_reject_invalid a now"
| "adapter_step a (OpEvaluate st now) = snd (adapter_evaluate a st now)"
| "adapter_step a (OpReset now) = adapter_reset a now"

definition adapter_run :: "safety_adapter \<Rightarrow> adapter_op list \<Rightarrow> safety_adapter" where
  "adapter_run a ops = foldl adapter_step a ops"

lemma adapter_run_simps [simp]:
  "adapter_run a [] = a" "adapter_run a (x # ops) = adapter_run (adapter_step a x) ops"
  by (simp_all add: adapter_run_def)

lemma adapter_inv_new: "adapter_inv (adapter_new p)"
  by (auto simp: adapter_inv_def adapter_new_def policy_valid_def)

lemma adapter_submit_inv: "adapter_inv a \<Longrightarrow> adapter_inv (snd (adapter_submit a r st now))"
  by (auto simp: adapter_inv_def adapter_submit_def request_representable_def)

lemma policy_limits:
  "policy_valid p \<Longrightarrow> 0 < sp_max_linear p \<and> sp_max_linear p \<le> 10000 \<and> 0 < sp_max_angular p \<and> sp_max_angular p \<le> 10000"
  by (simp add: policy_valid_def)

lemma adapter_evaluate_inv:
  assumes "adapter_inv a"
  shows "adapter_inv (snd (adapter_evaluate a st now))"
  using assms
proof (cases rule: adapter_evaluate_cases [of a st now])
  case (stop reason)
  then show ?thesis using assms by (auto simp: adapter_inv_def policy_valid_def)
next
  case (move r lin ang)
  have m: "0 \<le> max_step x e" for x e using max_step_pos [of x e] by simp
  have lim: "0 < sp_max_linear (ad_policy a)" "sp_max_linear (ad_policy a) \<le> 10000"
    "0 < sp_max_angular (ad_policy a)" "sp_max_angular (ad_policy a) \<le> 10000"
    using policy_limits [OF move(1)] by simp_all
  show ?thesis
    using assms move lim by (auto simp: adapter_inv_def Let_def intro!: approach_bounded(2) clamp_abs m)
qed

lemma adapter_step_inv: "adapter_inv a \<Longrightarrow> adapter_inv (adapter_step a x)"
  by (cases x) (simp_all add: adapter_submit_inv adapter_evaluate_inv,
    auto simp: adapter_inv_def adapter_reject_invalid_def adapter_reset_def policy_valid_def)

lemma adapter_run_inv: "adapter_inv a \<Longrightarrow> adapter_inv (adapter_run a ops)"
  by (induction ops arbitrary: a) (simp_all add: adapter_step_inv)

lemma adapter_step_policy [simp]: "ad_policy (adapter_step a x) = ad_policy a"
  by (cases x) (auto simp: adapter_defs Let_def split: option.splits)

lemma adapter_run_policy [simp]: "ad_policy (adapter_run a ops) = ad_policy a"
  by (induction ops arbitrary: a) simp_all

lemmas reachable_adapter = adapter_run_inv [OF adapter_inv_new]

lemma run_policy: "ad_policy (adapter_run (adapter_new p) ops) = p"
  by (simp, simp add: adapter_new_def)

text \<open>
  C2: after any operations, \<open>Evaluate\<close> enables motion exactly when the policy is valid, all five interlocks
  are clear and an accepted request is present, not superseded by an invalid one, not from the future
  and no older than the timeout; exactly then the stop reason is \<open>none\<close>.
\<close>

theorem evaluate_enables_iff:
  "let a = adapter_run (adapter_new p) ops in
     (sc_enabled (fst (adapter_evaluate a st now)) \<longleftrightarrow>
        policy_valid p \<and> interlocks_clear st \<and> request_live a now) \<and>
     (sc_stop_reason (fst (adapter_evaluate a st now)) = SrNone \<longleftrightarrow>
        sc_enabled (fst (adapter_evaluate a st now)))"
  using evaluate_enables_lemma [OF reachable_adapter, of p ops st now] run_policy [of p ops]
  unfolding Let_def by simp

lemma commands_bounded_lemma:
  assumes inv: "adapter_inv a" and p: "ad_policy a = p"
  shows "(let (c, a') = adapter_evaluate a st now in
     (if sc_enabled c
      then \<bar>sc_linear c\<bar> \<le> min (sp_max_linear p) 2000 \<and> \<bar>sc_angular c\<bar> \<le> min (sp_max_angular p) 10000
      else sc_linear c = 0 \<and> sc_angular c = 0) \<and>
     sc_linear c = ad_last_linear a' \<and> sc_angular c = ad_last_angular a' \<and>
     sc_sequence c = ad_next_sequence a \<and> ad_next_sequence a' = ad_next_sequence a + 1)"
proof -
  show ?thesis
    using inv
  proof (cases rule: adapter_evaluate_cases [of a st now])
    case (stop reason)
    then show ?thesis by (simp add: case_prod_beta Let_def)
  next
    case (move r lin ang)
    let ?a = "snd (adapter_evaluate a st now)"
    have "adapter_inv ?a" using inv by (rule adapter_evaluate_inv)
    moreover have "ad_policy ?a = p" using move p by (simp add: Let_def)
    ultimately have b: "\<bar>ad_last_linear ?a\<bar> \<le> sp_max_linear p" "\<bar>ad_last_angular ?a\<bar> \<le> sp_max_angular p"
      using move(1) p by (simp_all add: adapter_inv_def)
    have lim: "sp_max_linear p \<le> 2000" "sp_max_angular p \<le> 10000"
      using move(1) p by (simp_all add: policy_valid_def)
    then have "fits_i16 (ad_last_linear ?a)" "fits_i16 (ad_last_angular ?a)"
      using b by (auto simp: fits_i16_def)
    then show ?thesis using move(7) b lim by (simp add: case_prod_beta Let_def to_i16_id)
  qed
qed

text \<open>
  C3: every command is within the policy's limits (and so within the protocol's 2000 mm/s and
  10000 mrad/s), a command that does not enable motion is at rest, and the 16-bit casts lose nothing: the
  command carries the limiter's values.
\<close>

theorem commands_bounded:
  "let a = adapter_run (adapter_new p) ops; (c, a') = adapter_evaluate a st now in
     (if sc_enabled c
      then \<bar>sc_linear c\<bar> \<le> min (sp_max_linear p) 2000 \<and> \<bar>sc_angular c\<bar> \<le> min (sp_max_angular p) 10000
      else sc_linear c = 0 \<and> sc_angular c = 0) \<and>
     sc_linear c = ad_last_linear a' \<and> sc_angular c = ad_last_angular a' \<and>
     sc_sequence c = ad_next_sequence a \<and> ad_next_sequence a' = ad_next_sequence a + 1"
  using commands_bounded_lemma [OF reachable_adapter run_policy, of p ops st now]
  unfolding Let_def .

definition slew_step :: "safety_adapter \<Rightarrow> int \<Rightarrow> safe_command \<Rightarrow> bool" where
  "slew_step a now c \<longleftrightarrow>
     (\<exists>r lin ang. ad_request a = Some r \<and>
        to_scaled_integer (vr_linear r) milli = Some lin \<and> to_scaled_integer (vr_angular r) milli = Some ang \<and>
        (let p = ad_policy a;
             dl = max 1 (sp_max_linear_acc p * elapsed_ms a now div 1000);
             da = max 1 (sp_max_angular_acc p * elapsed_ms a now div 1000)
         in sc_linear c = ad_last_linear a +
              clamp (clamp lin (- sp_max_linear p) (sp_max_linear p) - ad_last_linear a) (- dl) dl \<and>
            sc_angular c = ad_last_angular a +
              clamp (clamp ang (- sp_max_angular p) (sp_max_angular p) - ad_last_angular a) (- da) da))"

lemma commands_slew_lemma:
  assumes inv: "adapter_inv a" and p: "ad_policy a = p" and en: "sc_enabled (fst (adapter_evaluate a st now))"
  shows "slew_step a now (fst (adapter_evaluate a st now))"
proof -
  show ?thesis
    using inv
  proof (cases rule: adapter_evaluate_cases [of a st now])
    case (stop reason)
    then show ?thesis using en by simp
  next
    case (move r lin ang)
    have v: "policy_valid p" using move(1) p by simp
    have steps: "max_step (sp_max_linear_acc p) (elapsed_ms a now) = max 1 (sp_max_linear_acc p * elapsed_ms a now div 1000)"
      "max_step (sp_max_angular_acc p) (elapsed_ms a now) = max 1 (sp_max_angular_acc p * elapsed_ms a now div 1000)"
      using v by (auto simp: max_step_def elapsed_ms_def p policy_valid_def sdiv_nonneg clamp_def)
    have m: "0 \<le> max_step x e" for x e using max_step_pos [of x e] by simp
    have lim: "0 < sp_max_linear p" "sp_max_linear p \<le> 10000" "0 < sp_max_angular p" "sp_max_angular p \<le> 10000"
      using policy_limits [OF v] by simp_all
    have last: "\<bar>ad_last_linear a\<bar> \<le> sp_max_linear p" "\<bar>ad_last_angular a\<bar> \<le> sp_max_angular p"
      using inv v by (simp_all add: adapter_inv_def p)
    note lin = approach_bounded [OF last(1) clamp_abs [of "sp_max_linear p" lin] m lim(2)]
    note ang = approach_bounded [OF last(2) clamp_abs [of "sp_max_angular p" ang] m lim(4)]
    have fit: "fits_i16 x" if "\<bar>x\<bar> \<le> 10000" for x using that by (auto simp: fits_i16_def)
    have "fits_i16 (approach (ad_last_linear a) (clamp lin (- sp_max_linear p) (sp_max_linear p))
          (max_step (sp_max_linear_acc p) (elapsed_ms a now)))"
      "fits_i16 (approach (ad_last_angular a) (clamp ang (- sp_max_angular p) (sp_max_angular p))
          (max_step (sp_max_angular_acc p) (elapsed_ms a now)))"
      using lin(2) ang(2) lim by (auto intro!: fit order_trans [OF lin(2)] order_trans [OF ang(2)])
    then show ?thesis
      using move lin(1) ang(1) lim unfolding slew_step_def Let_def p steps [symmetric]
      by (auto simp: p to_i16_id)
  qed
qed

text \<open>
  C4: a command that enables motion is the previous output (zero after a stop) moved towards the request,
  clamped to the limits, by at most the acceleration limit times the elapsed time, one unit at least.
\<close>

theorem commands_slew_limited:
  "let a = adapter_run (adapter_new p) ops; c = fst (adapter_evaluate a st now) in
     sc_enabled c \<longrightarrow> slew_step a now c"
  using commands_slew_lemma [OF reachable_adapter run_policy] unfolding Let_def by blast

section \<open>Stopping and starting\<close>

fun refused :: "safety_adapter \<Rightarrow> adapter_op \<Rightarrow> bool" where
  "refused a (OpSubmit r st now) = (fst (adapter_submit a r st now) \<noteq> None)"
| "refused a _ = True"

fun all_refused :: "safety_adapter \<Rightarrow> adapter_op list \<Rightarrow> bool" where
  "all_refused a [] = True"
| "all_refused a (x # ops) = (refused a x \<and> all_refused (adapter_step a x) ops)"

lemma refused_keeps_no_request:
  assumes "ad_request a = None" "refused a x"
  shows "ad_request (adapter_step a x) = None"
proof (cases x)
  case (OpSubmit r st now)
  then show ?thesis using assms by (auto simp: adapter_submit_def split: if_splits)
next
  case (OpEvaluate st now)
  then show ?thesis using assms by (simp add: adapter_evaluate_def Let_def)
qed (simp_all add: adapter_reject_invalid_def adapter_reset_def)

lemma all_refused_no_request:
  "ad_request a = None \<Longrightarrow> all_refused a ops \<Longrightarrow> ad_request (adapter_run a ops) = None"
  by (induction ops arbitrary: a) (simp_all add: refused_keeps_no_request)

lemma no_request_stops: "ad_request a = None \<Longrightarrow> \<not> sc_enabled (fst (adapter_evaluate a st now))"
  by (simp add: adapter_evaluate_def Let_def)

text \<open>
  C7: once a command has stopped the chassis, nothing but a newly accepted request can move it again: after
  any evaluations, resets and rejected or invalid requests, the next command still does not enable
  motion.
\<close>

theorem stopped_until_accepted_request:
  assumes "a = adapter_run (adapter_new p) ops" "adapter_evaluate a st now = (c, a')" "\<not> sc_enabled c"
    and "all_refused a' ops'"
  shows "\<not> sc_enabled (fst (adapter_evaluate (adapter_run a' ops') st' now'))"
proof -
  have "ad_request a' = None"
    using evaluate_stopped [of a st now] reachable_adapter [of p ops] assms(1-3) by simp
  then show ?thesis
    using assms(4) by (intro no_request_stops all_refused_no_request)
qed

definition clear_state :: safety_state where
  "clear_state = \<lparr>ss_enabled = True, ss_authority = True, ss_emergency_stop = False,
     ss_peer_alive = True, ss_chassis_fault = False\<rparr>"

definition sample_request :: velocity_request where
  "sample_request = \<lparr>vr_linear = Fin 1 (- 2), vr_angular = Fin 0 0\<rparr>"

lemma sample_request_scaled:
  "to_scaled_integer (vr_linear sample_request) milli = Some 250"
  "to_scaled_integer (vr_angular sample_request) milli = Some 0"
  by (simp_all add: sample_request_def scaled_examples,
      simp add: to_scaled_integer_def milli_def f64_of_int_def f64_round_def sig_bits_def bits.simps to_i32_def)

lemma sample_adapter_moves:
  "sc_enabled (fst (adapter_evaluate (adapter_run (adapter_new default_policy)
     [OpSubmit sample_request clear_state 100]) clear_state 110))"
  "sc_linear (fst (adapter_evaluate (adapter_run (adapter_new default_policy)
     [OpSubmit sample_request clear_state 100]) clear_state 110)) = 8"
  by (simp_all add: adapter_evaluate_def adapter_submit_def adapter_new_def default_policy_def
      policy_valid_def clear_state_def sample_request_scaled Let_def elapsed_ms_def max_step_def
      clamp_def approach_def to_i32_def to_i16_def sdiv_nonneg)

text \<open>The sample adapter moves from rest within its acceleration limit.\<close>

theorem commands_slew_limited_witness:
  "slew_step (adapter_run (adapter_new default_policy) [OpSubmit sample_request clear_state 100]) 110
     (fst (adapter_evaluate (adapter_run (adapter_new default_policy)
        [OpSubmit sample_request clear_state 100]) clear_state 110))"
  using commands_slew_limited [of default_policy "[OpSubmit sample_request clear_state 100]" clear_state 110]
    sample_adapter_moves(1) by (simp only: Let_def)

text \<open>A stop for a lost peer, then a refused request and a reset: the next evaluation stops too.\<close>

theorem stopped_until_accepted_request_witness:
  "\<not> sc_enabled (fst (adapter_evaluate (adapter_run
      (snd (adapter_evaluate (adapter_run (adapter_new default_policy) [OpSubmit sample_request clear_state 100])
         (clear_state\<lparr>ss_peer_alive := False\<rparr>) 120))
      [OpSubmit sample_request (clear_state\<lparr>ss_enabled := False\<rparr>) 125, OpReset 130]) clear_state 140))"
proof -
  let ?a = "adapter_run (adapter_new default_policy) [OpSubmit sample_request clear_state 100]"
  let ?st = "clear_state\<lparr>ss_peer_alive := False\<rparr>"
  have "adapter_evaluate ?a ?st 120 = (fst (adapter_evaluate ?a ?st 120), snd (adapter_evaluate ?a ?st 120))"
    by simp
  moreover have "\<not> sc_enabled (fst (adapter_evaluate ?a ?st 120))"
    by (simp add: adapter_evaluate_def adapter_submit_def adapter_new_def default_policy_def
        policy_valid_def clear_state_def sample_request_scaled Let_def)
  moreover have "all_refused (snd (adapter_evaluate ?a ?st 120))
      [OpSubmit sample_request (clear_state\<lparr>ss_enabled := False\<rparr>) 125, OpReset 130]"
    by (simp add: adapter_submit_def)
  ultimately show ?thesis by (rule stopped_until_accepted_request [OF refl])
qed

definition ready_at :: "safety_adapter \<Rightarrow> safety_state \<Rightarrow> int \<Rightarrow> bool" where
  "ready_at a st t \<longleftrightarrow> policy_valid (ad_policy a) \<and> interlocks_clear st \<and> request_live a t"

definition clamped_target :: "safety_adapter \<Rightarrow> int" where
  "clamped_target a = (case ad_request a of None \<Rightarrow> 0 | Some r \<Rightarrow>
     clamp (the (to_scaled_integer (vr_linear r) milli)) (- sp_max_linear (ad_policy a)) (sp_max_linear (ad_policy a)))"

lemma clamp_step_closer:
  "1 \<le> d \<Longrightarrow> \<bar>target - (cur + clamp (target - cur) (- d) d)\<bar> \<le> max 0 (\<bar>target - cur\<bar> - 1)" for target :: int
  by (auto simp: clamp_def)

lemma evaluate_closer:
  assumes inv: "adapter_inv a" and ready: "ready_at a st t"
  shows "let a' = snd (adapter_evaluate a st t) in
     \<bar>clamped_target a - ad_last_linear a'\<bar> \<le> max 0 (\<bar>clamped_target a - ad_last_linear a\<bar> - 1) \<and>
     clamped_target a' = clamped_target a \<and> ad_request a' = ad_request a \<and>
     ad_last_request_ms a' = ad_last_request_ms a \<and> ad_last_output_ms a' = t \<and>
     ad_invalid_pending a' = ad_invalid_pending a \<and> ad_policy a' = ad_policy a"
  using inv
proof (cases rule: adapter_evaluate_cases [of a st t])
  case (stop reason)
  with ready show ?thesis by (simp add: ready_at_def)
next
  case (move r lin ang)
  have m: "1 \<le> max_step x e" "0 \<le> max_step x e" for x e using max_step_pos [of x e] by simp_all
  have lim: "0 \<le> sp_max_linear (ad_policy a)" "sp_max_linear (ad_policy a) \<le> 10000"
    using policy_limits [OF move(1)] by simp_all
  have last: "\<bar>ad_last_linear a\<bar> \<le> sp_max_linear (ad_policy a)"
    using inv move(1) by (simp add: adapter_inv_def)
  note lin' = approach_bounded(1) [OF last clamp_abs [OF lim(1), of lin] m(2) lim(2)]
  have "clamped_target a = clamp lin (- sp_max_linear (ad_policy a)) (sp_max_linear (ad_policy a))"
    using move by (simp add: clamped_target_def)
  then show ?thesis
    using move clamp_step_closer [OF m(1)] by (simp add: Let_def lin' clamped_target_def)
qed

fun drive :: "safety_adapter \<Rightarrow> safety_state \<Rightarrow> velocity_request \<Rightarrow> int list \<Rightarrow> safety_adapter" where
  "drive a st r [] = a"
| "drive a st r (t # ts) =
     drive (snd (adapter_evaluate (snd (adapter_submit a r st t)) st t)) st r ts"

lemma submit_ready:
  assumes "policy_valid (ad_policy a)" "interlocks_clear st" "request_representable r" "0 \<le> t" "ad_last_output_ms a \<le> t"
  shows "adapter_submit a r st t = (None, a\<lparr>ad_request := Some r, ad_last_request_ms := t, ad_invalid_pending := False\<rparr>)"
    and "ready_at (snd (adapter_submit a r st t)) st t"
  using assms
  by (auto simp: adapter_submit_def interlocks_clear_def request_representable_def ready_at_def
      request_live_def policy_valid_def)

lemma drive_converges:
  assumes "adapter_inv a" "ad_policy a = p" "policy_valid p" "interlocks_clear st" "request_representable r"
    "to_scaled_integer (vr_linear r) milli = Some lin" "0 \<le> t0" "ad_last_output_ms a \<le> t0" "sorted (t0 # ts)"
    "\<bar>clamp lin (- sp_max_linear p) (sp_max_linear p) - ad_last_linear a\<bar> \<le> int (length ts)"
  shows "ad_last_linear (drive a st r ts) = clamp lin (- sp_max_linear p) (sp_max_linear p)"
  using assms
proof (induction ts arbitrary: a t0)
  case (Cons t ts)
  let ?b = "snd (adapter_submit a r st t)"
  let ?c = "snd (adapter_evaluate ?b st t)"
  have t: "t0 \<le> t" "0 \<le> t" "ad_last_output_ms a \<le> t" "sorted (t # ts)" using Cons.prems(7-9) by auto
  have v: "policy_valid (ad_policy a)" using Cons.prems(2,3) by simp
  have b: "?b = a\<lparr>ad_request := Some r, ad_last_request_ms := t, ad_invalid_pending := False\<rparr>"
    using submit_ready(1) [OF v Cons.prems(4,5) t(2,3)] by simp
  have inv: "adapter_inv ?b" using Cons.prems(1) by (rule adapter_submit_inv)
  have tgt: "clamped_target ?b = clamp lin (- sp_max_linear p) (sp_max_linear p)"
    using Cons.prems(2,6) by (simp add: b clamped_target_def)
  have c: "\<bar>clamped_target ?b - ad_last_linear ?c\<bar> \<le> max 0 (\<bar>clamped_target ?b - ad_last_linear ?b\<bar> - 1)"
    "ad_last_output_ms ?c = t" "ad_policy ?c = ad_policy ?b"
    using evaluate_closer [OF inv submit_ready(2) [OF v Cons.prems(4,5) t(2,3)]] by (simp_all add: Let_def)
  have "\<bar>clamp lin (- sp_max_linear p) (sp_max_linear p) - ad_last_linear ?c\<bar> \<le> int (length ts)"
    using c(1) Cons.prems(10) unfolding tgt by (simp add: b)
  then show ?case
    using Cons.IH [of ?c t] Cons.prems(2-6) t c(2,3) adapter_evaluate_inv [OF inv] by (simp add: b)
qed simp

text \<open>
  Ramping finishes. A controller that submits the same representable request before each evaluation, at
  non-decreasing times with clear interlocks, is at the clamped request after at most as many
  evaluations as the distance in mm/s, from whatever state the adapter was in.
\<close>

theorem ramp_reaches_target:
  assumes "policy_valid p" "interlocks_clear st" "request_representable r"
    and "to_scaled_integer (vr_linear r) milli = Some lin"
    and "a = adapter_run (adapter_new p) ops" "0 \<le> t0" "ad_last_output_ms a \<le> t0" "sorted (t0 # ts)"
    and "\<bar>clamp lin (- sp_max_linear p) (sp_max_linear p) - ad_last_linear a\<bar> \<le> int (length ts)"
  shows "ad_last_linear (drive a st r ts) = clamp lin (- sp_max_linear p) (sp_max_linear p)"
proof -
  have "adapter_inv a" "ad_policy a = p"
    using reachable_adapter [of p ops] run_policy [of p ops] by (simp_all only: assms(5))
  then show ?thesis by (rule drive_converges [OF _ _ assms(1-4,6-9)])
qed

lemma sorted_ticks: "sorted (int m # map int [m..<n])"
proof -
  have "sorted (map int [m..<n])" by (induction n) (auto simp: sorted_append)
  then show ?thesis by auto
qed

theorem ramp_reaches_target_witness:
  "ad_last_linear (drive (adapter_new default_policy) clear_state sample_request (map int [20..<270])) = 250"
proof -
  let ?a = "adapter_new default_policy" and ?ts = "map int [20..<270]"
  have r: "request_representable sample_request"
    by (simp add: request_representable_def sample_request_scaled)
  have p: "policy_valid default_policy" "interlocks_clear clear_state"
    by (simp_all add: default_policy_def policy_valid_def clear_state_def interlocks_clear_def)
  have a: "?a = adapter_run (adapter_new default_policy) []" "ad_last_output_ms ?a \<le> int 20" "(0 :: int) \<le> int 20"
    by (simp_all add: adapter_new_def)
  have target: "clamp 250 (- sp_max_linear default_policy) (sp_max_linear default_policy) = 250"
    by (simp add: default_policy_def clamp_def)
  have len: "length ?ts = 250" by (simp only: length_map length_upt)
  have "\<bar>clamp 250 (- sp_max_linear default_policy) (sp_max_linear default_policy) - ad_last_linear ?a\<bar> \<le> int (length ?ts)"
    unfolding target len by (simp add: adapter_new_def)
  from ramp_reaches_target [OF p r sample_request_scaled(1) a(1,3,2) sorted_ticks this]
  show ?thesis unfolding target .
qed

section \<open>The tracker\<close>

datatype tracker_op = TrPeer int | TrFault bool int | TrReset

fun tracker_step :: "safety_tracker \<Rightarrow> tracker_op \<Rightarrow> safety_tracker" where
  "tracker_step t (TrPeer now) = snd (tracker_peer_heartbeat t now)"
| "tracker_step t (TrFault b now) = snd (tracker_chassis_fault t b now)"
| "tracker_step t TrReset = tracker_reset t"

definition tracker_run :: "freshness_policy \<Rightarrow> tracker_op list \<Rightarrow> safety_tracker" where
  "tracker_run p ops = foldl tracker_step (tracker_new p) ops"

text \<open>The reports a history contains since its last reset.\<close>

definition since_reset :: "tracker_op list \<Rightarrow> tracker_op set" where
  "since_reset ops = set (takeWhile (\<lambda>x. x \<noteq> TrReset) (rev ops))"

lemma since_reset_snoc [simp]:
  "since_reset (ops @ [TrReset]) = {}"
  "x \<noteq> TrReset \<Longrightarrow> since_reset (ops @ [x]) = insert x (since_reset ops)"
  by (simp_all add: since_reset_def)

lemma tracker_run_history:
  "tr_policy (tracker_run p ops) = p \<and>
   (tr_last_peer_ms (tracker_run p ops) = - 1 \<or>
    0 \<le> tr_last_peer_ms (tracker_run p ops) \<and> TrPeer (tr_last_peer_ms (tracker_run p ops)) \<in> since_reset ops) \<and>
   (tr_last_fault_ms (tracker_run p ops) = - 1 \<or>
    0 \<le> tr_last_fault_ms (tracker_run p ops) \<and>
    TrFault (tr_fault (tracker_run p ops)) (tr_last_fault_ms (tracker_run p ops)) \<in> since_reset ops)"
proof (induction ops rule: rev_induct)
  case Nil
  then show ?case by (simp add: tracker_run_def tracker_new_def)
next
  case (snoc x ops)
  then show ?case
    by (cases x) (auto simp: tracker_run_def tracker_peer_heartbeat_def tracker_chassis_fault_def tracker_reset_def)
qed

text \<open>
  The tracker never trusts what it has not seen recently. For any history of accepted updates, the
  peer is alive exactly when a heartbeat was taken within the peer timeout, and a live chassis is free of
  fault only if a report without fault was taken within the fault timeout.
\<close>

theorem tracker_trusts_fresh_reports_only:
  "let st = tracker_evaluate (tracker_run p ops) controls now in
     (ss_peer_alive st \<longrightarrow> (\<exists>t. TrPeer t \<in> since_reset ops \<and> 0 \<le> t \<and> t \<le> now \<and> now - t \<le> fp_peer_timeout_ms p)) \<and>
     (ss_peer_alive st \<and> \<not> ss_chassis_fault st \<longrightarrow>
        (\<exists>t. TrFault False t \<in> since_reset ops \<and> 0 \<le> t \<and> t \<le> now \<and> now - t \<le> fp_fault_timeout_ms p)) \<and>
     ss_enabled st = ss_enabled controls \<and> ss_authority st = ss_authority controls \<and>
     ss_emergency_stop st = ss_emergency_stop controls"
  using tracker_run_history [of p ops]
  by (auto simp: tracker_evaluate_def Let_def)

theorem tracker_trusts_fresh_reports_only_witness:
  "\<exists>t. TrFault False t \<in> since_reset [TrPeer 10, TrFault False 20] \<and> 0 \<le> t \<and> t \<le> 100 \<and> 100 - t \<le> 300"
proof -
  let ?ops = "[TrPeer 10, TrFault False 20]"
  have "ss_peer_alive (tracker_evaluate (tracker_run default_freshness ?ops) clear_state 100) \<and>
      \<not> ss_chassis_fault (tracker_evaluate (tracker_run default_freshness ?ops) clear_state 100)"
    by (simp add: tracker_run_def tracker_new_def tracker_peer_heartbeat_def tracker_chassis_fault_def
        tracker_evaluate_def freshness_valid_def default_freshness_def)
  then show ?thesis
    using tracker_trusts_fresh_reports_only [of default_freshness ?ops clear_state 100]
    by (simp only: Let_def default_freshness_def freshness_policy.simps) blast
qed

end
