(* ===== verification/Safety_Source.thy ===== *)
theory Safety_Source
  imports Chassis_Client Safety_Adapter
begin

text \<open>
  \<open>ChassisCanSafetyStateSource\<close> of \<open>cockpit/driver/vehicle/chassis_can_safety_state_source.cc\<close>: it feeds
  the frames of the chassis to a client and to the interlock tracker, and fills in the interlocks of the
  controls it is given. The locale \<open>safety_source\<close> is what the shield relies on: controls pass
  through, a live peer was heard recently and a live chassis without fault reported so recently.
\<close>

section \<open>State and operations\<close>

record safety_source_state =
  so_client :: chassis_client
  so_state :: chassis_state
  so_tracker :: safety_tracker
  so_fault_seen :: bool
  so_observed_reboots :: u64

definition source_new :: "int \<Rightarrow> int \<Rightarrow> safety_source_state" where
  "source_new started_steady_ms wall_ms =
     \<lparr>so_client = chassis_client_new started_steady_ms wall_ms, so_state = chassis_state0,
      so_tracker = tracker_new default_freshness, so_fault_seen = False, so_observed_reboots = 0\<rparr>"

definition reports_fault :: "chassis_state \<Rightarrow> bool" where
  "reports_fault st \<longleftrightarrow> cs_fault_severity st \<noteq> 0 \<or> cs_active_faults st \<noteq> 0"

definition source_process_frame ::
  "safety_source_state \<Rightarrow> can_frame \<Rightarrow> int \<Rightarrow> int \<Rightarrow> decode_status \<times> safety_source_state" where
  "source_process_frame s f now wall_ms =
     (case process_frame (so_client s) f now wall_ms of (result, client) \<Rightarrow>
        let s1 = s\<lparr>so_client := client, so_state := (if result = DsUpdated then cc_state client else so_state s)\<rparr>;
            s2 = (if result = DsUpdated \<and> cf_id f = heartbeat_id then
                    (let s' = (if cs_peer_reboot_count (so_state s1) \<noteq> so_observed_reboots s1
                               then s1\<lparr>so_observed_reboots := cs_peer_reboot_count (so_state s1), so_fault_seen := False\<rparr>
                               else s1)
                     in s'\<lparr>so_tracker := snd (tracker_peer_heartbeat (so_tracker s') now)\<rparr>)
                  else s1);
            s3 = (if result = DsUpdated \<and> cf_id f = fault_status_id then
                    s2\<lparr>so_fault_seen := True,
                       so_tracker := snd (tracker_chassis_fault (so_tracker s2) (reports_fault (so_state s2)) now)\<rparr>
                  else s2)
        in (result, s3))"

definition source_evaluate ::
  "safety_source_state \<Rightarrow> safety_state \<Rightarrow> int \<Rightarrow> int \<Rightarrow> safety_state \<times> safety_source_state" where
  "source_evaluate s controls now wall_ms =
     (case client_update (so_client s) now wall_ms of (changed, client) \<Rightarrow>
        let s1 = s\<lparr>so_client := client\<rparr>;
            s2 = (if changed then
                    (let s' = s1\<lparr>so_state := cc_state client\<rparr>
                     in if cs_heartbeat_status (so_state s') = HbTimeout then s'\<lparr>so_fault_seen := False\<rparr> else s')
                  else s1);
            result = tracker_evaluate (so_tracker s2) controls now
        in (if ss_peer_alive result \<and> \<not> so_fault_seen s2 then result\<lparr>ss_chassis_fault := True\<rparr> else result, s2))"

section \<open>The interface the shield uses\<close>

text \<open>
  A source of interlocks: \<open>evaluate\<close> reads it at a time, \<open>heard s t\<close> says a heartbeat taken at \<open>t\<close> is in
  its history and \<open>cleared s t\<close> that a report without fault taken at \<open>t\<close> is.
\<close>

locale safety_source =
  fixes evaluate :: "'s \<Rightarrow> safety_state \<Rightarrow> int \<Rightarrow> int \<Rightarrow> safety_state \<times> 's"
    and inv :: "'s \<Rightarrow> bool"
    and heard :: "'s \<Rightarrow> int \<Rightarrow> bool"
    and cleared :: "'s \<Rightarrow> int \<Rightarrow> bool"
    and peer_timeout :: int
    and fault_timeout :: int
  assumes controls_kept: "evaluate s controls now w = (st, s') \<Longrightarrow>
      ss_enabled st = ss_enabled controls \<and> ss_authority st = ss_authority controls \<and>
      ss_emergency_stop st = ss_emergency_stop controls"
    and alive_heard: "inv s \<Longrightarrow> evaluate s controls now w = (st, s') \<Longrightarrow> ss_peer_alive st \<Longrightarrow>
      \<exists>t. heard s t \<and> t \<le> now \<and> now - t \<le> peer_timeout"
    and faultless_cleared: "inv s \<Longrightarrow> evaluate s controls now w = (st, s') \<Longrightarrow>
      ss_peer_alive st \<Longrightarrow> \<not> ss_chassis_fault st \<Longrightarrow> \<exists>t. cleared s t \<and> t \<le> now \<and> now - t \<le> fault_timeout"
    and evaluate_inv: "inv s \<Longrightarrow> evaluate s controls now w = (st, s') \<Longrightarrow> inv s'"
begin

definition shielded :: "'s \<Rightarrow> safety_adapter \<Rightarrow> safety_state \<Rightarrow> int \<Rightarrow> int \<Rightarrow> safe_command" where
  "shielded s a controls now w = fst (adapter_evaluate a (fst (evaluate s controls now w)) now)"

lemma moving_means_clear:
  assumes inv: "inv s" and a: "adapter_inv a" and en: "sc_enabled (shielded s a controls now w)"
  shows "ss_enabled controls \<and> ss_authority controls \<and> \<not> ss_emergency_stop controls \<and>
    (\<exists>t. heard s t \<and> t \<le> now \<and> now - t \<le> peer_timeout) \<and>
    (\<exists>t. cleared s t \<and> t \<le> now \<and> now - t \<le> fault_timeout) \<and>
    policy_valid (ad_policy a) \<and> request_live a now"
proof -
  obtain st s' where ev: "evaluate s controls now w = (st, s')" by fastforce
  then have on: "policy_valid (ad_policy a)" "interlocks_clear st" "request_live a now"
    using en evaluate_enables_lemma(1) [OF a, of st now] by (simp_all add: shielded_def)
  then show ?thesis
    using controls_kept [OF ev] alive_heard [OF inv ev] faultless_cleared [OF inv ev]
    by (simp add: interlocks_clear_def)
qed

end

section \<open>This source provides the interface\<close>

definition source_inv :: "safety_source_state \<Rightarrow> bool" where
  "source_inv s \<longleftrightarrow> tr_policy (so_tracker s) = default_freshness \<and> client_inv (so_client s)"

definition source_heard :: "safety_source_state \<Rightarrow> int \<Rightarrow> bool" where
  "source_heard s t \<longleftrightarrow> tr_last_peer_ms (so_tracker s) = t \<and> 0 \<le> t"

definition source_cleared :: "safety_source_state \<Rightarrow> int \<Rightarrow> bool" where
  "source_cleared s t \<longleftrightarrow> so_fault_seen s \<and> tr_last_fault_ms (so_tracker s) = t \<and> 0 \<le> t \<and> \<not> tr_fault (so_tracker s)"

text \<open>The whole of \<open>Evaluate\<close> on the source itself: a new client, and at most a forgotten fault report.\<close>

lemma source_evaluate_state:
  assumes "source_evaluate s controls now w = (st, s')"
  shows "so_tracker s' = so_tracker s" "so_observed_reboots s' = so_observed_reboots s"
    "so_client s' = snd (client_update (so_client s) now w)" "so_fault_seen s' \<Longrightarrow> so_fault_seen s"
  using assms by (auto simp: source_evaluate_def Let_def split: prod.splits if_splits)

lemma source_evaluate_result:
  assumes "source_evaluate s controls now w = (st, s')"
  shows "ss_enabled st = ss_enabled controls" "ss_authority st = ss_authority controls"
    "ss_emergency_stop st = ss_emergency_stop controls"
    "ss_peer_alive st = ss_peer_alive (tracker_evaluate (so_tracker s) controls now)"
    "ss_chassis_fault st \<longleftrightarrow> ss_peer_alive st \<and>
       (ss_chassis_fault (tracker_evaluate (so_tracker s) controls now) \<or> \<not> so_fault_seen s')"
proof -
  let ?t = "tracker_evaluate (so_tracker s) controls now"
  have st: "st = (if ss_peer_alive ?t \<and> \<not> so_fault_seen s' then ?t\<lparr>ss_chassis_fault := True\<rparr> else ?t)"
    using assms by (auto simp: source_evaluate_def Let_def split: prod.splits if_splits)
  have t: "ss_enabled ?t = ss_enabled controls" "ss_authority ?t = ss_authority controls"
    "ss_emergency_stop ?t = ss_emergency_stop controls" "ss_chassis_fault ?t \<Longrightarrow> ss_peer_alive ?t"
    by (simp_all add: tracker_evaluate_def Let_def)
  show "ss_enabled st = ss_enabled controls" "ss_authority st = ss_authority controls"
    "ss_emergency_stop st = ss_emergency_stop controls" "ss_peer_alive st = ss_peer_alive ?t"
    unfolding st using t(1-3) by simp_all
  show "ss_chassis_fault st \<longleftrightarrow> ss_peer_alive st \<and> (ss_chassis_fault ?t \<or> \<not> so_fault_seen s')"
    unfolding st using t(4) by auto
qed

lemma tracker_alive:
  "ss_peer_alive (tracker_evaluate t controls now) \<longleftrightarrow> freshness_valid (tr_policy t) \<and> 0 \<le> tr_last_peer_ms t \<and>
     tr_last_peer_ms t \<le> now \<and> now - tr_last_peer_ms t \<le> fp_peer_timeout_ms (tr_policy t)"
  "ss_chassis_fault (tracker_evaluate t controls now) \<longleftrightarrow> ss_peer_alive (tracker_evaluate t controls now) \<and>
     (\<not> (0 \<le> tr_last_fault_ms t \<and> tr_last_fault_ms t \<le> now \<and>
         now - tr_last_fault_ms t \<le> fp_fault_timeout_ms (tr_policy t)) \<or> tr_fault t)"
  by (auto simp: tracker_evaluate_def Let_def)

lemma source_evaluate_inv:
  assumes "source_inv s" "source_evaluate s controls now w = (st, s')"
  shows "source_inv s'"
proof -
  obtain b c where "client_update (so_client s) now w = (b, c)" by fastforce
  then show ?thesis
    using assms(1) client_update_inv [of "so_client s" now w b c] source_evaluate_state(1,3) [OF assms(2)]
    by (simp add: source_inv_def)
qed

interpretation can_source: safety_source source_evaluate source_inv source_heard source_cleared 300 300
proof unfold_locales
  fix s controls now w st s'
  assume ev: "source_evaluate s controls now w = (st, s')"
  note res = source_evaluate_result [OF ev] and state = source_evaluate_state [OF ev]
  show "ss_enabled st = ss_enabled controls \<and> ss_authority st = ss_authority controls \<and>
      ss_emergency_stop st = ss_emergency_stop controls"
    by (simp add: res)
  assume inv: "source_inv s"
  then show "source_inv s'" using ev by (rule source_evaluate_inv)
  assume alive: "ss_peer_alive st"
  then show "\<exists>t. source_heard s t \<and> t \<le> now \<and> now - t \<le> 300"
    using inv by (simp add: res tracker_alive source_inv_def source_heard_def default_freshness_def)
  assume "\<not> ss_chassis_fault st"
  then show "\<exists>t. source_cleared s t \<and> t \<le> now \<and> now - t \<le> 300"
    using inv alive state(4)
    by (auto simp: res tracker_alive source_inv_def source_cleared_def default_freshness_def)
qed

section \<open>What stands behind the interlocks\<close>

datatype source_op = SoFrame can_frame int int | SoEvaluate safety_state int int

fun source_step :: "safety_source_state \<Rightarrow> source_op \<Rightarrow> safety_source_state" where
  "source_step s (SoFrame f now w) = snd (source_process_frame s f now w)"
| "source_step s (SoEvaluate controls now w) = snd (source_evaluate s controls now w)"

definition source_run :: "safety_source_state \<Rightarrow> source_op list \<Rightarrow> safety_source_state" where
  "source_run s ops = foldl source_step s ops"

lemma source_run_simps [simp]:
  "source_run s [] = s" "source_run s (x # ops) = source_run (source_step s x) ops"
  "source_run s (ops @ ops') = source_run (source_run s ops) ops'"
  by (simp_all add: source_run_def)

text \<open>A heartbeat that was taken, and a report without fault that was taken.\<close>

definition heartbeat_taken :: "safety_source_state \<Rightarrow> can_frame \<Rightarrow> int \<Rightarrow> int \<Rightarrow> bool" where
  "heartbeat_taken s f t w \<longleftrightarrow> cf_id f = heartbeat_id \<and> fst (source_process_frame s f t w) = DsUpdated"

definition faultless_report_taken :: "safety_source_state \<Rightarrow> can_frame \<Rightarrow> int \<Rightarrow> int \<Rightarrow> bool" where
  "faultless_report_taken s f t w \<longleftrightarrow> fst (source_process_frame s f t w) = DsUpdated \<and>
     (\<exists>r. decode_fault f = Some r \<and> fs_severity r = 0 \<and> fs_active_faults r = 0)"

lemma process_frame_fault_report:
  assumes "process_frame c f now w = (DsUpdated, c')" "cf_id f = fault_status_id"
  shows "\<exists>r. decode_fault f = Some r \<and> cs_fault_severity (cc_state c') = fs_severity r \<and>
    cs_active_faults (cc_state c') = fs_active_faults r"
proof -
  have ids: "fault_status_id \<noteq> motion_status_id" "fault_status_id \<noteq> odometry_report_id" "fault_status_id \<noteq> heartbeat_id"
    by (simp_all add: can_id_defs)
  show ?thesis
    using assms ids
    by (auto simp: process_frame_def Let_def finish_update_def apply_fault_def split: if_splits option.splits)
qed

lemma fault_id_heartbeat_id [simp]: "fault_status_id \<noteq> heartbeat_id" "heartbeat_id \<noteq> fault_status_id"
  by (simp_all add: can_id_defs)

lemma process_frame_nonneg: "process_frame c f now w = (DsUpdated, c') \<Longrightarrow> 0 \<le> now"
  by (auto simp: process_frame_def split: if_splits)

text \<open>The three ways a frame changes the source beyond its client.\<close>

lemma source_process_cases:
  assumes "source_process_frame s f now w = (result, s')"
  obtains (other) "so_tracker s' = so_tracker s" "so_fault_seen s' = so_fault_seen s"
      "so_observed_reboots s' = so_observed_reboots s"
  | (heartbeat) "result = DsUpdated" "cf_id f = heartbeat_id" "0 \<le> now"
      "so_tracker s' = snd (tracker_peer_heartbeat (so_tracker s) now)"
      "so_observed_reboots s' = cs_peer_reboot_count (so_state s')"
      "so_fault_seen s' \<longleftrightarrow> so_fault_seen s \<and> so_observed_reboots s' = so_observed_reboots s"
  | (fault) r where "result = DsUpdated" "decode_fault f = Some r" "0 \<le> now" "so_fault_seen s'"
      "so_tracker s' = snd (tracker_chassis_fault (so_tracker s) (fs_severity r \<noteq> 0 \<or> fs_active_faults r \<noteq> 0) now)"
      "so_observed_reboots s' = so_observed_reboots s"
proof -
  obtain c' where c': "process_frame (so_client s) f now w = (result, c')"
    using assms by (cases "process_frame (so_client s) f now w") (auto simp: source_process_frame_def Let_def)
  note s' = assms [unfolded source_process_frame_def c' prod.case Let_def prod.inject, THEN conjunct2, symmetric]
  consider "result = DsUpdated" "cf_id f = heartbeat_id" | "result = DsUpdated" "cf_id f = fault_status_id"
    | "\<not> (result = DsUpdated \<and> (cf_id f = heartbeat_id \<or> cf_id f = fault_status_id))" by blast
  then show thesis
  proof cases
    case 1
    then show thesis using process_frame_nonneg c' by (intro heartbeat) (auto simp: s')
  next
    case 2
    then obtain r where r: "decode_fault f = Some r" "cs_fault_severity (cc_state c') = fs_severity r"
      "cs_active_faults (cc_state c') = fs_active_faults r"
      using process_frame_fault_report [of "so_client s" f now w c'] c' by auto
    show thesis
      using 2 r(1) process_frame_nonneg c' by (intro fault [of r]) (auto simp: s' reports_fault_def r(2,3))
  next
    case 3
    then show thesis by (intro other) (auto simp: s')
  qed
qed

lemma source_step_inv: "source_inv s \<Longrightarrow> source_inv (source_step s x)"
proof (cases x)
  case (SoFrame f now w)
  assume inv: "source_inv s"
  obtain r s' where p: "source_process_frame s f now w = (r, s')" by fastforce
  obtain r' c' where c: "process_frame (so_client s) f now w = (r', c')" by fastforce
  have "so_client s' = c'" using p c by (auto simp: source_process_frame_def Let_def)
  moreover have "tr_policy (so_tracker s') = tr_policy (so_tracker s)"
    using p by (rule source_process_cases) (auto simp: tracker_peer_heartbeat_def tracker_chassis_fault_def)
  ultimately show ?thesis
    using SoFrame p inv process_frame_inv [OF _ c] by (simp add: source_inv_def)
next
  case (SoEvaluate controls now w)
  assume inv: "source_inv s"
  obtain st s' where "source_evaluate s controls now w = (st, s')" by fastforce
  then show ?thesis using SoEvaluate source_evaluate_inv [OF inv] by simp
qed

lemma source_inv_new: "source_inv (source_new t0 w0)"
  by (simp add: source_inv_def source_new_def tracker_new_def client_inv_new)

lemma source_run_inv: "source_inv s \<Longrightarrow> source_inv (source_run s ops)"
  by (induction ops arbitrary: s) (simp_all add: source_step_inv)

lemmas reachable_source = source_run_inv [OF source_inv_new]

lemma split_snoc: "ops = pre @ x # post \<Longrightarrow> ops @ [y] = pre @ x # (post @ [y])"
  by simp

lemma heard_means_taken:
  assumes "source_heard (source_run (source_new t0 w0) ops) t"
  shows "\<exists>pre f w post. ops = pre @ SoFrame f t w # post \<and> heartbeat_taken (source_run (source_new t0 w0) pre) f t w"
  using assms
proof (induction ops rule: rev_induct)
  case Nil
  then show ?case by (auto simp: source_heard_def source_new_def tracker_new_def)
next
  case (snoc x ops)
  let ?s = "source_run (source_new t0 w0) ops"
  have old: ?case if "source_heard ?s t" using snoc.IH [OF that] split_snoc by metis
  show ?case
  proof (cases x)
    case (SoEvaluate controls now w)
    then have "source_heard ?s t"
      using snoc.prems source_evaluate_state(1) [of ?s controls now w, OF surjective_pairing] by (simp add: source_heard_def)
    then show ?thesis by (rule old)
  next
    case (SoFrame f now w)
    obtain r s' where p: "source_process_frame ?s f now w = (r, s')" by fastforce
    from p show ?thesis
    proof (cases rule: source_process_cases)
      case heartbeat
      show ?thesis
      proof (cases "source_heard ?s t")
        case False
        then have "now = t"
          using snoc.prems heartbeat(4) by (auto simp: SoFrame p source_heard_def tracker_peer_heartbeat_def split: if_splits)
        then have "heartbeat_taken ?s f t w" using heartbeat p by (simp add: heartbeat_taken_def)
        then show ?thesis using SoFrame \<open>now = t\<close> by blast
      qed (rule old)
    qed (use snoc.prems old in \<open>auto simp: SoFrame p source_heard_def tracker_chassis_fault_def split: if_splits\<close>)
  qed
qed

text \<open>
  Likewise for the report that the tracker holds. The tracker refuses a report older than the last one,
  though the source marks it as seen; so only with frames in time order is the report also known to
  come after the last reboot that the source noticed.
\<close>

definition clean_report :: "safety_source_state \<Rightarrow> int \<Rightarrow> bool" where
  "clean_report s t \<longleftrightarrow> tr_last_fault_ms (so_tracker s) = t \<and> 0 \<le> t \<and> \<not> tr_fault (so_tracker s)"

lemma clean_report_step:
  assumes "clean_report (source_step s x) t"
  shows "clean_report s t \<or> (\<exists>f w. x = SoFrame f t w \<and> faultless_report_taken s f t w)"
proof (cases x)
  case (SoEvaluate controls now w)
  then show ?thesis
    using assms source_evaluate_state(1) [of s controls now w, OF surjective_pairing] by (simp add: clean_report_def)
next
  case (SoFrame f now w)
  obtain r s' where p: "source_process_frame s f now w = (r, s')" by fastforce
  from p show ?thesis
  proof (cases rule: source_process_cases)
    case (fault r')
    then show ?thesis
      using assms SoFrame p
      by (auto simp: clean_report_def faultless_report_taken_def tracker_chassis_fault_def split: if_splits)
  qed (use assms SoFrame p in \<open>auto simp: clean_report_def tracker_peer_heartbeat_def split: if_splits\<close>)
qed

lemma clean_report_taken:
  assumes "clean_report (source_run (source_new t0 w0) ops) t"
  shows "\<exists>pre f w post. ops = pre @ SoFrame f t w # post \<and>
    faultless_report_taken (source_run (source_new t0 w0) pre) f t w"
  using assms
proof (induction ops rule: rev_induct)
  case Nil
  then show ?case by (auto simp: clean_report_def source_new_def tracker_new_def)
next
  case (snoc x ops)
  then have "clean_report (source_run (source_new t0 w0) ops) t \<or>
      (\<exists>f w. x = SoFrame f t w \<and> faultless_report_taken (source_run (source_new t0 w0) ops) f t w)"
    by (intro clean_report_step) simp
  then show ?case using snoc.IH split_snoc by (metis append_Nil2)
qed

fun frame_times :: "source_op list \<Rightarrow> int list" where
  "frame_times [] = []"
| "frame_times (SoFrame f t w # ops) = t # frame_times ops"
| "frame_times (SoEvaluate c t w # ops) = frame_times ops"

lemma frame_times_append [simp]: "frame_times (xs @ ys) = frame_times xs @ frame_times ys"
  by (induction xs rule: frame_times.induct) simp_all

lemma last_report_time:
  "tr_last_fault_ms (so_tracker (source_run (source_new t0 w0) ops)) \<in> insert (- 1) (set (frame_times ops))"
proof (induction ops rule: rev_induct)
  case Nil
  then show ?case by (simp add: source_new_def tracker_new_def)
next
  case (snoc x ops)
  let ?s = "source_run (source_new t0 w0) ops"
  show ?case
  proof (cases x)
    case (SoEvaluate controls now w)
    then show ?thesis
      using snoc source_evaluate_state(1) [of ?s controls now w, OF surjective_pairing] by simp
  next
    case (SoFrame f now w)
    obtain r s' where p: "source_process_frame ?s f now w = (r, s')" by fastforce
    from p show ?thesis
      by (cases rule: source_process_cases)
        (use snoc SoFrame p in \<open>auto simp: tracker_peer_heartbeat_def tracker_chassis_fault_def\<close>)
  qed
qed

lemma cleared_after_reboot:
  assumes "source_cleared (source_run (source_new t0 w0) ops) t" "sorted (frame_times ops)"
  shows "\<exists>pre f w post. ops = pre @ SoFrame f t w # post \<and>
    faultless_report_taken (source_run (source_new t0 w0) pre) f t w \<and>
    so_observed_reboots (source_run (source_new t0 w0) pre) = so_observed_reboots (source_run (source_new t0 w0) ops)"
  using assms
proof (induction ops rule: rev_induct)
  case Nil
  then show ?case by (simp add: source_cleared_def source_new_def)
next
  case (snoc x ops)
  let ?s = "source_run (source_new t0 w0) ops"
  have old: ?case if c: "source_cleared ?s t" and r: "so_observed_reboots (source_step ?s x) = so_observed_reboots ?s"
  proof -
    have "sorted (frame_times ops)" using snoc.prems(2) by (simp add: sorted_append)
    then obtain pre f w post where "ops = pre @ SoFrame f t w # post"
      "faultless_report_taken (source_run (source_new t0 w0) pre) f t w"
      "so_observed_reboots (source_run (source_new t0 w0) pre) = so_observed_reboots ?s"
      using snoc.IH [OF c] by blast
    then show ?thesis using r split_snoc [of ops pre "SoFrame f t w" post x] by auto
  qed
  show ?case
  proof (cases x)
    case (SoEvaluate controls now w)
    then show ?thesis
      using snoc.prems source_evaluate_state [of ?s controls now w, OF surjective_pairing]
      by (intro old) (auto simp: source_cleared_def)
  next
    case (SoFrame f now w)
    obtain r s' where p: "source_process_frame ?s f now w = (r, s')" by fastforce
    from p show ?thesis
    proof (cases rule: source_process_cases)
      case (fault r')
      have "freshness_valid (tr_policy (so_tracker ?s))"
        using reachable_source [of t0 w0 ops] by (simp add: source_inv_def freshness_valid_def default_freshness_def)
      moreover have "tr_last_fault_ms (so_tracker ?s) \<le> now"
        using last_report_time [of t0 w0 ops] snoc.prems(2) fault(3) by (auto simp: SoFrame sorted_append)
      ultimately have t: "now = t" "fs_severity r' = 0" "fs_active_faults r' = 0"
        using snoc.prems(1) fault(3,5) by (auto simp: SoFrame p source_cleared_def tracker_chassis_fault_def)
      then have "faultless_report_taken ?s f t w" using fault p by (simp add: faultless_report_taken_def)
      then show ?thesis using SoFrame t(1) p fault(6) by force
    qed (use snoc.prems in \<open>intro old; auto simp: SoFrame p source_cleared_def tracker_peer_heartbeat_def split: if_splits\<close>)+
  qed
qed

section \<open>Two reports that the interlocks miss\<close>

lemma client_update_reports_iff:
  "fst (client_update c now w) \<longleftrightarrow>
     0 \<le> now \<and> hs_status (mon_snapshot (monitor_update (cc_monitor c) now)) \<noteq> cc_reported_status c"
proof -
  have "cs_heartbeat_status (cc_state (update_heartbeat_timeout c now)) = hs_status (mon_snapshot (monitor_update (cc_monitor c) now))"
    using update_heartbeat_timeout_mirrors [of c now] by (simp add: mirrors_def)
  moreover have "cc_reported_status (update_heartbeat_timeout c now) = cc_reported_status c"
    by (simp add: update_heartbeat_timeout_def refresh_heartbeat_def reset_fault_sequence_baseline_def Let_def)
  ultimately show ?thesis by (auto simp: client_update_def Let_def)
qed

text \<open>
  A source in touch: the heartbeat of time \<open>h\<close> made the peer alive and the timeout did not fire since,
  the last report taken is one without fault of time \<open>t\<close>.
\<close>

definition in_touch :: "safety_source_state \<Rightarrow> int \<Rightarrow> int \<Rightarrow> bool" where
  "in_touch s h t \<longleftrightarrow> hs_status (mon_snapshot (cc_monitor (so_client s))) = HbAlive \<and>
     hs_received_ms (mon_snapshot (cc_monitor (so_client s))) = h \<and> cc_reported_status (so_client s) = HbAlive \<and>
     so_tracker s = \<lparr>tr_policy = default_freshness, tr_last_peer_ms = h, tr_last_fault_ms = t, tr_fault = False\<rparr>"

lemma monitor_update_still_alive:
  assumes "hs_status (mon_snapshot m) = HbAlive" "now - hs_received_ms (mon_snapshot m) < 300"
  shows "hs_status (mon_snapshot (monitor_update m now)) = HbAlive"
    and "hs_received_ms (mon_snapshot (monitor_update m now)) = hs_received_ms (mon_snapshot m)"
  using assms by (simp_all add: monitor_update_def heartbeat_timeout_ms_def)

lemma in_touch_evaluate:
  assumes "in_touch s h t" "0 \<le> h" "h \<le> now" "now - h < 300" "0 \<le> t" "t \<le> now" "now - t \<le> 300"
  shows "fst (source_evaluate s controls now w) =
      controls\<lparr>ss_peer_alive := True, ss_chassis_fault := \<not> so_fault_seen s\<rparr>"
    and "in_touch (snd (source_evaluate s controls now w)) h t"
    and "so_fault_seen (snd (source_evaluate s controls now w)) = so_fault_seen s"
proof -
  have u: "hs_status (mon_snapshot (monitor_update (cc_monitor (so_client s)) now)) = HbAlive"
    "hs_received_ms (mon_snapshot (monitor_update (cc_monitor (so_client s)) now)) = h"
    using assms(1,4) monitor_update_still_alive [of "cc_monitor (so_client s)" now] by (simp_all add: in_touch_def)
  then have quiet: "\<not> fst (client_update (so_client s) now w)"
    using assms(1) by (simp add: client_update_reports_iff in_touch_def)
  then have client: "client_update (so_client s) now w = (False, update_heartbeat_timeout (so_client s) now)"
    using assms(2,3) by (auto simp: client_update_def Let_def split: if_splits)
  have fresh: "tracker_evaluate (so_tracker s) controls now = controls\<lparr>ss_peer_alive := True, ss_chassis_fault := False\<rparr>"
    using assms by (simp add: in_touch_def tracker_evaluate_def freshness_valid_def default_freshness_def)
  show "fst (source_evaluate s controls now w) =
      controls\<lparr>ss_peer_alive := True, ss_chassis_fault := \<not> so_fault_seen s\<rparr>"
    by (simp add: source_evaluate_def client fresh Let_def)
  have "snd (source_evaluate s controls now w) = s\<lparr>so_client := update_heartbeat_timeout (so_client s) now\<rparr>"
    by (simp add: source_evaluate_def client fresh Let_def)
  moreover have "cc_reported_status (update_heartbeat_timeout (so_client s) now) = cc_reported_status (so_client s)"
    by (simp add: update_heartbeat_timeout_def refresh_heartbeat_def reset_fault_sequence_baseline_def Let_def)
  ultimately show "in_touch (snd (source_evaluate s controls now w)) h t"
    "so_fault_seen (snd (source_evaluate s controls now w)) = so_fault_seen s"
    using assms(1) u by (simp_all add: in_touch_def)
qed

text \<open>A fault report stamped before the last one leaves the source in touch.\<close>

lemma late_report_in_touch:
  assumes "source_process_frame s f t w = (DsUpdated, s')" "decode_fault f = Some r"
    and "in_touch s h t'" "t < t'" "t - h < 300" "0 \<le> t'"
  shows "in_touch s' h t'" "so_fault_seen s'"
    and "reports_fault (so_state s') \<longleftrightarrow> fs_severity r \<noteq> 0 \<or> fs_active_faults r \<noteq> 0"
proof -
  let ?u = "update_heartbeat_timeout (so_client s) t"
  have f: "cf_id f = fault_status_id" using assms(2) by (simp add: decode_fault_iff is_frame_def)
  obtain c' where c': "process_frame (so_client s) f t w = (DsUpdated, c')"
    using assms(1) by (cases "process_frame (so_client s) f t w") (auto simp: source_process_frame_def Let_def)
  have s': "so_client s' = c'" "so_state s' = cc_state c'" "so_fault_seen s'"
    "so_tracker s' = snd (tracker_chassis_fault (so_tracker s) (reports_fault (cc_state c')) t)"
    using assms(1) f by (auto simp: source_process_frame_def c' Let_def)
  have ids: "fault_status_id \<noteq> motion_status_id" "fault_status_id \<noteq> odometry_report_id"
    by (simp_all add: can_id_defs)
  have c'_eq: "c' = finish_update (apply_fault ?u r) w"
    using c' f ids assms(2) by (auto simp: process_frame_def Let_def split: if_splits)
  have u: "hs_status (mon_snapshot (monitor_update (cc_monitor (so_client s)) t)) = HbAlive"
    "hs_received_ms (mon_snapshot (monitor_update (cc_monitor (so_client s)) t)) = h"
    using assms(3,5) monitor_update_still_alive [of "cc_monitor (so_client s)" t] by (simp_all add: in_touch_def)
  then have "cs_heartbeat_status (cc_state ?u) = HbAlive"
    using update_heartbeat_timeout_mirrors [of "so_client s" t] by (simp add: mirrors_def)
  then have "cc_reported_status c' = HbAlive"
    by (simp add: c'_eq finish_update_def apply_fault_def)
  moreover have "so_tracker s' = so_tracker s"
    using assms(3,4,6) by (simp add: s'(4) in_touch_def tracker_chassis_fault_def)
  moreover have "cc_monitor c' = monitor_update (cc_monitor (so_client s)) t"
    by (simp add: c'_eq)
  ultimately show "in_touch s' h t'"
    using assms(3) u by (simp add: in_touch_def s'(1))
  show "so_fault_seen s'" by (fact s'(3))
  show "reports_fault (so_state s') \<longleftrightarrow> fs_severity r \<noteq> 0 \<or> fs_active_faults r \<noteq> 0"
    by (simp add: s'(2) reports_fault_def c'_eq finish_update_def apply_fault_def)
qed

text \<open>
  C39: the tracker refuses a fault report that is stamped before the last one, and the source does not look
  at the refusal: the report is in the published state and is marked as seen, also when no report was
  seen before it, yet the next evaluation finds the interlocks clear, on the older report.
\<close>

theorem late_fault_report_ignored:
  assumes "source_process_frame s f t w = (DsUpdated, s')"
    and "decode_fault f = Some r" "fs_severity r \<noteq> 0 \<or> fs_active_faults r \<noteq> 0"
    and "in_touch s h t'" "t < t'" "t' \<le> now" "now - t' \<le> 300"
    and "0 \<le> h" "h \<le> now" "now - h < 300" "0 \<le> t'"
  shows "reports_fault (so_state s') \<and> so_fault_seen s' \<and>
    fst (source_evaluate s' controls now w') = controls\<lparr>ss_peer_alive := True, ss_chassis_fault := False\<rparr>"
proof -
  have "t - h < 300" using assms(5,6,10) by simp
  note late = late_report_in_touch [OF assms(1,2,4,5) this assms(11)]
  from in_touch_evaluate(1) [OF late(1) assms(8-11) assms(6,7)] late(2,3) assms(3) show ?thesis
    by simp
qed

lemma evaluate_keeps_report:
  "\<not> fst (client_update (so_client s) now w) \<Longrightarrow> so_fault_seen (snd (source_evaluate s controls now w)) = so_fault_seen s"
  by (auto simp: source_evaluate_def Let_def split: prod.splits)

lemma monitor_update_timed_out:
  "hs_status (mon_snapshot m) = HbTimeout \<Longrightarrow> hs_status (mon_snapshot (monitor_update m now)) = HbTimeout"
  by (simp add: monitor_update_def Let_def)

text \<open>
  A heartbeat timeout invalidates the last fault report only if \<open>Evaluate\<close> is the first to notice it. If
  a motion frame of the same moment was processed first, the client has already reported the timeout and
  the old report stays in force.
\<close>

theorem timeout_noticed_by_frame_keeps_report:
  assumes "source_inv s" "0 \<le> now" "peer_timed_out_at (so_client s) now" "cc_reported_status (so_client s) = HbAlive"
    and "cf_id f = motion_status_id" "decode_motion f motion_status0 = (True, m)"
  shows "so_fault_seen (snd (source_evaluate (snd (source_process_frame s f now w)) controls now w')) = so_fault_seen s \<and>
    \<not> so_fault_seen (snd (source_evaluate s controls now w'))"
proof -
  let ?c = "update_heartbeat_timeout (so_client s) now"
  have m: "mirrors (so_client s)" using assms(1) by (simp add: source_inv_def client_inv_def)
  have timeout: "cs_heartbeat_status (cc_state ?c) = HbTimeout"
    using assms(3) m
    by (auto simp: update_heartbeat_timeout_def peer_timed_out_at_def refresh_heartbeat_def monitor_update_def
        reset_fault_sequence_baseline_def mirrors_def Let_def)
  have ids: "motion_status_id \<noteq> heartbeat_id" "motion_status_id \<noteq> fault_status_id" by (simp_all add: can_id_defs)
  let ?d = "finish_update (apply_motion ?c m) w"
  have "process_frame (so_client s) f now w = (DsUpdated, ?d)"
    using assms(2,5,6) by (simp add: process_frame_def Let_def)
  then have s': "so_client (snd (source_process_frame s f now w)) = ?d"
    "so_fault_seen (snd (source_process_frame s f now w)) = so_fault_seen s"
    using assms(5) ids by (simp_all add: source_process_frame_def Let_def)
  have dt: "cs_heartbeat_status (cc_state ?d) = HbTimeout" "cc_reported_status ?d = HbTimeout"
    using timeout by (simp_all add: finish_update_def apply_motion_def)
  have out: "hs_status (mon_snapshot (cc_monitor ?c)) = HbTimeout"
    using timeout update_heartbeat_timeout_mirrors [of "so_client s" now] by (simp add: mirrors_def)
  then have "\<not> fst (client_update ?d now w')"
    using dt(2) monitor_update_timed_out [of "cc_monitor ?d" now] by (simp add: client_update_reports_iff)
  then have "so_fault_seen (snd (source_evaluate (snd (source_process_frame s f now w)) controls now w')) = so_fault_seen s"
    using evaluate_keeps_report [of "snd (source_process_frame s f now w)" now w' controls] by (simp add: s')
  moreover have "fst (client_update (so_client s) now w')"
    using assms(2,4) out by (simp add: client_update_reports_iff)
  then have "\<not> so_fault_seen (snd (source_evaluate s controls now w'))"
    using assms(2) timeout by (auto simp: source_evaluate_def client_update_def Let_def)
  ultimately show ?thesis by blast
qed

definition sample_motion_frame :: can_frame where
  "sample_motion_frame = fd_frame motion_status_id (zero_data[0 := schema_version, 1 := 1]) 16"

definition linked_source :: safety_source_state where
  "linked_source = source_run (source_new 0 0)
     [SoFrame (test_beat_frame 1 5000) 50 7, SoFrame (sample_fault_frame 0 9) 60 8]"

lemma link_frame_ids [simp]:
  "cf_id (test_beat_frame q u) = heartbeat_id" "cf_id (sample_fault_frame v q) = fault_status_id"
  by (rule decoded_heartbeat_id [OF test_beat_decodes]) (simp add: sample_fault_frame_def fd_frame_def Let_def)

lemmas link_eval = source_run_simps source_step.simps source_process_frame_def process_frame_def client_defs
  Let_def test_beat_decodes link_frame_ids source_new_def chassis_client_new_def monitor0_def monitor_process_def
  monitor_update_def monitor_snapshot_def can_id_defs chassis_state0_def

lemma linked_client:
  "cc_monitor (so_client linked_source) = \<lparr>mon_snapshot = \<lparr>hs_status = HbAlive, hs_heartbeat = test_beat 1 5000,
     hs_received_ms = 50, hs_age_ms = 0, hs_reboot_count = 0\<rparr>, mon_sequence_valid = True, mon_last_sequence = 1\<rparr>"
  unfolding linked_source_def by (simp add: link_eval sample_fault_decodes(1), simp add: test_beat_def heartbeat_timeout_ms_def)

lemma linked_source_facts:
  "cc_reported_status (so_client linked_source) = HbAlive" "so_fault_seen linked_source"
  "tr_last_peer_ms (so_tracker linked_source) = 50" "tr_last_fault_ms (so_tracker linked_source) = 60"
  "\<not> tr_fault (so_tracker linked_source)"
  "cc_fault_sequence_valid (so_client linked_source)" "cc_last_fault_sequence (so_client linked_source) = 9"
  "cs_heartbeat_status (cc_state (so_client linked_source)) = HbAlive"
  unfolding linked_source_def
  by (simp add: link_eval sample_fault_decodes(1), simp add: test_beat_def heartbeat_timeout_ms_def
      tracker_new_def default_freshness_def tracker_peer_heartbeat_def tracker_chassis_fault_def freshness_valid_def reports_fault_def)+

lemma linked_source_inv: "source_inv linked_source"
  unfolding linked_source_def by (rule reachable_source)

lemma linked_source_in_touch: "in_touch linked_source 50 60"
  using linked_source_inv by (simp add: in_touch_def linked_client linked_source_facts source_inv_def)

theorem late_fault_report_ignored_witness:
  "let s' = snd (source_process_frame linked_source (sample_fault_frame 2 10) 59 9)
   in reports_fault (so_state s') \<and> so_fault_seen s' \<and>
     fst (source_evaluate s' clear_state 70 0) = clear_state\<lparr>ss_peer_alive := True, ss_chassis_fault := False\<rparr>"
proof -
  let ?r = "source_process_frame linked_source (sample_fault_frame 2 10) 59 9"
  let ?c = "update_heartbeat_timeout (so_client linked_source) 59"
  have "mirrors (so_client linked_source)" using linked_source_inv by (simp add: source_inv_def client_inv_def)
  then have base: "cc_last_fault_sequence ?c = 9"
    by (intro update_heartbeat_timeout_baseline(2) [THEN trans])
      (simp_all add: linked_source_facts peer_timed_out_at_def linked_client heartbeat_timeout_ms_def)
  have proc: "process_frame (so_client linked_source) (sample_fault_frame 2 10) 59 9 = (DsUpdated,
      finish_update (apply_fault ?c \<lparr>fs_severity = 2, fs_sequence = 10, fs_flags = 0, fs_active_faults = 0,
        fs_latched_faults = 0, fs_fault_sequence = 0\<rparr>) 9)"
    using base by (simp add: process_frame_def sample_fault_decodes(1) Let_def can_id_defs word_le_nat_alt)
  have "fst ?r = DsUpdated" unfolding source_process_frame_def proc by (simp add: Let_def)
  then have upd: "?r = (DsUpdated, snd ?r)" by (metis prod.collapse)
  show ?thesis
    unfolding Let_def
    by (rule late_fault_report_ignored [where h = 50 and t' = 60, OF upd sample_fault_decodes(1) _ linked_source_in_touch])
      simp_all
qed

theorem timeout_noticed_by_frame_keeps_report_witness:
  "so_fault_seen (snd (source_evaluate (snd (source_process_frame linked_source sample_motion_frame 355 9)) clear_state 355 10)) \<and>
   \<not> so_fault_seen (snd (source_evaluate linked_source clear_state 355 10))"
proof -
  have "decode_motion sample_motion_frame motion_status0 =
      (True, snd (decode_motion sample_motion_frame motion_status0))"
    by (simp add: prod_eq_iff decode_motion_def sample_motion_frame_def is_frame_def fd_frame_def Let_def
        zero_data_def max_data_length_def schema_version_def get_i16_def get_u16_def)
  moreover have "peer_timed_out_at (so_client linked_source) 355"
    by (simp add: peer_timed_out_at_def linked_source_facts linked_client heartbeat_timeout_ms_def)
  moreover have "cf_id sample_motion_frame = motion_status_id"
    by (simp add: sample_motion_frame_def fd_frame_def)
  ultimately show ?thesis
    using timeout_noticed_by_frame_keeps_report [OF linked_source_inv _ _ linked_source_facts(1), of 355 sample_motion_frame _ 9 clear_state 10]
    by (auto simp: linked_source_facts)
qed

section \<open>Reboots\<close>

text \<open>
  With frames in time order, a live chassis is shown free of fault only on a report without fault that
  was taken within 300 ms and after the last reboot the source noticed: a report from before a reboot
  never counts.
\<close>

theorem reboot_needs_new_report:
  assumes "sorted (frame_times ops)"
    and "source_evaluate (source_run (source_new t0 w0) ops) controls now w = (st, s')"
    and "ss_peer_alive st" "\<not> ss_chassis_fault st"
  shows "\<exists>pre f t v post. ops = pre @ SoFrame f t v # post \<and> t \<le> now \<and> now - t \<le> 300 \<and>
    faultless_report_taken (source_run (source_new t0 w0) pre) f t v \<and>
    so_observed_reboots (source_run (source_new t0 w0) pre) = so_observed_reboots (source_run (source_new t0 w0) ops)"
proof -
  obtain t where "source_cleared (source_run (source_new t0 w0) ops) t" "t \<le> now" "now - t \<le> 300"
    using can_source.faultless_cleared [OF reachable_source assms(2-4)] by blast
  with cleared_after_reboot [OF this(1) assms(1)] show ?thesis by blast
qed

lemma linked_source_clear:
  "fst (source_evaluate linked_source clear_state 70 0) = clear_state"
proof -
  have "\<not> fst (client_update (so_client linked_source) 70 0)"
    by (simp add: client_update_reports_iff linked_client linked_source_facts monitor_update_def heartbeat_timeout_ms_def)
  moreover have "tr_policy (so_tracker linked_source) = default_freshness"
    using linked_source_inv by (simp add: source_inv_def)
  ultimately show ?thesis
    by (auto simp: source_evaluate_def Let_def linked_source_facts tracker_evaluate_def freshness_valid_def
        default_freshness_def clear_state_def split: prod.splits)
qed

theorem reboot_needs_new_report_witness:
  "\<exists>pre f t v post. [SoFrame (test_beat_frame 1 5000) 50 7, SoFrame (sample_fault_frame 0 9) 60 8] = pre @ SoFrame f t v # post \<and>
     t \<le> 70 \<and> 70 - t \<le> 300 \<and> faultless_report_taken (source_run (source_new 0 0) pre) f t v \<and>
     so_observed_reboots (source_run (source_new 0 0) pre) = so_observed_reboots linked_source"
  using reboot_needs_new_report [where ?t0.0 = 0 and ?w0.0 = 0 and controls = clear_state and now = 70 and w = 0 and
      ops = "[SoFrame (test_beat_frame 1 5000) 50 7, SoFrame (sample_fault_frame 0 9) 60 8]", OF _ prod.collapse [symmetric]]
    linked_source_clear
  unfolding linked_source_def [symmetric] by (simp add: clear_state_def)

end
