(* ===== verification/Safety_Loop.thy ===== *)
theory Safety_Loop
  imports Safety_Source Socket_Can
begin

text \<open>
  The control loop on the bus, \<open>cockpit/driver/vehicle/runtime/vcan_chassis_safety_loop.cc\<close>, with the
  sink that sends its commands (\<open>socketcan_chassis_sink.cc\<close>): it drains at most 64 received frames into
  the safety source, evaluates the shield and sends what it says. The socket is the list of receive
  events it will return (an empty list is a timeout), each with the wall clock read while the frame is
  processed; the result of \<open>write\<close> is an argument.
\<close>

section \<open>State and operations\<close>

record safety_loop =
  lo_adapter :: safety_adapter
  lo_source :: safety_source_state

definition loop_new :: "safety_policy \<Rightarrow> int \<Rightarrow> int \<Rightarrow> safety_loop" where
  "loop_new p started_steady_ms wall_ms =
     \<lparr>lo_adapter = adapter_new p, lo_source = source_new started_steady_ms wall_ms\<rparr>"

text \<open>\<open>OpenVcanOnly\<close>: its error text, or a loop if the two sockets open.\<close>

definition loop_open ::
  "string \<Rightarrow> safety_policy \<Rightarrow> int \<Rightarrow> int \<Rightarrow> string option \<Rightarrow> string option \<Rightarrow> string + safety_loop" where
  "loop_open interface_name p started_steady_ms wall_ms receive_error send_error =
     (if interface_name \<noteq> ''vcan0'' \<or> \<not> policy_valid p \<or> started_steady_ms < 0 then
        Inl ''invalid VM-only vcan chassis safety configuration''
      else case receive_error of Some e \<Rightarrow> Inl e
      | None \<Rightarrow> (case send_error of Some e \<Rightarrow> Inl e | None \<Rightarrow> Inr (loop_new p started_steady_ms wall_ms)))"

definition loop_submit ::
  "safety_loop \<Rightarrow> velocity_request \<Rightarrow> safety_state \<Rightarrow> int \<Rightarrow> int \<Rightarrow> string option \<times> safety_loop" where
  "loop_submit lo r controls now wall_ms =
     (case source_evaluate (lo_source lo) controls now wall_ms of (st, src) \<Rightarrow>
      case adapter_submit (lo_adapter lo) r st now of (e, a) \<Rightarrow>
        (e, lo\<lparr>lo_adapter := a, lo_source := src\<rparr>))"

text \<open>\<open>Send\<close> of the sink; the outer \<open>None\<close> is the undefined behaviour of an overlong frame.\<close>

definition sink_send :: "safe_command \<Rightarrow> int \<Rightarrow> ((native_frame \<times> int) option \<times> string option) option" where
  "sink_send c written =
     (let velocity = \<lparr>vc_enabled = sc_enabled c, vc_sequence = sc_sequence c,
            vc_linear = (if sc_enabled c then sc_linear c else 0),
            vc_angular = (if sc_enabled c then sc_angular c else 0)\<rparr>
      in case encode_velocity velocity of
           None \<Rightarrow> Some (None, Some ''safe chassis command could not be encoded as CAN 0x101'')
         | Some f \<Rightarrow> map_option (\<lambda>s. socket_send True s written) (to_socket_can_frame f))"

datatype receive_end = RxDone | RxIoError can_io_status | RxError string

fun receive_loop ::
  "nat \<Rightarrow> int \<Rightarrow> (rx_event \<times> int) list \<Rightarrow> safety_source_state \<Rightarrow> int \<Rightarrow>
     receive_end \<times> safety_source_state \<times> (rx_event \<times> int) list" where
  "receive_loop 0 timeout_ms queue s now = (RxDone, s, queue)"
| "receive_loop (Suc n) timeout_ms [] s now = (RxDone, s, [])"
| "receive_loop (Suc n) timeout_ms ((ev, wall_ms) # queue) s now =
     (case socket_receive True ev timeout_ms of
        (IoTimeout, _) \<Rightarrow> (RxDone, s, queue)
      | (IoOk, Some sf) \<Rightarrow>
          (case map_to_logical_steady_ms sf now of
             None \<Rightarrow> (RxError ''invalid SocketCAN kernel RX timestamp'', s, queue)
           | Some received_ms \<Rightarrow>
               (case from_socket_can_frame sf of
                  Inl e \<Rightarrow> (RxError e, s, queue)
                | Inr f \<Rightarrow>
                    if cf_id f = velocity_command_id then receive_loop n 0 queue s now
                    else if (cf_id f = heartbeat_id \<or> cf_id f = fault_status_id) \<and>
                            now - received_ms \<ge> heartbeat_timeout_ms then receive_loop n 0 queue s now
                    else receive_loop n 0 queue (snd (source_process_frame s f received_ms wall_ms)) now))
      | (status, _) \<Rightarrow> (RxIoError status, s, queue))"

datatype step_result = StepRejected string | StepReceiveFailed receive_end
  | StepSent safe_command "(native_frame \<times> int) option" "string option" | StepUndefined safe_command

definition sent_result :: "safe_command \<Rightarrow> int \<Rightarrow> step_result" where
  "sent_result c written = (case sink_send c written of None \<Rightarrow> StepUndefined c | Some (out, e) \<Rightarrow> StepSent c out e)"

definition loop_step ::
  "safety_loop \<Rightarrow> safety_state \<Rightarrow> int \<Rightarrow> int \<Rightarrow> (rx_event \<times> int) list \<Rightarrow> int \<Rightarrow> int \<Rightarrow>
     step_result \<times> safety_loop \<times> (rx_event \<times> int) list" where
  "loop_step lo controls now receive_timeout_ms queue wall_ms written =
     (if now < 0 \<or> receive_timeout_ms < 0 then
        (StepRejected ''invalid vcan chassis safety step arguments'', lo, queue)
      else case receive_loop 64 receive_timeout_ms queue (lo_source lo) now of
        (RxDone, src, rest) \<Rightarrow>
          (case source_evaluate src controls now wall_ms of (st, src') \<Rightarrow>
           case adapter_evaluate (lo_adapter lo) st now of (c, a) \<Rightarrow>
             (sent_result c written, lo\<lparr>lo_adapter := a, lo_source := src'\<rparr>, rest))
      | (failure, src, rest) \<Rightarrow> (StepReceiveFailed failure, lo\<lparr>lo_source := src\<rparr>, rest))"

definition stopped_state :: safety_state where
  "stopped_state = \<lparr>ss_enabled = False, ss_authority = True, ss_emergency_stop = False,
     ss_peer_alive = True, ss_chassis_fault = False\<rparr>"

definition loop_stop :: "safety_loop \<Rightarrow> int \<Rightarrow> int \<Rightarrow> step_result \<times> safety_loop" where
  "loop_stop lo now written =
     (if now < 0 then (StepRejected ''invalid vcan chassis safety stop arguments'', lo)
      else
        (case adapter_evaluate (adapter_reset (lo_adapter lo) now) stopped_state now of (c, a) \<Rightarrow>
           (sent_result c written, lo\<lparr>lo_adapter := a\<rparr>)))"

section \<open>Runs, and the source operations they perform\<close>

datatype loop_op = LoSubmit velocity_request safety_state int int
  | LoStep safety_state int int "(rx_event \<times> int) list" int int
  | LoStop int int

fun loop_apply :: "safety_loop \<Rightarrow> loop_op \<Rightarrow> safety_loop" where
  "loop_apply lo (LoSubmit r controls now w) = snd (loop_submit lo r controls now w)"
| "loop_apply lo (LoStep controls now timeout queue w written) =
     fst (snd (loop_step lo controls now timeout queue w written))"
| "loop_apply lo (LoStop now written) = snd (loop_stop lo now written)"

definition loop_run :: "safety_loop \<Rightarrow> loop_op list \<Rightarrow> safety_loop" where
  "loop_run lo ops = foldl loop_apply lo ops"

lemma loop_run_simps [simp]:
  "loop_run lo [] = lo" "loop_run lo (x # ops) = loop_run (loop_apply lo x) ops"
  by (simp_all add: loop_run_def)

text \<open>The frames that a drain hands to the source: they depend on the queue and the time only.\<close>

fun drained :: "nat \<Rightarrow> int \<Rightarrow> (rx_event \<times> int) list \<Rightarrow> int \<Rightarrow> bool \<times> source_op list" where
  "drained 0 timeout_ms queue now = (True, [])"
| "drained (Suc n) timeout_ms [] now = (True, [])"
| "drained (Suc n) timeout_ms ((ev, wall_ms) # queue) now =
     (case socket_receive True ev timeout_ms of
        (IoTimeout, _) \<Rightarrow> (True, [])
      | (IoOk, Some sf) \<Rightarrow>
          (case (map_to_logical_steady_ms sf now, from_socket_can_frame sf) of
             (Some received_ms, Inr f) \<Rightarrow>
               if cf_id f = velocity_command_id \<or> (cf_id f = heartbeat_id \<or> cf_id f = fault_status_id) \<and>
                    now - received_ms \<ge> 300
               then drained n 0 queue now
               else (case drained n 0 queue now of (ok, ops) \<Rightarrow> (ok, SoFrame f received_ms wall_ms # ops))
           | _ \<Rightarrow> (False, []))
      | _ \<Rightarrow> (False, []))"

text \<open>One event: a frame that is processed, one that is skipped, or the end of the drain.\<close>

lemma receive_loop_event:
  obtains (stop) r ok where "\<And>s. receive_loop (Suc n) t ((ev, w) # queue) s now = (r, s, queue)"
      "drained (Suc n) t ((ev, w) # queue) now = (ok, [])" "r = RxDone \<longleftrightarrow> ok"
  | (skip) "\<And>s. receive_loop (Suc n) t ((ev, w) # queue) s now = receive_loop n 0 queue s now"
      "drained (Suc n) t ((ev, w) # queue) now = drained n 0 queue now"
  | (frame) f received_ms where
      "\<And>s. receive_loop (Suc n) t ((ev, w) # queue) s now =
         receive_loop n 0 queue (snd (source_process_frame s f received_ms w)) now"
      "drained (Suc n) t ((ev, w) # queue) now =
         (fst (drained n 0 queue now), SoFrame f received_ms w # snd (drained n 0 queue now))"
proof (cases "socket_receive True ev t")
  case (Pair st osf)
  show thesis
  proof (cases "st = IoOk \<and> osf \<noteq> None")
    case False
    then show thesis using Pair stop by (cases st; cases osf) auto
  next
    case True
    then obtain sf where sf: "socket_receive True ev t = (IoOk, Some sf)" using Pair by auto
    show thesis
    proof (cases "map_to_logical_steady_ms sf now")
      case None
      then show thesis using sf stop [of "RxError ''invalid SocketCAN kernel RX timestamp''" False] by simp
    next
      case time: (Some received_ms)
      show thesis
      proof (cases "from_socket_can_frame sf")
        case (Inl e)
        then show thesis using sf time stop [of "RxError e" False] by simp
      next
        case (Inr f)
        then show thesis
          using sf time skip frame [of f received_ms]
          by (cases "cf_id f = velocity_command_id \<or> (cf_id f = heartbeat_id \<or> cf_id f = fault_status_id) \<and> now - received_ms \<ge> 300")
            (auto simp: heartbeat_timeout_ms_def case_prod_beta)
      qed
    qed
  qed
qed

lemma receive_loop_drained:
  assumes "receive_loop n timeout_ms queue s now = (r, s', rest)"
  shows "s' = source_run s (snd (drained n timeout_ms queue now)) \<and> (r = RxDone \<longleftrightarrow> fst (drained n timeout_ms queue now))"
  using assms
proof (induction n arbitrary: timeout_ms queue s)
  case (Suc n)
  show ?case
  proof (cases queue)
    case (Cons e queue')
    obtain ev w where e: "e = (ev, w)" by fastforce
    show ?thesis
      by (rule receive_loop_event [of n timeout_ms ev w queue' now])
        (use Suc in \<open>auto simp: Cons e simp del: receive_loop.simps drained.simps\<close>)
  qed (use Suc in simp)
qed simp

fun source_ops :: "loop_op \<Rightarrow> source_op list" where
  "source_ops (LoSubmit r controls now w) = [SoEvaluate controls now w]"
| "source_ops (LoStep controls now timeout queue w written) =
     (if now < 0 \<or> timeout < 0 then []
      else case drained 64 timeout queue now of (ok, ops) \<Rightarrow> ops @ (if ok then [SoEvaluate controls now w] else []))"
| "source_ops (LoStop now written) = []"

lemma loop_apply_source: "lo_source (loop_apply lo x) = source_run (lo_source lo) (source_ops x)"
proof (cases x)
  case (LoStep controls now timeout queue w written)
  show ?thesis
  proof (cases "now < 0 \<or> timeout < 0")
    case False
    obtain r src rest where r: "receive_loop 64 timeout queue (lo_source lo) now = (r, src, rest)"
      by (metis prod.collapse)
    have "fst (snd (loop_step lo controls now timeout queue w written)) =
        (case r of RxDone \<Rightarrow> lo\<lparr>lo_adapter := snd (adapter_evaluate (lo_adapter lo) (fst (source_evaluate src controls now w)) now),
             lo_source := snd (source_evaluate src controls now w)\<rparr> | _ \<Rightarrow> lo\<lparr>lo_source := src\<rparr>)"
      using False by (simp add: loop_step_def r split: receive_end.splits prod.splits)
    moreover obtain ok xs where "drained 64 timeout queue now = (ok, xs)" by fastforce
    ultimately show ?thesis
      using False receive_loop_drained [OF r] by (auto simp: LoStep split: receive_end.splits)
  qed (simp add: LoStep loop_step_def)
qed (simp_all add: loop_submit_def loop_stop_def split: prod.splits)

lemma loop_run_source:
  "lo_source (loop_run lo ops) = source_run (lo_source lo) (concat (map source_ops ops))"
  by (induction ops arbitrary: lo) (simp_all add: loop_apply_source)

lemma loop_apply_adapter:
  "\<exists>aops. lo_adapter (loop_apply lo x) = adapter_run (lo_adapter lo) aops"
proof (cases x)
  case (LoSubmit r controls now w)
  then have "lo_adapter (loop_apply lo x) = adapter_run (lo_adapter lo)
      [OpSubmit r (fst (source_evaluate (lo_source lo) controls now w)) now]"
    by (simp add: loop_submit_def split: prod.splits)
  then show ?thesis ..
next
  case (LoStep controls now timeout queue w written)
  have "lo_adapter (loop_apply lo x) = adapter_run (lo_adapter lo) [] \<or>
      (\<exists>st. lo_adapter (loop_apply lo x) = adapter_run (lo_adapter lo) [OpEvaluate st now])"
    by (auto simp: LoStep loop_step_def split: prod.splits receive_end.splits) (metis snd_conv)
  then show ?thesis by blast
next
  case (LoStop now written)
  have "lo_adapter (loop_apply lo x) = adapter_run (lo_adapter lo) [] \<or>
      lo_adapter (loop_apply lo x) = adapter_run (lo_adapter lo) [OpReset now, OpEvaluate stopped_state now]"
    by (auto simp: LoStop loop_stop_def split: prod.splits)
  then show ?thesis by blast
qed

lemma loop_run_adapter: "\<exists>aops. lo_adapter (loop_run lo ops) = adapter_run (lo_adapter lo) aops"
proof (induction ops arbitrary: lo)
  case Nil
  have "lo_adapter (loop_run lo []) = adapter_run (lo_adapter lo) []" by simp
  then show ?case ..
next
  case (Cons x ops)
  obtain xs where "lo_adapter (loop_apply lo x) = adapter_run (lo_adapter lo) xs"
    using loop_apply_adapter by blast
  moreover obtain ys where "lo_adapter (loop_run (loop_apply lo x) ops) = adapter_run (lo_adapter (loop_apply lo x)) ys"
    using Cons.IH by blast
  ultimately have "lo_adapter (loop_run lo (x # ops)) = adapter_run (lo_adapter lo) (xs @ ys)"
    by (simp add: adapter_run_def)
  then show ?case ..
qed

lemma reachable_loop:
  assumes "lo = loop_run (loop_new p t0 w0) ops"
  shows "adapter_inv (lo_adapter lo)" "ad_policy (lo_adapter lo) = p"
    "lo_source lo = source_run (source_new t0 w0) (concat (map source_ops ops))"
proof -
  obtain aops where "lo_adapter lo = adapter_run (adapter_new p) aops"
    using loop_run_adapter [of "loop_new p t0 w0" ops] assms by (auto simp: loop_new_def)
  then show "adapter_inv (lo_adapter lo)" "ad_policy (lo_adapter lo) = p"
    using reachable_adapter run_policy by metis+
  show "lo_source lo = source_run (source_new t0 w0) (concat (map source_ops ops))"
    using loop_run_source [of "loop_new p t0 w0" ops] assms by (simp add: loop_new_def)
qed

section \<open>What a moving command proves\<close>

lemma step_sends_shielded:
  assumes "fst (loop_step lo controls now timeout queue w written) = StepSent c out e"
  shows "c = can_source.shielded (source_run (lo_source lo) (snd (drained 64 timeout queue now))) (lo_adapter lo) controls now w"
proof -
  obtain r src rest where r: "receive_loop 64 timeout queue (lo_source lo) now = (r, src, rest)"
    by (metis prod.collapse)
  then show ?thesis
    using assms receive_loop_drained [OF r]
    by (auto simp: loop_step_def can_source.shielded_def sent_result_def split: if_splits receive_end.splits prod.splits option.splits)
qed

text \<open>
  C1: the loop moves the chassis only on a fresh, healthy link. If a step of the loop, after any history of
  submits, steps and stops, sends a command that enables motion, then the controls are enabled with
  authority and no emergency stop, a heartbeat and a report without fault were each taken from a frame
  stamped at most 300 ms before, and the policy is valid and an accepted request is within its timeout.
\<close>

theorem loop_moves_on_fresh_link_only:
  assumes "lo = loop_run (loop_new p t0 w0) ops"
    and "fst (loop_step lo controls now timeout queue w written) = StepSent c out e" "sc_enabled c"
    and "history = concat (map source_ops ops) @ snd (drained 64 timeout queue now)"
  shows "ss_enabled controls \<and> ss_authority controls \<and> \<not> ss_emergency_stop controls \<and>
    (\<exists>pre f t v post. history = pre @ SoFrame f t v # post \<and> t \<le> now \<and> now - t \<le> 300 \<and>
       heartbeat_taken (source_run (source_new t0 w0) pre) f t v) \<and>
    (\<exists>pre f t v post. history = pre @ SoFrame f t v # post \<and> t \<le> now \<and> now - t \<le> 300 \<and>
       faultless_report_taken (source_run (source_new t0 w0) pre) f t v) \<and>
    policy_valid p \<and> request_live (lo_adapter lo) now"
proof -
  let ?s = "source_run (source_new t0 w0) history"
  note lo = reachable_loop [OF assms(1)]
  have "c = can_source.shielded ?s (lo_adapter lo) controls now w"
    using step_sends_shielded [OF assms(2)] by (simp add: lo(3) assms(4))
  then have m: "ss_enabled controls \<and> ss_authority controls \<and> \<not> ss_emergency_stop controls \<and>
    (\<exists>t. source_heard ?s t \<and> t \<le> now \<and> now - t \<le> 300) \<and> (\<exists>t. source_cleared ?s t \<and> t \<le> now \<and> now - t \<le> 300) \<and>
    policy_valid (ad_policy (lo_adapter lo)) \<and> request_live (lo_adapter lo) now"
    using assms(3) by (intro can_source.moving_means_clear [OF reachable_source lo(1), of _ _ _ controls now w]) simp
  then obtain t t' where t: "source_heard ?s t" "t \<le> now" "now - t \<le> 300" "source_cleared ?s t'" "t' \<le> now" "now - t' \<le> 300"
    by blast
  have "clean_report ?s t'" using t(4) by (simp add: clean_report_def source_cleared_def)
  from heard_means_taken [OF t(1)] clean_report_taken [OF this] t m show ?thesis
    unfolding lo(2) by blast
qed

section \<open>Every command reaches the bus\<close>

lemma sink_sends_frame:
  assumes "\<bar>sc_linear c\<bar> \<le> 2000" "\<bar>sc_angular c\<bar> \<le> 10000"
  shows "\<exists>f s. encode_velocity \<lparr>vc_enabled = sc_enabled c, vc_sequence = sc_sequence c,
        vc_linear = (if sc_enabled c then sc_linear c else 0), vc_angular = (if sc_enabled c then sc_angular c else 0)\<rparr> = Some f \<and>
      to_socket_can_frame f = Some s \<and>
      sink_send c written = Some (Some (native_of_frame s, canfd_mtu),
        if written \<noteq> canfd_mtu then Some ''send CAN frame failed'' else None)"
proof -
  let ?v = "\<lparr>vc_enabled = sc_enabled c, vc_sequence = sc_sequence c, vc_linear = (if sc_enabled c then sc_linear c else 0),
     vc_angular = (if sc_enabled c then sc_angular c else 0)\<rparr>"
  have "velocity_in_range ?v" using assms by (simp add: velocity_in_range_def)
  then obtain f where f: "encode_velocity ?v = Some f" by (auto simp: encode_velocity_eq)
  then obtain s where s: "to_socket_can_frame f = Some s"
    using to_socket_can_frame_Some [OF valid_frame_len] encode_velocity_facts(2) by blast
  have "valid_for_send s" "sf_fd s"
    using to_socket_valid_for_send [OF s] encode_velocity_facts(2,4) [OF f] s
    by (auto simp: is_frame_def to_socket_can_frame_def Let_def split: if_splits)
  with f s show ?thesis by (auto simp: sink_send_def socket_send_def Let_def)
qed

definition sends_command :: "step_result \<Rightarrow> int \<Rightarrow> bool" where
  "sends_command r written \<longleftrightarrow>
     (\<exists>c f s. r = StepSent c (Some (native_of_frame s, canfd_mtu))
          (if written \<noteq> canfd_mtu then Some ''send CAN frame failed'' else None) \<and>
        encode_velocity \<lparr>vc_enabled = sc_enabled c, vc_sequence = sc_sequence c,
          vc_linear = sc_linear c, vc_angular = sc_angular c\<rparr> = Some f \<and> to_socket_can_frame f = Some s)"

lemma sent_command:
  assumes "adapter_inv a"
  shows "sends_command (sent_result (fst (adapter_evaluate a st now)) written) written"
proof -
  let ?c = "fst (adapter_evaluate a st now)"
  have b: "if sc_enabled ?c
      then \<bar>sc_linear ?c\<bar> \<le> min (sp_max_linear (ad_policy a)) 2000 \<and> \<bar>sc_angular ?c\<bar> \<le> min (sp_max_angular (ad_policy a)) 10000
      else sc_linear ?c = 0 \<and> sc_angular ?c = 0"
    using commands_bounded_lemma [OF assms refl, of st now] unfolding case_prod_beta Let_def by (rule conjunct1)
  then have "\<bar>sc_linear ?c\<bar> \<le> 2000" "\<bar>sc_angular ?c\<bar> \<le> 10000"
    "(if sc_enabled ?c then sc_linear ?c else 0) = sc_linear ?c" "(if sc_enabled ?c then sc_angular ?c else 0) = sc_angular ?c"
    by (simp_all split: if_splits)
  then show ?thesis
    using sink_sends_frame [of ?c written] unfolding sends_command_def sent_result_def by fastforce
qed

text \<open>
  C5: whatever the shield decides can be sent. From any reachable loop whose policy is valid, a step that
  got its frames and a stop both hand the kernel one CAN-FD frame of 72 bytes, which is the encoding of
  exactly the command they return; they fail only if the kernel does not take all of it.
\<close>

theorem commands_reach_bus:
  assumes "lo = loop_run (loop_new p t0 w0) ops" "0 \<le> now" "0 \<le> timeout"
  shows "(fst (drained 64 timeout queue now) \<longrightarrow>
       sends_command (fst (loop_step lo controls now timeout queue w written)) written) \<and>
    sends_command (fst (loop_stop lo now written)) written"
proof
  note inv = reachable_loop(1) [OF assms(1)]
  show "fst (drained 64 timeout queue now) \<longrightarrow> sends_command (fst (loop_step lo controls now timeout queue w written)) written"
  proof
    assume ok: "fst (drained 64 timeout queue now)"
    obtain r src rest where r: "receive_loop 64 timeout queue (lo_source lo) now = (r, src, rest)"
      by (metis prod.collapse)
    then have "r = RxDone" using receive_loop_drained [OF r] ok by simp
    then show "sends_command (fst (loop_step lo controls now timeout queue w written)) written"
      using assms(2,3) r sent_command [OF inv] by (simp add: loop_step_def case_prod_beta)
  qed
  have "adapter_inv (adapter_reset (lo_adapter lo) now)"
    using adapter_step_inv [OF inv, of "OpReset now"] by simp
  then show "sends_command (fst (loop_stop lo now written)) written"
    using assms(2) sent_command by (simp add: loop_stop_def case_prod_beta)
qed

section \<open>A run that moves\<close>

text \<open>An event that delivers a CAN-FD frame at the moment it was received.\<close>

definition fresh_event :: "can_frame \<Rightarrow> rx_event" where
  "fresh_event f = \<lparr>rx_poll = 1, rx_poll_error = False, rx_received = canfd_mtu, rx_truncated = False,
     rx_timestamp = Some \<lparr>ts_sec = 1000, ts_nsec = 5\<rparr>, rx_realtime = Some \<lparr>ts_sec = 1000, ts_nsec = 5\<rparr>,
     rx_steady = Some \<lparr>ts_sec = 20, ts_nsec = 0\<rparr>, rx_frame = native_of_frame (the (to_socket_can_frame f))\<rparr>"

lemma fresh_event_received:
  assumes "can_frame_valid f" "frame_wf f" "zero_padded f" "cf_fd f" "- 1 \<le> t" "0 \<le> now"
  shows "\<exists>r. socket_receive True (fresh_event f) t = (IoOk, Some r) \<and> map_to_logical_steady_ms r now = Some now \<and>
    from_socket_can_frame r = Inr f"
proof -
  obtain s where s: "to_socket_can_frame f = Some s"
    using to_socket_can_frame_Some [OF valid_frame_len [OF assms(1)]] by blast
  define r where "r = frame_of_native (rx_frame (fresh_event f)) canfd_mtu 1000000000005 20000000000 20000000000"
  have r: "socket_receive True (fresh_event f) t = (IoOk, Some r)"
    using assms(5) by (simp add: r_def socket_receive_def fresh_event_def canfd_mtu_def can_mtu_def timespec_nanoseconds_def
        map_kernel_realtime_to_steady_def)
  have "delivers (fresh_event f) (native_of_frame s) canfd_mtu"
    by (simp add: delivers_def fresh_event_def s)
  then have "from_socket_can_frame r = Inr f"
    using receive_deterministic_frame [OF assms(1-3) s assms(4) _ r] by simp
  moreover have "map_to_logical_steady_ms r now = Some now"
    using assms(6) by (simp add: r_def map_to_logical_steady_ms_def frame_of_native_def Let_def smod_nonneg sdiv_nonneg)
  ultimately show ?thesis using r by blast
qed

lemma put_preserves_tail:
  "i + 2 \<le> k \<Longrightarrow> drop k (put_u16 d i v) = drop k d" "i + 4 \<le> k \<Longrightarrow> drop k (put_u32 d i w) = drop k d"
  by (simp_all add: put_u16_def put_u32_def)

lemma link_frames_padded:
  "zero_padded (test_beat_frame q u)" "zero_padded (sample_fault_frame v q)"
  "cf_fd (test_beat_frame q u)" "cf_fd (sample_fault_frame v q)"
  "frame_wf (test_beat_frame q u)" "can_frame_valid (test_beat_frame q u)" "can_frame_valid (sample_fault_frame v q)"
  "frame_wf (sample_fault_frame v q)"
proof -
  have "encode_heartbeat (test_beat q u) = Some (test_beat_frame q u)"
    by (simp add: test_beat_frame_def encode_heartbeat_eq, simp add: test_beat_def)
  then show "frame_wf (test_beat_frame q u)" "can_frame_valid (test_beat_frame q u)"
    using heartbeat_decode_encode by blast+
  show "zero_padded (test_beat_frame q u)" "cf_fd (test_beat_frame q u)"
    by (simp_all add: test_beat_frame_def encode_heartbeat_eq test_beat_def zero_padded_def fd_frame_def
        heartbeat_head_def put_preserves_tail)
  show "zero_padded (sample_fault_frame v q)" "cf_fd (sample_fault_frame v q)" "frame_wf (sample_fault_frame v q)"
    "can_frame_valid (sample_fault_frame v q)"
    by (simp_all add: sample_fault_frame_def Let_def zero_padded_def fd_frame_def put_preserves_tail frame_wf_def
        can_frame_valid_def max_data_length_def fault_status_id_def)
qed

definition demo_queue :: "(rx_event \<times> int) list" where
  "demo_queue = [(fresh_event (test_beat_frame 1 5000), 7), (fresh_event (sample_fault_frame 0 9), 8)]"

definition demo_ops :: "loop_op list" where
  "demo_ops = [LoStep clear_state 1000 0 demo_queue 9 72, LoSubmit sample_request clear_state 1000 10]"

lemma demo_drained:
  "drained 64 0 demo_queue 1000 = (True, [SoFrame (test_beat_frame 1 5000) 1000 7, SoFrame (sample_fault_frame 0 9) 1000 8])"
proof -
  obtain r where r: "socket_receive True (fresh_event (test_beat_frame 1 5000)) 0 = (IoOk, Some r)"
    "map_to_logical_steady_ms r 1000 = Some 1000" "from_socket_can_frame r = Inr (test_beat_frame 1 5000)"
    using fresh_event_received [of "test_beat_frame 1 5000" 0 1000] link_frames_padded by auto
  obtain r' where r': "socket_receive True (fresh_event (sample_fault_frame 0 9)) 0 = (IoOk, Some r')"
    "map_to_logical_steady_ms r' 1000 = Some 1000" "from_socket_can_frame r' = Inr (sample_fault_frame 0 9)"
    using fresh_event_received [of "sample_fault_frame 0 9" 0 1000] link_frames_padded by auto
  have ids: "heartbeat_id \<noteq> velocity_command_id" "fault_status_id \<noteq> velocity_command_id"
    by (simp_all add: can_id_defs)
  have "drained (Suc (Suc (Suc n))) 0 demo_queue 1000 =
      (True, [SoFrame (test_beat_frame 1 5000) 1000 7, SoFrame (sample_fault_frame 0 9) 1000 8])" for n
    unfolding demo_queue_def by (simp add: r r' ids)
  from this [of 61] show ?thesis by simp
qed

lemma demo_linked:
  fixes s defines "s \<equiv> source_run (source_new 0 0)
    [SoFrame (test_beat_frame 1 5000) 1000 7, SoFrame (sample_fault_frame 0 9) 1000 8]"
  shows "in_touch s 1000 1000 \<and> so_fault_seen s"
  unfolding in_touch_def s_def
  by (simp add: link_eval sample_fault_decodes(1), simp add: test_beat_def heartbeat_timeout_ms_def
      tracker_new_def default_freshness_def tracker_peer_heartbeat_def tracker_chassis_fault_def freshness_valid_def reports_fault_def)

lemma clear_state_alive: "clear_state\<lparr>ss_peer_alive := True, ss_chassis_fault := False\<rparr> = clear_state"
  by (simp add: clear_state_def)

lemma empty_queue [simp]:
  "receive_loop n t [] s now = (RxDone, s, [])" "drained n t [] now = (True, [])"
  by (cases n; simp)+

text \<open>
  What a healthy link is at a time: a heartbeat less than 300 ms old and a report without fault at most 300 ms
  old are the last ones taken, and a report was seen since the last reboot or timeout.
\<close>

definition link_healthy :: "safety_source_state \<Rightarrow> int \<Rightarrow> bool" where
  "link_healthy s now \<longleftrightarrow> so_fault_seen s \<and> (\<exists>h t. in_touch s h t \<and> 0 \<le> h \<and> h \<le> now \<and> now - h < 300 \<and>
     0 \<le> t \<and> t \<le> now \<and> now - t \<le> 300)"

lemma link_healthy_evaluate:
  assumes "link_healthy s now"
  shows "fst (source_evaluate s controls now w) = controls\<lparr>ss_peer_alive := True, ss_chassis_fault := False\<rparr>"
    and "link_healthy (snd (source_evaluate s controls now w)) now"
  using assms in_touch_evaluate [of s _ _ now controls w] unfolding link_healthy_def by (auto, blast)

lemma healthy_link_lemma:
  assumes src: "link_healthy (lo_source lo) now" and t: "0 \<le> now" "now \<le> now'"
    and ctl: "ss_enabled controls" "ss_authority controls" "\<not> ss_emergency_stop controls"
    and ctl': "ss_enabled controls'" "ss_authority controls'" "\<not> ss_emergency_stop controls'"
    and ad: "adapter_inv (lo_adapter lo)" "policy_valid (ad_policy (lo_adapter lo))" "ad_last_output_ms (lo_adapter lo) \<le> now"
    and late: "now' - now \<le> sp_command_timeout_ms (ad_policy (lo_adapter lo))"
    and r: "request_representable r" and w: "0 \<le> timeout"
    and submit: "loop_submit lo r controls now w = (err, lo')"
    and heard: "drained 64 timeout queue now' = (True, ops')" "link_healthy (source_run (lo_source lo') ops') now'"
  shows "err = None \<and> (\<exists>c sent. fst (loop_step lo' controls' now' timeout queue w' canfd_mtu) = StepSent c sent None \<and> sc_enabled c)"
proof -
  let ?st = "controls\<lparr>ss_peer_alive := True, ss_chassis_fault := False\<rparr>"
  let ?st' = "controls'\<lparr>ss_peer_alive := True, ss_chassis_fault := False\<rparr>"
  let ?a = "snd (adapter_submit (lo_adapter lo) r ?st now)"
  have clear: "interlocks_clear ?st" "interlocks_clear ?st'" using ctl ctl' by (simp_all add: interlocks_clear_def)
  note ready = submit_ready(1) [OF ad(2) clear(1) r t(1) ad(3)]
  have lo': "err = None" "lo_adapter lo' = ?a"
    using submit ready(1) link_healthy_evaluate(1) [OF src, of controls w]
    by (auto simp: loop_submit_def split: prod.splits)
  have inv: "adapter_inv ?a" using ad(1) by (rule adapter_submit_inv)
  have "request_live ?a now'" "policy_valid (ad_policy ?a)"
    using ad(2,3) late t by (simp_all add: ready request_live_def)
  then have "sc_enabled (fst (adapter_evaluate ?a ?st' now'))"
    using evaluate_enables_lemma(1) [OF inv] clear(2) by blast
  moreover obtain rest where rx: "receive_loop 64 timeout queue (lo_source lo') now' =
      (RxDone, source_run (lo_source lo') ops', rest)"
    using receive_loop_drained [of 64 timeout queue "lo_source lo'" now'] heard(1)
    by (metis fst_conv prod_cases3 snd_conv)
  have "fst (loop_step lo' controls' now' timeout queue w' canfd_mtu) =
      sent_result (fst (adapter_evaluate ?a ?st' now')) canfd_mtu"
    using t w link_healthy_evaluate(1) [OF heard(2), of controls' w'] lo'(2)
    by (simp add: loop_step_def rx case_prod_beta)
  moreover have "sends_command (sent_result (fst (adapter_evaluate ?a ?st' now')) canfd_mtu) canfd_mtu"
    using inv by (rule sent_command)
  ultimately show ?thesis
    using lo'(1) unfolding sends_command_def sent_result_def by (auto split: option.splits)
qed


definition demo_loop :: safety_loop where
  "demo_loop = loop_run (loop_new default_policy 0 0) [LoStep clear_state 1000 0 demo_queue 9 canfd_mtu]"

lemma demo_loop_touch: "in_touch (lo_source demo_loop) 1000 1000" "so_fault_seen (lo_source demo_loop)"
proof -
  let ?s = "source_run (source_new 0 0)
      [SoFrame (test_beat_frame 1 5000) 1000 7, SoFrame (sample_fault_frame 0 9) 1000 8]"
  have "lo_source demo_loop = snd (source_evaluate ?s clear_state 1000 9)"
    by (simp add: demo_loop_def loop_apply_source demo_drained del: loop_apply.simps, simp add: loop_new_def)
  moreover have "in_touch ?s 1000 1000" "so_fault_seen ?s"
    using demo_linked by simp_all
  ultimately show "in_touch (lo_source demo_loop) 1000 1000" "so_fault_seen (lo_source demo_loop)"
    using in_touch_evaluate(2,3) [of ?s 1000 1000 1000 clear_state 9] by simp_all
qed

lemma demo_loop_healthy: "link_healthy (lo_source demo_loop) 1010"
  using demo_loop_touch unfolding link_healthy_def by (intro conjI exI [of _ 1000]) simp_all

lemma demo_loop_output: "ad_last_output_ms (lo_adapter demo_loop) \<le> 1010"
proof -
  have "lo_adapter demo_loop = adapter_new default_policy \<or>
      (\<exists>st. lo_adapter demo_loop = snd (adapter_evaluate (adapter_new default_policy) st 1000))"
    by (auto simp: demo_loop_def loop_new_def loop_step_def split: prod.splits receive_end.splits) (metis snd_conv)
  moreover have "ad_last_output_ms (snd (adapter_evaluate (adapter_new default_policy) st 1000)) = 1000" for st
    by (simp add: adapter_evaluate_def adapter_new_def adapter_stop_def Let_def)
  ultimately show ?thesis by (auto simp: adapter_new_def)
qed

lemma default_policy_valid: "policy_valid default_policy"
  by (simp add: default_policy_def policy_valid_def)

lemma sample_request_ok: "request_representable sample_request"
  by (simp add: request_representable_def sample_request_scaled)

text \<open>A submission at 1010 ms and a step 20 ms later that finds the queue empty.\<close>

lemma demo_loop_submitted:
  "link_healthy (source_run (lo_source (snd (loop_submit demo_loop sample_request clear_state 1010 10))) []) 1030"
proof -
  have "lo_source (snd (loop_submit demo_loop sample_request clear_state 1010 10)) =
      snd (source_evaluate (lo_source demo_loop) clear_state 1010 10)"
    by (simp add: loop_submit_def case_prod_beta)
  then show ?thesis
    using demo_loop_touch in_touch_evaluate(2,3) [of "lo_source demo_loop" 1000 1000 1010 clear_state 10]
    unfolding link_healthy_def by (intro conjI exI [of _ 1000]) simp_all
qed


text \<open>The step that moves, as a step after two operations of a loop.\<close>

lemma demo_moves:
  "\<exists>c sent. fst (loop_step (loop_run (loop_new default_policy 0 0)
      [LoStep clear_state 1000 0 demo_queue 9 canfd_mtu, LoSubmit sample_request clear_state 1010 10])
      clear_state 1030 0 [] 11 canfd_mtu) = StepSent c sent None \<and> sc_enabled c"
proof -
  have run: "loop_run (loop_new default_policy 0 0)
      [LoStep clear_state 1000 0 demo_queue 9 canfd_mtu, LoSubmit sample_request clear_state 1010 10] =
      snd (loop_submit demo_loop sample_request clear_state 1010 10)"
    by (simp add: demo_loop_def)
  have a: "adapter_inv (lo_adapter demo_loop)" "ad_policy (lo_adapter demo_loop) = default_policy"
    using reachable_loop(1,2) [OF demo_loop_def] by simp_all
  show ?thesis
    unfolding run
    using healthy_link_lemma [where controls = clear_state and controls' = clear_state and now' = 1030 and w = 10
        and timeout = 0 and w' = 11 and queue = "[]" and ops' = "[]",
        OF demo_loop_healthy _ _ _ _ _ _ _ _ a(1) _ demo_loop_output _ sample_request_ok _
          prod.collapse [symmetric] _ demo_loop_submitted] a(2) default_policy_valid
    by (simp add: clear_state_def default_policy_def)
qed

theorem loop_moves_on_fresh_link_only_witness:
  "\<exists>pre f t v post. concat (map source_ops
       [LoStep clear_state 1000 0 demo_queue 9 canfd_mtu, LoSubmit sample_request clear_state 1010 10]) @
       snd (drained 64 0 [] 1030) = pre @ SoFrame f t v # post \<and> t \<le> 1030 \<and> 1030 - t \<le> 300 \<and>
     faultless_report_taken (source_run (source_new 0 0) pre) f t v"
proof -
  let ?ops = "[LoStep clear_state 1000 0 demo_queue 9 canfd_mtu, LoSubmit sample_request clear_state 1010 10]"
  obtain c sent where "fst (loop_step (loop_run (loop_new default_policy 0 0) ?ops) clear_state 1030 0 [] 11 canfd_mtu) =
      StepSent c sent None" "sc_enabled c"
    using demo_moves by blast
  from loop_moves_on_fresh_link_only [OF refl this refl] show ?thesis by blast
qed

theorem commands_reach_bus_witness:
  "sends_command (fst (loop_step demo_loop clear_state 1010 0 [] 11 canfd_mtu)) canfd_mtu"
  using commands_reach_bus [OF demo_loop_def, of 1010 0 "[]" clear_state 11 canfd_mtu] by simp

section \<open>Stopping\<close>

fun submits_refused :: "safety_loop \<Rightarrow> loop_op list \<Rightarrow> bool" where
  "submits_refused lo [] = True"
| "submits_refused lo (LoSubmit r controls now w # ops) =
     (fst (loop_submit lo r controls now w) \<noteq> None \<and> submits_refused (loop_apply lo (LoSubmit r controls now w)) ops)"
| "submits_refused lo (x # ops) = submits_refused (loop_apply lo x) ops"

lemma loop_apply_no_request:
  assumes "ad_request (lo_adapter lo) = None" "submits_refused lo [x]"
  shows "ad_request (lo_adapter (loop_apply lo x)) = None"
proof (cases x)
  case (LoSubmit r controls now w)
  then show ?thesis
    using assms refused_keeps_no_request [of "lo_adapter lo" "OpSubmit r (fst (source_evaluate (lo_source lo) controls now w)) now"]
    by (simp add: loop_submit_def case_prod_beta)
next
  case (LoStep controls now timeout queue w written)
  have keep: "ad_request (snd (adapter_evaluate (lo_adapter lo) st now)) = None" for st
    using assms(1) refused_keeps_no_request [of "lo_adapter lo" "OpEvaluate st now"] by simp
  show ?thesis
    using assms(1) keep by (auto simp: LoStep loop_step_def case_prod_beta split: receive_end.splits)
next
  case (LoStop now written)
  have "ad_request (snd (adapter_evaluate (adapter_reset (lo_adapter lo) now) stopped_state now)) = None"
    using refused_keeps_no_request [of "adapter_reset (lo_adapter lo) now" "OpEvaluate stopped_state now"]
    by (simp add: adapter_reset_def)
  then show ?thesis using assms(1) by (simp add: LoStop loop_stop_def case_prod_beta)
qed

lemma submits_refused_Cons: "submits_refused lo (x # ops) \<longleftrightarrow> submits_refused lo [x] \<and> submits_refused (loop_apply lo x) ops"
  by (cases x) simp_all

lemma loop_run_no_request:
  "ad_request (lo_adapter lo) = None \<Longrightarrow> submits_refused lo ops \<Longrightarrow> ad_request (lo_adapter (loop_run lo ops)) = None"
proof (induction ops arbitrary: lo)
  case (Cons x ops)
  then have "submits_refused lo [x]" "submits_refused (loop_apply lo x) ops"
    using submits_refused_Cons [of lo x ops] by simp_all
  then show ?case using Cons loop_apply_no_request by simp
qed simp

text \<open>
  C6: \<open>Stop\<close> stops, whatever the loop was doing: it sends a disabled command, and after it every step sends
  a disabled command until a submit is accepted again.
\<close>

theorem stop_holds_until_accepted_submit:
  assumes "lo = loop_run (loop_new p t0 w0) ops" "0 \<le> now" "loop_stop lo now written = (res, lo')"
    and "submits_refused lo' ops'"
    and "fst (loop_step (loop_run lo' ops') controls now' timeout queue w written') = StepSent c sent e"
  shows "(\<exists>d sent' e'. res = StepSent d sent' e' \<and> \<not> sc_enabled d) \<and> \<not> sc_enabled c"
proof
  let ?a = "adapter_reset (lo_adapter lo) now"
  have inv: "adapter_inv ?a"
    using adapter_step_inv [OF reachable_loop(1) [OF assms(1)], of "OpReset now"] by simp
  have req: "ad_request ?a = None" by (simp add: adapter_reset_def)
  let ?d = "fst (adapter_evaluate ?a stopped_state now)"
  have "res = sent_result ?d written" "lo_adapter lo' = snd (adapter_evaluate ?a stopped_state now)"
    using assms(2,3) by (auto simp: loop_stop_def case_prod_beta)
  moreover have "\<not> sc_enabled ?d" using req by (rule no_request_stops)
  ultimately show "\<exists>d sent' e'. res = StepSent d sent' e' \<and> \<not> sc_enabled d"
    using sent_command [OF inv, of stopped_state now written] unfolding sends_command_def sent_result_def
    by (auto split: option.splits)
  have "ad_request (lo_adapter lo') = None"
    using refused_keeps_no_request [of ?a "OpEvaluate stopped_state now"] req \<open>lo_adapter lo' = _\<close> by simp
  then have "ad_request (lo_adapter (loop_run lo' ops')) = None"
    using assms(4) by (rule loop_run_no_request)
  then show "\<not> sc_enabled c"
    using step_sends_shielded [OF assms(5)] no_request_stops by (simp add: can_source.shielded_def)
qed

theorem stop_holds_until_accepted_submit_witness:
  "\<not> sc_enabled (case fst (loop_step (snd (loop_stop demo_loop 1020 canfd_mtu)) clear_state 1030 0 [] 12 canfd_mtu) of
      StepSent c sent e \<Rightarrow> c | _ \<Rightarrow> undefined)"
proof -
  let ?lo = "snd (loop_stop demo_loop 1020 canfd_mtu)"
  have "?lo = loop_run (loop_new default_policy 0 0) [LoStep clear_state 1000 0 demo_queue 9 canfd_mtu, LoStop 1020 canfd_mtu]"
    by (simp add: demo_loop_def)
  then have inv: "adapter_inv (lo_adapter ?lo)" using reachable_loop(1) by blast
  have "\<exists>st. fst (loop_step ?lo clear_state 1030 0 [] 12 canfd_mtu) = sent_result (fst (adapter_evaluate (lo_adapter ?lo) st 1030)) canfd_mtu"
    by (auto simp: loop_step_def case_prod_beta)
  then obtain c sent e where c: "fst (loop_step ?lo clear_state 1030 0 [] 12 canfd_mtu) = StepSent c sent e"
    using sent_command [OF inv] unfolding sends_command_def by metis
  then have "\<not> sc_enabled c"
    using stop_holds_until_accepted_submit [OF demo_loop_def _ prod.collapse [symmetric], of 1020 canfd_mtu "[]" clear_state 1030 0 "[]" 12 canfd_mtu c sent e]
    by simp
  then show ?thesis by (simp add: c)
qed

end
