(* ===== verification/Odometry_Time.thy ===== *)
theory Odometry_Time
  imports Prelude
begin

text \<open>
  \<open>ChassisOdometryTimeMapper\<close> of \<open>cockpit/driver/vehicle/chassis_odometry_time_mapper.cc\<close>: the 32-bit
  millisecond clock of the controller is extended by counting its wrap-arounds and anchored to the host's
  clock by an offset, which is only ever lowered, so that no sample is dated after its reception.
\<close>

section \<open>State and operations\<close>

datatype map_status = MsMapped | MsReset | MsInvalid

record time_mapper =
  om_initialized :: bool
  om_last_device_ms :: u32
  om_wrap_count :: u64
  om_offset_ns :: int
  om_last_received_ns :: int
  om_last_sample_ns :: int
  om_reset_pending :: bool

definition time_mapper0 :: time_mapper where
  "time_mapper0 = \<lparr>om_initialized = False, om_last_device_ms = 0, om_wrap_count = 0, om_offset_ns = 0,
     om_last_received_ns = 0, om_last_sample_ns = 0, om_reset_pending = False\<rparr>"

definition int64_max :: int where "int64_max = 9223372036854775807"
definition int64_min :: int where "int64_min = - 9223372036854775808"

definition device_nanoseconds :: "u64 \<Rightarrow> u32 \<Rightarrow> int option" where
  "device_nanoseconds wrap_count timestamp_ms =
     (if unat wrap_count > (2 ^ 64 - 1) div 2 ^ 32 then None
      else
        let extended_ms = int (unat (wrap_count * 2 ^ 32 + ucast timestamp_ms)) in
        if extended_ms > int64_max div 1000000 then None else Some (extended_ms * 1000000))"

definition map_time :: "time_mapper \<Rightarrow> u32 \<Rightarrow> int \<Rightarrow> map_status \<times> int option \<times> time_mapper" where
  "map_time m device_ms received_ns =
     (if received_ns \<le> 0 \<or> om_initialized m \<and> received_ns < om_last_received_ns m then (MsInvalid, None, m)
      else
        let backwards = om_last_device_ms m - device_ms;
            went_back = om_initialized m \<and> device_ms < om_last_device_ms m
        in if went_back \<and> \<not> backwards > 2 ^ 31 then (MsInvalid, None, m)
        else
          let m1 = (if went_back then m\<lparr>om_wrap_count := om_wrap_count m + 1\<rparr> else m) in
          case device_nanoseconds (om_wrap_count m1) device_ms of
            None \<Rightarrow> (MsInvalid, None, m1)
          | Some device_ns \<Rightarrow>
              let m2 = (if \<not> om_initialized m1 then m1\<lparr>om_offset_ns := received_ns - device_ns\<rparr> else m1);
                  offset = om_offset_ns m2
              in if offset > 0 \<and> device_ns > int64_max - offset \<or> offset < 0 \<and> device_ns < int64_min - offset
                 then (MsInvalid, None, m2)
                 else
                   let mapped = offset + device_ns;
                       (m3, mapped') = (if mapped > received_ns
                         then (m2\<lparr>om_offset_ns := offset - (mapped - received_ns)\<rparr>, received_ns) else (m2, mapped))
                   in if om_initialized m3 \<and> mapped' < om_last_sample_ns m3 then (MsInvalid, None, m3)
                      else ((if om_reset_pending m3 then MsReset else MsMapped), Some mapped',
                            m3\<lparr>om_initialized := True, om_last_device_ms := device_ms,
                               om_last_received_ns := received_ns, om_last_sample_ns := mapped',
                               om_reset_pending := False\<rparr>))"

definition mapper_reset :: "time_mapper \<Rightarrow> time_mapper" where
  "mapper_reset m = \<lparr>om_initialized = False, om_last_device_ms = 0, om_wrap_count = 0, om_offset_ns = 0,
     om_last_received_ns = 0, om_last_sample_ns = 0, om_reset_pending = True\<rparr>"

section \<open>Lemmas on one call\<close>

lemma device_nanoseconds_range:
  assumes "device_nanoseconds w t = Some d"
  shows "0 \<le> d" "d \<le> int64_max" "d = (int (unat w) * 2 ^ 32 + int (unat t)) * 1000000" "unat w < 2 ^ 32"
proof -
  let ?e = "w * 2 ^ 32 + ucast t"
  have w: "unat w < 2 ^ 32" and d: "d = int (unat ?e) * 1000000" "int (unat ?e) \<le> int64_max div 1000000"
    using assms by (auto simp: device_nanoseconds_def Let_def split: if_splits)
  show "unat w < 2 ^ 32" by (rule w)
  have t: "unat t < 2 ^ 32" using unsigned_less [where 'b = 32 and 'a = nat, of t] by simp
  have u: "unat (ucast t :: u64) = unat t" 
    using t by (simp add: unsigned_ucast_eq unsigned_take_bit_eq take_bit_nat_eq_self)
  have small: "unat w * 2 ^ 32 + unat t < 2 ^ 64" using w t by simp
  then have "unat ?e = unat w * 2 ^ 32 + unat t"
    using w by (simp add: unat_word_ariths u)
  then show "d = (int (unat w) * 2 ^ 32 + int (unat t)) * 1000000" using d(1) by simp
  show "0 \<le> d" "d \<le> int64_max" using d by (simp_all add: int64_max_def)
qed

text \<open>A successful call, written out.\<close>

lemma map_time_Some:
  assumes "map_time m t r = (st, Some s, m')"
  obtains d w where "0 < r" "om_initialized m \<Longrightarrow> om_last_received_ns m \<le> r"
    "device_nanoseconds w t = Some d"
    "w = om_wrap_count m + (if om_initialized m \<and> t < om_last_device_ms m then 1 else 0)"
    "om_initialized m \<Longrightarrow> t < om_last_device_ms m \<Longrightarrow> om_last_device_ms m - t > 2 ^ 31"
    "s = min ((if om_initialized m then om_offset_ns m else r - d) + d) r"
    "om_initialized m \<Longrightarrow> om_last_sample_ns m \<le> s"
    "om_initialized m' " "om_last_device_ms m' = t" "om_wrap_count m' = w" "om_offset_ns m' = s - d"
    "om_last_received_ns m' = r" "om_last_sample_ns m' = s" "\<not> om_reset_pending m'"
    "st = (if om_reset_pending m then MsReset else MsMapped)"
proof -
  let ?wrapped = "om_initialized m \<and> t < om_last_device_ms m"
  let ?w = "om_wrap_count m + (if ?wrapped then 1 else 0)"
  obtain d where d: "device_nanoseconds ?w t = Some d"
    using assms by (auto simp: map_time_def Let_def split: if_splits option.splits)
  show thesis
    by (rule that [of ?w d])
      (use assms d in \<open>auto simp: map_time_def Let_def split: if_splits\<close>)
qed

section \<open>Samples are in order\<close>

text \<open>The samples a sequence of calls returns, each with its receive time.\<close>

fun map_run :: "time_mapper \<Rightarrow> (u32 \<times> int) list \<Rightarrow> (int \<times> int) list" where
  "map_run m [] = []"
| "map_run m ((device_ms, received_ns) # calls) =
     (case map_time m device_ms received_ns of
        (_, Some s, m') \<Rightarrow> (received_ns, s) # map_run m' calls
      | (_, None, m') \<Rightarrow> map_run m' calls)"

lemma map_time_None:
  assumes "map_time m t r = (st, None, m')"
  shows "om_last_sample_ns m' = om_last_sample_ns m" "om_initialized m' = om_initialized m"
    "om_last_received_ns m' = om_last_received_ns m" "st = MsInvalid"
  using assms by (auto simp: map_time_def Let_def split: if_splits option.splits)

lemma map_run_ordered:
  "sorted (map snd (map_run m calls)) \<and> (\<forall>(r, s)\<in>set (map_run m calls). s \<le> r \<and> 0 < r) \<and>
   (om_initialized m \<longrightarrow> (\<forall>(r, s)\<in>set (map_run m calls). om_last_sample_ns m \<le> s))"
proof (induction calls arbitrary: m)
  case (Cons c calls)
  obtain t r where tr: "c = (t, r)" by fastforce
  obtain st out m' where c: "map_time m t r = (st, out, m')" by (metis prod.collapse)
  show ?case
  proof (cases out)
    case None
    then show ?thesis using Cons [of m'] c map_time_None [of m t r st m'] by (simp add: tr)
  next
    case (Some s)
    with c have "map_time m t r = (st, Some s, m')" by simp
    then show ?thesis
    proof (rule map_time_Some)
      assume f: "0 < r" "om_initialized m \<Longrightarrow> om_last_sample_ns m \<le> s" "om_initialized m'" "om_last_sample_ns m' = s"
      have "s \<le> r" using \<open>map_time m t r = (st, Some s, m')\<close> by (rule map_time_Some) simp
      then show ?thesis using Cons [of m'] f c Some by (fastforce simp: tr)
    qed
  qed
qed simp

text \<open>
  From whatever state, the samples returned until the next reset never go back in time, and none is
  later than the reception of its frame.
\<close>

theorem samples_in_order:
  "sorted (map snd (map_run m calls)) \<and> list_all (\<lambda>(r, s). s \<le> r) (map_run m calls)"
  using map_run_ordered [of m calls] by (auto simp: list_all_iff)

section \<open>Samples follow the device clock\<close>

lemma elapsed_extended:
  assumes "w' = w + (if t' < t then 1 else 0)" "unat w' < 2 ^ 32" "unat w < 2 ^ 32"
  shows "(int (unat (w' :: u64)) * 2 ^ 32 + int (unat (t' :: u32))) - (int (unat w) * 2 ^ 32 + int (unat t)) = int (unat (t' - t))"
proof (cases "t' < t")
  case True
  have "unat w' = unat w + 1" using assms(1,3) True by (simp add: unat_word_ariths)
  moreover have "unat (t' - t) = unat t' + 2 ^ 32 - unat t"
    using True by (simp add: unat_sub_if_size word_size word_less_nat_alt)
  ultimately show ?thesis using unsigned_less [where 'b = 32 and 'a = nat, of t] by (simp add: of_nat_diff)
next
  case False
  then have "unat (t' - t) = unat t' - unat t" "unat t \<le> unat t'"
    by (simp_all add: unat_sub_if_size not_less word_le_nat_alt)
  then show ?thesis using assms(1) False by (simp add: of_nat_diff)
qed

text \<open>
  The distance between consecutive samples is the time that passed on the device's clock, a wrap-around
  of its 32 bits included, unless that would date the sample after its reception.
\<close>

theorem sample_advances_by_device_time:
  assumes "map_time m t r = (st, Some s, m')" "map_time m' t' r' = (st', Some s', m'')"
  shows "s' = min (s + 1000000 * int (unat (t' - t))) r'"
  using assms(1)
proof (rule map_time_Some)
  fix d w
  assume f: "device_nanoseconds w t = Some d" "om_initialized m'" "om_last_device_ms m' = t" "om_wrap_count m' = w"
    "om_offset_ns m' = s - d"
  show ?thesis
    using assms(2)
  proof (rule map_time_Some)
    fix d' w'
    assume f': "device_nanoseconds w' t' = Some d'"
      "w' = om_wrap_count m' + (if om_initialized m' \<and> t' < om_last_device_ms m' then 1 else 0)"
      "s' = min ((if om_initialized m' then om_offset_ns m' else r' - d') + d') r'"
    have w': "w' = w + (if t' < t then 1 else 0)" using f' f by simp
    note d = device_nanoseconds_range [OF f(1)] and d' = device_nanoseconds_range [OF f'(1)]
    have "d' - d = 1000000 * int (unat (t' - t))"
      unfolding d(3) d'(3) by (simp only: left_diff_distrib [symmetric] elapsed_extended [OF w' d'(4) d(4)] mult.commute)
    then show ?thesis using f f'(3) by simp
  qed
qed

text \<open>The device clock wraps from \<open>2\<^sup>3\<^sup>2 - 100\<close> to 50 ms: 150 ms on the device's clock.\<close>

theorem sample_advances_by_device_time_witness:
  "let (_, s, m) = map_time time_mapper0 4294967196 1700000000000000000;
       (_, s', _) = map_time m 50 1700000000900000000
   in the s' = min (the s + 150000000) 1700000000900000000"
proof -
  define m1 where "m1 = snd (snd (map_time time_mapper0 4294967196 1700000000000000000))"
  have c1: "map_time time_mapper0 4294967196 1700000000000000000 = (MsMapped, Some 1700000000000000000, m1)"
    and m1: "om_initialized m1" "om_last_device_ms m1 = 4294967196" "om_wrap_count m1 = 0"
      "om_offset_ns m1 = 1695705032804000000" "om_last_received_ns m1 = 1700000000000000000"
      "om_last_sample_ns m1 = 1700000000000000000" "\<not> om_reset_pending m1"
    by (simp_all add: m1_def map_time_def time_mapper0_def device_nanoseconds_def int64_max_def int64_min_def Let_def)
  have "\<exists>s m. map_time m1 50 1700000000900000000 = (MsMapped, Some s, m)"
    by (simp add: map_time_def m1 device_nanoseconds_def int64_max_def int64_min_def Let_def word_less_nat_alt)
  then obtain s m where c2: "map_time m1 50 1700000000900000000 = (MsMapped, Some s, m)" by blast
  have "unat (50 - 4294967196 :: u32) = 150" by simp
  then show ?thesis using sample_advances_by_device_time [OF c1 c2] by (simp add: c1 c2)
qed

section \<open>No signed overflow\<close>

text \<open>The signed 64-bit results that a call computes, in the order of the code.\<close>

definition signed_results :: "time_mapper \<Rightarrow> u32 \<Rightarrow> int \<Rightarrow> int list" where
  "signed_results m device_ms received_ns =
     (if received_ns \<le> 0 \<or> om_initialized m \<and> received_ns < om_last_received_ns m then []
      else
        let went_back = om_initialized m \<and> device_ms < om_last_device_ms m;
            w = (if went_back then om_wrap_count m + 1 else om_wrap_count m)
        in if went_back \<and> \<not> om_last_device_ms m - device_ms > 2 ^ 31 then []
        else case device_nanoseconds w device_ms of
            None \<Rightarrow> []
          | Some d \<Rightarrow>
              let offset = (if om_initialized m then om_offset_ns m else received_ns - d) in
              [d, offset] @
              (if offset > 0 then [int64_max - offset] else []) @
              (if offset < 0 then [int64_min - offset] else []) @
              (if offset > 0 \<and> d > int64_max - offset \<or> offset < 0 \<and> d < int64_min - offset then []
               else [offset + d] @
                 (if offset + d > received_ns
                  then [offset + d - received_ns, offset - (offset + d - received_ns)] else [])))"

definition mapper_inv :: "time_mapper \<Rightarrow> bool" where
  "mapper_inv m \<longleftrightarrow> fits_i64 (om_offset_ns m) \<and> om_last_received_ns m \<le> int64_max \<and>
     (om_initialized m \<longrightarrow> 0 < om_last_sample_ns m)"

datatype mapper_op = OmMap u32 int | OmReset

fun mapper_step :: "time_mapper \<Rightarrow> mapper_op \<Rightarrow> time_mapper" where
  "mapper_step m (OmMap t r) = snd (snd (map_time m t r))"
| "mapper_step m OmReset = mapper_reset m"

fun op_in_range :: "mapper_op \<Rightarrow> bool" where
  "op_in_range (OmMap t r) = fits_i64 r"
| "op_in_range OmReset = True"

lemma mapper_step_inv:
  assumes "mapper_inv m" "op_in_range x"
  shows "mapper_inv (mapper_step m x)"
proof (cases x)
  case (OmMap t r)
  have r: "fits_i64 r" using assms(2) by (simp add: OmMap)
  obtain st out m' where c: "map_time m t r = (st, out, m')" by (metis prod.collapse)
  show ?thesis
  proof (cases out)
    case None
    with c have n: "map_time m t r = (st, None, m')" by simp
    have "om_offset_ns m' = om_offset_ns m \<or> \<not> om_initialized m \<and> fits_i64 (om_offset_ns m')
        \<or> om_initialized m \<and> (\<exists>d. 0 \<le> d \<and> d \<le> int64_max \<and> om_offset_ns m' = r - d \<and> 0 < r)"
    proof -
      let ?w = "if om_initialized m \<and> t < om_last_device_ms m then om_wrap_count m + 1 else om_wrap_count m"
      show ?thesis
      proof (cases "device_nanoseconds ?w t")
        case None
        then show ?thesis using n by (auto simp: map_time_def Let_def split: if_splits)
      next
        case (Some d)
        note d = device_nanoseconds_range(1,2) [OF Some]
        show ?thesis
        proof (cases "om_initialized m")
          case True
          then show ?thesis using n Some d by (auto simp: map_time_def Let_def split: if_splits intro!: exI [of _ d])
        next
          case False
          have "0 < r \<Longrightarrow> fits_i64 (r - d)" using d r by (auto simp: fits_i64_def int64_max_def)
          then show ?thesis using n Some False by (auto simp: map_time_def Let_def split: if_splits)
        qed
      qed
    qed
    then have "fits_i64 (om_offset_ns m')"
      using assms(1) r by (auto simp: mapper_inv_def fits_i64_def int64_max_def)
    then show ?thesis
      using assms(1) OmMap c None map_time_None [OF n] by (simp add: mapper_inv_def)
  next
    case (Some s)
    with c have s: "map_time m t r = (st, Some s, m')" by simp
    from s show ?thesis
    proof (rule map_time_Some)
      fix d w
      assume f: "0 < r" "device_nanoseconds w t = Some d" "om_initialized m \<Longrightarrow> om_last_sample_ns m \<le> s"
        "s = min ((if om_initialized m then om_offset_ns m else r - d) + d) r" "om_initialized m'"
        "om_offset_ns m' = s - d" "om_last_received_ns m' = r" "om_last_sample_ns m' = s"
      note d = device_nanoseconds_range(1,2) [OF f(2)]
      have "0 < s" using f(1,3,4) assms(1) by (cases "om_initialized m") (auto simp: mapper_inv_def)
      moreover have "s \<le> r" using f(4) by simp
      ultimately have "fits_i64 (s - d)" using d r by (auto simp: fits_i64_def int64_max_def)
      then show ?thesis using f r \<open>0 < s\<close> OmMap c by (simp add: mapper_inv_def fits_i64_def int64_max_def)
    qed
  qed
qed (simp add: mapper_inv_def mapper_reset_def fits_i64_def int64_max_def)

lemma mapper_run_inv: "list_all op_in_range ops \<Longrightarrow> mapper_inv m \<Longrightarrow> mapper_inv (foldl mapper_step m ops)"
  by (induction ops arbitrary: m) (simp_all add: mapper_step_inv)

lemma mapper_inv0: "mapper_inv time_mapper0"
  by (simp add: mapper_inv_def time_mapper0_def fits_i64_def int64_max_def)

text \<open>
  The signed arithmetic of the mapper never overflows: after any calls and resets with 64-bit receive
  times, every intermediate result of a further call fits in 64 bits.
\<close>

theorem mapper_never_overflows:
  assumes "list_all op_in_range ops" "fits_i64 r"
  shows "list_all fits_i64 (signed_results (foldl mapper_step time_mapper0 ops) t r)"
proof -
  let ?m = "foldl mapper_step time_mapper0 ops"
  have inv: "fits_i64 (om_offset_ns ?m)" using mapper_run_inv [OF assms(1) mapper_inv0] by (simp add: mapper_inv_def)
  let ?w = "if om_initialized ?m \<and> t < om_last_device_ms ?m then om_wrap_count ?m + 1 else om_wrap_count ?m"
  show ?thesis
  proof (cases "0 < r \<and> device_nanoseconds ?w t \<noteq> None")
    case False
    then show ?thesis by (auto simp: signed_results_def Let_def)
  next
    case True
    then obtain d where d: "device_nanoseconds ?w t = Some d" by auto
    note range = device_nanoseconds_range(1,2) [OF d]
    define offset where "offset = (if om_initialized ?m then om_offset_ns ?m else r - d)"
    have "fits_i64 offset" using inv True range assms(2) by (auto simp: offset_def fits_i64_def int64_max_def)
    then have "list_all fits_i64 ([d, offset] @ (if offset > 0 then [int64_max - offset] else []) @
              (if offset < 0 then [int64_min - offset] else []) @
              (if offset > 0 \<and> d > int64_max - offset \<or> offset < 0 \<and> d < int64_min - offset then []
               else [offset + d] @ (if offset + d > r then [offset + d - r, offset - (offset + d - r)] else [])))"
      using range True assms(2) by (auto simp: fits_i64_def int64_max_def int64_min_def)
    then show ?thesis using d by (simp add: signed_results_def Let_def flip: offset_def)
  qed
qed

theorem mapper_never_overflows_witness:
  "list_all fits_i64 (signed_results (foldl mapper_step time_mapper0
     [OmMap 4294967196 1700000000000000000, OmReset, OmMap 10 9223372036854775807]) 50 9223372036854775807)"
  by (rule mapper_never_overflows) (simp_all add: fits_i64_def)

end
