(* ===== verification/Json.thy ===== *)
theory Json
  imports Prelude
begin

text \<open>
  \<open>cockpit/exchange/foundation/json/json.cc\<close>: the validator of JSON texts, a recursive-descent parser over a
  position in the input, and the escaping of byte strings. The position is the rest of the input; a result
  \<open>Inl\<close> carries the message of the first failure and \<open>Inr\<close> the new rest. The mutual recursion of values,
  objects and arrays runs on fuel, which is shown to be enough.
\<close>

section \<open>Characters and UTF-8\<close>

definition is_continuation_byte :: "char \<Rightarrow> bool" where
  "is_continuation_byte c \<longleftrightarrow> 0x80 \<le> code c \<and> code c \<le> 0xBF"

text \<open>\<open>Utf8SequenceLength\<close> of the input from an offset on.\<close>

fun utf8_sequence_length :: "string \<Rightarrow> nat" where
  "utf8_sequence_length [] = 0"
| "utf8_sequence_length (c # s) =
     (let first = code c in
      if first \<le> 0x7F then 1
      else if 0xC2 \<le> first \<and> first \<le> 0xDF then
        (case s of second # _ \<Rightarrow> if is_continuation_byte second then 2 else 0 | [] \<Rightarrow> 0)
      else if 0xE0 \<le> first \<and> first \<le> 0xEF then
        (case s of second # third # _ \<Rightarrow>
           if \<not> is_continuation_byte third \<or> \<not> is_continuation_byte second \<or>
              first = 0xE0 \<and> code second < 0xA0 \<or> first = 0xED \<and> code second > 0x9F then 0 else 3
         | _ \<Rightarrow> 0)
      else if 0xF0 \<le> first \<and> first \<le> 0xF4 then
        (case s of second # third # fourth # _ \<Rightarrow>
           if \<not> is_continuation_byte second \<or> \<not> is_continuation_byte third \<or> \<not> is_continuation_byte fourth \<or>
              first = 0xF0 \<and> code second < 0x90 \<or> first = 0xF4 \<and> code second > 0x8F then 0 else 4
         | _ \<Rightarrow> 0)
      else 0)"

section \<open>The parser\<close>

abbreviation quote :: char where "quote \<equiv> CHR 0x22"
abbreviation backslash :: char where "backslash \<equiv> CHR 0x5C"

definition is_space :: "char \<Rightarrow> bool" where
  "is_space c \<longleftrightarrow> c = CHR '' '' \<or> c = CHR 0x0A \<or> c = CHR 0x0D \<or> c = CHR 0x09"

definition skip_whitespace :: "string \<Rightarrow> string" where
  "skip_whitespace s = dropWhile is_space s"

fun consume :: "char \<Rightarrow> string \<Rightarrow> string option" where
  "consume c [] = None"
| "consume c (x # s) = (if x \<noteq> c then None else Some s)"

definition simple_escape :: "char \<Rightarrow> bool" where
  "simple_escape c \<longleftrightarrow> c \<in> {quote, backslash, CHR ''/'', CHR ''b'', CHR ''f'', CHR ''n'', CHR ''r'', CHR ''t''}"

text \<open>The loop of \<open>ParseString\<close>, after the opening quote.\<close>

fun string_rest :: "string \<Rightarrow> string + string" where
  "string_rest [] = Inl ''unterminated JSON string''"
| "string_rest (c # s) =
     (if c = quote then Inr s
      else if code c < 0x20 then Inl ''unescaped control character in JSON string''
      else if c = backslash then
        (case s of
           [] \<Rightarrow> Inl ''incomplete JSON escape sequence''
         | e # t \<Rightarrow>
             if simple_escape e then string_rest t
             else if e = CHR ''u'' then
               (if length t < 4 then Inl ''incomplete JSON unicode escape''
                else if \<not> list_all is_hex_digit (take 4 t) then Inl ''invalid JSON unicode escape''
                else string_rest (drop 4 t))
             else Inl ''invalid JSON escape sequence'')
      else if 0x80 \<le> code c then
        (let n = utf8_sequence_length (c # s) in
         if n = 0 then Inl ''invalid UTF-8 in JSON string'' else string_rest (drop (n - 1) s))
      else string_rest s)"

declare string_rest.simps(2) [simp del]

definition parse_string :: "string \<Rightarrow> string + string" where
  "parse_string s = (case consume quote s of None \<Rightarrow> Inl ''expected JSON string'' | Some t \<Rightarrow> string_rest t)"

definition parse_literal :: "string \<Rightarrow> string \<Rightarrow> string + string" where
  "parse_literal literal s =
     (if take (length literal) s \<noteq> literal then Inl ''invalid JSON literal'' else Inr (drop (length literal) s))"

text \<open>At least one digit and all that follow; \<open>None\<close> without a first digit.\<close>

definition digits :: "string \<Rightarrow> string option" where
  "digits s = (case s of [] \<Rightarrow> None | c # t \<Rightarrow> if is_digit c then Some (dropWhile is_digit t) else None)"

definition parse_fraction :: "string \<Rightarrow> string + string" where
  "parse_fraction s =
     (case consume (CHR ''.'') s of
        None \<Rightarrow> Inr s
      | Some t \<Rightarrow> (case digits t of None \<Rightarrow> Inl ''invalid JSON fraction'' | Some r \<Rightarrow> Inr r))"

definition parse_exponent :: "string \<Rightarrow> string + string" where
  "parse_exponent s =
     (case s of
        [] \<Rightarrow> Inr []
      | c # t \<Rightarrow>
          if c = CHR ''e'' \<or> c = CHR ''E'' then
            (let u = (case t of x # u \<Rightarrow> if x = CHR ''+'' \<or> x = CHR ''-'' then u else t | [] \<Rightarrow> t) in
             case digits u of None \<Rightarrow> Inl ''invalid JSON exponent'' | Some r \<Rightarrow> Inr r)
          else Inr s)"

definition parse_number :: "string \<Rightarrow> string + string" where
  "parse_number s =
     (let s1 = (case consume (CHR ''-'') s of Some t \<Rightarrow> t | None \<Rightarrow> s);
          integer = (case consume (CHR ''0'') s1 of
            Some t \<Rightarrow> (case t of c # _ \<Rightarrow> if is_digit c then Inl ''invalid leading zero in JSON number'' else Inr t
                              | [] \<Rightarrow> Inr t)
          | None \<Rightarrow> (case digits s1 of None \<Rightarrow> Inl ''invalid JSON number'' | Some r \<Rightarrow> Inr r))
      in case integer of
        Inl e \<Rightarrow> Inl e
      | Inr r \<Rightarrow>
          (case parse_fraction r of
             Inl e \<Rightarrow> Inl e
           | Inr r' \<Rightarrow>
               (case parse_exponent r' of
                  Inl e \<Rightarrow> Inl e
                | Inr r'' \<Rightarrow> if length r'' < length s then Inr r'' else Inl [])))"

definition quoted :: "string \<Rightarrow> string" where "quoted s = CHR 0x27 # s @ [CHR 0x27]"

definition maximum_depth :: nat where "maximum_depth = 128"

text \<open>\<open>ParseValue\<close>, and the loops of \<open>ParseObject\<close> and \<open>ParseArray\<close>; \<open>None\<close> is a lack of fuel.\<close>

fun parse_value :: "nat \<Rightarrow> nat \<Rightarrow> string \<Rightarrow> (string + string) option"
  and parse_members :: "nat \<Rightarrow> nat \<Rightarrow> string \<Rightarrow> (string + string) option"
  and parse_elements :: "nat \<Rightarrow> nat \<Rightarrow> string \<Rightarrow> (string + string) option" where
  "parse_value 0 depth s = None"
| "parse_value (Suc n) depth s =
     (if depth > maximum_depth then Some (Inl ''JSON nesting is too deep'')
      else case skip_whitespace s of
        [] \<Rightarrow> Some (Inl ''expected JSON value'')
      | c # t \<Rightarrow>
          if c = CHR ''{'' then
            (case consume (CHR ''}'') (skip_whitespace t) of
               Some r \<Rightarrow> Some (Inr r)
             | None \<Rightarrow> parse_members n (depth + 1) (skip_whitespace t))
          else if c = CHR ''['' then
            (case consume (CHR '']'') (skip_whitespace t) of
               Some r \<Rightarrow> Some (Inr r)
             | None \<Rightarrow> parse_elements n (depth + 1) (skip_whitespace t))
          else if c = quote then Some (parse_string (c # t))
          else if c = CHR ''t'' then Some (parse_literal ''true'' (c # t))
          else if c = CHR ''f'' then Some (parse_literal ''false'' (c # t))
          else if c = CHR ''n'' then Some (parse_literal ''null'' (c # t))
          else Some (parse_number (c # t)))"
| "parse_members 0 depth s = None"
| "parse_members (Suc n) depth s =
     (case parse_string s of
        Inl e \<Rightarrow> Some (Inl e)
      | Inr r \<Rightarrow>
          (case consume (CHR '':'') (skip_whitespace r) of
             None \<Rightarrow> Some (Inl (''expected '' @ quoted '':'' @ '' after JSON object key''))
           | Some r1 \<Rightarrow>
               (case parse_value n depth r1 of
                  None \<Rightarrow> None
                | Some (Inl e) \<Rightarrow> Some (Inl e)
                | Some (Inr r2) \<Rightarrow>
                    (case consume (CHR ''}'') (skip_whitespace r2) of
                       Some r3 \<Rightarrow> Some (Inr r3)
                     | None \<Rightarrow>
                         (case consume (CHR '','') (skip_whitespace r2) of
                            None \<Rightarrow> Some (Inl (''expected '' @ quoted '','' @ '' or '' @ quoted ''}'' @ '' in JSON object''))
                          | Some r3 \<Rightarrow> parse_members n depth (skip_whitespace r3))))))"
| "parse_elements 0 depth s = None"
| "parse_elements (Suc n) depth s =
     (case parse_value n depth s of
        None \<Rightarrow> None
      | Some (Inl e) \<Rightarrow> Some (Inl e)
      | Some (Inr r2) \<Rightarrow>
          (case consume (CHR '']'') (skip_whitespace r2) of
             Some r3 \<Rightarrow> Some (Inr r3)
           | None \<Rightarrow>
               (case consume (CHR '','') (skip_whitespace r2) of
                  None \<Rightarrow> Some (Inl (''expected '' @ quoted '','' @ '' or '' @ quoted '']'' @ '' in JSON array''))
                | Some r3 \<Rightarrow> parse_elements n depth (skip_whitespace r3))))"

text \<open>\<open>IsValidValue\<close>: \<open>None\<close> is validity, \<open>Some\<close> the error text.\<close>

definition parse_fuel :: "string \<Rightarrow> nat" where "parse_fuel s = 2 * length s + 2"

definition json_error :: "string \<Rightarrow> string option" where
  "json_error s =
     (case parse_value (parse_fuel s) 0 (skip_whitespace s) of
        None \<Rightarrow> Some ''out of fuel''
      | Some (Inl e) \<Rightarrow> Some (if e = [] then ''invalid JSON value'' else e)
      | Some (Inr r) \<Rightarrow> if skip_whitespace r \<noteq> [] then Some ''unexpected trailing characters'' else None)"

definition is_valid_value :: "string \<Rightarrow> bool" where
  "is_valid_value s \<longleftrightarrow> json_error s = None"

section \<open>Escaping\<close>

definition hex_escape :: "char \<Rightarrow> string" where
  "hex_escape c = [backslash, CHR ''u'', CHR ''0'', CHR ''0'', digit_char (code c div 16), digit_char (code c mod 16)]"

fun escape_string :: "string \<Rightarrow> string" where
  "escape_string [] = []"
| "escape_string (c # s) =
     (if c = backslash then [backslash, backslash] @ escape_string s
      else if c = quote then [backslash, quote] @ escape_string s
      else if c = CHR 0x08 then [backslash, CHR ''b''] @ escape_string s
      else if c = CHR 0x0C then [backslash, CHR ''f''] @ escape_string s
      else if c = CHR 0x0A then [backslash, CHR ''n''] @ escape_string s
      else if c = CHR 0x0D then [backslash, CHR ''r''] @ escape_string s
      else if c = CHR 0x09 then [backslash, CHR ''t''] @ escape_string s
      else if code c < 0x20 then hex_escape c @ escape_string s
      else if 0x80 \<le> code c then
        (let n = utf8_sequence_length (c # s) in
         if n = 0 then hex_escape c @ escape_string s
         else c # take (n - 1) s @ escape_string (drop (n - 1) s))
      else c # escape_string s)"

declare escape_string.simps(2) [simp del]

section \<open>The parser consumes input, and fuel is enough\<close>

lemma skip_whitespace_length: "length (skip_whitespace s) \<le> length s"
  by (simp add: skip_whitespace_def length_dropWhile_le)

lemma consume_Some: "consume c s = Some t \<longleftrightarrow> s = c # t"
  by (cases s) auto

lemma string_rest_step:
  assumes "string_rest (c # t) = Inr r"
  shows "r = t \<or> (\<exists>u. string_rest u = Inr r \<and> length u \<le> length t)"
proof (cases "c = backslash")
  case True
  then obtain e u where t: "t = e # u" using assms by (cases t) (auto simp: string_rest.simps(2) code_def)
  then have "string_rest u = Inr r \<or> string_rest (drop 4 u) = Inr r"
    using assms True by (simp add: string_rest.simps(2) code_def split: if_splits)
  then show ?thesis using t by (auto intro: exI [of _ u] exI [of _ "drop 4 u"])
next
  case False
  then have "r = t \<or> string_rest (drop (utf8_sequence_length (c # t) - 1) t) = Inr r \<or> string_rest t = Inr r"
    using assms by (simp add: string_rest.simps(2) Let_def split: if_splits)
  then show ?thesis by (auto intro: exI [of _ t] exI [of _ "drop (utf8_sequence_length (c # t) - 1) t"])
qed

lemma string_rest_shorter: "string_rest s = Inr r \<Longrightarrow> length r < length s"
proof (induction s rule: length_induct)
  case (1 s)
  show ?case
  proof (cases s)
    case (Cons c t)
    then consider "r = t" | u where "string_rest u = Inr r" "length u \<le> length t"
      using string_rest_step [of c t r] 1(2) by blast
    then show ?thesis
    proof cases
      case (2 u)
      then show ?thesis using 1(1) [rule_format, of u] by (simp add: Cons)
    qed (simp add: Cons)
  qed (use 1 in simp)
qed

lemma parse_string_shorter: "parse_string s = Inr r \<Longrightarrow> length r < length s"
  by (auto simp: parse_string_def consume_Some dest: string_rest_shorter split: option.splits)

lemma parse_literal_shorter: "parse_literal l s = Inr r \<Longrightarrow> l \<noteq> [] \<Longrightarrow> length r < length s"
  by (auto simp: parse_literal_def split: if_splits) (metis diff_less length_greater_0_conv take_eq_Nil)

lemma parse_number_shorter: "parse_number s = Inr r \<Longrightarrow> length r < length s"
  by (auto simp: parse_number_def Let_def split: sum.splits if_splits)

lemma skip_Cons_length: "skip_whitespace s = c # t \<Longrightarrow> length t < length s"
  using skip_whitespace_length [of s] by simp

lemma consume_skip_length: "consume c (skip_whitespace s) = Some t \<Longrightarrow> length t < length s"
  by (simp add: consume_Some skip_Cons_length)

text \<open>The ways in which a value ends.\<close>

lemma parse_value_Some:
  assumes "parse_value (Suc n) d s = Some x"
  obtains (deep) e where "x = Inl e"
  | (closed) c t q r where "skip_whitespace s = c # t" "consume q (skip_whitespace t) = Some r" "x = Inr r"
  | (members) c t where "skip_whitespace s = c # t" "parse_members n (Suc d) (skip_whitespace t) = Some x"
  | (elements) c t where "skip_whitespace s = c # t" "parse_elements n (Suc d) (skip_whitespace t) = Some x"
  | (basic) c t l where "skip_whitespace s = c # t" "l \<noteq> []"
      "x = parse_string (c # t) \<or> x = parse_literal l (c # t) \<or> x = parse_number (c # t)"
proof (cases "skip_whitespace s")
  case Nil
  then show thesis using assms deep by (auto split: if_splits)
next
  case (Cons c t)
  show thesis
  proof (cases "d > maximum_depth")
    case True
    then show thesis using assms deep by auto
  next
    case False
    note v = assms [unfolded parse_value.simps(2) if_not_P [OF False] Cons list.case]
    consider "c = CHR ''{''" | "c = CHR ''[''" | "c \<noteq> CHR ''{''" "c \<noteq> CHR ''[''" by blast
    then show thesis
    proof cases
      case 1
      then show thesis
        using v closed [OF Cons] members [OF Cons] by (cases "consume (CHR ''}'') (skip_whitespace t)") auto
    next
      case 2
      then show thesis
        using v closed [OF Cons] elements [OF Cons] by (cases "consume (CHR '']'') (skip_whitespace t)") auto
    next
      case 3
      then show thesis using v basic [OF Cons] by (auto split: if_splits)
    qed
  qed
qed

lemma parse_shorter:
  "(parse_value n d s = Some (Inr r) \<longrightarrow> length r < length s) \<and>
   (parse_members n d s = Some (Inr r) \<longrightarrow> length r < length s) \<and>
   (parse_elements n d s = Some (Inr r) \<longrightarrow> length r < length s)"
proof (induction n arbitrary: d s r)
  case (Suc n)
  note IHv = Suc.IH [THEN conjunct1, rule_format]
  note IHm = Suc.IH [THEN conjunct2, THEN conjunct1, rule_format]
  note IHe = Suc.IH [THEN conjunct2, THEN conjunct2, rule_format]
  have "length r < length s" if v: "parse_value (Suc n) d s = Some (Inr r)"
    using v
  proof (cases rule: parse_value_Some)
    case (closed c t q r')
    then show ?thesis using consume_skip_length [OF closed(2)] skip_Cons_length [OF closed(1)] by simp
  next
    case (members c t)
    then show ?thesis using IHm [OF members(2)] skip_Cons_length [OF members(1)] skip_whitespace_length [of t] by simp
  next
    case (elements c t)
    then show ?thesis using IHe [OF elements(2)] skip_Cons_length [OF elements(1)] skip_whitespace_length [of t] by simp
  next
    case (basic c t l)
    then have "length r < length (c # t)"
      using parse_string_shorter [of "c # t" r] parse_literal_shorter [of l "c # t" r] parse_number_shorter [of "c # t" r] by metis
    then show ?thesis using skip_Cons_length [OF basic(1)] by simp
  qed simp
  moreover have "length r < length s" if m: "parse_members (Suc n) d s = Some (Inr r)"
  proof -
    obtain r0 r1 r2 r3 where p: "parse_string s = Inr r0" "consume (CHR '':'') (skip_whitespace r0) = Some r1"
      "parse_value n d r1 = Some (Inr r2)" "r3 = r \<or> parse_members n d (skip_whitespace r3) = Some (Inr r)"
      "\<exists>q. consume q (skip_whitespace r2) = Some r3"
      using m by (simp split: sum.splits option.splits) blast+
    have "length r \<le> length r3" using p(4) IHm [of d "skip_whitespace r3" r] skip_whitespace_length [of r3] by auto
    then show ?thesis
      using parse_string_shorter [OF p(1)] consume_skip_length [OF p(2)] IHv [OF p(3)] p(5) consume_skip_length by fastforce
  qed
  moreover have "length r < length s" if e: "parse_elements (Suc n) d s = Some (Inr r)"
  proof -
    obtain r2 r3 where p: "parse_value n d s = Some (Inr r2)" "r3 = r \<or> parse_elements n d (skip_whitespace r3) = Some (Inr r)"
      "\<exists>q. consume q (skip_whitespace r2) = Some r3"
      using e by (simp split: sum.splits option.splits) blast+
    have "length r \<le> length r3" using p(2) IHe [of d "skip_whitespace r3" r] skip_whitespace_length [of r3] by auto
    then show ?thesis
      using IHv [OF p(1)] p(3) consume_skip_length by fastforce
  qed
  ultimately show ?case by blast
qed simp

lemma parse_terminates:
  "(2 * length s + 1 \<le> n \<longrightarrow> parse_value n d s \<noteq> None) \<and>
   (2 * length s + 2 \<le> n \<longrightarrow> parse_members n d s \<noteq> None) \<and>
   (2 * length s + 2 \<le> n \<longrightarrow> parse_elements n d s \<noteq> None)"
proof (induction n arbitrary: d s)
  case (Suc n)
  note IHv = Suc.IH [THEN conjunct1, rule_format]
  note IHm = Suc.IH [THEN conjunct2, THEN conjunct1, rule_format]
  note IHe = Suc.IH [THEN conjunct2, THEN conjunct2, rule_format]
  have "parse_value (Suc n) d s \<noteq> None" if "2 * length s + 1 \<le> Suc n"
  proof (cases "skip_whitespace s")
    case (Cons c t)
    have "2 * length (skip_whitespace t) + 2 \<le> n"
      using that skip_Cons_length [OF Cons] skip_whitespace_length [of t] by simp
    then show ?thesis
      using IHm [of "skip_whitespace t" "Suc d"] IHe [of "skip_whitespace t" "Suc d"] by (simp add: Cons split: option.splits)
  qed simp
  moreover have "parse_members (Suc n) d s \<noteq> None" if f: "2 * length s + 2 \<le> Suc n"
  proof (cases "\<exists>r0 r1. parse_string s = Inr r0 \<and> consume (CHR '':'') (skip_whitespace r0) = Some r1")
    case True
    then obtain r0 r1 where p: "parse_string s = Inr r0" "consume (CHR '':'') (skip_whitespace r0) = Some r1" by blast
    have l: "length r1 < length s" using parse_string_shorter [OF p(1)] consume_skip_length [OF p(2)] by simp
    have v: "parse_value n d r1 \<noteq> None" using f l by (intro IHv) simp
    have m: "parse_members n d (skip_whitespace r3) \<noteq> None"
      if "parse_value n d r1 = Some (Inr r2)" "consume q (skip_whitespace r2) = Some r3" for r2 r3 q
      using f l parse_shorter [THEN conjunct1, rule_format, OF that(1)] consume_skip_length [OF that(2)] skip_whitespace_length [of r3]
      by (intro IHm) simp
    show ?thesis using v m by (simp add: p split: option.splits sum.splits)
  qed (auto split: sum.splits option.splits)
  moreover have "parse_elements (Suc n) d s \<noteq> None" if f: "2 * length s + 2 \<le> Suc n"
  proof -
    have v: "parse_value n d s \<noteq> None" using f by (intro IHv) simp
    have m: "parse_elements n d (skip_whitespace r3) \<noteq> None"
      if "parse_value n d s = Some (Inr r2)" "consume q (skip_whitespace r2) = Some r3" for r2 r3 q
      using f parse_shorter [THEN conjunct1, rule_format, OF that(1)] consume_skip_length [OF that(2)] skip_whitespace_length [of r3]
      by (intro IHe) simp
    show ?thesis using v m by (simp split: option.splits sum.splits)
  qed
  ultimately show ?case by blast
qed simp

section \<open>Escaped strings are valid\<close>

lemma code_less [simp]: "code c < 256"
  by (simp add: code_def)

lemma special_codes [simp]:
  "code quote = 34" "code backslash = 92" "code (CHR ''u'') = 117" "code (CHR 0x08) = 8" "code (CHR 0x0C) = 12"
  "code (CHR 0x0A) = 10" "code (CHR 0x0D) = 13" "code (CHR 0x09) = 9"
  by (simp_all add: code_def)

lemma nat_less_16: "d < 16 \<Longrightarrow> d \<in> {0, 1, 2, 3, 4, 5, 6, 7, 8, 9, 10, 11, 12, 13, 14, 15 :: nat}"
  by (simp only: insert_iff empty_iff) arith

lemma hex_digit_of_nibble: "d < 16 \<Longrightarrow> is_hex_digit (digit_char d)"
  by (drule nat_less_16) (auto simp: digit_char_def is_hex_digit_def code_def)

lemma string_rest_hex_escape: "string_rest (hex_escape c @ s) = string_rest s"
proof -
  have "code c div 16 < 16" using code_less [of c] by (simp add: less_mult_imp_div_less del: code_less)
  then have "is_hex_digit (digit_char (code c div 16))" "is_hex_digit (digit_char (code c mod 16))"
    by (simp_all add: hex_digit_of_nibble)
  moreover have "is_hex_digit (CHR ''0'')" by (simp add: is_hex_digit_def code_def)
  ultimately show ?thesis
    by (simp add: hex_escape_def string_rest.simps(2) simple_escape_def)
qed

lemma utf8_prefix:
  assumes "utf8_sequence_length (c # s) = n" "n \<noteq> 0"
  shows "n - 1 \<le> length s" "utf8_sequence_length (c # take (n - 1) s @ t) = n" "n \<le> 4"
  using assms by (auto simp: Let_def numeral_2_eq_2 numeral_3_eq_3 eval_nat_numeral split: if_splits list.splits)

lemma string_rest_plain:
  "c \<noteq> quote \<Longrightarrow> c \<noteq> backslash \<Longrightarrow> 0x20 \<le> code c \<Longrightarrow> code c < 0x80 \<Longrightarrow> string_rest (c # s) = string_rest s"
  by (simp add: string_rest.simps(2))

lemma string_rest_utf8:
  assumes "utf8_sequence_length (c # s) = n" "n \<noteq> 0" "0x80 \<le> code c"
  shows "string_rest (c # take (n - 1) s @ t) = string_rest t"
proof -
  have "c \<noteq> quote" "c \<noteq> backslash" using assms(3) by auto
  then show ?thesis
    using assms(2,3) utf8_prefix [OF assms(1,2)] by (simp add: string_rest.simps(2) Let_def)
qed

lemma string_rest_escape: "e = CHR ''b'' \<or> e = CHR ''f'' \<or> e = CHR ''n'' \<or> e = CHR ''r'' \<or> e = CHR ''t'' \<or> e = quote \<or> e = backslash \<Longrightarrow>
    string_rest (backslash # e # s) = string_rest s"
  by (auto simp: string_rest.simps(2) simple_escape_def)

lemma string_rest_escape_string: "string_rest (escape_string s @ t) = string_rest t"
proof (induction s rule: length_induct)
  case (1 s)
  show ?case
  proof (cases s)
    case (Cons c u)
    have IH: "string_rest (escape_string v @ t) = string_rest t" if "length v \<le> length u" for v
      using 1 [rule_format, of v] that by (simp add: Cons)
    let ?S = "{backslash, quote, CHR 0x08, CHR 0x0C, CHR 0x0A, CHR 0x0D, CHR 0x09}"
    consider "c \<in> ?S" | "c \<notin> ?S" "code c < 0x20" | "c \<notin> ?S" "0x80 \<le> code c" | "c \<notin> ?S" "0x20 \<le> code c" "code c < 0x80"
      by linarith
    then show ?thesis
    proof cases
      case 1
      then show ?thesis using IH [of u] by (auto simp: Cons escape_string.simps(2) string_rest_escape)
    next
      case 2
      then show ?thesis using IH [of u] by (simp add: Cons escape_string.simps(2) string_rest_hex_escape)
    next
      case 3
      define n where "n = utf8_sequence_length (c # u)"
      have e: "escape_string (c # u) = (if n = 0 then hex_escape c @ escape_string u
          else c # take (n - 1) u @ escape_string (drop (n - 1) u))"
        using 3 unfolding n_def by (subst escape_string.simps(2)) (simp add: Let_def del: utf8_sequence_length.simps)
      show ?thesis
      proof (cases "n = 0")
        case True
        then show ?thesis using IH [of u] by (simp add: Cons e string_rest_hex_escape)
      next
        case False
        then show ?thesis
          using string_rest_utf8 [OF n_def [symmetric] False 3(2), of "escape_string (drop (n - 1) u) @ t"] IH [of "drop (n - 1) u"]
          by (simp add: Cons e del: drop_append)
      qed
    next
      case 4
      then show ?thesis using IH [of u] by (simp add: Cons escape_string.simps(2) string_rest_plain)
    qed
  qed simp
qed

definition json_string :: "string \<Rightarrow> string" where
  "json_string s = quote # escape_string s @ [quote]"

lemma parse_json_string: "parse_string (json_string s @ t) = Inr t"
  by (simp add: json_string_def parse_string_def string_rest_escape_string string_rest.simps(2))

section \<open>Printed values are valid\<close>

text \<open>What the program prints: a tree, its compact text, and the nesting the parser allows.\<close>

datatype json = JNull | JBool bool | JNumber bool nat string | JString string | JArray "json list"
  | JObject "(string \<times> json) list"

fun join_comma :: "string list \<Rightarrow> string" where
  "join_comma [] = []"
| "join_comma [x] = x"
| "join_comma (x # y # xs) = x @ CHR '','' # join_comma (y # xs)"

fun render :: "json \<Rightarrow> string" where
  "render JNull = ''null''"
| "render (JBool b) = (if b then ''true'' else ''false'')"
| "render (JNumber negative n fraction) =
     (if negative then ''-'' else []) @ dec_str n @ (if fraction = [] then [] else CHR ''.'' # fraction)"
| "render (JString s) = json_string s"
| "render (JArray xs) = ''['' @ join_comma (map render xs) @ '']''"
| "render (JObject ms) = ''{'' @ join_comma (map (\<lambda>(k, v). json_string k @ CHR '':'' # render v) ms) @ ''}''"

fun json_wf :: "json \<Rightarrow> bool" where
  "json_wf (JNumber negative n fraction) = list_all is_digit fraction"
| "json_wf (JArray xs) = list_all json_wf xs"
| "json_wf (JObject ms) = list_all (\<lambda>(k, v). json_wf v) ms"
| "json_wf _ = True"

fun fits_depth :: "nat \<Rightarrow> json \<Rightarrow> bool" where
  "fits_depth d (JArray xs) = (d \<le> maximum_depth \<and> list_all (fits_depth (Suc d)) xs)"
| "fits_depth d (JObject ms) = (d \<le> maximum_depth \<and> list_all (\<lambda>(k, v). fits_depth (Suc d) v) ms)"
| "fits_depth d _ = (d \<le> maximum_depth)"

text \<open>What can follow a value inside a text.\<close>

definition follows :: "string \<Rightarrow> bool" where
  "follows t \<longleftrightarrow> (case t of [] \<Rightarrow> True | c # _ \<Rightarrow> c = CHR '','' \<or> c = CHR '']'' \<or> c = CHR ''}'')"

lemma digit_char_digit: "d < 10 \<Longrightarrow> is_digit (digit_char d)"
proof -
  assume "d < 10"
  then have "d \<in> {0, 1, 2, 3, 4, 5, 6, 7, 8, 9}" by (simp only: insert_iff empty_iff) arith
  then show "is_digit (digit_char d)" by (auto simp: digit_char_def is_digit_def code_def)
qed

lemma digit_char_zero: "d < 10 \<Longrightarrow> digit_char d = CHR ''0'' \<longleftrightarrow> d = 0"
proof -
  assume "d < 10"
  then have "d \<in> {0, 1, 2, 3, 4, 5, 6, 7, 8, 9}" by (simp only: insert_iff empty_iff) arith
  then show ?thesis by (auto simp: digit_char_def)
qed

lemma dec_str_shape: "list_all is_digit (dec_str n) \<and> dec_str n \<noteq> [] \<and> (hd (dec_str n) = CHR ''0'' \<longleftrightarrow> n = 0)"
proof (induction n rule: dec_str.induct)
  case (1 n)
  show ?case
  proof (cases "n < 10")
    case True
    then show ?thesis by (simp add: dec_str.simps [of n] digit_char_digit digit_char_zero)
  next
    case False
    then have "hd (dec_str n) = hd (dec_str (n div 10))" using 1 by (simp add: dec_str.simps [of n])
    then show ?thesis using 1 False by (simp add: dec_str.simps [of n] digit_char_digit)
  qed
qed

lemma dec_str_zero: "dec_str 0 = ''0''"
  by (simp add: dec_str.simps digit_char_def)

lemma dropWhile_digits: "list_all is_digit ds \<Longrightarrow> (t = [] \<or> \<not> is_digit (hd t)) \<Longrightarrow> dropWhile is_digit (ds @ t) = t"
  by (induction ds) (auto simp: dropWhile_eq_self_iff)

lemma follows_hd: "follows t \<Longrightarrow> t = [] \<or> hd t \<in> {CHR '','', CHR '']'', CHR ''}''}"
  by (cases t) (auto simp: follows_def)

lemma punctuation_not_digit:
  "c \<in> {CHR '','', CHR '']'', CHR ''}'', CHR ''.'', CHR ''-''} \<Longrightarrow> \<not> is_digit c"
  by (auto simp: is_digit_def code_def)

lemma digits_run: "list_all is_digit ds \<Longrightarrow> ds \<noteq> [] \<Longrightarrow> (t = [] \<or> \<not> is_digit (hd t)) \<Longrightarrow> digits (ds @ t) = Some t"
  by (cases ds) (auto simp: digits_def dropWhile_digits)

lemma parse_exponent_follows: "follows t \<Longrightarrow> parse_exponent t = Inr t"
  by (auto simp: parse_exponent_def follows_def split: list.splits)

lemma parse_fraction_follows:
  assumes "follows t" "list_all is_digit fraction"
  shows "parse_fraction ((if fraction = [] then [] else CHR ''.'' # fraction) @ t) = Inr t"
proof -
  have t: "t = [] \<or> \<not> is_digit (hd t)" using follows_hd [OF assms(1)] punctuation_not_digit by (cases t) auto
  have "consume (CHR ''.'') t = None" using assms(1) by (auto simp: follows_def split: list.splits)
  then show ?thesis using assms(2) t digits_run [of fraction t] by (simp add: parse_fraction_def)
qed

lemma parse_rendered_number:
  assumes "list_all is_digit fraction" "follows t"
  shows "parse_number (render (JNumber negative n fraction) @ t) = Inr t"
proof -
  let ?u = "(if fraction = [] then [] else CHR ''.'' # fraction) @ t"
  note d = dec_str_shape [of n]
  have u: "?u = [] \<or> \<not> is_digit (hd ?u)"
    using follows_hd [OF assms(2)] punctuation_not_digit by (cases t) auto
  have minus: "consume (CHR ''-'') (dec_str n @ ?u) = None"
  proof -
    obtain c v where cv: "dec_str n = c # v" "is_digit c" using d by (cases "dec_str n") auto
    then show ?thesis using punctuation_not_digit [of c] by auto
  qed
  have int: "(case consume (CHR ''0'') (dec_str n @ ?u) of
            Some t \<Rightarrow> (case t of c # _ \<Rightarrow> if is_digit c then Inl ''invalid leading zero in JSON number'' else Inr t
                              | [] \<Rightarrow> Inr t)
          | None \<Rightarrow> (case digits (dec_str n @ ?u) of None \<Rightarrow> Inl ''invalid JSON number'' | Some r \<Rightarrow> Inr r)) = Inr ?u"
  proof (cases "n = 0")
    case True
    then show ?thesis using u by (cases ?u) (auto simp: dec_str_zero)
  next
    case False
    then have "consume (CHR ''0'') (dec_str n @ ?u) = None" using d by (cases "dec_str n") auto
    then show ?thesis using digits_run [of "dec_str n" ?u] d u by simp
  qed
  have len: "length t < length (render (JNumber negative n fraction) @ t)" using d by simp
  have shape: "render (JNumber negative n fraction) @ t = (if negative then ''-'' else []) @ dec_str n @ ?u" by simp
  have s1: "(case consume (CHR ''-'') (render (JNumber negative n fraction) @ t) of Some t' \<Rightarrow> t' | None \<Rightarrow> render (JNumber negative n fraction) @ t)
      = dec_str n @ ?u"
    unfolding shape using minus by (cases negative) simp_all
  show ?thesis
    unfolding parse_number_def Let_def s1 int
    using parse_fraction_follows [OF assms(2,1)] parse_exponent_follows [OF assms(2)] len by simp
qed

lemma skip_nonspace [simp]: "\<not> is_space c \<Longrightarrow> skip_whitespace (c # u) = c # u"
  by (simp add: skip_whitespace_def)

lemma punctuation_not_space [simp]:
  "\<not> is_space (CHR '','')" "\<not> is_space (CHR '']'')" "\<not> is_space (CHR ''}'')" "\<not> is_space (CHR '':'')"
  "\<not> is_space (CHR ''{'')" "\<not> is_space (CHR ''['')" "\<not> is_space quote" "\<not> is_space (CHR ''t'')"
  "\<not> is_space (CHR ''f'')" "\<not> is_space (CHR ''n'')" "\<not> is_space (CHR ''-'')"
  by (simp_all add: is_space_def)

lemma digit_not_special:
  "is_digit c \<Longrightarrow> \<not> is_space c \<and> c \<noteq> CHR ''{'' \<and> c \<noteq> CHR ''['' \<and> c \<noteq> quote \<and> c \<noteq> CHR ''t'' \<and> c \<noteq> CHR ''f'' \<and> c \<noteq> CHR ''n''
     \<and> c \<noteq> CHR '']'' \<and> c \<noteq> CHR ''}''"
  by (auto simp: is_digit_def is_space_def code_def)

lemma number_head:
  "\<exists>c u. render (JNumber negative n fraction) = c # u \<and> (c = CHR ''-'' \<or> is_digit c)"
proof (cases negative)
  case False
  obtain c u where "dec_str n = c # u" "is_digit c" using dec_str_shape [of n] by (cases "dec_str n") auto
  then show ?thesis using False by auto
qed auto

lemma render_head: "\<exists>c u. render v = c # u \<and> \<not> is_space c \<and> c \<noteq> CHR '']''"
proof (cases v)
  case (JNumber negative n fraction)
  then show ?thesis using number_head [of negative n fraction] digit_not_special by fastforce
qed (auto simp: json_string_def)

lemma render_skip [simp]: "skip_whitespace (render v @ t) = render v @ t"
  using render_head [of v] by auto

lemma json_string_skip [simp]: "skip_whitespace (json_string k @ t) = json_string k @ t"
  by (simp add: json_string_def)

lemma parse_elements_rendered:
  assumes "\<And>x n t. x \<in> set xs \<Longrightarrow> follows t \<Longrightarrow> 2 * length (render x @ t) + 1 \<le> n \<Longrightarrow>
      parse_value n d (render x @ t) = Some (Inr t)"
    and "xs \<noteq> []" "2 * length (join_comma (map render xs) @ CHR '']'' # rest) + 2 \<le> n"
  shows "parse_elements n d (join_comma (map render xs) @ CHR '']'' # rest) = Some (Inr rest)"
  using assms
proof (induction xs arbitrary: n)
  case (Cons x xs)
  obtain m where n: "n = Suc m" using Cons.prems(3) by (cases n) auto
  show ?case
  proof (cases xs)
    case Nil
    have "parse_value m d (render x @ CHR '']'' # rest) = Some (Inr (CHR '']'' # rest))"
      using Cons.prems(3) by (intro Cons.prems(1)) (simp_all add: n Nil follows_def)
    then show ?thesis by (simp add: n Nil)
  next
    case (Cons y ys)
    let ?t = "join_comma (map render xs) @ CHR '']'' # rest"
    have e: "join_comma (map render (x # xs)) @ CHR '']'' # rest = render x @ CHR '','' # ?t" by (simp add: Cons)
    have "parse_value m d (render x @ CHR '','' # ?t) = Some (Inr (CHR '','' # ?t))"
      using Cons.prems(3) unfolding e by (intro Cons.prems(1)) (simp_all add: n follows_def)
    moreover have "parse_elements m d ?t = Some (Inr rest)"
      using Cons.prems(1,3) unfolding e by (intro Cons.IH) (simp_all add: n Cons)
    moreover have "skip_whitespace ?t = ?t"
      using render_head [of y] by (cases ys) (auto simp: Cons)
    ultimately show ?thesis unfolding e by (simp add: n)
  qed
qed simp

lemma parse_members_rendered:
  assumes "\<And>k x n t. (k, x) \<in> set ms \<Longrightarrow> follows t \<Longrightarrow> 2 * length (render x @ t) + 1 \<le> n \<Longrightarrow>
      parse_value n d (render x @ t) = Some (Inr t)"
    and "ms \<noteq> []"
    and "2 * length (join_comma (map (\<lambda>(k, v). json_string k @ CHR '':'' # render v) ms) @ CHR ''}'' # rest) + 2 \<le> n"
  shows "parse_members n d (join_comma (map (\<lambda>(k, v). json_string k @ CHR '':'' # render v) ms) @ CHR ''}'' # rest) = Some (Inr rest)"
  using assms
proof (induction ms arbitrary: n)
  case (Cons kx ms)
  obtain k x where kx: "kx = (k, x)" by fastforce
  obtain m where n: "n = Suc m" using Cons.prems(3) by (cases n) auto
  let ?f = "\<lambda>(k, v). json_string k @ CHR '':'' # render v"
  show ?case
  proof (cases ms)
    case Nil
    have "parse_value m d (render x @ CHR ''}'' # rest) = Some (Inr (CHR ''}'' # rest))"
      using Cons.prems(3) by (intro Cons.prems(1) [of k]) (simp_all add: n Nil kx follows_def)
    then show ?thesis by (simp add: n Nil kx parse_json_string)
  next
    case (Cons y ys)
    let ?t = "join_comma (map ?f ms) @ CHR ''}'' # rest"
    have e: "join_comma (map ?f (kx # ms)) @ CHR ''}'' # rest = json_string k @ CHR '':'' # render x @ CHR '','' # ?t"
      by (simp add: Cons kx)
    have "parse_value m d (render x @ CHR '','' # ?t) = Some (Inr (CHR '','' # ?t))"
      using Cons.prems(3) unfolding e by (intro Cons.prems(1) [of k]) (simp_all add: n kx follows_def)
    moreover have "parse_members m d ?t = Some (Inr rest)"
      using Cons.prems(1,3) unfolding e by (intro Cons.IH) (auto simp: n Cons)
    moreover have "skip_whitespace ?t = ?t"
      by (cases ys) (auto simp: Cons case_prod_beta json_string_def)
    ultimately show ?thesis unfolding e by (simp add: n parse_json_string)
  qed
qed simp

lemma parse_rendered:
  "json_wf v \<Longrightarrow> fits_depth d v \<Longrightarrow> follows t \<Longrightarrow> 2 * length (render v @ t) + 1 \<le> n \<Longrightarrow>
     parse_value n d (render v @ t) = Some (Inr t)"
proof (induction v arbitrary: d t n)
  case (JNumber negative k fraction)
  obtain m where n: "n = Suc m" using JNumber.prems(4) by (cases n) auto
  obtain c u where cu: "render (JNumber negative k fraction) = c # u" "c = CHR ''-'' \<or> is_digit c"
    using number_head by blast
  have "c \<noteq> CHR ''{''" "c \<noteq> CHR ''[''" "c \<noteq> quote" "c \<noteq> CHR ''t''" "c \<noteq> CHR ''f''" "c \<noteq> CHR ''n''" "\<not> is_space c"
    using cu(2) digit_not_special [of c] by auto
  then show ?case
    using JNumber.prems parse_rendered_number [of fraction t negative k] unfolding cu(1) by (simp add: n)
next
  case (JArray xs)
  obtain m where n: "n = Suc m" using JArray.prems(4) by (cases n) auto
  show ?case
  proof (cases "xs = []")
    case False
    have "parse_elements m (Suc d) (join_comma (map render xs) @ CHR '']'' # t) = Some (Inr t)"
      using JArray False by (intro parse_elements_rendered) (auto simp: n list_all_iff)
    moreover obtain c u where "join_comma (map render xs) @ CHR '']'' # t = c # u" "\<not> is_space c" "c \<noteq> CHR '']''"
      using render_head [of "hd xs"] False by (cases xs; cases "tl xs") auto
    ultimately show ?thesis using JArray.prems(2) by (simp add: n)
  qed (use JArray.prems(2) in \<open>simp add: n\<close>)
next
  case (JObject ms)
  obtain m where n: "n = Suc m" using JObject.prems(4) by (cases n) auto
  let ?f = "\<lambda>(k, v). json_string k @ CHR '':'' # render v"
  show ?case
  proof (cases "ms = []")
    case False
    have el: "parse_value n' (Suc d) (render x @ t') = Some (Inr t')"
      if "(k, x) \<in> set ms" "follows t'" "2 * length (render x @ t') + 1 \<le> n'" for k x n' t'
    proof -
      have "json_wf x" "fits_depth (Suc d) x"
        using JObject.prems(1,2) that(1) by (force simp: list_all_iff)+
      then show ?thesis using JObject.IH [OF that(1), of x "Suc d" t' n'] that(2,3) by simp
    qed
    have "parse_members m (Suc d) (join_comma (map ?f ms) @ CHR ''}'' # t) = Some (Inr t)"
      using JObject.prems(4) False by (intro parse_members_rendered el) (auto simp: n)
    moreover obtain u where "join_comma (map ?f ms) @ CHR ''}'' # t = quote # u"
      using False by (cases ms; cases "tl ms") (auto simp: json_string_def)
    ultimately show ?thesis using JObject.prems(2) by (simp add: n)
  qed (use JObject.prems(2) in \<open>simp add: n\<close>)
next
  case (JString s)
  obtain m where n: "n = Suc m" using JString.prems(4) by (cases n) auto
  obtain u where u: "json_string s @ t = quote # u" by (simp add: json_string_def)
  show ?case using JString.prems(2) parse_json_string [of s t] by (simp add: n u)
next
  case (JBool b)
  then show ?case by (cases n) (auto simp: parse_literal_def)
next
  case JNull
  then show ?case by (cases n) (auto simp: parse_literal_def)
qed

section \<open>Properties\<close>

text \<open>
  The validator always decides: the fuel is never exhausted, whatever the input, so the result is
  validity or an error.
\<close>

theorem validator_decides:
  "parse_value (parse_fuel s) 0 (skip_whitespace s) \<noteq> None"
  using parse_terminates [of "skip_whitespace s" "parse_fuel s" 0] skip_whitespace_length [of s]
  by (simp add: parse_fuel_def)

lemma rendered_valid:
  assumes "json_wf v" "fits_depth 0 v"
  shows "is_valid_value (render v)"
proof -
  have "skip_whitespace (render v) = render v" using render_skip [of v "[]"] by simp
  moreover have "parse_value (parse_fuel (render v)) 0 (render v) = Some (Inr [])"
    using parse_rendered [OF assms, of "[]" "parse_fuel (render v)"] by (simp add: follows_def parse_fuel_def)
  ultimately show ?thesis by (simp add: is_valid_value_def json_error_def skip_whitespace_def)
qed

text \<open>
  Every tree of values that nests at most 129 deep prints to a valid text.
\<close>

theorem printed_values_are_valid:
  assumes "json_wf v" "fits_depth 0 v"
  shows "is_valid_value (render v)"
  using assms by (rule rendered_valid)

text \<open>
  Escaping is safe: for any bytes at all, valid UTF-8 or not, the escaped string between quotes is a
  valid JSON value, also as a key or a member of a larger value.
\<close>

theorem escaped_strings_are_valid: "is_valid_value (json_string s)"
proof -
  have "json_wf (JString s)" "fits_depth 0 (JString s)" by simp_all
  then show ?thesis
    using parse_rendered [of "JString s" 0 "[]" "parse_fuel (json_string s)"] render_skip [of "JString s" "[]"]
    by (simp add: is_valid_value_def json_error_def follows_def parse_fuel_def skip_whitespace_def)
qed

theorem printed_values_are_valid_witness:
  "is_valid_value (render (JObject [(''a'', JArray [JNumber True 12 ''50'', JNull]), ([CHR 0x0A, CHR 0xC3], JBool True)]))"
  by (rule printed_values_are_valid) (simp_all add: is_digit_def code_def maximum_depth_def)

definition nested_arrays :: "nat \<Rightarrow> string" where
  "nested_arrays n = replicate n (CHR ''['') @ replicate n (CHR '']'')"

fun nest :: "nat \<Rightarrow> json" where
  "nest 0 = JArray []"
| "nest (Suc n) = JArray [nest n]"

lemma render_nest: "render (nest n) = nested_arrays (Suc n)"
proof (induction n)
  case (Suc n)
  have "replicate n (CHR '']'') @ '']]'' = '']]'' @ replicate n (CHR '']'')"
    using replicate_app_Cons_same [of n "CHR '']''" "[]"] replicate_app_Cons_same [of n "CHR '']''" "'']''"] by simp
  then show ?case using Suc by (simp add: nested_arrays_def replicate_append_same)
qed (simp add: nested_arrays_def)

lemma nest_fits: "json_wf (nest n) \<and> (fits_depth d (nest n) \<longleftrightarrow> d + n \<le> maximum_depth)"
  by (induction n arbitrary: d) auto

lemma too_deep:
  "1 \<le> k \<Longrightarrow> d \<le> 129 \<Longrightarrow> 130 \<le> d + k \<Longrightarrow> \<not> (\<exists>r. parse_value n d (replicate k (CHR ''['') @ t) = Some (Inr r))"
proof (induction k arbitrary: d n)
  case (Suc k)
  show ?case
  proof (cases n)
    case (Suc m)
    show ?thesis
    proof (cases "d = 129")
      case False
      then obtain k' where k: "k = Suc k'" using Suc.prems by (cases k) auto
      then have ih: "\<not> (\<exists>r. parse_value m' (Suc d) (replicate k (CHR ''['') @ t) = Some (Inr r))" for m'
        using Suc.prems False by (intro Suc.IH) simp_all
      have "\<not> (\<exists>r. parse_elements m (Suc d) (replicate k (CHR ''['') @ t) = Some (Inr r))"
        using ih by (cases m) (auto split: option.splits sum.splits)
      then show ?thesis using False Suc.prems by (simp add: Suc k maximum_depth_def)
    qed (simp add: Suc maximum_depth_def)
  qed simp
qed simp

text \<open>Nested arrays are valid exactly up to 129 levels.\<close>

theorem nesting_limit:
  "is_valid_value (nested_arrays (Suc n)) \<longleftrightarrow> n \<le> 128"
proof
  assume "n \<le> 128"
  then have "json_wf (nest n)" "fits_depth 0 (nest n)" using nest_fits [of n 0] by (simp_all add: maximum_depth_def)
  then have "parse_value (parse_fuel (render (nest n))) 0 (render (nest n)) = Some (Inr [])"
    using parse_rendered [of "nest n" 0 "[]" "parse_fuel (render (nest n))"] by (simp add: follows_def parse_fuel_def)
  then show "is_valid_value (nested_arrays (Suc n))"
    using render_skip [of "nest n" "[]"] by (simp add: is_valid_value_def json_error_def render_nest skip_whitespace_def)
next
  assume v: "is_valid_value (nested_arrays (Suc n))"
  have "skip_whitespace (nested_arrays (Suc n)) = nested_arrays (Suc n)" by (simp add: nested_arrays_def)
  then obtain r where "parse_value (parse_fuel (nested_arrays (Suc n))) 0 (nested_arrays (Suc n)) = Some (Inr r)"
    using v by (auto simp: is_valid_value_def json_error_def split: option.splits sum.splits)
  then show "n \<le> 128"
    using too_deep [of "Suc n" 0] unfolding nested_arrays_def by (cases "n \<le> 128") auto
qed

section \<open>Only JSON is valid\<close>

text \<open>The grammar of RFC 8259, with the parser's limit on nesting.\<close>

inductive utf8_character :: "string \<Rightarrow> bool" where
  two: "0xC2 \<le> code a \<Longrightarrow> code a \<le> 0xDF \<Longrightarrow> is_continuation_byte b \<Longrightarrow> utf8_character [a, b]"
| three: "0xE0 \<le> code a \<Longrightarrow> code a \<le> 0xEF \<Longrightarrow> is_continuation_byte b \<Longrightarrow> is_continuation_byte c \<Longrightarrow>
    (code a = 0xE0 \<Longrightarrow> 0xA0 \<le> code b) \<Longrightarrow> (code a = 0xED \<Longrightarrow> code b \<le> 0x9F) \<Longrightarrow> utf8_character [a, b, c]"
| four: "0xF0 \<le> code a \<Longrightarrow> code a \<le> 0xF4 \<Longrightarrow> is_continuation_byte b \<Longrightarrow> is_continuation_byte c \<Longrightarrow> is_continuation_byte d \<Longrightarrow>
    (code a = 0xF0 \<Longrightarrow> 0x90 \<le> code b) \<Longrightarrow> (code a = 0xF4 \<Longrightarrow> code b \<le> 0x8F) \<Longrightarrow> utf8_character [a, b, c, d]"

inductive string_characters :: "string \<Rightarrow> bool" where
  none: "string_characters []"
| plain: "c \<noteq> quote \<Longrightarrow> c \<noteq> backslash \<Longrightarrow> 0x20 \<le> code c \<Longrightarrow> code c < 0x80 \<Longrightarrow> string_characters s \<Longrightarrow> string_characters (c # s)"
| simple: "simple_escape e \<Longrightarrow> string_characters s \<Longrightarrow> string_characters (backslash # e # s)"
| unicode: "length h = 4 \<Longrightarrow> list_all is_hex_digit h \<Longrightarrow> string_characters s \<Longrightarrow> string_characters (backslash # CHR ''u'' # h @ s)"
| utf8: "utf8_character u \<Longrightarrow> string_characters s \<Longrightarrow> string_characters (u @ s)"

definition string_text :: "string \<Rightarrow> bool" where
  "string_text s \<longleftrightarrow> (\<exists>u. s = quote # u @ [quote] \<and> string_characters u)"

definition digit_text :: "string \<Rightarrow> bool" where
  "digit_text s \<longleftrightarrow> s \<noteq> [] \<and> list_all is_digit s"

definition number_text :: "string \<Rightarrow> bool" where
  "number_text s \<longleftrightarrow> (\<exists>sign i f e. s = sign @ i @ f @ e \<and> sign \<in> {[], ''-''} \<and>
     digit_text i \<and> (hd i = CHR ''0'' \<longrightarrow> i = ''0'') \<and>
     (f = [] \<or> (\<exists>ds. f = CHR ''.'' # ds \<and> digit_text ds)) \<and>
     (e = [] \<or> (\<exists>x y ds. e = x # y @ ds \<and> (x = CHR ''e'' \<or> x = CHR ''E'') \<and> y \<in> {[], ''+'', ''-''} \<and> digit_text ds)))"

abbreviation spaces :: "string \<Rightarrow> bool" where "spaces \<equiv> list_all is_space"

inductive value_text :: "nat \<Rightarrow> string \<Rightarrow> bool" and members_text :: "nat \<Rightarrow> string \<Rightarrow> bool"
  and elements_text :: "nat \<Rightarrow> string \<Rightarrow> bool" where
  space: "is_space c \<Longrightarrow> value_text d s \<Longrightarrow> value_text d (c # s)"
| literal: "d \<le> maximum_depth \<Longrightarrow> s \<in> {''true'', ''false'', ''null''} \<Longrightarrow> value_text d s"
| string: "d \<le> maximum_depth \<Longrightarrow> string_text s \<Longrightarrow> value_text d s"
| number: "d \<le> maximum_depth \<Longrightarrow> number_text s \<Longrightarrow> value_text d s"
| empty_array: "d \<le> maximum_depth \<Longrightarrow> spaces w \<Longrightarrow> value_text d (''['' @ w @ '']'')"
| array: "d \<le> maximum_depth \<Longrightarrow> spaces w \<Longrightarrow> elements_text (Suc d) s \<Longrightarrow> value_text d (''['' @ w @ s @ '']'')"
| empty_object: "d \<le> maximum_depth \<Longrightarrow> spaces w \<Longrightarrow> value_text d (''{'' @ w @ ''}'')"
| object: "d \<le> maximum_depth \<Longrightarrow> spaces w \<Longrightarrow> members_text (Suc d) s \<Longrightarrow> value_text d (''{'' @ w @ s @ ''}'')"
| element: "value_text d s \<Longrightarrow> spaces w \<Longrightarrow> elements_text d (s @ w)"
| elements: "value_text d s \<Longrightarrow> spaces w \<Longrightarrow> spaces w' \<Longrightarrow> elements_text d t \<Longrightarrow> elements_text d (s @ w @ '','' @ w' @ t)"
| member: "string_text k \<Longrightarrow> spaces w \<Longrightarrow> value_text d s \<Longrightarrow> spaces w' \<Longrightarrow> members_text d (k @ w @ '':'' @ s @ w')"
| members: "string_text k \<Longrightarrow> spaces w \<Longrightarrow> value_text d s \<Longrightarrow> spaces w' \<Longrightarrow> spaces w'' \<Longrightarrow> members_text d t \<Longrightarrow>
    members_text d (k @ w @ '':'' @ s @ w' @ '','' @ w'' @ t)"

definition json_text :: "string \<Rightarrow> bool" where
  "json_text s \<longleftrightarrow> (\<exists>v w. s = v @ w \<and> value_text 0 v \<and> spaces w)"

lemma skip_split: "\<exists>w. s = w @ skip_whitespace s \<and> spaces w"
  unfolding skip_whitespace_def
  by (rule exI [of _ "takeWhile is_space s"]) (auto simp: list_all_iff dest: set_takeWhileD)

lemma value_spaces: "spaces w \<Longrightarrow> value_text d s \<Longrightarrow> value_text d (w @ s)"
  by (induction w) (auto intro: value_text_members_text_elements_text.space)

lemma utf8_split:
  assumes "utf8_sequence_length (c # s) = n" "n \<noteq> 0" "0x80 \<le> code c"
  shows "utf8_character (c # take (n - 1) s)"
  using assms
  by (auto simp: Let_def not_less split: if_splits list.splits intro!: utf8_character.intros)

lemma string_rest_sound: "string_rest s = Inr r \<Longrightarrow> \<exists>u. s = u @ quote # r \<and> string_characters u"
proof (induction s rule: length_induct)
  case (1 s)
  have IH: "\<exists>u. v = u @ quote # r \<and> string_characters u" if "string_rest v = Inr r" "length v < length s" for v
    using 1 that by blast
  show ?case
  proof (cases s)
    case (Cons c t)
    consider "c = quote" | "c \<noteq> quote" "c = backslash" | "c \<noteq> quote" "c \<noteq> backslash" "code c < 0x80"
      | "c \<noteq> quote" "c \<noteq> backslash" "0x80 \<le> code c" by linarith
    then show ?thesis
    proof cases
      case 1
      then show ?thesis
        using \<open>string_rest s = Inr r\<close> Cons by (auto simp: string_rest.simps(2) intro: string_characters.none)
    next
      case 2
      then obtain e v where t: "t = e # v"
        using \<open>string_rest s = Inr r\<close> Cons by (cases t) (auto simp: string_rest.simps(2))
      show ?thesis
      proof (cases "simple_escape e")
        case True
        then have "string_rest v = Inr r" using 2 \<open>string_rest s = Inr r\<close> Cons t by (simp add: string_rest.simps(2))
        then obtain u where "v = u @ quote # r" "string_characters u" using IH [of v] Cons t by auto
        then show ?thesis using True 2 Cons t by (auto intro!: exI [of _ "backslash # e # u"] string_characters.simple)
      next
        case False
        have e: "e = CHR ''u''" "\<not> length v < 4" "list_all is_hex_digit (take 4 v)" "string_rest (drop 4 v) = Inr r"
          using False 2 \<open>string_rest s = Inr r\<close> Cons t by (simp_all add: string_rest.simps(2) split: if_splits)
        have "length (drop 4 v) < length s" by (simp add: Cons t)
        from IH [OF e(4) this] obtain u where u: "drop 4 v = u @ quote # r" "string_characters u" by blast
        have "v = take 4 v @ u @ quote # r" using u(1) by (metis append_take_drop_id)
        moreover have "string_characters (backslash # CHR ''u'' # take 4 v @ u)"
          using e u(2) by (intro string_characters.unicode) simp_all
        ultimately show ?thesis using 2 Cons t e(1) by (intro exI [of _ "backslash # CHR ''u'' # take 4 v @ u"]) simp
      qed
    next
      case 3
      then have "0x20 \<le> code c" "string_rest t = Inr r"
        using \<open>string_rest s = Inr r\<close> Cons by (auto simp: string_rest.simps(2) split: if_splits)
      moreover from this(2) obtain u where "t = u @ quote # r" "string_characters u" using IH [of t] Cons by auto
      ultimately show ?thesis using 3 Cons by (auto intro!: exI [of _ "c # u"] string_characters.plain)
    next
      case 4
      define n where "n = utf8_sequence_length (c # t)"
      have n: "n \<noteq> 0" "string_rest (drop (n - 1) t) = Inr r"
        using 4 \<open>string_rest s = Inr r\<close> Cons unfolding n_def
        by (simp_all add: string_rest.simps(2) Let_def del: utf8_sequence_length.simps split: if_splits)
      then obtain u where u: "drop (n - 1) t = u @ quote # r" "string_characters u" using IH [of "drop (n - 1) t"] Cons by auto
      have "t = take (n - 1) t @ u @ quote # r" using u(1) by (metis append_take_drop_id)
      moreover have "string_characters ((c # take (n - 1) t) @ u)"
        using utf8_split [OF n_def [symmetric] n(1) 4(3)] u(2) by (rule string_characters.utf8)
      ultimately show ?thesis using Cons by (intro exI [of _ "(c # take (n - 1) t) @ u"]) simp
    qed
  qed (use 1 in simp)
qed

lemma parse_string_sound: "parse_string s = Inr r \<Longrightarrow> \<exists>u. s = u @ r \<and> string_text u"
proof -
  assume "parse_string s = Inr r"
  then obtain t where t: "s = quote # t" "string_rest t = Inr r"
    by (auto simp: parse_string_def consume_Some split: option.splits)
  then obtain u where "t = u @ quote # r" "string_characters u" using string_rest_sound by blast
  then show ?thesis using t(1) by (auto simp: string_text_def intro!: exI [of _ "quote # u @ [quote]"])
qed

lemma digits_sound: "digits s = Some r \<Longrightarrow> \<exists>ds. s = ds @ r \<and> digit_text ds"
proof -
  assume "digits s = Some r"
  then obtain c t where c: "s = c # t" "is_digit c" "r = dropWhile is_digit t"
    by (auto simp: digits_def split: list.splits if_splits)
  have "s = (c # takeWhile is_digit t) @ r" using c by simp
  moreover have "digit_text (c # takeWhile is_digit t)"
    using c(2) by (auto simp: digit_text_def list_all_iff dest: set_takeWhileD)
  ultimately show ?thesis by blast
qed

lemma parse_fraction_sound:
  "parse_fraction s = Inr r \<Longrightarrow> \<exists>f. s = f @ r \<and> (f = [] \<or> (\<exists>ds. f = CHR ''.'' # ds \<and> digit_text ds))"
  using digits_sound by (fastforce simp: parse_fraction_def consume_Some split: option.splits)

lemma parse_exponent_sound:
  assumes "parse_exponent s = Inr r"
  shows "\<exists>e. s = e @ r \<and> (e = [] \<or> (\<exists>x y ds. e = x # y @ ds \<and> (x = CHR ''e'' \<or> x = CHR ''E'') \<and> y \<in> {[], ''+'', ''-''} \<and> digit_text ds))"
proof (cases "\<exists>c t. s = c # t \<and> (c = CHR ''e'' \<or> c = CHR ''E'')")
  case False
  then have "r = s" using assms by (auto simp: parse_exponent_def split: list.splits if_splits)
  then show ?thesis by simp
next
  case True
  then obtain c t where c: "s = c # t" "c = CHR ''e'' \<or> c = CHR ''E''" by blast
  define u where "u = (case t of x # u \<Rightarrow> if x = CHR ''+'' \<or> x = CHR ''-'' then u else t | [] \<Rightarrow> t)"
  have "digits u = Some r" using assms c by (auto simp: parse_exponent_def u_def Let_def split: option.splits)
  then obtain ds where ds: "u = ds @ r" "digit_text ds" using digits_sound by blast
  have "t = u \<or> t = CHR ''+'' # u \<or> t = CHR ''-'' # u" by (auto simp: u_def split: list.splits)
  then obtain y where "t = y @ u" "y \<in> {[], ''+'', ''-''}" by force
  then show ?thesis using c ds by (intro exI [of _ "c # y @ ds"]) auto
qed

lemma parse_number_sound:
  assumes "parse_number s = Inr r"
  shows "\<exists>u. s = u @ r \<and> number_text u"
proof -
  define s1 where "s1 = (case consume (CHR ''-'') s of Some t \<Rightarrow> t | None \<Rightarrow> s)"
  have s1: "\<exists>sign. s = sign @ s1 \<and> sign \<in> {[], ''-''}"
    by (cases "consume (CHR ''-'') s") (auto simp: s1_def consume_Some)
  obtain r1 where r1: "(case consume (CHR ''0'') s1 of
            Some t \<Rightarrow> (case t of c # _ \<Rightarrow> if is_digit c then Inl ''invalid leading zero in JSON number'' else Inr t
                              | [] \<Rightarrow> Inr t)
          | None \<Rightarrow> (case digits s1 of None \<Rightarrow> Inl ''invalid JSON number'' | Some r \<Rightarrow> Inr r)) = Inr r1"
    and rest: "(case parse_fraction r1 of Inl e \<Rightarrow> Inl e | Inr r' \<Rightarrow> (case parse_exponent r' of Inl e \<Rightarrow> Inl e
        | Inr r'' \<Rightarrow> if length r'' < length s then Inr r'' else Inl [])) = Inr r"
    using assms unfolding parse_number_def Let_def s1_def [symmetric] by (auto split: sum.splits)
  have i: "\<exists>i. s1 = i @ r1 \<and> digit_text i \<and> (hd i = CHR ''0'' \<longrightarrow> i = ''0'')"
  proof (cases "consume (CHR ''0'') s1")
    case None
    then obtain ds where "s1 = ds @ r1" "digit_text ds" using r1 digits_sound [of s1 r1] by (auto split: option.splits)
    moreover from this None have "hd ds \<noteq> CHR ''0''" by (cases ds) (auto simp: digit_text_def)
    ultimately show ?thesis by blast
  next
    case (Some t)
    then have "r1 = t" using r1 by (auto split: list.splits if_splits)
    moreover have "digit_text ''0''" by (simp add: digit_text_def is_digit_def code_def)
    ultimately show ?thesis using Some by (intro exI [of _ "''0''"]) (simp add: consume_Some)
  qed
  obtain r2 where r2: "parse_fraction r1 = Inr r2" "parse_exponent r2 = Inr r"
    using rest by (auto split: sum.splits if_splits)
  obtain sign where "s = sign @ s1" "sign \<in> {[], ''-''}" using s1 by blast
  moreover obtain i where "s1 = i @ r1" "digit_text i" "hd i = CHR ''0'' \<longrightarrow> i = ''0''" using i by blast
  moreover obtain f where "r1 = f @ r2" "f = [] \<or> (\<exists>ds. f = CHR ''.'' # ds \<and> digit_text ds)"
    using parse_fraction_sound [OF r2(1)] by blast
  moreover obtain e where "r2 = e @ r" "e = [] \<or> (\<exists>x y ds. e = x # y @ ds \<and> (x = CHR ''e'' \<or> x = CHR ''E'') \<and> y \<in> {[], ''+'', ''-''} \<and> digit_text ds)"
    using parse_exponent_sound [OF r2(2)] by blast
  ultimately show ?thesis unfolding number_text_def
    by (intro exI [of _ "sign @ i @ f @ e"] conjI exI [of _ sign] exI [of _ i] exI [of _ f] exI [of _ e]) simp_all
qed

lemma parse_literal_sound: "parse_literal l s = Inr r \<Longrightarrow> s = l @ r"
  by (auto simp: parse_literal_def split: if_splits) (metis append_take_drop_id)

lemma skip_consume_sound: "consume c (skip_whitespace s) = Some r \<Longrightarrow> \<exists>w. s = w @ c # r \<and> spaces w"
  using skip_split [of s] by (auto simp: consume_Some)

text \<open>A value cut off the front of the input is in the grammar; likewise for members and elements with their bracket.\<close>

definition value_cut :: "nat \<Rightarrow> string \<Rightarrow> string \<Rightarrow> bool" where
  "value_cut d s r \<longleftrightarrow> (\<exists>u. s = u @ r \<and> value_text d u)"

definition members_cut :: "nat \<Rightarrow> string \<Rightarrow> string \<Rightarrow> bool" where
  "members_cut d s r \<longleftrightarrow> (\<exists>u. s = u @ CHR ''}'' # r \<and> members_text d u)"

definition elements_cut :: "nat \<Rightarrow> string \<Rightarrow> string \<Rightarrow> bool" where
  "elements_cut d s r \<longleftrightarrow> (\<exists>u. s = u @ CHR '']'' # r \<and> elements_text d u)"

lemma value_step_sound:
  assumes v: "parse_value (Suc n) d s = Some (Inr r)"
    and IHm: "\<And>d s r. parse_members n d s = Some (Inr r) \<Longrightarrow> members_cut d s r"
    and IHe: "\<And>d s r. parse_elements n d s = Some (Inr r) \<Longrightarrow> elements_cut d s r"
  shows "value_cut d s r"
proof -
  obtain c t where ct: "skip_whitespace s = c # t" "d \<le> maximum_depth"
    using v by (auto split: if_splits list.splits)
  obtain w where w: "s = w @ c # t" "spaces w" using skip_split [of s] ct(1) by auto
  obtain w' where w': "t = w' @ skip_whitespace t" "spaces w'" using skip_split [of t] by blast
  have "value_cut d (c # t) r"
  proof -
    consider (object) "c = CHR ''{''" | (array) "c = CHR ''[''" | (other) "c \<noteq> CHR ''{''" "c \<noteq> CHR ''[''" by blast
    then show ?thesis
    proof cases
      case object
      show ?thesis
      proof (cases "consume (CHR ''}'') (skip_whitespace t)")
        case None
        then have "members_cut (Suc d) (skip_whitespace t) r" using v ct object by (intro IHm) simp
        then obtain u where "skip_whitespace t = u @ CHR ''}'' # r" "members_text (Suc d) u" by (auto simp: members_cut_def)
        then show ?thesis
          unfolding value_cut_def using object w' value_text_members_text_elements_text.object [OF ct(2) w'(2), of u]
          by (intro exI [of _ "''{'' @ w' @ u @ ''}''"]) simp
      next
        case (Some x)
        then have "skip_whitespace t = CHR ''}'' # r" using v ct object by (auto simp: consume_Some)
        then show ?thesis
          unfolding value_cut_def using object w' value_text_members_text_elements_text.empty_object [OF ct(2) w'(2)]
          by (intro exI [of _ "''{'' @ w' @ ''}''"]) simp
      qed
    next
      case array
      show ?thesis
      proof (cases "consume (CHR '']'') (skip_whitespace t)")
        case None
        then have "elements_cut (Suc d) (skip_whitespace t) r" using v ct array by (intro IHe) simp
        then obtain u where "skip_whitespace t = u @ CHR '']'' # r" "elements_text (Suc d) u" by (auto simp: elements_cut_def)
        then show ?thesis
          unfolding value_cut_def using array w' value_text_members_text_elements_text.array [OF ct(2) w'(2), of u]
          by (intro exI [of _ "''['' @ w' @ u @ '']''"]) simp
      next
        case (Some x)
        then have "skip_whitespace t = CHR '']'' # r" using v ct array by (auto simp: consume_Some)
        then show ?thesis
          unfolding value_cut_def using array w' value_text_members_text_elements_text.empty_array [OF ct(2) w'(2)]
          by (intro exI [of _ "''['' @ w' @ '']''"]) simp
      qed
    next
      case other
      then consider "parse_string (c # t) = Inr r" | l where "l \<in> {''true'', ''false'', ''null''}" "parse_literal l (c # t) = Inr r"
        | "parse_number (c # t) = Inr r"
        using v ct by (auto split: if_splits)
      then show ?thesis
        unfolding value_cut_def
        using parse_string_sound [of "c # t" r] parse_number_sound [of "c # t" r] parse_literal_sound [of _ "c # t" r] ct(2)
        by cases (blast intro: value_text_members_text_elements_text.intros)+
    qed
  qed
  then obtain u where "c # t = u @ r" "value_text d u" by (auto simp: value_cut_def)
  then show ?thesis unfolding value_cut_def using w value_spaces [OF w(2)] by (intro exI [of _ "w @ u"]) simp
qed

lemma parse_sound:
  "(parse_value n d s = Some (Inr r) \<longrightarrow> value_cut d s r) \<and>
   (parse_members n d s = Some (Inr r) \<longrightarrow> members_cut d s r) \<and>
   (parse_elements n d s = Some (Inr r) \<longrightarrow> elements_cut d s r)"
proof (induction n arbitrary: d s r)
  case (Suc n)
  note IHv = Suc.IH [THEN conjunct1, rule_format]
  note IHm = Suc.IH [THEN conjunct2, THEN conjunct1, rule_format]
  note IHe = Suc.IH [THEN conjunct2, THEN conjunct2, rule_format]
  have "value_cut d s r" if "parse_value (Suc n) d s = Some (Inr r)" using that IHm IHe by (rule value_step_sound)
  moreover have "members_cut d s r" if m: "parse_members (Suc n) d s = Some (Inr r)"
  proof -
    obtain r0 r1 r2 where r: "parse_string s = Inr r0" "consume (CHR '':'') (skip_whitespace r0) = Some r1"
        "parse_value n d r1 = Some (Inr r2)"
      and last: "consume (CHR ''}'') (skip_whitespace r2) = Some r \<or>
        (\<exists>r3. consume (CHR '','') (skip_whitespace r2) = Some r3 \<and> parse_members n d (skip_whitespace r3) = Some (Inr r))"
      using m by (auto split: sum.splits option.splits)
    obtain k where k: "s = k @ r0" "string_text k" using parse_string_sound [OF r(1)] by blast
    obtain w where w: "r0 = w @ CHR '':'' # r1" "spaces w" using skip_consume_sound [OF r(2)] by blast
    obtain v where v: "r1 = v @ r2" "value_text d v" using IHv [OF r(3)] by (auto simp: value_cut_def)
    from last show ?thesis
    proof
      assume "consume (CHR ''}'') (skip_whitespace r2) = Some r"
      then obtain w' where "r2 = w' @ CHR ''}'' # r" "spaces w'" using skip_consume_sound by blast
      then show ?thesis unfolding members_cut_def
        using k w v member [OF k(2) w(2) v(2), of w'] by (intro exI [of _ "k @ w @ '':'' @ v @ w'"]) simp
    next
      assume "\<exists>r3. consume (CHR '','') (skip_whitespace r2) = Some r3 \<and> parse_members n d (skip_whitespace r3) = Some (Inr r)"
      then obtain r3 where r3: "consume (CHR '','') (skip_whitespace r2) = Some r3" "parse_members n d (skip_whitespace r3) = Some (Inr r)"
        by blast
      obtain w' where w': "r2 = w' @ CHR '','' # r3" "spaces w'" using skip_consume_sound [OF r3(1)] by blast
      obtain w'' where w'': "r3 = w'' @ skip_whitespace r3" "spaces w''" using skip_split by blast
      obtain t where t: "skip_whitespace r3 = t @ CHR ''}'' # r" "members_text d t" using IHm [OF r3(2)] by (auto simp: members_cut_def)
      have "r3 = w'' @ t @ CHR ''}'' # r" using w''(1) t(1) by simp
      then show ?thesis unfolding members_cut_def
        using k w v w' members [OF k(2) w(2) v(2) w'(2) w''(2) t(2)]
        by (intro exI [of _ "k @ w @ '':'' @ v @ w' @ '','' @ w'' @ t"]) simp
    qed
  qed
  moreover have "elements_cut d s r" if e: "parse_elements (Suc n) d s = Some (Inr r)"
  proof -
    obtain r2 where r: "parse_value n d s = Some (Inr r2)"
      and last: "consume (CHR '']'') (skip_whitespace r2) = Some r \<or>
        (\<exists>r3. consume (CHR '','') (skip_whitespace r2) = Some r3 \<and> parse_elements n d (skip_whitespace r3) = Some (Inr r))"
      using e by (auto split: sum.splits option.splits)
    obtain v where v: "s = v @ r2" "value_text d v" using IHv [OF r] by (auto simp: value_cut_def)
    from last show ?thesis
    proof
      assume "consume (CHR '']'') (skip_whitespace r2) = Some r"
      then obtain w' where "r2 = w' @ CHR '']'' # r" "spaces w'" using skip_consume_sound by blast
      then show ?thesis unfolding elements_cut_def
        using v element [OF v(2), of w'] by (intro exI [of _ "v @ w'"]) simp
    next
      assume "\<exists>r3. consume (CHR '','') (skip_whitespace r2) = Some r3 \<and> parse_elements n d (skip_whitespace r3) = Some (Inr r)"
      then obtain r3 where r3: "consume (CHR '','') (skip_whitespace r2) = Some r3" "parse_elements n d (skip_whitespace r3) = Some (Inr r)"
        by blast
      obtain w' where w': "r2 = w' @ CHR '','' # r3" "spaces w'" using skip_consume_sound [OF r3(1)] by blast
      obtain w'' where w'': "r3 = w'' @ skip_whitespace r3" "spaces w''" using skip_split by blast
      obtain t where t: "skip_whitespace r3 = t @ CHR '']'' # r" "elements_text d t" using IHe [OF r3(2)] by (auto simp: elements_cut_def)
      have "r3 = w'' @ t @ CHR '']'' # r" using w''(1) t(1) by simp
      then show ?thesis unfolding elements_cut_def
        using v w' elements [OF v(2) w'(2) w''(2) t(2)]
        by (intro exI [of _ "v @ w' @ '','' @ w'' @ t"]) simp
    qed
  qed
  ultimately show ?case by blast
qed simp


text \<open>C20: the validator accepts only texts of the JSON grammar, with a nesting limit; the other direction is not claimed.\<close>

theorem valid_texts_are_json:
  assumes "is_valid_value s"
  shows "json_text s"
proof -
  obtain r where r: "parse_value (parse_fuel s) 0 (skip_whitespace s) = Some (Inr r)" "skip_whitespace r = []"
    using assms by (auto simp: is_valid_value_def json_error_def split: option.splits sum.splits if_splits)
  obtain u where u: "skip_whitespace s = u @ r" "value_text 0 u"
    using parse_sound [of "parse_fuel s" 0 "skip_whitespace s" r] r(1) by (auto simp: value_cut_def)
  obtain w where w: "s = w @ skip_whitespace s" "spaces w" using skip_split by blast
  have "spaces r" using skip_split [of r] r(2) by auto
  then show ?thesis
    unfolding json_text_def using w u value_spaces [OF w(2) u(2)] by (intro exI [of _ "w @ u"] exI [of _ r]) simp
qed

theorem valid_texts_are_json_witness: "json_text (json_string [CHR 0x0A, CHR 0xC3])"
  using valid_texts_are_json [OF rendered_valid [of "JString [CHR 0x0A, CHR 0xC3]"]] by simp

end
