(* ===== verification/Conversation.thy ===== *)
theory Conversation
  imports Prelude "HOL-Library.Sublist"
begin

text \<open>
  \<open>cockpit/voice/conversation/conversation_state_machine\<close>: the states of one voice interaction, the events
  that move it, and the counters of accepted and rejected events. \<open>std::optional\<close> is \<open>option\<close>; the counters
  are 64-bit words.
\<close>

section \<open>States, events and the machine\<close>

datatype interaction_state = CvDisabled | CvIdle | CvWaking | CvListening | CvRecognizing | CvRouting
  | CvExecuting | CvThinking | CvSpeaking | CvFollowUp | CvCancelled | CvErrorRecovery | CvShuttingDown

datatype conversation_event = EvEnabled | EvWakeWordDetected | EvWakePromptCompleted | EvSpeechSegmentReady
  | EvTranscriptReady | EvActionSelected | EvOpenRequestSelected | EvResponseReady | EvPlaybackCompleted
  | EvRequestCompleted | EvFollowUpExpired | EvCancelRequested | EvFailure | EvRecoveryCompleted
  | EvShutdownRequested

record conversation =
  cv_state :: interaction_state
  cv_accepted :: u64
  cv_rejected :: u64
  cv_last_reason :: string

fun is_active :: "interaction_state \<Rightarrow> bool" where
  "is_active CvWaking = True"
| "is_active CvListening = True"
| "is_active CvRecognizing = True"
| "is_active CvRouting = True"
| "is_active CvExecuting = True"
| "is_active CvThinking = True"
| "is_active CvSpeaking = True"
| "is_active CvFollowUp = True"
| "is_active CvDisabled = False"
| "is_active CvIdle = False"
| "is_active CvCancelled = False"
| "is_active CvErrorRecovery = False"
| "is_active CvShuttingDown = False"

definition is_recovery_target :: "interaction_state \<Rightarrow> bool" where
  "is_recovery_target s \<longleftrightarrow> s = CvCancelled \<or> s = CvErrorRecovery \<or> s = CvShuttingDown"

fun next_state :: "interaction_state \<Rightarrow> conversation_event \<Rightarrow> interaction_state option" where
  "next_state s EvEnabled = (if s = CvDisabled then Some CvIdle else None)"
| "next_state s EvWakeWordDetected = (if s = CvIdle \<or> s = CvFollowUp then Some CvWaking else None)"
| "next_state s EvWakePromptCompleted = (if s = CvWaking then Some CvListening else None)"
| "next_state s EvSpeechSegmentReady =
     (if s = CvIdle \<or> s = CvListening \<or> s = CvFollowUp then Some CvRecognizing else None)"
| "next_state s EvTranscriptReady = (if s = CvRecognizing then Some CvRouting else None)"
| "next_state s EvActionSelected = (if s = CvRouting then Some CvExecuting else None)"
| "next_state s EvOpenRequestSelected = (if s = CvRouting then Some CvThinking else None)"
| "next_state s EvResponseReady =
     (if s = CvRouting \<or> s = CvExecuting \<or> s = CvThinking then Some CvSpeaking else None)"
| "next_state s EvPlaybackCompleted = (if s = CvSpeaking then Some CvFollowUp else None)"
| "next_state s EvRequestCompleted =
     (if s = CvRouting \<or> s = CvExecuting \<or> s = CvThinking \<or> s = CvSpeaking then Some CvIdle else None)"
| "next_state s EvFollowUpExpired = (if s = CvFollowUp then Some CvIdle else None)"
| "next_state s EvCancelRequested = (if is_active s then Some CvCancelled else None)"
| "next_state s EvFailure = (if is_active s then Some CvErrorRecovery else None)"
| "next_state s EvRecoveryCompleted = (if s = CvCancelled \<or> s = CvErrorRecovery then Some CvIdle else None)"
| "next_state s EvShutdownRequested = (if s \<noteq> CvShuttingDown then Some CvShuttingDown else None)"

definition is_transition_allowed :: "interaction_state \<Rightarrow> interaction_state \<Rightarrow> bool" where
  "is_transition_allowed from' to =
     (if from' = to \<or> from' = CvShuttingDown then False
      else if to = CvShuttingDown then True
      else if is_active from' \<and> is_recovery_target to then True
      else case from' of
        CvDisabled \<Rightarrow> to = CvIdle
      | CvIdle \<Rightarrow> to = CvWaking \<or> to = CvListening \<or> to = CvRecognizing
      | CvWaking \<Rightarrow> to = CvListening
      | CvListening \<Rightarrow> to = CvRecognizing \<or> to = CvIdle
      | CvRecognizing \<Rightarrow> to = CvRouting
      | CvRouting \<Rightarrow> to = CvExecuting \<or> to = CvThinking \<or> to = CvSpeaking \<or> to = CvIdle
      | CvExecuting \<Rightarrow> to = CvSpeaking \<or> to = CvFollowUp \<or> to = CvIdle
      | CvThinking \<Rightarrow> to = CvSpeaking \<or> to = CvFollowUp \<or> to = CvIdle
      | CvSpeaking \<Rightarrow> to = CvFollowUp \<or> to = CvIdle
      | CvFollowUp \<Rightarrow> to = CvWaking \<or> to = CvListening \<or> to = CvRecognizing \<or> to = CvIdle
      | CvCancelled \<Rightarrow> to = CvIdle
      | CvErrorRecovery \<Rightarrow> to = CvIdle
      | CvShuttingDown \<Rightarrow> False)"

definition conversation_new :: "bool \<Rightarrow> conversation" where
  "conversation_new enabled = \<lparr> cv_state = (if enabled then CvIdle else CvDisabled), cv_accepted = 0, cv_rejected = 0,
     cv_last_reason = (if enabled then ''voice interaction initialized'' else ''voice interaction disabled'') \<rparr>"

definition handle_event :: "conversation \<Rightarrow> conversation_event \<Rightarrow> string \<Rightarrow> bool \<times> conversation" where
  "handle_event c e reason =
     (case next_state (cv_state c) e of
        None \<Rightarrow> (False, c\<lparr>cv_rejected := cv_rejected c + 1\<rparr>)
      | Some s \<Rightarrow>
          if \<not> is_transition_allowed (cv_state c) s then (False, c\<lparr>cv_rejected := cv_rejected c + 1\<rparr>)
          else (True, c\<lparr>cv_state := s, cv_last_reason := reason, cv_accepted := cv_accepted c + 1\<rparr>))"

fun state_name :: "interaction_state \<Rightarrow> string" where
  "state_name CvDisabled = ''disabled''"
| "state_name CvIdle = ''idle''"
| "state_name CvWaking = ''waking''"
| "state_name CvListening = ''listening''"
| "state_name CvRecognizing = ''recognizing''"
| "state_name CvRouting = ''routing''"
| "state_name CvExecuting = ''executing''"
| "state_name CvThinking = ''thinking''"
| "state_name CvSpeaking = ''speaking''"
| "state_name CvFollowUp = ''follow_up''"
| "state_name CvCancelled = ''cancelled''"
| "state_name CvErrorRecovery = ''error_recovery''"
| "state_name CvShuttingDown = ''shutting_down''"

fun event_name :: "conversation_event \<Rightarrow> string" where
  "event_name EvEnabled = ''enabled''"
| "event_name EvWakeWordDetected = ''wake_word_detected''"
| "event_name EvWakePromptCompleted = ''wake_prompt_completed''"
| "event_name EvSpeechSegmentReady = ''speech_segment_ready''"
| "event_name EvTranscriptReady = ''transcript_ready''"
| "event_name EvActionSelected = ''action_selected''"
| "event_name EvOpenRequestSelected = ''open_request_selected''"
| "event_name EvResponseReady = ''response_ready''"
| "event_name EvPlaybackCompleted = ''playback_completed''"
| "event_name EvRequestCompleted = ''request_completed''"
| "event_name EvFollowUpExpired = ''follow_up_expired''"
| "event_name EvCancelRequested = ''cancel_requested''"
| "event_name EvFailure = ''failure''"
| "event_name EvRecoveryCompleted = ''recovery_completed''"
| "event_name EvShutdownRequested = ''shutdown_requested''"

section \<open>One step\<close>

text \<open>The table of allowed transitions never refuses what the events ask for.\<close>

lemma next_state_allowed: "next_state s e = Some t \<Longrightarrow> is_transition_allowed s t"
  by (cases e; cases s) (auto simp: is_transition_allowed_def is_recovery_target_def split: if_splits)

lemma handle_event_cases:
  obtains (accepted) s where "next_state (cv_state c) e = Some s"
      "handle_event c e r = (True, c\<lparr>cv_state := s, cv_last_reason := r, cv_accepted := cv_accepted c + 1\<rparr>)"
  | (rejected) "next_state (cv_state c) e = None" "handle_event c e r = (False, c\<lparr>cv_rejected := cv_rejected c + 1\<rparr>)"
  by (cases "next_state (cv_state c) e") (auto simp: handle_event_def next_state_allowed)

lemma next_state_distinct [simp]: "next_state s e = Some t \<Longrightarrow> t \<noteq> s"
  using next_state_allowed [of s e t] by (auto simp: is_transition_allowed_def)

section \<open>Histories\<close>

text \<open>A run over events with their reasons; the accepted events, in order.\<close>

fun handle_all :: "conversation \<Rightarrow> (conversation_event \<times> string) list \<Rightarrow> conversation" where
  "handle_all c [] = c"
| "handle_all c ((e, r) # es) = handle_all (snd (handle_event c e r)) es"

fun accepted_events :: "conversation \<Rightarrow> (conversation_event \<times> string) list \<Rightarrow> conversation_event list" where
  "accepted_events c [] = []"
| "accepted_events c ((e, r) # es) =
     (if fst (handle_event c e r) then [e] else []) @ accepted_events (snd (handle_event c e r)) es"

lemma handle_all_snoc: "handle_all c (es @ [(e, r)]) = snd (handle_event (handle_all c es) e r)"
  by (induction c es rule: handle_all.induct) auto

lemma accepted_events_snoc:
  "accepted_events c (es @ [(e, r)]) = accepted_events c es @ (if fst (handle_event (handle_all c es) e r) then [e] else [])"
  by (induction c es rule: handle_all.induct) auto

text \<open>What the accepted events say about the state: the turns of speech that lead to each state.\<close>

definition routed :: "conversation_event list" where
  "routed = [EvSpeechSegmentReady, EvTranscriptReady]"

text \<open>What the router may have decided: an action, an open request, or nothing but an immediate end or answer.\<close>

definition decisions :: "conversation_event list list" where
  "decisions = [[], [EvActionSelected], [EvOpenRequestSelected]]"

fun led_to :: "interaction_state \<Rightarrow> conversation_event list \<Rightarrow> bool" where
  "led_to CvDisabled es = (es = [])"
| "led_to CvIdle es = (es = [] \<or> es = [EvEnabled] \<or>
     (\<exists>d \<in> set decisions. suffix (routed @ d @ [EvRequestCompleted]) es \<or>
        suffix (routed @ d @ [EvResponseReady, EvRequestCompleted]) es \<or>
        suffix (routed @ d @ [EvResponseReady, EvPlaybackCompleted, EvFollowUpExpired]) es) \<or>
     suffix [EvCancelRequested, EvRecoveryCompleted] es \<or> suffix [EvFailure, EvRecoveryCompleted] es)"
| "led_to CvWaking es = suffix [EvWakeWordDetected] es"
| "led_to CvListening es = suffix [EvWakeWordDetected, EvWakePromptCompleted] es"
| "led_to CvRecognizing es = suffix [EvSpeechSegmentReady] es"
| "led_to CvRouting es = suffix routed es"
| "led_to CvExecuting es = suffix (routed @ [EvActionSelected]) es"
| "led_to CvThinking es = suffix (routed @ [EvOpenRequestSelected]) es"
| "led_to CvSpeaking es = (\<exists>d \<in> set decisions. suffix (routed @ d @ [EvResponseReady]) es)"
| "led_to CvFollowUp es =
     (\<exists>d \<in> set decisions. suffix (routed @ d @ [EvResponseReady, EvPlaybackCompleted]) es)"
| "led_to CvCancelled es = suffix [EvCancelRequested] es"
| "led_to CvErrorRecovery es = suffix [EvFailure] es"
| "led_to CvShuttingDown es = suffix [EvShutdownRequested] es"

lemma suffix_snoc_append: "suffix xs es \<Longrightarrow> suffix (xs @ [e]) (es @ [e])"
  by (auto simp: suffix_def)

lemma led_to_step:
  assumes "led_to s es" "next_state s e = Some t"
  shows "led_to t (es @ [e])"
  using assms suffix_snoc_append [of _ es e]
  by (cases e; cases s) (auto simp: routed_def decisions_def split: if_splits)

lemma led_to_history: "led_to (cv_state (handle_all (conversation_new b) es)) (accepted_events (conversation_new b) es)"
proof (induction es rule: rev_induct)
  case (snoc x es)
  obtain e r where x: "x = (e, r)" by (cases x)
  let ?c = "handle_all (conversation_new b) es"
  show ?case
  proof (rule handle_event_cases [of ?c e r])
    fix s
    assume "next_state (cv_state ?c) e = Some s"
      "handle_event ?c e r = (True, ?c\<lparr>cv_state := s, cv_last_reason := r, cv_accepted := cv_accepted ?c + 1\<rparr>)"
    then show ?thesis
      using led_to_step [OF snoc] by (simp add: x handle_all_snoc accepted_events_snoc)
  next
    assume "handle_event ?c e r = (False, ?c\<lparr>cv_rejected := cv_rejected ?c + 1\<rparr>)"
    then show ?thesis using snoc by (simp add: x handle_all_snoc accepted_events_snoc)
  qed
qed (simp add: conversation_new_def)

lemma counted:
  "cv_accepted (handle_all c es) = cv_accepted c + of_nat (length (accepted_events c es)) \<and>
   cv_rejected (handle_all c es) = cv_rejected c + of_nat (length es - length (accepted_events c es)) \<and>
   length (accepted_events c es) \<le> length es"
proof (induction c es rule: handle_all.induct)
  case (2 c e r es)
  then show ?case by (rule_tac handle_event_cases [of c e r]) (auto simp: Suc_diff_le)
qed simp

lemma shut_down_stays: "cv_state c = CvShuttingDown \<Longrightarrow> cv_state (handle_all c es) = CvShuttingDown"
proof (induction c es rule: handle_all.induct)
  case (2 c e r es)
  have "next_state CvShuttingDown e = None" by (cases e) simp_all
  then show ?case using 2 by (simp add: handle_event_def)
qed simp

section \<open>Properties\<close>

text \<open>
  C21: the machine acts, thinks and speaks only in answer to speech: whatever events arrive, in whatever order,
  the accepted ones end as the state says. It executes an action only right after a speech segment, its transcript
  and the choice of the action, and thinks only right after a segment, its transcript and the choice of an open
  request. It speaks, or waits for a follow-up, only after a segment, its transcript, at most one of these two
  choices and the response: the code also takes a response right after the transcript, with no choice between.
  It is idle only at the start, after enabling, after such a turn ended, or after a recovery from a
  cancellation or a failure; and it is cancelled or recovering right after that event only.
\<close>

theorem answers_follow_speech:
  "led_to (cv_state (handle_all (conversation_new b) es)) (accepted_events (conversation_new b) es)"
  by (rule led_to_history)

text \<open>
  An event is accepted exactly when it changes the state as the transition of the event says; a rejected one
  changes nothing but its counter. The second check of the code never fires.
\<close>

lemma handle_event_outcome:
  "handle_event c e r =
     (case next_state (cv_state c) e of
        None \<Rightarrow> (False, c\<lparr>cv_rejected := cv_rejected c + 1\<rparr>)
      | Some s \<Rightarrow> (True, c\<lparr>cv_state := s, cv_last_reason := r, cv_accepted := cv_accepted c + 1\<rparr>))"
  by (rule handle_event_cases [of c e r]) simp_all

text \<open>
  No state is stuck: from every state but a shutdown at most two events lead to idle, and a shutdown is
  accepted from every other state and never left.
\<close>

theorem conversation_recovers:
  "(cv_state c \<noteq> CvShuttingDown \<longrightarrow>
      (\<exists>es. length es \<le> 2 \<and> cv_state (handle_all c es) = CvIdle) \<and> fst (handle_event c EvShutdownRequested r)) \<and>
   cv_state (handle_all (snd (handle_event c EvShutdownRequested r)) es) = CvShuttingDown"
proof -
  have sd: "cv_state (snd (handle_event c EvShutdownRequested r)) = CvShuttingDown"
    by (rule handle_event_cases [of c EvShutdownRequested r]) (auto split: if_splits)
  have go: "cv_state (handle_all c [(e, r)]) = s" if "next_state (cv_state c) e = Some s" for e s
    using that by (rule_tac handle_event_cases [of c e r]) simp_all
  have go2: "cv_state (handle_all c [(EvCancelRequested, r), (EvRecoveryCompleted, r)]) = CvIdle" if "is_active (cv_state c)"
    using that by (simp add: handle_event_def is_transition_allowed_def is_recovery_target_def) (auto simp: handle_event_def is_transition_allowed_def)
  have "\<exists>es. length es \<le> 2 \<and> cv_state (handle_all c es) = CvIdle" if running: "cv_state c \<noteq> CvShuttingDown"
  proof (cases "is_active (cv_state c)")
    case True
    then show ?thesis using go2 by (intro exI [of _ "[(EvCancelRequested, r), (EvRecoveryCompleted, r)]"]) simp
  next
    case False
    then consider "cv_state c = CvIdle" | "next_state (cv_state c) EvEnabled = Some CvIdle"
      | "next_state (cv_state c) EvRecoveryCompleted = Some CvIdle"
      using running by (cases "cv_state c") auto
    then show ?thesis
    proof cases
      case 1
      then show ?thesis by (intro exI [of _ "[]"]) simp
    next
      case 2
      then show ?thesis by (intro exI [of _ "[(EvEnabled, r)]"] conjI go) simp
    next
      case 3
      then show ?thesis by (intro exI [of _ "[(EvRecoveryCompleted, r)]"] conjI go) simp
    qed
  qed
  moreover have "fst (handle_event c EvShutdownRequested r)" if "cv_state c \<noteq> CvShuttingDown"
    using that by (rule_tac handle_event_cases [of c EvShutdownRequested r]) simp_all
  ultimately show ?thesis using shut_down_stays [OF sd] by blast
qed

theorem conversation_recovers_witness:
  "cv_state (handle_all (snd (handle_event (conversation_new True) EvShutdownRequested [])) [(EvEnabled, [])]) = CvShuttingDown"
  using conversation_recovers [of "conversation_new True" "[]" "[(EvEnabled, [])]"] by blast

end
