(* ===== verification/Event_Queue.thy ===== *)
theory Event_Queue
  imports Prelude "HOL-Library.Multiset"
begin

text \<open>
  \<open>cockpit/exchange/foundation/event/event_queue.h\<close>: the bounded queue between threads. Each method holds the
  queue's mutex from its first access to its last, so it is one atomic operation on the state; \<open>WaitPop\<close> blocks
  (result \<open>None\<close>) until the queue is closed or has an event. The laws that users of a queue rely on are
  the locale \<open>channel\<close>, interpreted on the model of the class.
\<close>

section \<open>The queue\<close>

datatype push_result = PrAccepted | PrClosed | PrFull

record 'e event_queue =
  eq_capacity :: nat
  eq_events :: "'e list"
  eq_closed :: bool
  eq_drop_count :: u64

definition queue_new :: "nat \<Rightarrow> 'e event_queue" where
  "queue_new capacity = \<lparr> eq_capacity = capacity, eq_events = [], eq_closed = False, eq_drop_count = 0 \<rparr>"

definition queue_push :: "'e event_queue \<Rightarrow> 'e \<Rightarrow> push_result \<times> 'e event_queue" where
  "queue_push q e =
     (if eq_closed q then (PrClosed, q)
      else if eq_capacity q = 0 \<or> length (eq_events q) \<ge> eq_capacity q then
        (PrFull, q\<lparr>eq_drop_count := eq_drop_count q + 1\<rparr>)
      else (PrAccepted, q\<lparr>eq_events := eq_events q @ [e]\<rparr>))"

definition queue_pop :: "'e event_queue \<Rightarrow> 'e option \<times> 'e event_queue" where
  "queue_pop q = (case eq_events q of [] \<Rightarrow> (None, q) | e # es \<Rightarrow> (Some e, q\<lparr>eq_events := es\<rparr>))"

definition queue_ready :: "'e event_queue \<Rightarrow> bool" where
  "queue_ready q \<longleftrightarrow> eq_closed q \<or> eq_events q \<noteq> []"

definition queue_wait_pop :: "'e event_queue \<Rightarrow> ('e option \<times> 'e event_queue) option" where
  "queue_wait_pop q = (if queue_ready q then Some (queue_pop q) else None)"

text \<open>\<open>WaitPopFor\<close> returns when the queue is ready or at its deadline, and pops in both cases.\<close>

definition queue_wait_pop_for :: "bool \<Rightarrow> 'e event_queue \<Rightarrow> ('e option \<times> 'e event_queue) option" where
  "queue_wait_pop_for deadline_passed q = (if queue_ready q \<or> deadline_passed then Some (queue_pop q) else None)"

definition queue_close :: "'e event_queue \<Rightarrow> 'e event_queue" where
  "queue_close q = q\<lparr>eq_closed := True\<rparr>"

definition queue_discard_pending :: "'e event_queue \<Rightarrow> nat \<times> 'e event_queue" where
  "queue_discard_pending q = (let discarded = length (eq_events q) in
     (discarded, q\<lparr>eq_events := [], eq_drop_count := eq_drop_count q + of_nat discarded\<rparr>))"

definition queue_reset :: "'e event_queue \<Rightarrow> 'e event_queue" where
  "queue_reset q = q\<lparr>eq_events := [], eq_closed := False, eq_drop_count := 0\<rparr>"

definition queue_size :: "'e event_queue \<Rightarrow> nat" where
  "queue_size q = length (eq_events q)"

section \<open>The interface of a channel\<close>

datatype 'e channel_op = ChPush 'e | ChPop | ChDiscard | ChClose | ChReset

text \<open>What a history of operations accepted, handed out and threw away, in order.\<close>

record ('e, 'q) channel_history =
  ch_queue :: 'q
  ch_accepted :: "'e list"
  ch_popped :: "'e list"
  ch_discarded :: "'e list"

definition channel_start :: "'q \<Rightarrow> ('e, 'q) channel_history" where
  "channel_start q = \<lparr> ch_queue = q, ch_accepted = [], ch_popped = [], ch_discarded = [] \<rparr>"

fun channel_step ::
  "('q \<Rightarrow> 'e list) \<Rightarrow> ('q \<Rightarrow> 'e \<Rightarrow> bool \<times> 'q) \<Rightarrow> ('q \<Rightarrow> 'e option \<times> 'q) \<Rightarrow> ('q \<Rightarrow> 'q) \<Rightarrow> ('q \<Rightarrow> 'q) \<Rightarrow> ('q \<Rightarrow> 'q) \<Rightarrow>
     ('e, 'q) channel_history \<Rightarrow> 'e channel_op \<Rightarrow> ('e, 'q) channel_history" where
  "channel_step contents push pop discard close reset h (ChPush e) =
     (case push (ch_queue h) e of (ok, q) \<Rightarrow> h\<lparr>ch_queue := q, ch_accepted := ch_accepted h @ (if ok then [e] else [])\<rparr>)"
| "channel_step contents push pop discard close reset h ChPop =
     (case pop (ch_queue h) of (x, q) \<Rightarrow>
        h\<lparr>ch_queue := q, ch_popped := ch_popped h @ (case x of None \<Rightarrow> [] | Some e \<Rightarrow> [e])\<rparr>)"
| "channel_step contents push pop discard close reset h ChDiscard =
     h\<lparr>ch_queue := discard (ch_queue h), ch_discarded := ch_discarded h @ contents (ch_queue h)\<rparr>"
| "channel_step contents push pop discard close reset h ChClose = h\<lparr>ch_queue := close (ch_queue h)\<rparr>"
| "channel_step contents push pop discard close reset h ChReset =
     h\<lparr>ch_queue := reset (ch_queue h), ch_discarded := ch_discarded h @ contents (ch_queue h)\<rparr>"

lemma append_shuffles: "ds @ ys \<in> shuffles ys ds"
proof (induction ds)
  case (Cons d ds)
  then show ?case using Cons_in_shuffles_rightI [OF Cons, of d] by simp
qed simp

lemma shuffles_append_left: "xs \<in> shuffles ps ds \<Longrightarrow> xs @ ys \<in> shuffles (ps @ ys) ds"
  by (induction ps ds arbitrary: xs rule: shuffles.induct)
    (auto simp: append_shuffles intro: Cons_in_shuffles_leftI Cons_in_shuffles_rightI)

lemma shuffles_append_right: "xs \<in> shuffles ps ds \<Longrightarrow> xs @ ys \<in> shuffles ps (ds @ ys)"
  using shuffles_append_left [of xs ds ps ys] by (simp add: shuffles_commutes)

locale channel =
  fixes contents :: "'q \<Rightarrow> 'e list"
    and push :: "'q \<Rightarrow> 'e \<Rightarrow> bool \<times> 'q"
    and pop :: "'q \<Rightarrow> 'e option \<times> 'q"
    and discard :: "'q \<Rightarrow> 'q"
    and close :: "'q \<Rightarrow> 'q"
    and reset :: "'q \<Rightarrow> 'q"
  assumes push_accepted: "push q e = (True, q') \<Longrightarrow> contents q' = contents q @ [e]"
    and push_refused: "push q e = (False, q') \<Longrightarrow> contents q' = contents q"
    and pop_empty: "contents q = [] \<Longrightarrow> pop q = (x, q') \<Longrightarrow> x = None \<and> contents q' = []"
    and pop_first: "contents q = e # es \<Longrightarrow> pop q = (x, q') \<Longrightarrow> x = Some e \<and> contents q' = es"
    and discard_empty: "contents (discard q) = []"
    and close_keeps: "contents (close q) = contents q"
    and reset_empty: "contents (reset q) = []"
begin

text \<open>The events still waiting are the end of what was accepted; what was consumed before is a merge, in order,
  of what was handed out and what was thrown away.\<close>

definition in_order :: "('e, 'q) channel_history \<Rightarrow> bool" where
  "in_order h \<longleftrightarrow> (\<exists>consumed. ch_accepted h = consumed @ contents (ch_queue h) \<and>
     consumed \<in> shuffles (ch_popped h) (ch_discarded h))"

lemma step_in_order:
  assumes h: "in_order h"
  shows "in_order (channel_step contents push pop discard close reset h c)"
proof -
  obtain xs where xs: "ch_accepted h = xs @ contents (ch_queue h)" "xs \<in> shuffles (ch_popped h) (ch_discarded h)"
    using h by (auto simp: in_order_def)
  show ?thesis
  proof (cases c)
    case (ChPush e)
    obtain ok q where "push (ch_queue h) e = (ok, q)" by force
    then show ?thesis
      using ChPush xs push_accepted push_refused by (cases ok) (auto simp: in_order_def)
  next
    case ChPop
    obtain x q where p: "pop (ch_queue h) = (x, q)" by force
    show ?thesis
    proof (cases "contents (ch_queue h)")
      case Nil
      then show ?thesis using ChPop xs p pop_empty [OF Nil p] by (auto simp: in_order_def)
    next
      case (Cons e es)
      then show ?thesis using ChPop xs p pop_first [OF Cons p] shuffles_append_left [OF xs(2), of "[e]"]
        by (auto simp: in_order_def)
    qed
  next
    case ChDiscard
    then show ?thesis using xs shuffles_append_right [OF xs(2)] by (auto simp: in_order_def discard_empty)
  next
    case ChReset
    then show ?thesis using xs shuffles_append_right [OF xs(2)] by (auto simp: in_order_def reset_empty)
  qed (use xs in \<open>auto simp: in_order_def close_keeps\<close>)
qed

lemma run_in_order:
  assumes "contents q = []"
  shows "in_order (foldl (channel_step contents push pop discard close reset) (channel_start q) cs)"
proof (induction cs rule: rev_induct)
  case (snoc c cs)
  then show ?case by (simp add: step_in_order)
qed (use assms in \<open>simp add: in_order_def channel_start_def\<close>)

lemma nothing_invented:
  assumes "contents q = []" "h = foldl (channel_step contents push pop discard close reset) (channel_start q) cs"
  shows "mset (ch_accepted h) = mset (ch_popped h) + mset (ch_discarded h) + mset (contents (ch_queue h))"
  using run_in_order [OF assms(1), of cs] assms(2) by (auto simp: in_order_def dest: mset_shuffles)

end

section \<open>The queue is a channel\<close>

definition push_ok :: "'e event_queue \<Rightarrow> 'e \<Rightarrow> bool \<times> 'e event_queue" where
  "push_ok q e = (case queue_push q e of (r, q') \<Rightarrow> (r = PrAccepted, q'))"

lemma queue_push_cases:
  obtains (closed) "eq_closed q" "queue_push q e = (PrClosed, q)"
  | (full) "\<not> eq_closed q" "eq_capacity q \<le> length (eq_events q)"
      "queue_push q e = (PrFull, q\<lparr>eq_drop_count := eq_drop_count q + 1\<rparr>)"
  | (accepted) "\<not> eq_closed q" "length (eq_events q) < eq_capacity q"
      "queue_push q e = (PrAccepted, q\<lparr>eq_events := eq_events q @ [e]\<rparr>)"
proof -
  consider "eq_closed q" | "\<not> eq_closed q" "eq_capacity q \<le> length (eq_events q)"
    | "\<not> eq_closed q" "length (eq_events q) < eq_capacity q" by linarith
  then show thesis
    by cases (auto simp: queue_push_def intro: that)
qed

interpretation queue: channel eq_events push_ok queue_pop "\<lambda>q. snd (queue_discard_pending q)" queue_close queue_reset
proof
  show "eq_events q' = eq_events q @ [e]" if "push_ok q e = (True, q')" for q q' :: "'a event_queue" and e
    using that by (rule_tac queue_push_cases [of q e]) (auto simp: push_ok_def)
  show "eq_events q' = eq_events q" if "push_ok q e = (False, q')" for q q' :: "'a event_queue" and e
    using that by (rule_tac queue_push_cases [of q e]) (auto simp: push_ok_def)
qed (auto simp: queue_pop_def queue_discard_pending_def queue_close_def queue_reset_def Let_def split: if_splits)

definition within_capacity :: "'e event_queue \<Rightarrow> bool" where
  "within_capacity q \<longleftrightarrow> length (eq_events q) \<le> eq_capacity q"

lemma within_capacity_new [simp]: "within_capacity (queue_new n)"
  by (simp add: within_capacity_def queue_new_def)

lemma within_capacity_steps [intro]:
  assumes "within_capacity q"
  shows "within_capacity (snd (queue_push q e))" "within_capacity (snd (queue_pop q))"
    "within_capacity (snd (queue_discard_pending q))" "within_capacity (queue_close q)" "within_capacity (queue_reset q)"
proof -
  show "within_capacity (snd (queue_push q e))"
    using assms by (rule_tac queue_push_cases [of q e]) (auto simp: within_capacity_def)
qed (use assms in \<open>auto simp: within_capacity_def queue_pop_def queue_discard_pending_def queue_close_def queue_reset_def
    Let_def split: list.splits\<close>)

section \<open>Properties\<close>

text \<open>
  The queue is first-in first-out and loses nothing silently: after any operations of any threads, in the
  order in which they held the lock, the accepted events are those handed out and those discarded, merged in
  their order, followed by those still waiting.
\<close>

theorem queue_first_in_first_out:
  "let h = foldl (channel_step eq_events push_ok queue_pop (\<lambda>q. snd (queue_discard_pending q)) queue_close queue_reset)
        (channel_start (queue_new capacity)) ops
   in \<exists>consumed. ch_accepted h = consumed @ eq_events (ch_queue h) \<and>
        consumed \<in> shuffles (ch_popped h) (ch_discarded h)"
  using queue.run_in_order [of "queue_new capacity" ops] unfolding queue.in_order_def Let_def by (simp add: queue_new_def)

end
