(* ===== verification/Message_Bus.thy ===== *)
theory Message_Bus
  imports Event_Queue
begin

text \<open>
  \<open>cockpit/exchange/foundation/event/message_bus.cc\<close>: topic-based publication to bounded queues. The queues are
  shared between the bus, which keeps weak pointers, and the subscriptions, which own them; they live in a heap
  from addresses to queues, and a queue whose subscription is gone is absent from it (an expired pointer).
\<close>

section \<open>State\<close>

record event_message =
  em_topic :: string
  em_type :: string
  em_source :: string
  em_payload_json :: string
  em_timestamp_ms :: int
  em_sequence :: u64

record bus_metrics =
  bm_published :: u64
  bm_delivered :: u64
  bm_dropped :: u64
  bm_subscribers :: u64

type_synonym queue_heap = "nat \<Rightarrow> event_message event_queue option"

record message_bus =
  mb_default_queue_capacity :: nat
  mb_subscribers :: "(string \<times> nat) list"
  mb_metrics :: bus_metrics
  mb_closed :: bool
  mb_next_sequence :: u64
  mb_heap :: queue_heap
  mb_allocated :: nat

definition topic_matches :: "string \<Rightarrow> string \<Rightarrow> bool" where
  "topic_matches subscription topic \<longleftrightarrow> subscription = ''*'' \<or> subscription = topic"

definition message_valid :: "event_message \<Rightarrow> bool" where
  "message_valid m \<longleftrightarrow> em_topic m \<noteq> [] \<and> em_payload_json m \<noteq> []"

definition bus_new :: "nat \<Rightarrow> message_bus" where
  "bus_new capacity = \<lparr> mb_default_queue_capacity = capacity, mb_subscribers = [],
     mb_metrics = \<lparr> bm_published = 0, bm_delivered = 0, bm_dropped = 0, bm_subscribers = 0 \<rparr>,
     mb_closed = False, mb_next_sequence = 1, mb_heap = (\<lambda>_. None), mb_allocated = 0 \<rparr>"

text \<open>The result of \<open>Subscribe\<close> is the address of the subscription's queue.\<close>

definition bus_subscribe :: "message_bus \<Rightarrow> string \<Rightarrow> nat \<Rightarrow> nat \<times> message_bus" where
  "bus_subscribe b topic capacity =
     (let a = mb_allocated b;
          b' = b\<lparr>mb_allocated := a + 1, mb_heap := (mb_heap b)(a \<mapsto> queue_new capacity)\<rparr>
      in if mb_closed b then (a, b'\<lparr>mb_heap := (mb_heap b')(a \<mapsto> queue_close (queue_new capacity))\<rparr>)
         else (let subscribers = mb_subscribers b @ [(topic, a)] in
           (a, b'\<lparr>mb_subscribers := subscribers,
                 mb_metrics := (mb_metrics b)\<lparr>bm_subscribers := of_nat (length subscribers)\<rparr>\<rparr>)))"

definition bus_subscribe_default :: "message_bus \<Rightarrow> string \<Rightarrow> nat \<times> message_bus" where
  "bus_subscribe_default b topic = bus_subscribe b topic (mb_default_queue_capacity b)"

text \<open>The loop of \<open>Publish\<close> over the subscribers.\<close>

fun deliver :: "(string \<times> nat) list \<Rightarrow> event_message \<Rightarrow> queue_heap \<times> bus_metrics \<Rightarrow> queue_heap \<times> bus_metrics" where
  "deliver [] m (h, k) = (h, k)"
| "deliver ((topic, a) # subs) m (h, k) =
     (if \<not> topic_matches topic (em_topic m) then deliver subs m (h, k)
      else case h a of
        None \<Rightarrow> deliver subs m (h, k)
      | Some q \<Rightarrow>
          (case queue_push q m of (r, q') \<Rightarrow>
             if r = PrAccepted then deliver subs m (h(a \<mapsto> q'), k\<lparr>bm_delivered := bm_delivered k + 1\<rparr>)
             else deliver subs m (h(a \<mapsto> q'), k\<lparr>bm_dropped := bm_dropped k + 1\<rparr>)))"

definition live_subscribers :: "message_bus \<Rightarrow> (string \<times> nat) list" where
  "live_subscribers b = filter (\<lambda>s. mb_heap b (snd s) \<noteq> None) (mb_subscribers b)"

definition stamped :: "message_bus \<Rightarrow> int \<Rightarrow> event_message \<Rightarrow> event_message" where
  "stamped b now m = (if em_timestamp_ms m = 0 then m\<lparr>em_timestamp_ms := now\<rparr> else m)\<lparr>em_sequence := mb_next_sequence b\<rparr>"

definition bus_publish :: "message_bus \<Rightarrow> int \<Rightarrow> event_message \<Rightarrow> bool \<times> message_bus" where
  "bus_publish b now m =
     (if \<not> message_valid m then (False, b)
      else if mb_closed b then (False, b)
      else
        (let k = (mb_metrics b)\<lparr>bm_published := bm_published (mb_metrics b) + 1\<rparr>;
             subs = live_subscribers b
         in case deliver subs (stamped b now m) (mb_heap b, k) of (h, k') \<Rightarrow>
           (True, b\<lparr>mb_next_sequence := mb_next_sequence b + 1, mb_subscribers := subs, mb_heap := h,
                    mb_metrics := k'\<lparr>bm_subscribers := of_nat (length subs)\<rparr>\<rparr>)))"

definition bus_metrics_now :: "message_bus \<Rightarrow> bus_metrics" where
  "bus_metrics_now b = (mb_metrics b)\<lparr>bm_subscribers := of_nat (length (mb_subscribers b))\<rparr>"

definition bus_close :: "message_bus \<Rightarrow> message_bus" where
  "bus_close b = b\<lparr>mb_closed := True,
     mb_heap := foldl (\<lambda>h s. case h (snd s) of None \<Rightarrow> h | Some q \<Rightarrow> h(snd s \<mapsto> queue_close q)) (mb_heap b) (mb_subscribers b)\<rparr>"

text \<open>The operations of a subscription on its queue, and its end.\<close>

definition subscription_try_pop :: "message_bus \<Rightarrow> nat \<Rightarrow> event_message option \<times> message_bus" where
  "subscription_try_pop b a =
     (case mb_heap b a of
        None \<Rightarrow> (None, b)
      | Some q \<Rightarrow> (fst (queue_pop q), b\<lparr>mb_heap := (mb_heap b)(a \<mapsto> snd (queue_pop q))\<rparr>))"

definition subscription_close :: "message_bus \<Rightarrow> nat \<Rightarrow> message_bus" where
  "subscription_close b a =
     (case mb_heap b a of None \<Rightarrow> b | Some q \<Rightarrow> b\<lparr>mb_heap := (mb_heap b)(a \<mapsto> queue_close q)\<rparr>)"

definition subscription_drop_count :: "message_bus \<Rightarrow> nat \<Rightarrow> u64" where
  "subscription_drop_count b a = (case mb_heap b a of None \<Rightarrow> 0 | Some q \<Rightarrow> eq_drop_count q)"

definition subscription_release :: "message_bus \<Rightarrow> nat \<Rightarrow> message_bus" where
  "subscription_release b a = b\<lparr>mb_heap := (mb_heap b)(a := None)\<rparr>"

section \<open>Delivery\<close>

text \<open>Every queue is touched by the one subscriber that owns it.\<close>

lemma deliver_other: "a \<notin> snd ` set subs \<Longrightarrow> fst (deliver subs m (h, k)) a = h a"
proof (induction subs m "(h, k)" arbitrary: h k rule: deliver.induct)
  case (2 topic a' subs m h k)
  then show ?case by (auto split: option.splits prod.splits)
qed simp

lemma deliver_own:
  assumes "distinct (map snd subs)" "(topic, a) \<in> set subs"
  shows "fst (deliver subs m (h, k)) a =
    (if topic_matches topic (em_topic m) then map_option (\<lambda>q. snd (queue_push q m)) (h a) else h a)"
  using assms
proof (induction subs m "(h, k)" arbitrary: h k rule: deliver.induct)
  case (2 topic' a' subs m h k)
  show ?case
  proof (cases "a' = a")
    case True
    then have "a \<notin> snd ` set subs" "topic' = topic" using 2(5,6) by (auto simp: image_iff) 
    then show ?thesis using True by (auto simp: deliver_other split: option.splits prod.splits)
  next
    case False
    then have "(topic, a) \<in> set subs" "distinct (map snd subs)" using 2(5,6) by auto
    then show ?thesis using 2(1-4) False by (auto split: option.splits prod.splits)
  qed
qed simp

definition receivers :: "(string \<times> nat) list \<Rightarrow> event_message \<Rightarrow> queue_heap \<Rightarrow> nat" where
  "receivers subs m h = length (filter (\<lambda>s. topic_matches (fst s) (em_topic m) \<and> h (snd s) \<noteq> None) subs)"

lemma deliver_counts:
  assumes "distinct (map snd subs)"
  shows "bm_delivered (snd (deliver subs m (h, k))) + bm_dropped (snd (deliver subs m (h, k))) =
    bm_delivered k + bm_dropped k + of_nat (receivers subs m h) \<and>
    bm_published (snd (deliver subs m (h, k))) = bm_published k"
  using assms
proof (induction subs m "(h, k)" arbitrary: h k rule: deliver.induct)
  case (2 topic a subs m h k)
  have same: "receivers subs m (h(a \<mapsto> q)) = receivers subs m h" for q
    using 2(5) unfolding receivers_def by (intro arg_cong [where f = length] filter_cong) (auto simp: image_iff)
  show ?case
  proof (cases "topic_matches topic (em_topic m) \<and> h a \<noteq> None")
    case False
    then show ?thesis using 2(1,2) 2(5) by (auto simp: receivers_def)
  next
    case True
    then obtain q where q: "h a = Some q" by blast
    obtain r q' where p: "queue_push q m = (r, q')" by force
    show ?thesis using 2(3-5) True q p same by (cases "r = PrAccepted") (auto simp: receivers_def)
  qed
qed (simp add: receivers_def)

section \<open>Invariant\<close>

definition queue_in_order :: "u64 \<Rightarrow> event_message event_queue \<Rightarrow> bool" where
  "queue_in_order n q \<longleftrightarrow> sorted_wrt (<) (map em_sequence (eq_events q)) \<and> (\<forall>m \<in> set (eq_events q). em_sequence m < n)"

definition bus_ok :: "message_bus \<Rightarrow> bool" where
  "bus_ok b \<longleftrightarrow> distinct (map snd (mb_subscribers b)) \<and> (\<forall>s \<in> set (mb_subscribers b). snd s < mb_allocated b) \<and>
     (\<forall>a q. mb_heap b a = Some q \<longrightarrow> a < mb_allocated b \<and> within_capacity q \<and> queue_in_order (mb_next_sequence b) q) \<and>
     (\<forall>topic a q m. (topic, a) \<in> set (mb_subscribers b) \<and> mb_heap b a = Some q \<and> m \<in> set (eq_events q) \<longrightarrow>
        topic_matches topic (em_topic m))"

datatype bus_op = BoSubscribe string nat | BoPublish int event_message | BoTryPop nat | BoCloseSubscription nat
  | BoRelease nat | BoClose

fun bus_step :: "message_bus \<Rightarrow> bus_op \<Rightarrow> message_bus" where
  "bus_step b (BoSubscribe topic capacity) = snd (bus_subscribe b topic capacity)"
| "bus_step b (BoPublish now m) = snd (bus_publish b now m)"
| "bus_step b (BoTryPop a) = snd (subscription_try_pop b a)"
| "bus_step b (BoCloseSubscription a) = subscription_close b a"
| "bus_step b (BoRelease a) = subscription_release b a"
| "bus_step b BoClose = bus_close b"

lemma queue_in_order_simps [simp]:
  "queue_in_order n (queue_close q) = queue_in_order n q"
  "queue_in_order n (queue_new c)"
  by (simp_all add: queue_in_order_def queue_close_def queue_new_def)

lemma queue_in_order_pop: "queue_in_order n q \<Longrightarrow> queue_in_order n (snd (queue_pop q))"
  by (auto simp: queue_in_order_def queue_pop_def split: list.splits)

lemma queue_in_order_push:
  assumes "queue_in_order n q" "n < n + 1" "em_sequence m = n"
  shows "queue_in_order (n + 1) (snd (queue_push q m))"
proof -
  have "x < n \<Longrightarrow> x < n + 1" for x using assms(2) by (meson less_trans)
  then show ?thesis
    using assms by (rule_tac queue_push_cases [of q m]) (auto simp: queue_in_order_def sorted_wrt_append)
qed

lemma push_events: "m' \<in> set (eq_events (snd (queue_push q m))) \<Longrightarrow> m' \<in> set (eq_events q) \<or> m' = m"
  by (rule queue_push_cases [of q m]) auto

lemma pop_events: "m' \<in> set (eq_events (snd (queue_pop q))) \<Longrightarrow> m' \<in> set (eq_events q)"
  by (auto simp: queue_pop_def split: list.splits)

lemma bus_ok_new [simp]: "bus_ok (bus_new n)"
  by (simp add: bus_ok_def bus_new_def)

lemma queue_close_twice [simp]: "queue_close (queue_close q) = queue_close q"
  by (simp add: queue_close_def)

lemma heap_close:
  "foldl (\<lambda>h s. case h (snd s) of None \<Rightarrow> h | Some q \<Rightarrow> h(snd s \<mapsto> queue_close q)) h subs a =
    (if a \<in> snd ` set subs then map_option queue_close (h a) else h a)"
proof (induction subs arbitrary: h)
  case (Cons s subs)
  then show ?case using Cons [of h] Cons by (cases "h (snd s)") auto
qed simp

text \<open>A step that maps each queue by a function that keeps the order and adds no message keeps the invariant.\<close>

lemma bus_ok_heap:
  assumes "bus_ok b" "mb_subscribers b' = mb_subscribers b" "mb_allocated b' = mb_allocated b" "mb_next_sequence b' = mb_next_sequence b"
    and "\<And>a q'. mb_heap b' a = Some q' \<Longrightarrow> \<exists>q. mb_heap b a = Some q \<and>
      (within_capacity q \<longrightarrow> within_capacity q') \<and> (queue_in_order (mb_next_sequence b) q \<longrightarrow> queue_in_order (mb_next_sequence b) q') \<and>
      set (eq_events q') \<subseteq> set (eq_events q)"
  shows "bus_ok b'"
  unfolding bus_ok_def assms(2-4)
proof (intro conjI allI impI)
  show "distinct (map snd (mb_subscribers b))" "\<forall>s \<in> set (mb_subscribers b). snd s < mb_allocated b"
    using assms(1) by (auto simp: bus_ok_def)
next
  fix a q'
  assume "mb_heap b' a = Some q'"
  from assms(5) [OF this] assms(1)
  show "a < mb_allocated b" "within_capacity q'" "queue_in_order (mb_next_sequence b) q'"
    unfolding bus_ok_def by blast+
next
  fix topic a q' m
  assume q': "(topic, a) \<in> set (mb_subscribers b) \<and> mb_heap b' a = Some q' \<and> m \<in> set (eq_events q')"
  then obtain q where "mb_heap b a = Some q" "set (eq_events q') \<subseteq> set (eq_events q)" using assms(5) by blast
  then show "topic_matches topic (em_topic m)" using assms(1) q' unfolding bus_ok_def by blast
qed

lemma bus_ok_subscribe:
  assumes ok: "bus_ok b"
  shows "bus_ok (snd (bus_subscribe b topic capacity))"
proof -
  have "mb_heap b (mb_allocated b) = None" using ok unfolding bus_ok_def by (metis less_irrefl not_Some_eq)
  moreover have "mb_allocated b \<notin> snd ` set (mb_subscribers b)" using ok by (auto simp: bus_ok_def)
  ultimately show ?thesis
    using ok by (auto simp: bus_ok_def bus_subscribe_def Let_def queue_new_def queue_close_def queue_in_order_def
        within_capacity_def less_Suc_eq image_iff split: if_splits)
qed

lemma bus_ok_publish:
  assumes ok: "bus_ok b" and room: "mb_next_sequence b < mb_next_sequence b + 1"
  shows "bus_ok (snd (bus_publish b now m))"
proof (cases "message_valid m \<and> \<not> mb_closed b")
  case True
  define subs where "subs = live_subscribers b"
  define k where "k = (mb_metrics b)\<lparr>bm_published := bm_published (mb_metrics b) + 1\<rparr>"
  define n where "n = mb_next_sequence b"
  define h where "h = fst (deliver subs (stamped b now m) (mb_heap b, k))"
  have sub: "set subs \<subseteq> set (mb_subscribers b)" by (auto simp: subs_def live_subscribers_def)
  have d: "distinct (map snd subs)"
    using ok by (auto simp: bus_ok_def subs_def live_subscribers_def intro: distinct_map_filter)
  have n: "em_sequence (stamped b now m) = n" "em_topic (stamped b now m) = em_topic m" by (simp_all add: stamped_def n_def)
  let ?b = "snd (bus_publish b now m)"
  have b: "mb_heap ?b = h" "mb_subscribers ?b = subs" "mb_allocated ?b = mb_allocated b" "mb_next_sequence ?b = n + 1"
    using True by (simp_all add: bus_publish_def Let_def h_def subs_def k_def n_def split: prod.splits)
  have own: "h a = (if topic_matches topic (em_topic m) then map_option (\<lambda>q. snd (queue_push q (stamped b now m))) (mb_heap b a) else mb_heap b a)"
    if "(topic, a) \<in> set subs" for topic a
    unfolding h_def using deliver_own [OF d that] by (simp add: n)
  have later: "queue_in_order (n + 1) q" if "queue_in_order n q" for q
    using that room less_trans [of _ n "n + 1"] by (auto simp: queue_in_order_def n_def)
  have "a < mb_allocated b \<and> within_capacity q \<and> queue_in_order (n + 1) q" if ha: "h a = Some q" for a q
  proof (cases "a \<in> snd ` set subs")
    case False
    then have "mb_heap b a = Some q" using that by (simp add: h_def deliver_other)
    then show ?thesis using ok later by (auto simp: bus_ok_def n_def)
  next
    case in_subs: True
    then obtain topic where "(topic, a) \<in> set subs" by auto
    then obtain q0 where "mb_heap b a = Some q0" "q = q0 \<or> q = snd (queue_push q0 (stamped b now m))"
      using own [of topic a] ha by (cases "mb_heap b a") (auto split: if_splits)
    then show ?thesis
      using ok later queue_in_order_push [of n q0 "stamped b now m"] room n
      by (auto simp: bus_ok_def n_def)
  qed
  moreover have "topic_matches topic (em_topic m')" if sq: "(topic, a) \<in> set subs" "h a = Some q" "m' \<in> set (eq_events q)" for topic a q m'
  proof -
    have "(topic, a) \<in> set (mb_subscribers b)" using sq(1) sub by blast
    then have old: "\<lbrakk>mb_heap b a = Some q0; m' \<in> set (eq_events q0)\<rbrakk> \<Longrightarrow> topic_matches topic (em_topic m')" for q0
      using ok unfolding bus_ok_def by blast
    show ?thesis
    proof (cases "topic_matches topic (em_topic m)")
      case True
      then obtain q0 where "mb_heap b a = Some q0" "q = snd (queue_push q0 (stamped b now m))"
        using own [OF sq(1)] sq(2) by (cases "mb_heap b a") auto
      then show ?thesis using push_events sq(3) old True n(2) by metis
    next
      case False
      then have "mb_heap b a = Some q" using own [OF sq(1)] sq(2) by simp
      then show ?thesis using old sq(3) by blast
    qed
  qed
  ultimately show ?thesis using d sub ok unfolding bus_ok_def b by blast
qed (use ok in \<open>auto simp: bus_publish_def\<close>)

lemma bus_ok_step:
  assumes "bus_ok b" "mb_next_sequence b < mb_next_sequence b + 1"
  shows "bus_ok (bus_step b c)"
proof (cases c)
  case (BoTryPop a)
  then show ?thesis
    using queue_in_order_pop
    by (auto intro!: bus_ok_heap [OF assms(1)] simp: subscription_try_pop_def dest: pop_events split: option.splits if_splits)
next
  case (BoCloseSubscription a)
  then show ?thesis
    by (auto intro!: bus_ok_heap [OF assms(1)] simp: subscription_close_def within_capacity_steps split: option.splits if_splits)
      (auto simp: queue_close_def)
next
  case (BoRelease a)
  then show ?thesis by (auto intro!: bus_ok_heap [OF assms(1)] simp: subscription_release_def split: if_splits)
next
  case BoClose
  then show ?thesis
    by (auto intro!: bus_ok_heap [OF assms(1)] simp: bus_close_def heap_close within_capacity_steps split: if_splits) (auto simp: queue_close_def)
qed (use assms bus_ok_subscribe bus_ok_publish in auto)

lemma next_sequence_step: "mb_next_sequence (bus_step b c) \<in> {mb_next_sequence b, mb_next_sequence b + 1}"
  by (cases c) (auto simp: bus_subscribe_def bus_publish_def subscription_try_pop_def subscription_close_def subscription_release_def
      bus_close_def Let_def split: option.splits prod.splits)

lemma bus_reachable:
  "length cs < 2 ^ 64 - 1 \<Longrightarrow> bus_ok (foldl bus_step (bus_new n) cs) \<and>
    unat (mb_next_sequence (foldl bus_step (bus_new n) cs)) \<le> length cs + 1"
proof (induction cs rule: rev_induct)
  case (snoc c cs)
  let ?b = "foldl bus_step (bus_new n) cs"
  have ih: "bus_ok ?b" "unat (mb_next_sequence ?b) \<le> length cs + 1" using snoc by auto
  then have u: "unat (mb_next_sequence ?b + 1) = unat (mb_next_sequence ?b) + 1"
    using snoc(2) by (simp add: unat_word_ariths)
  then have "mb_next_sequence ?b < mb_next_sequence ?b + 1" by (simp add: word_less_nat_alt)
  then show ?case using bus_ok_step [OF ih(1)] next_sequence_step [of ?b c] ih(2) u by auto
qed (simp add: bus_new_def [of n] bus_ok_new [of n, unfolded bus_new_def])

section \<open>Properties\<close>

text \<open>
  C23: a subscriber sees the messages of its topic in the order of their publication: in every queue the sequence
  numbers rise strictly, never more messages wait than its capacity, and a subscriber holds messages of its topic
  only. This holds for every interleaving of subscribing, publishing, popping, closing and releasing.
\<close>

theorem subscribers_see_publication_order:
  assumes "length ops < 2 ^ 64 - 1" "mb_heap (foldl bus_step (bus_new n) ops) a = Some q"
  shows "sorted_wrt (<) (map em_sequence (eq_events q)) \<and> length (eq_events q) \<le> eq_capacity q \<and>
    ((topic, a) \<in> set (mb_subscribers (foldl bus_step (bus_new n) ops)) \<longrightarrow>
       list_all (\<lambda>m. topic_matches topic (em_topic m)) (eq_events q))"
  using bus_reachable [OF assms(1), of n] assms(2)
  by (auto simp: bus_ok_def queue_in_order_def within_capacity_def list_all_iff)

definition sample_message :: event_message where
  "sample_message = \<lparr> em_topic = ''a'', em_type = [], em_source = [], em_payload_json = ''1'', em_timestamp_ms = 0, em_sequence = 0 \<rparr>"

definition sample_ops :: "bus_op list" where
  "sample_ops = [BoSubscribe ''*'' 4, BoPublish 7 sample_message, BoPublish 8 sample_message]"

lemma sample_run:
  "mb_heap (foldl bus_step (bus_new 4) sample_ops) 0 =
    Some \<lparr> eq_capacity = 4, eq_events = [sample_message\<lparr>em_timestamp_ms := 7, em_sequence := 1\<rparr>,
      sample_message\<lparr>em_timestamp_ms := 8, em_sequence := 2\<rparr>], eq_closed = False, eq_drop_count = 0 \<rparr>"
  by (simp add: sample_ops_def sample_message_def bus_new_def bus_subscribe_def bus_publish_def message_valid_def live_subscribers_def
      stamped_def topic_matches_def queue_push_def queue_new_def Let_def)

theorem subscribers_see_publication_order_witness:
  "sorted_wrt (<) (map em_sequence [sample_message\<lparr>em_timestamp_ms := 7, em_sequence := 1\<rparr>,
      sample_message\<lparr>em_timestamp_ms := 8, em_sequence := 2\<rparr>])"
  using subscribers_see_publication_order [OF _ sample_run, of "''*''"] by (simp add: sample_ops_def)

text \<open>
  A valid message published on an open bus is pushed once to the queue of every live subscriber of its topic
  and to no other queue, a full or closed queue keeps nobody else from it, and each push is counted as delivered or
  as dropped.
\<close>

theorem publish_reaches_its_topic:
  assumes "length ops < 2 ^ 64 - 1" "b = foldl bus_step (bus_new n) ops" "message_valid m" "\<not> mb_closed b"
    and "bus_publish b now m = (ok, b')"
  shows "ok \<and>
    ((topic, a) \<in> set (mb_subscribers b) \<longrightarrow> mb_heap b' a =
       (if topic_matches topic (em_topic m) then map_option (\<lambda>q. snd (queue_push q (stamped b now m))) (mb_heap b a) else mb_heap b a)) \<and>
    (a \<notin> snd ` set (mb_subscribers b) \<longrightarrow> mb_heap b' a = mb_heap b a) \<and>
    bm_delivered (mb_metrics b') + bm_dropped (mb_metrics b') =
      bm_delivered (mb_metrics b) + bm_dropped (mb_metrics b) + of_nat (receivers (mb_subscribers b) m (mb_heap b))"
proof -
  let ?subs = "live_subscribers b" and ?k = "(mb_metrics b)\<lparr>bm_published := bm_published (mb_metrics b) + 1\<rparr>"
  let ?r = "deliver ?subs (stamped b now m) (mb_heap b, ?k)"
  have d: "distinct (map snd (mb_subscribers b))" using bus_reachable [OF assms(1), of n] assms(2) by (simp add: bus_ok_def)
  have dl: "distinct (map snd ?subs)" using d by (simp add: live_subscribers_def distinct_map_filter)
  have ok: "ok" and h: "mb_heap b' = fst ?r"
    and c: "bm_delivered (mb_metrics b') = bm_delivered (snd ?r)" "bm_dropped (mb_metrics b') = bm_dropped (snd ?r)"
    using assms(3-5) by (auto simp: bus_publish_def Let_def split: prod.splits)
  have t: "em_topic (stamped b now m) = em_topic m" by (simp add: stamped_def)
  have live: "(topic, a) \<in> set ?subs \<longleftrightarrow> (topic, a) \<in> set (mb_subscribers b) \<and> mb_heap b a \<noteq> None"
    by (auto simp: live_subscribers_def)
  have "mb_heap b' a = (if topic_matches topic (em_topic m) then map_option (\<lambda>q. snd (queue_push q (stamped b now m))) (mb_heap b a) else mb_heap b a)"
    if s: "(topic, a) \<in> set (mb_subscribers b)"
  proof (cases "mb_heap b a")
    case None
    then have "a \<notin> snd ` set ?subs" by (auto simp: live_subscribers_def)
    then show ?thesis using None by (simp add: h deliver_other)
  next
    case (Some q)
    then show ?thesis using deliver_own [OF dl, of topic a] live s by (simp add: h t)
  qed
  moreover have "mb_heap b' a = mb_heap b a" if "a \<notin> snd ` set (mb_subscribers b)"
    using that by (auto simp: h live_subscribers_def image_iff intro!: deliver_other)
  moreover have "receivers ?subs (stamped b now m) (mb_heap b) = receivers (mb_subscribers b) m (mb_heap b)"
    unfolding receivers_def live_subscribers_def t by (auto intro!: arg_cong [where f = length] filter_cong)
  ultimately show ?thesis using ok c deliver_counts [OF dl, of "stamped b now m" "mb_heap b" ?k] by simp
qed

theorem publish_reaches_its_topic_witness:
  "fst (bus_publish (foldl bus_step (bus_new 4) [BoSubscribe ''*'' 4]) 7 sample_message)"
proof -
  let ?b = "foldl bus_step (bus_new 4) [BoSubscribe ''*'' 4]"
  have "message_valid sample_message" "\<not> mb_closed ?b"
    by (simp_all add: message_valid_def sample_message_def bus_new_def bus_subscribe_def Let_def)
  then show ?thesis
    using publish_reaches_its_topic [of "[BoSubscribe ''*'' 4]" ?b 4 sample_message 7 "fst (bus_publish ?b 7 sample_message)"
        "snd (bus_publish ?b 7 sample_message)"] by simp
qed

end
