(* ===== verification/Sentinel.thy ===== *)
theory Sentinel
  imports Event_Queue
begin

text \<open>
  \<open>cockpit/vanguard/sentinel/sentinel_service.cc\<close>: the service that turns motion events into recordings. Three
  kinds of threads meet in it: callers of \<open>Start\<close>/\<open>Stop\<close> (serialised by the lifecycle mutex), callers of
  \<open>Arm\<close>, \<open>Disarm\<close> and \<open>Submit\<close>, and the worker of \<open>Run\<close>. Every section that holds a mutex is one atomic
  step; where a thread is between its sections is part of the state. The clocks and the results of the actions
  (\<open>SentinelActions\<close>, an interface) are arguments of the steps.
\<close>

section \<open>State\<close>

datatype sentinel_state = SnDisabled | SnArmed | SnTriggered | SnCooldown | SnFaulted

fun sentinel_state_name :: "sentinel_state \<Rightarrow> string" where
  "sentinel_state_name SnDisabled = ''DISABLED''"
| "sentinel_state_name SnArmed = ''ARMED''"
| "sentinel_state_name SnTriggered = ''TRIGGERED''"
| "sentinel_state_name SnCooldown = ''COOLDOWN''"
| "sentinel_state_name SnFaulted = ''FAULTED''"

datatype chassis_event_type = CeMotionDetected

record chassis_event =
  ce_sequence :: u64
  ce_timestamp_ms :: int
  ce_type :: chassis_event_type
  ce_source :: string
  ce_sensor_id :: u32
  ce_motion_detected :: bool

record sentinel_policy =
  sp_cooldown :: int
  sp_max_event_age :: int
  sp_queue_capacity :: nat

definition default_sentinel_policy :: sentinel_policy where
  "default_sentinel_policy = \<lparr> sp_cooldown = 30000, sp_max_event_age = 5000, sp_queue_capacity = 64 \<rparr>"

record sentinel_status =
  ss_state :: sentinel_state
  ss_cooldown_until_ms :: int
  ss_last_event_sequence :: u64
  ss_last_event_timestamp_ms :: int
  ss_last_snapshot_path :: string
  ss_accepted_events :: u64
  ss_suppressed_events :: u64
  ss_failed_events :: u64
  ss_dropped_events :: u64
  ss_last_error :: string

definition status_new :: sentinel_status where
  "status_new = \<lparr> ss_state = SnDisabled, ss_cooldown_until_ms = 0, ss_last_event_sequence = 0,
     ss_last_event_timestamp_ms = 0, ss_last_snapshot_path = [], ss_accepted_events = 0, ss_suppressed_events = 0,
     ss_failed_events = 0, ss_dropped_events = 0, ss_last_error = [] \<rparr>"

text \<open>Where the worker is: before its first section, waiting for an event, before its second section with what it
  popped, performing the actions, or returned.\<close>

datatype worker = WkNone | WkTop | WkWaiting int | WkPopped "chassis_event option" | WkActing chassis_event | WkExited

text \<open>How far the holder of the lifecycle mutex has come.\<close>

datatype lifecycle = LcFree | LcStartChecked bool | LcStartReset bool | LcStopMarked | LcStopClosed | LcStopDiscarded

record sentinel =
  sn_policy :: sentinel_policy
  sn_has_actions :: bool
  sn_events :: "chassis_event event_queue"
  sn_status :: sentinel_status
  sn_running :: bool
  sn_stopping :: bool
  sn_cooldown_until_steady_ms :: int
  sn_worker :: worker
  sn_lifecycle :: lifecycle
  sn_submitting :: "chassis_event list"
  sn_refused :: "push_result list"
  sn_disarming :: nat

definition sentinel_new :: "sentinel_policy \<Rightarrow> bool \<Rightarrow> sentinel" where
  "sentinel_new policy has_actions = \<lparr> sn_policy = policy, sn_has_actions = has_actions,
     sn_events = queue_new (sp_queue_capacity policy), sn_status = status_new, sn_running = False, sn_stopping = False,
     sn_cooldown_until_steady_ms = 0, sn_worker = WkNone, sn_lifecycle = LcFree, sn_submitting = [], sn_refused = [],
     sn_disarming = 0 \<rparr>"

section \<open>Start and Stop\<close>

definition start_check :: "bool \<Rightarrow> sentinel \<Rightarrow> bool \<times> sentinel" where
  "start_check armed s =
     (if sn_running s \<or> \<not> sn_has_actions s \<or> sp_cooldown (sn_policy s) \<le> 0 \<or> sp_max_event_age (sn_policy s) \<le> 0 \<or>
         sp_queue_capacity (sn_policy s) = 0 then (False, s)
      else (True, s\<lparr>sn_lifecycle := LcStartChecked armed\<rparr>))"

definition start_reset :: "bool \<Rightarrow> sentinel \<Rightarrow> sentinel" where
  "start_reset armed s = s\<lparr>sn_events := queue_reset (sn_events s), sn_lifecycle := LcStartReset armed\<rparr>"

definition start_run :: "bool \<Rightarrow> sentinel \<Rightarrow> sentinel" where
  "start_run armed s = s\<lparr>sn_stopping := False, sn_running := True,
     sn_status := status_new\<lparr>ss_state := if armed then SnArmed else SnDisabled\<rparr>,
     sn_cooldown_until_steady_ms := 0, sn_worker := WkTop, sn_lifecycle := LcFree\<rparr>"

definition stop_mark :: "sentinel \<Rightarrow> sentinel" where
  "stop_mark s = (if \<not> sn_running s then s else s\<lparr>sn_stopping := True, sn_lifecycle := LcStopMarked\<rparr>)"

definition stop_close :: "sentinel \<Rightarrow> sentinel" where
  "stop_close s = s\<lparr>sn_events := queue_close (sn_events s), sn_lifecycle := LcStopClosed\<rparr>"

definition stop_discard :: "sentinel \<Rightarrow> sentinel" where
  "stop_discard s = s\<lparr>sn_events := snd (queue_discard_pending (sn_events s)), sn_lifecycle := LcStopDiscarded\<rparr>"

definition stop_join :: "sentinel \<Rightarrow> sentinel" where
  "stop_join s = s\<lparr>sn_worker := WkNone, sn_running := False,
     sn_status := (sn_status s)\<lparr>ss_state := SnDisabled, ss_cooldown_until_ms := 0\<rparr>,
     sn_cooldown_until_steady_ms := 0, sn_lifecycle := LcFree\<rparr>"

section \<open>Arm, Disarm and Submit\<close>

text \<open>The flag says whether the caller passed an error string; the result has the string written to it.\<close>

definition arm :: "bool \<Rightarrow> sentinel \<Rightarrow> bool \<times> string \<times> sentinel" where
  "arm has_error s =
     (if \<not> has_error then (False, [], s)
      else if \<not> sn_running s \<or> sn_stopping s then (False, ''sentinel service is not running'', s)
      else if ss_state (sn_status s) = SnTriggered then (False, ''sentinel trigger is in progress'', s)
      else if ss_state (sn_status s) = SnArmed \<or> ss_state (sn_status s) = SnCooldown then (True, [], s)
      else (True, [], s\<lparr>sn_status := (sn_status s)\<lparr>ss_state := SnArmed, ss_cooldown_until_ms := 0, ss_last_error := []\<rparr>,
                        sn_cooldown_until_steady_ms := 0\<rparr>))"

definition disarm_mark :: "bool \<Rightarrow> sentinel \<Rightarrow> bool \<times> string \<times> sentinel" where
  "disarm_mark has_error s =
     (if \<not> has_error then (False, [], s)
      else if \<not> sn_running s \<or> sn_stopping s then (False, ''sentinel service is not running'', s)
      else (True, [], s\<lparr>sn_status := (sn_status s)\<lparr>ss_state := SnDisabled, ss_cooldown_until_ms := 0\<rparr>,
                        sn_cooldown_until_steady_ms := 0, sn_disarming := sn_disarming s + 1\<rparr>))"

definition disarm_discard :: "sentinel \<Rightarrow> sentinel" where
  "disarm_discard s = s\<lparr>sn_events := snd (queue_discard_pending (sn_events s)), sn_disarming := sn_disarming s - 1\<rparr>"

definition submit_accepts :: "sentinel \<Rightarrow> chassis_event \<Rightarrow> bool" where
  "submit_accepts s e \<longleftrightarrow> \<not> (\<not> sn_running s \<or> sn_stopping s \<or> ss_state (sn_status s) = SnDisabled \<or>
     ce_type e \<noteq> CeMotionDetected \<or> \<not> ce_motion_detected e \<or> ce_sequence e = 0 \<or> ce_timestamp_ms e \<le> 0)"

definition submit_check :: "chassis_event \<Rightarrow> sentinel \<Rightarrow> sentinel" where
  "submit_check e s = (if submit_accepts s e then s\<lparr>sn_submitting := e # sn_submitting s\<rparr> else s)"

definition submit_push :: "chassis_event \<Rightarrow> sentinel \<Rightarrow> sentinel" where
  "submit_push e s =
     (case queue_push (sn_events s) e of (r, q) \<Rightarrow>
        s\<lparr>sn_submitting := remove1 e (sn_submitting s), sn_events := q,
          sn_refused := (if r \<noteq> PrAccepted then r # sn_refused s else sn_refused s)\<rparr>)"

definition submit_count :: "push_result \<Rightarrow> sentinel \<Rightarrow> sentinel" where
  "submit_count r s = s\<lparr>sn_refused := remove1 r (sn_refused s),
     sn_status := (sn_status s)\<lparr>ss_dropped_events := ss_dropped_events (sn_status s) + 1,
       ss_last_error := (if r = PrFull then ''sentinel event queue is full'' else ''sentinel event queue is closed'')\<rparr>\<rparr>"

section \<open>The worker\<close>

definition worker_top :: "int \<Rightarrow> sentinel \<Rightarrow> sentinel" where
  "worker_top steady_now s =
     (if sn_stopping s then s\<lparr>sn_worker := WkExited\<rparr>
      else s\<lparr>sn_worker := WkWaiting
        (if ss_state (sn_status s) = SnCooldown then max 1 (sn_cooldown_until_steady_ms s - steady_now) else 100)\<rparr>)"

definition worker_pop :: "bool \<Rightarrow> sentinel \<Rightarrow> sentinel option" where
  "worker_pop deadline_passed s =
     (case queue_wait_pop_for deadline_passed (sn_events s) of
        None \<Rightarrow> None
      | Some (x, q) \<Rightarrow> Some (s\<lparr>sn_events := q, sn_worker := WkPopped x\<rparr>))"

definition update_cooldown :: "int \<Rightarrow> sentinel \<Rightarrow> sentinel" where
  "update_cooldown steady_now s =
     (if ss_state (sn_status s) = SnCooldown \<and> steady_now \<ge> sn_cooldown_until_steady_ms s then
        s\<lparr>sn_status := (sn_status s)\<lparr>ss_state := SnArmed, ss_cooldown_until_ms := 0\<rparr>, sn_cooldown_until_steady_ms := 0\<rparr>
      else s)"

definition event_duplicate :: "sentinel \<Rightarrow> chassis_event \<Rightarrow> bool" where
  "event_duplicate s e \<longleftrightarrow> ce_sequence e \<le> ss_last_event_sequence (sn_status s)"

definition event_stale :: "sentinel \<Rightarrow> int \<Rightarrow> chassis_event \<Rightarrow> bool" where
  "event_stale s wall_now e \<longleftrightarrow> ce_timestamp_ms e > wall_now \<or> wall_now - ce_timestamp_ms e > sp_max_event_age (sn_policy s)"

definition note_event :: "chassis_event \<Rightarrow> sentinel \<Rightarrow> sentinel" where
  "note_event e s = (if event_duplicate s e then s else s\<lparr>sn_status := (sn_status s)\<lparr>
     ss_last_event_sequence := ce_sequence e, ss_last_event_timestamp_ms := ce_timestamp_ms e\<rparr>\<rparr>)"

definition worker_decide :: "int \<Rightarrow> int \<Rightarrow> chassis_event option \<Rightarrow> sentinel \<Rightarrow> sentinel" where
  "worker_decide steady_now wall_now pending s0 =
     (if sn_stopping s0 then s0\<lparr>sn_worker := WkExited\<rparr>
      else
        (let s = update_cooldown steady_now s0 in
         case pending of
           None \<Rightarrow> s\<lparr>sn_worker := WkTop\<rparr>
         | Some e \<Rightarrow>
             (let s' = note_event e s in
              if event_duplicate s e \<or> event_stale s wall_now e \<or> ss_state (sn_status s) \<noteq> SnArmed then
                s'\<lparr>sn_status := (sn_status s')\<lparr>ss_suppressed_events := ss_suppressed_events (sn_status s') + 1\<rparr>, sn_worker := WkTop\<rparr>
              else
                s'\<lparr>sn_status := (sn_status s')\<lparr>ss_state := SnTriggered, ss_last_error := []\<rparr>, sn_worker := WkActing e\<rparr>)))"

text \<open>The three actions run in turn as long as they succeed; each may overwrite the error string.\<close>

record action_results =
  ar_prepare :: "bool \<times> string"
  ar_snapshot :: "bool \<times> string"
  ar_snapshot_path :: string
  ar_record :: "bool \<times> string"

definition actions_succeed :: "action_results \<Rightarrow> bool" where
  "actions_succeed a \<longleftrightarrow> fst (ar_prepare a) \<and> fst (ar_snapshot a) \<and> fst (ar_record a)"

definition actions_error :: "action_results \<Rightarrow> string" where
  "actions_error a =
     (if \<not> fst (ar_prepare a) then snd (ar_prepare a) else if \<not> fst (ar_snapshot a) then snd (ar_snapshot a) else snd (ar_record a))"

definition worker_finish :: "int \<Rightarrow> int \<Rightarrow> action_results \<Rightarrow> sentinel \<Rightarrow> sentinel" where
  "worker_finish steady_now wall_now a s =
     (if sn_stopping s \<or> ss_state (sn_status s) = SnDisabled then s\<lparr>sn_worker := WkTop\<rparr>
      else
        (let st = sn_status s;
             st' = (if actions_succeed a then
                 st\<lparr>ss_accepted_events := ss_accepted_events st + 1, ss_last_snapshot_path := ar_snapshot_path a, ss_last_error := []\<rparr>
               else
                 st\<lparr>ss_failed_events := ss_failed_events st + 1,
                    ss_last_error := (if actions_error a = [] then ''sentinel trigger action failed'' else actions_error a)\<rparr>)
         in s\<lparr>sn_status := st'\<lparr>ss_state := SnCooldown, ss_cooldown_until_ms := wall_now + sp_cooldown (sn_policy s)\<rparr>,
              sn_cooldown_until_steady_ms := steady_now + sp_cooldown (sn_policy s), sn_worker := WkTop\<rparr>))"

section \<open>Interleavings\<close>

datatype sentinel_step = StStart bool | StStartReset | StStartRun | StStop | StStopClose | StStopDiscard | StStopJoin
  | StArm bool | StDisarm bool | StDisarmDiscard | StSubmit chassis_event | StPush chassis_event | StCount push_result
  | StTop int | StPop bool | StDecide int int | StFinish int int action_results

text \<open>A step of some thread, or \<open>None\<close> if no thread is where it could take the step.\<close>

fun sentinel_exec :: "sentinel \<Rightarrow> sentinel_step \<Rightarrow> sentinel option" where
  "sentinel_exec s (StStart armed) = (if sn_lifecycle s = LcFree then Some (snd (start_check armed s)) else None)"
| "sentinel_exec s StStartReset = (case sn_lifecycle s of LcStartChecked armed \<Rightarrow> Some (start_reset armed s) | _ \<Rightarrow> None)"
| "sentinel_exec s StStartRun = (case sn_lifecycle s of LcStartReset armed \<Rightarrow> Some (start_run armed s) | _ \<Rightarrow> None)"
| "sentinel_exec s StStop = (if sn_lifecycle s = LcFree then Some (stop_mark s) else None)"
| "sentinel_exec s StStopClose = (if sn_lifecycle s = LcStopMarked then Some (stop_close s) else None)"
| "sentinel_exec s StStopDiscard = (if sn_lifecycle s = LcStopClosed then Some (stop_discard s) else None)"
| "sentinel_exec s StStopJoin = (if sn_lifecycle s = LcStopDiscarded \<and> sn_worker s = WkExited then Some (stop_join s) else None)"
| "sentinel_exec s (StArm has_error) = Some (snd (snd (arm has_error s)))"
| "sentinel_exec s (StDisarm has_error) = Some (snd (snd (disarm_mark has_error s)))"
| "sentinel_exec s StDisarmDiscard = (if sn_disarming s > 0 then Some (disarm_discard s) else None)"
| "sentinel_exec s (StSubmit e) = Some (submit_check e s)"
| "sentinel_exec s (StPush e) = (if e \<in> set (sn_submitting s) then Some (submit_push e s) else None)"
| "sentinel_exec s (StCount r) = (if r \<in> set (sn_refused s) then Some (submit_count r s) else None)"
| "sentinel_exec s (StTop steady) = (if sn_worker s = WkTop then Some (worker_top steady s) else None)"
| "sentinel_exec s (StPop deadline) = (case sn_worker s of WkWaiting _ \<Rightarrow> worker_pop deadline s | _ \<Rightarrow> None)"
| "sentinel_exec s (StDecide steady wall) =
     (case sn_worker s of WkPopped x \<Rightarrow> Some (worker_decide steady wall x s) | _ \<Rightarrow> None)"
| "sentinel_exec s (StFinish steady wall a) =
     (case sn_worker s of WkActing _ \<Rightarrow> Some (worker_finish steady wall a s) | _ \<Rightarrow> None)"

text \<open>The event that a step of the worker starts to act on, with the clocks it read.\<close>

record trigger =
  tr_event :: chassis_event
  tr_steady :: int
  tr_wall :: int

fun triggered :: "sentinel_step \<Rightarrow> sentinel \<Rightarrow> trigger list" where
  "triggered (StDecide steady wall) s =
     (case sn_worker s of WkActing e \<Rightarrow> [\<lparr> tr_event = e, tr_steady = steady, tr_wall = wall \<rparr>] | _ \<Rightarrow> [])"
| "triggered _ s = []"

inductive sentinel_run :: "sentinel \<Rightarrow> sentinel_step list \<Rightarrow> trigger list \<Rightarrow> sentinel \<Rightarrow> bool" where
  start: "sentinel_run s [] [] s"
| step: "sentinel_run s steps log s' \<Longrightarrow> sentinel_exec s' c = Some s'' \<Longrightarrow>
    sentinel_run s (steps @ [c]) (log @ triggered c s'') s''"

inductive_cases sentinel_run_NilE: "sentinel_run s [] log s'"

lemmas sentinel_ops = start_check_def start_reset_def start_run_def stop_mark_def stop_close_def stop_discard_def
  stop_join_def arm_def disarm_mark_def disarm_discard_def submit_check_def submit_push_def submit_count_def
  worker_top_def worker_pop_def

lemma queue_ops_closed [simp]:
  "eq_closed (snd (queue_push q e)) = eq_closed q" "eq_closed (snd (queue_pop q)) = eq_closed q"
  "eq_closed (snd (queue_discard_pending q)) = eq_closed q"
  "eq_closed (queue_close q)"
  by (auto simp: queue_push_def queue_pop_def queue_discard_pending_def queue_close_def Let_def split: list.splits)

text \<open>The ways in which the second section of the worker ends.\<close>

lemma worker_decide_cases:
  obtains (stopping) "sn_stopping s" "worker_decide st w x s = s\<lparr>sn_worker := WkExited\<rparr>"
  | (unready) "\<not> sn_stopping s" "x = None" "worker_decide st w x s = (update_cooldown st s)\<lparr>sn_worker := WkTop\<rparr>"
  | (suppressed) e n where "\<not> sn_stopping s" "x = Some e"
      "worker_decide st w x s = (note_event e (update_cooldown st s))\<lparr>sn_status :=
         (sn_status (note_event e (update_cooldown st s)))\<lparr>ss_suppressed_events := n\<rparr>, sn_worker := WkTop\<rparr>"
  | (trigger) e where "\<not> sn_stopping s" "x = Some e" "\<not> event_duplicate (update_cooldown st s) e" "\<not> event_stale (update_cooldown st s) w e"
      "ss_state (sn_status (update_cooldown st s)) = SnArmed"
      "worker_decide st w x s = (note_event e (update_cooldown st s))\<lparr>sn_status :=
         (sn_status (note_event e (update_cooldown st s)))\<lparr>ss_state := SnTriggered, ss_last_error := []\<rparr>, sn_worker := WkActing e\<rparr>"
proof (cases "sn_stopping s")
  case True
  then show ?thesis by (rule stopping) (simp add: worker_decide_def True)
next
  case run: False
  show ?thesis
  proof (cases x)
    case None
    have "worker_decide st w x s = (update_cooldown st s)\<lparr>sn_worker := WkTop\<rparr>" by (simp add: worker_decide_def None run)
    then show ?thesis using run None that(2) by blast
  next
    case (Some e)
    show ?thesis
    proof (cases "event_duplicate (update_cooldown st s) e \<or> event_stale (update_cooldown st s) w e \<or>
        ss_state (sn_status (update_cooldown st s)) \<noteq> SnArmed")
      case True
      show ?thesis by (rule suppressed [OF run Some]) (use True run Some in \<open>simp add: worker_decide_def Let_def\<close>)
    next
      case False
      show ?thesis by (rule trigger [OF run Some]) (use False run Some in \<open>simp_all add: worker_decide_def Let_def\<close>)
    qed
  qed
qed

lemma update_cooldown_keeps [simp]:
  "sn_policy (update_cooldown st s) = sn_policy s" "sn_has_actions (update_cooldown st s) = sn_has_actions s"
  "sn_events (update_cooldown st s) = sn_events s" "sn_running (update_cooldown st s) = sn_running s"
  "sn_stopping (update_cooldown st s) = sn_stopping s" "sn_worker (update_cooldown st s) = sn_worker s"
  "sn_lifecycle (update_cooldown st s) = sn_lifecycle s" "sn_submitting (update_cooldown st s) = sn_submitting s"
  "ss_last_event_sequence (sn_status (update_cooldown st s)) = ss_last_event_sequence (sn_status s)"
  by (simp_all add: update_cooldown_def)

lemma note_event_keeps [simp]:
  "sn_policy (note_event e s) = sn_policy s" "sn_has_actions (note_event e s) = sn_has_actions s"
  "sn_events (note_event e s) = sn_events s" "sn_running (note_event e s) = sn_running s"
  "sn_stopping (note_event e s) = sn_stopping s" "sn_worker (note_event e s) = sn_worker s"
  "sn_lifecycle (note_event e s) = sn_lifecycle s" "sn_submitting (note_event e s) = sn_submitting s"
  "ss_state (sn_status (note_event e s)) = ss_state (sn_status s)"
  "sn_cooldown_until_steady_ms (note_event e s) = sn_cooldown_until_steady_ms s"
  by (simp_all add: note_event_def)

lemma worker_finish_keeps [simp]:
  "sn_policy (worker_finish st w a s) = sn_policy s" "sn_has_actions (worker_finish st w a s) = sn_has_actions s"
  "sn_events (worker_finish st w a s) = sn_events s" "sn_running (worker_finish st w a s) = sn_running s"
  "sn_stopping (worker_finish st w a s) = sn_stopping s" "sn_worker (worker_finish st w a s) = WkTop"
  "sn_lifecycle (worker_finish st w a s) = sn_lifecycle s" "sn_submitting (worker_finish st w a s) = sn_submitting s"
  "ss_last_event_sequence (sn_status (worker_finish st w a s)) = ss_last_event_sequence (sn_status s)"
  by (simp_all add: worker_finish_def Let_def)

lemma note_event_sequence:
  "ss_last_event_sequence (sn_status (note_event e s)) = max (ss_last_event_sequence (sn_status s)) (ce_sequence e)"
  by (auto simp: note_event_def event_duplicate_def max_def)

section \<open>The shape of reachable states\<close>

definition motion_event :: "chassis_event \<Rightarrow> bool" where
  "motion_event e \<longleftrightarrow> ce_type e = CeMotionDetected \<and> ce_motion_detected e \<and> ce_sequence e \<noteq> 0 \<and> ce_timestamp_ms e > 0"

fun worker_events :: "worker \<Rightarrow> chassis_event list" where
  "worker_events (WkPopped (Some e)) = [e]"
| "worker_events (WkActing e) = [e]"
| "worker_events _ = []"

fun lifecycle_ok :: "lifecycle \<Rightarrow> sentinel \<Rightarrow> bool" where
  "lifecycle_ok LcFree s = True"
| "lifecycle_ok (LcStartChecked armed) s = (\<not> sn_running s)"
| "lifecycle_ok (LcStartReset armed) s = (\<not> sn_running s)"
| "lifecycle_ok LcStopMarked s = (sn_running s \<and> sn_stopping s)"
| "lifecycle_ok LcStopClosed s = (sn_running s \<and> sn_stopping s \<and> eq_closed (sn_events s))"
| "lifecycle_ok LcStopDiscarded s = (sn_running s \<and> sn_stopping s \<and> eq_closed (sn_events s))"

definition sentinel_ok :: "sentinel \<Rightarrow> bool" where
  "sentinel_ok s \<longleftrightarrow> (sn_running s \<longleftrightarrow> sn_worker s \<noteq> WkNone) \<and> lifecycle_ok (sn_lifecycle s) s \<and>
     list_all motion_event (eq_events (sn_events s)) \<and> list_all motion_event (sn_submitting s) \<and>
     list_all motion_event (worker_events (sn_worker s))"

lemma lifecycle_ok_cong:
  "sn_running s' = sn_running s \<Longrightarrow> sn_stopping s' = sn_stopping s \<Longrightarrow> eq_closed (sn_events s') = eq_closed (sn_events s) \<Longrightarrow>
    lifecycle_ok l s' = lifecycle_ok l s"
  by (cases l) auto

lemma push_all: "list_all P (eq_events q) \<Longrightarrow> P e \<Longrightarrow> list_all P (eq_events (snd (queue_push q e)))"
  by (rule queue_push_cases [of q e]) auto

lemma sentinel_ok_new: "sentinel_ok (sentinel_new p a)"
  by (simp add: sentinel_ok_def sentinel_new_def queue_new_def)

lemma sentinel_ok_decide: 
  assumes "sentinel_ok s" "sn_worker s = WkPopped x"
  shows "sentinel_ok (worker_decide st w x s)"
proof -
  have keep: "sentinel_ok s'" if "sn_running s' = sn_running s" "sn_stopping s' = sn_stopping s" "sn_events s' = sn_events s"
      "sn_lifecycle s' = sn_lifecycle s" "sn_submitting s' = sn_submitting s"
      "sn_worker s' \<noteq> WkNone" "list_all motion_event (worker_events (sn_worker s'))" for s'
    using assms that lifecycle_ok_cong [of s' s] by (simp add: sentinel_ok_def)
  have ev: "x = Some e \<Longrightarrow> motion_event e" for e using assms by (simp add: sentinel_ok_def)
  show ?thesis by (rule worker_decide_cases [of s st w x]) (auto intro!: keep dest: ev)
qed

lemma sentinel_ok_step:
  assumes ok: "sentinel_ok s" and e: "sentinel_exec s c = Some s'"
  shows "sentinel_ok s'"
proof (cases c)
  case (StPop d)
  then obtain n x q where p: "sn_worker s = WkWaiting n" "queue_pop (sn_events s) = (x, q)" "s' = s\<lparr>sn_events := q, sn_worker := WkPopped x\<rparr>"
    using e by (auto simp: worker_pop_def queue_wait_pop_for_def split: worker.splits option.splits prod.splits if_splits)
  have "eq_closed q = eq_closed (sn_events s)" using p(2) queue_ops_closed(2) [of "sn_events s"] by simp
  moreover have "list_all motion_event (eq_events q)" "list_all motion_event (worker_events (WkPopped x))"
    using ok p(2) by (auto simp: sentinel_ok_def queue_pop_def split: list.splits)
  ultimately show ?thesis using ok p lifecycle_ok_cong [of s' s] by (simp add: sentinel_ok_def)
next
  case (StDecide st w)
  then show ?thesis using e ok by (auto intro: sentinel_ok_decide split: worker.splits)
next
  case (StPush x)
  obtain r q where q: "queue_push (sn_events s) x = (r, q)" by force
  have x: "x \<in> set (sn_submitting s)" "s' = submit_push x s" using e StPush by (auto split: if_splits)
  then have "motion_event x" using ok by (auto simp: sentinel_ok_def list_all_iff)
  moreover have "list_all motion_event (remove1 x (sn_submitting s))"
    using ok by (auto simp: sentinel_ok_def list_all_iff dest: notin_set_remove1 [THEN contrapos_nn, rotated])
  moreover have "eq_closed q = eq_closed (sn_events s)" using queue_ops_closed(1) [of "sn_events s" x] q by simp
  ultimately show ?thesis
    using ok push_all [of motion_event "sn_events s" x] lifecycle_ok_cong [of s' s]
    by (auto simp: sentinel_ok_def submit_push_def q x)
next
  case (StFinish st w a)
  then show ?thesis
    using e ok lifecycle_ok_cong [of s' s] by (auto simp: sentinel_ok_def split: worker.splits)
next
  case (StSubmit x)
  show ?thesis
  proof (cases "submit_accepts s x")
    case True
    then have "motion_event x" by (simp add: submit_accepts_def motion_event_def)
    then show ?thesis using StSubmit True e ok lifecycle_ok_cong [of s' s] by (auto simp: sentinel_ok_def submit_check_def)
  qed (use StSubmit e ok in \<open>simp add: submit_check_def\<close>)
next
  case (StTop t)
  then show ?thesis using e ok lifecycle_ok_cong [of s' s] by (auto simp: sentinel_ok_def worker_top_def split: if_splits)
qed (use e ok lifecycle_ok_cong [of s' s] in \<open>auto simp: sentinel_ok_def sentinel_ops queue_reset_def queue_discard_pending_def queue_close_def Let_def
    split: if_splits lifecycle.splits\<close>)

lemma sentinel_ok_run: "sentinel_run s cs log s' \<Longrightarrow> sentinel_ok s \<Longrightarrow> sentinel_ok s'"
  by (induction rule: sentinel_run.induct) (auto intro: sentinel_ok_step)


section \<open>What triggers\<close>

lemma triggered_decide:
  assumes "sentinel_exec s c = Some s'" "t \<in> set (triggered c s')"
  obtains x where "c = StDecide (tr_steady t) (tr_wall t)" "sn_worker s = WkPopped x"
    "s' = worker_decide (tr_steady t) (tr_wall t) x s" "sn_worker s' = WkActing (tr_event t)"
  using assms by (cases c) (auto split: worker.splits)

text \<open>A trigger is the event the worker popped, new and fresh, while the service is armed.\<close>

lemma triggers_only:
  assumes "sentinel_exec s c = Some s'" "t \<in> set (triggered c s')"
  shows "sn_worker s = WkPopped (Some (tr_event t)) \<and> \<not> sn_stopping s \<and>
    ss_last_event_sequence (sn_status s) < ce_sequence (tr_event t) \<and>
    ss_last_event_sequence (sn_status s') = ce_sequence (tr_event t) \<and>
    ce_timestamp_ms (tr_event t) \<le> tr_wall t \<and> tr_wall t - ce_timestamp_ms (tr_event t) \<le> sp_max_event_age (sn_policy s) \<and>
    (ss_state (sn_status s) = SnArmed \<or> ss_state (sn_status s) = SnCooldown \<and> sn_cooldown_until_steady_ms s \<le> tr_steady t) \<and>
    triggered c s' = [t]"
proof -
  obtain x where x: "c = StDecide (tr_steady t) (tr_wall t)" "sn_worker s = WkPopped x"
    "s' = worker_decide (tr_steady t) (tr_wall t) x s" "sn_worker s' = WkActing (tr_event t)"
    using assms by (rule triggered_decide)
  have one: "triggered c s' = [t]" using x(1,4) by simp
  show ?thesis
  proof (rule worker_decide_cases [of s "tr_steady t" "tr_wall t" x])
    fix e
    assume d: "\<not> sn_stopping s" "x = Some e" "\<not> event_duplicate (update_cooldown (tr_steady t) s) e"
      "\<not> event_stale (update_cooldown (tr_steady t) s) (tr_wall t) e"
      "ss_state (sn_status (update_cooldown (tr_steady t) s)) = SnArmed"
      "worker_decide (tr_steady t) (tr_wall t) x s = (note_event e (update_cooldown (tr_steady t) s))\<lparr>sn_status :=
         (sn_status (note_event e (update_cooldown (tr_steady t) s)))\<lparr>ss_state := SnTriggered, ss_last_error := []\<rparr>, sn_worker := WkActing e\<rparr>"
    then have "e = tr_event t" using x by simp
    then show ?thesis
      using d x(2,3) one
      by (auto simp: event_duplicate_def event_stale_def note_event_sequence max_def update_cooldown_def split: if_splits)
  qed (use x in auto)
qed

lemma last_sequence_step:
  assumes "sentinel_exec s c = Some s'" "c \<noteq> StStartRun"
  shows "ss_last_event_sequence (sn_status s) \<le> ss_last_event_sequence (sn_status s')"
proof (cases c)
  case (StDecide st w)
  then obtain x where "s' = worker_decide st w x s" using assms by (auto split: worker.splits)
  then show ?thesis
    by (rule_tac worker_decide_cases [of s st w x]) (auto simp: note_event_sequence)
qed (use assms in \<open>auto simp: sentinel_ops split: if_splits lifecycle.splits worker.splits option.splits prod.splits\<close>)

lemma policy_step: "sentinel_exec s c = Some s' \<Longrightarrow> sn_policy s' = sn_policy s"
proof (cases c)
  case (StDecide st w)
  assume "sentinel_exec s c = Some s'"
  then obtain x where "s' = worker_decide st w x s" using StDecide by (auto split: worker.splits)
  then show ?thesis by (rule_tac worker_decide_cases [of s st w x]) auto
qed (auto simp: sentinel_ops split: if_splits lifecycle.splits worker.splits option.splits prod.splits)

section \<open>One start, one history\<close>

text \<open>After a start no trigger repeats or goes back, and each is the motion event of a submission, fresh by the
  wall clock the worker read.\<close>

definition fresh_trigger :: "sentinel_policy \<Rightarrow> trigger \<Rightarrow> bool" where
  "fresh_trigger p t \<longleftrightarrow> motion_event (tr_event t) \<and> ce_timestamp_ms (tr_event t) \<le> tr_wall t \<and>
     tr_wall t - ce_timestamp_ms (tr_event t) \<le> sp_max_event_age p"

definition log_ok :: "sentinel \<Rightarrow> trigger list \<Rightarrow> bool" where
  "log_ok s log \<longleftrightarrow> sorted_wrt (<) (map (\<lambda>t. ce_sequence (tr_event t)) log) \<and>
     (\<forall>t \<in> set log. ce_sequence (tr_event t) \<le> ss_last_event_sequence (sn_status s)) \<and> list_all (fresh_trigger (sn_policy s)) log"

lemma log_ok_step:
  assumes "sentinel_ok s" "log_ok s log" "sentinel_exec s c = Some s'" "c = StStartRun \<Longrightarrow> log = []"
  shows "log_ok s' (log @ triggered c s')"
proof (cases "triggered c s'")
  case Nil
  show ?thesis
  proof (cases "c = StStartRun")
    case True
    then show ?thesis using assms(4) Nil by (simp add: log_ok_def)
  next
    case False
    then show ?thesis
      using assms(2) last_sequence_step [OF assms(3) False] policy_step [OF assms(3)] Nil order_trans
      unfolding log_ok_def by fastforce
  qed
next
  case (Cons t ts)
  then have t: "t \<in> set (triggered c s')" by simp
  note facts = triggers_only [OF assms(3) t] policy_step [OF assms(3)]
  have "motion_event (tr_event t)" using assms(1) facts by (simp add: sentinel_ok_def)
  then have "fresh_trigger (sn_policy s') t" using facts by (simp add: fresh_trigger_def)
  moreover have "ce_sequence (tr_event u) < ce_sequence (tr_event t)" if "u \<in> set log" for u
    using facts assms(2) that by (auto simp: log_ok_def intro: le_less_trans)
  ultimately show ?thesis
    using assms(2) facts by (auto simp: log_ok_def sorted_wrt_append intro: less_imp_le)
qed

lemma log_ok_run:
  assumes "sentinel_run s cs log s'" "sentinel_ok s" "StStartRun \<notin> set (tl cs)"
  shows "log_ok s' log"
  using assms
proof (induction rule: sentinel_run.induct)
  case (step s steps log s' c s'')
  have "sentinel_ok s'" using sentinel_ok_run [OF step(1)] step(4) by blast
  moreover have "log_ok s' log" using step by (cases steps) auto
  moreover have "log = []" if "c = StStartRun"
  proof -
    have "steps = []" using that step(5) by (cases steps) auto
    then show ?thesis using step(1) by (auto elim: sentinel_run_NilE)
  qed
  ultimately show ?case using log_ok_step step(2) by blast
qed (simp add: log_ok_def)

text \<open>The events in the hands of a submitter, in the queue and with the worker; all of them were submitted.\<close>

definition known_events :: "(chassis_event \<Rightarrow> bool) \<Rightarrow> sentinel \<Rightarrow> bool" where
  "known_events P s \<longleftrightarrow> list_all P (eq_events (sn_events s)) \<and> list_all P (sn_submitting s) \<and>
     list_all P (worker_events (sn_worker s))"

lemma known_events_mono: "known_events P s \<Longrightarrow> (\<And>e. P e \<Longrightarrow> R e) \<Longrightarrow> known_events R s"
  by (auto simp: known_events_def list_all_iff)

lemma known_events_step:
  assumes known: "known_events P s" and e: "sentinel_exec s c = Some s'" and new: "\<And>x. c = StSubmit x \<Longrightarrow> P x"
  shows "known_events P s'"
proof (cases c)
  case (StPop d)
  then obtain n x q where p: "sn_worker s = WkWaiting n" "queue_pop (sn_events s) = (x, q)" "s' = s\<lparr>sn_events := q, sn_worker := WkPopped x\<rparr>"
    using e by (auto simp: worker_pop_def queue_wait_pop_for_def split: worker.splits option.splits prod.splits if_splits)
  then show ?thesis
    using known by (auto simp: known_events_def queue_pop_def split: list.splits)
next
  case (StDecide st w)
  then obtain x where x: "sn_worker s = WkPopped x" "s' = worker_decide st w x s"
    using e by (auto split: worker.splits)
  show ?thesis
    unfolding x(2)
    by (rule worker_decide_cases [of s st w x]) (use known x(1) in \<open>auto simp: known_events_def\<close>)
next
  case (StPush x)
  obtain r q where q: "queue_push (sn_events s) x = (r, q)" by force
  have x: "x \<in> set (sn_submitting s)" "s' = submit_push x s" using e StPush by (auto split: if_splits)
  then have "P x" using known by (auto simp: known_events_def list_all_iff)
  moreover have "list_all P (remove1 x (sn_submitting s))"
    using known by (auto simp: known_events_def list_all_iff dest: notin_set_remove1 [THEN contrapos_nn, rotated])
  ultimately show ?thesis
    using known push_all [of P "sn_events s" x] by (auto simp: known_events_def submit_push_def q x)
next
  case (StFinish st w a)
  then show ?thesis using e known by (auto simp: known_events_def split: worker.splits)
next
  case (StSubmit x)
  then show ?thesis using e known new [OF StSubmit] by (auto simp: known_events_def submit_check_def)
next
  case (StTop t)
  then show ?thesis using e known by (auto simp: known_events_def worker_top_def split: if_splits)
qed (use e known in \<open>auto simp: known_events_def sentinel_ops queue_reset_def queue_discard_pending_def queue_close_def Let_def
    split: if_splits lifecycle.splits\<close>)

lemma triggers_submitted:
  assumes "sentinel_run s cs log s'" "known_events (\<lambda>e. StSubmit e \<in> S) s" "set cs \<subseteq> S"
  shows "known_events (\<lambda>e. StSubmit e \<in> S) s' \<and> list_all (\<lambda>t. StSubmit (tr_event t) \<in> S) log"
  using assms
proof (induction rule: sentinel_run.induct)
  case (step s steps log s' c s'')
  then have k: "known_events (\<lambda>e. StSubmit e \<in> S) s'" "c \<in> S" and l: "list_all (\<lambda>t. StSubmit (tr_event t) \<in> S) log"
    by auto
  have "StSubmit (tr_event t) \<in> S" if "t \<in> set (triggered c s'')" for t
    using triggers_only [OF step(2) that] k(1) by (simp add: known_events_def)
  then show ?case
    using known_events_step [OF k(1) step(2)] k(2) l by (auto simp: list_all_iff)
qed simp

lemma policy_run: "sentinel_run s cs log s' \<Longrightarrow> sn_policy s' = sn_policy s"
  by (induction rule: sentinel_run.induct) (auto dest: policy_step)

section \<open>Disarming\<close>

lemma disarmed_step:
  assumes "sentinel_exec s c = Some s'" "ss_state (sn_status s) = SnDisabled" "c \<notin> {StArm True, StStartRun}"
  shows "ss_state (sn_status s') = SnDisabled \<and> triggered c s' = [] \<and>
    ss_accepted_events (sn_status s') = ss_accepted_events (sn_status s) \<and>
    ss_failed_events (sn_status s') = ss_failed_events (sn_status s)"
proof (cases c)
  case (StDecide st w)
  then obtain x where x: "sn_worker s = WkPopped x" "s' = worker_decide st w x s" using assms(1) by (auto split: worker.splits)
  have "update_cooldown st s = s" using assms(2) by (simp add: update_cooldown_def)
  then show ?thesis
    using assms(2) by (rule_tac worker_decide_cases [of s st w x]) (auto simp: StDecide x note_event_def)
next
  case (StArm b)
  then show ?thesis using assms by (cases b) (auto simp: arm_def)
qed (use assms in \<open>auto simp: sentinel_ops worker_finish_def split: if_splits lifecycle.splits worker.splits option.splits prod.splits\<close>)

lemma disarmed_run:
  "sentinel_run s cs log s' \<Longrightarrow> ss_state (sn_status s) = SnDisabled \<Longrightarrow> StArm True \<notin> set cs \<Longrightarrow> StStartRun \<notin> set cs \<Longrightarrow>
    log = [] \<and> ss_state (sn_status s') = SnDisabled \<and>
    ss_accepted_events (sn_status s') = ss_accepted_events (sn_status s) \<and>
    ss_failed_events (sn_status s') = ss_failed_events (sn_status s)"
proof (induction rule: sentinel_run.induct)
  case (step s steps log s' c s'')
  then show ?case using disarmed_step [of s' c s''] by auto
qed simp

section \<open>The cooldown\<close>

text \<open>The steady clock values that a history of steps reads.\<close>

fun steady_clocks :: "sentinel_step list \<Rightarrow> int list" where
  "steady_clocks [] = []"
| "steady_clocks (StDecide st w # cs) = st # steady_clocks cs"
| "steady_clocks (_ # cs) = steady_clocks cs"

lemma steady_clocks_append: "steady_clocks (cs @ ds) = steady_clocks cs @ steady_clocks ds"
  by (induction cs rule: steady_clocks.induct) auto

text \<open>While the service cools down until \<open>T\<close>, the worker acts on nothing.\<close>

definition cooling :: "int \<Rightarrow> sentinel \<Rightarrow> bool" where
  "cooling T s \<longleftrightarrow> ss_state (sn_status s) = SnCooldown \<and> sn_cooldown_until_steady_ms s = T \<and> (\<forall>e. sn_worker s \<noteq> WkActing e)"

definition shut :: "sentinel \<Rightarrow> bool" where
  "shut s \<longleftrightarrow> sn_worker s = WkNone \<and> \<not> sn_running s"

lemma cooling_step:
  assumes "sentinel_exec s c = Some s'" "cooling T s" "sentinel_ok s" "c \<noteq> StStartRun" "c \<noteq> StDisarm True"
  shows "cooling T s' \<and> triggered c s' = [] \<or> shut s' \<and> triggered c s' = [] \<or> (\<exists>st w. c = StDecide st w \<and> T \<le> st)"
proof (cases c)
  case (StDecide st w)
  then obtain x where x: "sn_worker s = WkPopped x" "s' = worker_decide st w x s" using assms(1) by (auto split: worker.splits)
  show ?thesis
  proof (cases "T \<le> st")
    case False
    then have "update_cooldown st s = s" using assms(2) by (simp add: update_cooldown_def cooling_def)
    then show ?thesis
      using assms(2) by (rule_tac worker_decide_cases [of s st w x]) (auto simp: StDecide x cooling_def)
  qed (use StDecide in blast)
next
  case (StDisarm b)
  then show ?thesis using assms by (cases b) (auto simp: disarm_mark_def cooling_def)
qed (use assms in \<open>auto simp: sentinel_ops cooling_def shut_def worker_finish_def split: if_splits lifecycle.splits worker.splits option.splits prod.splits\<close>)

lemma shut_step: "sentinel_exec s c = Some s' \<Longrightarrow> shut s \<Longrightarrow> c \<noteq> StStartRun \<Longrightarrow> shut s' \<and> triggered c s' = []"
  by (cases c) (auto simp: sentinel_ops shut_def split: if_splits lifecycle.splits worker.splits option.splits prod.splits)

lemma cooldown_run:
  assumes "sentinel_run s cs log s'" "cooling T s" "sentinel_ok s" "StStartRun \<notin> set cs" "StDisarm True \<notin> set cs"
    "sorted (steady_clocks cs)"
  shows "(cooling T s' \<and> log = [] \<or> shut s' \<and> log = [] \<or> (\<exists>t \<in> set (steady_clocks cs). T \<le> t)) \<and> (\<forall>t \<in> set log. T \<le> tr_steady t)"
  using assms
proof (induction rule: sentinel_run.induct)
  case (step s steps log s' c s'')
  have ok: "sentinel_ok s'" using sentinel_ok_run [OF step(1)] step(5) by blast
  have so: "sorted (steady_clocks steps)" using step(8) by (simp add: steady_clocks_append sorted_append)
  have ih: "cooling T s' \<and> log = [] \<or> shut s' \<and> log = [] \<or> (\<exists>t \<in> set (steady_clocks steps). T \<le> t)" "\<forall>t \<in> set log. T \<le> tr_steady t"
    using step so by auto
  have c: "c \<noteq> StStartRun" "c \<noteq> StDisarm True" using step by auto
  have late: "T \<le> tr_steady t" if tr: "t \<in> set (triggered c s'')" "\<exists>t \<in> set (steady_clocks steps). T \<le> t" for t
  proof -
    have "\<exists>w. c = StDecide (tr_steady t) w" by (rule triggered_decide [OF step(2) tr(1)]) blast
    then have "u \<le> tr_steady t" if "u \<in> set (steady_clocks steps)" for u
      using step(8) that by (auto simp: steady_clocks_append sorted_append)
    then show ?thesis using tr(2) by (meson order_trans)
  qed
  have own: "T \<le> tr_steady t" if tr: "t \<in> set (triggered c s'')" "c = StDecide st w" "T \<le> st" for t st w
    by (rule triggered_decide [OF step(2) tr(1)]) (use tr in simp)
  consider "cooling T s'" "log = []" | "shut s'" "log = []" | "\<exists>t \<in> set (steady_clocks steps). T \<le> t" using ih by blast
  then show ?case
  proof cases
    case 1
    then show ?thesis using cooling_step [OF step(2) 1(1) ok c] own by (fastforce simp: steady_clocks_append)
  next
    case 2
    then show ?thesis using shut_step [OF step(2) 2(1) c(1)] by simp
  next
    case 3
    then show ?thesis using late ih(2) by (auto simp: steady_clocks_append)
  qed
qed simp

section \<open>Stopping\<close>

definition worker_step :: "sentinel_step \<Rightarrow> bool" where
  "worker_step c \<longleftrightarrow> (case c of StTop _ \<Rightarrow> True | StPop _ \<Rightarrow> True | StDecide _ _ \<Rightarrow> True | StFinish _ _ _ \<Rightarrow> True | _ \<Rightarrow> False)"

fun steps_to_exit :: "worker \<Rightarrow> nat" where
  "steps_to_exit (WkActing e) = 2"
| "steps_to_exit (WkWaiting n) = 2"
| "steps_to_exit WkTop = 1"
| "steps_to_exit (WkPopped x) = 1"
| "steps_to_exit _ = 0"

lemma stopping_worker:
  assumes "sn_stopping s" "eq_closed (sn_events s)" "sn_worker s \<notin> {WkNone, WkExited}"
  obtains c s' where "worker_step c" "sentinel_exec s c = Some s'" "steps_to_exit (sn_worker s') < steps_to_exit (sn_worker s)"
    "sn_lifecycle s' = sn_lifecycle s" "sn_stopping s'" "eq_closed (sn_events s')" "sn_worker s' \<noteq> WkNone"
proof -
  have "\<exists>c s'. worker_step c \<and> sentinel_exec s c = Some s' \<and> steps_to_exit (sn_worker s') < steps_to_exit (sn_worker s) \<and>
    sn_lifecycle s' = sn_lifecycle s \<and> sn_stopping s' \<and> eq_closed (sn_events s') \<and> sn_worker s' \<noteq> WkNone"
  proof (cases "sn_worker s")
    case (WkActing e)
    then show ?thesis
      using assms by (intro exI [of _ "StFinish 0 0 undefined"] exI [of _ "worker_finish 0 0 undefined s"]) (simp add: worker_step_def)
  next
    case (WkWaiting n)
    have "eq_closed (snd (queue_pop (sn_events s)))" using assms by simp
    then show ?thesis
      using assms WkWaiting
      by (intro exI [of _ "StPop False"] exI [of _ "s\<lparr>sn_events := snd (queue_pop (sn_events s)), sn_worker := WkPopped (fst (queue_pop (sn_events s)))\<rparr>"])
        (auto simp: worker_step_def worker_pop_def queue_wait_pop_for_def queue_ready_def split: prod.splits)
  next
    case WkTop
    then show ?thesis
      using assms by (intro exI [of _ "StTop 0"] exI [of _ "s\<lparr>sn_worker := WkExited\<rparr>"]) (simp add: worker_step_def worker_top_def)
  next
    case (WkPopped x)
    then show ?thesis
      using assms by (intro exI [of _ "StDecide 0 0"] exI [of _ "s\<lparr>sn_worker := WkExited\<rparr>"]) (simp add: worker_step_def worker_decide_def)
  qed (use assms in auto)
  then show thesis using that by blast
qed

lemma run_Cons:
  assumes "sentinel_run s' cs log s''" "sentinel_exec s c = Some s'"
  shows "sentinel_run s (c # cs) (triggered c s' @ log) s''"
  using assms
proof (induction rule: sentinel_run.induct)
  case (start s')
  then show ?case using sentinel_run.step [OF sentinel_run.start, of s c s'] by simp
next
  case (step s' steps log s'' d s''')
  then show ?case using sentinel_run.step [OF step(3) [OF step(4)] step(2)] by simp
qed

lemma stopping_exits:
  "sn_stopping s \<Longrightarrow> eq_closed (sn_events s) \<Longrightarrow> sn_worker s \<noteq> WkNone \<Longrightarrow> sn_lifecycle s = LcStopDiscarded \<Longrightarrow>
    \<exists>cs log s'. length cs \<le> steps_to_exit (sn_worker s) \<and> list_all worker_step cs \<and> sentinel_run s cs log s' \<and>
      sn_worker s' = WkExited \<and> sn_lifecycle s' = LcStopDiscarded"
proof (induction "steps_to_exit (sn_worker s)" arbitrary: s rule: less_induct)
  case less
  show ?case
  proof (cases "sn_worker s = WkExited")
    case True
    then show ?thesis using less.prems by (intro exI [of _ "[]"]) (auto intro: sentinel_run.start)
  next
    case False
    then obtain c s' where c: "worker_step c" "sentinel_exec s c = Some s'" "steps_to_exit (sn_worker s') < steps_to_exit (sn_worker s)"
        "sn_lifecycle s' = sn_lifecycle s" "sn_stopping s'" "eq_closed (sn_events s')" "sn_worker s' \<noteq> WkNone"
      using stopping_worker [of s] less.prems by blast
    then obtain cs log s'' where "length cs \<le> steps_to_exit (sn_worker s')" "list_all worker_step cs" "sentinel_run s' cs log s''"
        "sn_worker s'' = WkExited" "sn_lifecycle s'' = LcStopDiscarded"
      using less.hyps [of s'] less.prems by auto
    then show ?thesis using c run_Cons [of s' cs log s'' s c] by (intro exI [of _ "c # cs"]) auto
  qed
qed

text \<open>The relation is the function that plays the steps.\<close>

fun sentinel_play :: "sentinel \<Rightarrow> sentinel_step list \<Rightarrow> (trigger list \<times> sentinel) option" where
  "sentinel_play s [] = Some ([], s)"
| "sentinel_play s (c # cs) =
     (case sentinel_exec s c of
        None \<Rightarrow> None
      | Some s' \<Rightarrow> (case sentinel_play s' cs of None \<Rightarrow> None | Some (log, s'') \<Rightarrow> Some (triggered c s' @ log, s'')))"

lemma sentinel_play_run: "sentinel_play s cs = Some (log, s') \<Longrightarrow> sentinel_run s cs log s'"
  by (induction s cs arbitrary: log s' rule: sentinel_play.induct)
    (auto intro: sentinel_run.start run_Cons split: option.splits)

section \<open>Properties\<close>

text \<open>
  C24: after any history of the service, from a start to the next, and whatever the interleaving: each event
  the worker acts on was submitted, is a motion event, and by the wall clock the worker read neither older
  than the policy allows nor from the future; and it acts on each sequence number at most once, in rising order.
\<close>

theorem sentinel_acts_once_on_fresh_events:
  assumes "sentinel_run (sentinel_new p has_actions) before log0 s0"
    and "sentinel_run s0 cs log s" "StStartRun \<notin> set (tl cs)"
  shows "sorted_wrt (<) (map (\<lambda>t. ce_sequence (tr_event t)) log) \<and>
    list_all (\<lambda>t. StSubmit (tr_event t) \<in> set (before @ cs) \<and> motion_event (tr_event t) \<and>
      ce_timestamp_ms (tr_event t) \<le> tr_wall t \<and> tr_wall t - ce_timestamp_ms (tr_event t) \<le> sp_max_event_age p) log"
proof -
  let ?S = "set (before @ cs)"
  have new: "sentinel_ok s0" "known_events (\<lambda>e. StSubmit e \<in> ?S) (sentinel_new p has_actions)"
    using sentinel_ok_run [OF assms(1) sentinel_ok_new] by (simp_all add: known_events_def sentinel_new_def queue_new_def)
  have "known_events (\<lambda>e. StSubmit e \<in> ?S) s0"
    using triggers_submitted [OF assms(1) new(2)] by simp
  then have "list_all (\<lambda>t. StSubmit (tr_event t) \<in> ?S) log"
    by (rule triggers_submitted [OF assms(2), THEN conjunct2]) simp
  moreover have "sn_policy s = p"
    using policy_run [OF assms(1)] policy_run [OF assms(2)] by (simp add: sentinel_new_def)
  moreover have "log_ok s log"
    using log_ok_run [OF assms(2) new(1) assms(3)] .
  ultimately show ?thesis by (auto simp: log_ok_def fresh_trigger_def list_all_iff)
qed

definition sample_event :: "u64 \<Rightarrow> chassis_event" where
  "sample_event n = \<lparr> ce_sequence = n, ce_timestamp_ms = 100, ce_type = CeMotionDetected, ce_source = [], ce_sensor_id = 0, ce_motion_detected = True \<rparr>"

definition sample_trigger :: "sentinel_step list" where
  "sample_trigger = [StStart True, StStartReset, StStartRun, StSubmit (sample_event 1), StPush (sample_event 1), StTop 0, StPop False,
     StDecide 50 120]"

definition sample_results :: action_results where
  "sample_results = \<lparr> ar_prepare = (True, []), ar_snapshot = (True, []), ar_snapshot_path = ''p'', ar_record = (True, []) \<rparr>"

lemmas sentinel_eval = sentinel_ops worker_decide_def worker_finish_def update_cooldown_def event_duplicate_def event_stale_def
  note_event_def submit_accepts_def sentinel_new_def status_new_def queue_new_def queue_push_def queue_pop_def queue_reset_def
  queue_ready_def queue_wait_pop_for_def queue_close_def queue_discard_pending_def default_sentinel_policy_def sample_event_def
  sample_trigger_def sample_results_def actions_succeed_def

lemma sample_played:
  "\<exists>s. sentinel_play (sentinel_new default_sentinel_policy True) sample_trigger =
    Some ([\<lparr> tr_event = sample_event 1, tr_steady = 50, tr_wall = 120 \<rparr>], s) \<and> sn_worker s = WkActing (sample_event 1) \<and>
    \<not> sn_stopping s \<and> sn_running s \<and> ss_state (sn_status s) = SnTriggered"
  by (simp add: sentinel_eval)

text \<open>The same steps, split before the service runs.\<close>

lemma sample_split:
  "\<exists>s0 s. sentinel_play (sentinel_new default_sentinel_policy True) (take 2 sample_trigger) = Some ([], s0) \<and>
     sentinel_play s0 (drop 2 sample_trigger) = Some ([\<lparr> tr_event = sample_event 1, tr_steady = 50, tr_wall = 120 \<rparr>], s)"
  by (simp add: sentinel_eval)

theorem sentinel_acts_once_on_fresh_events_witness:
  "StSubmit (sample_event 1) \<in> set sample_trigger \<and> motion_event (sample_event 1) \<and>
     (120 :: int) - ce_timestamp_ms (sample_event 1) \<le> 5000"
proof -
  obtain s0 s where s: "sentinel_play (sentinel_new default_sentinel_policy True) (take 2 sample_trigger) = Some ([], s0)"
    "sentinel_play s0 (drop 2 sample_trigger) = Some ([\<lparr> tr_event = sample_event 1, tr_steady = 50, tr_wall = 120 \<rparr>], s)"
    using sample_split by blast
  have "StStartRun \<notin> set (tl (drop 2 sample_trigger))" by (simp add: sample_trigger_def)
  from sentinel_acts_once_on_fresh_events [OF sentinel_play_run [OF s(1)] sentinel_play_run [OF s(2)] this]
  show ?thesis unfolding append_take_drop_id by (simp add: default_sentinel_policy_def)
qed

text \<open>
  After a completed trigger the worker acts on nothing for the whole cooldown, on the steady clock, whatever
  else happens, unless the service is disarmed or started anew.
\<close>

theorem cooldown_respected:
  assumes "sentinel_run (sentinel_new p has_actions) cs log s" "sentinel_exec s (StFinish now wall results) = Some s'"
    and "\<not> sn_stopping s" "ss_state (sn_status s) \<noteq> SnDisabled"
    and "sentinel_run s' cs' log' s''" "StStartRun \<notin> set cs'" "StDisarm True \<notin> set cs'" "sorted (steady_clocks cs')"
  shows "list_all (\<lambda>t. now + sp_cooldown p \<le> tr_steady t) log'"
proof -
  have "sn_policy s = p" using assms(1)
  proof (induction "sentinel_new p has_actions" cs log s rule: sentinel_run.induct)
    case (step steps log s' c s'')
    then show ?case using policy_step by auto
  qed (simp add: sentinel_new_def)
  then have "cooling (now + sp_cooldown p) s'"
    using assms(2-4) by (auto simp: cooling_def worker_finish_def Let_def split: worker.splits)
  moreover have "sentinel_ok s'"
    using sentinel_ok_step [OF sentinel_ok_run [OF assms(1) sentinel_ok_new] assms(2)] .
  ultimately show ?thesis using cooldown_run [OF assms(5) _ _ assms(6-8)] by (simp add: list_all_iff)
qed

theorem cooldown_respected_witness:
  "\<exists>log s. sentinel_play (the (sentinel_exec (snd (the (sentinel_play (sentinel_new default_sentinel_policy True) sample_trigger)))
        (StFinish 60 130 sample_results)))
      [StSubmit (sample_event 2), StPush (sample_event 2), StTop 70, StPop False, StDecide 30060 130] = Some (log, s) \<and>
    log \<noteq> [] \<and> list_all (\<lambda>t. 60 + 30000 \<le> tr_steady t) log"
proof -
  let ?s = "snd (the (sentinel_play (sentinel_new default_sentinel_policy True) sample_trigger))"
  let ?s' = "the (sentinel_exec ?s (StFinish 60 130 sample_results))"
  let ?cs = "[StSubmit (sample_event 2), StPush (sample_event 2), StTop 70, StPop False, StDecide 30060 130]"
  obtain log where r: "sentinel_play (sentinel_new default_sentinel_policy True) sample_trigger = Some (log, ?s)"
    "\<not> sn_stopping ?s" "ss_state (sn_status ?s) \<noteq> SnDisabled" "sn_worker ?s = WkActing (sample_event 1)"
    using sample_played by auto
  have f: "sentinel_exec ?s (StFinish 60 130 sample_results) = Some ?s'" using r by simp
  have "\<exists>log' s''. sentinel_play ?s' ?cs = Some (log', s'') \<and> log' \<noteq> []" by (simp add: sentinel_eval Let_def word_le_nat_alt)
  then obtain log' s'' where p: "sentinel_play ?s' ?cs = Some (log', s'')" "log' \<noteq> []" by blast
  show ?thesis
    using cooldown_respected [OF sentinel_play_run [OF r(1)] f r(2,3) sentinel_play_run [OF p(1)]] p
    by (simp add: default_sentinel_policy_def)
qed

text \<open>
  Once disarmed, the service stays quiet until the next arming or start: the worker begins no action, and the
  one it may be in the middle of is not counted and starts no cooldown.
\<close>

theorem disarmed_stays_quiet:
  assumes "disarm_mark True s = (True, e, s')" "sentinel_run s' cs log s''" "StArm True \<notin> set cs" "StStartRun \<notin> set cs"
  shows "log = [] \<and> ss_state (sn_status s'') = SnDisabled \<and>
    ss_accepted_events (sn_status s'') = ss_accepted_events (sn_status s) \<and>
    ss_failed_events (sn_status s'') = ss_failed_events (sn_status s)"
proof -
  have "ss_state (sn_status s') = SnDisabled" "ss_accepted_events (sn_status s') = ss_accepted_events (sn_status s)"
    "ss_failed_events (sn_status s') = ss_failed_events (sn_status s)"
    using assms(1) by (auto simp: disarm_mark_def split: if_splits)
  then show ?thesis using disarmed_run [OF assms(2)] assms(3,4) by simp
qed

theorem disarmed_stays_quiet_witness:
  "\<exists>s s'. disarm_mark True s = (True, [], s') \<and> sn_worker s = WkActing (sample_event 1) \<and>
    (\<exists>s''. sentinel_play s' [StFinish 60 130 sample_results] = Some ([], s'') \<and> ss_state (sn_status s'') = SnDisabled)"
proof -
  obtain log s where s: "sentinel_play (sentinel_new default_sentinel_policy True) sample_trigger = Some (log, s)"
    "\<not> sn_stopping s" "sn_running s" "sn_worker s = WkActing (sample_event 1)" using sample_played by blast
  define s' where "s' = snd (snd (disarm_mark True s))"
  have d: "disarm_mark True s = (True, [], s')" "sn_worker s' = WkActing (sample_event 1)" using s by (simp_all add: disarm_mark_def s'_def)
  obtain s'' where p: "sentinel_play s' [StFinish 60 130 sample_results] = Some ([], s'')" using d by simp
  have "ss_state (sn_status s'') = SnDisabled" using disarmed_stays_quiet [OF d(1) sentinel_play_run [OF p]] by simp
  then show ?thesis using p d(1) s(4) by blast
qed

text \<open>
  \<open>Stop\<close> returns: once it has closed the queue, the worker leaves its loop after at most two more of its own
  steps, each of which it can take, and the join succeeds.
\<close>

theorem stop_returns:
  assumes "sentinel_run (sentinel_new p has_actions) cs log s" "sn_lifecycle s = LcStopDiscarded"
  shows "\<exists>cs' log' s'. length cs' \<le> 2 \<and> list_all worker_step cs' \<and> sentinel_run s (cs' @ [StStopJoin]) log' s' \<and>
    \<not> sn_running s' \<and> sn_lifecycle s' = LcFree"
proof -
  have "sentinel_ok s" using sentinel_ok_run [OF assms(1) sentinel_ok_new] .
  then have s: "sn_stopping s" "eq_closed (sn_events s)" "sn_worker s \<noteq> WkNone" using assms(2) by (auto simp: sentinel_ok_def)
  obtain cs' log' s' where c: "length cs' \<le> steps_to_exit (sn_worker s)" "list_all worker_step cs'" "sentinel_run s cs' log' s'"
    "sn_worker s' = WkExited" "sn_lifecycle s' = LcStopDiscarded" using stopping_exits [OF s assms(2)] by blast
  have "sentinel_exec s' StStopJoin = Some (stop_join s')" using c by simp
  from sentinel_run.step [OF c(3) this] have "sentinel_run s (cs' @ [StStopJoin]) log' (stop_join s')" by simp
  moreover have "steps_to_exit (sn_worker s) \<le> 2" by (cases "sn_worker s") auto
  ultimately show ?thesis using c(1,2) by (intro exI [of _ cs'] exI [of _ log'] exI [of _ "stop_join s'"]) (auto simp: stop_join_def)
qed

theorem stop_returns_witness:
  "\<exists>s cs' log' s'. sn_worker s = WkActing (sample_event 1) \<and> length cs' \<le> 2 \<and>
    sentinel_run s (cs' @ [StStopJoin]) log' s' \<and> \<not> sn_running s'"
proof -
  let ?r = "sentinel_play (sentinel_new default_sentinel_policy True) (sample_trigger @ [StStop, StStopClose, StStopDiscard])"
  have "\<exists>log s. ?r = Some (log, s) \<and> sn_lifecycle s = LcStopDiscarded \<and> sn_worker s = WkActing (sample_event 1)"
    by (simp add: sentinel_eval)
  then obtain log s where "?r = Some (log, s)" "sn_lifecycle s = LcStopDiscarded" "sn_worker s = WkActing (sample_event 1)" by blast
  then show ?thesis using stop_returns [OF sentinel_play_run] by blast
qed

end
