(* ===== verification/Nav_Bridge.thy ===== *)
theory Nav_Bridge
  imports Float64
begin

text \<open>
  \<open>cockpit/ros/bridge\<close>: the service that admits one navigation goal at a time to a provider, with its timeout
  and cancellation, and the two providers without hardware. A provider is a state with three operations
  (\<open>NavigationProvider\<close>); the laws the service needs of one are the locale \<open>navigation_provider\<close>. The clock
  readings of a call are its arguments, in the order of the code.
\<close>

section \<open>Goals and states\<close>

datatype navigation_state = NvDisabled | NvIdle | NvAccepted | NvExecuting | NvSucceeded | NvCancelled | NvRejected
  | NvFailed | NvTimedOut | NvDisconnected

record navigation_pose =
  np_x_m :: f64
  np_y_m :: f64
  np_yaw_rad :: f64
  np_frame_id :: string
  np_timestamp_ms :: int

record navigation_goal =
  ng_goal_id :: string
  ng_target :: navigation_pose

record navigation_status =
  nv_state :: navigation_state
  nv_goal_id :: string
  nv_target :: navigation_pose
  nv_current_pose :: navigation_pose
  nv_current_pose_valid :: bool
  nv_accepted_at_ms :: int
  nv_updated_at_ms :: int
  nv_message :: string
  nv_last_error :: string

definition pose_new :: navigation_pose where
  "pose_new = \<lparr> np_x_m = Fin 0 0, np_y_m = Fin 0 0, np_yaw_rad = Fin 0 0, np_frame_id = ''map'', np_timestamp_ms = 0 \<rparr>"

definition nav_status_new :: navigation_status where
  "nav_status_new = \<lparr> nv_state = NvDisabled, nv_goal_id = [], nv_target = pose_new, nv_current_pose = pose_new,
     nv_current_pose_valid = False, nv_accepted_at_ms = 0, nv_updated_at_ms = 0, nv_message = [], nv_last_error = [] \<rparr>"

definition is_active_state :: "navigation_state \<Rightarrow> bool" where
  "is_active_state s \<longleftrightarrow> s = NvAccepted \<or> s = NvExecuting"

definition is_confirmed_terminal :: "navigation_state \<Rightarrow> bool" where
  "is_confirmed_terminal s \<longleftrightarrow> s = NvCancelled \<or> s = NvFailed \<or> s = NvSucceeded"

fun navigation_state_name :: "navigation_state \<Rightarrow> string" where
  "navigation_state_name NvDisabled = ''DISABLED''"
| "navigation_state_name NvIdle = ''IDLE''"
| "navigation_state_name NvAccepted = ''ACCEPTED''"
| "navigation_state_name NvExecuting = ''EXECUTING''"
| "navigation_state_name NvSucceeded = ''SUCCEEDED''"
| "navigation_state_name NvCancelled = ''CANCELLED''"
| "navigation_state_name NvRejected = ''REJECTED''"
| "navigation_state_name NvFailed = ''FAILED''"
| "navigation_state_name NvTimedOut = ''TIMED_OUT''"
| "navigation_state_name NvDisconnected = ''DISCONNECTED''"

section \<open>Providers\<close>

record 'p nav_provider =
  pv_submit :: "navigation_goal \<Rightarrow> 'p \<Rightarrow> navigation_status \<times> 'p"
  pv_cancel :: "string \<Rightarrow> 'p \<Rightarrow> navigation_status \<times> 'p"
  pv_get :: "'p \<Rightarrow> navigation_status \<times> 'p"

subsection \<open>The disabled provider\<close>

definition disabled_status :: navigation_status where
  "disabled_status = nav_status_new\<lparr>nv_state := NvDisabled, nv_message := ''bridge provider is disabled''\<rparr>"

definition disabled_provider :: "unit nav_provider" where
  "disabled_provider = \<lparr> pv_submit = (\<lambda>g p. (disabled_status, p)), pv_cancel = (\<lambda>i p. (disabled_status, p)),
     pv_get = (\<lambda>p. (disabled_status, p)) \<rparr>"

subsection \<open>The fake provider\<close>

datatype fake_outcome = FkSucceeded | FkRejected | FkFailed | FkStalled | FkDisconnected

definition parse_fake_outcome :: "string \<Rightarrow> fake_outcome option" where
  "parse_fake_outcome value =
     (if value = ''succeeded'' then Some FkSucceeded
      else if value = ''rejected'' then Some FkRejected
      else if value = ''failed'' then Some FkFailed
      else if value = ''stalled'' then Some FkStalled
      else if value = ''disconnected'' then Some FkDisconnected
      else None)"

record fake_provider =
  fk_outcome :: fake_outcome
  fk_status :: navigation_status
  fk_query_count :: int
  fk_disconnected_pending_recovery :: bool

definition fake_new :: "fake_outcome \<Rightarrow> fake_provider" where
  "fake_new outcome = \<lparr> fk_outcome = outcome, fk_status = nav_status_new\<lparr>nv_state := NvIdle\<rparr>, fk_query_count = 0,
     fk_disconnected_pending_recovery = False \<rparr>"

definition fake_submit :: "navigation_goal \<Rightarrow> fake_provider \<Rightarrow> navigation_status \<times> fake_provider" where
  "fake_submit goal p =
     (let st = nav_status_new\<lparr>nv_goal_id := ng_goal_id goal, nv_target := ng_target goal,
                 nv_current_pose := (nv_current_pose nav_status_new)\<lparr>np_frame_id := np_frame_id (ng_target goal)\<rparr>\<rparr>;
          p = p\<lparr>fk_query_count := 0\<rparr>;
          p' = (if fk_outcome p = FkDisconnected then
                  p\<lparr>fk_status := st\<lparr>nv_state := NvDisconnected, nv_message := ''fake bridge disconnected'',
                      nv_last_error := ''fake bridge disconnected''\<rparr>, fk_disconnected_pending_recovery := True\<rparr>
                else if fk_outcome p = FkRejected then
                  p\<lparr>fk_status := st\<lparr>nv_state := NvRejected, nv_message := ''fake bridge goal rejected'',
                      nv_last_error := ''fake bridge goal rejected''\<rparr>\<rparr>
                else p\<lparr>fk_status := st\<lparr>nv_state := NvAccepted, nv_message := ''fake bridge goal accepted''\<rparr>\<rparr>)
      in (fk_status p', p'))"

definition fake_cancel :: "string \<Rightarrow> fake_provider \<Rightarrow> navigation_status \<times> fake_provider" where
  "fake_cancel goal_id p =
     (let p' = (if \<not> is_active_state (nv_state (fk_status p)) \<or> goal_id \<noteq> nv_goal_id (fk_status p) then
                  p\<lparr>fk_status := (fk_status p)\<lparr>nv_state := NvRejected, nv_message := ''fake bridge cancel rejected'',
                      nv_last_error := ''fake bridge cancel rejected''\<rparr>\<rparr>
                else
                  p\<lparr>fk_status := (fk_status p)\<lparr>nv_state := NvCancelled, nv_message := ''fake bridge goal cancelled'',
                      nv_last_error := []\<rparr>\<rparr>)
      in (fk_status p', p'))"

definition half :: "f64 \<Rightarrow> f64" where
  "half x = f64_mul x (Fin 1 (- 1))"

definition fake_advance :: "fake_provider \<Rightarrow> fake_provider" where
  "fake_advance p =
     (let st = fk_status p; p = p\<lparr>fk_query_count := fk_query_count p + 1\<rparr> in
      if nv_state st = NvAccepted then
        p\<lparr>fk_status := st\<lparr>nv_state := NvExecuting, nv_message := ''fake bridge executing'',
            nv_current_pose := (nv_current_pose st)\<lparr>np_x_m := half (np_x_m (nv_target st)), np_y_m := half (np_y_m (nv_target st)),
              np_yaw_rad := half (np_yaw_rad (nv_target st))\<rparr>, nv_current_pose_valid := True\<rparr>\<rparr>
      else if fk_query_count p < 2 \<or> fk_outcome p = FkStalled then p
      else if fk_outcome p = FkFailed then
        p\<lparr>fk_status := st\<lparr>nv_state := NvFailed, nv_message := ''fake bridge failed'', nv_last_error := ''fake bridge failed''\<rparr>\<rparr>
      else
        p\<lparr>fk_status := st\<lparr>nv_state := NvSucceeded, nv_message := ''fake bridge succeeded'', nv_current_pose := nv_target st,
            nv_current_pose_valid := True, nv_last_error := []\<rparr>\<rparr>)"

definition fake_get :: "fake_provider \<Rightarrow> navigation_status \<times> fake_provider" where
  "fake_get p =
     (let st = fk_status p;
          p' = (if nv_state st = NvDisconnected \<and> fk_disconnected_pending_recovery p then
                  p\<lparr>fk_disconnected_pending_recovery := False,
                    fk_status := nav_status_new\<lparr>nv_state := NvIdle, nv_message := ''fake bridge recovered''\<rparr>\<rparr>
                else if \<not> is_active_state (nv_state st) then
                  (if nv_state st = NvDisabled then
                     p\<lparr>fk_status := st\<lparr>nv_state := NvIdle, nv_message := ''fake bridge ready''\<rparr>\<rparr>
                   else p)
                else fake_advance p)
      in (fk_status p', p'))"

definition fake_navigation :: "fake_provider nav_provider" where
  "fake_navigation = \<lparr> pv_submit = fake_submit, pv_cancel = fake_cancel, pv_get = fake_get \<rparr>"

section \<open>The service\<close>

text \<open>\<open>None\<close> is a null provider pointer.\<close>

record 'p bridge =
  br_provider :: "'p option"
  br_goal_timeout_ms :: int
  br_status :: navigation_status
  br_accepted_at_steady_ms :: int
  br_timeout_cancel_requested :: bool

definition bridge_new :: "'p option \<Rightarrow> int \<Rightarrow> int \<Rightarrow> 'p bridge" where
  "bridge_new provider goal_timeout_ms wall_now = \<lparr> br_provider = provider, br_goal_timeout_ms = goal_timeout_ms,
     br_status = nav_status_new\<lparr>nv_state := if provider = None then NvDisabled else NvIdle, nv_updated_at_ms := wall_now\<rparr>,
     br_accepted_at_steady_ms = 0, br_timeout_cancel_requested = False \<rparr>"

definition goal_id_char :: "char \<Rightarrow> bool" where
  "goal_id_char c \<longleftrightarrow> (let n = (of_char c :: nat) in 48 \<le> n \<and> n \<le> 57 \<or> 65 \<le> n \<and> n \<le> 90 \<or> 97 \<le> n \<and> n \<le> 122) \<or>
     c = CHR ''_'' \<or> c = CHR ''-'' \<or> c = CHR ''.''"

definition validate_goal :: "navigation_goal \<Rightarrow> string option" where
  "validate_goal goal =
     (if ng_goal_id goal = [] \<or> length (ng_goal_id goal) > 64 \<or> \<not> list_all goal_id_char (ng_goal_id goal) then
        Some ''goal_id must contain 1-64 allowlisted characters''
      else if np_frame_id (ng_target goal) \<noteq> ''map'' then Some ''bridge target frame_id must be map''
      else if \<not> is_finite (np_x_m (ng_target goal)) \<or> \<not> is_finite (np_y_m (ng_target goal)) \<or> \<not> is_finite (np_yaw_rad (ng_target goal)) then
        Some ''bridge target coordinates must be finite''
      else None)"

definition timed_out :: "navigation_status \<Rightarrow> navigation_status" where
  "timed_out st = (if nv_state st = NvCancelled then
     st\<lparr>nv_state := NvTimedOut, nv_message := ''bridge goal timed out; cancellation confirmed'',
        nv_last_error := ''bridge goal timed out; cancellation confirmed''\<rparr> else st)"

text \<open>The first half of \<open>RefreshLocked\<close>: what the provider reports of the goal.\<close>

definition refresh_status :: "'p nav_provider \<Rightarrow> 'p bridge \<Rightarrow> 'p \<Rightarrow> 'p bridge" where
  "refresh_status ops b p =
     (case pv_get ops p of (refreshed, p') \<Rightarrow>
        let b = b\<lparr>br_provider := Some p'\<rparr>; st = br_status b in
        if nv_goal_id st = [] \<or> nv_goal_id refreshed = [] \<or> nv_goal_id refreshed = nv_goal_id st then
          (if br_timeout_cancel_requested b \<and> \<not> is_active_state (nv_state refreshed) \<and> \<not> is_confirmed_terminal (nv_state refreshed) then b
           else
             b\<lparr>br_status := refreshed\<lparr>nv_accepted_at_ms := if nv_goal_id refreshed = [] then 0 else nv_accepted_at_ms st\<rparr>,
               br_accepted_at_steady_ms := if is_active_state (nv_state refreshed) then br_accepted_at_steady_ms b else 0\<rparr>)
        else b)"

text \<open>Its second half: the timeout of the goal.\<close>

definition retain_guard :: "int \<Rightarrow> 'p bridge \<Rightarrow> 'p bridge" where
  "retain_guard wall_now b = b\<lparr>br_status := (br_status b)\<lparr>nv_message := ''bridge goal timed out; retaining active guard'',
     nv_last_error := ''goal timeout; cancellation not confirmed'', nv_updated_at_ms := wall_now\<rparr>\<rparr>"

definition refresh_timeout :: "'p nav_provider \<Rightarrow> int \<Rightarrow> int \<Rightarrow> 'p bridge \<Rightarrow> 'p bridge" where
  "refresh_timeout ops steady_now wall_now b =
     (let st = br_status b in
      if br_timeout_cancel_requested b \<and> is_confirmed_terminal (nv_state st) then
        b\<lparr>br_accepted_at_steady_ms := 0, br_status := (timed_out st)\<lparr>nv_updated_at_ms := wall_now\<rparr>\<rparr>
      else if is_active_state (nv_state st) \<and> br_accepted_at_steady_ms b > 0 \<and>
          steady_now - br_accepted_at_steady_ms b \<ge> br_goal_timeout_ms b then
        (if \<not> br_timeout_cancel_requested b then
           (case br_provider b of
              None \<Rightarrow> b
            | Some p \<Rightarrow>
                (case pv_cancel ops (nv_goal_id st) p of (cancellation, p') \<Rightarrow>
                   let b = b\<lparr>br_provider := Some p', br_timeout_cancel_requested := True\<rparr> in
                   if is_confirmed_terminal (nv_state cancellation) then
                     b\<lparr>br_accepted_at_steady_ms := 0,
                       br_status := (timed_out (cancellation\<lparr>nv_accepted_at_ms := nv_accepted_at_ms st\<rparr>))\<lparr>nv_updated_at_ms := wall_now\<rparr>\<rparr>
                   else retain_guard wall_now b))
         else retain_guard wall_now b)
      else b\<lparr>br_status := st\<lparr>nv_updated_at_ms := wall_now\<rparr>\<rparr>)"

definition refresh :: "'p nav_provider \<Rightarrow> int \<Rightarrow> int \<Rightarrow> 'p bridge \<Rightarrow> 'p bridge" where
  "refresh ops steady_now wall_now b =
     (case br_provider b of
        None \<Rightarrow> b
      | Some p \<Rightarrow>
          if nv_state (br_status b) = NvTimedOut then b
          else refresh_timeout ops steady_now wall_now (refresh_status ops b p))"

text \<open>The clock readings of one call: at the refresh, at the acceptance, and at the end.\<close>

record bridge_clocks =
  bc_steady :: int
  bc_wall :: int
  bc_steady_accepted :: int
  bc_wall_accepted :: int
  bc_wall_updated :: int

text \<open>The results are the value, the error string, the status handed out (\<open>None\<close> when \<open>*status\<close> is not written)
  and the service.\<close>

definition bridge_submit ::
  "'p nav_provider \<Rightarrow> bridge_clocks \<Rightarrow> navigation_goal \<Rightarrow> 'p bridge \<Rightarrow> bool \<times> string \<times> navigation_status option \<times> 'p bridge" where
  "bridge_submit ops c goal b0 =
     (case validate_goal goal of
        Some e \<Rightarrow> (False, e, None, b0)
      | None \<Rightarrow>
          (let b = refresh ops (bc_steady c) (bc_wall c) b0 in
           case br_provider b of
             None \<Rightarrow> (False, ''bridge provider is unavailable'', Some (br_status b), b)
           | Some p \<Rightarrow>
               if nv_state (br_status b) = NvDisabled \<or> nv_state (br_status b) = NvDisconnected then
                 (False, ''bridge provider is unavailable'', Some (br_status b), b)
               else if is_active_state (nv_state (br_status b)) then
                 (False, ''a bridge goal is already active'', Some (br_status b), b)
               else
                 (case pv_submit ops goal p of (st, p') \<Rightarrow>
                    let active = is_active_state (nv_state st);
                        st' = st\<lparr>nv_accepted_at_ms := if active then bc_wall_accepted c else 0, nv_updated_at_ms := bc_wall_updated c\<rparr>;
                        b' = b\<lparr>br_provider := Some p', br_status := st', br_timeout_cancel_requested := False,
                               br_accepted_at_steady_ms := if active then bc_steady_accepted c else 0\<rparr>
                    in if nv_state st' = NvRejected \<or> nv_state st' = NvDisconnected \<or> nv_state st' = NvFailed then
                         (False, if nv_last_error st' = [] then nv_message st' else nv_last_error st', Some st', b')
                       else (True, [], Some st', b'))))"

definition bridge_cancel ::
  "'p nav_provider \<Rightarrow> bridge_clocks \<Rightarrow> string \<Rightarrow> 'p bridge \<Rightarrow> bool \<times> string \<times> navigation_status option \<times> 'p bridge" where
  "bridge_cancel ops c goal_id b0 =
     (let b = refresh ops (bc_steady c) (bc_wall c) b0; st = br_status b in
      if \<not> is_active_state (nv_state st) then (False, ''no active bridge goal'', Some st, b)
      else if goal_id = [] \<or> goal_id \<noteq> nv_goal_id st then
        (False, ''cancel goal_id does not match the active goal'', Some st, b)
      else
        (case br_provider b of
           None \<Rightarrow> (False, [], None, b)
         | Some p \<Rightarrow>
             (case pv_cancel ops goal_id p of (cancellation, p') \<Rightarrow>
                let confirmed = is_confirmed_terminal (nv_state cancellation);
                    st1 = (if confirmed then cancellation
                      else st\<lparr>nv_last_error := if nv_last_error cancellation = [] then ''bridge cancellation not confirmed''
                                else nv_last_error cancellation\<rparr>);
                    st2 = st1\<lparr>nv_accepted_at_ms := nv_accepted_at_ms st, nv_updated_at_ms := bc_wall_updated c\<rparr>;
                    b' = (if confirmed then b\<lparr>br_accepted_at_steady_ms := 0, br_timeout_cancel_requested := False\<rparr> else b)
                          \<lparr>br_provider := Some p', br_status := st2\<rparr>
                in if nv_state st2 \<noteq> NvCancelled then
                     (False, if nv_last_error st2 = [] then ''bridge cancel failed'' else nv_last_error st2, Some st2, b')
                   else (True, [], Some st2, b'))))"

definition bridge_get :: "'p nav_provider \<Rightarrow> bridge_clocks \<Rightarrow> 'p bridge \<Rightarrow> navigation_status \<times> 'p bridge" where
  "bridge_get ops c b = (let b' = refresh ops (bc_steady c) (bc_wall c) b in (br_status b', b'))"

section \<open>What the service needs of a provider\<close>

text \<open>\<open>running p\<close> is the goal the robot follows. A provider reports a goal as active exactly while it follows it,
  starts one only when it is submitted, and has stopped it when it confirms its end.\<close>

locale navigation_provider =
  fixes ops :: "'p nav_provider" and running :: "'p \<Rightarrow> string option"
  assumes submit_runs: "pv_submit ops g p = (st, p') \<Longrightarrow>
      running p' = (if is_active_state (nv_state st) then Some (nv_goal_id st) else None)"
    and get_reports: "pv_get ops p = (st, p') \<Longrightarrow>
      running p' = (if is_active_state (nv_state st) then Some (nv_goal_id st) else None) \<and> (running p' = Some i \<longrightarrow> running p = Some i)"
    and cancel_stops: "pv_cancel ops i p = (st, p') \<Longrightarrow>
      running p' \<in> {None, running p} \<and> (is_confirmed_terminal (nv_state st) \<longrightarrow> running p' = None)"
begin

text \<open>The service guards the goal that the robot follows.\<close>

definition guarded :: "'p bridge \<Rightarrow> bool" where
  "guarded b \<longleftrightarrow> (\<forall>p i. br_provider b = Some p \<and> running p = Some i \<longrightarrow>
     is_active_state (nv_state (br_status b)) \<and> nv_goal_id (br_status b) = i)"

lemma guardedI:
  "br_provider b = Some p \<Longrightarrow> (\<And>i. running p = Some i \<Longrightarrow> is_active_state (nv_state (br_status b)) \<and> nv_goal_id (br_status b) = i) \<Longrightarrow> guarded b"
  by (simp add: guarded_def)

lemma guardedD: "guarded b \<Longrightarrow> br_provider b = Some p \<Longrightarrow> running p = Some i \<Longrightarrow>
    is_active_state (nv_state (br_status b)) \<and> nv_goal_id (br_status b) = i"
  by (simp add: guarded_def)

lemma refresh_status_guarded:
  assumes "guarded b" "br_provider b = Some p"
  shows "guarded (refresh_status ops b p) \<and> (\<exists>p'. br_provider (refresh_status ops b p) = Some p')"
proof -
  obtain st p' where g: "pv_get ops p = (st, p')" by force
  note law = get_reports [OF g]
  have "running p' = Some i \<Longrightarrow> is_active_state (nv_state (br_status b)) \<and> nv_goal_id (br_status b) = i" for i
    using law guardedD [OF assms] by blast
  moreover have "running p' = Some i \<Longrightarrow> is_active_state (nv_state st) \<and> nv_goal_id st = i" for i
    using law by (auto split: if_splits)
  ultimately show ?thesis by (auto simp: refresh_status_def g Let_def guarded_def)
qed

lemma terminal_not_active: "is_confirmed_terminal s \<Longrightarrow> \<not> is_active_state s"
  by (auto simp: is_confirmed_terminal_def is_active_state_def)

lemma refresh_timeout_guarded:
  assumes "guarded b" "br_provider b = Some p"
  shows "guarded (refresh_timeout ops st w b)"
proof -
  let ?s = "br_status b"
  obtain ca p' where c: "pv_cancel ops (nv_goal_id ?s) p = (ca, p')" by force
  have same: "guarded b'" if "br_provider b' = br_provider b" "nv_state (br_status b') = nv_state ?s" "nv_goal_id (br_status b') = nv_goal_id ?s" for b'
    using assms(1) that by (simp add: guarded_def)
  consider (over) "br_timeout_cancel_requested b" "is_confirmed_terminal (nv_state ?s)"
    | (cancel) "\<not> (br_timeout_cancel_requested b \<and> is_confirmed_terminal (nv_state ?s))" "is_active_state (nv_state ?s)"
        "br_accepted_at_steady_ms b > 0" "st - br_accepted_at_steady_ms b \<ge> br_goal_timeout_ms b" "\<not> br_timeout_cancel_requested b"
    | (other) "refresh_timeout ops st w b = retain_guard w b \<or> refresh_timeout ops st w b = b\<lparr>br_status := ?s\<lparr>nv_updated_at_ms := w\<rparr>\<rparr>"
  proof (cases "br_timeout_cancel_requested b \<and> is_confirmed_terminal (nv_state ?s)")
    case True
    then show thesis using over by blast
  next
    case not_over: False
    show thesis
    proof (cases "is_active_state (nv_state ?s) \<and> br_accepted_at_steady_ms b > 0 \<and> st - br_accepted_at_steady_ms b \<ge> br_goal_timeout_ms b")
      case True
      then show thesis using not_over cancel other by (cases "br_timeout_cancel_requested b") (auto simp: refresh_timeout_def)
    next
      case False
      show thesis by (rule other) (simp only: refresh_timeout_def Let_def if_not_P [OF not_over] if_not_P [OF False] simp_thms)
    qed
  qed
  then show ?thesis
  proof cases
    case over
    have "running p = None" using guardedD [OF assms] terminal_not_active [OF over(2)] by (cases "running p") auto
    then show ?thesis using over assms(2) by (auto simp: refresh_timeout_def Let_def guarded_def)
  next
    case cancel
    then show ?thesis
      using assms(2) c cancel_stops [OF c] guardedD [OF assms]
      by (auto simp: refresh_timeout_def Let_def guarded_def retain_guard_def)
  next
    case other
    then show ?thesis using same by (auto simp: retain_guard_def)
  qed
qed

lemma refresh_guarded: "guarded b \<Longrightarrow> guarded (refresh ops st w b)"
  using refresh_status_guarded [of b] refresh_timeout_guarded
  by (fastforce simp: refresh_def split: option.splits)

lemma bridge_submit_guarded:
  assumes "guarded b"
  shows "guarded (snd (snd (snd (bridge_submit ops c goal b))))"
proof -
  let ?b = "refresh ops (bc_steady c) (bc_wall c) b"
  have g: "guarded ?b" using assms by (rule refresh_guarded)
  show ?thesis
  proof (cases "br_provider ?b")
    case (Some p)
    obtain st p' where s: "pv_submit ops goal p = (st, p')" by force
    show ?thesis
      using submit_runs [OF s] g assms Some
      by (auto simp: bridge_submit_def Let_def s guarded_def split: option.splits if_splits)
  qed (use g assms in \<open>simp add: bridge_submit_def Let_def split: option.splits\<close>)
qed

lemma bridge_cancel_guarded:
  assumes "guarded b"
  shows "guarded (snd (snd (snd (bridge_cancel ops c goal_id b))))"
proof -
  let ?b = "refresh ops (bc_steady c) (bc_wall c) b"
  have g: "guarded ?b" using assms by (rule refresh_guarded)
  show ?thesis
  proof (cases "\<not> is_active_state (nv_state (br_status ?b)) \<or> (goal_id = [] \<or> goal_id \<noteq> nv_goal_id (br_status ?b)) \<or> br_provider ?b = None")
    case True
    then show ?thesis using g by (auto simp: bridge_cancel_def Let_def)
  next
    case False
    then obtain p where p: "br_provider ?b = Some p" by auto
    obtain ca p' where s: "pv_cancel ops (nv_goal_id (br_status ?b)) p = (ca, p')" by force
    have "running p' = Some i \<Longrightarrow> \<not> is_confirmed_terminal (nv_state ca) \<and> nv_goal_id (br_status ?b) = i" for i
      using cancel_stops [OF s] guardedD [OF g p] by auto
    then show ?thesis using False p s by (auto simp: bridge_cancel_def Let_def guarded_def)
  qed
qed

lemma submit_while_running:
  assumes "guarded b" "br_provider (refresh ops (bc_steady c) (bc_wall c) b) = Some p" "running p = Some i" "validate_goal goal = None"
  shows "bridge_submit ops c goal b = (False, ''a bridge goal is already active'',
    Some (br_status (refresh ops (bc_steady c) (bc_wall c) b)), refresh ops (bc_steady c) (bc_wall c) b)"
  using guardedD [OF refresh_guarded [OF assms(1)] assms(2,3)] assms(2,4)
  by (auto simp: bridge_submit_def Let_def is_active_state_def)

end

section \<open>Histories\<close>

datatype bridge_op = BrSubmit bridge_clocks navigation_goal | BrCancel bridge_clocks string | BrGet bridge_clocks

fun bridge_step :: "'p nav_provider \<Rightarrow> 'p bridge \<Rightarrow> bridge_op \<Rightarrow> 'p bridge" where
  "bridge_step ops b (BrSubmit c goal) = snd (snd (snd (bridge_submit ops c goal b)))"
| "bridge_step ops b (BrCancel c i) = snd (snd (snd (bridge_cancel ops c i b)))"
| "bridge_step ops b (BrGet c) = snd (bridge_get ops c b)"

context navigation_provider
begin

lemma history_guarded:
  assumes "\<And>p. provider = Some p \<Longrightarrow> running p = None"
  shows "guarded (foldl (bridge_step ops) (bridge_new provider timeout now) history)"
proof (induction history rule: rev_induct)
  case Nil
  show ?case using assms by (auto simp: guarded_def bridge_new_def)
next
  case (snoc x xs)
  then show ?case
    by (cases x) (auto intro: bridge_submit_guarded bridge_cancel_guarded refresh_guarded simp: bridge_get_def Let_def)
qed

end

section \<open>The providers keep the laws\<close>

definition fake_running :: "fake_provider \<Rightarrow> string option" where
  "fake_running p = (if is_active_state (nv_state (fk_status p)) then Some (nv_goal_id (fk_status p)) else None)"

lemma fake_advance_status:
  "is_active_state (nv_state (fk_status p)) \<Longrightarrow> nv_goal_id (fk_status (fake_advance p)) = nv_goal_id (fk_status p)"
  by (simp add: fake_advance_def Let_def)

interpretation fake: navigation_provider fake_navigation fake_running
proof
  fix g p st p'
  assume "pv_submit fake_navigation g p = (st, p')"
  then show "fake_running p' = (if is_active_state (nv_state st) then Some (nv_goal_id st) else None)"
    by (auto simp: fake_navigation_def fake_submit_def fake_running_def Let_def)
next
  fix p st p' i
  assume g: "pv_get fake_navigation p = (st, p')"
  then have "fake_running p' = (if is_active_state (nv_state st) then Some (nv_goal_id st) else None)"
    by (auto simp: fake_navigation_def fake_get_def fake_running_def Let_def)
  moreover have "fake_running p' \<in> {None, fake_running p}"
    using g fake_advance_status [of p]
    by (auto simp: fake_navigation_def fake_get_def fake_running_def Let_def is_active_state_def split: if_splits)
  ultimately show "fake_running p' = (if is_active_state (nv_state st) then Some (nv_goal_id st) else None) \<and>
      (fake_running p' = Some i \<longrightarrow> fake_running p = Some i)" by auto
next
  fix i p st p'
  assume "pv_cancel fake_navigation i p = (st, p')"
  then show "fake_running p' \<in> {None, fake_running p} \<and> (is_confirmed_terminal (nv_state st) \<longrightarrow> fake_running p' = None)"
    by (auto simp: fake_navigation_def fake_cancel_def fake_running_def Let_def is_active_state_def is_confirmed_terminal_def split: if_splits)
qed

interpretation disabled: navigation_provider disabled_provider "\<lambda>_. None"
  by unfold_locales (auto simp: disabled_provider_def disabled_status_def is_active_state_def)

section \<open>Properties\<close>

text \<open>
  C28: one goal at a time: over any provider that keeps the laws, after any history of calls, a submission made while
  the robot follows a goal is refused and does not reach the provider.
\<close>

theorem submission_refused_while_running:
  assumes "navigation_provider ops running" "running p0 = None"
    and "b = foldl (bridge_step ops) (bridge_new (Some p0) timeout now) history"
    and "br_provider (refresh ops (bc_steady c) (bc_wall c) b) = Some p" "running p = Some i" "validate_goal goal = None"
  shows "fst (bridge_submit ops c goal b) = False \<and>
    br_provider (snd (snd (snd (bridge_submit ops c goal b)))) = Some p"
proof -
  have "navigation_provider.guarded running b"
    unfolding assms(3) using assms(2) by (intro navigation_provider.history_guarded [OF assms(1)]) simp
  from navigation_provider.submit_while_running [OF assms(1) this assms(4-6)] assms(4) show ?thesis by simp
qed


definition sample_goal :: navigation_goal where
  "sample_goal = \<lparr> ng_goal_id = ''a'', ng_target = pose_new \<rparr>"

definition clocks_at :: "int \<Rightarrow> bridge_clocks" where
  "clocks_at t = \<lparr> bc_steady = t, bc_wall = t, bc_steady_accepted = t, bc_wall_accepted = t, bc_wall_updated = t \<rparr>"

lemmas bridge_eval = bridge_new_def bridge_submit_def bridge_get_def refresh_def refresh_status_def refresh_timeout_def
  validate_goal_def goal_id_char_def timed_out_def is_active_state_def is_confirmed_terminal_def
  fake_navigation_def fake_new_def fake_submit_def fake_get_def fake_cancel_def fake_advance_def fake_running_def
  nav_status_new_def pose_new_def

theorem submission_refused_while_running_witness:
  "fst (bridge_submit fake_navigation (clocks_at 6) sample_goal
     (bridge_step fake_navigation (bridge_new (Some (fake_new FkStalled)) 100 0) (BrSubmit (clocks_at 5) sample_goal))) = False"
proof -
  let ?b = "foldl (bridge_step fake_navigation) (bridge_new (Some (fake_new FkStalled)) 100 0) [BrSubmit (clocks_at 5) sample_goal]"
  have "fake_running (fake_new FkStalled) = None" by (simp add: bridge_eval)
  moreover have "\<exists>p. br_provider (refresh fake_navigation (bc_steady (clocks_at 6)) (bc_wall (clocks_at 6)) ?b) = Some p \<and> fake_running p = Some ''a''"
    by (simp add: bridge_eval sample_goal_def clocks_at_def Let_def)
  moreover have "validate_goal sample_goal = None" by (simp add: bridge_eval sample_goal_def)
  ultimately show ?thesis
    using submission_refused_while_running [OF fake.navigation_provider_axioms _ refl, of "fake_new FkStalled" "clocks_at 6" 100 0
        "[BrSubmit (clocks_at 5) sample_goal]"] by auto
qed

text \<open>A bridge that tracks a stalled goal: provider and service agree on the active goal since its acceptance.\<close>

definition tracks :: "int \<Rightarrow> navigation_goal \<Rightarrow> int \<Rightarrow> fake_provider bridge \<Rightarrow> bool" where
  "tracks timeout goal accepted b \<longleftrightarrow> (\<exists>p. br_provider b = Some p \<and> br_timeout_cancel_requested b = False \<and> br_goal_timeout_ms b = timeout \<and>
     br_accepted_at_steady_ms b = accepted \<and> fk_outcome p = FkStalled \<and> nv_state (br_status b) = nv_state (fk_status p) \<and>
     is_active_state (nv_state (fk_status p)) \<and> nv_goal_id (fk_status p) = ng_goal_id goal \<and> nv_goal_id (br_status b) = ng_goal_id goal)"

lemma tracks_submit:
  assumes "validate_goal goal = None"
  shows "tracks timeout goal (bc_steady_accepted c)
    (snd (snd (snd (bridge_submit fake_navigation c goal (bridge_new (Some (fake_new FkStalled)) timeout now)))))"
  using assms by (simp add: tracks_def bridge_submit_def bridge_new_def refresh_def refresh_status_def refresh_timeout_def
      fake_navigation_def fake_new_def fake_get_def fake_submit_def nav_status_new_def is_active_state_def is_confirmed_terminal_def Let_def)

lemma tracks_advance:
  "tracks timeout goal t b \<Longrightarrow> br_provider b = Some p \<Longrightarrow>
    tracks timeout goal t (refresh_status fake_navigation b p) \<and> (\<exists>p'. br_provider (refresh_status fake_navigation b p) = Some p')"
  by (auto simp: tracks_def refresh_status_def fake_navigation_def fake_get_def fake_advance_def is_active_state_def Let_def)

lemma tracks_get:
  assumes "tracks timeout goal t b" "bc_steady d - t < timeout"
  shows "tracks timeout goal t (snd (bridge_get fake_navigation d b))"
proof -
  obtain p where p: "br_provider b = Some p" "nv_state (br_status b) \<noteq> NvTimedOut" using assms(1) by (auto simp: tracks_def is_active_state_def)
  let ?b = "refresh_status fake_navigation b p"
  have r: "tracks timeout goal t ?b" using tracks_advance [OF assms(1) p(1)] by blast
  then have "refresh_timeout fake_navigation (bc_steady d) (bc_wall d) ?b = ?b\<lparr>br_status := (br_status ?b)\<lparr>nv_updated_at_ms := bc_wall d\<rparr>\<rparr>"
    using assms(2) by (auto simp: tracks_def refresh_timeout_def Let_def)
  then show ?thesis using r p by (simp add: bridge_get_def refresh_def tracks_def Let_def)
qed

text \<open>
  Over the fake provider, from the submission on: a goal that makes no progress is ended by its timeout: queries before the deadline keep it active, the first
  query at or after it reports the timeout, and by then the robot has stopped and the next goal is accepted.
\<close>

theorem fake_stalled_goal_ends:
  assumes "validate_goal goal = None" "validate_goal goal' = None" "0 < bc_steady_accepted c"
    and "b = snd (snd (snd (bridge_submit fake_navigation c goal (bridge_new (Some (fake_new FkStalled)) timeout now))))"
    and "list_all (\<lambda>d. bc_steady d - bc_steady_accepted c < timeout) ds" "timeout \<le> bc_steady d - bc_steady_accepted c"
    and "b' = foldl (bridge_step fake_navigation) b (map BrGet ds)" "bridge_get fake_navigation d b' = (st, b'')"
  shows "nv_state (br_status b') \<in> {NvAccepted, NvExecuting} \<and> nv_state st = NvTimedOut \<and>
    (\<exists>p. br_provider b'' = Some p \<and> fake_running p = None) \<and> fst (bridge_submit fake_navigation d' goal' b'')"
proof -
  note start = tracks_submit [OF assms(1), of timeout c now, folded assms(4)]
  have b': "tracks timeout goal (bc_steady_accepted c) b'"
    using assms(5,7) start
  proof (induction ds arbitrary: b' rule: rev_induct)
    case (snoc d ds)
    then show ?case using tracks_get by simp
  qed simp
  then obtain p where p: "br_provider b' = Some p" "nv_state (br_status b') \<noteq> NvTimedOut" by (auto simp: tracks_def is_active_state_def)
  let ?b = "refresh_status fake_navigation b' p"
  obtain q where q: "tracks timeout goal (bc_steady_accepted c) ?b" "br_provider ?b = Some q" using tracks_advance [OF b' p(1)] by blast
  have late: "b'' = refresh_timeout fake_navigation (bc_steady d) (bc_wall d) ?b" "st = br_status b''"
    using assms(8) p by (auto simp: bridge_get_def refresh_def Let_def)
  have e: "nv_state st = NvTimedOut \<and> (\<exists>p. br_provider b'' = Some p \<and> nv_state (fk_status p) = NvCancelled \<and> fk_outcome p = FkStalled)"
    using q assms(3,6) unfolding late
    by (simp add: tracks_def refresh_timeout_def Let_def fake_navigation_def fake_cancel_def is_confirmed_terminal_def is_active_state_def timed_out_def)
  then have "fst (bridge_submit fake_navigation d' goal' b'')"
    using assms(2) late(2) by (auto simp: bridge_submit_def refresh_def fake_navigation_def fake_submit_def is_active_state_def Let_def)
  moreover have "\<exists>p. br_provider b'' = Some p \<and> fake_running p = None" using e by (force simp: fake_running_def is_active_state_def)
  moreover have "nv_state (br_status b') \<in> {NvAccepted, NvExecuting}" using b' by (auto simp: tracks_def is_active_state_def)
  ultimately show ?thesis using e by blast
qed

theorem fake_stalled_goal_ends_witness:
  "nv_state (fst (bridge_get fake_navigation (clocks_at 105) (foldl (bridge_step fake_navigation)
     (snd (snd (snd (bridge_submit fake_navigation (clocks_at 5) sample_goal (bridge_new (Some (fake_new FkStalled)) 100 0)))))
     (map BrGet [clocks_at 50])))) = NvTimedOut"
proof -
  have v: "validate_goal sample_goal = None" by (simp add: bridge_eval sample_goal_def)
  show ?thesis
    by (rule fake_stalled_goal_ends [OF v v _ refl _ _ refl prod.collapse [symmetric], THEN conjunct2, THEN conjunct1])
      (simp_all add: clocks_at_def)
qed

section \<open>Timeouts over any provider\<close>

text \<open>What a provider reports when it is asked again and again.\<close>

definition polled :: "'p nav_provider \<Rightarrow> nat \<Rightarrow> 'p \<Rightarrow> 'p" where
  "polled ops n p = ((\<lambda>p. snd (pv_get ops p)) ^^ n) p"

definition report :: "'p nav_provider \<Rightarrow> nat \<Rightarrow> 'p \<Rightarrow> navigation_status" where
  "report ops n p = fst (pv_get ops (polled ops n p))"

lemma polled_simps [simp]:
  "polled ops 0 p = p" "polled ops (Suc n) p = snd (pv_get ops (polled ops n p))"
  by (simp_all add: polled_def)

text \<open>The end of a goal after its timeout: what the service says of the end \<open>s\<close> that the provider confirmed, over a
  robot that follows no goal.\<close>

definition ended :: "('p \<Rightarrow> string option) \<Rightarrow> navigation_state \<Rightarrow> navigation_status \<times> 'p bridge \<Rightarrow> bool" where
  "ended running s r \<longleftrightarrow> nv_state (fst r) = (if s = NvCancelled then NvTimedOut else s) \<and>
     (\<exists>p. br_provider (snd r) = Some p \<and> running p = None)"

definition undecided :: "string \<Rightarrow> navigation_status \<Rightarrow> bool" where
  "undecided i s \<longleftrightarrow> \<not> is_confirmed_terminal (nv_state s) \<and> nv_goal_id s \<in> {i, []}"

text \<open>The service waits for the confirmation: cancellation requested, goal \<open>i\<close> active, the provider asked \<open>n\<close> times.\<close>

definition waits :: "'p nav_provider \<Rightarrow> string \<Rightarrow> 'p \<Rightarrow> nat \<Rightarrow> 'p bridge \<Rightarrow> bool" where
  "waits ops i q n b \<longleftrightarrow> br_provider b = Some (polled ops n q) \<and> br_timeout_cancel_requested b \<and>
     is_active_state (nv_state (br_status b)) \<and> nv_goal_id (br_status b) \<in> {i, []}"

lemma active_states:
  "is_active_state s \<Longrightarrow> \<not> is_confirmed_terminal s" "is_active_state s \<Longrightarrow> s \<noteq> NvTimedOut"
  by (auto simp: is_active_state_def is_confirmed_terminal_def)

lemma waits_timeout:
  assumes "waits ops i q n b"
  shows "waits ops i q n (refresh_timeout ops st w b)"
  using assms active_states [of "nv_state (br_status b)"]
  by (auto simp: waits_def refresh_timeout_def retain_guard_def Let_def)

lemma waits_status:
  assumes "waits ops i q n b" "undecided i (report ops n q)"
  shows "waits ops i q (Suc n) (refresh_status ops b (polled ops n q))"
proof -
  obtain rep q' where g: "pv_get ops (polled ops n q) = (rep, q')" by force
  have b: "br_timeout_cancel_requested b" "is_active_state (nv_state (br_status b))" "nv_goal_id (br_status b) \<in> {i, []}"
    and r: "\<not> is_confirmed_terminal (nv_state rep)" "nv_goal_id rep \<in> {i, []}"
    using assms by (simp_all add: waits_def undecided_def report_def g)
  have s: "refresh_status ops b (polled ops n q) =
      (if is_active_state (nv_state rep)
       then b\<lparr>br_provider := Some q', br_status := rep\<lparr>nv_accepted_at_ms :=
         if nv_goal_id rep = [] then 0 else nv_accepted_at_ms (br_status b)\<rparr>\<rparr>
       else b\<lparr>br_provider := Some q'\<rparr>)" if "nv_goal_id (br_status b) = [] \<or> nv_goal_id rep = [] \<or> nv_goal_id rep = nv_goal_id (br_status b)"
    using that b(1) r(1) by (simp add: refresh_status_def g Let_def)
  have "nv_goal_id (br_status b) = [] \<or> nv_goal_id rep = [] \<or> nv_goal_id rep = nv_goal_id (br_status b)"
    using b(3) r(2) by auto
  from s [OF this] show ?thesis
    using b r(2) by (simp add: waits_def g)
qed

lemma waits_get:
  assumes "waits ops i q n b" "undecided i (report ops n q)"
  shows "waits ops i q (Suc n) (snd (bridge_get ops d b))"
proof -
  have "refresh ops (bc_steady d) (bc_wall d) b =
      refresh_timeout ops (bc_steady d) (bc_wall d) (refresh_status ops b (polled ops n q))"
    using assms(1) active_states(2) [of "nv_state (br_status b)"] by (simp add: waits_def refresh_def)
  then show ?thesis
    using waits_timeout [OF waits_status [OF assms]] by (simp add: bridge_get_def Let_def)
qed

lemma waits_gets:
  assumes "waits ops i q 0 b" "\<forall>k < length ds. undecided i (report ops k q)"
  shows "waits ops i q (length ds) (foldl (bridge_step ops) b (map BrGet ds))"
  using assms
proof (induction ds rule: rev_induct)
  case (snoc d ds)
  then show ?case using waits_get [of ops i q "length ds"] by simp
qed simp

lemma waits_end:
  assumes law: "navigation_provider ops running" and w: "waits ops i q n b"
    and e: "is_confirmed_terminal (nv_state (report ops n q))" "nv_goal_id (report ops n q) \<in> {i, []}"
  shows "ended running (nv_state (report ops n q)) (bridge_get ops d b)"
proof -
  obtain rep q' where g: "pv_get ops (polled ops n q) = (rep, q')" by force
  then have rep: "is_confirmed_terminal (nv_state rep)" "nv_goal_id rep \<in> {i, []}" "report ops n q = rep"
    using e by (simp_all add: report_def)
  have "\<not> is_active_state (nv_state rep)"
    using rep(1) active_states(1) by blast
  then have stop: "running q' = None"
    using navigation_provider.get_reports [OF law g] by simp
  let ?s = "rep\<lparr>nv_accepted_at_ms := if nv_goal_id rep = [] then 0 else nv_accepted_at_ms (br_status b)\<rparr>"
  have "nv_state (br_status b) \<noteq> NvTimedOut"
    using w active_states(2) [of "nv_state (br_status b)"] by (auto simp: waits_def)
  then have "refresh ops (bc_steady d) (bc_wall d) b = refresh_timeout ops (bc_steady d) (bc_wall d)
      (b\<lparr>br_provider := Some q', br_status := ?s, br_accepted_at_steady_ms := 0\<rparr>)"
    using w rep \<open>\<not> is_active_state _\<close> by (auto simp: waits_def refresh_def refresh_status_def g Let_def)
  then show ?thesis
    using w rep stop by (auto simp: ended_def bridge_get_def refresh_timeout_def waits_def timed_out_def Let_def)
qed

text \<open>
  C37: the timeout of a goal works over every provider that keeps the laws, in every state of the service. The
  first query at or after the deadline that finds the goal still active asks the provider to cancel it. If the
  provider confirms the end at once, the query reports the goal as over, as timed out when it was
  cancelled. If it does not, the query keeps the goal active, with the error for that, and so does every later
  query until the provider reports a confirmed end of this goal; the query that hears of it reports the goal as over. In
  either case the robot follows no goal from then on.
\<close>

theorem stalled_goal_times_out:
  assumes "navigation_provider ops running"
    and "br_provider b = Some p" "nv_state (br_status b) \<noteq> NvTimedOut" "nv_goal_id (br_status b) = i"
    and "\<not> br_timeout_cancel_requested b" "0 < br_accepted_at_steady_ms b"
    and "pv_get ops p = (rep, q)" "is_active_state (nv_state rep)" "nv_goal_id rep = i"
    and "br_goal_timeout_ms b \<le> bc_steady d - br_accepted_at_steady_ms b"
    and "pv_cancel ops i q = (ca, q')" "bridge_get ops d b = (st, b')"
  shows "if is_confirmed_terminal (nv_state ca) then ended running (nv_state ca) (st, b')
    else is_active_state (nv_state st) \<and> nv_last_error st = ''goal timeout; cancellation not confirmed'' \<and>
      (\<forall>ds d'. (\<forall>k < length ds. undecided i (report ops k q')) \<longrightarrow>
        (let b'' = foldl (bridge_step ops) b' (map BrGet ds); end' = report ops (length ds) q' in
         is_active_state (nv_state (br_status b'')) \<and>
         (is_confirmed_terminal (nv_state end') \<and> nv_goal_id end' = i \<longrightarrow>
            ended running (nv_state end') (bridge_get ops d' b''))))"
proof -
  let ?b = "b\<lparr>br_provider := Some q, br_status := rep\<lparr>nv_accepted_at_ms :=
    if nv_goal_id rep = [] then 0 else nv_accepted_at_ms (br_status b)\<rparr>\<rparr>"
  have "refresh ops (bc_steady d) (bc_wall d) b = refresh_timeout ops (bc_steady d) (bc_wall d) ?b"
    using assms(2-9) by (simp add: refresh_def refresh_status_def Let_def)
  then have b': "b' = refresh_timeout ops (bc_steady d) (bc_wall d) ?b" "st = br_status b'"
    using assms(12) by (auto simp: bridge_get_def Let_def)
  show ?thesis
  proof (cases "is_confirmed_terminal (nv_state ca)")
    case True
    then have "running q' = None"
      using navigation_provider.cancel_stops [OF assms(1,11)] by simp
    with True show ?thesis
      using assms(5,6,8-11) by (auto simp: b' refresh_timeout_def timed_out_def ended_def Let_def)
  next
    case False
    have kept: "waits ops i q' 0 b'" "nv_last_error st = ''goal timeout; cancellation not confirmed''"
      "is_active_state (nv_state st)"
      using False assms(5,6,8-11) by (auto simp: b' refresh_timeout_def retain_guard_def waits_def Let_def)
    have "is_active_state (nv_state (br_status (foldl (bridge_step ops) b' (map BrGet ds)))) \<and>
        (is_confirmed_terminal (nv_state (report ops (length ds) q')) \<and> nv_goal_id (report ops (length ds) q') = i \<longrightarrow>
          ended running (nv_state (report ops (length ds) q')) (bridge_get ops d' (foldl (bridge_step ops) b' (map BrGet ds))))"
      if "\<forall>k < length ds. undecided i (report ops k q')" for ds d'
      using waits_gets [OF kept(1) that] waits_end [OF assms(1) waits_gets [OF kept(1) that]]
      by (simp add: waits_def)
    then show ?thesis using False kept by (simp add: Let_def)
  qed
qed

theorem stalled_goal_times_out_witness:
  "ended fake_running NvCancelled (bridge_get fake_navigation (clocks_at 105)
     (snd (snd (snd (bridge_submit fake_navigation (clocks_at 5) sample_goal (bridge_new (Some (fake_new FkStalled)) 100 0))))))"
proof -
  let ?b = "snd (snd (snd (bridge_submit fake_navigation (clocks_at 5) sample_goal (bridge_new (Some (fake_new FkStalled)) 100 0))))"
  define p where "p = snd (fake_submit sample_goal (fake_new FkStalled))"
  have b: "br_provider ?b = Some p" "nv_state (br_status ?b) \<noteq> NvTimedOut" "nv_goal_id (br_status ?b) = ''a''"
    "\<not> br_timeout_cancel_requested ?b" "0 < br_accepted_at_steady_ms ?b" "br_goal_timeout_ms ?b \<le> bc_steady (clocks_at 105) - br_accepted_at_steady_ms ?b"
    by (simp_all add: bridge_eval p_def sample_goal_def clocks_at_def Let_def)
  have get: "is_active_state (nv_state (fst (pv_get fake_navigation p)))" "nv_goal_id (fst (pv_get fake_navigation p)) = ''a''"
    "nv_state (fst (pv_cancel fake_navigation ''a'' (snd (pv_get fake_navigation p)))) = NvCancelled"
    by (simp_all add: bridge_eval p_def sample_goal_def Let_def)
  show ?thesis
    using stalled_goal_times_out [OF fake.navigation_provider_axioms b(1-5) prod.collapse [symmetric] get(1,2) b(6)
        prod.collapse [symmetric] prod.collapse [symmetric]] get(3)
    by (simp add: is_confirmed_terminal_def)
qed

end
