(* ===== verification/Float_Division.thy ===== *)
theory Float_Division
  imports Float64
begin

text \<open>
  Correctly rounded division of doubles, and the one fact about decimals that the vehicle codec rests on: a whole
  number of tenths below 65536 survives the division by 10.0, the multiplication by 10.0 and \<open>std::lround\<close>.
\<close>

section \<open>Division\<close>

text \<open>The quotient gets at least 55 significant bits and a sticky bit, so one rounding gives the correctly rounded
  result. A zero has no sign in this model.\<close>

definition quotient_shift :: "int \<Rightarrow> int \<Rightarrow> nat" where
  "quotient_shift a b = nat (max 0 (56 + sig_bits b - sig_bits a))"

definition quotient_bits :: "int \<Rightarrow> int \<Rightarrow> int" where
  "quotient_bits a b =
     (let n = \<bar>a\<bar> * 2 ^ quotient_shift a b; q = n div \<bar>b\<bar>
      in sgn a * sgn b * (2 * q + (if n mod \<bar>b\<bar> = 0 then 0 else 1)))"

fun f64_div :: "f64 \<Rightarrow> f64 \<Rightarrow> f64" where
  "f64_div (Fin a ea) (Fin b eb) =
     (if b = 0 then (if a = 0 then NaN else Inf (a < 0))
      else f64_round (quotient_bits a b) (ea - eb - int (quotient_shift a b) - 1))"
| "f64_div NaN _ = NaN"
| "f64_div _ NaN = NaN"
| "f64_div (Inf _) (Inf _) = NaN"
| "f64_div (Inf s) (Fin b _) = Inf (s \<noteq> (b < 0))"
| "f64_div (Fin a _) (Inf _) = Fin 0 0"

lemma closeD: "\<bar>x - y\<bar> \<le> d \<Longrightarrow> x \<le> y + d" "\<bar>x - y\<bar> \<le> d \<Longrightarrow> y \<le> x + d" for x y d :: real
  by (simp_all add: abs_le_iff)

lemma closeI: "x \<le> y + d \<Longrightarrow> y \<le> x + d \<Longrightarrow> \<bar>x - y\<bar> \<le> d" for x y d :: real
  by (simp add: abs_le_iff)

section \<open>Rounding a number of moderate size\<close>

lemma val_sig_bits:
  assumes "f64_val p e < 2 powi j" "0 < p"
  shows "sig_bits p + e \<le> j"
proof -
  let ?n = "nat p"
  have n: "0 < ?n" "real ?n = of_int p" using assms(2) by simp_all
  then have "2 ^ bits ?n \<le> 2 * ?n" using bits_bounds by blast
  then have "(2 :: real) ^ bits ?n \<le> 2 * of_int p" using n(2) by (metis of_nat_le_iff of_nat_mult of_nat_numeral of_nat_power)
  then have "(2 :: real) ^ bits ?n * 2 powi e \<le> 2 * f64_val p e" by (simp add: f64_val_def mult_right_mono)
  also have "\<dots> < 2 * 2 powi j" using assms(1) by simp
  finally have "(2 :: real) powi (sig_bits p + e) < 2 powi (j + 1)"
    using assms(2) by (simp add: sig_bits_def power_int_add)
  then have "\<not> j + 1 \<le> sig_bits p + e" using power_int_increasing [of "j + 1" "sig_bits p + e" "2 :: real"] by linarith
  then show ?thesis by simp
qed

lemma f64_round_moderate:
  assumes "0 < p" "- 1000 \<le> e" "f64_val p e < 2 powi 100"
  obtains m e' where "f64_round p e = Fin m e'" "e \<le> e'" "0 < m" "\<bar>f64_val m e' - f64_val p e\<bar> \<le> f64_val p e * 2 powi (- 53)"
proof -
  define k where "k = max (sig_bits p - 53) (- 1074 - e)"
  define m where "m = (if k \<le> 0 then p else rne p (nat k))"
  define e' where "e' = (if k \<le> 0 then e else e + k)"
  have m: "0 < m \<and> f64_val m e' < 2 powi 101"
  proof (cases "k \<le> 0")
    case True
    have "(2 :: real) powi 100 \<le> 2 powi 101" by (rule power_int_increasing) simp_all
    then show ?thesis using assms(1,3) True by (simp add: m_def e'_def)
  next
    case False
    then have k: "k = sig_bits p - 53" "53 < sig_bits p" using assms(2) by (auto simp: k_def max_def split: if_splits)
    have "2 ^ nat (sig_bits p - 1) \<le> \<bar>p\<bar>" using k(2) by (rule sig_bits_lower)
    moreover have "nat (sig_bits p - 1) = 52 + nat k" using k False by (simp add: nat_diff_distrib' nat_add_distrib [symmetric])
    ultimately have big: "(2 :: real) ^ 52 * 2 ^ nat k \<le> of_int p" using assms(1)
      by (metis abs_of_pos of_int_le_iff of_int_numeral of_int_power power_add)
    have r: "\<bar>of_int m - of_int p / 2 ^ nat k\<bar> \<le> (1 / 2 :: real)" using rne_error [of p "nat k"] False by (simp add: m_def)
    have x: "2 ^ 52 \<le> of_int p / (2 :: real) ^ nat k" using big by (simp add: field_simps)
    define y where "y = of_int p / (2 :: real) ^ nat k"
    have "(1 :: real) \<le> 2 ^ 52" by simp
    then have ry: "of_int m \<le> y + 1 / 2" "y \<le> of_int m + 1 / 2" "1 \<le> y"
      using r order_trans [OF _ x] unfolding y_def [symmetric] by (auto simp only: abs_le_iff)
    have "real_of_int m \<le> 2 * y" using ry by linarith
    moreover have "0 < real_of_int m" using ry by linarith
    moreover have "(2 :: real) powi k = 2 ^ nat k" using False by (simp add: power_int_def)
    ultimately have v: "f64_val m e' \<le> 2 * y * 2 ^ nat k * 2 powi e"
      using False by (simp add: f64_val_def e'_def power_int_add mult_right_mono)
    note v
    also have "\<dots> = 2 * f64_val p e" by (simp add: f64_val_def y_def)
    also have "\<dots> < 2 * 2 powi 100" using assms(3) by simp
    also have "\<dots> = 2 powi 101" by simp
    finally show ?thesis using ry by simp
  qed
  then have "sig_bits m + e' \<le> 101" using val_sig_bits by blast
  moreover have "f64_round p e = (if 1024 < sig_bits m + e' then Inf (p < 0) else Fin m e')"
    by (simp only: f64_round_def Let_def k_def [symmetric] m_def [symmetric] e'_def [symmetric])
  ultimately have f: "f64_round p e = Fin m e'" by simp
  have "e \<le> e'" by (simp add: e'_def)
  moreover have "0 \<le> f64_val p e" using assms(1) by (simp add: f64_val_def)
  ultimately show thesis using that f m f64_round_error [OF f] assms(2) by simp
qed

section \<open>Tenths\<close>

definition ten :: f64 where "ten = Fin 10 0"

lemma tenth_quotient:
  assumes "0 < s" "s < 2 ^ 16"
  shows "0 < quotient_bits s 10 \<and> \<bar>f64_val (quotient_bits s 10) (- int (quotient_shift s 10) - 1) - of_int s / 10\<bar> \<le> of_int s / 2 ^ 59 \<and>
    quotient_shift s 10 \<le> 60"
proof -
  let ?k = "quotient_shift s 10"
  let ?n = "s * 2 ^ ?k"
  define q where "q = ?n div 10"
  have s: "0 < nat s" "real (nat s) = of_int s" using assms(1) by simp_all
  have b4: "sig_bits 10 = 4" by (simp add: sig_bits_def bits.simps)
  have sb: "0 \<le> sig_bits s" by (simp add: sig_bits_def)
  have "2 ^ bits (nat s) \<le> 2 * nat s" using bits_bounds s(1) by blast
  then have up: "(2 :: real) ^ bits (nat s) \<le> 2 * of_int s" using s(2) by (metis of_nat_le_iff of_nat_mult of_nat_numeral of_nat_power)
  have "f64_val s 0 < 2 powi 16"
  proof -
    have "real_of_int s < of_int (2 ^ 16)" using assms(2) by (simp only: of_int_less_iff)
    then show ?thesis by (simp add: f64_val_def)
  qed
  then have small: "sig_bits s \<le> 16" using val_sig_bits [of s 0 16] assms(1) by simp
  then have k: "?k = 60 - bits (nat s)" "bits (nat s) \<le> 16"
    using assms(1) unfolding quotient_shift_def b4 by (simp_all add: sig_bits_def nat_diff_distrib')
  have pow: "(2 :: real) ^ ?k * 2 ^ bits (nat s) = 2 ^ 60" using k by (simp add: power_add [symmetric])
  have p: "quotient_bits s 10 = 2 * q + (if ?n mod 10 = 0 then 0 else 1)" using assms(1) by (simp add: quotient_bits_def q_def Let_def)
  have n: "?n = 10 * q + ?n mod 10" "0 \<le> ?n mod 10" "?n mod 10 < 10" by (simp_all add: q_def)
  have q0: "0 < 2 * q + (if ?n mod 10 = 0 then 0 else 1)"
  proof -
    have "0 < ?n" using assms(1) by simp
    then show ?thesis using n by (smt (verit))
  qed
  have "\<bar>of_int (quotient_bits s 10) / 2 - of_int ?n / 10\<bar> \<le> (1 / 2 :: real)"
  proof -
    have "real_of_int ?n = 10 * of_int q + of_int (?n mod 10)" using n(1) by (metis of_int_add of_int_mult of_int_numeral)
    moreover obtain x :: real where x: "x = of_int (?n mod 10)" "0 \<le> x" "x \<le> 9" "?n mod 10 = 0 \<Longrightarrow> x = 0" using n(2,3) by simp
    ultimately have "real_of_int ?n = 10 * of_int q + x" by simp
    moreover have "\<bar>(2 * real_of_int q + 1) / 2 - (10 * of_int q + x) / 10\<bar> \<le> 1 / 2"
    proof -
      have "(2 * real_of_int q + 1) / 2 - (10 * of_int q + x) / 10 = 1 / 2 - x / 10" by (simp add: field_simps)
      moreover have "\<bar>1 / 2 - x / 10\<bar> \<le> 1 / 2" by (rule abs_leI) (use x(2,3) in linarith)+
      ultimately show ?thesis by simp
    qed
    ultimately show ?thesis unfolding p using x(4) by (cases "?n mod 10 = 0") simp_all
  qed
  then have A: "\<bar>of_int (quotient_bits s 10) / 2 - of_int ?n / 10\<bar> / 2 ^ ?k \<le> (1 / 2 :: real) / 2 ^ ?k"
    by (intro divide_right_mono) simp_all
  have B: "\<bar>of_int (quotient_bits s 10) / 2 - of_int ?n / 10\<bar> / (2 :: real) ^ ?k =
      \<bar>of_int (quotient_bits s 10) / 2 ^ (?k + 1) - of_int s / 10\<bar>"
  proof -
    have "(of_int (quotient_bits s 10) / 2 - of_int ?n / 10) / (2 :: real) ^ ?k = of_int (quotient_bits s 10) / 2 ^ (?k + 1) - of_int s / 10"
      by (simp add: field_simps)
    moreover have "\<bar>x / (2 :: real) ^ ?k\<bar> = \<bar>x\<bar> / 2 ^ ?k" for x by (simp add: abs_divide)
    note this [of "of_int (quotient_bits s 10) / 2 - of_int ?n / 10", symmetric]
    ultimately show ?thesis by (simp only:)
  qed
  have C: "f64_val (quotient_bits s 10) (- int ?k - 1) = of_int (quotient_bits s 10) / 2 ^ (?k + 1)"
  proof -
    have "(2 :: real) powi (- int ?k - 1) = 2 powi (- int (?k + 1))" by (rule arg_cong [where f = "\<lambda>x. 2 powi x"]) simp
    also have "\<dots> = inverse (2 ^ (?k + 1))" by (simp only: power_int_minus power_int_of_nat)
    finally have "(2 :: real) powi (- int ?k - 1) = inverse (2 ^ (?k + 1))" .
    then show ?thesis by (simp only: f64_val_def divide_inverse)
  qed
  have D: "(1 / 2 :: real) / 2 ^ ?k \<le> of_int s / 2 ^ 59"
  proof -
    have "(2 :: real) ^ 60 \<le> 2 ^ ?k * (2 * of_int s)" unfolding pow [symmetric] by (rule mult_left_mono [OF up]) simp
    then show ?thesis by (simp add: field_simps)
  qed
  have "\<bar>f64_val (quotient_bits s 10) (- int ?k - 1) - of_int s / 10\<bar> \<le> of_int s / 2 ^ 59"
    unfolding C B [symmetric] by (rule order_trans [OF A D])
  moreover have "0 < quotient_bits s 10" unfolding p by (rule q0)
  moreover have "?k \<le> 60" using k(1) by simp
  ultimately show ?thesis by blast
qed

lemma tenth:
  assumes "0 < s" "s < 2 ^ 16"
  obtains m e where "f64_div (f64_of_int s) ten = Fin m e" "- 61 \<le> e" "0 < m" "\<bar>f64_val m e - of_int s / 10\<bar> \<le> of_int s / 2 ^ 53"
proof -
  let ?p = "quotient_bits s 10" and ?e = "- int (quotient_shift s 10) - 1"
  have q: "0 < ?p" "\<bar>f64_val ?p ?e - of_int s / 10\<bar> \<le> of_int s / 2 ^ 59" "- 61 \<le> ?e"
    using tenth_quotient [OF assms] by auto
  define v where "v = f64_val ?p ?e"
  define t :: real where "t = of_int s"
  have t: "0 < t" "t < 65536" using assms by (simp_all add: t_def)
  have v: "\<bar>v - t / 10\<bar> \<le> t / 2 ^ 59" using q(2) by (simp add: v_def t_def)
  have eps: "t / 2 ^ 59 \<le> t / 16" using t(1) by (intro divide_left_mono) simp_all
  note closeD [OF v]
  then have vb: "v \<le> t" "0 \<le> v" using t(1) eps by linarith+
  have "v < 2 powi 100" using vb(1) t(2) by simp
  then obtain m e where r: "f64_round ?p ?e = Fin m e" "?e \<le> e" "0 < m" "\<bar>f64_val m e - v\<bar> \<le> v * 2 powi (- 53)"
    using f64_round_moderate [OF q(1), of ?e] q(3) unfolding v_def by auto
  have "f64_div (f64_of_int s) ten = Fin m e" using r(1) by (simp add: f64_of_int_def ten_def)
  moreover have "\<bar>f64_val m e - t / 10\<bar> \<le> t / 2 ^ 53"
  proof -
    have "(2 :: real) powi (- 53) = 1 / 2 ^ 53" by (simp add: power_int_def power_one_over)
    then have a: "\<bar>f64_val m e - v\<bar> \<le> v / 2 ^ 53" using r(4) by simp
    have "v / 2 ^ 53 + t / 2 ^ 59 \<le> t / 2 ^ 53"
    proof -
      note closeD(1) [OF v]
      then show ?thesis using t(1) by simp
    qed
    then show ?thesis using closeD [OF a] closeD [OF v] by (intro closeI) linarith+
  qed
  ultimately show thesis using that [of m e] r(2,3) q(3) by (simp add: t_def)
qed

lemma tenth_times_ten:
  assumes "0 < s" "s < 2 ^ 16" "f64_div (f64_of_int s) ten = x"
  shows "f64_llround (f64_mul x ten) = Some s"
proof -
  obtain m e where d: "x = Fin m e" "- 61 \<le> e" "0 < m" "\<bar>f64_val m e - of_int s / 10\<bar> \<le> of_int s / 2 ^ 53"
    using tenth [OF assms(1,2)] assms(3) by metis
  define t :: real where "t = of_int s"
  have t: "0 < t" "t < 65536" using assms(1,2) by (simp_all add: t_def)
  define w where "w = f64_val (m * 10) e"
  have "w = 10 * f64_val m e" by (simp add: w_def f64_val_def)
  then have w: "w \<le> t + 10 * (t / 2 ^ 53)" "t \<le> w + 10 * (t / 2 ^ 53)" using closeD [OF d(4)] unfolding t_def by linarith+
  have "10 * (t / 2 ^ 53) \<le> t" using t(1) by simp
  then have wb: "w \<le> 2 * t" using w by linarith
  then have "f64_val (m * 10) e < 2 powi 100" using t(2) by (simp add: w_def)
  moreover have "0 < m * 10" "- 1000 \<le> e" using d(2,3) by simp_all
  ultimately obtain m' e' where r: "f64_round (m * 10) e = Fin m' e'" "\<bar>f64_val m' e' - w\<bar> \<le> w * 2 powi (- 53)"
    using f64_round_moderate [of "m * 10" e] unfolding w_def by blast
  have "(2 :: real) powi (- 53) = 1 / 2 ^ 53" by (simp add: power_int_def power_one_over)
  then have "\<bar>f64_val m' e' - w\<bar> \<le> w / 2 ^ 53" using r(2) by simp
  note closeD [OF this]
  moreover have "w / 2 ^ 53 + 10 * (t / 2 ^ 53) < 1 / 4" using wb t by simp
  ultimately have c: "f64_val m' e' < t + 1 / 4" "t < f64_val m' e' + 1 / 4" using w by linarith+
  obtain i where i: "f64_llround (Fin m' e') = Some i" by simp
  note closeD [OF f64_llround_error [OF i]]
  then have "real_of_int i < of_int (s + 1)" "real_of_int s < of_int (i + 1)" using c unfolding t_def by simp_all
  then have "i = s" unfolding of_int_less_iff by simp
  then show ?thesis using i r(1) d(1) by (simp add: ten_def)
qed

end
