(* ===== verification/Vehicle_Codec.thy ===== *)
theory Vehicle_Codec
  imports Float_Division Json Chassis_Client
begin

text \<open>
  \<open>cockpit/driver/vehicle/vehicle_can_codec.cc\<close>, \<open>vehicle_state.cc\<close> and \<open>chassis_state.cc\<close>: the vehicle state on
  the bus (frame 0x123, speeds in tenths of km/h) and the JSON texts in which both states are published. A decimal
  of a double is printed as the stream does it, rounded to even on the exact binary value.
\<close>

section \<open>The vehicle state\<close>

record vehicle_state =
  vs_timestamp_ms :: int
  vs_speed_kph :: f64
  vs_gear :: int
  vs_soc_percent :: int
  vs_cloud_enabled :: bool
  vs_source :: string

definition vehicle_state_new :: vehicle_state where
  "vehicle_state_new = \<lparr> vs_timestamp_ms = 0, vs_speed_kph = Fin 0 0, vs_gear = 0, vs_soc_percent = 0,
     vs_cloud_enabled = False, vs_source = ''mock'' \<rparr>"

text \<open>\<open>12.0 + (sequence % 9) * 3.5\<close> is exact: it is a whole number of halves.\<close>

definition make_mock_vehicle_state :: "int \<Rightarrow> int \<Rightarrow> vehicle_state" where
  "make_mock_vehicle_state sequence wall_ms = \<lparr> vs_timestamp_ms = wall_ms,
     vs_speed_kph = Fin (24 + 7 * (sequence smod 9)) (- 1), vs_gear = sequence smod 4,
     vs_soc_percent = 88 - (sequence smod 8), vs_cloud_enabled = True, vs_source = ''mock'' \<rparr>"

section \<open>The frame\<close>

definition state_frame_id :: u32 where "state_frame_id = 0x123"
definition state_frame_length :: u8 where "state_frame_length = 5"

datatype vehicle_decode = VdDecoded vehicle_state | VdIgnored | VdInvalid

definition f64_clamp :: "f64 \<Rightarrow> f64 \<Rightarrow> f64 \<Rightarrow> f64" where
  "f64_clamp v lo hi = (if f64_less v lo then lo else if f64_less hi v then hi else v)"

definition max_speed :: f64 where
  "max_speed = f64_div (f64_of_int 65535) ten"

text \<open>\<open>None\<close> is a speed that is not a number, whose \<open>lround\<close> is unspecified.\<close>

definition encode_speed :: "f64 \<Rightarrow> u16 option" where
  "encode_speed x = map_option word_of_int (f64_llround (f64_mul (f64_clamp x (Fin 0 0) max_speed) ten))"

definition vehicle_payload :: "u16 \<Rightarrow> vehicle_state \<Rightarrow> u8 list" where
  "vehicle_payload speed st = zero_data[0 := ucast (speed AND 0xFF), 1 := ucast (drop_bit 8 speed AND 0xFF),
     2 := word_of_int (clamp (vs_gear st) 0 255), 3 := word_of_int (clamp (vs_soc_percent st) 0 100),
     4 := (if vs_cloud_enabled st then 1 else 0)]"

definition encode_vehicle :: "vehicle_state \<Rightarrow> can_frame option" where
  "encode_vehicle st =
     (case encode_speed (vs_speed_kph st) of
        None \<Rightarrow> None
      | Some speed \<Rightarrow> Some \<lparr> cf_id = state_frame_id, cf_data = vehicle_payload speed st, cf_len = state_frame_length,
          cf_extended = False, cf_remote = False, cf_fd = False, cf_brs = False, cf_esi = False \<rparr>)"

definition decode_vehicle :: "can_frame \<Rightarrow> int \<Rightarrow> vehicle_decode" where
  "decode_vehicle f wall_ms =
     (if cf_id f \<noteq> state_frame_id \<or> cf_extended f then VdIgnored
      else if cf_remote f \<or> cf_len f < state_frame_length then VdInvalid
      else
        (let d = cf_data f; speed = (ucast (d ! 0) OR push_bit 8 (ucast (d ! 1)) :: u16) in
         VdDecoded \<lparr> vs_timestamp_ms = wall_ms, vs_speed_kph = f64_div (f64_of_int (uint speed)) ten,
           vs_gear = uint (d ! 2), vs_soc_percent = min (uint (d ! 3)) 100, vs_cloud_enabled = (d ! 4 AND 1 \<noteq> 0),
           vs_source = ''socketcan'' \<rparr>))"

section \<open>Speeds survive\<close>

lemma tenth_zero: "f64_div (f64_of_int 0) ten = Fin 0 (- 61)"
proof -
  have "sig_bits 10 = 4" "sig_bits 0 = 0" by (simp_all add: sig_bits_def bits.simps)
  then show ?thesis
    by (simp add: f64_of_int_def ten_def quotient_bits_def quotient_shift_def f64_round_def Let_def)
qed

lemma f64_val_sign: "0 \<le> m \<Longrightarrow> 0 \<le> f64_val m e" "f64_val 0 e = 0"
  by (simp_all add: f64_val_def)

lemma max_speed_close:
  obtains m e where "max_speed = Fin m e" "0 < m" "f64_val m e \<le> 65535 / 10 + 65535 / 2 ^ 53" "65535 / 10 \<le> f64_val m e + 65535 / 2 ^ 53"
proof -
  define s0 :: int where "s0 = 65535"
  have "0 < s0" "s0 < 2 ^ 16" by (simp_all add: s0_def)
  from tenth [OF this] obtain m e where m: "f64_div (f64_of_int s0) ten = Fin m e" "0 < m" "\<bar>f64_val m e - of_int s0 / 10\<bar> \<le> of_int s0 / 2 ^ 53"
    by blast
  have "real_of_int s0 = 65535" by (simp add: s0_def)
  note closeD [OF m(3), unfolded this]
  then show thesis using that m(1,2) by (simp only: max_speed_def s0_def)
qed

lemma tenth_not_above:
  assumes "0 < s" "s < 2 ^ 16"
  shows "\<not> f64_less max_speed (f64_div (f64_of_int s) ten) \<and> \<not> f64_less (f64_div (f64_of_int s) ten) (Fin 0 0)"
proof -
  obtain m e where x: "f64_div (f64_of_int s) ten = Fin m e" "0 < m" "\<bar>f64_val m e - of_int s / 10\<bar> \<le> of_int s / 2 ^ 53"
    using tenth [OF assms] by metis
  obtain m' e' where y: "max_speed = Fin m' e'" "65535 / 10 \<le> f64_val m' e' + 65535 / 2 ^ 53"
    using max_speed_close by metis
  have "\<not> f64_val m' e' < f64_val m e"
  proof (cases "s = 65535")
    case True
    then show ?thesis using x(1) y(1) by (simp add: max_speed_def)
  next
    case False
    then have s: "real_of_int s \<le> 65534" using assms(2) by simp
    then have "f64_val m e \<le> 65534 / 10 + 65534 / 2 ^ 53"
    proof -
      have "real_of_int s / 10 \<le> 65534 / 10" "real_of_int s / 2 ^ 53 \<le> 65534 / 2 ^ 53" using s by (simp_all add: divide_right_mono)
      then show ?thesis using closeD(1) [OF x(3)] by linarith
    qed
    moreover have "(65534 :: real) / 10 + 65534 / 2 ^ 53 + 65535 / 2 ^ 53 < 65535 / 10" by simp
    ultimately show ?thesis using y(2) by linarith
  qed
  moreover have "0 \<le> f64_val m e" using x(2) by (intro f64_val_sign) simp
  ultimately show ?thesis unfolding x(1) y(1) f64_less_val by (simp add: f64_val_sign)
qed

lemma encode_decoded_speed: "encode_speed (f64_div (f64_of_int (uint (v :: u16))) ten) = Some v"
proof -
  have v: "uint v < 2 ^ 16" using uint_lt2p [of v] by simp
  show ?thesis
  proof (cases "uint v = 0")
    case True
    have "\<not> f64_less max_speed (Fin 0 (- 61))"
    proof (rule max_speed_close)
      fix m e
      assume m: "max_speed = Fin m e" "0 < m"
      have "0 \<le> f64_val m e" using m(2) by (intro f64_val_sign) simp
      then show ?thesis unfolding m(1) f64_less_val by (simp add: f64_val_sign)
    qed
    moreover have "\<not> f64_less (Fin 0 (- 61)) (Fin 0 0)" by (simp add: f64_less_val f64_val_def)
    moreover have "f64_llround (f64_mul (Fin 0 (- 61)) ten) = Some 0"
      by (simp add: ten_def f64_round_def sig_bits_def bits.simps Let_def)
    moreover have "v = 0" using True by (simp add: uint_0_iff)
    ultimately show ?thesis using True by (simp add: encode_speed_def f64_clamp_def tenth_zero)
  next
    case False
    then have "0 < uint v" using uint_nonnegative [of v] by linarith
    then show ?thesis
      using tenth_not_above [OF _ v] tenth_times_ten [OF _ v refl] by (simp add: encode_speed_def f64_clamp_def)
  qed
qed

lemma speed_bytes: "ucast (ucast (v AND 0xFF) :: u8) OR push_bit 8 (ucast (ucast (drop_bit 8 v AND 0xFF) :: u8)) = (v :: u16)"
proof -
  have m: "(0xFF :: u16) = mask 8" by (simp add: mask_eq_exp_minus_1)
  show ?thesis unfolding m by (rule bit_word_eqI) (auto simp: bit_simps)
qed

lemma byte_of_clamp: "0 \<le> lo \<Longrightarrow> lo \<le> hi \<Longrightarrow> hi \<le> 255 \<Longrightarrow> uint (word_of_int (clamp x lo hi) :: u8) = clamp x lo hi"
  using clamp_bounds [of lo hi x] by (simp add: uint_word_of_int_eq take_bit_int_eq_self)

lemma decode_encode:
  assumes "vs_speed_kph st = f64_div (f64_of_int (uint (v :: u16))) ten" "encode_vehicle st = Some f"
  shows "decode_vehicle f wall = VdDecoded (st\<lparr>vs_timestamp_ms := wall, vs_gear := clamp (vs_gear st) 0 255,
    vs_soc_percent := clamp (vs_soc_percent st) 0 100, vs_source := ''socketcan''\<rparr>)"
proof -
  have f: "f = \<lparr> cf_id = state_frame_id, cf_data = vehicle_payload v st, cf_len = state_frame_length,
      cf_extended = False, cf_remote = False, cf_fd = False, cf_brs = False, cf_esi = False \<rparr>"
    using assms encode_decoded_speed [of v] by (simp add: encode_vehicle_def)
  have "length zero_data = 64" by (simp add: zero_data_def max_data_length_def)
  then have d: "vehicle_payload v st ! 0 = ucast (v AND 0xFF)" "vehicle_payload v st ! Suc 0 = ucast (drop_bit 8 v AND 0xFF)"
    "vehicle_payload v st ! 2 = word_of_int (clamp (vs_gear st) 0 255)" "vehicle_payload v st ! 3 = word_of_int (clamp (vs_soc_percent st) 0 100)"
    "vehicle_payload v st ! 4 = (if vs_cloud_enabled st then 1 else 0)"
    by (simp_all add: vehicle_payload_def nth_list_update)
  have "min (clamp (vs_soc_percent st) 0 100) 100 = clamp (vs_soc_percent st) 0 100" using clamp_bounds [of 0 100 "vs_soc_percent st"] by simp
  then show ?thesis
    using assms(1) by (auto simp: decode_vehicle_def f d speed_bytes byte_of_clamp Let_def intro!: vehicle_state.equality)
qed

section \<open>The published texts\<close>

text \<open>\<open>std::fixed\<close> with one decimal: the exact value in tenths, rounded to the nearest, ties to even.\<close>

fun fixed1 :: "f64 \<Rightarrow> string" where
  "fixed1 (Fin m e) =
     (let n = nat (if 0 \<le> e then \<bar>m\<bar> * 10 * 2 ^ nat e else rne (\<bar>m\<bar> * 10) (nat (- e))) in
      (if m < 0 then ''-'' else []) @ dec_str (n div 10) @ ''.'' @ [digit_char (n mod 10)])"
| "fixed1 NaN = ''nan''"
| "fixed1 (Inf s) = (if s then ''-inf'' else ''inf'')"

definition bool_text :: "bool \<Rightarrow> string" where
  "bool_text b = (if b then ''true'' else ''false'')"

text \<open>A key in quotes, a colon and a value.\<close>

definition field :: "string \<Rightarrow> string \<Rightarrow> string" where
  "field key value = quote # key @ quote # CHR '':'' # value"

definition vehicle_to_json :: "vehicle_state \<Rightarrow> string" where
  "vehicle_to_json st = ''{'' @
     field ''timestamp_ms'' (dec_str_int (vs_timestamp_ms st)) @ '','' @
     field ''speed_kph'' (fixed1 (vs_speed_kph st)) @ '','' @
     field ''gear'' (dec_str_int (vs_gear st)) @ '','' @
     field ''soc_percent'' (dec_str_int (vs_soc_percent st)) @ '','' @
     field ''cloud_enabled'' (bool_text (vs_cloud_enabled st)) @ '','' @
     field ''source'' (quote # escape_string (vs_source st) @ [quote]) @ ''}''"

fun heartbeat_status_text :: "heartbeat_status \<Rightarrow> string" where
  "heartbeat_status_text HbAlive = ''alive''"
| "heartbeat_status_text HbTimeout = ''timeout''"
| "heartbeat_status_text HbUnknown = ''unknown''"

definition word_text :: "'a::len word \<Rightarrow> string" where
  "word_text w = dec_str (unat w)"

definition chassis_to_json :: "chassis_state \<Rightarrow> string" where
  "chassis_to_json s = ''{'' @
     field ''timestamp_ms'' (dec_str_int (cs_timestamp_ms s)) @ '','' @
     field ''source'' (quote # escape_string (cs_source s) @ [quote]) @ '','' @
     field ''motion_valid'' (bool_text (cs_motion_valid s)) @ '','' @
     field ''running'' (bool_text (cs_running s)) @ '','' @
     field ''control_state'' (word_text (cs_control_state s)) @ '','' @
     field ''left_velocity_mm_s'' (dec_str_int (cs_left_velocity s)) @ '','' @
     field ''right_velocity_mm_s'' (dec_str_int (cs_right_velocity s)) @ '','' @
     field ''linear_velocity_mm_s'' (dec_str_int (cs_linear_velocity s)) @ '','' @
     field ''angular_velocity_mrad_s'' (dec_str_int (cs_angular_velocity s)) @ '','' @
     field ''left_output_permille'' (dec_str_int (cs_left_output s)) @ '','' @
     field ''right_output_permille'' (dec_str_int (cs_right_output s)) @ '','' @
     field ''odometry_valid'' (bool_text (cs_odometry_valid s)) @ '','' @
     field ''odometry_timestamp_ms'' (word_text (cs_odometry_timestamp_ms s)) @ '','' @
     field ''x_mm'' (dec_str_int (cs_x s)) @ '','' @
     field ''y_mm'' (dec_str_int (cs_y s)) @ '','' @
     field ''heading_mrad'' (dec_str_int (cs_heading s)) @ '','' @
     field ''odometry_linear_velocity_mm_s'' (dec_str_int (cs_odometry_linear_velocity s)) @ '','' @
     field ''odometry_angular_velocity_mrad_s'' (dec_str_int (cs_odometry_angular_velocity s)) @ '','' @
     field ''heartbeat_status'' (quote # heartbeat_status_text (cs_heartbeat_status s) @ [quote]) @ '','' @
     field ''heartbeat_age_ms'' (dec_str_int (cs_heartbeat_age_ms s)) @ '','' @
     field ''node_state'' (word_text (cs_node_state s)) @ '','' @
     field ''uptime_ms'' (word_text (cs_uptime_ms s)) @ '','' @
     field ''peer_reboot_count'' (word_text (cs_peer_reboot_count s)) @ '','' @
     field ''fault_summary'' (word_text (cs_fault_summary s)) @ '','' @
     field ''fault_severity'' (word_text (cs_fault_severity s)) @ '','' @
     field ''active_faults'' (word_text (cs_active_faults s)) @ '','' @
     field ''latched_faults'' (word_text (cs_latched_faults s)) @ '','' @
     field ''fault_sequence'' (word_text (cs_fault_sequence s)) @ ''}''"

section \<open>They are trees of values\<close>

definition plain_char :: "char \<Rightarrow> bool" where
  "plain_char c \<longleftrightarrow> c \<noteq> quote \<and> c \<noteq> backslash \<and> 0x20 \<le> code c \<and> code c < 0x80"

lemma escape_plain: "list_all plain_char s \<Longrightarrow> escape_string s = s"
proof (induction s)
  case (Cons c s)
  then have "c \<notin> {CHR 0x08, CHR 0x0C, CHR 0x0A, CHR 0x0D, CHR 0x09}" by (auto simp: plain_char_def code_def)
  then show ?case using Cons by (simp add: escape_string.simps(2) plain_char_def)
qed simp

text \<open>The printed members: a key of plain characters and the text of a value.\<close>

definition members_text_of :: "(string \<times> string) list \<Rightarrow> string" where
  "members_text_of kvs = ''{'' @ join_comma (map (\<lambda>(k, v). field k v) kvs) @ ''}''"

definition value_of_text :: "string \<Rightarrow> json \<Rightarrow> bool" where
  "value_of_text t v \<longleftrightarrow> render v = t \<and> json_wf v \<and> (\<forall>d \<le> maximum_depth. fits_depth d v)"

definition printable :: "string \<Rightarrow> bool" where
  "printable t \<longleftrightarrow> (\<exists>v. value_of_text t v)"

lemma printable_texts [simp]:
  "printable (dec_str_int x)" "printable (word_text w)" "printable (bool_text b)" "printable (quote # escape_string s @ [quote])"
proof -
  have "value_of_text (dec_str_int x) (JNumber (x < 0) (nat \<bar>x\<bar>) [])" "value_of_text (word_text w) (JNumber False (unat w) [])"
    "value_of_text (bool_text b) (JBool b)" "value_of_text (quote # escape_string s @ [quote]) (JString s)"
    by (auto simp: value_of_text_def dec_str_int_def word_text_def bool_text_def json_string_def)
  then show "printable (dec_str_int x)" "printable (word_text w)" "printable (bool_text b)" "printable (quote # escape_string s @ [quote])"
    unfolding printable_def by blast+
qed

lemma printable_plain: "list_all plain_char s \<Longrightarrow> printable (quote # s @ [quote])"
  using printable_texts(4) [of s] by (simp add: escape_plain)

lemma printable_fixed1: "is_finite x \<Longrightarrow> printable (fixed1 x)"
proof (cases x)
  case (Fin m e)
  define n where "n = nat (if 0 \<le> e then \<bar>m\<bar> * 10 * 2 ^ nat e else rne (\<bar>m\<bar> * 10) (nat (- e)))"
  have "is_digit (digit_char (n mod 10))" by (rule digit_char_digit) simp
  then have "value_of_text (fixed1 x) (JNumber (m < 0) (n div 10) [digit_char (n mod 10)])"
    by (simp add: value_of_text_def Fin n_def [symmetric] Let_def)
  then show ?thesis unfolding printable_def by blast
qed simp_all

lemma printed_object_valid:
  assumes "list_all (\<lambda>(k, t). list_all plain_char k \<and> printable t) kvs"
  shows "is_valid_value (members_text_of kvs)"
proof -
  define tree where "tree = map (\<lambda>(k, t). (k, SOME v. value_of_text t v)) kvs"
  have v: "value_of_text t (SOME v. value_of_text t v)" "list_all plain_char k" if "(k, t) \<in> set kvs" for k t
    using assms that by (auto simp: list_all_iff printable_def intro: someI_ex)
  have "map (\<lambda>(k, v). json_string k @ CHR '':'' # render v) tree = map (\<lambda>(k, t). field k t) kvs"
    using v by (force simp: tree_def field_def json_string_def escape_plain value_of_text_def)
  then have "render (JObject tree) = members_text_of kvs" by (simp add: members_text_of_def)
  moreover have "json_wf (JObject tree)" "fits_depth 0 (JObject tree)"
    using v by (auto simp: tree_def list_all_iff value_of_text_def maximum_depth_def)
  ultimately show ?thesis using rendered_valid by metis
qed

lemma decoded_speed_finite: "is_finite (f64_div (f64_of_int (uint (v :: u16))) ten)"
proof (cases "uint v = 0")
  case False
  have "0 < uint v" using False uint_nonnegative [of v] by linarith
  moreover have "uint v < 2 ^ 16" using uint_lt2p [of v] by simp
  moreover note tenth
  ultimately show ?thesis by (metis is_finite.simps(1))
qed (simp add: tenth_zero)

lemma vehicle_json_valid:
  assumes "is_finite (vs_speed_kph st)"
  shows "is_valid_value (vehicle_to_json st)"
proof -
  let ?kvs = "[(''timestamp_ms'', dec_str_int (vs_timestamp_ms st)), (''speed_kph'', fixed1 (vs_speed_kph st)),
    (''gear'', dec_str_int (vs_gear st)), (''soc_percent'', dec_str_int (vs_soc_percent st)),
    (''cloud_enabled'', bool_text (vs_cloud_enabled st)), (''source'', quote # escape_string (vs_source st) @ [quote])]"
  have "vehicle_to_json st = members_text_of ?kvs" by (simp add: vehicle_to_json_def members_text_of_def)
  moreover have "list_all (\<lambda>(k, t). list_all plain_char k \<and> printable t) ?kvs"
    using printable_fixed1 [OF assms] by (simp add: plain_char_def code_def)
  ultimately show ?thesis using printed_object_valid [of ?kvs] by (simp only:)
qed

lemma heartbeat_text_printable [simp]: "printable (quote # heartbeat_status_text h @ [quote])"
  by (cases h) (simp_all only: heartbeat_status_text.simps, (rule printable_plain, simp add: plain_char_def code_def)+)

lemma chassis_json_valid: "is_valid_value (chassis_to_json s)"
proof -
  let ?kvs = "[(''timestamp_ms'', dec_str_int (cs_timestamp_ms s)), (''source'', quote # escape_string (cs_source s) @ [quote]),
    (''motion_valid'', bool_text (cs_motion_valid s)), (''running'', bool_text (cs_running s)),
    (''control_state'', word_text (cs_control_state s)), (''left_velocity_mm_s'', dec_str_int (cs_left_velocity s)),
    (''right_velocity_mm_s'', dec_str_int (cs_right_velocity s)), (''linear_velocity_mm_s'', dec_str_int (cs_linear_velocity s)),
    (''angular_velocity_mrad_s'', dec_str_int (cs_angular_velocity s)), (''left_output_permille'', dec_str_int (cs_left_output s)),
    (''right_output_permille'', dec_str_int (cs_right_output s)), (''odometry_valid'', bool_text (cs_odometry_valid s)),
    (''odometry_timestamp_ms'', word_text (cs_odometry_timestamp_ms s)), (''x_mm'', dec_str_int (cs_x s)),
    (''y_mm'', dec_str_int (cs_y s)), (''heading_mrad'', dec_str_int (cs_heading s)),
    (''odometry_linear_velocity_mm_s'', dec_str_int (cs_odometry_linear_velocity s)),
    (''odometry_angular_velocity_mrad_s'', dec_str_int (cs_odometry_angular_velocity s)),
    (''heartbeat_status'', quote # heartbeat_status_text (cs_heartbeat_status s) @ [quote]),
    (''heartbeat_age_ms'', dec_str_int (cs_heartbeat_age_ms s)), (''node_state'', word_text (cs_node_state s)),
    (''uptime_ms'', word_text (cs_uptime_ms s)), (''peer_reboot_count'', word_text (cs_peer_reboot_count s)),
    (''fault_summary'', word_text (cs_fault_summary s)), (''fault_severity'', word_text (cs_fault_severity s)),
    (''active_faults'', word_text (cs_active_faults s)), (''latched_faults'', word_text (cs_latched_faults s)),
    (''fault_sequence'', word_text (cs_fault_sequence s))]"
  have "chassis_to_json s = members_text_of ?kvs"
    by (simp only: chassis_to_json_def members_text_of_def list.map prod.case join_comma.simps append_Cons append_Nil append_assoc)
  moreover have "list_all (\<lambda>(k, t). list_all plain_char k \<and> printable t) ?kvs"
    by (simp add: plain_char_def code_def)
  ultimately show ?thesis using printed_object_valid [of ?kvs] by (simp only:)
qed

section \<open>Properties\<close>

text \<open>
  A state sent as a frame comes back: every speed on the grid of tenths, as 65536 doubles, survives encoding and
  decoding exactly, with gear and charge clamped to their ranges.
\<close>

theorem vehicle_frame_roundtrip:
  assumes "vs_speed_kph st = f64_div (f64_of_int (uint (v :: u16))) ten"
  shows "\<exists>f. encode_vehicle st = Some f \<and> decode_vehicle f wall = VdDecoded (st\<lparr>vs_timestamp_ms := wall,
    vs_gear := clamp (vs_gear st) 0 255, vs_soc_percent := clamp (vs_soc_percent st) 0 100, vs_source := ''socketcan''\<rparr>)"
proof -
  obtain f where "encode_vehicle st = Some f" using assms encode_decoded_speed [of v] by (simp add: encode_vehicle_def)
  then show ?thesis using decode_encode [OF assms] by blast
qed

theorem vehicle_frame_roundtrip_witness:
  "\<exists>f. encode_vehicle (vehicle_state_new\<lparr>vs_speed_kph := f64_div (f64_of_int 123) ten, vs_gear := 300\<rparr>) = Some f \<and>
    decode_vehicle f 9 = VdDecoded (vehicle_state_new\<lparr>vs_timestamp_ms := 9, vs_speed_kph := f64_div (f64_of_int 123) ten, vs_gear := 255,
      vs_source := ''socketcan''\<rparr>)"
  using vehicle_frame_roundtrip [of "vehicle_state_new\<lparr>vs_speed_kph := f64_div (f64_of_int 123) ten, vs_gear := 300\<rparr>" 123 9]
  by (simp add: vehicle_state_new_def clamp_def)

text \<open>
  C33: what the vehicle process publishes is JSON: the text of every decoded state, whatever the frame, of every mock
  state and of every chassis state is accepted by the validator.
\<close>

theorem published_states_are_json:
  "(case decode_vehicle f wall of VdDecoded st \<Rightarrow> is_valid_value (vehicle_to_json st) | _ \<Rightarrow> True) \<and>
   is_valid_value (vehicle_to_json (make_mock_vehicle_state n wall)) \<and> is_valid_value (chassis_to_json s)"
proof -
  have "is_valid_value (vehicle_to_json st)" if "decode_vehicle f wall = VdDecoded st" for st
    using that decoded_speed_finite by (intro vehicle_json_valid) (auto simp: decode_vehicle_def Let_def split: if_splits)
  moreover have "is_valid_value (vehicle_to_json (make_mock_vehicle_state n wall))"
    by (rule vehicle_json_valid) (simp add: make_mock_vehicle_state_def)
  ultimately show ?thesis using chassis_json_valid by (auto split: vehicle_decode.split)
qed

end
