(* ===== verification/Vehicle_Data.thy ===== *)
theory Vehicle_Data
  imports Vehicle_Codec Socket_Can
begin

text \<open>
  \<open>cockpit/driver/vehicle/runtime/vehicle_data_service.cc\<close>: the process that reads the vehicle bus, keeps the chassis
  heartbeat going, and publishes states and link status. \<open>Run\<close> is a sequence of rounds of its loop; the clocks, the
  result of \<open>write\<close>, the receive event and \<open>should_continue\<close> are the inputs of a round, what the sinks and standard
  output get is its output. Log lines are left out.
\<close>

section \<open>State\<close>

datatype can_communication_state = CcStarting | CcOnline | CcIdle | CcFaulted

record can_link_status =
  ls_interface_name :: string
  ls_fd_enabled :: bool
  ls_state :: can_communication_state
  ls_last_rx_timestamp_ms :: u64
  ls_rx_frames :: u64
  ls_decoded_frames :: u64
  ls_invalid_frames :: u64
  ls_idle_timeouts :: u64
  ls_error_frames :: u64
  ls_bus_off_count :: u64
  ls_error_passive_count :: u64
  ls_error_warning_count :: u64
  ls_ack_error_count :: u64
  ls_protocol_error_count :: u64
  ls_last_error :: string

definition link_status_new :: can_link_status where
  "link_status_new = \<lparr> ls_interface_name = [], ls_fd_enabled = False, ls_state = CcStarting, ls_last_rx_timestamp_ms = 0,
     ls_rx_frames = 0, ls_decoded_frames = 0, ls_invalid_frames = 0, ls_idle_timeouts = 0, ls_error_frames = 0,
     ls_bus_off_count = 0, ls_error_passive_count = 0, ls_error_warning_count = 0, ls_ack_error_count = 0,
     ls_protocol_error_count = 0, ls_last_error = [] \<rparr>"

record vehicle_options =
  vo_source :: string
  vo_interface :: string
  vo_receive_timeout_ms :: int
  vo_max_idle_timeouts :: int
  vo_samples :: int
  vo_forever :: bool

record vehicle_loop =
  vl_link :: can_link_status
  vl_client :: chassis_client
  vl_error :: string
  vl_published :: int
  vl_idle_timeouts :: int
  vl_idle_elapsed_ms :: int

datatype vehicle_output = OutLink can_link_status | OutChassis chassis_state | OutVehicle vehicle_state
  | OutFrame native_frame int | OutText string

text \<open>How a round ends: another round follows, the function returns a value, or an overlong frame leaves the
  defined behaviour (which no heartbeat does).\<close>

datatype round_end = ReGo | ReExit int | ReUndefined

record round_input =
  ri_continue :: bool
  ri_now_ms :: int
  ri_written :: int
  ri_event :: rx_event
  ri_receive_error :: string
  ri_later_ms :: int
  ri_wall_ms :: int

section \<open>Publishing\<close>

definition publish :: "vehicle_state \<Rightarrow> vehicle_output list" where
  "publish st = [OutText (vehicle_to_json st), OutVehicle st]"

definition publish_chassis :: "chassis_state \<Rightarrow> vehicle_output list" where
  "publish_chassis s = [OutText (chassis_to_json s), OutChassis s]"

definition heartbeat_transition :: "int \<Rightarrow> int \<Rightarrow> vehicle_loop \<Rightarrow> vehicle_output list \<times> vehicle_loop" where
  "heartbeat_transition steady_now wall l =
     (case client_update (vl_client l) steady_now wall of (changed, c) \<Rightarrow>
        (if changed then publish_chassis (cc_state c) else [], l\<lparr>vl_client := c\<rparr>))"

section \<open>One round on the bus\<close>

definition poll_timeout :: "vehicle_options \<Rightarrow> int" where
  "poll_timeout opts = max 1 (min (vo_receive_timeout_ms opts) 50)"

definition round_guard :: "vehicle_options \<Rightarrow> bool \<Rightarrow> vehicle_loop \<Rightarrow> bool" where
  "round_guard opts continue l \<longleftrightarrow> continue \<and> (vo_forever opts \<or> vl_published l < vo_samples opts)"

text \<open>The heartbeat of the cockpit, when it is due.\<close>

definition send_heartbeat :: "int \<Rightarrow> int \<Rightarrow> vehicle_loop \<Rightarrow> round_end \<times> vehicle_output list \<times> vehicle_loop" where
  "send_heartbeat now written l =
     (if \<not> heartbeat_due (vl_client l) now then (ReGo, [], l)
      else
        (let fail = (\<lambda>l' e. let k = (vl_link l')\<lparr>ls_state := CcFaulted,
                      ls_last_error := if e = [] then ''send chassis heartbeat failed'' else e\<rparr>
                    in (ReExit 1, [OutLink k], l'\<lparr>vl_link := k\<rparr>))
         in case build_heartbeat (vl_client l) now of
              (None, c) \<Rightarrow> fail (l\<lparr>vl_client := c\<rparr>) (vl_error l)
            | (Some f, c) \<Rightarrow>
                (case to_socket_can_frame f of
                   None \<Rightarrow> (ReUndefined, [], l\<lparr>vl_client := c\<rparr>)
                 | Some s \<Rightarrow>
                     (case socket_send True s written of
                        (out, Some e) \<Rightarrow>
                          (case fail (l\<lparr>vl_client := c, vl_error := e\<rparr>) e of (r, outs, l') \<Rightarrow>
                             (r, (case out of None \<Rightarrow> [] | Some (nf, n) \<Rightarrow> [OutFrame nf n]) @ outs, l'))
                      | (out, None) \<Rightarrow>
                          (ReGo, (case out of None \<Rightarrow> [] | Some (nf, n) \<Rightarrow> [OutFrame nf n]), l\<lparr>vl_client := c\<rparr>)))))"

definition receive_timeout :: "vehicle_options \<Rightarrow> round_input \<Rightarrow> vehicle_loop \<Rightarrow> round_end \<times> vehicle_output list \<times> vehicle_loop" where
  "receive_timeout opts i l0 =
     (case heartbeat_transition (ri_later_ms i) (ri_wall_ms i) l0 of (outs, l) \<Rightarrow>
        let elapsed = vl_idle_elapsed_ms l + poll_timeout opts in
        if elapsed < vo_receive_timeout_ms opts then (ReGo, outs, l\<lparr>vl_idle_elapsed_ms := elapsed\<rparr>)
        else
          (let idle = vl_idle_timeouts l + 1;
               k = (vl_link l)\<lparr>ls_idle_timeouts := ls_idle_timeouts (vl_link l) + 1\<rparr>;
               exceeded = idle \<ge> vo_max_idle_timeouts opts;
               k' = (if exceeded then k\<lparr>ls_state := CcIdle, ls_last_error := ''CAN receive idle threshold exceeded''\<rparr> else k)
           in (if \<not> vo_forever opts \<and> exceeded then ReExit 3 else ReGo,
               outs @ (if exceeded then [OutLink k'] else []),
               l\<lparr>vl_idle_elapsed_ms := 0, vl_idle_timeouts := idle, vl_link := k'\<rparr>)))"

definition receive_failed :: "round_input \<Rightarrow> vehicle_loop \<Rightarrow> round_end \<times> vehicle_output list \<times> vehicle_loop" where
  "receive_failed i l =
     (let k = (vl_link l)\<lparr>ls_state := CcFaulted,
            ls_last_error := if ri_receive_error i = [] then ''CAN receive failed'' else ri_receive_error i\<rparr>
      in (ReExit 1, [OutLink k], l\<lparr>vl_link := k\<rparr>))"

definition count_frame :: "socket_can_frame \<Rightarrow> vehicle_loop \<Rightarrow> vehicle_loop" where
  "count_frame sf l = l\<lparr>vl_idle_elapsed_ms := 0, vl_link := (vl_link l)
     \<lparr>ls_rx_frames := ls_rx_frames (vl_link l) + 1,
      ls_last_rx_timestamp_ms := word_of_int (sf_kernel_realtime_ns sf sdiv 1000000)\<rparr>\<rparr>"

definition error_frame :: "socket_can_frame \<Rightarrow> vehicle_loop \<Rightarrow> vehicle_output list \<times> vehicle_loop" where
  "error_frame sf l =
     (let k = vl_link l;
          k' = k\<lparr>ls_error_frames := ls_error_frames k + 1,
                 ls_bus_off_count := ls_bus_off_count k + (if sf_bus_off sf then 1 else 0),
                 ls_error_passive_count := ls_error_passive_count k + (if sf_error_passive sf then 1 else 0),
                 ls_error_warning_count := ls_error_warning_count k + (if sf_error_warning sf then 1 else 0),
                 ls_ack_error_count := ls_ack_error_count k + (if sf_ack_error sf then 1 else 0),
                 ls_protocol_error_count := ls_protocol_error_count k + (if sf_protocol_error sf then 1 else 0),
                 ls_state := if sf_bus_off sf then CcFaulted else CcIdle,
                 ls_last_error := ''SocketCAN error frame mask='' @ dec_str (unat (sf_error_mask sf))\<rparr>
      in ([OutLink k'], l\<lparr>vl_link := k'\<rparr>))"

definition invalid_frame :: "string \<Rightarrow> vehicle_loop \<Rightarrow> vehicle_output list \<times> vehicle_loop" where
  "invalid_frame e l =
     (let k = (vl_link l)\<lparr>ls_invalid_frames := ls_invalid_frames (vl_link l) + 1, ls_last_error := e\<rparr>
      in ([OutLink k], l\<lparr>vl_link := k\<rparr>))"

definition decoded_frame :: "vehicle_loop \<Rightarrow> vehicle_output list \<times> vehicle_loop" where
  "decoded_frame l =
     (let k = (vl_link l)\<lparr>ls_state := CcOnline, ls_last_error := [], ls_decoded_frames := ls_decoded_frames (vl_link l) + 1\<rparr>
      in ([OutLink k], l\<lparr>vl_idle_timeouts := 0, vl_link := k, vl_published := vl_published l + 1\<rparr>))"

definition stale_safety_frame :: "can_frame \<Rightarrow> int \<Rightarrow> int \<Rightarrow> bool" where
  "stale_safety_frame f received processing \<longleftrightarrow>
     (cf_id f = heartbeat_id \<or> cf_id f = fault_status_id) \<and> processing - received \<ge> heartbeat_timeout_ms"

definition vehicle_frame :: "round_input \<Rightarrow> can_frame \<Rightarrow> vehicle_loop \<Rightarrow> vehicle_output list \<times> vehicle_loop" where
  "vehicle_frame i f l =
     (case decode_vehicle f (ri_wall_ms i) of
        VdIgnored \<Rightarrow> ([], l)
      | VdInvalid \<Rightarrow> invalid_frame ''invalid vehicle CAN frame'' l
      | VdDecoded st \<Rightarrow> (case decoded_frame l of (outs, l') \<Rightarrow> (outs @ publish st, l')))"

definition chassis_frame :: "round_input \<Rightarrow> can_frame \<Rightarrow> int \<Rightarrow> vehicle_loop \<Rightarrow> vehicle_output list \<times> vehicle_loop" where
  "chassis_frame i f received l0 =
     (case process_frame (vl_client l0) f received (ri_wall_ms i) of (status, c) \<Rightarrow>
        let l = l0\<lparr>vl_client := c\<rparr> in
        case status of
          DsUpdated \<Rightarrow>
            (let c' = snd (client_update c (ri_later_ms i) (ri_wall_ms i)); s = client_get_state c' (ri_later_ms i) in
             case decoded_frame (l\<lparr>vl_client := c'\<rparr>) of (outs, l') \<Rightarrow> (outs @ publish_chassis s, l'))
        | DsInvalid \<Rightarrow> invalid_frame ''invalid chassis CAN FD frame'' l
        | DsIgnored \<Rightarrow> vehicle_frame i f l)"

definition receive_frame :: "round_input \<Rightarrow> socket_can_frame \<Rightarrow> vehicle_loop \<Rightarrow> vehicle_output list \<times> vehicle_loop" where
  "receive_frame i sf l0 =
     (let l = count_frame sf l0 in
      if sf_error sf then error_frame sf l
      else case from_socket_can_frame sf of
        Inl e \<Rightarrow> invalid_frame (if e = [] then ''invalid SocketCAN frame'' else e) (l\<lparr>vl_error := e\<rparr>)
      | Inr f \<Rightarrow>
          (let received = sf_received_steady_ns sf sdiv 1000000 in
           if stale_safety_frame f received (ri_later_ms i) then ([], l) else chassis_frame i f received l))"

definition receive_any :: "vehicle_options \<Rightarrow> round_input \<Rightarrow> vehicle_loop \<Rightarrow> round_end \<times> vehicle_output list \<times> vehicle_loop" where
  "receive_any opts i l =
     (case socket_receive True (ri_event i) (poll_timeout opts) of
        (IoTimeout, _) \<Rightarrow> receive_timeout opts i (l\<lparr>vl_error := []\<rparr>)
      | (IoOk, Some sf) \<Rightarrow> (case receive_frame i sf (l\<lparr>vl_error := []\<rparr>) of (outs, l') \<Rightarrow> (ReGo, outs, l'))
      | _ \<Rightarrow> receive_failed i (l\<lparr>vl_error := []\<rparr>))"

definition vehicle_round :: "vehicle_options \<Rightarrow> round_input \<Rightarrow> vehicle_loop \<Rightarrow> round_end \<times> vehicle_output list \<times> vehicle_loop" where
  "vehicle_round opts i l0 =
     (if \<not> round_guard opts (ri_continue i) l0 then (ReExit 0, [], l0)
      else
        (case heartbeat_transition (ri_now_ms i) (ri_wall_ms i) l0 of (outs1, l1) \<Rightarrow>
         case send_heartbeat (ri_now_ms i) (ri_written i) l1 of
           (ReGo, outs2, l2) \<Rightarrow>
             (case receive_any opts i l2 of (r, outs3, l3) \<Rightarrow> (r, outs1 @ outs2 @ outs3, l3))
         | (r, outs2, l2) \<Rightarrow> (r, outs1 @ outs2, l2)))"

text \<open>The loop over its inputs: the value returned, or \<open>None\<close> while it still runs, with the outputs and the state.\<close>

fun vehicle_rounds :: "vehicle_options \<Rightarrow> round_input list \<Rightarrow> vehicle_loop \<Rightarrow> round_end option \<times> vehicle_output list \<times> vehicle_loop" where
  "vehicle_rounds opts [] l = (None, [], l)"
| "vehicle_rounds opts (i # is) l =
     (case vehicle_round opts i l of
        (ReGo, outs, l') \<Rightarrow> (case vehicle_rounds opts is l' of (r, outs', l'') \<Rightarrow> (r, outs @ outs', l''))
      | (r, outs, l') \<Rightarrow> (Some r, outs, l'))"

definition vehicle_loop_new :: "vehicle_options \<Rightarrow> int \<Rightarrow> int \<Rightarrow> vehicle_loop" where
  "vehicle_loop_new opts started wall = \<lparr> vl_link = link_status_new\<lparr>ls_interface_name := vo_interface opts, ls_fd_enabled := True\<rparr>,
     vl_client = chassis_client_new started wall, vl_error = [], vl_published = 0, vl_idle_timeouts = 0, vl_idle_elapsed_ms = 0 \<rparr>"

definition run_socket_can ::
  "vehicle_options \<Rightarrow> string option \<Rightarrow> int \<Rightarrow> int \<Rightarrow> round_input list \<Rightarrow> round_end option \<times> vehicle_output list" where
  "run_socket_can opts open_error started wall is =
     (case open_error of
        Some e \<Rightarrow> (Some (ReExit 1), [])
      | None \<Rightarrow>
          (let l = vehicle_loop_new opts started wall in
           case vehicle_rounds opts is l of (r, outs, _) \<Rightarrow> (r, OutLink (vl_link l) # outs)))"

section \<open>The mock source\<close>

text \<open>Each round gets the wall clock twice and whether to go on afterwards.\<close>

fun mock_rounds :: "vehicle_options \<Rightarrow> (int \<times> int \<times> bool) list \<Rightarrow> int \<Rightarrow> can_link_status \<Rightarrow> int option \<times> vehicle_output list" where
  "mock_rounds opts [] sequence k = (None, [])"
| "mock_rounds opts ((wall, wall', continue) # is) sequence k =
     (let k' = k\<lparr>ls_rx_frames := ls_rx_frames k + 1, ls_decoded_frames := ls_decoded_frames k + 1,
            ls_last_rx_timestamp_ms := word_of_int wall'\<rparr>;
          outs = publish (make_mock_vehicle_state sequence wall) @ [OutLink k']
      in if continue \<and> (vo_forever opts \<or> sequence + 1 < vo_samples opts) then
           (case mock_rounds opts is (sequence + 1) k' of (r, outs') \<Rightarrow> (r, outs @ outs'))
         else (Some 0, outs))"

definition run_mock :: "vehicle_options \<Rightarrow> (int \<times> int \<times> bool) list \<Rightarrow> int option \<times> vehicle_output list" where
  "run_mock opts is =
     (let k = link_status_new\<lparr>ls_interface_name := ''mock'', ls_state := CcOnline\<rparr> in
      case mock_rounds opts is 0 k of (r, outs) \<Rightarrow> (r, OutLink k # outs))"

text \<open>\<open>Run\<close> chooses by the name of the source.\<close>

datatype run_source = RunMock | RunSocketCan | RunUnsupported

definition run_choice :: "vehicle_options \<Rightarrow> run_source" where
  "run_choice opts = (if vo_source opts = ''mock'' then RunMock
     else if vo_source opts = ''socketcan'' then RunSocketCan else RunUnsupported)"

definition run_unsupported :: int where "run_unsupported = 2"

lemmas round_defs [step_defs] = receive_timeout_def receive_failed_def count_frame_def error_frame_def
  invalid_frame_def decoded_frame_def vehicle_frame_def receive_frame_def

section \<open>An alive chassis is a fresh one\<close>

text \<open>
  The frame that a round receives, as \<open>Receive\<close> and \<open>FromSocketCanFrame\<close> give it, with the steady time of its
  arrival in milliseconds; and the heartbeats with their times that a number of rounds receive.
\<close>

definition round_frame :: "vehicle_options \<Rightarrow> round_input \<Rightarrow> (can_frame \<times> int) option" where
  "round_frame opts i = (case socket_receive True (ri_event i) (poll_timeout opts) of
     (IoOk, Some sf) \<Rightarrow>
       if sf_error sf then None
       else (case from_socket_can_frame sf of
           Inl e \<Rightarrow> None
         | Inr f \<Rightarrow> Some (f, sf_received_steady_ns sf sdiv 1000000))
   | _ \<Rightarrow> None)"

definition beats :: "vehicle_options \<Rightarrow> round_input list \<Rightarrow> (heartbeat \<times> int) set" where
  "beats opts is = {(h, t). \<exists>j \<in> set is. \<exists>f. round_frame opts j = Some (f, t) \<and> decode_heartbeat f = Some h}"

lemma beats_mono: "set is \<subseteq> set js \<Longrightarrow> beats opts is \<subseteq> beats opts js"
  by (auto simp: beats_def)

text \<open>A published state shows one of these heartbeats, at one of the times at which it may be published.\<close>

definition shows_beat :: "(heartbeat \<times> int) set \<Rightarrow> int set \<Rightarrow> chassis_state \<Rightarrow> bool" where
  "shows_beat H T s \<longleftrightarrow> (\<exists>(h, t) \<in> H. cs_node_state s = hb_node_state h \<and> cs_uptime_ms s = hb_uptime_ms h \<and>
     (\<exists>now \<in> T. now - t < 300 \<and> cs_heartbeat_age_ms s = max 0 (now - t)))"

definition fresh_output :: "(heartbeat \<times> int) set \<Rightarrow> int set \<Rightarrow> vehicle_output \<Rightarrow> bool" where
  "fresh_output H T x \<longleftrightarrow> (case x of OutChassis s \<Rightarrow>
     cs_heartbeat_status s = HbAlive \<longrightarrow> shows_beat H T s | _ \<Rightarrow> True)"

definition heard :: "(heartbeat \<times> int) set \<Rightarrow> heartbeat_monitor \<Rightarrow> bool" where
  "heard H m \<longleftrightarrow> (hs_status (mon_snapshot m) \<noteq> HbUnknown \<longrightarrow>
     (hs_heartbeat (mon_snapshot m), hs_received_ms (mon_snapshot m)) \<in> H)"

definition client_heard :: "(heartbeat \<times> int) set \<Rightarrow> vehicle_loop \<Rightarrow> bool" where
  "client_heard H l \<longleftrightarrow> client_inv (vl_client l) \<and> heard H (cc_monitor (vl_client l))"

lemma fresh_output_simps [simp]:
  "fresh_output H T (OutLink k)" "fresh_output H T (OutText t)" "fresh_output H T (OutVehicle v)" "fresh_output H T (OutFrame n z)"
  by (simp_all add: fresh_output_def)

lemma publish_chassis_fresh:
  "list_all (fresh_output H T) (publish_chassis s) \<longleftrightarrow> fresh_output H T (OutChassis s)"
  by (simp add: publish_chassis_def)

lemma snapshot_age:
  assumes "monitor_inv m"
  shows "hs_age_ms (monitor_snapshot m now) = max 0 (now - hs_received_ms (mon_snapshot m)) \<or>
     hs_status (mon_snapshot m) = HbUnknown"
    and "now < 0 \<Longrightarrow> hs_age_ms (monitor_snapshot m now) = 0"
  using assms by (auto simp: monitor_inv_def monitor_snapshot_def Let_def)

lemma client_inv_monitor: "client_inv c \<Longrightarrow> monitor_inv (cc_monitor c)"
  by (simp add: client_inv_def monitor_reachable_inv)

lemma monitor_update_received: "hs_received_ms (mon_snapshot (monitor_update m now)) = hs_received_ms (mon_snapshot m)"
  by (simp add: monitor_update_def Let_def)

lemma heard_update [simp]: "heard H (monitor_update m now) = heard H m"
  by (simp add: heard_def monitor_update_def Let_def)

lemma heard_process:
  assumes "heard H m" "process_frame c f now w = (st, c')" "cc_monitor c = m"
    and "\<And>h. decode_heartbeat f = Some h \<Longrightarrow> (h, now) \<in> H"
  shows "heard H (cc_monitor c')"
  using process_frame_monitor [OF assms(2)]
proof (elim disjE exE conjE)
  fix m'
  assume p: "monitor_process (monitor_update (cc_monitor c) now) f now = (True, m')" "cc_monitor c' = m'"
  then show ?thesis
    using assms(4) monitor_process_accepted(1,3) [OF p(1)] by (simp add: heard_def)
qed (use assms in simp_all)

lemma timeout_refresh_state:
  "cs_heartbeat_status (cc_state (update_heartbeat_timeout c now)) = hs_status (mon_snapshot (monitor_update (cc_monitor c) now))"
  "cs_heartbeat_age_ms (cc_state (update_heartbeat_timeout c now)) = hs_age_ms (monitor_snapshot (monitor_update (cc_monitor c) now) now)"
  by (simp_all add: update_heartbeat_timeout_def refresh_heartbeat_def reset_fault_sequence_baseline_def Let_def)

text \<open>What the two ways to publish show of the monitor.\<close>

lemma monitor_shows_beat:
  assumes "monitor_inv m" "heard H m" "hs_status (mon_snapshot m) = HbAlive"
    and "now - hs_received_ms (mon_snapshot m) < 300" "now \<in> T"
    and "cs_node_state s = hb_node_state (hs_heartbeat (mon_snapshot m))"
    and "cs_uptime_ms s = hb_uptime_ms (hs_heartbeat (mon_snapshot m))"
    and "cs_heartbeat_age_ms s = hs_age_ms (monitor_snapshot m now)"
  shows "shows_beat H T s"
proof -
  have "(hs_heartbeat (mon_snapshot m), hs_received_ms (mon_snapshot m)) \<in> H"
    using assms(2,3) by (simp add: heard_def)
  moreover have "cs_heartbeat_age_ms s = max 0 (now - hs_received_ms (mon_snapshot m))"
    using snapshot_age(1) [OF assms(1), of now] assms(3,8) by simp
  ultimately show ?thesis
    using assms(4-7) unfolding shows_beat_def by blast
qed

lemma client_update_fresh:
  assumes "client_inv c" "heard H (cc_monitor c)" "client_update c now w = (True, c')" "now \<in> T"
  shows "fresh_output H T (OutChassis (cc_state c'))"
proof -
  let ?m = "monitor_update (cc_monitor c) now"
  have inv': "client_inv c'" using client_update_inv assms(1,3) by blast
  have m: "cc_monitor c' = ?m" "0 \<le> now"
    "cs_heartbeat_status (cc_state c') = hs_status (mon_snapshot ?m)"
    "cs_heartbeat_age_ms (cc_state c') = hs_age_ms (monitor_snapshot ?m now)"
    using assms(3) by (auto simp: client_update_def timeout_refresh_state Let_def split: if_splits)
  have f: "cs_node_state (cc_state c') = hb_node_state (hs_heartbeat (mon_snapshot ?m))"
    "cs_uptime_ms (cc_state c') = hb_uptime_ms (hs_heartbeat (mon_snapshot ?m))"
    using inv' by (simp_all add: client_inv_def mirrors_def m(1))
  have a: "hs_received_ms (mon_snapshot ?m) = hs_received_ms (mon_snapshot (cc_monitor c))"
    by (simp add: monitor_update_def Let_def)
  have "shows_beat H T (cc_state c')" if "hs_status (mon_snapshot ?m) = HbAlive"
    using that assms(2,4) f m(4) monitor_update_alive [OF that] client_inv_monitor [OF inv']
    by (intro monitor_shows_beat [of ?m]) (simp_all add: m(1) a)
  then show ?thesis by (simp add: fresh_output_def m(3))
qed

lemma client_update_negative: "now < 0 \<Longrightarrow> snd (client_update c now w) = c"
  by (simp add: client_update_def)

lemma client_get_state_fresh:
  assumes "client_inv c" "heard H (cc_monitor c)" "now \<in> T"
  shows "fresh_output H T (OutChassis (client_get_state (snd (client_update c now w)) now))"
proof -
  let ?c = "snd (client_update c now w)"
  have inv': "client_inv ?c" using client_update_inv assms(1) by (metis prod.collapse)
  have h: "heard H (cc_monitor ?c)"
    using assms(2) by (simp add: client_update_def Let_def)
  have a: "now - hs_received_ms (mon_snapshot (cc_monitor ?c)) < 300"
    if "hs_status (mon_snapshot (cc_monitor ?c)) = HbAlive"
  proof (cases "now < 0")
    case True
    have "monitor_inv (cc_monitor ?c)" using inv' by (rule client_inv_monitor)
    then have "0 \<le> hs_received_ms (mon_snapshot (cc_monitor ?c))"
      using that by (auto simp: monitor_inv_def)
    with True show ?thesis by simp
  next
    case False
    then have "cc_monitor ?c = monitor_update (cc_monitor c) now"
      by (simp add: client_update_def Let_def)
    then show ?thesis
      using that monitor_update_alive [of "cc_monitor c" now] by (simp only: monitor_update_received)
  qed
  have "shows_beat H T (client_get_state ?c now)" if "hs_status (mon_snapshot (cc_monitor ?c)) = HbAlive"
    using inv' a [OF that] that h assms(3) client_inv_monitor [OF inv']
    by (intro monitor_shows_beat [of "cc_monitor ?c"]) (simp_all add: client_get_state_def client_inv_def mirrors_def Let_def)
  then show ?thesis by (simp add: fresh_output_def client_get_state_def Let_def)
qed

text \<open>Every step keeps what the client heard and puts out fresh states only.\<close>

definition good_step :: "(heartbeat \<times> int) set \<Rightarrow> int set \<Rightarrow> vehicle_output list \<times> vehicle_loop \<Rightarrow> bool" where
  "good_step H T r \<longleftrightarrow> list_all (fresh_output H T) (fst r) \<and> client_heard H (snd r)"

lemma heartbeat_transition_good:
  "client_heard H l \<Longrightarrow> now \<in> T \<Longrightarrow> good_step H T (heartbeat_transition now w l)"
proof -
  assume l: "client_heard H l" and now: "now \<in> T"
  obtain b c where u: "client_update (vl_client l) now w = (b, c)" by fastforce
  have "cc_monitor c = cc_monitor (vl_client l) \<or> cc_monitor c = monitor_update (cc_monitor (vl_client l)) now"
    using u by (auto simp: client_update_def Let_def split: if_splits)
  then have "client_inv c \<and> heard H (cc_monitor c)"
    using l client_update_inv [OF _ u] by (auto simp: client_heard_def)
  then show ?thesis
    using l now u client_update_fresh [of "vl_client l" H now w c T]
    by (auto simp: heartbeat_transition_def good_step_def publish_chassis_fresh client_heard_def)
qed

lemma send_keeps_monitor:
  assumes "send_heartbeat now n l = (r, outs, l')"
  shows "cc_monitor (vl_client l') = cc_monitor (vl_client l)"
  using assms by (auto simp: send_heartbeat_def build_heartbeat_def Let_def split: if_splits option.splits prod.splits)

lemma send_heartbeat_good: "client_heard H l \<Longrightarrow> good_step H T (snd (send_heartbeat now n l))"
proof -
  assume l: "client_heard H l"
  obtain r outs l' where s: "send_heartbeat now n l = (r, outs, l')" by (metis prod_cases3)
  have "client_inv (vl_client l')" "list_all (fresh_output H T) outs"
    using l s by (auto simp: client_heard_def send_heartbeat_def Let_def intro: build_heartbeat_inv
        split: prod.splits option.splits if_splits)
  then show ?thesis
    using l send_keeps_monitor [OF s] by (simp add: s good_step_def client_heard_def)
qed

lemma client_heard_frame [simp]:
  "client_heard H (l\<lparr>vl_link := k\<rparr>) = client_heard H l" "client_heard H (l\<lparr>vl_error := e\<rparr>) = client_heard H l"
  "client_heard H (l\<lparr>vl_published := n\<rparr>) = client_heard H l" "client_heard H (l\<lparr>vl_idle_timeouts := n\<rparr>) = client_heard H l"
  "client_heard H (l\<lparr>vl_idle_elapsed_ms := n\<rparr>) = client_heard H l"
  by (simp_all add: client_heard_def)

lemma receive_timeout_good:
  "client_heard H l \<Longrightarrow> ri_later_ms i \<in> T \<Longrightarrow> good_step H T (snd (receive_timeout opts i l))"
  using heartbeat_transition_good [of H l "ri_later_ms i" T "ri_wall_ms i"]
  by (auto simp: receive_timeout_def good_step_def Let_def split: prod.splits)

lemma vehicle_frame_good: "client_heard H l \<Longrightarrow> good_step H T (vehicle_frame i f l)"
  by (simp add: vehicle_frame_def good_step_def invalid_frame_def decoded_frame_def publish_def Let_def
      split: vehicle_decode.splits)

lemma chassis_frame_good:
  assumes "client_heard H l" "ri_later_ms i \<in> T" "\<And>h. decode_heartbeat f = Some h \<Longrightarrow> (h, received) \<in> H"
  shows "good_step H T (chassis_frame i f received l)"
proof -
  obtain st c where p: "process_frame (vl_client l) f received (ri_wall_ms i) = (st, c)" by fastforce
  have c: "client_inv c" "heard H (cc_monitor c)"
    using assms(1,3) process_frame_inv [OF _ p] heard_process [OF _ p refl] by (auto simp: client_heard_def)
  have u: "client_inv (snd (client_update c now w))" for now w
    using client_update_inv [OF c(1) prod.collapse [symmetric]] .
  have u': "heard H (cc_monitor (snd (client_update c now w)))" for now w
    using c(2) by (simp add: client_update_def Let_def)
  show ?thesis
    using c u u' client_get_state_fresh [OF c assms(2)] vehicle_frame_good [of H "l\<lparr>vl_client := c\<rparr>" T]
    by (cases st) (simp_all add: chassis_frame_def p good_step_def invalid_frame_def decoded_frame_def
        publish_chassis_fresh client_heard_def Let_def)
qed

lemma receive_any_good:
  assumes "client_heard H l" "ri_later_ms i \<in> T" "beats opts [i] \<subseteq> H"
  shows "good_step H T (snd (receive_any opts i l))"
proof -
  let ?l = "l\<lparr>vl_error := []\<rparr>"
  have l: "client_heard H ?l" using assms(1) by simp
  obtain st osf where r: "socket_receive True (ri_event i) (poll_timeout opts) = (st, osf)" by fastforce
  show ?thesis
  proof (cases "st = IoOk \<and> osf \<noteq> None")
    case False
    then show ?thesis
      using l receive_timeout_good [OF l assms(2), of opts]
      by (cases st; cases osf) (auto simp: receive_any_def r receive_failed_def good_step_def Let_def)
  next
    case True
    then obtain sf where sf: "osf = Some sf" "st = IoOk" by blast
    let ?c = "count_frame sf ?l"
    have c: "client_heard H ?c" using l by (simp add: count_frame_def)
    have "good_step H T (receive_frame i sf ?l)"
    proof (cases "sf_error sf \<or> (\<exists>e. from_socket_can_frame sf = Inl e)")
      case True
      then show ?thesis
        using c by (auto simp: receive_frame_def error_frame_def invalid_frame_def good_step_def Let_def)
    next
      case False
      then obtain f where f: "from_socket_can_frame sf = Inr f" "\<not> sf_error sf"
        by (cases "from_socket_can_frame sf") auto
      have "(h, sf_received_steady_ns sf sdiv 1000000) \<in> H" if "decode_heartbeat f = Some h" for h
        using assms(3) that f r sf by (auto simp: beats_def round_frame_def)
      from chassis_frame_good [OF c assms(2) this] c f show ?thesis
        by (simp add: receive_frame_def Let_def good_step_def)
    qed
    then show ?thesis by (simp add: receive_any_def r sf split: prod.splits)
  qed
qed

lemma vehicle_round_good:
  assumes "client_heard H l" "ri_now_ms i \<in> T" "ri_later_ms i \<in> T" "beats opts [i] \<subseteq> H"
  shows "good_step H T (snd (vehicle_round opts i l))"
proof -
  obtain o1 l1 where h: "heartbeat_transition (ri_now_ms i) (ri_wall_ms i) l = (o1, l1)" by fastforce
  obtain r2 o2 l2 where s: "send_heartbeat (ri_now_ms i) (ri_written i) l1 = (r2, o2, l2)" by (metis prod_cases3)
  obtain r3 o3 l3 where a: "receive_any opts i l2 = (r3, o3, l3)" by (metis prod_cases3)
  have g1: "good_step H T (o1, l1)" using heartbeat_transition_good [OF assms(1,2)] by (metis h)
  then have g2: "good_step H T (o2, l2)" using send_heartbeat_good [of H l1 T] by (metis s snd_conv good_step_def)
  then have g3: "good_step H T (o3, l3)"
    using receive_any_good [of H l2, OF _ assms(3,4)] by (metis a snd_conv good_step_def)
  show ?thesis
    using assms(1) g1 g2 g3 by (auto simp: vehicle_round_def h s a good_step_def split: round_end.splits)
qed

lemma vehicle_rounds_heard:
  assumes "client_heard H l" "beats opts is \<subseteq> H"
  shows "client_heard H (snd (snd (vehicle_rounds opts is l)))"
  using assms
proof (induction "is" arbitrary: l)
  case (Cons i "is")
  obtain r o1 l1 where v: "vehicle_round opts i l = (r, o1, l1)" by (metis prod_cases3)
  have sub: "beats opts [i] \<subseteq> H" "beats opts is \<subseteq> H"
    using Cons.prems(2) by (auto simp: beats_def)
  have g: "client_heard H l1"
    using vehicle_round_good [OF Cons.prems(1) _ _ sub(1), of UNIV] by (simp add: v good_step_def)
  then show ?case using Cons.IH [OF g sub(2)] by (auto simp: v split: round_end.splits prod.splits)
qed simp

lemma client_heard_new: "client_heard H (vehicle_loop_new opts started wall)"
  by (simp add: client_heard_def vehicle_loop_new_def client_inv_new heard_def) (simp add: monitor0_def)

text \<open>
  C19: whatever happens on the bus and on the clocks, a chassis state that a round of the service publishes as
  alive shows a heartbeat that this round or an earlier one received as a frame: node state and uptime are
  those of the frame, and it arrived less than 300 ms before one of the two clock readings of the publishing
  round, of which the published age is the distance. A backlog never makes an old heartbeat look alive.
\<close>

theorem published_alive_is_fresh:
  assumes "vehicle_rounds opts pre (vehicle_loop_new opts started wall) = (None, outs, l)"
    and "vehicle_round opts i l = (r, outs', l')"
    and "OutChassis s \<in> set outs'" "cs_heartbeat_status s = HbAlive"
  shows "\<exists>j \<in> set (pre @ [i]). \<exists>f h t. round_frame opts j = Some (f, t) \<and> decode_heartbeat f = Some h \<and>
    cs_node_state s = hb_node_state h \<and> cs_uptime_ms s = hb_uptime_ms h \<and>
    (\<exists>now \<in> {ri_now_ms i, ri_later_ms i}. now - t < 300 \<and> cs_heartbeat_age_ms s = max 0 (now - t))"
proof -
  let ?H = "beats opts (pre @ [i])" and ?T = "{ri_now_ms i, ri_later_ms i}"
  have "client_heard ?H l"
    using vehicle_rounds_heard [OF client_heard_new [of ?H opts started wall], of opts pre]
      beats_mono [of pre "pre @ [i]" opts] by (auto simp: assms(1))
  then have "good_step ?H ?T (outs', l')"
    using vehicle_round_good [of ?H l i ?T opts] beats_mono [of "[i]" "pre @ [i]" opts] by (simp add: assms(2))
  then have "shows_beat ?H ?T s"
    using assms(3,4) by (auto simp: good_step_def list_all_iff fresh_output_def)
  then show ?thesis
    unfolding shows_beat_def beats_def by blast
qed

section \<open>A silent bus\<close>

definition quiet :: "int \<Rightarrow> round_input \<Rightarrow> bool" where
  "quiet started i \<longleftrightarrow> ri_continue i \<and> rx_poll (ri_event i) = 0 \<and> ri_written i = canfd_mtu \<and> started \<le> ri_now_ms i"

text \<open>The rounds it takes: one idle timeout is a whole number of polls.\<close>

definition polls_per_timeout :: "vehicle_options \<Rightarrow> nat" where
  "polls_per_timeout opts = nat ((vo_receive_timeout_ms opts + poll_timeout opts - 1) div poll_timeout opts)"

lemma own_frame_sends:
  assumes "encode_heartbeat h = Some f"
  shows "\<exists>s. to_socket_can_frame f = Some s \<and> socket_send True s canfd_mtu = (Some (native_of_frame s, canfd_mtu), None)"
proof -
  have f: "f = fd_frame heartbeat_id (put_u16 (heartbeat_head h) 10 (crc16 (ucast heartbeat_id) (Some (heartbeat_head h)) 10)) 12"
    using assms by (simp add: encode_heartbeat_eq split: if_splits)
  have v: "can_frame_valid f" "cf_fd f"
    by (simp_all add: f fd_frame_def can_frame_valid_def heartbeat_id_def max_data_length_def)
  obtain s where s: "to_socket_can_frame f = Some s" using to_socket_can_frame_Some [OF valid_frame_len [OF v(1)]] by blast
  have "sf_fd s" using s v(2) by (auto simp: to_socket_can_frame_def Let_def split: if_splits)
  then show ?thesis using s to_socket_valid_for_send [OF s] v(1) by (simp add: socket_send_def)
qed

lemma heartbeat_sent:
  assumes "cc_started_ms (vl_client l) \<le> now"
  shows "\<exists>outs c. send_heartbeat now canfd_mtu l = (ReGo, outs, l\<lparr>vl_client := c\<rparr>) \<and>
     cc_started_ms c = cc_started_ms (vl_client l)"
proof (cases "heartbeat_due (vl_client l) now")
  case True
  obtain f where f: "encode_heartbeat (own_heartbeat (vl_client l) now) = Some f" using own_heartbeat_encodes by blast
  obtain s where "to_socket_can_frame f = Some s" "socket_send True s canfd_mtu = (Some (native_of_frame s, canfd_mtu), None)"
    using own_frame_sends [OF f] by blast
  then show ?thesis
    using True assms f
    by (intro exI [of _ "[OutFrame (native_of_frame s) canfd_mtu]"] exI [of _ "(vl_client l)
        \<lparr>cc_heartbeat_sequence := cc_heartbeat_sequence (vl_client l) + 1, cc_heartbeat_due_ms := now + heartbeat_period_ms\<rparr>"])
      (simp add: send_heartbeat_def build_heartbeat_def)
next
  case False
  then show ?thesis by (intro exI [of _ "[]"] exI [of _ "vl_client l"]) (simp add: send_heartbeat_def)
qed

lemma client_update_started: "cc_started_ms (snd (client_update c now w)) = cc_started_ms c"
  by (simp add: client_update_def update_heartbeat_timeout_def refresh_heartbeat_def reset_fault_sequence_baseline_def Let_def)

lemma heartbeat_transition_shape:
  "\<exists>outs c. heartbeat_transition now w l = (outs, l\<lparr>vl_client := c\<rparr>) \<and> cc_started_ms c = cc_started_ms (vl_client l)"
  by (metis (mono_tags, lifting) heartbeat_transition_def client_update_started case_prod_beta)

lemma quiet_receive:
  assumes "quiet started i"
  shows "receive_any opts i l = receive_timeout opts i (l\<lparr>vl_error := []\<rparr>)"
  using assms by (simp add: receive_any_def socket_receive_def quiet_def poll_timeout_def)

text \<open>What one quiet round does to the counters.\<close>

definition idle_step :: "vehicle_options \<Rightarrow> int \<times> int \<Rightarrow> round_end \<times> int \<times> int" where
  "idle_step opts = (\<lambda>(elapsed, idle).
     if elapsed + poll_timeout opts < vo_receive_timeout_ms opts then (ReGo, elapsed + poll_timeout opts, idle)
     else (if \<not> vo_forever opts \<and> idle + 1 \<ge> vo_max_idle_timeouts opts then ReExit 3 else ReGo, 0, idle + 1))"

lemma quiet_round:
  assumes "quiet started i" "cc_started_ms (vl_client l) = started" "vo_forever opts \<or> vl_published l < vo_samples opts"
  shows "\<exists>outs l'. vehicle_round opts i l = (fst (idle_step opts (vl_idle_elapsed_ms l, vl_idle_timeouts l)), outs, l') \<and>
     (vl_idle_elapsed_ms l', vl_idle_timeouts l') = snd (idle_step opts (vl_idle_elapsed_ms l, vl_idle_timeouts l)) \<and>
     cc_started_ms (vl_client l') = started \<and> vl_published l' = vl_published l"
proof -
  have q: "round_guard opts (ri_continue i) l" "started \<le> ri_now_ms i" "ri_written i = canfd_mtu"
    using assms(1,3) by (simp_all add: quiet_def round_guard_def)
  obtain o1 c1 where h: "heartbeat_transition (ri_now_ms i) (ri_wall_ms i) l = (o1, l\<lparr>vl_client := c1\<rparr>)"
    "cc_started_ms c1 = started"
    using heartbeat_transition_shape [of "ri_now_ms i" "ri_wall_ms i" l] assms(2) by auto
  obtain o2 c2 where s: "send_heartbeat (ri_now_ms i) canfd_mtu (l\<lparr>vl_client := c1\<rparr>) = (ReGo, o2, l\<lparr>vl_client := c2\<rparr>)"
    "cc_started_ms c2 = started"
    using heartbeat_sent [of "l\<lparr>vl_client := c1\<rparr>" "ri_now_ms i"] h(2) q(2) by auto
  obtain o3 c3 where t: "heartbeat_transition (ri_later_ms i) (ri_wall_ms i) (l\<lparr>vl_client := c2, vl_error := []\<rparr>) =
 
      (o3, l\<lparr>vl_error := [], vl_client := c3\<rparr>)" "cc_started_ms c3 = started"
    using heartbeat_transition_shape [of "ri_later_ms i" "ri_wall_ms i" "l\<lparr>vl_client := c2, vl_error := []\<rparr>"] s(2) by auto
  show ?thesis
    using q(1) h s t quiet_receive [OF assms(1)]
    by (simp add: vehicle_round_def q(3) receive_timeout_def idle_step_def Let_def)
qed

text \<open>The counters alone, over a number of rounds.\<close>

fun idle_rounds :: "vehicle_options \<Rightarrow> nat \<Rightarrow> int \<times> int \<Rightarrow> round_end option" where
  "idle_rounds opts 0 s = None"
| "idle_rounds opts (Suc n) s = (case idle_step opts s of (ReGo, s') \<Rightarrow> idle_rounds opts n s' | (r, _) \<Rightarrow> Some r)"

lemma quiet_rounds:
  assumes "list_all (quiet started) is" "cc_started_ms (vl_client l) = started" "vo_forever opts \<or> vl_published l < vo_samples opts"
  shows "fst (vehicle_rounds opts is l) = idle_rounds opts (length is) (vl_idle_elapsed_ms l, vl_idle_timeouts l)"
  using assms
proof (induction "is" arbitrary: l)
  case (Cons i "is")
  let ?s = "idle_step opts (vl_idle_elapsed_ms l, vl_idle_timeouts l)"
  obtain outs l' where v: "vehicle_round opts i l = (fst ?s, outs, l')"
    "(vl_idle_elapsed_ms l', vl_idle_timeouts l') = snd ?s" "cc_started_ms (vl_client l') = started"
    "vl_published l' = vl_published l"
    using quiet_round [of started i l opts] Cons.prems by auto
  have ih: "fst (vehicle_rounds opts is l') = idle_rounds opts (length is) (snd ?s)"
    using Cons.IH [of l'] Cons.prems v by simp
  then show ?case by (simp add: v(1) split: prod.splits round_end.splits) (metis fst_conv snd_conv)
qed simp

lemma idle_rounds_exit:
  fixes e :: int and k :: nat
  assumes "\<not> vo_forever opts" "e + poll_timeout opts * int k \<ge> vo_receive_timeout_ms opts"
    and "e + poll_timeout opts * (int k - 1) < vo_receive_timeout_ms opts" "0 < k" "0 < polls_per_timeout opts"
    and "vo_receive_timeout_ms opts \<le> poll_timeout opts * int (polls_per_timeout opts)"
    and "poll_timeout opts * (int (polls_per_timeout opts) - 1) < vo_receive_timeout_ms opts"
    and "idle + 1 + int r = vo_max_idle_timeouts opts"
  shows "idle_rounds opts n (e, idle) = (if n < k + r * polls_per_timeout opts then None else Some (ReExit 3))"
  using assms(2-4,8)
proof (induction n arbitrary: e k idle r)
  case 0
  then show ?case by simp
next
  case (Suc n)
  let ?p = "poll_timeout opts"
  show ?case
  proof (cases "e + ?p < vo_receive_timeout_ms opts")
    case True
    have k: "k \<noteq> 1" using Suc.prems(1) True by auto
    obtain j where j: "k = Suc j" "0 < j" using k Suc.prems(3) by (cases k) auto
    have "idle_rounds opts n (e + ?p, idle) = (if n < j + r * polls_per_timeout opts then None else Some (ReExit 3))"
      using Suc.prems j by (intro Suc.IH) (simp_all add: algebra_simps)
    then show ?thesis using True j by (simp add: idle_step_def)
  next
    case False
    have k: "k = 1"
    proof (rule ccontr)
      assume "k \<noteq> 1"
      then have "1 \<le> int k - 1" using Suc.prems(3) by simp
      moreover have "0 < ?p" by (simp add: poll_timeout_def)
      ultimately have "?p \<le> ?p * (int k - 1)" by (simp add: mult_le_cancel_left1)
      then show False using Suc.prems(2) False by linarith
    qed
    show ?thesis
    proof (cases r)
      case 0
      then show ?thesis using False assms(1) Suc.prems(4) k by (simp add: idle_step_def)
    next
      case (Suc q)
      have "idle_rounds opts n (0, idle + 1) =
          (if n < polls_per_timeout opts + q * polls_per_timeout opts then None else Some (ReExit 3))"
        using assms(5-7) Suc.prems(4) Suc by (intro Suc.IH) simp_all
      then show ?thesis using False Suc.prems(4) Suc k by (simp add: idle_step_def)
    qed
  qed
qed

lemma polls_per_timeout_bounds:
  assumes "0 < vo_receive_timeout_ms opts"
  shows "0 < polls_per_timeout opts" "vo_receive_timeout_ms opts \<le> poll_timeout opts * int (polls_per_timeout opts)"
    "poll_timeout opts * (int (polls_per_timeout opts) - 1) < vo_receive_timeout_ms opts"
proof -
  let ?T = "vo_receive_timeout_ms opts" and ?p = "poll_timeout opts"
  have p: "0 < ?p" by (simp add: poll_timeout_def)
  have b: "T \<le> p * q \<and> p * (q - 1) < T \<and> 0 < q" if "q = (T + p - 1) div p" "0 < p" "0 < T" for T p q :: int
  proof -
    have d: "p * q + (T + p - 1) mod p = T + p - 1" unfolding that(1) by (rule mult_div_mod_eq)
    have m: "0 \<le> (T + p - 1) mod p" "(T + p - 1) mod p < p" using that(2) by simp_all
    have "0 < q" unfolding that(1) using that(2,3) by (simp add: pos_imp_zdiv_pos_iff)
    then show ?thesis using d m by (simp add: right_diff_distrib)
  qed
  have q: "int (polls_per_timeout opts) = (?T + ?p - 1) div ?p"
    using p assms by (simp add: polls_per_timeout_def pos_imp_zdiv_nonneg_iff)
  show "0 < polls_per_timeout opts" "?T \<le> ?p * int (polls_per_timeout opts)"
    "?p * (int (polls_per_timeout opts) - 1) < ?T"
    using b [OF q p assms] by simp_all
qed

text \<open>
  On a bus where nothing arrives, a run that is not to go on forever ends with status 3 after exactly the
  configured number of idle timeouts, each of them the receive timeout rounded up to whole polls; before that
  it is still running.
\<close>

theorem silent_bus_exits:
  assumes "\<not> vo_forever opts" "0 < vo_samples opts" "0 < vo_receive_timeout_ms opts" "0 < vo_max_idle_timeouts opts"
    and "list_all (quiet started) is"
  shows "fst (run_socket_can opts None started wall is) =
     (if length is < nat (vo_max_idle_timeouts opts) * polls_per_timeout opts then None else Some (ReExit 3))"
proof -
  note b = polls_per_timeout_bounds [OF assms(3)]
  let ?l = "vehicle_loop_new opts started wall"
  have new: "cc_started_ms (vl_client ?l) = started" "vl_published ?l = 0" "vl_idle_elapsed_ms ?l = 0" "vl_idle_timeouts ?l = 0"
    by (simp_all add: vehicle_loop_new_def chassis_client_new_def)
  define r where "r = nat (vo_max_idle_timeouts opts) - 1"
  have r: "0 + 1 + int r = vo_max_idle_timeouts opts" "nat (vo_max_idle_timeouts opts) = Suc r"
    using assms(4) by (simp_all add: r_def)
  have "fst (vehicle_rounds opts is ?l) = idle_rounds opts (length is) (0, 0)"
    using quiet_rounds [OF assms(5) new(1)] assms(2) new by simp
  also have "\<dots> = (if length is < polls_per_timeout opts + r * polls_per_timeout opts then None else Some (ReExit 3))"
    using b by (intro idle_rounds_exit assms(1) r) simp_all
  finally show ?thesis
    unfolding r(2) by (auto simp: run_socket_can_def Let_def split: prod.splits)
qed

definition sample_options :: vehicle_options where
  "sample_options = \<lparr> vo_source = ''socketcan'', vo_interface = ''can0'', vo_receive_timeout_ms = 120,
     vo_max_idle_timeouts = 2, vo_samples = 5, vo_forever = False \<rparr>"

definition sample_input :: "rx_event \<Rightarrow> round_input" where
  "sample_input ev = \<lparr> ri_continue = True, ri_now_ms = 20000, ri_written = canfd_mtu, ri_event = ev, ri_receive_error = [],
     ri_later_ms = 20010, ri_wall_ms = 1000000 \<rparr>"

definition quiet_event :: rx_event where
  "quiet_event = (sample_event (native_of_frame socket_can_frame0))\<lparr>rx_poll := 0\<rparr>"

theorem silent_bus_exits_witness:
  "fst (run_socket_can sample_options None 15000 7 (replicate 5 (sample_input quiet_event))) = None \<and>
   fst (run_socket_can sample_options None 15000 7 (replicate 6 (sample_input quiet_event))) = Some (ReExit 3)"
proof -
  have q: "quiet 15000 (sample_input quiet_event)" by (simp add: quiet_def sample_input_def quiet_event_def)
  then have l: "list_all (quiet 15000) (replicate n (sample_input quiet_event))" for n by (simp add: list_all_iff)
  have o: "\<not> vo_forever sample_options" "0 < vo_samples sample_options" "0 < vo_receive_timeout_ms sample_options"
    "0 < vo_max_idle_timeouts sample_options"
    by (simp_all add: sample_options_def)
  have p: "polls_per_timeout sample_options = 3" by (simp add: polls_per_timeout_def poll_timeout_def sample_options_def)
  show ?thesis
    using silent_bus_exits [OF o l [of 5], of 7] silent_bus_exits [OF o l [of 6], of 7] unfolding p
    by (simp add: sample_options_def)
qed

text \<open>A run that hears one heartbeat and publishes its sender as alive.\<close>

definition heartbeat_event :: rx_event where
  "heartbeat_event = sample_event (native_of_frame (the (to_socket_can_frame sample_heartbeat_frame)))"

lemma sample_heartbeat_frame_ok:
  "can_frame_valid sample_heartbeat_frame" "zero_padded sample_heartbeat_frame" "cf_fd sample_heartbeat_frame"
  "\<not> cf_remote sample_heartbeat_frame"
  by (simp_all add: sample_heartbeat_frame_def sample_heartbeat_def encode_heartbeat_eq fd_frame_def can_frame_valid_def
      heartbeat_id_def max_data_length_def zero_padded_def heartbeat_head_def put_u16_def put_u32_def)

lemma heartbeat_event_received:
  "\<exists>r. socket_receive True heartbeat_event 50 = (IoOk, Some r) \<and> from_socket_can_frame r = Inr sample_heartbeat_frame \<and>
     sf_received_steady_ns r = 19999999100"
proof -
  obtain s where s: "to_socket_can_frame sample_heartbeat_frame = Some s"
    using to_socket_can_frame_Some [OF valid_frame_len [OF sample_heartbeat_frame_ok(1)]] by blast
  have "\<exists>r. socket_receive True heartbeat_event 50 = (IoOk, Some r) \<and> sf_received_steady_ns r = 19999999100"
    by (simp add: heartbeat_event_def socket_receive_def sample_event_def canfd_mtu_def can_mtu_def timespec_nanoseconds_def
        map_kernel_realtime_to_steady_def frame_of_native_def Let_def)
  then obtain r where r: "socket_receive True heartbeat_event 50 = (IoOk, Some r)" "sf_received_steady_ns r = 19999999100"
    by blast
  have "delivers heartbeat_event (native_of_frame s) canfd_mtu" by (simp add: heartbeat_event_def delivers_def sample_event_def s)
  from receive_deterministic_frame [OF sample_heartbeat_frame_ok(1) sample_heartbeat_decodes(2) sample_heartbeat_frame_ok(2)
      s sample_heartbeat_frame_ok(3) this r(1)] r
  show ?thesis by blast
qed

lemma good_frame_no_error: "from_socket_can_frame r = Inr f \<Longrightarrow> \<not> sf_error r"
  by (auto simp: from_socket_can_frame_def Let_def split: if_splits)

lemma client_update_monitor:
  "0 \<le> now \<Longrightarrow> cc_monitor (snd (client_update c now w)) = monitor_update (cc_monitor c) now"
  by (simp add: client_update_def Let_def)

text \<open>A heartbeat taken from the bus is published, with the monitor's view of it.\<close>

lemma heartbeat_heard:
  assumes "monitor_process (monitor_update (cc_monitor (vl_client l)) received) f received = (True, m)"
    and "0 \<le> ri_later_ms i" "ri_later_ms i - received < 300"
  shows "\<exists>s. OutChassis s \<in> set (fst (chassis_frame i f received l)) \<and> cs_heartbeat_status s = HbAlive"
proof -
  obtain c where c: "process_frame (vl_client l) f received (ri_wall_ms i) = (DsUpdated, c)" "cc_monitor c = m"
    using process_frame_heartbeat(1,2) [OF assms(1)] by (metis prod.collapse)
  have a: "hs_status (mon_snapshot (monitor_update m (ri_later_ms i))) = HbAlive"
    using monitor_process_accepted(2,3) [OF assms(1)] assms(3) by (simp add: monitor_update_def heartbeat_timeout_ms_def)
  show ?thesis
    using assms(2) a by (auto simp: chassis_frame_def c Let_def decoded_frame_def publish_chassis_def
        client_get_state_def client_update_monitor)
qed

lemma monitor0_hears_sample: "0 \<le> t \<Longrightarrow> \<exists>m. monitor_process monitor0 sample_heartbeat_frame t = (True, m)"
  by (simp add: monitor_process_def sample_heartbeat_decodes monitor0_def Let_def)

theorem published_alive_is_fresh_witness:
  "\<exists>s f h t. OutChassis s \<in> set (fst (snd (vehicle_round sample_options (sample_input heartbeat_event)
       (vehicle_loop_new sample_options 15000 7)))) \<and>
     cs_heartbeat_status s = HbAlive \<and> round_frame sample_options (sample_input heartbeat_event) = Some (f, t) \<and>
     decode_heartbeat f = Some h \<and> cs_uptime_ms s = hb_uptime_ms h \<and>
     (\<exists>now \<in> {20000, 20010}. now - t < 300 \<and> cs_heartbeat_age_ms s = max 0 (now - t))"
proof -
  let ?l = "vehicle_loop_new sample_options 15000 7" and ?i = "sample_input heartbeat_event"
  have i: "ri_now_ms ?i = 20000" "ri_wall_ms ?i = 1000000" "ri_written ?i = canfd_mtu" "ri_event ?i = heartbeat_event"
    "ri_later_ms ?i = 20010" "ri_continue ?i"
    by (simp_all add: sample_input_def)
  have new: "cc_monitor (vl_client ?l) = monitor0" "cc_started_ms (vl_client ?l) = 15000"
    by (simp_all add: vehicle_loop_new_def) (simp add: chassis_client_new_def)
  obtain o1 l1 where h: "heartbeat_transition 20000 1000000 ?l = (o1, l1)" "cc_monitor (vl_client l1) = monitor0"
    "cc_started_ms (vl_client l1) = 15000"
    using new client_update_started [of "vl_client ?l" 20000 1000000] client_update_monitor [of 20000 "vl_client ?l" 1000000]
    by (cases "client_update (vl_client ?l) 20000 1000000") (simp add: heartbeat_transition_def)
  obtain o2 l2 where s: "send_heartbeat 20000 canfd_mtu l1 = (ReGo, o2, l2)"
    using heartbeat_sent [of l1 20000] h(3) by auto
  define l3 where "l3 = l2\<lparr>vl_error := []\<rparr>"
  have m3: "cc_monitor (vl_client (count_frame r l3)) = monitor0" for r
    using send_keeps_monitor [OF s] h(2) by (simp add: count_frame_def l3_def)
  obtain r where r: "socket_receive True heartbeat_event 50 = (IoOk, Some r)"
    "from_socket_can_frame r = Inr sample_heartbeat_frame" "sf_received_steady_ns r = 19999999100"
    using heartbeat_event_received by blast
  obtain m where m: "monitor_process monitor0 sample_heartbeat_frame 19999 = (True, m)"
    using monitor0_hears_sample [of 19999] by auto
  obtain st where st: "OutChassis st \<in> set (fst (chassis_frame ?i sample_heartbeat_frame 19999 (count_frame r l3)))"
    "cs_heartbeat_status st = HbAlive"
    using heartbeat_heard [of "count_frame r l3" 19999 sample_heartbeat_frame m ?i] m m3 i(5) by auto
  have "fst (snd (receive_any sample_options ?i l2)) = fst (chassis_frame ?i sample_heartbeat_frame 19999 (count_frame r l3))"
    using r good_frame_no_error [OF r(2)]
    by (simp add: receive_any_def poll_timeout_def sample_options_def i receive_frame_def stale_safety_frame_def
        heartbeat_timeout_ms_def Let_def l3_def split: prod.splits)
  then obtain o3 l4 where a: "receive_any sample_options ?i l2 = (ReGo, o3, l4)" "OutChassis st \<in> set o3"
    using st(1) r by (cases "receive_any sample_options ?i l2")
      (auto simp: receive_any_def poll_timeout_def sample_options_def i split: prod.splits)
  have "round_guard sample_options True ?l" by (simp add: round_guard_def sample_options_def vehicle_loop_new_def)
  then have o: "OutChassis st \<in> set (fst (snd (vehicle_round sample_options ?i ?l)))"
    using a by (simp add: vehicle_round_def i h(1) s Let_def)
  obtain q outs l' where v: "vehicle_round sample_options ?i ?l = (q, outs, l')" by (metis prod_cases3)
  from published_alive_is_fresh [where pre = "[]" and opts = sample_options, OF vehicle_rounds.simps(1) v _ st(2)] o v st(2)
  show ?thesis by (auto simp: i)
qed

end
