(* ===== verification/Media_Player.thy ===== *)
theory Media_Player
  imports Prelude
begin

text \<open>
  \<open>MediaPlayer\<close> of \<open>cockpit/hmi/media/media_player.h\<close> and its players: the disabled and the mock one of
  \<open>media_player.cc\<close> and the GStreamer one of \<open>gstreamer_media_player.cc\<close>, whose GStreamer element is a parameter.
  A player is a state with the operations of the class; an operation returns its error text, or \<open>Inr ()\<close> when it
  returns true, and the state. What every player promises is the locale \<open>media_player\<close>.
\<close>

section \<open>Tracks and status\<close>

datatype media_state = MpUnavailable | MpStopped | MpPlaying | MpPaused | MpFaulted

record media_track =
  mt_id :: string
  mt_title :: string
  mt_artist :: string
  mt_duration_ms :: u64

record media_status =
  mst_state :: media_state
  mst_current_track_id :: string
  mst_title :: string
  mst_artist :: string
  mst_duration_ms :: u64
  mst_position_ms :: u64
  mst_last_error :: string

definition media_status_new :: media_status where
  "media_status_new = \<lparr> mst_state = MpUnavailable, mst_current_track_id = [], mst_title = [], mst_artist = [],
     mst_duration_ms = 0, mst_position_ms = 0, mst_last_error = [] \<rparr>"

type_synonym 's media_op = "'s \<Rightarrow> (string + unit) \<times> 's"

record 's media_ops =
  mo_list_tracks :: "'s \<Rightarrow> media_track list"
  mo_status :: "'s \<Rightarrow> media_status \<times> 's"
  mo_play :: "string \<Rightarrow> 's media_op"
  mo_pause :: "'s media_op"
  mo_resume :: "'s media_op"
  mo_stop :: "'s media_op"
  mo_next :: "'s media_op"

text \<open>\<open>ApplyTrack\<close>, the same in both players.\<close>

definition apply_track :: "media_track \<Rightarrow> media_status \<Rightarrow> media_status" where
  "apply_track t s = s\<lparr>mst_current_track_id := mt_id t, mst_title := mt_title t, mst_artist := mt_artist t,
     mst_duration_ms := mt_duration_ms t\<rparr>"

section \<open>The disabled player\<close>

definition reject :: "'s media_op" where
  "reject s = (Inl ''media backend is disabled'', s)"

definition disabled_media_status :: media_status where
  "disabled_media_status = media_status_new\<lparr>mst_last_error := ''media backend is disabled''\<rparr>"

definition disabled_player :: "unit media_ops" where
  "disabled_player = \<lparr> mo_list_tracks = (\<lambda>s. []), mo_status = (\<lambda>s. (disabled_media_status, s)), mo_play = (\<lambda>i. reject),
     mo_pause = reject, mo_resume = reject, mo_stop = reject, mo_next = reject \<rparr>"

section \<open>The mock player\<close>

record mock_player =
  mk_current_index :: nat
  mk_status :: media_status

definition mock_tracks :: "media_track list" where
  "mock_tracks =
     [\<lparr> mt_id = ''mock_track_one'', mt_title = ''Mock Track One'', mt_artist = ''Cockpit Fixture'', mt_duration_ms = 180000 \<rparr>,
      \<lparr> mt_id = ''mock_track_two'', mt_title = ''Mock Track Two'', mt_artist = ''Cockpit Fixture'', mt_duration_ms = 210000 \<rparr>]"

definition mock_player_new :: mock_player where
  "mock_player_new = \<lparr> mk_current_index = 0, mk_status = media_status_new\<lparr>mst_state := MpStopped\<rparr> \<rparr>"

text \<open>\<open>std::find_if\<close> with the index it stops at.\<close>

fun find_index :: "('a \<Rightarrow> bool) \<Rightarrow> 'a list \<Rightarrow> nat option" where
  "find_index p [] = None"
| "find_index p (x # xs) = (if p x then Some 0 else map_option Suc (find_index p xs))"

lemma find_index_Some: "find_index p xs = Some i \<Longrightarrow> i < length xs \<and> p (xs ! i)"
  by (induction xs arbitrary: i) (auto split: if_splits)

lemma find_index_first: "find_index p xs = Some i \<Longrightarrow> j < i \<Longrightarrow> \<not> p (xs ! j)"
proof (induction xs arbitrary: i j)
  case (Cons x xs)
  then show ?case by (cases j) (auto split: if_splits)
qed simp

lemma find_index_None: "find_index p xs = None \<longleftrightarrow> list_all (\<lambda>x. \<not> p x) xs"
  by (induction xs) auto

definition mock_play :: "string \<Rightarrow> mock_player media_op" where
  "mock_play track_id p =
     (let resolved = (if track_id = ''default_track'' then mt_id (hd mock_tracks) else track_id) in
      case find_index (\<lambda>t. mt_id t = resolved) mock_tracks of
        None \<Rightarrow> (Inl ''media track id is not allowlisted'', p)
      | Some i \<Rightarrow>
          (Inr (), p\<lparr>mk_current_index := i, mk_status := apply_track (mock_tracks ! i)
             ((mk_status p)\<lparr>mst_state := MpPlaying, mst_position_ms := 0, mst_last_error := []\<rparr>)\<rparr>))"

definition mock_pause :: "mock_player media_op" where
  "mock_pause p =
     (if mst_state (mk_status p) \<noteq> MpPlaying then (Inl ''media is not playing'', p)
      else (Inr (), p\<lparr>mk_status := (mk_status p)\<lparr>mst_state := MpPaused\<rparr>\<rparr>))"

definition mock_resume :: "mock_player media_op" where
  "mock_resume p =
     (if mst_state (mk_status p) \<noteq> MpPaused then (Inl ''media is not paused'', p)
      else (Inr (), p\<lparr>mk_status := (mk_status p)\<lparr>mst_state := MpPlaying\<rparr>\<rparr>))"

definition mock_stop :: "mock_player media_op" where
  "mock_stop p = (Inr (), p\<lparr>mk_status := (mk_status p)\<lparr>mst_state := MpStopped, mst_position_ms := 0\<rparr>\<rparr>)"

definition mock_next :: "mock_player media_op" where
  "mock_next p =
     (if mst_state (mk_status p) \<noteq> MpPlaying \<and> mst_state (mk_status p) \<noteq> MpPaused then
        (Inl ''media must be playing or paused to select next track'', p)
      else
        (let i = (mk_current_index p + 1) mod length mock_tracks in
         (Inr (), p\<lparr>mk_current_index := i,
            mk_status := (apply_track (mock_tracks ! i) ((mk_status p)\<lparr>mst_position_ms := 0\<rparr>))\<lparr>mst_state := mst_state (mk_status p)\<rparr>\<rparr>)))"

definition mock_media :: "mock_player media_ops" where
  "mock_media = \<lparr> mo_list_tracks = (\<lambda>p. mock_tracks), mo_status = (\<lambda>p. (mk_status p, p)), mo_play = mock_play,
     mo_pause = mock_pause, mo_resume = mock_resume, mo_stop = mock_stop, mo_next = mock_next \<rparr>"

section \<open>What a player promises\<close>

text \<open>
  \<open>st\<close> is the state a player is in. What it reports is that state, after the end of a track or a fault it may notice
  then; an operation that succeeds leaves the state it names, and one that fails leaves the state or a fault.
\<close>

locale media_player =
  fixes ops :: "'s media_ops" and st :: "'s \<Rightarrow> media_state"
  assumes status_reports: "mo_status ops p = (r, p') \<Longrightarrow> mst_state r = st p' \<and> (st p' = st p \<or> st p' = MpStopped \<or> st p' = MpFaulted)"
    and play_plays: "mo_play ops i p = (Inr u, p') \<Longrightarrow> st p' = MpPlaying"
    and play_refused: "mo_play ops i p = (Inl e, p') \<Longrightarrow> st p' = st p \<or> st p' = MpFaulted"
    and pause_pauses: "mo_pause ops p = (Inr u, p') \<Longrightarrow> st p = MpPlaying \<and> st p' = MpPaused"
    and pause_refused: "mo_pause ops p = (Inl e, p') \<Longrightarrow> st p' = st p"
    and resume_plays: "mo_resume ops p = (Inr u, p') \<Longrightarrow> st p = MpPaused \<and> st p' = MpPlaying"
    and resume_refused: "mo_resume ops p = (Inl e, p') \<Longrightarrow> st p' = st p \<or> st p' = MpFaulted"
    and stop_stops: "mo_stop ops p = (Inr u, p') \<Longrightarrow> st p' = MpStopped"
    and stop_refused: "mo_stop ops p = (Inl e, p') \<Longrightarrow> st p' = st p"
    and next_keeps: "mo_next ops p = (Inr u, p') \<Longrightarrow> st p' = st p \<and> (st p = MpPlaying \<or> st p = MpPaused)"
    and next_refused: "mo_next ops p = (Inl e, p') \<Longrightarrow> st p' = st p \<or> st p' = MpFaulted"

interpretation disabled: media_player disabled_player "\<lambda>_. MpUnavailable"
  by unfold_locales (auto simp: disabled_player_def reject_def disabled_media_status_def media_status_new_def)

lemma apply_track_frame [simp]:
  "mst_state (apply_track t s) = mst_state s" "mst_position_ms (apply_track t s) = mst_position_ms s"
  "mst_last_error (apply_track t s) = mst_last_error s"
  by (simp_all add: apply_track_def)

lemmas mock_defs [step_defs] = mock_play_def mock_pause_def mock_resume_def mock_stop_def mock_next_def

interpretation mock: media_player mock_media "\<lambda>p. mst_state (mk_status p)"
  by unfold_locales (auto simp: mock_media_def mock_defs Let_def split: if_splits option.splits)

section \<open>The GStreamer player\<close>

text \<open>
  The \<open>playbin3\<close> element, as the code calls it: changing its state, waiting for that, asking for the position
  (\<open>None\<close> when the query fails), seeking, its URI property, and the messages \<open>DrainBusLocked\<close> pops, in order.
\<close>

datatype gst_state = GsNull | GsPlaying
datatype gst_change = GcFailure | GcAsync | GcSuccess
datatype gst_message = GmEos | GmError "string option"

record 'g gst_api =
  gst_uri :: "string \<Rightarrow> string option"
  gst_set_state :: "gst_state \<Rightarrow> 'g \<Rightarrow> gst_change \<times> 'g"
  gst_get_state :: "'g \<Rightarrow> (gst_change \<times> gst_state) \<times> 'g"
  gst_position :: "'g \<Rightarrow> int option"
  gst_seek :: "int \<Rightarrow> 'g \<Rightarrow> bool \<times> 'g"
  gst_set_uri :: "string \<Rightarrow> 'g \<Rightarrow> 'g"
  gst_messages :: "'g \<Rightarrow> gst_message list \<times> 'g"

record manifest_track =
  mf_metadata :: media_track
  mf_file :: string
  mf_sha256 :: string

record 'g gst_player =
  gp_tracks :: "manifest_track list"
  gp_pipeline :: "'g option"
  gp_backend_ready :: bool
  gp_current_index :: nat
  gp_paused_position_ms :: u64
  gp_status :: media_status

text \<open>The constructor: \<open>pipeline\<close> is null when the factory fails, \<open>sink_made\<close> says whether it made the sink.\<close>

definition gst_player_new :: "manifest_track list \<Rightarrow> 'g option \<Rightarrow> bool \<Rightarrow> 'g gst_player" where
  "gst_player_new tracks pipeline sink_made =
     (let ready = (pipeline \<noteq> None \<and> sink_made) in
      \<lparr> gp_tracks = tracks, gp_pipeline = pipeline, gp_backend_ready = ready, gp_current_index = 0, gp_paused_position_ms = 0,
        gp_status = (if ready then media_status_new\<lparr>mst_state := MpStopped\<rparr>
          else media_status_new\<lparr>mst_state := MpFaulted, mst_last_error := ''GStreamer playbin3 or configured sink is unavailable''\<rparr>) \<rparr>)"

definition set_state_and_wait :: "'g gst_api \<Rightarrow> gst_state \<Rightarrow> 'g \<Rightarrow> bool \<times> 'g" where
  "set_state_and_wait api target g =
     (case gst_set_state api target g of (result, g1) \<Rightarrow>
        case result of
          GcFailure \<Rightarrow> (False, g1)
        | GcAsync \<Rightarrow>
            (case gst_get_state api g1 of ((wait_result, current), g2) \<Rightarrow> (wait_result \<noteq> GcFailure \<and> current = target, g2))
        | GcSuccess \<Rightarrow> (True, g1))"

text \<open>The same through the pointer; on a null element GStreamer's calls fail.\<close>

definition gp_set_state :: "'g gst_api \<Rightarrow> gst_state \<Rightarrow> 'g gst_player \<Rightarrow> bool \<times> 'g gst_player" where
  "gp_set_state api target p =
     (case gp_pipeline p of
        None \<Rightarrow> (False, p)
      | Some g \<Rightarrow> (case set_state_and_wait api target g of (ok, g') \<Rightarrow> (ok, p\<lparr>gp_pipeline := Some g'\<rparr>)))"

definition gp_position_ms :: "'g gst_api \<Rightarrow> 'g gst_player \<Rightarrow> u64 option" where
  "gp_position_ms api p =
     (case Option.bind (gp_pipeline p) (gst_position api) of
        None \<Rightarrow> None
      | Some position \<Rightarrow> if position \<ge> 0 then Some (word_of_int (position div 1000000)) else None)"

definition gp_find :: "string \<Rightarrow> manifest_track list \<Rightarrow> nat option" where
  "gp_find ident tracks = find_index (\<lambda>t. mt_id (mf_metadata t) = ident) tracks"

definition gp_fault :: "string \<Rightarrow> 'g gst_player \<Rightarrow> 'g gst_player" where
  "gp_fault message p = p\<lparr>gp_status := (gp_status p)\<lparr>mst_state := MpFaulted, mst_last_error := message\<rparr>\<rparr>"

definition play_unlocked :: "'g gst_api \<Rightarrow> string \<Rightarrow> media_state \<Rightarrow> 'g gst_player media_op" where
  "play_unlocked api ident requested p =
     (case gp_find ident (gp_tracks p) of
        None \<Rightarrow> (Inl ''media track id is not allowlisted'', p)
      | Some i \<Rightarrow>
          (case gst_uri api (mf_file (gp_tracks p ! i)) of
             None \<Rightarrow> (Inl ''failed to convert media file to URI'', p)
           | Some uri \<Rightarrow>
               (case gp_set_state api GsNull p of
                  (False, p1) \<Rightarrow> (Inl ''GStreamer failed to reset media playback'', p1)
                | (True, p1) \<Rightarrow>
                    (case gp_set_state api (if requested = MpPaused then GsNull else GsPlaying)
                        (p1\<lparr>gp_pipeline := map_option (gst_set_uri api uri) (gp_pipeline p1)\<rparr>) of
                       (False, p2) \<Rightarrow>
                         (Inl ''GStreamer failed to start media playback'', gp_fault ''GStreamer failed to start media playback'' p2)
                     | (True, p2) \<Rightarrow>
                         (Inr (), p2\<lparr>gp_current_index := i, gp_paused_position_ms := 0,
                            gp_status := apply_track (mf_metadata (gp_tracks p ! i))
                              ((gp_status p2)\<lparr>mst_state := requested, mst_position_ms := 0, mst_last_error := []\<rparr>)\<rparr>)))))"

definition gst_play :: "'g gst_api \<Rightarrow> string \<Rightarrow> 'g gst_player media_op" where
  "gst_play api track_id p =
     (if \<not> gp_backend_ready p \<or> gp_pipeline p = None then (Inl ''GStreamer media backend is unavailable'', p)
      else
        (let resolved = (if track_id = ''default_track'' \<and> gp_tracks p \<noteq> [] then mt_id (mf_metadata (hd (gp_tracks p))) else track_id) in
         case gp_find resolved (gp_tracks p) of
           None \<Rightarrow> (Inl ''media track id is not allowlisted'', p)
         | Some i \<Rightarrow> play_unlocked api (mt_id (mf_metadata (gp_tracks p ! i))) MpPlaying p))"

definition gst_pause :: "'g gst_api \<Rightarrow> 'g gst_player media_op" where
  "gst_pause api p =
     (if mst_state (gp_status p) \<noteq> MpPlaying then (Inl ''media is not playing'', p)
      else
        (let position = (case gp_position_ms api p of Some ms \<Rightarrow> ms | None \<Rightarrow> mst_position_ms (gp_status p)) in
         case gp_set_state api GsNull (p\<lparr>gp_paused_position_ms := position\<rparr>) of
           (False, p1) \<Rightarrow> (Inl ''GStreamer failed to pause media playback'', p1)
         | (True, p1) \<Rightarrow> (Inr (), p1\<lparr>gp_status := (gp_status p1)\<lparr>mst_state := MpPaused, mst_position_ms := position\<rparr>\<rparr>)))"

definition gp_seek :: "'g gst_api \<Rightarrow> u64 \<Rightarrow> 'g gst_player \<Rightarrow> bool \<times> 'g gst_player" where
  "gp_seek api ms p =
     (case gp_pipeline p of
        None \<Rightarrow> (False, p)
      | Some g \<Rightarrow> (case gst_seek api (sint ms * 1000000) g of (ok, g') \<Rightarrow> (ok, p\<lparr>gp_pipeline := Some g'\<rparr>)))"

definition gst_resume :: "'g gst_api \<Rightarrow> 'g gst_player media_op" where
  "gst_resume api p =
     (if mst_state (gp_status p) \<noteq> MpPaused then (Inl ''media is not paused'', p)
      else
        (let position = gp_paused_position_ms p in
         case play_unlocked api (mt_id (mf_metadata (gp_tracks p ! gp_current_index p))) MpPlaying p of
           (Inl e, p1) \<Rightarrow> (Inl e, p1)
         | (Inr _, p1) \<Rightarrow>
             (case (if position > 0 then gp_seek api position p1 else (True, p1)) of
                (False, p2) \<Rightarrow>
                  (Inl ''GStreamer failed to seek while resuming media playback'',
                   snd (gp_set_state api GsNull (gp_fault ''GStreamer failed to seek while resuming media playback'' p2)))
              | (True, p2) \<Rightarrow>
                  (Inr (), p2\<lparr>gp_paused_position_ms := 0,
                     gp_status := (gp_status p2)\<lparr>mst_state := MpPlaying, mst_position_ms := position\<rparr>\<rparr>))))"

definition gst_stop :: "'g gst_api \<Rightarrow> 'g gst_player media_op" where
  "gst_stop api p =
     (case (if gp_pipeline p = None then (True, p) else gp_set_state api GsNull p) of
        (False, p1) \<Rightarrow> (Inl ''GStreamer failed to stop media playback'', p1)
      | (True, p1) \<Rightarrow>
          (Inr (), p1\<lparr>gp_paused_position_ms := 0,
             gp_status := (gp_status p1)\<lparr>mst_state := MpStopped, mst_position_ms := 0, mst_last_error := []\<rparr>\<rparr>))"

definition gst_next :: "'g gst_api \<Rightarrow> 'g gst_player media_op" where
  "gst_next api p =
     (if mst_state (gp_status p) \<noteq> MpPlaying \<and> mst_state (gp_status p) \<noteq> MpPaused then
        (Inl ''media must be playing or paused to select next track'', p)
      else if gp_tracks p = [] then (Inl ''media manifest has no tracks'', p)
      else
        (let i = (gp_current_index p + 1) mod length (gp_tracks p) in
         play_unlocked api (mt_id (mf_metadata (gp_tracks p ! i))) (mst_state (gp_status p)) (p\<lparr>gp_current_index := i\<rparr>)))"

definition drain_message :: "'g gst_api \<Rightarrow> gst_message \<Rightarrow> 'g gst_player \<Rightarrow> 'g gst_player" where
  "drain_message api msg p =
     snd (gp_set_state api GsNull
       (case msg of
          GmEos \<Rightarrow> p\<lparr>gp_paused_position_ms := 0, gp_status := (gp_status p)\<lparr>mst_state := MpStopped,
                     mst_position_ms := mst_duration_ms (gp_status p), mst_last_error := []\<rparr>\<rparr>
        | GmError m \<Rightarrow> gp_fault (case m of None \<Rightarrow> ''GStreamer media playback failed'' | Some e \<Rightarrow> e) p))"

definition drain_bus :: "'g gst_api \<Rightarrow> 'g gst_player \<Rightarrow> 'g gst_player" where
  "drain_bus api p =
     (case gp_pipeline p of
        None \<Rightarrow> p
      | Some g \<Rightarrow> (case gst_messages api g of (msgs, g') \<Rightarrow> fold (drain_message api) msgs (p\<lparr>gp_pipeline := Some g'\<rparr>)))"

definition gst_status :: "'g gst_api \<Rightarrow> 'g gst_player \<Rightarrow> media_status \<times> 'g gst_player" where
  "gst_status api p0 =
     (let p = drain_bus api p0; s = gp_status p in
      (case gp_position_ms api p of
         Some ms \<Rightarrow> if mst_state s = MpPlaying \<or> mst_state s = MpPaused then s\<lparr>mst_position_ms := ms\<rparr> else s
       | None \<Rightarrow> s, p))"

definition gst_media :: "'g gst_api \<Rightarrow> 'g gst_player media_ops" where
  "gst_media api = \<lparr> mo_list_tracks = (\<lambda>p. map mf_metadata (gp_tracks p)), mo_status = gst_status api, mo_play = gst_play api,
     mo_pause = gst_pause api, mo_resume = gst_resume api, mo_stop = gst_stop api, mo_next = gst_next api \<rparr>"

lemmas gst_defs [step_defs] = gst_play_def gst_pause_def gst_resume_def gst_stop_def gst_next_def gst_status_def

lemma gp_set_state_frame:
  assumes "gp_set_state api target p = (ok, p')"
  shows "gp_status p' = gp_status p" "gp_tracks p' = gp_tracks p" "gp_current_index p' = gp_current_index p"
    "gp_paused_position_ms p' = gp_paused_position_ms p" "gp_backend_ready p' = gp_backend_ready p"
  using assms by (auto simp: gp_set_state_def split: option.splits prod.splits)

lemma gp_seek_frame:
  assumes "gp_seek api ms p = (ok, p')"
  shows "gp_status p' = gp_status p" "gp_tracks p' = gp_tracks p" "gp_current_index p' = gp_current_index p"
    "gp_paused_position_ms p' = gp_paused_position_ms p"
  using assms by (auto simp: gp_seek_def split: option.splits prod.splits)

lemma snd_gp_set_state [simp]: "gp_status (snd (gp_set_state api target p)) = gp_status p"
  using gp_set_state_frame(1) [of api target p] by (metis prod.collapse)

lemma gp_fault_state [simp]: "mst_state (gp_status (gp_fault m p)) = MpFaulted" "gp_tracks (gp_fault m p) = gp_tracks p"
  by (simp_all add: gp_fault_def)

lemma play_unlocked_state:
  "play_unlocked api i q p = (Inr u, p') \<Longrightarrow> mst_state (gp_status p') = q"
  "play_unlocked api i q p = (Inl e, p') \<Longrightarrow> mst_state (gp_status p') = mst_state (gp_status p) \<or> mst_state (gp_status p') = MpFaulted"
  by (auto simp: play_unlocked_def gp_set_state_frame split: option.splits prod.splits bool.splits)

lemma drain_messages_state:
  "mst_state (gp_status (fold (drain_message api) msgs p)) = mst_state (gp_status p) \<or>
   mst_state (gp_status (fold (drain_message api) msgs p)) = MpStopped \<or>
   mst_state (gp_status (fold (drain_message api) msgs p)) = MpFaulted"
proof (induction msgs arbitrary: p)
  case (Cons x msgs)
  have "mst_state (gp_status (drain_message api x p)) = MpStopped \<or> mst_state (gp_status (drain_message api x p)) = MpFaulted"
    by (cases x) (simp_all add: drain_message_def)
  then show ?case using Cons.IH [of "drain_message api x p"] by auto
qed simp

lemma drain_bus_state:
  "mst_state (gp_status (drain_bus api p)) = mst_state (gp_status p) \<or>
   mst_state (gp_status (drain_bus api p)) = MpStopped \<or> mst_state (gp_status (drain_bus api p)) = MpFaulted"
proof (cases "gp_pipeline p")
  case (Some g)
  obtain msgs g' where "gst_messages api g = (msgs, g')" by fastforce
  then show ?thesis using drain_messages_state [of api msgs "p\<lparr>gp_pipeline := Some g'\<rparr>"] Some by (simp add: drain_bus_def)
qed (simp add: drain_bus_def)

lemma gst_status_reports:
  "gst_status api p = (r, p') \<Longrightarrow> mst_state r = mst_state (gp_status p') \<and> p' = drain_bus api p"
  by (auto simp: gst_status_def Let_def split: option.splits)

lemma gst_pause_state:
  "gst_pause api p = (Inr u, p') \<Longrightarrow> mst_state (gp_status p) = MpPlaying \<and> mst_state (gp_status p') = MpPaused"
  "gst_pause api p = (Inl e, p') \<Longrightarrow> mst_state (gp_status p') = mst_state (gp_status p)"
  by (auto simp: gst_pause_def Let_def gp_set_state_frame split: if_splits prod.splits bool.splits)

lemma gst_resume_state:
  "gst_resume api p = (Inr u, p') \<Longrightarrow> mst_state (gp_status p) = MpPaused \<and> mst_state (gp_status p') = MpPlaying"
  "gst_resume api p = (Inl e, p') \<Longrightarrow> mst_state (gp_status p') = mst_state (gp_status p) \<or> mst_state (gp_status p') = MpFaulted"
  by (auto simp: gst_resume_def Let_def gp_set_state_frame dest: play_unlocked_state
      split: if_splits prod.splits bool.splits sum.splits)

lemma gst_stop_state:
  "gst_stop api p = (Inr u, p') \<Longrightarrow> mst_state (gp_status p') = MpStopped"
  "gst_stop api p = (Inl e, p') \<Longrightarrow> mst_state (gp_status p') = mst_state (gp_status p)"
  by (auto simp: gst_stop_def gp_set_state_frame split: if_splits prod.splits bool.splits)

lemma gst_next_state:
  "gst_next api p = (Inr u, p') \<Longrightarrow> mst_state (gp_status p') = mst_state (gp_status p) \<and>
     (mst_state (gp_status p) = MpPlaying \<or> mst_state (gp_status p) = MpPaused)"
  "gst_next api p = (Inl e, p') \<Longrightarrow> mst_state (gp_status p') = mst_state (gp_status p) \<or> mst_state (gp_status p') = MpFaulted"
  by (auto simp: gst_next_def Let_def dest!: play_unlocked_state split: if_splits)

lemma gst_play_state:
  "gst_play api i p = (Inr u, p') \<Longrightarrow> mst_state (gp_status p') = MpPlaying"
  "gst_play api i p = (Inl e, p') \<Longrightarrow> mst_state (gp_status p') = mst_state (gp_status p) \<or> mst_state (gp_status p') = MpFaulted"
  by (auto simp: gst_play_def Let_def dest!: play_unlocked_state split: if_splits option.splits)

lemmas gst_state_laws = gst_play_state gst_pause_state gst_resume_state gst_stop_state gst_next_state

interpretation gst: media_player "gst_media api" "\<lambda>p. mst_state (gp_status p)" for api
proof unfold_locales
  fix p p' :: "'a gst_player" and r
  assume "mo_status (gst_media api) p = (r, p')"
  then show "mst_state r = mst_state (gp_status p') \<and>
      (mst_state (gp_status p') = mst_state (gp_status p) \<or> mst_state (gp_status p') = MpStopped \<or> mst_state (gp_status p') = MpFaulted)"
    using gst_status_reports [of api p r p'] drain_bus_state [of api p] by (simp add: gst_media_def)
qed (auto simp: gst_media_def dest: gst_state_laws)

section \<open>The track a GStreamer player shows\<close>

text \<open>Commands, for runs of a player.\<close>

datatype media_cmd = McStatus | McPlay string | McPause | McResume | McStop | McNext

definition run_cmd :: "'s media_ops \<Rightarrow> media_cmd \<Rightarrow> 's media_op" where
  "run_cmd ops c s =
     (case c of
        McStatus \<Rightarrow> (Inr (), snd (mo_status ops s))
      | McPlay i \<Rightarrow> mo_play ops i s
      | McPause \<Rightarrow> mo_pause ops s
      | McResume \<Rightarrow> mo_resume ops s
      | McStop \<Rightarrow> mo_stop ops s
      | McNext \<Rightarrow> mo_next ops s)"

text \<open>While a track is loaded the status shows the track that the player would play on.\<close>

definition track_ids :: "manifest_track list \<Rightarrow> string list" where
  "track_ids tracks = map (\<lambda>t. mt_id (mf_metadata t)) tracks"

definition loaded :: "'g gst_player \<Rightarrow> bool" where
  "loaded p \<longleftrightarrow> mst_state (gp_status p) = MpPlaying \<or> mst_state (gp_status p) = MpPaused"

definition shows_track :: "'g gst_player \<Rightarrow> bool" where
  "shows_track p \<longleftrightarrow> distinct (track_ids (gp_tracks p)) \<and>
     (loaded p \<longrightarrow> gp_current_index p < length (gp_tracks p) \<and>
        apply_track (mf_metadata (gp_tracks p ! gp_current_index p)) (gp_status p) = gp_status p)"

lemma gp_find_own:
  assumes "distinct (track_ids tracks)" "i < length tracks"
  shows "gp_find (mt_id (mf_metadata (tracks ! i))) tracks = Some i"
proof -
  let ?P = "\<lambda>t. mt_id (mf_metadata t) = mt_id (mf_metadata (tracks ! i))"
  have "find_index ?P tracks \<noteq> None" using assms(2) by (auto simp: find_index_None list_all_length)
  then obtain j where j: "find_index ?P tracks = Some j" by blast
  have "j < length tracks" "?P (tracks ! j)" using find_index_Some [OF j] by simp_all
  then have "j = i" using assms by (auto simp: track_ids_def distinct_conv_nth)
  with j show ?thesis by (simp add: gp_find_def)
qed

lemma apply_track_idem [simp]: "apply_track t (apply_track t s) = apply_track t s"
  by (simp add: apply_track_def)

lemma apply_track_update [simp]:
  "apply_track t (s\<lparr>mst_state := q\<rparr>) = (apply_track t s)\<lparr>mst_state := q\<rparr>"
  "apply_track t (s\<lparr>mst_position_ms := n\<rparr>) = (apply_track t s)\<lparr>mst_position_ms := n\<rparr>"
  "apply_track t (s\<lparr>mst_last_error := e\<rparr>) = (apply_track t s)\<lparr>mst_last_error := e\<rparr>"
  by (simp_all add: apply_track_def)

lemma play_unlocked_effect:
  assumes "play_unlocked api i q p = (r, p')"
  shows "gp_tracks p' = gp_tracks p"
    and "r = Inr u \<Longrightarrow> \<exists>n. gp_find i (gp_tracks p) = Some n \<and> gp_current_index p' = n \<and> gp_paused_position_ms p' = 0 \<and>
      gp_status p' = apply_track (mf_metadata (gp_tracks p ! n)) ((gp_status p)\<lparr>mst_state := q, mst_position_ms := 0, mst_last_error := []\<rparr>)"
    and "r = Inl e \<Longrightarrow> gp_current_index p' = gp_current_index p \<and> gp_paused_position_ms p' = gp_paused_position_ms p \<and>
      (gp_status p' = gp_status p \<or> mst_state (gp_status p') = MpFaulted)"
  using assms
  by (auto simp: play_unlocked_def gp_set_state_frame gp_fault_def split: option.splits prod.splits bool.splits)

lemma gp_find_bound: "gp_find i tracks = Some n \<Longrightarrow> n < length tracks \<and> mt_id (mf_metadata (tracks ! n)) = i"
  unfolding gp_find_def using find_index_Some by fastforce

lemma play_unlocked_shows:
  assumes "shows_track p" "play_unlocked api i q p = (r, p')"
  shows "shows_track p'"
proof (cases r)
  case (Inl e)
  then have "gp_current_index p' = gp_current_index p" "gp_status p' = gp_status p \<or> mst_state (gp_status p') = MpFaulted"
    "gp_tracks p' = gp_tracks p"
    using play_unlocked_effect [OF assms(2)] by blast+
  then show ?thesis using assms(1) by (auto simp: shows_track_def loaded_def)
next
  case (Inr u)
  obtain n where "gp_find i (gp_tracks p) = Some n" "gp_current_index p' = n"
    "gp_status p' = apply_track (mf_metadata (gp_tracks p ! n)) ((gp_status p)\<lparr>mst_state := q, mst_position_ms := 0, mst_last_error := []\<rparr>)"
    using play_unlocked_effect(2) [OF assms(2) Inr] by blast
  then show ?thesis
    using assms(1) gp_find_bound play_unlocked_effect(1) [OF assms(2)] by (auto simp: shows_track_def)
qed

lemma shows_track_cong:
  "gp_tracks p' = gp_tracks p \<Longrightarrow> gp_current_index p' = gp_current_index p \<Longrightarrow>
   gp_status p' = (gp_status p)\<lparr>mst_state := q, mst_position_ms := n, mst_last_error := e\<rparr> \<Longrightarrow> shows_track p \<Longrightarrow>
   loaded p \<or> q \<noteq> MpPlaying \<and> q \<noteq> MpPaused \<Longrightarrow> shows_track p'"
  by (auto simp: shows_track_def loaded_def)

lemma shows_track_same:
  "gp_tracks p' = gp_tracks p \<Longrightarrow> gp_current_index p' = gp_current_index p \<Longrightarrow> gp_status p' = gp_status p \<Longrightarrow>
   shows_track p' = shows_track p"
  by (simp add: shows_track_def loaded_def)

lemma not_loaded_shows: "\<not> loaded p \<Longrightarrow> shows_track p = distinct (track_ids (gp_tracks p))"
  by (simp add: shows_track_def)

lemma gst_pause_shows: "shows_track p \<Longrightarrow> gst_pause api p = (r, p') \<Longrightarrow> shows_track p'"
  by (auto simp: gst_pause_def Let_def shows_track_def loaded_def gp_set_state_frame split: if_splits prod.splits bool.splits)

lemma gst_stop_shows: "shows_track p \<Longrightarrow> gst_stop api p = (r, p') \<Longrightarrow> shows_track p'"
  by (auto simp: gst_stop_def shows_track_def loaded_def gp_set_state_frame split: if_splits prod.splits bool.splits)

lemma gst_play_shows: "shows_track p \<Longrightarrow> gst_play api i p = (r, p') \<Longrightarrow> shows_track p'"
  by (auto simp: gst_play_def Let_def dest: play_unlocked_shows split: if_splits option.splits)

lemma faulted_shows:
  "distinct (track_ids (gp_tracks p)) \<Longrightarrow> mst_state (gp_status p) = MpFaulted \<Longrightarrow> shows_track p"
  by (simp add: shows_track_def loaded_def)

lemma gst_resume_cases:
  assumes "gst_resume api p = (r, p')"
  obtains (refused) e where "r = Inl e" "p' = p"
  | (failed) e where "play_unlocked api (mt_id (mf_metadata (gp_tracks p ! gp_current_index p))) MpPlaying p = (Inl e, p')" "r = Inl e"
  | (no_seek) e p1 where "r = Inl e" "play_unlocked api (mt_id (mf_metadata (gp_tracks p ! gp_current_index p))) MpPlaying p = (Inr (), p1)"
      "gp_tracks p' = gp_tracks p1" "mst_state (gp_status p') = MpFaulted"
  | (resumed) p1 p2 where "r = Inr ()" "mst_state (gp_status p) = MpPaused"
      "play_unlocked api (mt_id (mf_metadata (gp_tracks p ! gp_current_index p))) MpPlaying p = (Inr (), p1)"
      "(if gp_paused_position_ms p > 0 then gp_seek api (gp_paused_position_ms p) p1 else (True, p1)) = (True, p2)"
      "p' = p2\<lparr>gp_paused_position_ms := 0,
         gp_status := (gp_status p2)\<lparr>mst_state := MpPlaying, mst_position_ms := gp_paused_position_ms p\<rparr>\<rparr>"
proof (cases "mst_state (gp_status p) = MpPaused")
  case False
  then show thesis using assms refused by (auto simp: gst_resume_def)
next
  case True
  obtain r1 p1 where u: "play_unlocked api (mt_id (mf_metadata (gp_tracks p ! gp_current_index p))) MpPlaying p = (r1, p1)" by fastforce
  show thesis
  proof (cases r1)
    case (Inl e)
    then show thesis using assms True u failed by (auto simp: gst_resume_def Let_def)
  next
    case (Inr v)
    obtain ok p2 where s: "(if gp_paused_position_ms p > 0 then gp_seek api (gp_paused_position_ms p) p1 else (True, p1)) = (ok, p2)"
      by fastforce
    show thesis
    proof (cases ok)
      case True': True
      then show thesis using assms True u Inr s resumed by (simp add: gst_resume_def Let_def)
    next
      case False
      let ?f = "gp_fault ''GStreamer failed to seek while resuming media playback'' p2"
      obtain b p3 where g: "gp_set_state api GsNull ?f = (b, p3)" by fastforce
      have "gp_tracks p2 = gp_tracks p1" using s by (auto dest: gp_seek_frame split: if_splits)
      then show thesis
        using assms True u Inr s False no_seek gp_set_state_frame(1,2) [OF g] by (auto simp: gst_resume_def Let_def g)
    qed
  qed
qed

lemma gst_resume_shows: "shows_track p \<Longrightarrow> gst_resume api p = (r, p') \<Longrightarrow> shows_track p'"
proof (erule gst_resume_cases [of api p r p'])
  fix e
  assume "shows_track p" "play_unlocked api (mt_id (mf_metadata (gp_tracks p ! gp_current_index p))) MpPlaying p = (Inl e, p')"
  then show "shows_track p'" by (rule play_unlocked_shows)
next
  fix e p1
  assume "shows_track p" "play_unlocked api (mt_id (mf_metadata (gp_tracks p ! gp_current_index p))) MpPlaying p = (Inr (), p1)"
    "gp_tracks p' = gp_tracks p1" "mst_state (gp_status p') = MpFaulted"
  then show "shows_track p'" using play_unlocked_shows [of p] by (auto simp: shows_track_def loaded_def)
next
  fix p1 p2
  assume s: "shows_track p" "play_unlocked api (mt_id (mf_metadata (gp_tracks p ! gp_current_index p))) MpPlaying p = (Inr (), p1)"
    and q: "(if gp_paused_position_ms p > 0 then gp_seek api (gp_paused_position_ms p) p1 else (True, p1)) = (True, p2)"
    and p': "p' = p2\<lparr>gp_paused_position_ms := 0, gp_status := (gp_status p2)\<lparr>mst_state := MpPlaying, mst_position_ms := gp_paused_position_ms p\<rparr>\<rparr>"
  have "shows_track p1" using s by (rule play_unlocked_shows)
  moreover have "loaded p1" using play_unlocked_state(1) [OF s(2)] by (simp add: loaded_def)
  moreover have "gp_status p2 = gp_status p1" "gp_tracks p2 = gp_tracks p1" "gp_current_index p2 = gp_current_index p1"
    using q by (auto dest: gp_seek_frame split: if_splits)
  ultimately show "shows_track p'" by (auto simp: shows_track_def loaded_def p')
qed simp_all

lemma gst_next_shows:
  assumes "shows_track p" "gst_next api p = (Inr u, p')"
  shows "shows_track p'"
proof -
  let ?i = "(gp_current_index p + 1) mod length (gp_tracks p)"
  have d: "distinct (track_ids (gp_tracks p))" using assms(1) by (simp add: shows_track_def)
  have u: "play_unlocked api (mt_id (mf_metadata (gp_tracks p ! ?i))) (mst_state (gp_status p)) (p\<lparr>gp_current_index := ?i\<rparr>) = (Inr u, p')"
    using assms(2) by (auto simp: gst_next_def Let_def split: if_splits)
  obtain n where "gp_find (mt_id (mf_metadata (gp_tracks p ! ?i))) (gp_tracks p) = Some n" "gp_current_index p' = n"
    "gp_status p' = apply_track (mf_metadata (gp_tracks p ! n)) ((gp_status p)\<lparr>mst_state := mst_state (gp_status p), mst_position_ms := 0, mst_last_error := []\<rparr>)"
    using play_unlocked_effect(2) [OF u refl] by auto
  then show ?thesis using d gp_find_bound play_unlocked_effect(1) [OF u] by (auto simp: shows_track_def)
qed

lemma drain_message_stops:
  "gp_tracks (drain_message api m p) = gp_tracks p" "\<not> loaded (drain_message api m p)"
proof -
  have t: "gp_tracks (snd (gp_set_state api GsNull q)) = gp_tracks q" for q :: "'a gst_player"
    using gp_set_state_frame(2) [of api GsNull q] by (metis prod.collapse)
  show "gp_tracks (drain_message api m p) = gp_tracks p" by (cases m) (simp_all add: drain_message_def t)
  show "\<not> loaded (drain_message api m p)" by (cases m) (simp_all add: drain_message_def loaded_def)
qed

lemma drain_bus_shows: "shows_track p \<Longrightarrow> shows_track (drain_bus api p)"
proof -
  assume s: "shows_track p"
  have f: "shows_track (fold (drain_message api) msgs q)" if "shows_track q" for msgs q
    using that
  proof (induction msgs arbitrary: q)
    case (Cons m msgs)
    have "shows_track (drain_message api m q)"
      using Cons.prems by (simp add: not_loaded_shows drain_message_stops) (simp add: shows_track_def)
    then show ?case using Cons.IH by simp
  qed simp
  show ?thesis
  proof (cases "gp_pipeline p")
    case (Some g)
    obtain msgs g' where g': "gst_messages api g = (msgs, g')" by fastforce
    have "shows_track (p\<lparr>gp_pipeline := Some g'\<rparr>)" using s by (simp add: shows_track_def loaded_def)
    from f [OF this] show ?thesis by (simp add: drain_bus_def Some g')
  qed (simp add: drain_bus_def s)
qed

lemma gst_cmd_shows:
  assumes "shows_track p" "run_cmd (gst_media api) c p = (r, p')" "c = McNext \<Longrightarrow> \<exists>u. r = Inr u"
  shows "shows_track p'"
proof (cases c)
  case McStatus
  have "snd (gst_status api p) = drain_bus api p" by (simp add: gst_status_def Let_def)
  moreover have "p' = snd (gst_status api p)" using assms(2) McStatus by (simp add: run_cmd_def gst_media_def)
  ultimately show ?thesis using drain_bus_shows [OF assms(1)] by simp
qed (use assms in \<open>auto simp: run_cmd_def gst_media_def intro: gst_play_shows gst_pause_shows gst_resume_shows gst_stop_shows gst_next_shows\<close>)

text \<open>A run of commands in which no \<open>Next\<close> fails.\<close>

fun run_cmds :: "'s media_ops \<Rightarrow> media_cmd list \<Rightarrow> 's \<Rightarrow> ((string + unit) list \<times> 's)" where
  "run_cmds ops [] s = ([], s)"
| "run_cmds ops (c # cs) s = (case run_cmd ops c s of (r, s') \<Rightarrow> (case run_cmds ops cs s' of (rs, s'') \<Rightarrow> (r # rs, s'')))"

definition next_works :: "media_cmd list \<Rightarrow> (string + unit) list \<Rightarrow> bool" where
  "next_works cs rs \<longleftrightarrow> list_all2 (\<lambda>c r. c = McNext \<longrightarrow> (case r of Inr _ \<Rightarrow> True | Inl _ \<Rightarrow> False)) cs rs"

lemma gst_run_shows:
  "shows_track p \<Longrightarrow> run_cmds (gst_media api) cs p = (rs, p') \<Longrightarrow> next_works cs rs \<Longrightarrow> shows_track p'"
proof (induction cs arbitrary: p rs)
  case (Cons c cs)
  obtain r p1 rs' where r: "run_cmd (gst_media api) c p = (r, p1)" "run_cmds (gst_media api) cs p1 = (rs', p')" "rs = r # rs'"
    using Cons.prems(2) by (auto split: prod.splits)
  have n: "c = McNext \<Longrightarrow> \<exists>u. r = Inr u" "next_works cs rs'"
    using Cons.prems(3) r(3) by (auto simp: next_works_def split: sum.splits)
  have "shows_track p1" using gst_cmd_shows [OF Cons.prems(1) r(1)] n(1) by blast
  then show ?case using Cons.IH r(2) n(2) by blast
qed simp

lemma gst_new_shows: "distinct (track_ids tracks) \<Longrightarrow> shows_track (gst_player_new tracks g made)"
  by (simp add: shows_track_def loaded_def gst_player_new_def media_status_new_def Let_def)

section \<open>Properties\<close>

text \<open>A GStreamer element for the examples: it counts the state changes and seeks, and fails those listed.\<close>

definition test_api :: "nat list \<Rightarrow> nat gst_api" where
  "test_api failing = \<lparr> gst_uri = (\<lambda>f. Some (''file://'' @ f)),
     gst_set_state = (\<lambda>t n. (if n \<in> set failing then GcFailure else GcSuccess, n + 1)),
     gst_get_state = (\<lambda>n. ((GcSuccess, GsPlaying), n)), gst_position = (\<lambda>n. Some 42000000), gst_seek = (\<lambda>t n. (True, n + 1)),
     gst_set_uri = (\<lambda>u n. n), gst_messages = (\<lambda>n. ([], n)) \<rparr>"

definition test_tracks :: "manifest_track list" where
  "test_tracks = map (\<lambda>t. \<lparr> mf_metadata = t, mf_file = mt_id t, mf_sha256 = [] \<rparr>) mock_tracks"

lemma test_tracks_distinct: "distinct (track_ids test_tracks)"
  by (simp add: test_tracks_def mock_tracks_def track_ids_def)

text \<open>
  What the GStreamer player shows is what it would play. Whatever commands it gets and whatever GStreamer answers,
  while a track is loaded the status carries the title and length of the track at its index, provided the track
  identifiers differ and no step to the next track failed.
\<close>

theorem status_shows_loaded_track:
  assumes "distinct (track_ids tracks)" "run_cmds (gst_media api) cs (gst_player_new tracks pipeline made) = (rs, p)"
    and "next_works cs rs"
    and "mst_state (gp_status p) = MpPlaying \<or> mst_state (gp_status p) = MpPaused"
  shows "gp_current_index p < length (gp_tracks p) \<and>
    mst_current_track_id (gp_status p) = track_ids (gp_tracks p) ! gp_current_index p"
proof -
  have i: "gp_current_index p < length (gp_tracks p)"
    and s: "apply_track (mf_metadata (gp_tracks p ! gp_current_index p)) (gp_status p) = gp_status p"
    using gst_run_shows [OF gst_new_shows [OF assms(1)] assms(2,3)] assms(4) by (auto simp: shows_track_def loaded_def)
  have "mst_current_track_id (apply_track (mf_metadata (gp_tracks p ! gp_current_index p)) (gp_status p)) =
      track_ids (gp_tracks p) ! gp_current_index p"
    using i by (simp add: apply_track_def track_ids_def)
  with i s show ?thesis by simp
qed

definition test_player :: "nat list \<Rightarrow> media_cmd list \<Rightarrow> nat gst_player" where
  "test_player failing cs = snd (run_cmds (gst_media (test_api failing)) cs (gst_player_new test_tracks (Some 0) True))"

lemmas test_run_defs = test_player_def run_cmd_def gst_media_def gst_defs play_unlocked_def gp_find_def set_state_and_wait_def
  gp_set_state_def gp_position_ms_def gp_seek_def drain_bus_def test_api_def test_tracks_def mock_tracks_def gst_player_new_def
  media_status_new_def apply_track_def Let_def

theorem status_shows_loaded_track_witness:
  "mst_current_track_id (gp_status (test_player [] [McPlay ''default_track'', McPause, McNext, McStatus])) = ''mock_track_two''"
proof -
  let ?cs = "[McPlay ''default_track'', McPause, McNext, McStatus]"
  let ?p = "test_player [] ?cs"
  have "fst (run_cmds (gst_media (test_api [])) ?cs (gst_player_new test_tracks (Some 0) True)) = [Inr (), Inr (), Inr (), Inr ()]"
    by (simp add: test_run_defs)
  then have r: "run_cmds (gst_media (test_api [])) ?cs (gst_player_new test_tracks (Some 0) True) = ([Inr (), Inr (), Inr (), Inr ()], ?p)"
    by (simp only: test_player_def) (metis prod.collapse)
  have n: "next_works ?cs [Inr (), Inr (), Inr (), Inr ()]" by (simp add: next_works_def)
  have st: "mst_state (gp_status ?p) = MpPaused" "gp_current_index ?p = 1" "gp_tracks ?p = test_tracks"
    by (simp_all add: test_run_defs)
  show ?thesis
    using status_shows_loaded_track [OF test_tracks_distinct r n] st by (simp add: track_ids_def test_tracks_def mock_tracks_def)
qed

text \<open>
  A pause is undone by a resume: when both succeed, the same track plays again from the position at which it
  was paused, by a seek to it, and the status is the one before the pause but for that position and old errors.
\<close>

theorem resume_returns_to_pause:
  assumes "shows_track p" "gst_pause api p = (Inr u, p1)" "gst_resume api p1 = (Inr v, p2)"
  shows "gp_current_index p2 = gp_current_index p \<and>
    gp_status p2 = (gp_status p)\<lparr>mst_position_ms := mst_position_ms (gp_status p1), mst_last_error := []\<rparr> \<and>
    (mst_position_ms (gp_status p1) > 0 \<longrightarrow> (\<exists>g. fst (gst_seek api (sint (mst_position_ms (gp_status p1)) * 1000000) g) \<and>
       gp_pipeline p2 = Some (snd (gst_seek api (sint (mst_position_ms (gp_status p1)) * 1000000) g))))"
proof -
  let ?t = "gp_tracks p ! gp_current_index p"
  have paused: "gp_tracks p1 = gp_tracks p" "gp_current_index p1 = gp_current_index p"
    "gp_status p1 = (gp_status p)\<lparr>mst_state := MpPaused, mst_position_ms := gp_paused_position_ms p1\<rparr>" "mst_state (gp_status p) = MpPlaying"
    using assms(2) by (auto simp: gst_pause_def Let_def gp_set_state_frame split: if_splits prod.splits bool.splits)
  have shown: "distinct (track_ids (gp_tracks p))" "gp_current_index p < length (gp_tracks p)"
    "apply_track (mf_metadata ?t) (gp_status p) = gp_status p"
    using assms(1) paused(4) by (auto simp: shows_track_def loaded_def)
  let ?n = "gp_paused_position_ms p1"
  obtain q1 q2 where q: "play_unlocked api (mt_id (mf_metadata ?t)) MpPlaying p1 = (Inr (), q1)"
    "(if ?n > 0 then gp_seek api ?n q1 else (True, q1)) = (True, q2)"
    "p2 = q2\<lparr>gp_paused_position_ms := 0, gp_status := (gp_status q2)\<lparr>mst_state := MpPlaying, mst_position_ms := ?n\<rparr>\<rparr>"
    using assms(3) by (rule gst_resume_cases) (simp_all add: paused)
  have found: "gp_find (mt_id (mf_metadata ?t)) (gp_tracks p1) = Some (gp_current_index p)"
    using gp_find_own [OF shown(1,2)] by (simp add: paused)
  have q1: "gp_current_index q1 = gp_current_index p"
    "gp_status q1 = apply_track (mf_metadata ?t) ((gp_status p1)\<lparr>mst_state := MpPlaying, mst_position_ms := 0, mst_last_error := []\<rparr>)"
    using play_unlocked_effect(2) [OF q(1) refl] found by (auto simp: paused(1))
  have q2: "gp_status q2 = gp_status q1" "gp_current_index q2 = gp_current_index q1"
    using q(2) by (auto dest: gp_seek_frame split: if_splits)
  have "gp_status p2 = (gp_status p)\<lparr>mst_position_ms := ?n, mst_last_error := []\<rparr>"
    using shown(3) paused(4) by (simp add: q(3) q2 q1 paused(3))
  moreover have "?n > 0 \<longrightarrow> (\<exists>g. fst (gst_seek api (sint ?n * 1000000) g) \<and> gp_pipeline p2 = Some (snd (gst_seek api (sint ?n * 1000000) g)))"
    using q(2) by (auto simp: q(3) gp_seek_def split: option.splits prod.splits) (metis fst_conv snd_conv)
  ultimately show ?thesis by (simp add: q(3) q2 q1 paused(3))
qed

theorem resume_returns_to_pause_witness:
  "gp_status (snd (gst_resume (test_api []) (snd (gst_pause (test_api []) (test_player [] [McPlay ''mock_track_two''])))))
     = (gp_status (test_player [] [McPlay ''mock_track_two'']))\<lparr>mst_position_ms := 42\<rparr>"
proof -
  let ?p = "test_player [] [McPlay ''mock_track_two'']"
  let ?p1 = "snd (gst_pause (test_api []) ?p)"
  have "shows_track ?p"
    using gst_run_shows [OF gst_new_shows [OF test_tracks_distinct], of "test_api []" "[McPlay ''mock_track_two'']" "Some 0" True]
    by (simp add: test_player_def next_works_def split: prod.splits)
  moreover have "gst_pause (test_api []) ?p = (Inr (), ?p1)" "mst_position_ms (gp_status ?p1) = 42" "mst_last_error (gp_status ?p) = []"
    by (simp_all add: test_run_defs)
  moreover have "gst_resume (test_api []) ?p1 = (Inr (), snd (gst_resume (test_api []) ?p1))" by (simp add: test_run_defs)
  ultimately show ?thesis
    using resume_returns_to_pause [of ?p "test_api []" "()" ?p1 "()"] by simp
qed

text \<open>
  A step to the next track that fails leaves the player between two tracks: the status still names the paused one,
  but \<open>Next\<close> has moved the index, and the resume that follows plays the next track at the old one's position.
\<close>

theorem failed_next_switches_track:
  assumes "shows_track p" "mst_state (gp_status p) = MpPaused" "2 \<le> length (gp_tracks p)"
    and "gst_next api p = (Inl e, p1)" "mst_state (gp_status p1) = MpPaused"
    and "gst_resume api p1 = (Inr u, p2)"
  shows "gp_status p1 = gp_status p \<and> mst_current_track_id (gp_status p2) \<noteq> mst_current_track_id (gp_status p) \<and>
    mst_position_ms (gp_status p2) = gp_paused_position_ms p"
proof -
  let ?i = "(gp_current_index p + 1) mod length (gp_tracks p)"
  have shown: "distinct (track_ids (gp_tracks p))" "gp_current_index p < length (gp_tracks p)"
    "apply_track (mf_metadata (gp_tracks p ! gp_current_index p)) (gp_status p) = gp_status p"
    using assms(1,2) by (auto simp: shows_track_def loaded_def)
  have i: "?i < length (gp_tracks p)" "?i \<noteq> gp_current_index p"
    using assms(3) shown(2) by (auto simp: mod_Suc)
  have "play_unlocked api (mt_id (mf_metadata (gp_tracks p ! ?i))) MpPaused (p\<lparr>gp_current_index := ?i\<rparr>) = (Inl e, p1)"
    using assms(2-4) by (auto simp: gst_next_def Let_def split: if_splits)
  from play_unlocked_effect(1,3) [OF this] assms(5)
  have p1: "gp_tracks p1 = gp_tracks p" "gp_current_index p1 = ?i" "gp_paused_position_ms p1 = gp_paused_position_ms p"
    "gp_status p1 = gp_status p"
    by auto
  obtain q1 q2 where q: "play_unlocked api (mt_id (mf_metadata (gp_tracks p ! ?i))) MpPlaying p1 = (Inr (), q1)"
    "(if gp_paused_position_ms p1 > 0 then gp_seek api (gp_paused_position_ms p1) q1 else (True, q1)) = (True, q2)"
    "p2 = q2\<lparr>gp_paused_position_ms := 0, gp_status := (gp_status q2)\<lparr>mst_state := MpPlaying, mst_position_ms := gp_paused_position_ms p1\<rparr>\<rparr>"
    using assms(6) by (rule gst_resume_cases) (simp_all add: p1(1,2))
  have q2: "gp_status q2 = gp_status q1" using q(2) by (auto dest: gp_seek_frame split: if_splits)
  have "mst_current_track_id (gp_status q1) = track_ids (gp_tracks p) ! ?i"
    using play_unlocked_effect(2) [OF q(1) refl] gp_find_own [OF shown(1) i(1)] i(1)
    by (auto simp: p1(1) apply_track_def track_ids_def)
  moreover have "mst_current_track_id (apply_track (mf_metadata (gp_tracks p ! gp_current_index p)) (gp_status p)) =
      track_ids (gp_tracks p) ! gp_current_index p"
    using shown(2) by (simp add: apply_track_def track_ids_def)
  moreover have "track_ids (gp_tracks p) ! ?i \<noteq> track_ids (gp_tracks p) ! gp_current_index p"
    using nth_eq_iff_index_eq [OF shown(1), of ?i "gp_current_index p"] shown(2) i by (simp add: track_ids_def)
  ultimately show ?thesis by (simp add: q(3) q2 p1(3,4) shown(3))
qed

theorem failed_next_switches_track_witness:
  "mst_current_track_id (gp_status (test_player [3] [McPlay ''mock_track_one'', McPause, McNext])) = ''mock_track_one'' \<and>
   mst_current_track_id (gp_status (test_player [3] [McPlay ''mock_track_one'', McPause, McNext, McResume])) \<noteq> ''mock_track_one''"
proof -
  let ?a = "test_api [3]"
  let ?p = "test_player [3] [McPlay ''mock_track_one'', McPause]"
  let ?p1 = "snd (gst_next ?a ?p)"
  have "shows_track ?p"
    using gst_run_shows [OF gst_new_shows [OF test_tracks_distinct], of ?a "[McPlay ''mock_track_one'', McPause]" "Some 0" True]
    by (simp add: test_player_def next_works_def split: prod.splits)
  moreover have "mst_state (gp_status ?p) = MpPaused" "2 \<le> length (gp_tracks ?p)"
    "gst_next ?a ?p = (Inl ''GStreamer failed to reset media playback'', ?p1)" "mst_state (gp_status ?p1) = MpPaused"
    "gst_resume ?a ?p1 = (Inr (), snd (gst_resume ?a ?p1))" "mst_current_track_id (gp_status ?p) = ''mock_track_one''"
    by (simp_all add: test_run_defs)
  ultimately have "mst_current_track_id (gp_status (snd (gst_resume ?a ?p1))) \<noteq> ''mock_track_one''" "gp_status ?p1 = gp_status ?p"
    using failed_next_switches_track [of ?p ?a "''GStreamer failed to reset media playback''" ?p1 "()"] by simp_all
  moreover have "test_player [3] [McPlay ''mock_track_one'', McPause, McNext] = ?p1"
    "test_player [3] [McPlay ''mock_track_one'', McPause, McNext, McResume] = snd (gst_resume ?a ?p1)"
    by (simp_all add: test_player_def run_cmd_def gst_media_def split: prod.splits)
  ultimately show ?thesis using \<open>mst_current_track_id (gp_status ?p) = ''mock_track_one''\<close> by simp
qed

section \<open>The machine the players refine\<close>

text \<open>The abstract player: the states a command may lead to, by whether it succeeds.\<close>

fun media_allowed :: "media_cmd \<Rightarrow> bool \<Rightarrow> media_state \<Rightarrow> media_state list" where
  "media_allowed McStatus ok s = [s, MpStopped, MpFaulted]"
| "media_allowed (McPlay i) ok s = (if ok then [MpPlaying] else [s, MpFaulted])"
| "media_allowed McPause ok s = (if \<not> ok then [s] else if s = MpPlaying then [MpPaused] else [])"
| "media_allowed McResume ok s = (if \<not> ok then [s, MpFaulted] else if s = MpPaused then [MpPlaying] else [])"
| "media_allowed McStop ok s = (if ok then [MpStopped] else [s])"
| "media_allowed McNext ok s = (if \<not> ok then [s, MpFaulted] else if s = MpPlaying \<or> s = MpPaused then [s] else [])"

fun media_path :: "media_cmd list \<Rightarrow> (string + unit) list \<Rightarrow> media_state \<Rightarrow> media_state \<Rightarrow> bool" where
  "media_path [] [] s t \<longleftrightarrow> s = t"
| "media_path (c # cs) (r # rs) s t \<longleftrightarrow>
     list_ex (\<lambda>u. media_path cs rs u t) (media_allowed c (case r of Inl _ \<Rightarrow> False | Inr _ \<Rightarrow> True) s)"
| "media_path cs rs s t \<longleftrightarrow> False"

context media_player
begin

lemma cmd_allowed:
  assumes "run_cmd ops c p = (r, p')"
  shows "st p' \<in> set (media_allowed c (case r of Inl _ \<Rightarrow> False | Inr _ \<Rightarrow> True) (st p))"
proof (cases c)
  case McStatus
  then obtain s where "mo_status ops p = (s, p')" using assms by (cases "mo_status ops p") (auto simp: run_cmd_def)
  with status_reports McStatus show ?thesis by force
next
  case (McPlay i)
  then show ?thesis using assms play_plays play_refused by (cases r) (fastforce simp: run_cmd_def)+
next
  case McPause
  then show ?thesis using assms pause_pauses pause_refused by (cases r) (fastforce simp: run_cmd_def)+
next
  case McResume
  then show ?thesis using assms resume_plays resume_refused by (cases r) (fastforce simp: run_cmd_def)+
next
  case McStop
  then show ?thesis using assms stop_stops stop_refused by (cases r) (fastforce simp: run_cmd_def)+
next
  case McNext
  then show ?thesis using assms next_keeps next_refused by (cases r) (fastforce simp: run_cmd_def)+
qed

lemma run_refines: "run_cmds ops cs p = (rs, p') \<Longrightarrow> media_path cs rs (st p) (st p')"
proof (induction cs arbitrary: p rs)
  case (Cons c cs)
  obtain r p1 rs' where "run_cmd ops c p = (r, p1)" "run_cmds ops cs p1 = (rs', p')" "rs = r # rs'"
    using Cons.prems by (auto split: prod.splits)
  then show ?case using Cons.IH cmd_allowed by (fastforce simp: list_ex_iff)
qed simp

end

text \<open>
  C38: the players refine one machine. Every run of the mock player, and of the GStreamer player whatever GStreamer answers
  and reports, is a path of the abstract player from the state it starts in, command by command, with the results it gave;
  the disabled player stays unavailable and refuses everything but a question for its status.
\<close>

theorem players_refine_machine:
  "(case run_cmds mock_media cs p of (rs, p') \<Rightarrow> media_path cs rs (mst_state (mk_status p)) (mst_state (mk_status p'))) \<and>
   (case run_cmds (gst_media api) cs g of (rs, g') \<Rightarrow> media_path cs rs (mst_state (gp_status g)) (mst_state (gp_status g'))) \<and>
   fst (run_cmds disabled_player cs ()) = map (\<lambda>c. if c = McStatus then Inr () else Inl ''media backend is disabled'') cs"
proof -
  have "fst (run_cmds disabled_player cs ()) = map (\<lambda>c. if c = McStatus then Inr () else Inl ''media backend is disabled'') cs"
  proof (induction cs)
    case (Cons c cs)
    have "run_cmd disabled_player c () = (if c = McStatus then Inr () else Inl ''media backend is disabled'', ())"
      by (cases c) (simp_all add: run_cmd_def disabled_player_def reject_def)
    then show ?case using Cons.IH by (auto split: prod.splits)
  qed simp
  then show ?thesis using mock.run_refines [of cs p] gst.run_refines [of api cs g] by (auto split: prod.splits)
qed

end
