(* ===== verification/Media_Service.thy ===== *)
theory Media_Service
  imports Media_Player
begin

text \<open>
  The media process over its player: \<open>MediaService\<close> (\<open>cockpit/hmi/media/runtime/media_service.cc\<close>), which may hold no
  player, and the handlers of \<open>media_grpc_service.cc\<close>. A handler returns the status of the call and the response it
  filled in; the wall clock it reads is an argument. The mutex makes every operation of the service one step.
\<close>

section \<open>The service\<close>

definition service_list_tracks :: "'s media_ops \<Rightarrow> 's option \<Rightarrow> media_track list" where
  "service_list_tracks ops m = (case m of None \<Rightarrow> [] | Some p \<Rightarrow> mo_list_tracks ops p)"

definition service_status :: "'s media_ops \<Rightarrow> 's option \<Rightarrow> media_status \<times> 's option" where
  "service_status ops m =
     (case m of
        None \<Rightarrow> (media_status_new\<lparr>mst_state := MpFaulted, mst_last_error := ''media player is unavailable''\<rparr>, m)
      | Some p \<Rightarrow> map_prod id Some (mo_status ops p))"

text \<open>Without a player an operation returns false and leaves the caller's error text, which is empty, as it is.\<close>

definition service_op :: "'s media_op \<Rightarrow> 's option media_op" where
  "service_op f m = (case m of None \<Rightarrow> (Inl [], m) | Some p \<Rightarrow> map_prod id Some (f p))"

definition service_play :: "'s media_ops \<Rightarrow> string \<Rightarrow> 's option media_op" where
  "service_play ops track_id = service_op (mo_play ops track_id)"

definition service_pause :: "'s media_ops \<Rightarrow> 's option media_op" where
  "service_pause ops = service_op (mo_pause ops)"

definition service_resume :: "'s media_ops \<Rightarrow> 's option media_op" where
  "service_resume ops = service_op (mo_resume ops)"

definition service_stop :: "'s media_ops \<Rightarrow> 's option media_op" where
  "service_stop ops = service_op (mo_stop ops)"

definition service_next :: "'s media_ops \<Rightarrow> 's option media_op" where
  "service_next ops = service_op (mo_next ops)"

section \<open>The handlers\<close>

datatype media_proto_state = MpsUnspecified | MpsUnavailable | MpsStopped | MpsPlaying | MpsPaused | MpsFaulted
datatype health_state = HsUnspecified | HsOk | HsDegraded | HsFaulted | HsDisabled | HsUnknown

record service_health =
  sh_service_name :: string
  sh_state :: health_state
  sh_message :: string
  sh_last_error :: string
  sh_checked_at_ms :: int

record media_response =
  mr_state :: media_proto_state
  mr_current_track_id :: string
  mr_title :: string
  mr_artist :: string
  mr_duration_ms :: u64
  mr_position_ms :: u64
  mr_last_error :: string
  mr_health :: service_health

fun to_proto_state :: "media_state \<Rightarrow> media_proto_state" where
  "to_proto_state MpUnavailable = MpsUnavailable"
| "to_proto_state MpStopped = MpsStopped"
| "to_proto_state MpPlaying = MpsPlaying"
| "to_proto_state MpPaused = MpsPaused"
| "to_proto_state MpFaulted = MpsFaulted"

definition fill_health :: "int \<Rightarrow> media_status \<Rightarrow> service_health" where
  "fill_health wall_ms s =
     (let h = \<lparr> sh_service_name = ''media-service'', sh_state = HsOk, sh_message = ''media service online'',
            sh_last_error = mst_last_error s, sh_checked_at_ms = wall_ms \<rparr>
      in if mst_state s = MpFaulted then
           h\<lparr>sh_state := HsFaulted, sh_message := if mst_last_error s = [] then ''media service faulted'' else mst_last_error s\<rparr>
         else if mst_state s = MpUnavailable then h\<lparr>sh_state := HsDisabled, sh_message := ''media backend disabled''\<rparr>
         else h)"

definition fill_status :: "int \<Rightarrow> media_status \<Rightarrow> media_response" where
  "fill_status wall_ms s = \<lparr> mr_state = to_proto_state (mst_state s), mr_current_track_id = mst_current_track_id s,
     mr_title = mst_title s, mr_artist = mst_artist s, mr_duration_ms = mst_duration_ms s, mr_position_ms = mst_position_ms s,
     mr_last_error = mst_last_error s, mr_health = fill_health wall_ms s \<rparr>"

datatype grpc_status = GrpcOk | GrpcInvalidArgument string | GrpcFailedPrecondition string

type_synonym 's media_rpc = "'s option \<Rightarrow> grpc_status \<times> media_response \<times> 's option"

text \<open>The end of every handler: the status of the service goes into the response.\<close>

definition answer :: "'s media_ops \<Rightarrow> int \<Rightarrow> grpc_status \<Rightarrow> 's media_rpc" where
  "answer ops wall_ms g m = (case service_status ops m of (s, m') \<Rightarrow> (g, fill_status wall_ms s, m'))"

definition handle :: "'s media_ops \<Rightarrow> 's option media_op \<Rightarrow> int \<Rightarrow> 's media_rpc" where
  "handle ops f wall_ms m =
     (case f m of
        (Inl e, m') \<Rightarrow> answer ops wall_ms (GrpcFailedPrecondition e) m'
      | (Inr _, m') \<Rightarrow> answer ops wall_ms GrpcOk m')"

definition handle_play :: "'s media_ops \<Rightarrow> string \<Rightarrow> int \<Rightarrow> 's media_rpc" where
  "handle_play ops track_id wall_ms m =
     (if track_id = [] then answer ops wall_ms (GrpcInvalidArgument ''media track id must not be empty'') m
      else handle ops (service_play ops track_id) wall_ms m)"

definition handle_pause :: "'s media_ops \<Rightarrow> int \<Rightarrow> 's media_rpc" where
  "handle_pause ops = handle ops (service_pause ops)"

definition handle_resume :: "'s media_ops \<Rightarrow> int \<Rightarrow> 's media_rpc" where
  "handle_resume ops = handle ops (service_resume ops)"

definition handle_stop :: "'s media_ops \<Rightarrow> int \<Rightarrow> 's media_rpc" where
  "handle_stop ops = handle ops (service_stop ops)"

definition handle_next :: "'s media_ops \<Rightarrow> int \<Rightarrow> 's media_rpc" where
  "handle_next ops = handle ops (service_next ops)"

definition handle_get_status :: "'s media_ops \<Rightarrow> int \<Rightarrow> 's media_rpc" where
  "handle_get_status ops wall_ms m = answer ops wall_ms GrpcOk m"

definition handle_list_tracks :: "'s media_ops \<Rightarrow> 's option \<Rightarrow> media_track list" where
  "handle_list_tracks ops m = service_list_tracks ops m"

lemmas service_defs [step_defs] = service_play_def service_pause_def service_resume_def service_stop_def service_next_def
  service_op_def
lemmas handler_defs = handle_pause_def handle_resume_def handle_stop_def handle_next_def handle_get_status_def

lemma to_proto_state_inject [simp]: "to_proto_state a = to_proto_state b \<longleftrightarrow> a = b"
  by (cases a; cases b) simp_all

lemma to_proto_state_eq [simp]:
  "to_proto_state s = MpsPlaying \<longleftrightarrow> s = MpPlaying" "to_proto_state s = MpsPaused \<longleftrightarrow> s = MpPaused"
  "to_proto_state s = MpsStopped \<longleftrightarrow> s = MpStopped" "to_proto_state s = MpsUnavailable \<longleftrightarrow> s = MpUnavailable"
  "to_proto_state s = MpsFaulted \<longleftrightarrow> s = MpFaulted" "to_proto_state s \<noteq> MpsUnspecified"
  by (cases s; simp)+

lemma service_op_iff:
  "service_op f m = (r, m') \<longleftrightarrow> m = None \<and> r = Inl [] \<and> m' = None \<or> (\<exists>p p'. m = Some p \<and> f p = (r, p') \<and> m' = Some p')"
  by (cases m; cases "f (the m)") (auto simp: service_op_def)

section \<open>The state behind a response\<close>

text \<open>The state of the service: that of its player, a fault without one.\<close>

definition service_state :: "('s \<Rightarrow> media_state) \<Rightarrow> 's option \<Rightarrow> media_state" where
  "service_state st m = (case m of None \<Rightarrow> MpFaulted | Some p \<Rightarrow> st p)"

lemma service_state_simps [simp]: "service_state st None = MpFaulted" "service_state st (Some p) = st p"
  by (simp_all add: service_state_def)

context media_player
begin

lemma answer_state:
  assumes "answer ops w g m = (g', r, m')"
  shows "g' = g" "mr_state r = to_proto_state (service_state st m')"
    and "service_state st m' = service_state st m \<or> service_state st m' = MpStopped \<or> service_state st m' = MpFaulted"
    and "m' = None \<longleftrightarrow> m = None"
proof -
  show "g' = g" using assms by (auto simp: answer_def split: prod.splits)
  have "mr_state r = to_proto_state (service_state st m') \<and>
    (service_state st m' = service_state st m \<or> service_state st m' = MpStopped \<or> service_state st m' = MpFaulted) \<and>
    (m' = None \<longleftrightarrow> m = None)"
  proof (cases m)
    case None
    then show ?thesis using assms by (auto simp: answer_def service_status_def fill_status_def)
  next
    case (Some p)
    obtain s p' where "mo_status ops p = (s, p')" by fastforce
    with Some assms status_reports [OF this] show ?thesis by (auto simp: answer_def service_status_def fill_status_def)
  qed
  then show "mr_state r = to_proto_state (service_state st m')"
    "service_state st m' = service_state st m \<or> service_state st m' = MpStopped \<or> service_state st m' = MpFaulted"
    "m' = None \<longleftrightarrow> m = None"
    by blast+
qed

lemma handle_response:
  assumes "handle ops f w m = (g, r, m')"
  shows "mr_state r = to_proto_state (service_state st m')"
  using assms answer_state(2) by (auto simp: handle_def split: prod.splits sum.splits)

lemma handle_pause_state:
  assumes "handle_pause ops w m = (g, r, m')"
  shows "g = GrpcOk \<Longrightarrow> service_state st m = MpPlaying"
    and "service_state st m' \<in> {service_state st m, MpPaused, MpStopped, MpFaulted}"
    and "mr_state r = to_proto_state (service_state st m')"
proof -
  obtain x m1 where x: "service_pause ops m = (x, m1)" by fastforce
  obtain g0 where a: "answer ops w g0 m1 = (g, r, m')" "x = Inl e \<Longrightarrow> g0 = GrpcFailedPrecondition e" "x = Inr u \<Longrightarrow> g0 = GrpcOk" for e u
    using assms x by (cases x) (auto simp: handle_pause_def handle_def)
  have p: "(\<exists>u. x = Inr u) \<and> service_state st m = MpPlaying \<and> service_state st m1 = MpPaused \<or>
      (\<exists>e. x = Inl e) \<and> service_state st m1 = service_state st m"
    using x by (cases x) (auto simp: service_pause_def service_op_iff dest: pause_pauses pause_refused)
  show "g = GrpcOk \<Longrightarrow> service_state st m = MpPlaying" using p a answer_state(1) [OF a(1)] by auto
  show "service_state st m' \<in> {service_state st m, MpPaused, MpStopped, MpFaulted}"
    using p answer_state(3) [OF a(1)] by auto
  show "mr_state r = to_proto_state (service_state st m')" by (rule answer_state(2) [OF a(1)])
qed

end

end
