(* ===== verification/Paths.thy ===== *)
theory Paths
  imports Prelude "HOL-Library.Sublist"
begin

text \<open>
  \<open>std::filesystem::path\<close>, as far as the code uses it, on strings and their elements, and the results of functions that
  may fail with an error text. Shared by the components that read and write files.
\<close>

section \<open>Results with an error\<close>

definition sum_bind :: "'e + 'a \<Rightarrow> ('a \<Rightarrow> 'e + 'b) \<Rightarrow> 'e + 'b" where
  "sum_bind r f = (case r of Inl e \<Rightarrow> Inl e | Inr x \<Rightarrow> f x)"

lemma sum_bind_Inr [simp]: "sum_bind r f = Inr y \<longleftrightarrow> (\<exists>x. r = Inr x \<and> f x = Inr y)"
  by (cases r) (simp_all add: sum_bind_def)

definition require :: "bool \<Rightarrow> 'e \<Rightarrow> 'e + unit" where
  "require b e = (if b then Inr () else Inl e)"

lemma require_Inr [simp]: "require b e = Inr u \<longleftrightarrow> b"
  by (simp add: require_def)

section \<open>Paths\<close>

text \<open>The parts between slashes, and the elements that iterating a path yields: the root directory, the names, and an
  empty one for a slash at the end.\<close>

fun split_slash :: "string \<Rightarrow> string list" where
  "split_slash [] = [[]]"
| "split_slash (c # cs) =
     (if c = CHR ''/'' then [] # split_slash cs
      else case split_slash cs of p # ps \<Rightarrow> (c # p) # ps | [] \<Rightarrow> [[c]])"

definition is_absolute :: "string \<Rightarrow> bool" where
  "is_absolute p \<longleftrightarrow> p \<noteq> [] \<and> hd p = CHR ''/''"

definition path_elements :: "string \<Rightarrow> string list" where
  "path_elements p =
     (let names = filter (\<lambda>n. n \<noteq> []) (split_slash p) in
      if p = [] then []
      else (if is_absolute p then [''/''] else []) @ names @ (if last p = CHR ''/'' \<and> names \<noteq> [] then [[]] else []))"

definition path_join :: "string \<Rightarrow> string \<Rightarrow> string" where
  "path_join a b = (if is_absolute b then b else if a = [] \<or> last a = CHR ''/'' then a @ b else a @ ''/'' @ b)"

definition parent_path :: "string \<Rightarrow> string" where
  "parent_path p =
     (case rev (path_elements p) of
        [] \<Rightarrow> []
      | [root] \<Rightarrow> if root = ''/'' then p else []
      | _ # up \<Rightarrow> foldl path_join [] (rev up))"

fun drop_common :: "string list \<Rightarrow> string list \<Rightarrow> string list \<times> string list" where
  "drop_common (a # as) (b # bs) = (if a = b then drop_common as bs else (a # as, b # bs))"
| "drop_common as bs = (as, bs)"

text \<open>\<open>lexically_normal\<close> on elements: dots go, a name and the dot-dot after it go, and a slash stays at the end where one of
  these was last. The stack holds the names so far, the last one first.\<close>

fun normal_names :: "bool \<Rightarrow> string list \<Rightarrow> bool \<Rightarrow> string list \<Rightarrow> string list \<times> bool" where
  "normal_names rooted stack slash [] = (rev stack, slash)"
| "normal_names rooted stack slash (n # ns) =
     (if n = [] \<or> n = ''.'' then normal_names rooted stack True ns
      else if n = ''..'' then
        (case stack of
           [] \<Rightarrow> if rooted then normal_names rooted [] slash ns else normal_names rooted [n] False ns
         | up # rest \<Rightarrow> if up = ''..'' then normal_names rooted (n # stack) False ns else normal_names rooted rest True ns)
      else normal_names rooted (n # stack) False ns)"

definition lexically_normal :: "string list \<Rightarrow> string list" where
  "lexically_normal es =
     (if es = [] then []
      else
        (let rooted = (hd es = ''/''); root = (if rooted then [''/''] else []) in
         case normal_names rooted [] False (if rooted then tl es else es) of (names, slash) \<Rightarrow>
           if names = [] then (if rooted then root else [''.''])
           else root @ names @ (if slash \<and> last names \<noteq> ''..'' then [[]] else [])))"

text \<open>\<open>lexically_relative\<close> on elements: \<open>None\<close> is the empty path.\<close>

definition climb :: "string list \<Rightarrow> int" where
  "climb bs = sum_list (map (\<lambda>b. if b = ''..'' then - 1 else if b = [] \<or> b = ''.'' then 0 else 1) bs)"

definition lexically_relative :: "string list \<Rightarrow> string list \<Rightarrow> string list option" where
  "lexically_relative p base =
     (case drop_common p base of (as, bs) \<Rightarrow>
        if as = [] \<and> bs = [] then Some [''.'']
        else if climb bs < 0 then None
        else if climb bs = 0 \<and> (as = [] \<or> hd as = []) then Some [''.'']
        else Some (replicate (nat (climb bs)) ''..'' @ as))"

section \<open>Their laws\<close>

lemma drop_common_split: "drop_common p base = (as, bs) \<Longrightarrow> \<exists>c. p = c @ as \<and> base = c @ bs"
proof (induction p base arbitrary: as bs rule: drop_common.induct)
  case (1 a as0 b bs0)
  show ?case
  proof (cases "a = b")
    case True
    then obtain c where "as0 = c @ as" "bs0 = c @ bs" using 1 by auto
    with True show ?thesis by (intro exI [of _ "a # c"]) simp
  next
    case False
    with 1 show ?thesis by (intro exI [of _ "[]"]) simp
  qed
qed auto

definition plain_names :: "string list \<Rightarrow> bool" where
  "plain_names = list_all (\<lambda>n. n \<noteq> [] \<and> n \<noteq> ''.'' \<and> n \<noteq> ''..'')"

lemma climb_plain: "plain_names bs \<Longrightarrow> climb bs = int (length bs)"
  by (induction bs) (auto simp: climb_def plain_names_def)

end
