(* ===== verification/Media_Manifest.thy ===== *)
theory Media_Manifest
  imports Media_Player Paths
begin

text \<open>
  \<open>MediaManifest::Load\<close> of \<open>cockpit/hmi/media/media_manifest.cc\<close>: which tracks a manifest may name. The YAML library,
  the file system and OpenSSL are parameters; what \<open>std::filesystem::path\<close> does is written out. An exception the
  function catches is the error text it turns it into.
\<close>

section \<open>The libraries\<close>

datatype yaml = YScalar string | YSeq "yaml list" | YMap "(yaml \<times> yaml) list"

record manifest_env =
  me_load :: "string \<Rightarrow> string + yaml"
  me_as_string :: "yaml option \<Rightarrow> string + string"
  me_as_uint64 :: "yaml option \<Rightarrow> string + u64"
  me_is_regular :: "string \<Rightarrow> string + bool"
  me_is_symlink :: "string \<Rightarrow> string + bool"
  me_canonical :: "string \<Rightarrow> string + string"
  me_sha256 :: "string \<Rightarrow> string + string"

definition yaml_thrown :: "string + 'a \<Rightarrow> string + 'a" where
  "yaml_thrown r = (case r of Inl e \<Rightarrow> Inl (''invalid media manifest: '' @ e) | Inr x \<Rightarrow> Inr x)"

definition fs_thrown :: "string + 'a \<Rightarrow> string + 'a" where
  "fs_thrown r = (case r of Inl e \<Rightarrow> Inl (''invalid media manifest file: '' @ e) | Inr x \<Rightarrow> Inr x)"

lemma thrown_Inr [simp]: "yaml_thrown r = Inr x \<longleftrightarrow> r = Inr x" "fs_thrown r = Inr x \<longleftrightarrow> r = Inr x"
  by (cases r; simp add: yaml_thrown_def fs_thrown_def)+

section \<open>Checks\<close>

definition is_sha256 :: "string \<Rightarrow> bool" where
  "is_sha256 v \<longleftrightarrow> length v = 64 \<and> list_all (\<lambda>c. c \<in> set ''0123456789abcdef'') v"

fun has_dotdot :: "string \<Rightarrow> bool" where
  "has_dotdot (a # b # cs) = (a = CHR ''.'' \<and> b = CHR ''.'' \<or> has_dotdot (b # cs))"
| "has_dotdot cs = False"

definition safe_id_chars :: string where
  "safe_id_chars = ''abcdefghijklmnopqrstuvwxyzABCDEFGHIJKLMNOPQRSTUVWXYZ0123456789_-''"

definition is_safe_id :: "string \<Rightarrow> bool" where
  "is_safe_id v \<longleftrightarrow> \<not> (v = [] \<or> v = ''default_track'' \<or> CHR ''/'' \<in> set v \<or> CHR 0x5C \<in> set v \<or> has_dotdot v) \<and>
     list_all (\<lambda>c. c \<in> set safe_id_chars) v"

fun validate_keys :: "manifest_env \<Rightarrow> (yaml \<times> yaml) list \<Rightarrow> string list \<Rightarrow> string \<Rightarrow> string + unit" where
  "validate_keys env [] allowed path = Inr ()"
| "validate_keys env ((k, v) # entries) allowed path =
     (case k of
        YScalar _ \<Rightarrow>
          sum_bind (yaml_thrown (me_as_string env (Some k))) (\<lambda>key.
            if key \<notin> set allowed then Inl (path @ ''.'' @ key @ '' is not supported'')
            else validate_keys env entries allowed path)
      | _ \<Rightarrow> Inl (path @ '' keys must be scalars''))"

definition yaml_get :: "(yaml \<times> yaml) list \<Rightarrow> string \<Rightarrow> yaml option" where
  "yaml_get entries key = map_of entries (YScalar key)"

text \<open>The walk that looks for a symbolic link on the way to a track.\<close>

fun no_symlinks :: "manifest_env \<Rightarrow> string \<Rightarrow> string list \<Rightarrow> string \<Rightarrow> string + unit" where
  "no_symlinks env current [] ident = Inr ()"
| "no_symlinks env current (c # cs) ident =
     (let here = path_join current c in
      sum_bind (fs_thrown (me_is_symlink env here)) (\<lambda>l.
        if l then Inl (''media manifest path contains a symlink for track '' @ ident) else no_symlinks env here cs ident))"

definition escapes :: "string list option \<Rightarrow> bool" where
  "escapes rel \<longleftrightarrow> (case rel of None \<Rightarrow> True | Some es \<Rightarrow> es \<noteq> [] \<and> (hd es = ''/'' \<or> hd es = ''..''))"

definition check_file :: "manifest_env \<Rightarrow> string \<Rightarrow> string \<Rightarrow> string \<Rightarrow> string \<Rightarrow> string + (string \<times> string)" where
  "check_file env root relative expected ident =
     (let file = path_join root relative in
      sum_bind (no_symlinks env root (path_elements relative) ident) (\<lambda>_.
      sum_bind (fs_thrown (me_is_regular env file)) (\<lambda>regular.
      sum_bind (require regular (''media file is not a regular non-symlink file for track '' @ ident)) (\<lambda>_.
      sum_bind (fs_thrown (me_canonical env file)) (\<lambda>canonical.
      sum_bind (require (\<not> escapes (lexically_relative (path_elements canonical) (path_elements root)))
        (''media file escapes manifest directory for track '' @ ident)) (\<lambda>_.
      case me_sha256 env canonical of
        Inl e \<Rightarrow> Inl (''media file SHA-256 mismatch for track '' @ ident)
      | Inr actual \<Rightarrow> sum_bind (require (actual = expected) (''media file SHA-256 mismatch for track '' @ ident))
          (\<lambda>_. Inr (canonical, actual))))))))"

definition load_track :: "manifest_env \<Rightarrow> string \<Rightarrow> string list \<Rightarrow> yaml \<Rightarrow> string + manifest_track" where
  "load_track env root ids node =
     (case node of
        YMap entries \<Rightarrow>
          (let str = (\<lambda>key. yaml_thrown (me_as_string env (yaml_get entries key))) in
           sum_bind (validate_keys env entries [''id'', ''title'', ''artist'', ''duration_ms'', ''path'', ''sha256'']
             ''media manifest track'') (\<lambda>_.
           sum_bind (str ''id'') (\<lambda>ident.
           sum_bind (str ''title'') (\<lambda>title.
           sum_bind (str ''artist'') (\<lambda>artist.
           sum_bind (yaml_thrown (me_as_uint64 env (yaml_get entries ''duration_ms''))) (\<lambda>duration_ms.
           sum_bind (str ''path'') (\<lambda>relative.
           sum_bind (str ''sha256'') (\<lambda>expected.
           sum_bind (require (is_safe_id ident \<and> ident \<notin> set ids) ''media manifest contains invalid or duplicate track id'') (\<lambda>_.
           sum_bind (require (title \<noteq> [] \<and> artist \<noteq> [] \<and> duration_ms \<noteq> 0)
             (''media manifest metadata must be non-empty for track '' @ ident)) (\<lambda>_.
           sum_bind (require (is_sha256 expected) (''media manifest has invalid SHA-256 for track '' @ ident)) (\<lambda>_.
           sum_bind (require (relative \<noteq> [] \<and> \<not> is_absolute relative)
             (''media manifest path must be relative for track '' @ ident)) (\<lambda>_.
           sum_bind (require (list_all (\<lambda>c. c \<noteq> ''..'' \<and> c \<noteq> ''.'' \<and> c \<noteq> []) (path_elements relative))
             (''media manifest path contains unsafe components for track '' @ ident)) (\<lambda>_.
           sum_bind (check_file env root relative expected ident) (\<lambda>(canonical, actual).
             Inr \<lparr> mf_metadata = \<lparr> mt_id = ident, mt_title = title, mt_artist = artist, mt_duration_ms = duration_ms \<rparr>,
                   mf_file = canonical, mf_sha256 = actual \<rparr>))))))))))))))
      | _ \<Rightarrow> Inl ''media manifest track must be a map'')"

fun load_tracks :: "manifest_env \<Rightarrow> string \<Rightarrow> string list \<Rightarrow> yaml list \<Rightarrow> string + manifest_track list" where
  "load_tracks env root ids [] = Inr []"
| "load_tracks env root ids (n # ns) =
     sum_bind (load_track env root ids n) (\<lambda>t.
     sum_bind (load_tracks env root (mt_id (mf_metadata t) # ids) ns) (\<lambda>ts. Inr (t # ts)))"

definition load_root :: "manifest_env \<Rightarrow> string \<Rightarrow> yaml \<Rightarrow> string + manifest_track list" where
  "load_root env root node =
     (case node of
        YMap entries \<Rightarrow>
          sum_bind (validate_keys env entries [''tracks''] ''media manifest'') (\<lambda>_.
            case yaml_get entries ''tracks'' of
              Some (YSeq nodes) \<Rightarrow>
                if nodes = [] then Inl ''media manifest tracks must be a non-empty sequence''
                else load_tracks env root [] nodes
            | _ \<Rightarrow> Inl ''media manifest tracks must be a non-empty sequence'')
      | _ \<Rightarrow> Inl [])"

definition manifest_load :: "manifest_env \<Rightarrow> string \<Rightarrow> string + manifest_track list" where
  "manifest_load env path =
     sum_bind (fs_thrown (me_is_regular env path)) (\<lambda>regular.
     sum_bind (if regular then fs_thrown (me_is_symlink env path) else Inr True) (\<lambda>bad.
     sum_bind (require (\<not> bad) ''media manifest is not a regular non-symlink file'') (\<lambda>_.
     sum_bind (fs_thrown (me_canonical env path)) (\<lambda>canonical.
     sum_bind (yaml_thrown (me_load env path)) (load_root env (parent_path canonical))))))"

section \<open>What a manifest can name\<close>

lemma case_sum_Inr: "(case r of Inl e \<Rightarrow> Inl (g e) | Inr x \<Rightarrow> f x) = Inr y \<longleftrightarrow> (\<exists>x. r = Inr x \<and> f x = Inr y)"
  by (cases r) simp_all

lemma inside_prefix:
  assumes "\<not> escapes (lexically_relative p base)" "plain_names base"
  shows "prefix base p"
proof -
  obtain as bs where d: "drop_common p base = (as, bs)" by fastforce
  obtain c where c: "p = c @ as" "base = c @ bs" using drop_common_split [OF d] by blast
  have "plain_names bs" using assms(2) c(2) by (simp add: plain_names_def)
  then have n: "climb bs = int (length bs)" by (rule climb_plain)
  have "bs = []"
  proof (rule ccontr)
    assume "bs \<noteq> []"
    then have "lexically_relative p base = Some (replicate (length bs) ''..'' @ as)"
      by (simp add: lexically_relative_def d n)
    with \<open>bs \<noteq> []\<close> assms(1) show False by (cases bs) (simp_all add: escapes_def)
  qed
  then show ?thesis using c by simp
qed

definition good_track :: "manifest_env \<Rightarrow> string \<Rightarrow> manifest_track \<Rightarrow> bool" where
  "good_track env root t \<longleftrightarrow> is_safe_id (mt_id (mf_metadata t)) \<and> mt_duration_ms (mf_metadata t) \<noteq> 0 \<and>
     is_sha256 (mf_sha256 t) \<and> me_sha256 env (mf_file t) = Inr (mf_sha256 t) \<and>
     prefix (path_elements root) (path_elements (mf_file t))"

lemma check_file_good:
  assumes "check_file env root relative expected ident = Inr (file, digest)" "plain_names (path_elements root)"
  shows "digest = expected \<and> me_sha256 env file = Inr digest \<and> prefix (path_elements root) (path_elements file)"
  using assms inside_prefix by (auto simp: check_file_def Let_def case_sum_Inr)

lemma load_track_good:
  assumes "load_track env root ids node = Inr t" "plain_names (path_elements root)"
  shows "good_track env root t \<and> mt_id (mf_metadata t) \<notin> set ids"
proof -
  obtain entries where "node = YMap entries" using assms(1) by (cases node) (auto simp: load_track_def)
  then show ?thesis
    using assms by (auto simp: load_track_def good_track_def Let_def dest!: check_file_good)
qed

lemma load_tracks_good:
  "load_tracks env root ids ns = Inr ts \<Longrightarrow> plain_names (path_elements root) \<Longrightarrow>
     length ts = length ns \<and> list_all (good_track env root) ts \<and> distinct (track_ids ts) \<and> set ids \<inter> set (track_ids ts) = {}"
proof (induction ns arbitrary: ids ts)
  case Nil
  then show ?case by (simp add: track_ids_def)
next
  case (Cons n ns)
  then obtain t us where t: "load_track env root ids n = Inr t"
    "load_tracks env root (mt_id (mf_metadata t) # ids) ns = Inr us" "ts = t # us"
    by auto
  show ?case
    using load_track_good [OF t(1) Cons.prems(2)] Cons.IH [OF t(2) Cons.prems(2)] t(3) by (auto simp: track_ids_def)
qed

lemma tracks_safe:
  assumes "manifest_load env path = Inr tracks" "me_canonical env path = Inr canonical"
    and "plain_names (path_elements (parent_path canonical))"
  shows "tracks \<noteq> [] \<and> distinct (track_ids tracks) \<and> list_all (good_track env (parent_path canonical)) tracks"
proof -
  obtain node where "load_root env (parent_path canonical) node = Inr tracks"
    using assms(1,2) by (auto simp: manifest_load_def)
  then obtain nodes where n: "nodes \<noteq> []" "load_tracks env (parent_path canonical) [] nodes = Inr tracks"
    by (cases node) (auto simp: load_root_def split: yaml.split_asm option.split_asm if_split_asm)
  then show ?thesis using load_tracks_good [OF n(2) assms(3)] by auto
qed

text \<open>
  C30: what a manifest that loads can name: at least one track, with identifiers that differ and are safe, never
  \<open>default_track\<close>, a length, and a file inside the directory of the manifest whose content has the SHA-256 digest the
  manifest gives, provided the library resolves the manifest's own directory to a path without dots.
\<close>

theorem manifest_tracks_safe:
  assumes "manifest_load env path = Inr tracks" "me_canonical env path = Inr canonical"
    and "plain_names (path_elements (parent_path canonical))"
  shows "tracks \<noteq> [] \<and> distinct (track_ids tracks) \<and> list_all (good_track env (parent_path canonical)) tracks"
  using assms by (rule tracks_safe)

text \<open>A file system with one manifest and one track.\<close>

definition sample_digest :: string where
  "sample_digest = replicate 64 (CHR ''a'')"

definition sample_env :: manifest_env where
  "sample_env = \<lparr> me_load = (\<lambda>p. Inr (YMap [(YScalar ''tracks'', YSeq [YMap
       [(YScalar ''id'', YScalar ''song_1''), (YScalar ''title'', YScalar ''Song''), (YScalar ''artist'', YScalar ''Band''),
        (YScalar ''duration_ms'', YScalar ''9''), (YScalar ''path'', YScalar ''a/song.ogg''), (YScalar ''sha256'', YScalar sample_digest)]])])),
     me_as_string = (\<lambda>n. case n of Some (YScalar s) \<Rightarrow> Inr s | _ \<Rightarrow> Inl ''bad conversion''),
     me_as_uint64 = (\<lambda>n. Inr 9), me_is_regular = (\<lambda>p. Inr True), me_is_symlink = (\<lambda>p. Inr False),
     me_canonical = (\<lambda>p. Inr p), me_sha256 = (\<lambda>p. Inr sample_digest) \<rparr>"

lemma sample_digest_ok: "is_sha256 sample_digest"
  by (simp add: is_sha256_def sample_digest_def list_all_iff)

theorem manifest_tracks_safe_witness:
  "\<exists>t. manifest_load sample_env ''/m/list.yaml'' = Inr [t] \<and> prefix [''/'', ''m''] (path_elements (mf_file t))"
proof -
  have p: "parent_path ''/m/list.yaml'' = ''/m''" "path_elements ''/m'' = [''/'', ''m'']"
    by (simp_all add: parent_path_def path_elements_def path_join_def is_absolute_def)
  have rel: "path_elements ''a/song.ogg'' = [''a'', ''song.ogg'']" "path_join ''/m'' ''a/song.ogg'' = ''/m/a/song.ogg''"
    "path_elements ''/m/a/song.ogg'' = [''/'', ''m'', ''a'', ''song.ogg'']"
    by (simp_all add: path_elements_def is_absolute_def path_join_def)
  have track_file: "check_file sample_env ''/m'' ''a/song.ogg'' sample_digest ''song_1'' = Inr (''/m/a/song.ogg'', sample_digest)"
    by (simp add: check_file_def rel p sample_env_def fs_thrown_def require_def sum_bind_def lexically_relative_def escapes_def climb_def)
  have ident: "is_safe_id ''song_1''" by (simp add: is_safe_id_def safe_id_chars_def)
  obtain t where t: "manifest_load sample_env ''/m/list.yaml'' = Inr [t]"
    by (simp add: manifest_load_def load_root_def load_track_def sum_bind_def require_def fs_thrown_def yaml_thrown_def yaml_get_def
        sample_digest_ok is_absolute_def ident rel p track_file [unfolded sample_env_def] sample_env_def)
  have "me_canonical sample_env ''/m/list.yaml'' = Inr ''/m/list.yaml''" by (simp add: sample_env_def)
  moreover have "plain_names (path_elements (parent_path ''/m/list.yaml''))" by (simp add: p plain_names_def)
  ultimately have "list_all (good_track sample_env ''/m'') [t]"
    using manifest_tracks_safe [OF t] by (simp add: p)
  then show ?thesis using t by (simp add: good_track_def p)
qed

section \<open>Making the player\<close>

definition create_gst_player ::
  "manifest_env \<Rightarrow> string \<Rightarrow> string \<Rightarrow> 'g option \<Rightarrow> bool \<Rightarrow> 'g gst_player option" where
  "create_gst_player env path sink pipeline sink_made =
     (case manifest_load env path of
        Inl e \<Rightarrow> None
      | Inr tracks \<Rightarrow>
          if sink \<noteq> ''fakesink'' \<and> sink \<noteq> ''alsasink'' then None
          else (let p = gst_player_new tracks pipeline sink_made in if gp_backend_ready p then Some p else None))"

lemma created_player_shows:
  assumes "create_gst_player env path sink pipeline made = Some p" "me_canonical env path = Inr canonical"
    and "plain_names (path_elements (parent_path canonical))"
  shows "shows_track p \<and> gp_pipeline p \<noteq> None \<and> gp_tracks p \<noteq> []"
proof -
  obtain tracks where t: "manifest_load env path = Inr tracks" "p = gst_player_new tracks pipeline made" "gp_backend_ready p"
    using assms(1) by (auto simp: create_gst_player_def Let_def split: sum.split_asm if_split_asm)
  have "tracks \<noteq> []" "distinct (track_ids tracks)" using tracks_safe [OF t(1) assms(2,3)] by simp_all
  with t(2,3) show ?thesis using gst_new_shows [of tracks pipeline made] by (auto simp: gst_player_new_def Let_def)
qed

end
