(* ===== verification/Audio_Focus.thy ===== *)
theory Audio_Focus
  imports Media_Service
begin

text \<open>
  \<open>cockpit/voice/audio/audio_focus_controller.cc\<close>: while the assistant speaks it pauses the media process, over its
  gRPC interface, and resumes what it paused afterwards. A call may be lost before it reaches the media process or on
  its way back (the deadline of the code), which is an argument of the model; what others do to the media process in
  between is a list of commands.
\<close>

section \<open>Calls\<close>

datatype delivery = Delivered | RequestLost | ReplyLost

text \<open>The caller sees the response of a call that was delivered and ended well.\<close>

definition call :: "delivery \<Rightarrow> 's media_rpc \<Rightarrow> 's option \<Rightarrow> media_response option \<times> 's option" where
  "call d rpc m =
     (case d of
        RequestLost \<Rightarrow> (None, m)
      | ReplyLost \<Rightarrow> (None, snd (snd (rpc m)))
      | Delivered \<Rightarrow> (case rpc m of (g, r, m') \<Rightarrow> (if g = GrpcOk then Some r else None, m')))"

section \<open>The controller\<close>

record audio_focus =
  af_stub :: bool
  af_acquired :: bool
  af_resume_needed :: bool

definition focus_new :: audio_focus where
  "focus_new = \<lparr> af_stub = True, af_acquired = False, af_resume_needed = False \<rparr>"

text \<open>\<open>CreateMediaAudioFocusController\<close> with its timeout in milliseconds.\<close>

definition create_focus :: "string \<Rightarrow> int \<Rightarrow> audio_focus option" where
  "create_focus address timeout_ms = (if address = [] \<or> timeout_ms \<le> 0 \<or> timeout_ms > 1000 then None else Some focus_new)"

definition acquire_tts ::
  "'s media_ops \<Rightarrow> delivery \<Rightarrow> delivery \<Rightarrow> int \<Rightarrow> audio_focus \<Rightarrow> 's option \<Rightarrow> bool \<times> audio_focus \<times> 's option" where
  "acquire_tts ops status_call pause_call wall_ms f m =
     (if \<not> af_stub f \<or> af_acquired f then (False, f, m)
      else
        (case call status_call (handle_get_status ops wall_ms) m of
           (None, m1) \<Rightarrow> (False, f, m1)
         | (Some status, m1) \<Rightarrow>
             (case mr_state status of
                MpsPlaying \<Rightarrow>
                  (case call pause_call (handle_pause ops wall_ms) m1 of
                     (None, m2) \<Rightarrow> (False, f, m2)
                   | (Some paused, m2) \<Rightarrow>
                       if mr_state paused \<noteq> MpsPaused then (False, f, m2)
                       else (True, f\<lparr>af_resume_needed := True, af_acquired := True\<rparr>, m2))
              | MpsPaused \<Rightarrow> (True, f\<lparr>af_acquired := True, af_resume_needed := False\<rparr>, m1)
              | MpsStopped \<Rightarrow> (True, f\<lparr>af_acquired := True, af_resume_needed := False\<rparr>, m1)
              | MpsUnavailable \<Rightarrow> (True, f\<lparr>af_acquired := True, af_resume_needed := False\<rparr>, m1)
              | _ \<Rightarrow> (False, f, m1))))"

definition release_tts :: "'s media_ops \<Rightarrow> delivery \<Rightarrow> int \<Rightarrow> audio_focus \<Rightarrow> 's option \<Rightarrow> audio_focus \<times> 's option" where
  "release_tts ops resume_call wall_ms f m =
     (if \<not> af_acquired f \<or> \<not> af_stub f then (f, m)
      else
        (f\<lparr>af_resume_needed := False, af_acquired := False\<rparr>,
         if af_resume_needed f then snd (call resume_call (handle_resume ops wall_ms) m) else m))"

text \<open>\<open>AudioFocusLease\<close>: without a controller the lease is granted and its end does nothing.\<close>

definition lease ::
  "'s media_ops \<Rightarrow> delivery \<Rightarrow> delivery \<Rightarrow> int \<Rightarrow> audio_focus option \<Rightarrow> 's option \<Rightarrow> bool \<times> audio_focus option \<times> 's option" where
  "lease ops status_call pause_call wall_ms controller m =
     (case controller of
        None \<Rightarrow> (True, None, m)
      | Some f \<Rightarrow> (case acquire_tts ops status_call pause_call wall_ms f m of (ok, f', m') \<Rightarrow> (ok, Some f', m')))"

definition end_lease ::
  "'s media_ops \<Rightarrow> delivery \<Rightarrow> int \<Rightarrow> bool \<Rightarrow> audio_focus option \<Rightarrow> 's option \<Rightarrow> audio_focus option \<times> 's option" where
  "end_lease ops resume_call wall_ms acquired controller m =
     (case controller of
        None \<Rightarrow> (None, m)
      | Some f \<Rightarrow>
          if acquired then (case release_tts ops resume_call wall_ms f m of (f', m') \<Rightarrow> (Some f', m')) else (Some f, m))"

section \<open>Silence\<close>

text \<open>What others ask of the player without starting it.\<close>

definition silent_cmd :: "media_cmd \<Rightarrow> bool" where
  "silent_cmd c = (case c of McPlay _ \<Rightarrow> False | McResume \<Rightarrow> False | _ \<Rightarrow> True)"

context media_player
begin

lemma silent_run:
  "list_all silent_cmd cs \<Longrightarrow> st p \<noteq> MpPlaying \<Longrightarrow> st (snd (run_cmds ops cs p)) \<noteq> MpPlaying"
proof (induction cs arbitrary: p)
  case (Cons c cs)
  obtain r p1 where r: "run_cmd ops c p = (r, p1)" by fastforce
  have "st p1 \<noteq> MpPlaying"
  proof (cases c)
    case McStatus
    obtain s where "mo_status ops p = (s, p1)" using r McStatus by (cases "mo_status ops p") (auto simp: run_cmd_def)
    then show ?thesis using status_reports Cons.prems(2) by force
  next
    case McPause
    then show ?thesis using r Cons.prems(2) pause_pauses pause_refused by (cases r) (fastforce simp: run_cmd_def)+
  next
    case McStop
    then show ?thesis using r Cons.prems(2) stop_stops stop_refused by (cases r) (fastforce simp: run_cmd_def)+
  next
    case McNext
    then show ?thesis using r Cons.prems(2) next_keeps next_refused by (cases r) (fastforce simp: run_cmd_def)+
  qed (use Cons.prems in \<open>simp_all add: silent_cmd_def\<close>)
  then show ?case using Cons.IH [of p1] Cons.prems(1) r by (simp split: prod.splits) (metis snd_conv)
qed simp

lemma acquired_state:
  assumes "acquire_tts ops ds dp w f m = (True, f', m')"
  shows "service_state st m' \<in> {MpPaused, MpStopped, MpUnavailable}" "af_acquired f'"
    and "service_state st m \<noteq> MpPlaying \<Longrightarrow> \<not> af_resume_needed f'"
proof -
  obtain r m1 where c: "call ds (handle_get_status ops w) m = (Some r, m1)"
    using assms by (auto simp: acquire_tts_def split: if_splits prod.splits option.splits)
  have a: "answer ops w GrpcOk m = (GrpcOk, r, m1)"
    using c by (auto simp: call_def handle_get_status_def answer_def split: delivery.splits prod.splits if_splits)
  note s = answer_state(2,3) [OF a]
  show "af_acquired f'"
    using assms by (auto simp: acquire_tts_def split: if_splits prod.splits option.splits media_proto_state.splits)
  show "\<not> af_resume_needed f'" if "service_state st m \<noteq> MpPlaying"
    using assms c that s by (auto simp: acquire_tts_def split: if_splits prod.splits option.splits media_proto_state.splits)
  show "service_state st m' \<in> {MpPaused, MpStopped, MpUnavailable}"
  proof (cases "mr_state r = MpsPlaying")
    case True
    then obtain q where q: "call dp (handle_pause ops w) m1 = (Some q, m')" "mr_state q = MpsPaused"
      using assms c by (auto simp: acquire_tts_def split: if_splits prod.splits option.splits)
    then obtain g where "handle_pause ops w m1 = (g, q, m')"
      by (auto simp: call_def split: delivery.splits prod.splits if_splits)
    from handle_pause_state(3) [OF this] q(2) have "to_proto_state (service_state st m') = MpsPaused" by metis
    then show ?thesis by simp
  next
    case False
    then have "m' = m1" "mr_state r \<in> {MpsPaused, MpsStopped, MpsUnavailable}"
      using assms c by (auto simp: acquire_tts_def split: if_splits media_proto_state.splits)
    with s(1) show ?thesis by auto
  qed
qed

end

section \<open>Properties\<close>

lemma call_none: "call d (handle ops (service_op f) w) None = (r, m') \<Longrightarrow> m' = None"
  by (auto simp: call_def handle_def service_op_def answer_def service_status_def split: delivery.splits if_splits)

text \<open>
  C29: while the assistant has the focus there is no music. For every player that keeps the promises of its interface and
  whatever calls get lost, a granted lease leaves the player not playing, and it stays so as long as nobody starts it.
\<close>

theorem focus_silences_media:
  assumes "media_player ops st" "acquire_tts ops ds dp w f m = (True, f', m')" "list_all silent_cmd cs"
  shows "\<exists>p. m' = Some p \<and> st p \<noteq> MpPlaying \<and> st (snd (run_cmds ops cs p)) \<noteq> MpPlaying"
proof -
  have s: "service_state st m' \<in> {MpPaused, MpStopped, MpUnavailable}"
    by (rule media_player.acquired_state(1) [OF assms(1,2)])
  then obtain p where p: "m' = Some p" "st p \<noteq> MpPlaying" by (cases m') auto
  with media_player.silent_run [OF assms(1,3), of p] show ?thesis by blast
qed

theorem focus_silences_media_witness:
  "case acquire_tts mock_media Delivered Delivered 7 focus_new (Some (snd (mock_play ''default_track'' mock_player_new))) of
     (ok, f', m') \<Rightarrow> ok \<and> (\<exists>p. m' = Some p \<and> mst_state (mk_status (snd (run_cmds mock_media [McNext, McStatus] p))) \<noteq> MpPlaying)"
proof -
  let ?m = "Some (snd (mock_play ''default_track'' mock_player_new))"
  let ?r = "acquire_tts mock_media Delivered Delivered 7 focus_new ?m"
  have "fst ?r"
    by (simp add: acquire_tts_def focus_new_def call_def handler_defs answer_def handle_def service_status_def mock_media_def
        fill_status_def service_pause_def service_op_def mock_play_def mock_pause_def Let_def mock_tracks_def)
  then obtain f' m' where r: "?r = (True, f', m')" by (cases ?r) auto
  have "list_all silent_cmd [McNext, McStatus]" by (simp add: silent_cmd_def)
  from focus_silences_media [OF mock.media_player_axioms r this] r show ?thesis by auto
qed

text \<open>
  The assistant never starts music that it did not pause. A lease taken while nothing played, however its calls went,
  leaves the player alone when it ends, whatever anyone did with the player in the meantime.
\<close>

theorem release_resumes_own_pause_only:
  assumes "media_player ops st" "service_state st m \<noteq> MpPlaying"
    and "acquire_tts ops ds dp w f m = (ok, f', m')" "\<not> af_acquired f" "\<not> af_resume_needed f"
  shows "snd (release_tts ops dr w' f' m'') = m''"
proof (cases ok)
  case True
  then show ?thesis
    using media_player.acquired_state(3) [OF assms(1)] assms(2,3) by (auto simp: release_tts_def)
next
  case False
  then have "f' = f" using assms(3)
    by (auto simp: acquire_tts_def split: if_splits prod.splits option.splits media_proto_state.splits)
  then show ?thesis using assms(4) by (simp add: release_tts_def)
qed

theorem release_resumes_own_pause_only_witness:
  "snd (release_tts mock_media Delivered 9 (fst (snd (acquire_tts mock_media Delivered ReplyLost 7 focus_new (Some mock_player_new))))
     (Some (snd (mock_pause (snd (mock_play ''default_track'' mock_player_new))))))
   = Some (snd (mock_pause (snd (mock_play ''default_track'' mock_player_new))))"
proof -
  obtain ok f' m' where a: "acquire_tts mock_media Delivered ReplyLost 7 focus_new (Some mock_player_new) = (ok, f', m')"
    by (metis prod_cases3)
  have "service_state (\<lambda>p. mst_state (mk_status p)) (Some mock_player_new) \<noteq> MpPlaying" by (simp add: mock_player_new_def)
  moreover have "\<not> af_acquired focus_new" "\<not> af_resume_needed focus_new" by (simp_all add: focus_new_def)
  ultimately show ?thesis using release_resumes_own_pause_only [OF mock.media_player_axioms _ a] by (simp add: a)
qed

text \<open>
  With calls that arrive, speaking leaves no trace: over the mock player, in whatever state but a fault it is, the lease
  is granted, and after it the controller and the player are exactly as before.
\<close>

theorem focus_restores_media:
  assumes "mst_state (mk_status p) \<noteq> MpFaulted"
  shows "case acquire_tts mock_media Delivered Delivered w focus_new (Some p) of
    (ok, f', m') \<Rightarrow> ok \<and> release_tts mock_media Delivered w' f' m' = (focus_new, Some p)"
  using assms
  by (cases "mst_state (mk_status p)")
    (simp_all add: acquire_tts_def release_tts_def focus_new_def call_def handler_defs answer_def handle_def service_status_def
      mock_media_def fill_status_def service_pause_def service_resume_def service_op_def mock_pause_def mock_resume_def)

theorem focus_restores_media_witness:
  "case acquire_tts mock_media Delivered Delivered 1 focus_new (Some mock_player_new) of
    (ok, f', m') \<Rightarrow> ok \<and> release_tts mock_media Delivered 2 f' m' = (focus_new, Some mock_player_new)"
  using focus_restores_media [of mock_player_new 2 1] by (simp add: mock_player_new_def media_status_new_def)

text \<open>
  A pause whose reply misses the deadline silences the music for good: the player is paused, the lease is refused, and
  no end of a lease ever resumes it.
\<close>

theorem lost_pause_reply_stays_paused:
  assumes "mst_state (mk_status p) = MpPlaying"
  shows "\<exists>q. acquire_tts mock_media Delivered ReplyLost w focus_new (Some p) = (False, focus_new, Some q) \<and>
    mst_state (mk_status q) = MpPaused \<and> release_tts mock_media d w' focus_new (Some q) = (focus_new, Some q)"
  using assms
  by (simp add: acquire_tts_def release_tts_def focus_new_def call_def handler_defs answer_def handle_def service_status_def
      mock_media_def fill_status_def service_pause_def service_op_def mock_pause_def)

theorem lost_pause_reply_stays_paused_witness:
  "\<exists>q. acquire_tts mock_media Delivered ReplyLost 1 focus_new (Some (snd (mock_play ''default_track'' mock_player_new))) =
     (False, focus_new, Some q) \<and> mst_state (mk_status q) = MpPaused"
  using lost_pause_reply_stays_paused [of "snd (mock_play ''default_track'' mock_player_new)" 1]
  by (auto simp: mock_play_def Let_def mock_tracks_def)

end
