(* ===== verification/Upgrade_Version.thy ===== *)
theory Upgrade_Version
  imports Paths "HOL-Library.List_Lexorder"
begin

text \<open>
  The versions and names of \<open>cockpit/upgrader/runtime/upgrade_transaction.cc\<close>: what a version is, how two are compared,
  which link targets and which paths of a checksum manifest are safe, and the environment of a child process. Semantic
  versions are a linear order here, the order that \<open>CompareSemanticVersions\<close> computes.
\<close>

section \<open>Versions\<close>

definition is_valid_version :: "string \<Rightarrow> bool" where
  "is_valid_version version \<longleftrightarrow> version \<noteq> [] \<and> list_all (\<lambda>c. is_alnum c \<or> c \<in> set ''._-'') version"

datatype semantic_version = SemanticVersion (sv_core: "u64 list")

text \<open>The value of one component, with the test that keeps it from wrapping.\<close>

fun parse_component :: "u64 \<Rightarrow> string \<Rightarrow> u64 option" where
  "parse_component number [] = Some number"
| "parse_component number (c # cs) =
     (let digit = word_of_nat (code c) - 48 in
      if number > (- 1 - digit) div 10 then None else parse_component (number * 10 + digit) cs)"

text \<open>The loop over the components of the text, which stops at the first one that is not a number.\<close>

function parse_core :: "string \<Rightarrow> u64 list option" where
  "parse_core value =
     (let component = takeWhile (\<lambda>c. c \<noteq> CHR ''.'') value; rest = dropWhile (\<lambda>c. c \<noteq> CHR ''.'') value in
      if component = [] \<or> \<not> list_all is_digit component then None
      else
        (case parse_component 0 component of
           None \<Rightarrow> None
         | Some number \<Rightarrow> if rest = [] then Some [number] else map_option ((#) number) (parse_core (tl rest))))"
  by auto
termination
proof (relation "measure length")
  fix v component rest :: string and number :: u64
  assume r: "rest = dropWhile (\<lambda>c. c \<noteq> CHR ''.'') v" "rest \<noteq> []"
  have "length rest \<le> length v" unfolding r(1) by (rule length_dropWhile_le)
  with r(2) show "(tl rest, v) \<in> measure length" by (cases rest) auto
qed simp

declare parse_core.simps [simp del]

definition parse_semantic_version :: "string \<Rightarrow> semantic_version option" where
  "parse_semantic_version value =
     (if CHR ''-'' \<in> set value \<or> value = [] then None
      else
        (case parse_core value of
           None \<Rightarrow> None
         | Some core \<Rightarrow> if length core \<noteq> 3 then None else Some (SemanticVersion core)))"

fun lexicographical_compare :: "u64 list \<Rightarrow> u64 list \<Rightarrow> bool" where
  "lexicographical_compare [] ys = (ys \<noteq> [])"
| "lexicographical_compare (x # xs) [] = False"
| "lexicographical_compare (x # xs) (y # ys) =
     (if x < y then True else if y < x then False else lexicographical_compare xs ys)"

definition compare_semantic_versions :: "semantic_version \<Rightarrow> semantic_version \<Rightarrow> int" where
  "compare_semantic_versions left right =
     (if sv_core left \<noteq> sv_core right
      then (if lexicographical_compare (sv_core left) (sv_core right) then - 1 else 1)
      else 0)"

section \<open>The order of versions\<close>

lemma lexicographical_compare_less: "lexicographical_compare xs ys \<longleftrightarrow> xs < ys"
proof (induction xs ys rule: lexicographical_compare.induct)
  case (1 ys)
  then show ?case by (cases ys) simp_all
qed auto

instantiation semantic_version :: linorder
begin

definition less_semantic_version :: "semantic_version \<Rightarrow> semantic_version \<Rightarrow> bool" where
  "less_semantic_version v w \<longleftrightarrow> sv_core v < sv_core w"

definition less_eq_semantic_version :: "semantic_version \<Rightarrow> semantic_version \<Rightarrow> bool" where
  "less_eq_semantic_version v w \<longleftrightarrow> sv_core v \<le> sv_core w"

instance
  by standard (auto simp: less_semantic_version_def less_eq_semantic_version_def intro: semantic_version.expand)

end

lemma compare_versions_order:
  "compare_semantic_versions v w < 0 \<longleftrightarrow> v < w"
  "compare_semantic_versions v w = 0 \<longleftrightarrow> v = w"
  "compare_semantic_versions v w \<le> 0 \<longleftrightarrow> v \<le> w"
  by (auto simp: compare_semantic_versions_def less_semantic_version_def less_eq_semantic_version_def
      lexicographical_compare_less intro: semantic_version.expand)

section \<open>Names and paths\<close>

definition is_safe_release_target :: "string \<Rightarrow> bool" where
  "is_safe_release_target path \<longleftrightarrow>
     \<not> (is_absolute path \<or> lexically_normal (path_elements path) \<noteq> path_elements path) \<and>
     (case path_elements path of [part, version] \<Rightarrow> part = ''releases'' \<and> is_valid_version version | _ \<Rightarrow> False)"

definition is_safe_manifest_path :: "string \<Rightarrow> bool" where
  "is_safe_manifest_path value \<longleftrightarrow>
     \<not> (value = [] \<or> is_absolute value \<or> lexically_normal (path_elements value) \<noteq> path_elements value) \<and>
     (case path_elements value of
        [] \<Rightarrow> False
      | directory # _ \<Rightarrow> directory \<in> {''release'', ''config'', ''systemd'', ''deploy'', ''manifest''})"

definition checksum_line_ok :: "string \<Rightarrow> bool" where
  "checksum_line_ok line \<longleftrightarrow>
     \<not> (length line < 67 \<or> line ! 64 \<noteq> CHR '' '' \<or> line ! 65 \<noteq> CHR '' '' \<and> line ! 65 \<noteq> CHR ''*'' \<or>
        \<not> list_all is_hex_digit (take 64 line))"

fun checksum_lines :: "bool \<Rightarrow> bool \<Rightarrow> nat \<Rightarrow> string list \<Rightarrow> string + (bool \<times> bool \<times> nat)" where
  "checksum_lines has_version has_installer entries [] = Inr (has_version, has_installer, entries)"
| "checksum_lines has_version has_installer entries (line # lines) =
     (if \<not> checksum_line_ok line then Inl ''invalid SHA256SUMS line''
      else
        (let path = drop 66 line in
         if \<not> is_safe_manifest_path path then Inl (''unsafe path in SHA256SUMS: '' @ path)
         else checksum_lines (has_version \<or> path = ''manifest/VERSION'') (has_installer \<or> path = ''deploy/install.sh'')
                (entries + 1) lines))"

text \<open>The manifest as its stream gives it: the lines, and whether reading ended in an error; \<open>None\<close> is a file that does
  not open.\<close>

definition validate_checksum_manifest :: "(string list \<times> bool) option \<Rightarrow> string + unit" where
  "validate_checksum_manifest input =
     (case input of
        None \<Rightarrow> Inl ''missing manifest/SHA256SUMS''
      | Some (lines, bad) \<Rightarrow>
          sum_bind (checksum_lines False False 0 lines) (\<lambda>(has_version, has_installer, entries).
          sum_bind (require (\<not> bad) ''failed to read manifest/SHA256SUMS'') (\<lambda>_.
            require (\<not> (entries = 0 \<or> \<not> has_version \<or> \<not> has_installer))
              ''SHA256SUMS must include manifest/VERSION and deploy/install.sh'')))"

section \<open>Child processes\<close>

text \<open>The environment that \<open>RunProcess\<close> gives its child: the inherited one, each named variable replaced.\<close>

fun override_environment :: "string list \<Rightarrow> (string \<times> string) list \<Rightarrow> string list" where
  "override_environment inherited [] = inherited"
| "override_environment inherited ((name, value) # more) =
     override_environment
       (filter (\<lambda>existing. take (length (name @ ''='')) existing \<noteq> name @ ''='') inherited @ [name @ ''='' @ value]) more"

definition spawn_arguments :: "string list \<Rightarrow> string list" where
  "spawn_arguments arguments = [''/usr/bin/setpriv'', ''--pdeathsig'', ''SIGTERM'', ''--''] @ arguments"

text \<open>The wait loop on what it observes: the answer of \<open>waitpid\<close>, whether the caller still runs, and the clock. After a
  cancellation or the deadline the child is killed, and the answer no longer depends on how it ended. An unfinished
  observation is \<open>None\<close>.\<close>

datatype wait_answer = WaExited int | WaSignalled int | WaOther | WaFailed bool | WaRunning

record wait_step =
  ws_answer :: wait_answer
  ws_cancelled :: bool
  ws_now :: int

definition wait_verdict :: "int \<Rightarrow> wait_step \<Rightarrow> int option" where
  "wait_verdict deadline w =
     (case ws_answer w of
        WaExited status \<Rightarrow> Some status
      | WaSignalled signal \<Rightarrow> Some (128 + signal)
      | WaOther \<Rightarrow> Some (- 1)
      | WaFailed interrupted \<Rightarrow>
          if \<not> interrupted then Some (- 1)
          else if ws_cancelled w then Some (- 3) else if ws_now w \<ge> deadline then Some (- 2) else None
      | WaRunning \<Rightarrow> if ws_cancelled w then Some (- 3) else if ws_now w \<ge> deadline then Some (- 2) else None)"

fun wait_loop :: "int \<Rightarrow> wait_step list \<Rightarrow> int option" where
  "wait_loop deadline [] = None"
| "wait_loop deadline (w # ws) = (case wait_verdict deadline w of Some r \<Rightarrow> Some r | None \<Rightarrow> wait_loop deadline ws)"

definition run_process :: "string list \<Rightarrow> int \<Rightarrow> bool \<Rightarrow> int \<Rightarrow> wait_step list \<Rightarrow> int option" where
  "run_process arguments timeout spawned start steps =
     (if arguments = [] \<or> timeout \<le> 0 then Some (- 1)
      else if \<not> spawned then Some (- 1)
      else wait_loop (start + timeout) steps)"

text \<open>The health loop: each round gives the clock before the command, its exit code and the clock after the pause.\<close>

fun health_rounds :: "int \<Rightarrow> (int \<times> (int \<Rightarrow> int) \<times> int) list \<Rightarrow> bool option" where
  "health_rounds deadline [] = None"
| "health_rounds deadline ((before, command, after_pause) # rounds) =
     (let remaining = deadline - before in
      if remaining \<le> 0 then Some False
      else if command (min remaining 30000) = 0 then Some True
      else if after_pause < deadline then health_rounds deadline rounds
      else Some False)"

definition wait_for_upgrade_health ::
  "bool \<Rightarrow> int \<Rightarrow> int \<Rightarrow> (int \<times> (int \<Rightarrow> int) \<times> int) list \<Rightarrow> (string + unit) option" where
  "wait_for_upgrade_health executable timeout_seconds start rounds =
     (if timeout_seconds \<le> 0 \<or> \<not> executable
      then Some (Inl ''health command must be an executable file and timeout must be positive'')
      else map_option (\<lambda>ok. require ok ''new release did not become healthy before timeout'')
             (health_rounds (start + timeout_seconds * 1000) rounds))"

section \<open>Numbers\<close>

text \<open>The value of a row of digits, unbounded.\<close>

fun decimal :: "nat \<Rightarrow> string \<Rightarrow> nat" where
  "decimal n [] = n"
| "decimal n (c # cs) = decimal (n * 10 + (code c - 48)) cs"

lemma decimal_grows: "n \<le> decimal n cs"
proof (induction cs arbitrary: n)
  case (Cons c cs)
  have "n \<le> n * 10 + (code c - 48)" by simp
  also have "\<dots> \<le> decimal (n * 10 + (code c - 48)) cs" by (rule Cons)
  finally show ?case by simp
qed simp

lemma digit_word:
  assumes "is_digit c"
  shows "unat (word_of_nat (code c) - 48 :: u64) = code c - 48" "code c - 48 \<le> 9"
proof -
  have c: "48 \<le> code c" "code c \<le> 57" using assms by (simp_all add: is_digit_def)
  have u: "unat (word_of_nat (code c) :: u64) = code c" using c by (simp add: unat_of_nat take_bit_nat_eq_self_iff)
  have "(48 :: u64) \<le> word_of_nat (code c)" using c u by (simp add: word_le_nat_alt)
  then show "unat (word_of_nat (code c) - 48 :: u64) = code c - 48" by (simp add: unat_sub u)
  show "code c - 48 \<le> 9" using c by simp
qed

lemma unat_neg_one: "unat (- 1 :: u64) = 2 ^ 64 - 1"
  by (simp add: unsigned_minus_1_eq_mask mask_eq_exp_minus_1)

lemma number_overflows:
  assumes "unat (d :: u64) \<le> 9"
  shows "n > (- 1 - d) div 10 \<longleftrightarrow> 2 ^ 64 \<le> unat n * 10 + unat d"
proof -
  have "d \<le> - 1" by simp
  then have "unat (- 1 - d) = 2 ^ 64 - 1 - unat d" using unat_sub [of d "- 1"] by (simp add: unat_neg_one)
  then have "unat ((- 1 - d) div 10) = (2 ^ 64 - 1 - unat d) div 10" by (simp add: unat_div_distrib)
  then show ?thesis using assms by (simp add: word_less_nat_alt) linarith
qed

lemma parse_component_decimal:
  assumes "list_all is_digit cs"
  shows "parse_component n cs = (if decimal (unat n) cs < 2 ^ 64 then Some (word_of_nat (decimal (unat n) cs)) else None)"
  using assms
proof (induction cs arbitrary: n)
  case Nil
  show ?case using unsigned_less [of n] by simp
next
  case (Cons c cs)
  let ?d = "word_of_nat (code c) - 48 :: u64" and ?m = "unat n * 10 + (code c - 48)"
  have d: "unat ?d = code c - 48" "unat ?d \<le> 9" using digit_word [of c] Cons.prems by simp_all
  show ?case
  proof (cases "2 ^ 64 \<le> ?m")
    case True
    then have "n > (- 1 - ?d) div 10" using number_overflows [OF d(2), of n] d(1) by simp
    moreover have "2 ^ 64 \<le> decimal ?m cs" using True decimal_grows [of ?m cs] by linarith
    ultimately show ?thesis by (simp add: Let_def)
  next
    case False
    then have fits: "?m < 2 ^ 64" by simp
    have "\<not> n > (- 1 - ?d) div 10" using number_overflows [OF d(2), of n] d(1) False by simp
    moreover have "unat (n * 10 + ?d) = ?m"
    proof -
      have "n * 10 + ?d = word_of_nat (unat n * 10 + unat ?d)" by (simp only: of_nat_add of_nat_mult of_nat_unat ucast_id) simp
      then show ?thesis using fits by (simp only: d(1) unat_of_nat take_bit_nat_eq_self_iff) simp
    qed
    ultimately show ?thesis using Cons.IH [of "n * 10 + ?d"] Cons.prems by (simp add: Let_def)
  qed
qed

text \<open>The parser without its loop: the components between the dots, all of them digits and none too big.\<close>

fun split_dot :: "string \<Rightarrow> string list" where
  "split_dot [] = [[]]"
| "split_dot (c # cs) =
     (if c = CHR ''.'' then [] # split_dot cs
      else case split_dot cs of p # ps \<Rightarrow> (c # p) # ps | [] \<Rightarrow> [[c]])"

definition version_component :: "string \<Rightarrow> bool" where
  "version_component p \<longleftrightarrow> p \<noteq> [] \<and> list_all is_digit p \<and> decimal 0 p < 2 ^ 64"

lemma split_dot_step:
  "split_dot v = takeWhile (\<lambda>c. c \<noteq> CHR ''.'') v #
     (case dropWhile (\<lambda>c. c \<noteq> CHR ''.'') v of [] \<Rightarrow> [] | _ # zs \<Rightarrow> split_dot zs)"
  by (induction v) (auto split: list.split)

lemma parse_core_split:
  "parse_core v =
     (if list_all version_component (split_dot v) then Some (map (\<lambda>p. word_of_nat (decimal 0 p)) (split_dot v)) else None)"
proof (induction v rule: length_induct)
  case (1 v)
  let ?c = "takeWhile (\<lambda>c. c \<noteq> CHR ''.'') v" and ?r = "dropWhile (\<lambda>c. c \<noteq> CHR ''.'') v"
  have tail: "?r = x # zs \<Longrightarrow> length zs < length v" for x zs
    using length_dropWhile_le [of "\<lambda>c. c \<noteq> CHR ''.''" v] by simp
  have head: "?c \<noteq> [] \<and> list_all is_digit ?c \<Longrightarrow>
      parse_component 0 ?c = (if version_component ?c then Some (word_of_nat (decimal 0 ?c)) else None)"
    by (simp add: parse_component_decimal version_component_def)
  have unfold: "parse_core v =
      (if ?c = [] \<or> \<not> list_all is_digit ?c then None
       else case parse_component 0 ?c of None \<Rightarrow> None
            | Some n \<Rightarrow> if ?r = [] then Some [n] else map_option ((#) n) (parse_core (tl ?r)))"
    by (subst parse_core.simps) (simp only: Let_def)
  show ?case
  proof (cases "version_component ?c")
    case False
    then have "parse_core v = None" unfolding unfold by (auto simp: head)
    then show ?thesis using False by (subst split_dot_step) simp
  next
    case True
    then have c: "?c \<noteq> []" "list_all is_digit ?c" by (simp_all add: version_component_def)
    show ?thesis
    proof (cases ?r)
      case Nil
      then show ?thesis using c head True by (simp only: unfold split_dot_step [of v]) simp
    next
      case (Cons x zs)
      then show ?thesis using c head True 1 [rule_format, of zs] tail [OF Cons]
        by (simp only: unfold split_dot_step [of v]) simp
    qed
  qed
qed

lemma split_dot_nonempty [simp]: "split_dot v \<noteq> []"
  by (subst split_dot_step) simp

lemma split_dot_chars: "c \<in> set v \<Longrightarrow> c = CHR ''.'' \<or> (\<exists>p \<in> set (split_dot v). c \<in> set p)"
proof (induction v)
  case (Cons x v)
  obtain p ps where s: "split_dot v = p # ps" using split_dot_nonempty [of v] by (cases "split_dot v") simp_all
  show ?case using Cons unfolding split_dot.simps s by auto
qed simp

lemma component_digits:
  assumes "list_all version_component (split_dot v)" and "c \<in> set v"
  shows "c = CHR ''.'' \<or> is_digit c"
  using split_dot_chars [OF assms(2)] assms(1) unfolding list_all_iff version_component_def by blast

lemma digits_no_dash: "list_all version_component (split_dot v) \<Longrightarrow> CHR ''-'' \<notin> set v"
  using component_digits [of v "CHR ''-''"] by (auto simp: is_digit_def code_def)

lemma empty_component [simp]: "\<not> version_component []"
  by (simp add: version_component_def)

lemma semantic_version_split:
  "parse_semantic_version v =
     (if length (split_dot v) = 3 \<and> list_all version_component (split_dot v)
      then Some (SemanticVersion (map (\<lambda>p. word_of_nat (decimal 0 p)) (split_dot v))) else None)"
proof (cases "v = []")
  case True
  then show ?thesis by (simp add: parse_semantic_version_def)
next
  case False
  then show ?thesis using digits_no_dash [of v] unfolding parse_semantic_version_def parse_core_split
    by (cases "list_all version_component (split_dot v)") simp_all
qed

lemma map_less_list:
  assumes "\<And>x y. x \<in> set xs \<Longrightarrow> y \<in> set ys \<Longrightarrow> f x < f y \<longleftrightarrow> g x < (g y :: nat)"
    and "\<And>x y. x \<in> set xs \<Longrightarrow> y \<in> set ys \<Longrightarrow> f x = (f y :: u64) \<longleftrightarrow> g x = g y"
  shows "map f xs < map f ys \<longleftrightarrow> map g xs < map g ys"
  using assms by (induction xs ys rule: list_induct2') auto

lemma version_order_numeric:
  assumes "parse_semantic_version v = Some s" and "parse_semantic_version w = Some t"
  shows "s < t \<longleftrightarrow> map (decimal 0) (split_dot v) < map (decimal 0) (split_dot w)"
proof -
  have v: "list_all version_component (split_dot v)" "sv_core s = map (\<lambda>p. word_of_nat (decimal 0 p)) (split_dot v)"
    and w: "list_all version_component (split_dot w)" "sv_core t = map (\<lambda>p. word_of_nat (decimal 0 p)) (split_dot w)"
    using assms by (auto simp: semantic_version_split split: if_splits)
  have small: "unat (word_of_nat (decimal 0 p) :: u64) = decimal 0 p" if "version_component p" for p
    using that by (simp add: version_component_def unat_of_nat take_bit_nat_eq_self_iff)
  show ?thesis
    unfolding less_semantic_version_def v(2) w(2)
    by (rule map_less_list) (use v(1) w(1) small in \<open>auto simp: list_all_iff word_less_nat_alt dest: arg_cong [where f = unat]\<close>)
qed

text \<open>
  \<open>CompareSemanticVersions\<close> on two accepted versions is the comparison of their three numbers as unbounded naturals, from
  left to right: the test against overflow in the parser leaves no version whose value wraps, so a large component cannot
  pass for a small one.
\<close>

theorem versions_compare_as_numbers:
  assumes "parse_semantic_version v = Some s" and "parse_semantic_version w = Some t"
  shows "((compare_semantic_versions s t < 0) = (map (decimal 0) (split_dot v) < map (decimal 0) (split_dot w))) \<and>
     length (split_dot v) = 3 \<and> length (split_dot w) = 3"
  using assms version_order_numeric [OF assms]
  by (auto simp: compare_versions_order semantic_version_split split: if_splits)

theorem versions_compare_as_numbers_witness:
  "(compare_semantic_versions (SemanticVersion [1, 9, 0]) (SemanticVersion [1, 10, 0]) < 0) =
     (map (decimal 0) (split_dot ''1.9.0'') < map (decimal 0) (split_dot ''1.10.0''))"
proof -
  have "parse_semantic_version ''1.9.0'' = Some (SemanticVersion [1, 9, 0])"
    "parse_semantic_version ''1.10.0'' = Some (SemanticVersion [1, 10, 0])"
    by (simp_all add: semantic_version_split version_component_def is_digit_def code_def)
  from versions_compare_as_numbers [OF this] show ?thesis by blast
qed

section \<open>Release names\<close>

lemma valid_version_chars:
  assumes "is_valid_version v"
  shows "v \<noteq> []" "CHR ''/'' \<notin> set v"
  using assms by (auto simp: is_valid_version_def list_all_iff is_alnum_def is_digit_def code_def)

lemma semantic_version_valid:
  assumes "parse_semantic_version v = Some s"
  shows "is_valid_version v" "v \<noteq> ''.''" "v \<noteq> ''..''"
proof -
  have c: "list_all version_component (split_dot v)" using assms by (auto simp: semantic_version_split split: if_splits)
  have "v \<noteq> []" using c by auto
  then show "is_valid_version v"
    using component_digits [OF c] by (auto simp: is_valid_version_def list_all_iff is_alnum_def)
  show "v \<noteq> ''.''" "v \<noteq> ''..''" using c by auto
qed

lemma split_slash_plain: "CHR ''/'' \<notin> set v \<Longrightarrow> split_slash v = [v]"
  by (induction v) auto

lemma path_elements_release:
  assumes "is_valid_version v"
  shows "path_elements (path_join ''releases'' v) = [''releases'', v]"
proof -
  have "v \<noteq> []" "CHR ''/'' \<notin> set v" "last v \<noteq> CHR ''/''" "hd v \<noteq> CHR ''/''"
    using valid_version_chars [OF assms] last_in_set [of v] hd_in_set [of v] by metis+
  then show ?thesis by (simp add: path_elements_def path_join_def is_absolute_def split_slash_plain)
qed

lemma release_target_safe:
  assumes "is_valid_version v" and "v \<noteq> ''.''" and "v \<noteq> ''..''"
  shows "is_safe_release_target (path_join ''releases'' v)"
proof -
  have "v \<noteq> []" by (rule valid_version_chars [OF assms(1)])
  moreover have "\<not> is_absolute (path_join ''releases'' v)"
    using valid_version_chars [OF assms(1)] by (cases v) (auto simp: path_join_def is_absolute_def)
  ultimately show ?thesis using assms
    by (simp add: is_safe_release_target_def path_elements_release lexically_normal_def)
qed

lemma safe_release_target_name:
  assumes "is_safe_release_target p"
  obtains v where "path_elements p = [''releases'', v]" "is_valid_version v" "v \<noteq> ''.''" "v \<noteq> ''..''"
proof -
  obtain v where v: "path_elements p = [''releases'', v]" "is_valid_version v"
    using assms by (auto simp: is_safe_release_target_def split: list.splits)
  have "lexically_normal [''releases'', v] = [''releases'', v]"
    using assms v by (simp add: is_safe_release_target_def)
  then have "v \<noteq> ''.''" "v \<noteq> ''..''" by (auto simp: lexically_normal_def)
  with v show ?thesis by (rule that)
qed

section \<open>Checksum manifests\<close>

text \<open>A normal path has its dot-dots in front.\<close>

definition dots_first :: "string list \<Rightarrow> bool" where
  "dots_first es \<longleftrightarrow> ''..'' \<notin> set (dropWhile (\<lambda>n. n = ''..'') es)"

lemma dropWhile_split:
  "dropWhile p (xs @ ys) = (if list_all p xs then dropWhile p ys else dropWhile p xs @ ys)"
  by (induction xs) auto

lemma dots_first_cases: "dots_first es \<Longrightarrow> es \<noteq> [] \<Longrightarrow> hd es \<noteq> ''..'' \<Longrightarrow> ''..'' \<notin> set es"
  by (cases es) (simp_all add: dots_first_def)

lemma dots_first_snoc:
  "dots_first (es @ [n]) \<longleftrightarrow> dots_first es \<and> (n = ''..'' \<longrightarrow> list_all (\<lambda>e. e = ''..'') es)"
proof (cases "list_all (\<lambda>e. e = ''..'') es")
  case True
  then have "dropWhile (\<lambda>e. e = ''..'') es = []" by (simp add: list_all_iff)
  then have "dots_first es" unfolding dots_first_def by (simp only: list.set empty_iff not_False_eq_True)
  with True show ?thesis by (simp add: dots_first_def dropWhile_split)
qed (auto simp: dots_first_def dropWhile_split)

lemma normal_names_dots_first:
  "dots_first (rev stack) \<Longrightarrow> dots_first (fst (normal_names rooted stack slash ns))"
proof (induction rooted stack slash ns rule: normal_names.induct)
  case (2 rooted stack slash n ns)
  show ?case
  proof (cases "n = ''..''")
    case False
    then show ?thesis using 2 by (simp add: dots_first_snoc)
  next
    case n: True
    show ?thesis
    proof (cases stack)
      case Nil
      then show ?thesis using 2 n by (simp add: dots_first_def)
    next
      case (Cons up rest)
      then show ?thesis using 2 n dots_first_snoc [of "rev stack" n] dots_first_snoc [of "rev rest" up] by auto
    qed
  qed
qed simp

lemma normal_path_confined:
  assumes "lexically_normal es = es" and "es \<noteq> []" and "hd es \<noteq> ''..''" and "hd es \<noteq> ''/''"
  shows "''..'' \<notin> set es"
proof -
  obtain names slash where nn: "normal_names False [] False es = (names, slash)"
    by (cases "normal_names False [] False es")
  then have d: "dots_first names" using normal_names_dots_first [of "[]" False False es] by (simp add: dots_first_def)
  have es: "es = (if names = [] then [''.''] else names @ (if slash \<and> last names \<noteq> ''..'' then [[]] else []))"
    using assms(1,2,4) nn by (simp add: lexically_normal_def split: if_splits)
  show ?thesis
  proof (cases "names = []")
    case True
    then show ?thesis using es by simp
  next
    case False
    then have "hd names \<noteq> ''..''" using es assms(3) by (simp split: if_splits)
    then have "''..'' \<notin> set names" by (rule dots_first_cases [OF d False])
    then show ?thesis using es False by (simp split: if_splits)
  qed
qed

lemma safe_manifest_path_confined:
  assumes "is_safe_manifest_path v"
  shows "''..'' \<notin> set (path_elements v)"
    and "hd (path_elements v) \<in> {''release'', ''config'', ''systemd'', ''deploy'', ''manifest''}"
proof -
  obtain d es where p: "path_elements v = d # es" "d \<in> {''release'', ''config'', ''systemd'', ''deploy'', ''manifest''}"
    using assms by (auto simp: is_safe_manifest_path_def split: list.splits)
  then show "hd (path_elements v) \<in> {''release'', ''config'', ''systemd'', ''deploy'', ''manifest''}" by simp
  have "lexically_normal (path_elements v) = path_elements v" using assms by (simp add: is_safe_manifest_path_def)
  then show "''..'' \<notin> set (path_elements v)" by (rule normal_path_confined) (use p in auto)
qed

lemma checksum_lines_ok:
  "checksum_lines hv hi n lines = Inr (hv', hi', n') \<Longrightarrow>
     (\<forall>line \<in> set lines. checksum_line_ok line \<and> is_safe_manifest_path (drop 66 line)) \<and>
     hv' = (hv \<or> ''manifest/VERSION'' \<in> drop 66 ` set lines) \<and>
     hi' = (hi \<or> ''deploy/install.sh'' \<in> drop 66 ` set lines)"
proof (induction lines arbitrary: hv hi n)
  case (Cons line lines)
  have ok: "checksum_line_ok line" "is_safe_manifest_path (drop 66 line)"
    and more_lines: "checksum_lines (hv \<or> drop 66 line = ''manifest/VERSION'') (hi \<or> drop 66 line = ''deploy/install.sh'')
      (n + 1) lines = Inr (hv', hi', n')"
    using Cons.prems by (simp_all only: checksum_lines.simps Let_def sum.distinct split: if_split_asm)
  show ?case using Cons.IH [OF more_lines] ok by (auto simp only: list.set image_insert ball_simps insert_iff)
qed simp

text \<open>
  C36: a checksum manifest that passes names only files below the five directories of a package: every line has 64 hexadecimal
  digits and a path that starts in one of them and never climbs, and the version file and the installer, the two files the
  upgrade relies on, are among the files whose sums are checked.
\<close>

theorem checksum_manifest_confined:
  assumes "validate_checksum_manifest input = Inr ()"
  shows "\<exists>lines. input = Some (lines, False) \<and>
     (\<forall>line \<in> set lines. checksum_line_ok line \<and> ''..'' \<notin> set (path_elements (drop 66 line)) \<and>
        hd (path_elements (drop 66 line)) \<in> {''release'', ''config'', ''systemd'', ''deploy'', ''manifest''}) \<and>
     {''manifest/VERSION'', ''deploy/install.sh''} \<subseteq> drop 66 ` set lines"
proof -
  obtain lines hv hi n where input: "input = Some (lines, False)" "checksum_lines False False 0 lines = Inr (hv, hi, n)" "hv" "hi"
    using assms by (auto simp: validate_checksum_manifest_def split: option.splits)
  have "checksum_line_ok line \<and> ''..'' \<notin> set (path_elements (drop 66 line)) \<and>
      hd (path_elements (drop 66 line)) \<in> {''release'', ''config'', ''systemd'', ''deploy'', ''manifest''}"
    if "line \<in> set lines" for line
    using that checksum_lines_ok [OF input(2)] safe_manifest_path_confined by blast
  moreover have "{''manifest/VERSION'', ''deploy/install.sh''} \<subseteq> drop 66 ` set lines"
    using checksum_lines_ok [OF input(2)] input(3,4) by blast
  ultimately show ?thesis using input(1) by blast
qed

theorem checksum_manifest_confined_witness:
  "\<exists>lines. Some ([replicate 64 (CHR ''0'') @ ''  manifest/VERSION'', replicate 64 (CHR ''f'') @ '' *deploy/install.sh''], False) =
       Some (lines, False) \<and>
     (\<forall>line \<in> set lines. checksum_line_ok line \<and> ''..'' \<notin> set (path_elements (drop 66 line)) \<and>
        hd (path_elements (drop 66 line)) \<in> {''release'', ''config'', ''systemd'', ''deploy'', ''manifest''}) \<and>
     {''manifest/VERSION'', ''deploy/install.sh''} \<subseteq> drop 66 ` set lines"
  by (rule checksum_manifest_confined) code_simp

section \<open>Children that succeed\<close>

lemma wait_loop_exit: "wait_loop deadline ws = Some r \<Longrightarrow> \<exists>w \<in> set ws. wait_verdict deadline w = Some r"
  by (induction ws) (auto split: option.splits)

text \<open>A run counts as a success only when the child itself ended with status zero: no timeout, no cancellation and no signal
  looks like one.\<close>

lemma run_process_success:
  assumes "run_process arguments timeout spawned start steps = Some 0"
    and "\<And>w signal. w \<in> set steps \<Longrightarrow> ws_answer w = WaSignalled signal \<Longrightarrow> 0 < signal"
  shows "\<exists>w \<in> set steps. ws_answer w = WaExited 0"
proof -
  obtain w where w: "w \<in> set steps" "wait_verdict (start + timeout) w = Some 0"
    using assms(1) wait_loop_exit by (force simp: run_process_def split: if_splits)
  then show ?thesis using assms(2) [OF w(1)]
    by (fastforce simp: wait_verdict_def split: wait_answer.splits if_splits)
qed

lemma health_rounds_success:
  "health_rounds deadline rounds = Some True \<Longrightarrow>
     \<exists>(before, command, after_pause) \<in> set rounds. before < deadline \<and> command (min (deadline - before) 30000) = 0"
  by (induction deadline rounds rule: health_rounds.induct) (auto simp: Let_def split: if_splits)

end
