(* ===== verification/Upgrade_Root.thy ===== *)
theory Upgrade_Root
  imports Upgrade_Version
begin

text \<open>
  What an upgrade works on: the install root with its current link, its releases, its transaction file and its version floor,
  and the system calls on it. A call succeeds, fails, or the machine stops in it: a script gives the outcome of each, and a
  call after the end of the script succeeds. A computation ends in a value, an error text (a \<open>return false\<close>), an exception
  or a stop. At the end, a logic of pre- and postconditions for such computations, with a condition for each way to end.

  The script of outcomes stands for the kernel: which call fails, and where the power goes. What a call does to the root is
  there at once and stays; \<open>fsync\<close> is a call that may fail or be the last one.
\<close>

section \<open>The install root\<close>

text \<open>A directory in the place of the current link is one with entries. A YAML file is as \<open>YAML::LoadFile\<close> gives it: an exception, something that is no map, or a map whose values are scalars or
  not. What the code emits is read as it was written.\<close>

datatype yaml_doc = DocBad string | DocOther | DocMap "(string \<times> string option) list"

datatype link = LkNone | LkTo string | LkFile | LkDir
datatype release = ReDir bool | ReFile
datatype transaction_file = TfNone | TfFile yaml_doc | TfLink "yaml_doc option" | TfDir
datatype floor_file = FlNone | FlFile "string list" | FlDir

record ota_root =
  or_root :: string
  or_current :: link
  or_current_new :: "string option"
  or_releases :: "(string \<rightharpoonup> release) option"
  or_transaction :: transaction_file
  or_floor :: floor_file

definition release_map :: "ota_root \<Rightarrow> string \<rightharpoonup> release" where
  "release_map st = (case or_releases st of None \<Rightarrow> Map.empty | Some rs \<Rightarrow> rs)"

definition release_dir :: "string \<Rightarrow> ota_root \<Rightarrow> bool" where
  "release_dir name st \<longleftrightarrow> (case release_map st name of Some (ReDir _) \<Rightarrow> True | _ \<Rightarrow> False)"

section \<open>Computations\<close>

datatype outcome = OcOk | OcFail string | OcPartial string | OcStop | OcStopPartial | OcStopDone

datatype 'a ota_result = OtaOk 'a | OtaErr string | OtaThrow string | OtaStop

type_synonym 'a ota_m = "ota_root \<Rightarrow> outcome list \<Rightarrow> 'a ota_result \<times> ota_root \<times> outcome list"

definition ota_return :: "'a \<Rightarrow> 'a ota_m" where
  "ota_return x st script = (OtaOk x, st, script)"

definition ota_fail :: "string \<Rightarrow> 'a ota_m" where
  "ota_fail e st script = (OtaErr e, st, script)"

definition ota_raise :: "string \<Rightarrow> 'a ota_m" where
  "ota_raise e st script = (OtaThrow e, st, script)"

definition ota_get :: "(ota_root \<Rightarrow> 'a) \<Rightarrow> 'a ota_m" where
  "ota_get f st script = (OtaOk (f st), st, script)"

definition ota_bind :: "'a ota_m \<Rightarrow> ('a \<Rightarrow> 'b ota_m) \<Rightarrow> 'b ota_m" where
  "ota_bind m f st script =
     (case m st script of
        (OtaOk x, st', script') \<Rightarrow> f x st' script'
      | (OtaErr e, st', script') \<Rightarrow> (OtaErr e, st', script')
      | (OtaThrow e, st', script') \<Rightarrow> (OtaThrow e, st', script')
      | (OtaStop, st', script') \<Rightarrow> (OtaStop, st', script'))"

definition ota_seq :: "unit ota_m \<Rightarrow> 'b ota_m \<Rightarrow> 'b ota_m" where
  "ota_seq m n = ota_bind m (\<lambda>_. n)"

text \<open>A system call: its effect, and what it may leave behind when it fails or stops half way.\<close>

definition ota_sys :: "(ota_root \<Rightarrow> ota_root) \<Rightarrow> (ota_root \<Rightarrow> ota_root) \<Rightarrow> unit ota_m" where
  "ota_sys half effect st script =
     (case script of
        [] \<Rightarrow> (OtaOk (), effect st, [])
      | oc # script' \<Rightarrow>
          (case oc of
             OcOk \<Rightarrow> (OtaOk (), effect st, script')
           | OcFail e \<Rightarrow> (OtaErr e, st, script')
           | OcPartial e \<Rightarrow> (OtaErr e, half st, script')
           | OcStop \<Rightarrow> (OtaStop, st, script')
           | OcStopPartial \<Rightarrow> (OtaStop, half st, script')
           | OcStopDone \<Rightarrow> (OtaStop, effect st, script')))"

definition ota_call :: "unit ota_m" where
  "ota_call = ota_sys id id"

text \<open>What becomes of an error: it gets a prefix, another text, is thrown, is ignored, or is a value; and an exception
  becomes an error in a \<open>catch\<close>.\<close>

definition ota_map_result :: "('a ota_result \<Rightarrow> 'b ota_result) \<Rightarrow> 'a ota_m \<Rightarrow> 'b ota_m" where
  "ota_map_result g m st script = (case m st script of (r, st', script') \<Rightarrow> (g r, st', script'))"

definition ota_label :: "string \<Rightarrow> 'a ota_m \<Rightarrow> 'a ota_m" where
  "ota_label what = ota_map_result (\<lambda>r. case r of OtaErr e \<Rightarrow> OtaErr (what @ e) | _ \<Rightarrow> r)"

definition ota_say :: "string \<Rightarrow> 'a ota_m \<Rightarrow> 'a ota_m" where
  "ota_say e = ota_map_result (\<lambda>r. case r of OtaErr _ \<Rightarrow> OtaErr e | _ \<Rightarrow> r)"

definition ota_throwing :: "'a ota_m \<Rightarrow> 'a ota_m" where
  "ota_throwing = ota_map_result (\<lambda>r. case r of OtaErr e \<Rightarrow> OtaThrow e | _ \<Rightarrow> r)"

definition ota_catch :: "string \<Rightarrow> 'a ota_m \<Rightarrow> 'a ota_m" where
  "ota_catch what = ota_map_result (\<lambda>r. case r of OtaThrow e \<Rightarrow> OtaErr (what @ e) | _ \<Rightarrow> r)"

definition ota_ignore :: "unit ota_m \<Rightarrow> unit ota_m" where
  "ota_ignore = ota_map_result (\<lambda>r. case r of OtaErr _ \<Rightarrow> OtaOk () | _ \<Rightarrow> r)"

definition ota_try :: "'a ota_m \<Rightarrow> (string + 'a) ota_m" where
  "ota_try = ota_map_result (\<lambda>r. case r of OtaOk x \<Rightarrow> OtaOk (Inr x) | OtaErr e \<Rightarrow> OtaOk (Inl e) | OtaThrow e \<Rightarrow> OtaThrow e
     | OtaStop \<Rightarrow> OtaStop)"

definition ota_demand :: "bool \<Rightarrow> string \<Rightarrow> unit ota_m" where
  "ota_demand b e = (if b then ota_return () else ota_fail e)"

text \<open>A query of \<open>std::filesystem\<close>, which throws when it fails; and the flush of a stream, whose failure nobody sees.\<close>

definition ota_look :: "(ota_root \<Rightarrow> 'a) \<Rightarrow> 'a ota_m" where
  "ota_look f = ota_seq (ota_throwing ota_call) (ota_get f)"

definition ota_flush :: "bool ota_m" where
  "ota_flush = ota_bind (ota_try ota_call) (\<lambda>r. ota_return (\<not> isl r))"

text \<open>After an error, tidy up and pass the error on.\<close>

definition ota_cleanup :: "unit ota_m \<Rightarrow> unit ota_m \<Rightarrow> unit ota_m" where
  "ota_cleanup m tidy = ota_bind (ota_try m) (\<lambda>r. case r of Inl e \<Rightarrow> ota_seq tidy (ota_fail e) | Inr u \<Rightarrow> ota_return u)"

section \<open>Synced files\<close>

definition sync_path :: "string \<Rightarrow> unit ota_m" where
  "sync_path description =
     ota_seq (ota_label (''open '' @ description @ '' for sync failed: '') ota_call)
    (ota_seq (ota_label (''sync '' @ description @ '' failed: '') ota_call)
             (ota_label (''close '' @ description @ '' failed: '') ota_call))"

text \<open>\<open>WriteYaml\<close>: the new content goes to a temporary file, which then takes the place of the old one. \<open>publish\<close> is the
  effect of the rename; its argument says whether the content reached the temporary file, which the stream hands over only
  when it is closed, after the code has looked at it.\<close>

definition write_yaml :: "string \<Rightarrow> bool ota_m \<Rightarrow> (bool \<Rightarrow> ota_root \<Rightarrow> ota_root) \<Rightarrow> unit ota_m" where
  "write_yaml path blocked publish =
     ota_seq (ota_label ''create upgrade state directory failed: '' ota_call)
    (ota_seq (ota_say (''open temporary upgrade state failed: '' @ path @ ''.tmp'') ota_call)
    (ota_seq (ota_say (''write temporary upgrade state failed: '' @ path @ ''.tmp'') ota_call)
    (ota_bind ota_flush (\<lambda>written.
     ota_seq (ota_cleanup (sync_path ''temporary upgrade state'') (ota_throwing ota_call))
    (ota_seq
       (ota_cleanup
         (ota_label ''publish upgrade state failed: ''
           (ota_bind blocked (\<lambda>b. ota_seq (ota_demand (\<not> b) ''Is a directory'') (ota_sys id (publish written)))))
         (ota_throwing ota_call))
       (sync_path ''upgrade state directory''))))))"

section \<open>What every run of a computation ends in\<close>

named_theorems ota_rules \<open>what a computation keeps, however it ends\<close>

definition ota_ends ::
  "('a \<Rightarrow> ota_root \<Rightarrow> bool) \<Rightarrow> (ota_root \<Rightarrow> bool) \<Rightarrow> (ota_root \<Rightarrow> bool) \<Rightarrow> 'a ota_result \<Rightarrow> ota_root \<Rightarrow> bool"
  where
  "ota_ends Q E C r st =
     (case r of OtaOk x \<Rightarrow> Q x st | OtaErr _ \<Rightarrow> E st | OtaThrow _ \<Rightarrow> E st | OtaStop \<Rightarrow> C st)"

definition ota_spec ::
  "(ota_root \<Rightarrow> bool) \<Rightarrow> 'a ota_m \<Rightarrow> ('a \<Rightarrow> ota_root \<Rightarrow> bool) \<Rightarrow> (ota_root \<Rightarrow> bool) \<Rightarrow> (ota_root \<Rightarrow> bool) \<Rightarrow> bool"
  where
  "ota_spec P m Q E C \<longleftrightarrow>
     (\<forall>st script r st' script'. P st \<longrightarrow> m st script = (r, st', script') \<longrightarrow> ota_ends Q E C r st')"

lemma ota_ends_simps [simp]:
  "ota_ends Q E C (OtaOk x) st = Q x st" "ota_ends Q E C (OtaErr e) st = E st"
  "ota_ends Q E C (OtaThrow e) st = E st" "ota_ends Q E C OtaStop st = C st"
  by (simp_all add: ota_ends_def)

lemma ota_specI:
  assumes "\<And>st script r st' script'. P st \<Longrightarrow> m st script = (r, st', script') \<Longrightarrow> ota_ends Q E C r st'"
  shows "ota_spec P m Q E C"
  using assms by (auto simp: ota_spec_def)

lemma ota_specD: "ota_spec P m Q E C \<Longrightarrow> P st \<Longrightarrow> m st script = (r, st', script') \<Longrightarrow> ota_ends Q E C r st'"
  unfolding ota_spec_def by blast

lemma ota_spec_returns:
  "ota_spec P m Q E C \<Longrightarrow> P st \<Longrightarrow> m st script = (OtaOk x, st', script') \<Longrightarrow> Q x st'"
  by (drule (2) ota_specD) simp

lemma ota_spec_any:
  assumes "ota_spec P m (\<lambda>_. I) I I" and "P st"
  shows "I (fst (snd (m st script)))"
proof -
  obtain r st' script' where m: "m st script = (r, st', script')" by (cases "m st script")
  show ?thesis using ota_specD [OF assms m] by (cases r) (simp_all add: m)
qed

lemma ota_spec_weaken:
  assumes "ota_spec P' m Q' E' C'" and "\<And>st. P st \<Longrightarrow> P' st" and "\<And>x st. Q' x st \<Longrightarrow> Q x st"
    and "\<And>st. E' st \<Longrightarrow> E st" and "\<And>st. C' st \<Longrightarrow> C st"
  shows "ota_spec P m Q E C"
proof (rule ota_specI)
  fix st script r st' script'
  assume "P st" "m st script = (r, st', script')"
  with assms(1,2) have "ota_ends Q' E' C' r st'" by (blast dest: ota_specD)
  then show "ota_ends Q E C r st'" using assms(3-5) by (cases r) simp_all
qed

lemma spec_return: "(\<And>st. P st \<Longrightarrow> Q x st) \<Longrightarrow> ota_spec P (ota_return x) Q E C"
  by (auto simp: ota_spec_def ota_return_def)

lemma spec_fail: "(\<And>st. P st \<Longrightarrow> E st) \<Longrightarrow> ota_spec P (ota_fail e) Q E C"
  by (auto simp: ota_spec_def ota_fail_def)

lemma spec_raise: "(\<And>st. P st \<Longrightarrow> E st) \<Longrightarrow> ota_spec P (ota_raise e) Q E C"
  by (auto simp: ota_spec_def ota_raise_def)

lemma spec_get: "(\<And>st. P st \<Longrightarrow> Q (f st) st) \<Longrightarrow> ota_spec P (ota_get f) Q E C"
  by (auto simp: ota_spec_def ota_get_def)

lemma spec_bind:
  assumes "ota_spec P m R E C" and "\<And>x. ota_spec (R x) (f x) Q E C"
  shows "ota_spec P (ota_bind m f) Q E C"
proof (rule ota_specI)
  fix st script r st' script'
  assume "P st" and run: "ota_bind m f st script = (r, st', script')"
  obtain r0 st0 s0 where m: "m st script = (r0, st0, s0)" by (cases "m st script")
  note first = ota_specD [OF assms(1) \<open>P st\<close> m]
  show "ota_ends Q E C r st'"
  proof (cases r0)
    case (OtaOk x)
    then have "f x st0 s0 = (r, st', script')" using run m by (simp add: ota_bind_def)
    then show ?thesis using ota_specD [OF assms(2)] first OtaOk by simp
  qed (use run m first in \<open>auto simp: ota_bind_def\<close>)
qed

lemma spec_seq: "ota_spec P m (\<lambda>_. R) E C \<Longrightarrow> ota_spec R n Q E C \<Longrightarrow> ota_spec P (ota_seq m n) Q E C"
  unfolding ota_seq_def by (rule spec_bind)

lemma spec_sys:
  assumes "\<And>st. P st \<Longrightarrow> Q () (effect st)" and "\<And>st. P st \<Longrightarrow> E st \<and> E (half st)"
    and "\<And>st. P st \<Longrightarrow> C st \<and> C (half st) \<and> C (effect st)"
  shows "ota_spec P (ota_sys half effect) Q E C"
  using assms by (auto simp: ota_spec_def ota_sys_def split: list.split outcome.split)

lemma spec_call: "(\<And>st. P st \<Longrightarrow> Q () st \<and> E st \<and> C st) \<Longrightarrow> ota_spec P ota_call Q E C"
  unfolding ota_call_def by (rule spec_sys) auto

lemma spec_map_result:
  assumes "ota_spec P m Q' E' C'" and "\<And>r st. ota_ends Q' E' C' r st \<Longrightarrow> ota_ends Q E C (g r) st"
  shows "ota_spec P (ota_map_result g m) Q E C"
proof (rule ota_specI)
  fix st script r st' script'
  assume "P st" and "ota_map_result g m st script = (r, st', script')"
  then obtain r0 where "m st script = (r0, st', script')" "r = g r0"
    by (auto simp: ota_map_result_def split: prod.splits)
  then show "ota_ends Q E C r st'" using ota_specD [OF assms(1) \<open>P st\<close>] assms(2) by blast
qed

lemma spec_errors:
  assumes "ota_spec P m Q E C"
  shows "ota_spec P (ota_label what m) Q E C" "ota_spec P (ota_say said m) Q E C"
    "ota_spec P (ota_throwing m) Q E C" "ota_spec P (ota_catch what m) Q E C"
  unfolding ota_label_def ota_say_def ota_throwing_def ota_catch_def
  by (rule spec_map_result [OF assms], auto simp: ota_ends_def split: ota_result.splits)+

lemma spec_ignore: "ota_spec P m Q E C \<Longrightarrow> (\<And>st. E st \<Longrightarrow> Q () st) \<Longrightarrow> ota_spec P (ota_ignore m) Q E C"
  unfolding ota_ignore_def by (erule spec_map_result) (auto split: ota_result.splits)

lemma spec_try:
  "ota_spec P m Q E C \<Longrightarrow> ota_spec P (ota_try m) (\<lambda>r st. case r of Inl _ \<Rightarrow> E st | Inr x \<Rightarrow> Q x st) E C"
  unfolding ota_try_def by (erule spec_map_result) (auto split: ota_result.splits)

lemma spec_demand: "(\<And>st. P st \<Longrightarrow> b \<Longrightarrow> Q () st) \<Longrightarrow> (\<And>st. P st \<Longrightarrow> \<not> b \<Longrightarrow> E st) \<Longrightarrow> ota_spec P (ota_demand b e) Q E C"
  by (auto simp: ota_demand_def spec_return spec_fail)

lemma spec_look: "(\<And>st. P st \<Longrightarrow> Q (f st) st \<and> E st \<and> C st) \<Longrightarrow> ota_spec P (ota_look f) Q E C"
  unfolding ota_look_def by (rule spec_seq [where R = P], rule spec_errors, rule spec_call, simp, rule spec_get, simp)

text \<open>Computations that change nothing in between.\<close>

lemma spec_flush:
  assumes "\<And>st. P st \<Longrightarrow> (\<forall>b. Q b st) \<and> E st \<and> C st"
  shows "ota_spec P ota_flush Q E C"
  unfolding ota_flush_def
proof (rule spec_bind)
  show "ota_spec P (ota_try ota_call) (\<lambda>_. P) E C"
    by (rule ota_spec_weaken [OF spec_try [OF spec_call [where Q = "\<lambda>_. P" and P = P and E = P and C = P]]])
       (use assms in \<open>auto split: sum.splits\<close>)
  show "ota_spec P (ota_return (\<not> isl r)) Q E C" for r :: "string + unit"
    by (rule spec_return) (use assms in auto)
qed

lemma spec_cleanup:
  "ota_spec P m Q E C \<Longrightarrow> ota_spec E tidy (\<lambda>_. E) E C \<Longrightarrow> ota_spec P (ota_cleanup m tidy) Q E C"
  unfolding ota_cleanup_def
  by (rule spec_bind, erule spec_try) (auto split: sum.split intro: spec_seq spec_fail spec_return)

lemma spec_sync_path: "(\<And>st. P st \<Longrightarrow> Q () st \<and> E st \<and> C st) \<Longrightarrow> ota_spec P (sync_path d) Q E C"
  unfolding sync_path_def
  by (rule spec_seq [where R = P] | rule spec_errors | rule spec_call | blast)+

text \<open>A file is the old one until the rename, and then the new one.\<close>

lemma spec_write_yaml:
  assumes "\<And>st. P st \<Longrightarrow> I st" and "\<And>st w. P st \<Longrightarrow> R (publish w st)" and "\<And>st. R st \<Longrightarrow> I st \<and> Q () st"
  shows "ota_spec P (write_yaml path (ota_get blocked) publish) Q I I"
proof -
  have quiet: "ota_spec I (ota_throwing ota_call) (\<lambda>_. I) I I" by (rule spec_errors, rule spec_call) simp
  have "ota_spec P (ota_cleanup (ota_label l (ota_bind (ota_get blocked)
      (\<lambda>b. ota_seq (ota_demand (\<not> b) e) (ota_sys id (publish w))))) (ota_throwing ota_call)) (\<lambda>_. R) I I" for l e w
    by (rule spec_cleanup [OF spec_errors(1) quiet], rule spec_bind [where R = "\<lambda>_. P"], rule spec_get, simp,
        rule spec_seq [where R = P], rule spec_demand, simp, rule assms(1), simp, rule spec_sys)
       (use assms in auto)
  moreover have "ota_spec P (ota_cleanup (sync_path d) (ota_throwing ota_call)) (\<lambda>_. P) I I" for d
    by (rule spec_cleanup [OF spec_sync_path quiet]) (use assms in auto)
  moreover have "ota_spec P ota_call (\<lambda>_. P) I I" by (rule spec_call) (use assms in auto)
  moreover have "ota_spec P ota_flush (\<lambda>_. P) I I" by (rule spec_flush) (use assms in auto)
  moreover have "ota_spec R (sync_path d) Q I I" for d by (rule spec_sync_path) (use assms in auto)
  ultimately show ?thesis unfolding write_yaml_def by (intro spec_seq spec_bind spec_errors)
qed

text \<open>What a computation keeps, however it ends.\<close>

definition ota_keeps :: "(ota_root \<Rightarrow> bool) \<Rightarrow> 'a ota_m \<Rightarrow> bool" where
  "ota_keeps I m \<longleftrightarrow> ota_spec I m (\<lambda>_. I) I I"

lemma keeps_simple [ota_rules]:
  "ota_keeps I (ota_return x)" "ota_keeps I (ota_fail e)" "ota_keeps I (ota_raise e)" "ota_keeps I (ota_get f)"
  "ota_keeps I (ota_look f)" "ota_keeps I ota_call" "ota_keeps I ota_flush" "ota_keeps I (sync_path d)"
  "ota_keeps I (ota_demand b e)"
  unfolding ota_keeps_def
  by (simp_all add: spec_return spec_fail spec_raise spec_get spec_look spec_call spec_flush spec_sync_path spec_demand)

lemma keeps_bind [ota_rules]:
  "ota_keeps I m \<Longrightarrow> (\<And>x. ota_keeps I (f x)) \<Longrightarrow> ota_keeps I (ota_bind m f)"
  unfolding ota_keeps_def by (rule spec_bind)

lemma keeps_seq [ota_rules]: "ota_keeps I m \<Longrightarrow> ota_keeps I n \<Longrightarrow> ota_keeps I (ota_seq m n)"
  unfolding ota_keeps_def by (rule spec_seq)

lemma keeps_sys [ota_rules]:
  "(\<And>st. I st \<Longrightarrow> I (half st)) \<Longrightarrow> (\<And>st. I st \<Longrightarrow> I (effect st)) \<Longrightarrow> ota_keeps I (ota_sys half effect)"
  unfolding ota_keeps_def by (rule spec_sys) auto

lemma keeps_errors [ota_rules]:
  assumes "ota_keeps I m"
  shows "ota_keeps I (ota_label what m)" "ota_keeps I (ota_say said m)" "ota_keeps I (ota_throwing m)"
    "ota_keeps I (ota_catch what m)"
  using assms unfolding ota_keeps_def by (simp_all add: spec_errors)

lemma keeps_ignore [ota_rules]: "ota_keeps I m \<Longrightarrow> ota_keeps I (ota_ignore m)"
  unfolding ota_keeps_def by (rule spec_ignore)

lemma keeps_try [ota_rules]: "ota_keeps I m \<Longrightarrow> ota_keeps I (ota_try m)"
  unfolding ota_keeps_def by (drule spec_try, erule ota_spec_weaken) (auto split: sum.splits)

lemma keeps_cleanup [ota_rules]: "ota_keeps I m \<Longrightarrow> ota_keeps I tidy \<Longrightarrow> ota_keeps I (ota_cleanup m tidy)"
  unfolding ota_keeps_def by (rule spec_cleanup)

lemma keeps_write_yaml [ota_rules]:
  "(\<And>st w. I st \<Longrightarrow> I (publish w st)) \<Longrightarrow> ota_keeps I (write_yaml path (ota_get blocked) publish)"
  unfolding ota_keeps_def by (rule spec_write_yaml [where R = I]) auto

lemma keeps_if [ota_rules]: "(b \<Longrightarrow> ota_keeps I m) \<Longrightarrow> (\<not> b \<Longrightarrow> ota_keeps I n) \<Longrightarrow> ota_keeps I (if b then m else n)"
  by simp

lemma keeps_sum [ota_rules]:
  "(\<And>e. r = Inl e \<Longrightarrow> ota_keeps I (f e)) \<Longrightarrow> (\<And>x. r = Inr x \<Longrightarrow> ota_keeps I (g x)) \<Longrightarrow> ota_keeps I (case_sum f g r)"
  by (cases r) simp_all

lemma keeps_option [ota_rules]:
  "(r = None \<Longrightarrow> ota_keeps I m) \<Longrightarrow> (\<And>x. r = Some x \<Longrightarrow> ota_keeps I (f x)) \<Longrightarrow> ota_keeps I (case_option m f r)"
  by (cases r) simp_all

lemma keeps_any: "ota_keeps I m \<Longrightarrow> I st \<Longrightarrow> I (fst (snd (m st script)))"
  unfolding ota_keeps_def by (rule ota_spec_any)

lemma keeps_spec: "ota_keeps I m \<Longrightarrow> ota_spec I m (\<lambda>_. I) I I"
  by (simp add: ota_keeps_def)

text \<open>What a computation returned may be added to what it keeps.\<close>

lemma spec_and_keeps:
  assumes "ota_keeps I m" and "ota_spec I m Q (\<lambda>_. True) (\<lambda>_. True)"
  shows "ota_spec I m (\<lambda>x st. I st \<and> Q x st) I I"
proof (rule ota_specI)
  fix st script r st' script'
  assume "I st" "m st script = (r, st', script')"
  then have "ota_ends (\<lambda>_. I) I I r st'" "ota_ends Q (\<lambda>_. True) (\<lambda>_. True) r st'"
    using assms unfolding ota_keeps_def by (blast dest: ota_specD)+
  then show "ota_ends (\<lambda>x st. I st \<and> Q x st) I I r st'" by (cases r) simp_all
qed

lemma keeps_and:
  assumes "ota_keeps I m" and "ota_keeps J m"
  shows "ota_keeps (\<lambda>st. I st \<and> J st) m"
  unfolding ota_keeps_def
proof (rule ota_specI)
  fix st script r st' script'
  assume "I st \<and> J st" and m: "m st script = (r, st', script')"
  then have "ota_ends (\<lambda>_. I) I I r st'" "ota_ends (\<lambda>_. J) J J r st'"
    using assms unfolding ota_keeps_def by (blast dest: ota_specD)+
  then show "ota_ends (\<lambda>_ st. I st \<and> J st) (\<lambda>st. I st \<and> J st) (\<lambda>st. I st \<and> J st) r st'" by (cases r) simp_all
qed

lemma spec_never: "(\<And>st. \<not> P st) \<Longrightarrow> ota_spec P m Q E C"
  unfolding ota_spec_def by blast

end
