(* ===== verification/Upgrade.thy ===== *)
theory Upgrade
  imports Upgrade_Root
begin

text \<open>
  The transaction of an upgrade, \<open>cockpit/upgrader/runtime/upgrade_transaction.cc\<close>: install, rollback, recovery and
  confirmation, with the version floor and the files between the processes, and \<open>ExecuteSafeOta\<close> of
  \<open>tools/safe-ota/action/safe_ota.cc\<close> that runs them. The installer is \<open>deploy/install.sh\<close>, as far as it touches the
  root. OpenSSL's and \<open>sha256sum\<close>'s verdicts on a package are part of the package.
\<close>

section \<open>The version floor\<close>

definition floor_path :: "ota_root \<Rightarrow> string" where
  "floor_path st = path_join (or_root st) ''data/ota-version-floor''"

definition read_version_file :: "string ota_m" where
  "read_version_file =
     ota_bind (ota_get floor_path) (\<lambda>path.
     ota_seq (ota_say (''invalid OTA version floor: '' @ path) ota_call)
    (ota_bind (ota_get or_floor) (\<lambda>content.
       case content of
         FlFile [v] \<Rightarrow>
           ota_seq (ota_demand (parse_semantic_version v \<noteq> None) (''OTA version floor is not a semantic version: '' @ v))
             (ota_return v)
       | _ \<Rightarrow> ota_fail (''invalid OTA version floor: '' @ path))))"

definition write_floor :: "string \<Rightarrow> bool \<Rightarrow> ota_root \<Rightarrow> ota_root" where
  "write_floor version written st = st\<lparr>or_floor := FlFile (if written then [version] else [])\<rparr>"

definition floor_blocked :: "ota_root \<Rightarrow> bool" where
  "floor_blocked st \<longleftrightarrow> or_floor st = FlDir"

definition persist_version_floor :: "string \<Rightarrow> unit ota_m" where
  "persist_version_floor version =
     (case parse_semantic_version version of
        None \<Rightarrow> ota_fail (''confirmed OTA version is not a semantic version: '' @ version)
      | Some parsed \<Rightarrow>
          ota_bind (ota_get floor_path) (\<lambda>path.
          ota_bind (ota_look (\<lambda>st. or_floor st \<noteq> FlNone)) (\<lambda>exists.
            if exists then
              ota_bind read_version_file (\<lambda>existing_version.
                case parse_semantic_version existing_version of
                  None \<Rightarrow> ota_fail []
                | Some existing \<Rightarrow>
                    (let comparison = compare_semantic_versions parsed existing in
                     if comparison < 0
                     then ota_fail (''refusing to lower OTA version floor from '' @ existing_version @ '' to '' @ version)
                     else if comparison = 0 then ota_return ()
                     else write_yaml path (ota_get floor_blocked) (write_floor version)))
            else write_yaml path (ota_get floor_blocked) (write_floor version))))"

text \<open>The versions a candidate must be newer than: the floor, if there is one, and the current release.\<close>

fun check_baselines :: "semantic_version \<Rightarrow> string \<Rightarrow> string list \<Rightarrow> unit ota_m" where
  "check_baselines candidate candidate_version [] = ota_return ()"
| "check_baselines candidate candidate_version (baseline_version # rest) =
     (case parse_semantic_version baseline_version of
        None \<Rightarrow> ota_fail (''active/floor OTA version is not a semantic version: '' @ baseline_version)
      | Some baseline \<Rightarrow>
          if compare_semantic_versions candidate baseline \<le> 0
          then ota_fail (''anti-rollback rejected version '' @ candidate_version @ ''; version must be newer than '' @
                 baseline_version)
          else check_baselines candidate candidate_version rest)"

definition path_filename :: "string \<Rightarrow> string" where
  "path_filename p = last (path_elements p)"

definition check_anti_rollback :: "string \<Rightarrow> string \<Rightarrow> unit ota_m" where
  "check_anti_rollback current_release candidate_version =
     (case parse_semantic_version candidate_version of
        None \<Rightarrow> ota_fail ''OTA version must use semantic version format MAJOR.MINOR.PATCH''
      | Some candidate \<Rightarrow>
          ota_bind (ota_look (\<lambda>st. or_floor st \<noteq> FlNone)) (\<lambda>exists.
          ota_bind
            (if exists then
               ota_bind (ota_look (\<lambda>st. or_floor st \<noteq> FlDir)) (\<lambda>regular.
                 if \<not> regular then ota_fail []
                 else ota_bind read_version_file (\<lambda>v. ota_return [v]))
             else ota_return []) (\<lambda>floor.
            check_baselines candidate candidate_version
              (floor @ (if current_release = [] then [] else [path_filename current_release])))))"

section \<open>The transaction file\<close>

datatype transaction_state = TxPrepared | TxActivated | TxConfirmed

record upgrade_transaction =
  ut_state :: transaction_state
  ut_version :: string
  ut_previous :: string

definition transaction_state_name :: "transaction_state \<Rightarrow> string" where
  "transaction_state_name s = (case s of TxPrepared \<Rightarrow> ''prepared'' | TxActivated \<Rightarrow> ''activated'' | TxConfirmed \<Rightarrow> ''confirmed'')"

definition transaction_doc :: "upgrade_transaction \<Rightarrow> yaml_doc" where
  "transaction_doc t =
     DocMap [(''state'', Some (transaction_state_name (ut_state t))), (''version'', Some (ut_version t)),
             (''previous_release'', Some (ut_previous t))]"

definition publish_transaction :: "upgrade_transaction \<Rightarrow> bool \<Rightarrow> ota_root \<Rightarrow> ota_root" where
  "publish_transaction t written st = st\<lparr>or_transaction := TfFile (if written then transaction_doc t else DocOther)\<rparr>"

definition transaction_path :: "ota_root \<Rightarrow> string" where
  "transaction_path st = path_join (or_root st) ''run/upgrade-transaction.yaml''"

definition transaction_blocked :: "ota_root \<Rightarrow> bool" where
  "transaction_blocked st \<longleftrightarrow> or_transaction st = TfDir"

definition save_transaction :: "upgrade_transaction \<Rightarrow> unit ota_m" where
  "save_transaction t =
     ota_bind (ota_get transaction_path) (\<lambda>path.
       write_yaml path (ota_get transaction_blocked) (publish_transaction t))"

definition read_required_scalar :: "(string \<times> string option) list \<Rightarrow> string \<Rightarrow> string ota_m" where
  "read_required_scalar doc key =
     (case map_of doc key of
        Some (Some v) \<Rightarrow> ota_return v
      | _ \<Rightarrow> ota_fail (''upgrade state requires scalar '' @ key))"

definition parsed_doc :: "yaml_doc \<Rightarrow> yaml_doc ota_m" where
  "parsed_doc doc = (case doc of DocBad e \<Rightarrow> ota_raise e | _ \<Rightarrow> ota_return doc)"

definition load_file :: "yaml_doc ota_m" where
  "load_file =
     ota_bind (ota_look or_transaction) (\<lambda>f.
       case f of
         TfFile doc \<Rightarrow> parsed_doc doc
       | TfLink (Some doc) \<Rightarrow> parsed_doc doc
       | _ \<Rightarrow> ota_raise ''bad file'')"

definition load_transaction :: "upgrade_transaction ota_m" where
  "load_transaction =
     ota_catch ''load upgrade transaction failed: ''
       (ota_bind load_file (\<lambda>doc.
          case doc of
            DocMap entries \<Rightarrow>
              ota_bind (read_required_scalar entries ''state'') (\<lambda>state.
              ota_bind (read_required_scalar entries ''version'') (\<lambda>version.
              ota_bind (read_required_scalar entries ''previous_release'') (\<lambda>previous.
              ota_seq (ota_demand (is_valid_version version) ''upgrade transaction version is invalid'')
             (ota_seq (ota_demand (previous = [] \<or> is_safe_release_target previous)
                        ''upgrade transaction previous release is unsafe'')
             (ota_seq (ota_demand (path_elements previous \<noteq> path_elements (path_join ''releases'' version))
                        ''upgrade transaction candidate matches previous release'')
               (if state = ''prepared'' then ota_return \<lparr> ut_state = TxPrepared, ut_version = version, ut_previous = previous \<rparr>
                else if state = ''activated''
                then ota_return \<lparr> ut_state = TxActivated, ut_version = version, ut_previous = previous \<rparr>
                else if state = ''confirmed''
                then ota_return \<lparr> ut_state = TxConfirmed, ut_version = version, ut_previous = previous \<rparr>
                else ota_fail ''upgrade transaction state is invalid''))))))
          | _ \<Rightarrow> ota_fail []))"

section \<open>Rollback and recovery\<close>

text \<open>\<open>remove_all\<close> of an entry below \<open>releases\<close>; half way, a directory is no longer whole. The names \<open>..\<close> and \<open>.\<close> are the
  root and the directory of releases.\<close>

definition drop_release :: "string \<Rightarrow> ota_root \<Rightarrow> ota_root" where
  "drop_release name st = st\<lparr>or_releases := map_option (\<lambda>rs. rs(name := None)) (or_releases st)\<rparr>"

definition damage_release :: "string \<Rightarrow> ota_root \<Rightarrow> ota_root" where
  "damage_release name st =
     (if release_dir name st then st\<lparr>or_releases := map_option (\<lambda>rs. rs(name \<mapsto> ReDir False)) (or_releases st)\<rparr> else st)"

definition wipe_root :: "ota_root \<Rightarrow> ota_root" where
  "wipe_root st = st\<lparr>or_current := LkNone, or_current_new := None, or_releases := None, or_transaction := TfNone,
     or_floor := FlNone\<rparr>"

definition remove_release :: "string \<Rightarrow> unit ota_m" where
  "remove_release name =
     (if name = ''..'' then ota_sys id wipe_root
      else if name = ''.''
      then ota_seq (ota_sys id (\<lambda>st. st\<lparr>or_releases := map_option (\<lambda>_. Map.empty) (or_releases st)\<rparr>)) (ota_fail ''Invalid argument'')
      else ota_sys (damage_release name) (drop_release name))"

definition release_name :: "string \<Rightarrow> string" where
  "release_name target = path_elements target ! 1"

definition current_symlink :: "string option ota_m" where
  "current_symlink =
     ota_bind (ota_look (\<lambda>st. case or_current st of LkTo p \<Rightarrow> True | _ \<Rightarrow> False)) (\<lambda>linked.
       if linked then ota_look (\<lambda>st. case or_current st of LkTo p \<Rightarrow> Some p | _ \<Rightarrow> None) else ota_return None)"

definition sync_releases :: "unit ota_m" where
  "sync_releases =
     ota_bind (ota_look (\<lambda>st. or_releases st \<noteq> None)) (\<lambda>present.
       if present then sync_path ''release directory'' else ota_return ())"

text \<open>The two ways to put the current link back: no link where there was none, or the old target by way of a new link.\<close>

definition unlink_current :: "unit ota_m" where
  "unlink_current =
     ota_bind (ota_get (\<lambda>st. or_current st = LkDir)) (\<lambda>directory.
       ota_label ''remove current release failed: ''
         (ota_seq (ota_demand (\<not> directory) ''Directory not empty'') (ota_sys id (\<lambda>st. st\<lparr>or_current := LkNone\<rparr>))))"

definition relink_current :: "string \<Rightarrow> unit ota_m" where
  "relink_current previous =
     ota_seq (ota_demand (is_safe_release_target previous) ''previous release symlink target is unsafe'')
    (ota_bind (ota_look (release_dir (release_name previous))) (\<lambda>present.
     ota_seq (ota_demand present ''previous release directory does not exist'')
    (ota_bind (ota_get (\<lambda>st. or_current_new st \<noteq> None)) (\<lambda>taken.
     ota_seq (ota_throwing (ota_seq (ota_demand (\<not> taken) ''File exists'')
               (ota_sys id (\<lambda>st. st\<lparr>or_current_new := Some previous\<rparr>))))
    (ota_bind (ota_get (\<lambda>st. or_current st = LkDir)) (\<lambda>directory.
     ota_throwing (ota_seq (ota_demand (\<not> directory) ''Is a directory'')
       (ota_sys id (\<lambda>st. st\<lparr>or_current := LkTo previous, or_current_new := None\<rparr>)))))))))"

definition rollback_upgrade :: "string \<Rightarrow> unit ota_m" where
  "rollback_upgrade previous =
     ota_catch ''rollback upgrade failed: ''
       (ota_bind current_symlink (\<lambda>activated.
        ota_seq (ota_demand (case activated of Some p \<Rightarrow> is_safe_release_target p | None \<Rightarrow> True)
                  ''active release symlink target is unsafe'')
       (ota_seq (ota_ignore (ota_sys id (\<lambda>st. st\<lparr>or_current_new := None\<rparr>)))
       (ota_seq (if previous = [] then unlink_current else relink_current previous)
       (ota_seq
          (case activated of
             Some p \<Rightarrow>
               if path_elements p \<noteq> path_elements previous
               then ota_label ''remove failed release failed: '' (remove_release (release_name p))
               else ota_return ()
           | None \<Rightarrow> ota_return ())
       (ota_seq (sync_path ''install root'') sync_releases))))))"

text \<open>What \<open>RecoverInterruptedUpgrade\<close> does with the transaction, and then with its file.\<close>

definition finish_confirmed :: "upgrade_transaction \<Rightarrow> unit ota_m" where
  "finish_confirmed t =
     ota_bind current_symlink (\<lambda>active.
     ota_bind
       (case active of
          Some p \<Rightarrow>
            if path_elements p = path_elements (path_join ''releases'' (ut_version t))
            then ota_look (release_dir (ut_version t)) else ota_return False
        | None \<Rightarrow> ota_return False) (\<lambda>matches.
     ota_seq (ota_demand matches ''confirmed upgrade transaction does not match current release'')
       (persist_version_floor (ut_version t))))"

definition undo_unconfirmed :: "upgrade_transaction \<Rightarrow> unit ota_m" where
  "undo_unconfirmed t =
     ota_seq (rollback_upgrade (ut_previous t))
    (ota_seq (ota_label ''remove interrupted release failed: '' (remove_release (ut_version t))) sync_releases)"

definition remove_transaction :: "string \<Rightarrow> unit ota_m" where
  "remove_transaction what =
     ota_seq (ota_label what (ota_sys id (\<lambda>st. st\<lparr>or_transaction := TfNone\<rparr>)))
       (sync_path ''upgrade state directory'')"

definition recover_upgrade :: "bool ota_m" where
  "recover_upgrade =
     ota_catch ''recover interrupted upgrade failed: ''
       (ota_bind (ota_look or_transaction) (\<lambda>status.
          case status of
            TfNone \<Rightarrow> ota_return False
          | TfFile _ \<Rightarrow>
              ota_bind load_transaction (\<lambda>t.
              ota_seq (if ut_state t = TxConfirmed then finish_confirmed t else undo_unconfirmed t)
             (ota_seq (remove_transaction ''remove upgrade transaction failed: '') (ota_return True)))
          | _ \<Rightarrow> ota_fail ''upgrade transaction path is not a regular file''))"

section \<open>Confirmation\<close>

definition confirm_upgrade :: "string \<Rightarrow> unit ota_m" where
  "confirm_upgrade version =
     ota_catch ''confirm upgrade failed: ''
       (ota_bind load_transaction (\<lambda>t.
        ota_seq (ota_demand (ut_state t = TxActivated \<and> ut_version t = version)
                  ''active upgrade transaction does not match confirmed version'')
       (ota_bind current_symlink (\<lambda>active.
        ota_seq (ota_demand (case active of
                    Some p \<Rightarrow> path_elements p = path_elements (path_join ''releases'' (ut_version t)) | None \<Rightarrow> False)
                  ''confirmed release is not active'')
       (ota_seq (save_transaction (t\<lparr>ut_state := TxConfirmed\<rparr>))
       (ota_seq (persist_version_floor (ut_version t))
         (remove_transaction ''remove confirmed transaction failed: '')))))))"

section \<open>Installation\<close>

text \<open>A package, as the checks find it: whether its parts are there, its manifest and its version file as lines, and what
  OpenSSL and \<open>sha256sum\<close> say about it.\<close>

record upgrade_package =
  pk_release_dir :: bool
  pk_installer :: bool
  pk_public_key :: bool
  pk_signature :: bool
  pk_signature_ok :: bool
  pk_sums :: "(string list \<times> bool) option"
  pk_version :: "string list option"
  pk_sums_ok :: bool

record upgrade_result =
  ur_activated :: bool
  ur_version :: string
  ur_previous :: string
  ur_error :: string

definition read_package_version :: "upgrade_package \<Rightarrow> string ota_m" where
  "read_package_version pkg =
     ota_catch ''read upgrade package version failed: ''
       (ota_seq (ota_throwing ota_call)
         (case pk_version pkg of
            Some [v] \<Rightarrow>
              ota_seq (ota_demand (is_valid_version v) ''manifest/VERSION must contain one valid version'') (ota_return v)
          | _ \<Rightarrow> ota_fail ''manifest/VERSION must contain one valid version''))"

text \<open>A child process that says yes or no.\<close>

definition run_check :: "bool \<Rightarrow> string \<Rightarrow> unit ota_m" where
  "run_check verdict e = ota_seq (ota_say e ota_call) (ota_demand verdict e)"

definition check_package :: "upgrade_package \<Rightarrow> string \<Rightarrow> unit ota_m" where
  "check_package pkg version =
     ota_seq (ota_throwing ota_call)
    (ota_seq (ota_demand (pk_release_dir pkg) ''upgrade package is missing release directory'')
    (ota_seq (ota_demand (pk_installer pkg) ''upgrade package is missing deploy/install.sh'')
    (ota_seq (ota_demand (pk_public_key pkg \<and> pk_signature pkg) ''trusted OTA public key or manifest signature is missing'')
    (ota_seq (run_check (pk_signature_ok pkg) ''package manifest signature verification failed'')
    (ota_seq (case validate_checksum_manifest (pk_sums pkg) of Inl e \<Rightarrow> ota_fail e | Inr u \<Rightarrow> ota_return ())
    (ota_bind (read_package_version pkg) (\<lambda>package_version.
     ota_seq (ota_demand (version = package_version) (''confirmed version does not match package: '' @ package_version))
       (run_check (pk_sums_ok pkg) ''package checksum verification failed''))))))))"

text \<open>The current release, as \<open>InstallUpgrade\<close> reads it: \<open>None\<close> when there is none.\<close>

definition read_current :: "string option ota_m" where
  "read_current =
     ota_bind (ota_look or_current) (\<lambda>status.
       case status of
         LkNone \<Rightarrow> ota_return None
       | LkTo p \<Rightarrow> ota_look (\<lambda>_. Some p)
       | _ \<Rightarrow> ota_fail ''install current path is not a symlink'')"

text \<open>\<open>deploy/install.sh\<close> without systemd, on what the model has of the root: the directories, the content of the release, and
  the link by way of a new one.\<close>

definition put_release :: "string \<Rightarrow> bool \<Rightarrow> ota_root \<Rightarrow> ota_root" where
  "put_release name whole st = st\<lparr>or_releases := Some ((release_map st)(name \<mapsto> ReDir whole))\<rparr>"

definition install_sh :: "string \<Rightarrow> unit ota_m" where
  "install_sh version =
     ota_seq ota_call
    (ota_seq (ota_sys id (put_release version False))
    (ota_seq (ota_sys id (put_release version True))
    (ota_seq ota_call
    (ota_seq (ota_sys id (\<lambda>st. st\<lparr>or_current_new := Some (path_join ''releases'' version)\<rparr>))
    (ota_bind (ota_get (\<lambda>st. or_current st = LkDir)) (\<lambda>directory.
     ota_seq (ota_demand (\<not> directory) ''1'')
    (ota_seq
       (ota_sys id (\<lambda>st. st\<lparr>or_current := LkTo (path_join ''releases'' version), or_current_new := None\<rparr>))
       ota_call)))))))"

text \<open>After the transaction is on disk: the installer, the look at what it did, and the record of the activation. An error
  starts the recovery, whose own error goes behind the first one.\<close>

definition recover_after :: "string \<Rightarrow> unit ota_m" where
  "recover_after e =
     ota_bind (ota_try recover_upgrade) (\<lambda>r.
       case r of Inl recovery_error \<Rightarrow> ota_fail (e @ ''; '' @ recovery_error) | Inr _ \<Rightarrow> ota_fail e)"

definition activate :: "upgrade_transaction \<Rightarrow> unit ota_m" where
  "activate t =
     ota_bind (ota_try (install_sh (ut_version t))) (\<lambda>r.
       case r of
         Inl exit_code \<Rightarrow> recover_after (''package installer failed with exit code '' @ exit_code)
       | Inr _ \<Rightarrow>
           ota_bind current_symlink (\<lambda>active.
             if (case active of Some p \<Rightarrow> path_elements p = path_elements (path_join ''releases'' (ut_version t)) | None \<Rightarrow> False)
             then ota_bind (ota_try (save_transaction (t\<lparr>ut_state := TxActivated\<rparr>))) (\<lambda>saved.
                    case saved of Inl e \<Rightarrow> recover_after e | Inr _ \<Rightarrow> ota_return ())
             else recover_after ''package installer did not activate expected release''))"

definition release_text :: "string option \<Rightarrow> string" where
  "release_text linked = (case linked of Some p \<Rightarrow> p | None \<Rightarrow> [])"

definition check_current :: "string option \<Rightarrow> unit ota_m" where
  "check_current linked =
     (case linked of
        None \<Rightarrow> ota_return ()
      | Some p \<Rightarrow>
          ota_seq (ota_demand (is_safe_release_target p) ''install current symlink target is invalid'')
            (ota_bind (ota_look (release_dir (release_name p)))
              (\<lambda>present. ota_demand present ''install current symlink target is invalid'')))"

definition prepare_install :: "string option \<Rightarrow> string \<Rightarrow> unit ota_m" where
  "prepare_install linked version =
     ota_seq (check_current linked)
    (ota_seq (check_anti_rollback (release_text linked) version)
    (ota_bind (ota_look (\<lambda>st. release_map st version \<noteq> None)) (\<lambda>taken.
       ota_demand (\<not> taken) (''release already exists: '' @ version))))"

definition install_from :: "string option \<Rightarrow> string \<Rightarrow> unit ota_m" where
  "install_from linked version =
     (let t = \<lparr> ut_state = TxPrepared, ut_version = version, ut_previous = release_text linked \<rparr> in
      ota_seq (prepare_install linked version) (ota_seq (save_transaction t) (activate t)))"

text \<open>The result: what failed, with the previous release as far as it was known.\<close>

definition reported :: "string \<Rightarrow> string \<Rightarrow> 'a ota_m \<Rightarrow> ('a \<Rightarrow> upgrade_result ota_m) \<Rightarrow> upgrade_result ota_m" where
  "reported version previous m k =
     ota_bind (ota_try (ota_catch ''install upgrade failed: '' m)) (\<lambda>r.
       case r of
         Inl e \<Rightarrow> ota_return \<lparr> ur_activated = False, ur_version = version, ur_previous = previous, ur_error = e \<rparr>
       | Inr x \<Rightarrow> k x)"

definition install_upgrade :: "upgrade_package \<Rightarrow> string \<Rightarrow> upgrade_result ota_m" where
  "install_upgrade pkg version =
     reported version [] (ota_seq (check_package pkg version) read_current) (\<lambda>linked.
     reported version (release_text linked) (install_from linked version) (\<lambda>_.
       ota_return \<lparr> ur_activated = True, ur_version = version, ur_previous = release_text linked, ur_error = [] \<rparr>))"

end
