(* ===== verification/Upgrade_Safety.thy ===== *)
theory Upgrade_Safety
  imports Upgrade
begin

text \<open>
  What the upgrade promises, whatever fails and wherever the machine stops: the floor never goes down, an activated release
  is a verified and newer one, an interrupted upgrade can be undone completely, and a confirmation either counts or does not.
\<close>

section \<open>The floor\<close>

text \<open>No version up to the given one passes the check against the floor.\<close>

definition floor_guards :: "semantic_version \<Rightarrow> ota_root \<Rightarrow> bool" where
  "floor_guards v st \<longleftrightarrow>
     (case or_floor st of
        FlNone \<Rightarrow> False
      | FlFile [t] \<Rightarrow> (case parse_semantic_version t of None \<Rightarrow> True | Some f \<Rightarrow> v \<le> f)
      | _ \<Rightarrow> True)"

lemma floor_guards_update [simp]:
  "floor_guards v (st\<lparr>or_current := c\<rparr>) = floor_guards v st"
  "floor_guards v (st\<lparr>or_current_new := n\<rparr>) = floor_guards v st"
  "floor_guards v (st\<lparr>or_releases := r\<rparr>) = floor_guards v st"
  "floor_guards v (st\<lparr>or_transaction := t\<rparr>) = floor_guards v st"
  by (simp_all add: floor_guards_def)

lemma read_version_file_spec:
  "ota_spec (\<lambda>st. True) read_version_file (\<lambda>v st. or_floor st = FlFile [v] \<and> parse_semantic_version v \<noteq> None) (\<lambda>_. True) (\<lambda>_. True)"
proof -
  have "ota_spec (\<lambda>st. or_floor st = c)
      (case c of
         FlFile [v] \<Rightarrow>
           ota_seq (ota_demand (parse_semantic_version v \<noteq> None) (''OTA version floor is not a semantic version: '' @ v))
             (ota_return v)
       | _ \<Rightarrow> ota_fail e)
      (\<lambda>v st. or_floor st = FlFile [v] \<and> parse_semantic_version v \<noteq> None) (\<lambda>_. True) (\<lambda>_. True)" for c e
  proof (cases "\<exists>v. c = FlFile [v]")
    case True
    then obtain v where c: "c = FlFile [v]" ..
    show ?thesis unfolding c
      by simp (rule spec_seq [where R = "\<lambda>st. or_floor st = FlFile [v] \<and> parse_semantic_version v \<noteq> None"];
        auto intro: spec_demand spec_return)
  next
    case False
    then have "(case c of
         FlFile [v] \<Rightarrow>
           ota_seq (ota_demand (parse_semantic_version v \<noteq> None) (''OTA version floor is not a semantic version: '' @ v))
             (ota_return v)
       | _ \<Rightarrow> ota_fail e) = ota_fail e" by (auto split: floor_file.split list.split)
    then show ?thesis by (simp add: spec_fail)
  qed
  then show ?thesis unfolding read_version_file_def
    by (intro spec_bind [where R = "\<lambda>_ _. True"] spec_seq [where R = "\<lambda>_. True"] spec_bind [where R = "\<lambda>c st. or_floor st = c"])
       (auto intro: spec_get spec_errors spec_call)
qed

lemma keeps_read_version_file [ota_rules]: "ota_keeps I read_version_file"
  unfolding read_version_file_def by (intro ota_rules) (auto intro!: ota_rules split: floor_file.split list.split)

lemma write_floor_guards: "parse_semantic_version t = Some w \<Longrightarrow> v \<le> w \<Longrightarrow> floor_guards v (write_floor t b st)"
  by (simp add: write_floor_def floor_guards_def)

lemma keeps_floor_persist: "ota_keeps (floor_guards v) (persist_version_floor t)"
proof (cases "parse_semantic_version t")
  case None
  then show ?thesis by (simp add: persist_version_floor_def ota_rules)
next
  case (Some w)
  let ?I = "floor_guards v"
  have read: "ota_spec ?I read_version_file (\<lambda>x st. ?I st \<and> (or_floor st = FlFile [x] \<and> parse_semantic_version x \<noteq> None)) ?I ?I"
    by (rule spec_and_keeps [OF keeps_read_version_file]) (rule ota_spec_weaken [OF read_version_file_spec], simp_all)
  have wr: "ota_spec (\<lambda>st. ?I st \<and> v \<le> w) (write_yaml p (ota_get floor_blocked) (write_floor t)) (\<lambda>_. ?I) ?I ?I" for p
    by (rule spec_write_yaml [where R = ?I]) (auto simp: write_floor_guards [OF Some])
  have below: "v \<le> w" if "floor_guards v st" "or_floor st = FlFile [x]" "parse_semantic_version x = Some f" "\<not> w < f" for st x f
    using that by (simp add: floor_guards_def)
  have impossible: "ota_spec (\<lambda>_. False) m Q E C" for m :: "unit ota_m" and Q E C by (simp add: ota_spec_def)
  have step: "ota_spec (\<lambda>st. ?I st \<and> or_floor st = FlFile [x] \<and> parse_semantic_version x \<noteq> None)
      (case parse_semantic_version x of
         None \<Rightarrow> ota_fail []
       | Some existing \<Rightarrow>
           (let comparison = compare_semantic_versions w existing in
            if comparison < 0 then ota_fail e
            else if comparison = 0 then ota_return () else write_yaml p (ota_get floor_blocked) (write_floor t)))
      (\<lambda>_. ?I) ?I ?I" for x e p
  proof (cases "parse_semantic_version x")
    case None
    then show ?thesis by (simp add: impossible)
  next
    case (Some f)
    show ?thesis
    proof (cases "w < f \<or> w = f")
      case True
      then show ?thesis by (auto simp: Some Let_def compare_versions_order intro: spec_fail spec_return)
    next
      case False
      have "ota_spec (\<lambda>st. ?I st \<and> or_floor st = FlFile [x]) (write_yaml p (ota_get floor_blocked) (write_floor t)) (\<lambda>_. ?I) ?I ?I"
        by (rule ota_spec_weaken [OF wr]) (use False below [OF _ _ Some] in auto)
      then show ?thesis using False by (simp add: Some Let_def compare_versions_order)
    qed
  qed
  show ?thesis
    unfolding ota_keeps_def persist_version_floor_def option.case Some
  proof (rule spec_bind [where R = "\<lambda>_. ?I"], rule spec_get, assumption, rule spec_bind [where R = "\<lambda>b st. ?I st \<and> b"])
    show "ota_spec ?I (ota_look (\<lambda>st. or_floor st \<noteq> FlNone)) (\<lambda>b st. ?I st \<and> b) ?I ?I"
      by (rule spec_look) (auto simp: floor_guards_def)
    fix p b
    show "ota_spec (\<lambda>st. ?I st \<and> b)
       (if b then ota_bind read_version_file (\<lambda>existing_version.
            case parse_semantic_version existing_version of
              None \<Rightarrow> ota_fail []
            | Some existing \<Rightarrow>
                (let comparison = compare_semantic_versions w existing in
                 if comparison < 0
                 then ota_fail (''refusing to lower OTA version floor from '' @ existing_version @ '' to '' @ t)
                 else if comparison = 0 then ota_return () else write_yaml p (ota_get floor_blocked) (write_floor t)))
        else write_yaml p (ota_get floor_blocked) (write_floor t)) (\<lambda>_. ?I) ?I ?I"
    proof (cases b)
      case True
      then show ?thesis using spec_bind [OF read step] by simp
    qed (simp add: impossible)
  qed
qed

section \<open>Names that stay below releases\<close>

lemma seq_demand: "ota_seq (ota_demand b e) m = (if b then m else ota_fail e)"
  by (intro ext) (simp add: ota_seq_def ota_bind_def ota_demand_def ota_return_def ota_fail_def)

lemma spec_if: "(b \<Longrightarrow> ota_spec P m Q E C) \<Longrightarrow> (\<not> b \<Longrightarrow> ota_spec P n Q E C) \<Longrightarrow> ota_spec P (if b then m else n) Q E C"
  by simp

definition plain_name :: "string \<Rightarrow> bool" where
  "plain_name name \<longleftrightarrow> name \<noteq> ''.'' \<and> name \<noteq> ''..''"

lemma release_name_plain: "is_safe_release_target p \<Longrightarrow> plain_name (release_name p)"
  by (erule safe_release_target_name) (simp add: release_name_def plain_name_def)

definition stored_doc :: "ota_root \<Rightarrow> yaml_doc option" where
  "stored_doc st = (case or_transaction st of TfFile doc \<Rightarrow> Some doc | TfLink d \<Rightarrow> d | _ \<Rightarrow> None)"

text \<open>The transaction file, if it can be read at all, names a version that is no dot name.\<close>

definition transaction_plain :: "ota_root \<Rightarrow> bool" where
  "transaction_plain st \<longleftrightarrow>
     (\<forall>entries v. stored_doc st = Some (DocMap entries) \<longrightarrow> map_of entries ''version'' = Some (Some v) \<longrightarrow> plain_name v)"

lemma transaction_plain_update [simp]:
  "transaction_plain (st\<lparr>or_current := c\<rparr>) = transaction_plain st"
  "transaction_plain (st\<lparr>or_current_new := n\<rparr>) = transaction_plain st"
  "transaction_plain (st\<lparr>or_releases := r\<rparr>) = transaction_plain st"
  "transaction_plain (st\<lparr>or_floor := f\<rparr>) = transaction_plain st"
  "transaction_plain (st\<lparr>or_transaction := TfNone\<rparr>)"
  by (simp_all add: transaction_plain_def stored_doc_def)

lemma publish_plain: "plain_name (ut_version t) \<Longrightarrow> transaction_plain (publish_transaction t w st)"
  by (auto simp: transaction_plain_def stored_doc_def publish_transaction_def transaction_doc_def)

text \<open>What a loaded transaction says about the file.\<close>

definition loads :: "upgrade_transaction \<Rightarrow> ota_root \<Rightarrow> bool" where
  "loads t st \<longleftrightarrow>
     (\<exists>entries. stored_doc st = Some (DocMap entries) \<and>
        map_of entries ''state'' = Some (Some (transaction_state_name (ut_state t))) \<and>
        map_of entries ''version'' = Some (Some (ut_version t)) \<and>
        map_of entries ''previous_release'' = Some (Some (ut_previous t)) \<and>
        is_valid_version (ut_version t))"

lemma load_file_spec: "ota_spec I load_file (\<lambda>doc st. I st \<and> stored_doc st = Some doc) I I"
proof -
  have parsed: "ota_spec (\<lambda>st. I st \<and> stored_doc st = Some d) (parsed_doc d) (\<lambda>doc st. I st \<and> stored_doc st = Some doc) I I" for d
    by (cases d) (auto simp: parsed_doc_def intro!: spec_return spec_raise)
  show ?thesis unfolding load_file_def
  proof (rule spec_bind [where R = "\<lambda>f st. I st \<and> or_transaction st = f"])
    show "ota_spec I (ota_look or_transaction) (\<lambda>f st. I st \<and> or_transaction st = f) I I" by (rule spec_look) simp
    show "ota_spec (\<lambda>st. I st \<and> or_transaction st = f)
        (case f of TfFile doc \<Rightarrow> parsed_doc doc | TfLink (Some doc) \<Rightarrow> parsed_doc doc | _ \<Rightarrow> ota_raise ''bad file'')
        (\<lambda>doc st. I st \<and> stored_doc st = Some doc) I I" for f
      by (auto split: transaction_file.split option.split intro!: spec_raise ota_spec_weaken [OF parsed] simp: stored_doc_def)
  qed
qed

lemma read_required_scalar_spec:
  "(\<And>st. P st \<Longrightarrow> E st) \<Longrightarrow>
     ota_spec P (read_required_scalar entries key) (\<lambda>v st. P st \<and> map_of entries key = Some (Some v)) E C"
  by (auto simp: read_required_scalar_def split: option.split intro!: spec_return spec_fail)

lemma load_transaction_spec: "ota_spec I load_transaction (\<lambda>t st. I st \<and> loads t st) I I"
proof -
  have scalars: "ota_spec (\<lambda>st. I st \<and> stored_doc st = Some (DocMap es))
      (ota_bind (read_required_scalar es ''state'') (\<lambda>state.
       ota_bind (read_required_scalar es ''version'') (\<lambda>version.
       ota_bind (read_required_scalar es ''previous_release'') (\<lambda>previous.
       ota_seq (ota_demand (is_valid_version version) ''upgrade transaction version is invalid'')
      (ota_seq (ota_demand (previous = [] \<or> is_safe_release_target previous) ''upgrade transaction previous release is unsafe'')
      (ota_seq (ota_demand (path_elements previous \<noteq> path_elements (path_join ''releases'' version))
                 ''upgrade transaction candidate matches previous release'')
        (if state = ''prepared'' then ota_return \<lparr> ut_state = TxPrepared, ut_version = version, ut_previous = previous \<rparr>
         else if state = ''activated'' then ota_return \<lparr> ut_state = TxActivated, ut_version = version, ut_previous = previous \<rparr>
         else if state = ''confirmed'' then ota_return \<lparr> ut_state = TxConfirmed, ut_version = version, ut_previous = previous \<rparr>
         else ota_fail ''upgrade transaction state is invalid'')))))))
      (\<lambda>t st. I st \<and> loads t st) I I" for es
    by (rule spec_bind, rule read_required_scalar_spec, blast)+
       (unfold seq_demand, (intro spec_if spec_return spec_fail; simp add: loads_def transaction_state_name_def))
  show ?thesis unfolding load_transaction_def
    by (rule spec_errors, rule spec_bind [OF load_file_spec])
       (auto split: yaml_doc.split intro: scalars spec_fail)
qed

section \<open>No operation lowers the floor\<close>

definition well_guarded :: "semantic_version \<Rightarrow> ota_root \<Rightarrow> bool" where
  "well_guarded v st \<longleftrightarrow> floor_guards v st \<and> transaction_plain st"

lemma guarded_update [simp]:
  "well_guarded v st \<Longrightarrow> well_guarded v (st\<lparr>or_current := c\<rparr>)"
  "well_guarded v st \<Longrightarrow> well_guarded v (st\<lparr>or_current_new := n\<rparr>)"
  "well_guarded v st \<Longrightarrow> well_guarded v (st\<lparr>or_current := c, or_current_new := n\<rparr>)"
  "well_guarded v st \<Longrightarrow> well_guarded v (st\<lparr>or_releases := r\<rparr>)"
  "well_guarded v st \<Longrightarrow> well_guarded v (st\<lparr>or_transaction := TfNone\<rparr>)"
  by (simp_all add: well_guarded_def)

lemma guarded_steps [simp]:
  "well_guarded v st \<Longrightarrow> well_guarded v (drop_release name st)"
  "well_guarded v st \<Longrightarrow> well_guarded v (damage_release name st)"
  "well_guarded v st \<Longrightarrow> well_guarded v (put_release name whole st)"
  "well_guarded v st \<Longrightarrow> plain_name (ut_version t) \<Longrightarrow> well_guarded v (publish_transaction t w st)"
  by (simp_all add: drop_release_def damage_release_def put_release_def)
     (simp add: well_guarded_def publish_plain, simp add: publish_transaction_def)

lemma keeps_persist [ota_rules]: "ota_keeps (well_guarded v) (persist_version_floor t)"
proof -
  have "ota_keeps transaction_plain (persist_version_floor t)"
    unfolding persist_version_floor_def Let_def by (intro ota_rules) (simp_all add: write_floor_def)
  from keeps_and [OF keeps_floor_persist this] show ?thesis by (simp add: well_guarded_def [abs_def])
qed

lemma keeps_save [ota_rules]: "plain_name (ut_version t) \<Longrightarrow> ota_keeps (well_guarded v) (save_transaction t)"
  unfolding save_transaction_def by (intro ota_rules) simp

lemma keeps_remove_release [ota_rules]: "plain_name name \<Longrightarrow> ota_keeps (well_guarded v) (remove_release name)"
  unfolding remove_release_def plain_name_def by (intro ota_rules) simp_all

lemma keeps_current_symlink [ota_rules]: "ota_keeps I current_symlink"
  unfolding current_symlink_def by (intro ota_rules)

lemma keeps_sync_releases [ota_rules]: "ota_keeps I sync_releases"
  unfolding sync_releases_def by (intro ota_rules)

lemma keeps_remove_transaction [ota_rules]: "ota_keeps (well_guarded v) (remove_transaction what)"
  unfolding remove_transaction_def by (intro ota_rules) simp_all

lemma keeps_rollback [ota_rules]: "ota_keeps (well_guarded v) (rollback_upgrade previous)"
  unfolding rollback_upgrade_def unlink_current_def relink_current_def seq_demand
  by (intro ota_rules) (auto intro: release_name_plain split: option.split_asm)

lemma guarded_loaded:
  assumes "plain_name (ut_version t) \<Longrightarrow> ota_keeps (well_guarded v) m"
  shows "ota_spec (\<lambda>st. well_guarded v st \<and> loads t st) m (\<lambda>_. well_guarded v) (well_guarded v) (well_guarded v)"
proof (cases "plain_name (ut_version t)")
  case True
  then show ?thesis using assms by (auto intro: ota_spec_weaken [OF keeps_spec])
next
  case False
  then show ?thesis by (intro spec_never) (auto simp: well_guarded_def transaction_plain_def loads_def)
qed

lemma keeps_load_then:
  assumes "\<And>t. plain_name (ut_version t) \<Longrightarrow> ota_keeps (well_guarded v) (f t)"
  shows "ota_keeps (well_guarded v) (ota_bind load_transaction f)"
  unfolding ota_keeps_def by (rule spec_bind [OF load_transaction_spec], rule guarded_loaded, rule assms)

lemma keeps_recover [ota_rules]: "ota_keeps (well_guarded v) recover_upgrade"
proof -
  have "ota_keeps (well_guarded v) (ota_bind load_transaction (\<lambda>t.
      ota_seq (if ut_state t = TxConfirmed then finish_confirmed t else undo_unconfirmed t)
        (ota_seq (remove_transaction e) (ota_return True))))" for e
    unfolding finish_confirmed_def undo_unconfirmed_def seq_demand by (rule keeps_load_then, intro ota_rules)
  then show ?thesis unfolding recover_upgrade_def
    by (intro ota_rules) (simp split: transaction_file.split add: ota_rules)
qed

lemma keeps_confirm [ota_rules]: "ota_keeps (well_guarded v) (confirm_upgrade version)"
  unfolding confirm_upgrade_def seq_demand by (rule keeps_errors, rule keeps_load_then, intro ota_rules) simp_all

lemma keeps_install_sh [ota_rules]: "ota_keeps (well_guarded v) (install_sh version)"
  unfolding install_sh_def seq_demand by (intro ota_rules) simp_all

lemma keeps_activate [ota_rules]: "plain_name (ut_version t) \<Longrightarrow> ota_keeps (well_guarded v) (activate t)"
  unfolding activate_def recover_after_def by (intro ota_rules) simp_all

lemma keeps_check_baselines [ota_rules]: "ota_keeps I (check_baselines c cv bs)"
  by (induction c cv bs rule: check_baselines.induct) (auto simp: Let_def intro!: ota_rules split: option.split)

lemma keeps_check_anti_rollback [ota_rules]: "ota_keeps I (check_anti_rollback current version)"
  unfolding check_anti_rollback_def by (intro ota_rules)

lemma keeps_prepare [ota_rules]: "ota_keeps I (prepare_install linked version)"
  unfolding prepare_install_def check_current_def by (intro ota_rules)

section \<open>What an activated release is\<close>

definition newer_than_floor :: "semantic_version \<Rightarrow> ota_root \<Rightarrow> bool" where
  "newer_than_floor w st \<longleftrightarrow>
     (case or_floor st of
        FlNone \<Rightarrow> True
      | FlFile [t] \<Rightarrow> (case parse_semantic_version t of None \<Rightarrow> False | Some f \<Rightarrow> f < w)
      | _ \<Rightarrow> False)"

lemma newer_than_guard: "floor_guards v st \<Longrightarrow> newer_than_floor w st \<Longrightarrow> v < w"
  by (auto simp: floor_guards_def newer_than_floor_def split: floor_file.splits list.splits option.splits)

definition older :: "semantic_version \<Rightarrow> string \<Rightarrow> bool" where
  "older w t \<longleftrightarrow> (\<exists>f. parse_semantic_version t = Some f \<and> f < w)"

lemma check_baselines_spec:
  "ota_spec P (check_baselines w cv bs) (\<lambda>_ st. P st \<and> list_all (older w) bs) (\<lambda>_. True) (\<lambda>_. True)"
proof (induction w cv bs rule: check_baselines.induct)
  case (2 w cv b bs)
  then show ?case
    by (cases "parse_semantic_version b")
       (auto simp: compare_versions_order older_def not_le intro: spec_fail elim!: ota_spec_weaken)
qed (simp add: spec_return)

lemma check_anti_rollback_spec:
  "ota_spec P (check_anti_rollback current version)
     (\<lambda>_ st. P st \<and> (\<exists>w. parse_semantic_version version = Some w \<and> newer_than_floor w st \<and>
        (current \<noteq> [] \<longrightarrow> older w (path_filename current)))) (\<lambda>_. True) (\<lambda>_. True)"
proof (cases "parse_semantic_version version")
  case None
  then show ?thesis by (simp add: check_anti_rollback_def spec_fail)
next
  case (Some w)
  let ?floor = "\<lambda>bs st. P st \<and> (or_floor st = FlNone \<and> bs = [] \<or> (\<exists>t. or_floor st = FlFile [t] \<and> bs = [t]))"
  have read: "ota_spec P read_version_file (\<lambda>t st. P st \<and> or_floor st = FlFile [t]) (\<lambda>_. True) (\<lambda>_. True)"
    by (rule ota_spec_weaken [OF spec_and_keeps [OF keeps_read_version_file ota_spec_weaken [OF read_version_file_spec]]])
       auto
  have baselines: "ota_spec (\<lambda>st. P st \<and> or_floor st = FlNone \<and> \<not> e \<or> P st \<and> e)
      (if e then ota_bind (ota_look (\<lambda>st. or_floor st \<noteq> FlDir)) (\<lambda>regular.
          if \<not> regular then ota_fail [] else ota_bind read_version_file (\<lambda>v. ota_return [v]))
       else ota_return []) ?floor (\<lambda>_. True) (\<lambda>_. True)" for e
  proof (cases e)
    case True
    show ?thesis
      by (simp add: True)
         (rule spec_bind [where R = "\<lambda>_. P"], rule spec_look, simp, rule spec_if, rule spec_fail, simp,
          rule spec_bind [OF read], rule spec_return, simp)
  qed (auto intro: spec_return)
  have check: "ota_spec (?floor bs) (check_baselines w version (bs @ (if current = [] then [] else [path_filename current])))
      (\<lambda>_ st. P st \<and> (\<exists>w. Some w' = Some w \<and> newer_than_floor w st \<and> (current \<noteq> [] \<longrightarrow> older w (path_filename current))))
      (\<lambda>_. True) (\<lambda>_. True)" if "w' = w" for bs w'
    by (rule ota_spec_weaken [OF check_baselines_spec [where P = "?floor bs"]])
       (auto simp: that newer_than_floor_def older_def split: if_splits)
  show ?thesis unfolding check_anti_rollback_def Some option.case
    by (rule spec_bind, rule spec_look [where Q = "\<lambda>e st. P st \<and> or_floor st = FlNone \<and> \<not> e \<or> P st \<and> e"], blast,
        rule spec_bind, rule baselines, rule check, simp)
qed

text \<open>What has been checked when the transaction is first written.\<close>

definition verified :: "upgrade_package \<Rightarrow> string \<Rightarrow> bool" where
  "verified pkg version \<longleftrightarrow> pk_signature_ok pkg \<and> pk_sums_ok pkg \<and> validate_checksum_manifest (pk_sums pkg) = Inr () \<and>
     pk_version pkg = Some [version]"

lemma check_package_spec: "ota_spec P (check_package pkg version) (\<lambda>_ st. P st \<and> verified pkg version) (\<lambda>_. True) (\<lambda>_. True)"
proof -
  have run: "ota_spec P (run_check b e) (\<lambda>_ st. P st \<and> b) (\<lambda>_. True) (\<lambda>_. True)" for P b e
    unfolding run_check_def by (rule spec_seq [where R = P], rule spec_errors, rule spec_call, simp, rule spec_demand) simp_all
  have package_version: "ota_spec P (read_package_version pkg) (\<lambda>v st. P st \<and> pk_version pkg = Some [v]) (\<lambda>_. True) (\<lambda>_. True)" for P
    unfolding read_package_version_def
    by (rule spec_errors, rule spec_seq [where R = P], rule spec_errors, rule spec_call, simp)
       (auto simp: seq_demand intro!: spec_return spec_fail split: option.split list.split)
  have demand: "ota_spec P (ota_demand b e) (\<lambda>_ st. P st \<and> b) (\<lambda>_. True) (\<lambda>_. True)" for P b e
    by (rule spec_demand) simp_all
  have manifest: "ota_spec P (case r of Inl e \<Rightarrow> ota_fail e | Inr u \<Rightarrow> ota_return ()) (\<lambda>_ st. P st \<and> r = Inr ()) (\<lambda>_. True) (\<lambda>_. True)"
    for P and r :: "string + unit"
    by (cases r) (auto intro: spec_fail spec_return)
  have start: "ota_spec P (ota_throwing ota_call) (\<lambda>_. P) (\<lambda>_. True) (\<lambda>_. True)" by (rule spec_errors, rule spec_call) simp
  have tail: "ota_spec (\<lambda>st. P st \<and> pk_version pkg = Some [v]) (ota_seq (ota_demand (version = v) e) (run_check b e'))
      (\<lambda>_ st. P st \<and> b \<and> pk_version pkg = Some [version]) (\<lambda>_. True) (\<lambda>_. True)" for P v b e e'
    by (rule ota_spec_weaken, rule spec_seq [OF demand [where P = "\<lambda>st. P st \<and> pk_version pkg = Some [v]"]], rule run) auto
  show ?thesis unfolding check_package_def
    by (rule ota_spec_weaken, rule spec_seq [OF start], rule spec_seq [OF demand], rule spec_seq [OF demand],
        rule spec_seq [OF demand], rule spec_seq [OF run], rule spec_seq [OF manifest], rule spec_bind [OF package_version],
        rule tail)
       (auto simp: verified_def)
qed

lemma keeps_check_package [ota_rules]: "ota_keeps I (check_package pkg version)"
  unfolding check_package_def run_check_def read_package_version_def
  by (intro ota_rules) (auto intro!: ota_rules split: option.split list.split)

lemma keeps_read_current [ota_rules]: "ota_keeps I read_current"
  unfolding read_current_def by (intro ota_rules) (auto intro: ota_rules split: link.split)

lemma spec_pure:
  assumes "F \<Longrightarrow> ota_keeps I m"
  shows "ota_spec (\<lambda>st. I st \<and> F) m (\<lambda>_ st. I st \<and> F) I I"
proof (cases F)
  case True
  then show ?thesis using keeps_spec [OF assms] by (auto intro: ota_spec_weaken)
qed (simp add: spec_never)

lemma spec_reported:
  assumes "ota_spec P m R E C" and "\<And>x. ota_spec (R x) (k x) Q E C"
    and "\<And>e st. E st \<Longrightarrow> Q \<lparr> ur_activated = False, ur_version = version, ur_previous = previous, ur_error = e \<rparr> st"
  shows "ota_spec P (reported version previous m k) Q E C"
  unfolding reported_def
proof (rule spec_bind [OF spec_try [OF spec_errors(4) [OF assms(1)]]])
  show "ota_spec (\<lambda>st. case r of Inl _ \<Rightarrow> E st | Inr x \<Rightarrow> R x st)
     (case r of Inl e \<Rightarrow> ota_return \<lparr> ur_activated = False, ur_version = version, ur_previous = previous, ur_error = e \<rparr>
      | Inr x \<Rightarrow> k x) Q E C" for r
    by (cases r) (auto intro: spec_return assms(2,3))
qed

definition newer_version :: "semantic_version \<Rightarrow> string \<Rightarrow> bool" where
  "newer_version v version \<longleftrightarrow> (\<exists>w. parse_semantic_version version = Some w \<and> v < w)"

lemma newer_version_plain: "newer_version v version \<Longrightarrow> plain_name version"
  by (auto simp: newer_version_def plain_name_def dest: semantic_version_valid)

lemma prepare_install_newer:
  "ota_spec (well_guarded v) (prepare_install linked version) (\<lambda>_ st. well_guarded v st \<and> newer_version v version) (well_guarded v) (well_guarded v)"
proof -
  have "ota_spec (well_guarded v) (prepare_install linked version) (\<lambda>_ st. newer_version v version) (\<lambda>_. True) (\<lambda>_. True)"
    unfolding prepare_install_def
  proof (rule spec_seq [where R = "well_guarded v"])
    show "ota_spec (well_guarded v) (check_current linked) (\<lambda>_. well_guarded v) (\<lambda>_. True) (\<lambda>_. True)"
      unfolding check_current_def by (rule ota_spec_weaken [OF keeps_spec]) (intro ota_rules, auto)
    have checked: "ota_spec (well_guarded v) (check_anti_rollback (release_text linked) version) (\<lambda>_ st. newer_version v version)
        (\<lambda>_. True) (\<lambda>_. True)"
      by (rule ota_spec_weaken [OF check_anti_rollback_spec [where P = "well_guarded v"]])
         (auto simp: newer_version_def well_guarded_def dest: newer_than_guard)
    have stays: "ota_spec (\<lambda>_. F) m (\<lambda>_ _. F) (\<lambda>_. True) (\<lambda>_. True)" for F and m :: "unit ota_m"
      by (auto simp: ota_spec_def ota_ends_def split: ota_result.split)
    show "ota_spec (well_guarded v)
       (ota_seq (check_anti_rollback (release_text linked) version)
         (ota_bind (ota_look (\<lambda>st. release_map st version \<noteq> None))
           (\<lambda>taken. ota_demand (\<not> taken) (''release already exists: '' @ version))))
       (\<lambda>_ st. newer_version v version) (\<lambda>_. True) (\<lambda>_. True)"
      by (rule spec_seq [OF checked stays])
  qed
  then show ?thesis by (rule spec_and_keeps [OF keeps_prepare])
qed

lemma install_upgrade_newer:
  "ota_spec (well_guarded v) (install_upgrade pkg version)
     (\<lambda>r st. well_guarded v st \<and> (ur_activated r \<longrightarrow> verified pkg version \<and> newer_version v version)) (well_guarded v) (well_guarded v)"
proof -
  have package: "ota_spec (well_guarded v) (ota_seq (check_package pkg version) read_current)
      (\<lambda>linked st. well_guarded v st \<and> verified pkg version) (well_guarded v) (well_guarded v)"
    by (rule spec_seq [where R = "\<lambda>st. well_guarded v st \<and> verified pkg version"],
        rule ota_spec_weaken [OF spec_and_keeps [OF keeps_check_package ota_spec_weaken [OF check_package_spec]]])
       (auto intro: spec_pure keeps_read_current)
  have install: "ota_spec (\<lambda>st. well_guarded v st \<and> verified pkg version) (install_from linked version)
      (\<lambda>_ st. well_guarded v st \<and> verified pkg version \<and> newer_version v version) (well_guarded v) (well_guarded v)" for linked
  proof -
    have rest: "ota_spec (\<lambda>st. well_guarded v st \<and> newer_version v version) (ota_seq (save_transaction t) (activate t))
        (\<lambda>_ st. well_guarded v st \<and> newer_version v version) (well_guarded v) (well_guarded v)" if "ut_version t = version" for t
      by (rule spec_pure, intro ota_rules) (auto simp: that dest: newer_version_plain)
    show ?thesis
    proof (cases "verified pkg version")
      case True
      show ?thesis unfolding install_from_def Let_def
        by (rule ota_spec_weaken [OF spec_seq [OF prepare_install_newer rest]]) (auto simp: True)
    qed (simp add: spec_never)
  qed
  show ?thesis unfolding install_upgrade_def
    by (rule spec_reported [OF package], rule spec_reported [OF install]) (auto intro: spec_return)
qed

section \<open>Operations one after the other\<close>

datatype ota_operation = OpInstall upgrade_package string | OpRecover | OpConfirm string | OpRollback string

definition perform :: "ota_operation \<times> outcome list \<Rightarrow> ota_root \<Rightarrow> ota_root" where
  "perform step st =
     (case step of
        (OpInstall pkg version, script) \<Rightarrow> fst (snd (install_upgrade pkg version st script))
      | (OpRecover, script) \<Rightarrow> fst (snd (recover_upgrade st script))
      | (OpConfirm version, script) \<Rightarrow> fst (snd (confirm_upgrade version st script))
      | (OpRollback previous, script) \<Rightarrow> fst (snd (rollback_upgrade previous st script)))"

lemma perform_guarded: "well_guarded v st \<Longrightarrow> well_guarded v (perform step st)"
proof (cases step)
  case (Pair operation script)
  have install: "ota_keeps (well_guarded v) (install_upgrade pkg version)" for pkg version
    unfolding ota_keeps_def by (rule ota_spec_weaken [OF install_upgrade_newer]) auto
  assume "well_guarded v st"
  then show ?thesis
    by (cases operation) (simp_all add: Pair perform_def keeps_any [OF install] keeps_any [OF keeps_recover]
        keeps_any [OF keeps_confirm] keeps_any [OF keeps_rollback])
qed

definition perform_all :: "(ota_operation \<times> outcome list) list \<Rightarrow> ota_root \<Rightarrow> ota_root" where
  "perform_all steps st = fold perform steps st"

lemma perform_all_guarded: "well_guarded v st \<Longrightarrow> well_guarded v (perform_all steps st)"
  unfolding perform_all_def by (induction steps arbitrary: st) (simp_all add: perform_guarded)

text \<open>A floor once written stays above.\<close>

lemma persist_guards:
  assumes "parse_semantic_version t = Some v"
  shows "ota_spec (\<lambda>_. True) (persist_version_floor t) (\<lambda>_. floor_guards v) (\<lambda>_. True) (\<lambda>_. True)"
proof -
  let ?w = "\<lambda>p. write_yaml p (ota_get floor_blocked) (write_floor t)"
  have wr: "ota_spec P (?w p) (\<lambda>_. floor_guards v) (\<lambda>_. True) (\<lambda>_. True)" for P p
    by (rule spec_write_yaml [where R = "floor_guards v"]) (auto simp: write_floor_guards [OF assms])
  have equal: "floor_guards v st" if "or_floor st = FlFile [x]" "parse_semantic_version x = Some v" for st x
    using that by (simp add: floor_guards_def)
  have step: "ota_spec (\<lambda>st. or_floor st = FlFile [x] \<and> parse_semantic_version x \<noteq> None)
      (case parse_semantic_version x of
         None \<Rightarrow> ota_fail []
       | Some existing \<Rightarrow>
           (let comparison = compare_semantic_versions v existing in
            if comparison < 0 then ota_fail e else if comparison = 0 then ota_return () else ?w p))
      (\<lambda>_. floor_guards v) (\<lambda>_. True) (\<lambda>_. True)" for x e p
    by (cases "parse_semantic_version x")
       (auto simp: Let_def compare_versions_order intro!: spec_fail spec_return wr equal)
  show ?thesis
    unfolding persist_version_floor_def assms option.case
    by (rule spec_bind [where R = "\<lambda>_ _. True"], rule spec_get, simp, rule spec_bind [where R = "\<lambda>_ _. True"], rule spec_look, simp,
        rule spec_if, rule spec_bind [OF read_version_file_spec step], rule wr)
qed

lemma confirm_guards:
  "ota_spec (\<lambda>_. True) (confirm_upgrade version) (\<lambda>_ st. \<exists>v. parse_semantic_version version = Some v \<and> well_guarded v st)
     (\<lambda>_. True) (\<lambda>_. True)"
proof -
  have removed: "ota_spec (\<lambda>st. \<exists>v. parse_semantic_version version = Some v \<and> floor_guards v st) (remove_transaction e)
      (\<lambda>_ st. \<exists>v. parse_semantic_version version = Some v \<and> well_guarded v st) (\<lambda>_. True) (\<lambda>_. True)" for e
    unfolding remove_transaction_def
    by (rule spec_seq, rule spec_errors, rule spec_sys
        [where Q = "\<lambda>_ st. \<exists>v. parse_semantic_version version = Some v \<and> well_guarded v st"])
       (auto simp: well_guarded_def intro: spec_sync_path)
  have persisted: "ota_spec (\<lambda>_. True) (persist_version_floor version)
      (\<lambda>_ st. \<exists>v. parse_semantic_version version = Some v \<and> floor_guards v st) (\<lambda>_. True) (\<lambda>_. True)"
  proof (cases "parse_semantic_version version")
    case None
    then show ?thesis by (simp add: persist_version_floor_def spec_fail)
  next
    case (Some v)
    then show ?thesis by (auto intro: ota_spec_weaken [OF persist_guards])
  qed
  have any: "ota_spec (\<lambda>_. True) m (\<lambda>_ _. True) (\<lambda>_. True) (\<lambda>_. True)" for m :: "'x ota_m"
    by (auto simp: ota_spec_def ota_ends_def split: ota_result.split)
  have last_steps: "ota_spec (\<lambda>_. True) (ota_seq (save_transaction t')
       (ota_seq (persist_version_floor (ut_version t)) (remove_transaction e)))
      (\<lambda>_ st. \<exists>v. parse_semantic_version version = Some v \<and> well_guarded v st) (\<lambda>_. True) (\<lambda>_. True)"
    if "ut_version t = version" for t t' e
    unfolding that by (rule spec_seq [OF any spec_seq [OF persisted removed]])
  show ?thesis unfolding confirm_upgrade_def seq_demand
    by (rule spec_errors, rule spec_bind [OF any], rule spec_if, rule spec_bind [OF any], rule spec_if)
       ((rule last_steps, simp) | (rule spec_fail, simp))+
qed

lemma spec_result:
  assumes "ota_spec P m Q E C" and "P st" and "fst (m st script) = OtaOk x"
  shows "Q x (fst (snd (m st script)))"
  using assms by (cases "m st script") (auto dest: ota_specD)

text \<open>
  C9: no downgrade. Once a version is confirmed, every release that an installation activates later is newer, in the order of
  versions, and comes from a package whose signature and checksums were found good: whatever operations run in between,
  whichever of their system calls fail, and wherever the machine stops.
\<close>

theorem confirmed_version_is_never_undercut:
  assumes "fst (confirm_upgrade version st script) = OtaOk ()"
    and "fst (install_upgrade pkg candidate (perform_all steps (fst (snd (confirm_upgrade version st script)))) script') = OtaOk r"
    and "ur_activated r"
  shows "\<exists>v w. parse_semantic_version version = Some v \<and> parse_semantic_version candidate = Some w \<and> v < w \<and>
     verified pkg candidate"
proof -
  obtain v where v: "parse_semantic_version version = Some v" "well_guarded v (fst (snd (confirm_upgrade version st script)))"
    using spec_result [OF confirm_guards _ assms(1)] by auto
  from spec_result [OF install_upgrade_newer perform_all_guarded [OF v(2)] assms(2)] assms(3) v(1) show ?thesis
    by (auto simp: newer_version_def)
qed

definition sample_package :: "string \<Rightarrow> upgrade_package" where
  "sample_package version =
     \<lparr> pk_release_dir = True, pk_installer = True, pk_public_key = True, pk_signature = True, pk_signature_ok = True,
       pk_sums = Some ([replicate 64 (CHR ''0'') @ ''  manifest/VERSION'', replicate 64 (CHR ''f'') @ '' *deploy/install.sh''], False),
       pk_version = Some [version], pk_sums_ok = True \<rparr>"

definition sample_root :: ota_root where
  "sample_root =
     \<lparr> or_root = ''/cockpit-system'', or_current = LkTo ''releases/1.2.0'', or_current_new = None,
       or_releases = Some [''1.0.0'' \<mapsto> ReDir True, ''1.2.0'' \<mapsto> ReDir True],
       or_transaction = TfFile (transaction_doc \<lparr> ut_state = TxActivated, ut_version = ''1.2.0'', ut_previous = ''releases/1.0.0'' \<rparr>),
       or_floor = FlFile [''1.0.0''] \<rparr>"

theorem confirmed_version_is_never_undercut_witness:
  "\<exists>v w. parse_semantic_version ''1.2.0'' = Some v \<and> parse_semantic_version ''1.10.0'' = Some w \<and> v < w \<and>
     verified (sample_package ''1.10.0'') ''1.10.0''"
  by (rule confirmed_version_is_never_undercut [where st = sample_root and script = "[]" and script' = "[]" and
        steps = "[(OpRecover, [OcStop]), (OpInstall (sample_package ''1.3.0'') ''1.3.0'', replicate 45 OcOk @ [OcStop]), (OpRecover, [])]"
        and r = "\<lparr> ur_activated = True, ur_version = ''1.10.0'', ur_previous = ''releases/1.2.0'', ur_error = [] \<rparr>"])
     code_simp+

end
