(* ===== verification/Upgrade_Recovery.thy ===== *)
theory Upgrade_Recovery
  imports Upgrade_Safety
begin

text \<open>
  Recovery from an upgrade that was interrupted: what every state between the start of an installation and the end of its
  recovery has in common, that a recovery that says it is done has put everything back, and that one whose calls succeed gets
  there. The same for a confirmation: it counts, or it does not.
\<close>

section \<open>Between the releases\<close>

text \<open>The installation as it was: the link, the releases and the floor.\<close>

definition same_installation :: "ota_root \<Rightarrow> ota_root \<Rightarrow> bool" where
  "same_installation st0 st \<longleftrightarrow>
     or_current st = or_current st0 \<and> release_map st = release_map st0 \<and> or_floor st = or_floor st0"

text \<open>The installation but for one new release, which the link may point to.\<close>

definition in_flight :: "ota_root \<Rightarrow> upgrade_transaction \<Rightarrow> ota_root \<Rightarrow> bool" where
  "in_flight st0 t st \<longleftrightarrow>
     parse_semantic_version (ut_version t) \<noteq> None \<and> is_valid_version (ut_version t) \<and> plain_name (ut_version t) \<and>
     release_map st0 (ut_version t) = None \<and>
     (or_current st0 = LkNone \<and> ut_previous t = [] \<or>
      or_current st0 = LkTo (ut_previous t) \<and> is_safe_release_target (ut_previous t) \<and>
        release_dir (release_name (ut_previous t)) st0) \<and>
     or_floor st = or_floor st0 \<and>
     (release_map st)(ut_version t := None) = release_map st0 \<and>
     (or_current st = or_current st0 \<or> or_current st = LkTo (path_join ''releases'' (ut_version t)))"

definition unconfirmed_doc :: "string \<Rightarrow> string \<Rightarrow> transaction_file \<Rightarrow> bool" where
  "unconfirmed_doc version previous f \<longleftrightarrow>
     f = TfFile DocOther \<or>
     f = TfFile (transaction_doc \<lparr> ut_state = TxPrepared, ut_version = version, ut_previous = previous \<rparr>) \<or>
     f = TfFile (transaction_doc \<lparr> ut_state = TxActivated, ut_version = version, ut_previous = previous \<rparr>)"

definition undone :: "ota_root \<Rightarrow> ota_root \<Rightarrow> bool" where
  "undone st0 st \<longleftrightarrow> or_transaction st = TfNone \<and> same_installation st0 st"

definition recoverable :: "ota_root \<Rightarrow> ota_root \<Rightarrow> bool" where
  "recoverable st0 st \<longleftrightarrow> undone st0 st \<or>
     (\<exists>t. in_flight st0 t st \<and> unconfirmed_doc (ut_version t) (ut_previous t) (or_transaction st))"

lemma release_map_update [simp]:
  "release_map (st\<lparr>or_current := c\<rparr>) = release_map st"
  "release_map (st\<lparr>or_current_new := n\<rparr>) = release_map st"
  "release_map (st\<lparr>or_transaction := t\<rparr>) = release_map st"
  "release_map (st\<lparr>or_floor := f\<rparr>) = release_map st"
  "release_map (drop_release name st) = (release_map st)(name := None)"
  "release_map (put_release name whole st) = (release_map st)(name \<mapsto> ReDir whole)"
  "(release_map (damage_release name st))(name := None) = (release_map st)(name := None)"
  by (auto simp: release_map_def drop_release_def put_release_def damage_release_def release_dir_def split: option.splits)

lemma fields_update [simp]:
  "or_current (drop_release name st) = or_current st" "or_current (damage_release name st) = or_current st"
  "or_floor (drop_release name st) = or_floor st" "or_floor (damage_release name st) = or_floor st"
  "or_transaction (drop_release name st) = or_transaction st" "or_transaction (damage_release name st) = or_transaction st"
  "or_current (put_release name whole st) = or_current st" "or_floor (put_release name whole st) = or_floor st"
  "or_transaction (put_release name whole st) = or_transaction st"
  by (simp_all add: drop_release_def damage_release_def put_release_def)

lemma in_flight_steps:
  "in_flight st0 t st \<Longrightarrow> in_flight st0 t (st\<lparr>or_current_new := n\<rparr>)"
  "in_flight st0 t st \<Longrightarrow> in_flight st0 t (st\<lparr>or_transaction := f\<rparr>)"
  "in_flight st0 t st \<Longrightarrow> in_flight st0 t (drop_release (ut_version t) st)"
  "in_flight st0 t st \<Longrightarrow> in_flight st0 t (damage_release (ut_version t) st)"
  "in_flight st0 t st \<Longrightarrow> in_flight st0 t (put_release (ut_version t) whole st)"
  "in_flight st0 t st \<Longrightarrow> in_flight st0 t (st\<lparr>or_current := LkTo (path_join ''releases'' (ut_version t))\<rparr>)"
  "in_flight st0 t st \<Longrightarrow> or_current st0 = c \<Longrightarrow> in_flight st0 t (st\<lparr>or_current := c\<rparr>)"
  by (auto simp: in_flight_def)

lemma current_symlink_spec:
  "(\<And>st. P st \<Longrightarrow> E st \<and> C st) \<Longrightarrow>
     ota_spec P current_symlink (\<lambda>a st. P st \<and> (case a of Some p \<Rightarrow> or_current st = LkTo p | None \<Rightarrow> \<forall>p. or_current st \<noteq> LkTo p)) E C"
  unfolding current_symlink_def
  by (rule spec_bind [where R = "\<lambda>b st. P st \<and> b = (\<exists>p. or_current st = LkTo p)"], rule spec_look)
     (auto intro!: spec_look spec_return split: link.split)

lemma drop_spec:
  assumes "plain_name name" and "\<And>st. P st \<Longrightarrow> Q () (drop_release name st)"
    and "\<And>st. P st \<Longrightarrow> E st \<and> E (damage_release name st)"
    and "\<And>st. P st \<Longrightarrow> C st \<and> C (damage_release name st) \<and> C (drop_release name st)"
  shows "ota_spec P (remove_release name) Q E C"
  using assms unfolding remove_release_def plain_name_def by (auto intro: spec_sys)

section \<open>Rollback\<close>

text \<open>In flight, with the transaction file unchanged.\<close>

definition flying :: "ota_root \<Rightarrow> upgrade_transaction \<Rightarrow> transaction_file \<Rightarrow> ota_root \<Rightarrow> bool" where
  "flying st0 t f st \<longleftrightarrow> in_flight st0 t st \<and> or_transaction st = f"

lemma flying_recoverable: "flying st0 t f st \<Longrightarrow> unconfirmed_doc (ut_version t) (ut_previous t) f \<Longrightarrow> recoverable st0 st"
  by (auto simp: flying_def recoverable_def)

lemma relink_spec:
  "ota_spec (flying st0 t f) (if ut_previous t = [] then unlink_current else relink_current (ut_previous t))
     (\<lambda>_ st. flying st0 t f st \<and> or_current st = or_current st0) (flying st0 t f) (flying st0 t f)"
proof (cases "\<exists>st. flying st0 t f st")
  case False
  then show ?thesis by (intro spec_never) blast
next
  case True
  then have start: "or_current st0 = LkNone \<and> ut_previous t = [] \<or> or_current st0 = LkTo (ut_previous t) \<and> ut_previous t \<noteq> []"
    by (auto simp: flying_def in_flight_def is_safe_release_target_def path_elements_def)
  have back_to: "flying st0 t f (st\<lparr>or_current := or_current st0\<rparr>)" if "flying st0 t f st" for st
    using that by (auto simp: flying_def intro: in_flight_steps)
  have new_link: "flying st0 t f (st\<lparr>or_current_new := n\<rparr>)" if "flying st0 t f st" for st n
    using that by (auto simp: flying_def intro: in_flight_steps)
  show ?thesis
  proof (cases "ut_previous t = []")
    case True
    then have "or_current st0 = LkNone" using start by auto
    then show ?thesis using True back_to unfolding unlink_current_def seq_demand
      by (auto intro!: spec_bind [where R = "\<lambda>_. flying st0 t f"] spec_get spec_errors spec_if spec_fail spec_sys)
  next
    case False
    then have c: "or_current st0 = LkTo (ut_previous t)" using start by auto
    have last_link: "flying st0 t f (st\<lparr>or_current := LkTo (ut_previous t), or_current_new := None\<rparr>)" if "flying st0 t f st" for st
      using new_link [OF back_to [OF that]] by (simp add: c)
    show ?thesis using False unfolding relink_current_def seq_demand
      by (auto intro!: spec_bind [where R = "\<lambda>_. flying st0 t f"] spec_seq [where R = "flying st0 t f"] spec_get spec_look spec_errors
          spec_if spec_fail spec_sys new_link last_link simp: c)
  qed
qed

text \<open>The link that a rollback finds.\<close>

definition known_link :: "upgrade_transaction \<Rightarrow> string option \<Rightarrow> bool" where
  "known_link t a \<longleftrightarrow> (case a of Some p \<Rightarrow> p = ut_previous t \<or> p = path_join ''releases'' (ut_version t) | None \<Rightarrow> True)"

lemma drop_activated_spec:
  assumes "known_link t a"
  shows "ota_spec (\<lambda>st. flying st0 t f st \<and> or_current st = or_current st0)
      (case a of
         Some p \<Rightarrow> if path_elements p \<noteq> path_elements (ut_previous t)
                    then ota_label e (remove_release (release_name p)) else ota_return ()
       | None \<Rightarrow> ota_return ()) (\<lambda>_ st. flying st0 t f st \<and> or_current st = or_current st0) (flying st0 t f) (flying st0 t f)"
proof (cases "\<exists>st. flying st0 t f st")
  case True
  then have v: "is_valid_version (ut_version t)" "plain_name (ut_version t)" by (auto simp: flying_def in_flight_def)
  have name: "release_name (path_join ''releases'' (ut_version t)) = ut_version t"
    by (simp add: release_name_def path_elements_release [OF v(1)])
  have "ota_spec (\<lambda>st. flying st0 t f st \<and> or_current st = or_current st0) (remove_release (ut_version t))
      (\<lambda>_ st. flying st0 t f st \<and> or_current st = or_current st0) (flying st0 t f) (flying st0 t f)"
    by (rule drop_spec [OF v(2)]) (auto intro: in_flight_steps simp: flying_def)
  then show ?thesis using assms name
    by (auto simp: known_link_def split: option.split intro!: spec_if spec_return spec_errors)
qed (auto intro: spec_never)

lemma rollback_spec:
  "ota_spec (flying st0 t f) (rollback_upgrade (ut_previous t))
     (\<lambda>_ st. flying st0 t f st \<and> or_current st = or_current st0) (flying st0 t f) (flying st0 t f)"
proof -
  let ?F = "flying st0 t f" and ?Q = "\<lambda>st. flying st0 t f st \<and> or_current st = or_current st0"
  have link: "ota_spec ?F current_symlink (\<lambda>a st. ?F st \<and> known_link t a) ?F ?F"
    by (rule ota_spec_weaken [OF current_symlink_spec [where P = ?F and E = ?F and C = ?F]])
       (auto simp: flying_def in_flight_def known_link_def split: option.splits)
  have clear: "ota_spec ?F (ota_ignore (ota_sys id (\<lambda>st. st\<lparr>or_current_new := None\<rparr>))) (\<lambda>_. ?F) ?F ?F"
    by (rule spec_ignore, rule spec_sys) (auto simp: flying_def in_flight_steps)
  have syncs: "ota_spec ?Q (ota_seq (sync_path d) sync_releases) (\<lambda>_. ?Q) ?F ?F" for d
    unfolding sync_releases_def
    by (rule spec_seq [where R = ?Q], rule spec_sync_path, blast, rule spec_bind [where R = "\<lambda>_. ?Q"], rule spec_look, blast,
        rule spec_if, rule spec_sync_path, blast, rule spec_return)
  have body: "ota_spec (\<lambda>st. ?F st \<and> known_link t a)
      (ota_seq (ota_demand b e)
      (ota_seq (ota_ignore (ota_sys id (\<lambda>st. st\<lparr>or_current_new := None\<rparr>)))
      (ota_seq (if ut_previous t = [] then unlink_current else relink_current (ut_previous t))
      (ota_seq
        (case a of
           Some p \<Rightarrow> if path_elements p \<noteq> path_elements (ut_previous t)
                      then ota_label l (remove_release (release_name p)) else ota_return ()
         | None \<Rightarrow> ota_return ())
      (ota_seq (sync_path d) sync_releases))))) (\<lambda>_. ?Q) ?F ?F" for a b e l d
  proof (cases "known_link t a")
    case True
    show ?thesis unfolding seq_demand
      by (rule ota_spec_weaken [where P' = ?F], rule spec_if,
          rule spec_seq [OF clear spec_seq [OF relink_spec spec_seq [OF drop_activated_spec [OF True] syncs]]],
          rule spec_fail) auto
  qed (simp add: spec_never)
  show ?thesis unfolding rollback_upgrade_def by (rule spec_errors, rule spec_bind [OF link body])
qed

section \<open>Recovery\<close>

lemma undo_spec:
  "ota_spec (flying st0 t f) (undo_unconfirmed t) (\<lambda>_ st. flying st0 t f st \<and> same_installation st0 st) (flying st0 t f) (flying st0 t f)"
proof (cases "\<exists>st. flying st0 t f st")
  case True
  then have v: "plain_name (ut_version t)" by (auto simp: flying_def in_flight_def)
  let ?F = "flying st0 t f" and ?Q = "\<lambda>st. flying st0 t f st \<and> same_installation st0 st"
  have "ota_spec (\<lambda>st. ?F st \<and> or_current st = or_current st0) (ota_label e (remove_release (ut_version t))) (\<lambda>_. ?Q) ?F ?F" for e
    by (rule spec_errors, rule drop_spec [OF v])
       (auto simp: flying_def in_flight_steps, simp add: same_installation_def in_flight_def)
  moreover have "ota_spec ?Q sync_releases (\<lambda>_. ?Q) ?F ?F"
    unfolding sync_releases_def
    by (rule spec_bind [where R = "\<lambda>_. ?Q"], rule spec_look, blast, rule spec_if, rule spec_sync_path, blast, rule spec_return)
  ultimately show ?thesis unfolding undo_unconfirmed_def by (blast intro: spec_seq rollback_spec)
qed (auto intro: spec_never)

lemma unconfirmed_loads:
  assumes "unconfirmed_doc v p f" and "or_transaction st = f" and "loads t st"
  shows "ut_state t \<noteq> TxConfirmed" "ut_version t = v" "ut_previous t = p"
proof -
  obtain s where "f = TfFile (transaction_doc \<lparr> ut_state = s, ut_version = v, ut_previous = p \<rparr>)" "s \<noteq> TxConfirmed"
    using assms by (auto simp: unconfirmed_doc_def loads_def stored_doc_def)
  then show "ut_state t \<noteq> TxConfirmed" "ut_version t = v" "ut_previous t = p"
    using assms(2,3) by (auto simp: loads_def stored_doc_def transaction_doc_def transaction_state_name_def split: transaction_state.splits)
qed

lemma remove_transaction_spec:
  assumes "\<And>st. P st \<Longrightarrow> E st" and "\<And>st. P st \<Longrightarrow> R (st\<lparr>or_transaction := TfNone\<rparr>)" and "\<And>st. R st \<Longrightarrow> E st"
  shows "ota_spec P (remove_transaction e) (\<lambda>_. R) E E"
  unfolding remove_transaction_def
  by (rule spec_seq [where R = R], rule spec_errors, rule spec_sys, rule assms(2), assumption)
     (auto intro: assms spec_sync_path)

lemma undone_recoverable: "undone st0 st \<Longrightarrow> recoverable st0 st"
  by (simp add: recoverable_def)

lemma recover_spec:
  "ota_spec (recoverable st0) recover_upgrade (\<lambda>_. undone st0) (recoverable st0) (recoverable st0)"
proof -
  let ?I = "recoverable st0"
  have finish: "ota_spec (\<lambda>st. ?I st \<and> or_transaction st = f \<and> f \<noteq> TfNone \<and> loads t st)
      (ota_seq (if ut_state t = TxConfirmed then finish_confirmed t else undo_unconfirmed t)
        (ota_seq (remove_transaction e) (ota_return True))) (\<lambda>_. undone st0) ?I ?I" for t e f
  proof (cases "\<exists>st. ?I st \<and> or_transaction st = f \<and> f \<noteq> TfNone \<and> loads t st")
    case True
    then obtain t0 :: upgrade_transaction where d: "unconfirmed_doc (ut_version t0) (ut_previous t0) f"
      by (auto simp: recoverable_def undone_def)
    have t: "ut_state t \<noteq> TxConfirmed" "ut_version t = ut_version t0" "ut_previous t = ut_previous t0"
      using True unconfirmed_loads [OF d] by blast+
    have flies: "flying st0 t f st" if here: "?I st" "or_transaction st = f" "f \<noteq> TfNone" "loads t st" for st
    proof -
      obtain t1 :: upgrade_transaction where t1: "in_flight st0 t1 st" "unconfirmed_doc (ut_version t1) (ut_previous t1) f"
        using here by (auto simp: recoverable_def undone_def)
      then have "ut_version t = ut_version t1" "ut_previous t = ut_previous t1"
        using unconfirmed_loads [OF t1(2) here(2,4)] by simp_all
      with t1(1) here(2) show ?thesis by (simp add: flying_def in_flight_def)
    qed
    have grounded: "?I st" if "flying st0 t f st" for st
      using flying_recoverable [OF that] d t by simp
    have "ota_spec (flying st0 t f) (undo_unconfirmed t) (\<lambda>_ st. flying st0 t f st \<and> same_installation st0 st) ?I ?I"
      by (rule ota_spec_weaken [OF undo_spec]) (auto intro: grounded)
    moreover have "ota_spec (\<lambda>st. flying st0 t f st \<and> same_installation st0 st) (remove_transaction e) (\<lambda>_. undone st0) ?I ?I"
      by (rule remove_transaction_spec) (auto intro: grounded undone_recoverable simp: undone_def same_installation_def)
    moreover have "ota_spec (undone st0) (ota_return True) (\<lambda>_. undone st0) ?I ?I" by (rule spec_return)
    ultimately have run: "ota_spec (flying st0 t f) (ota_seq (undo_unconfirmed t) (ota_seq (remove_transaction e) (ota_return True)))
        (\<lambda>_. undone st0) ?I ?I" by (blast intro: spec_seq)
    show ?thesis unfolding if_not_P [OF t(1)] by (rule ota_spec_weaken [OF run], rule flies) simp_all
  qed (auto intro: spec_never)
  have load: "ota_spec (\<lambda>st. ?I st \<and> or_transaction st = f \<and> f \<noteq> TfNone)
      (ota_bind load_transaction (\<lambda>t.
        ota_seq (if ut_state t = TxConfirmed then finish_confirmed t else undo_unconfirmed t)
          (ota_seq (remove_transaction e) (ota_return True)))) (\<lambda>_. undone st0) ?I ?I" for f e
    by (rule spec_bind [OF ota_spec_weaken [OF load_transaction_spec
          [where I = "\<lambda>st. ?I st \<and> or_transaction st = f \<and> f \<noteq> TfNone"]] finish [where f = f]]) auto
  show ?thesis unfolding recover_upgrade_def
  proof (rule spec_errors, rule spec_bind [where R = "\<lambda>f st. ?I st \<and> or_transaction st = f"])
    show "ota_spec ?I (ota_look or_transaction) (\<lambda>f st. ?I st \<and> or_transaction st = f) ?I ?I" by (rule spec_look) simp
    fix f
    have "undone st0 st" if "recoverable st0 st" "or_transaction st = TfNone" for st
      using that by (auto simp: recoverable_def unconfirmed_doc_def)
    then show "ota_spec (\<lambda>st. ?I st \<and> or_transaction st = f)
        (case f of
           TfNone \<Rightarrow> ota_return False
         | TfFile _ \<Rightarrow> ota_bind load_transaction (\<lambda>t.
             ota_seq (if ut_state t = TxConfirmed then finish_confirmed t else undo_unconfirmed t)
               (ota_seq (remove_transaction ''remove upgrade transaction failed: '') (ota_return True)))
         | _ \<Rightarrow> ota_fail ''upgrade transaction path is not a regular file'') (\<lambda>_. undone st0) ?I ?I"
      by (cases f) (auto intro: spec_return spec_fail ota_spec_weaken [OF load])
  qed
qed

section \<open>Installation\<close>

definition aloft :: "ota_root \<Rightarrow> upgrade_transaction \<Rightarrow> ota_root \<Rightarrow> bool" where
  "aloft st0 t st \<longleftrightarrow> in_flight st0 t st \<and> unconfirmed_doc (ut_version t) (ut_previous t) (or_transaction st)"

lemma aloft_recoverable: "aloft st0 t st \<Longrightarrow> recoverable st0 st"
  by (auto simp: aloft_def recoverable_def)

lemma aloft_steps:
  "aloft st0 t st \<Longrightarrow> aloft st0 t (st\<lparr>or_current_new := n\<rparr>)"
  "aloft st0 t st \<Longrightarrow> aloft st0 t (put_release (ut_version t) whole st)"
  "aloft st0 t st \<Longrightarrow> aloft st0 t (st\<lparr>or_current := LkTo (path_join ''releases'' (ut_version t)), or_current_new := n\<rparr>)"
  using in_flight_steps(1) [OF in_flight_steps(6)] by (auto simp: aloft_def in_flight_steps)

text \<open>The release is there as a whole, and the link points to it.\<close>

definition released :: "upgrade_transaction \<Rightarrow> ota_root \<Rightarrow> bool" where
  "released t st \<longleftrightarrow> release_map st (ut_version t) = Some (ReDir True) \<and> or_current st = LkTo (path_join ''releases'' (ut_version t))"

lemma install_sh_spec:
  "ota_spec (aloft st0 t) (install_sh (ut_version t)) (\<lambda>_ st. aloft st0 t st \<and> released t st) (aloft st0 t) (aloft st0 t)"
proof -
  let ?F = "aloft st0 t" and ?W = "\<lambda>st. aloft st0 t st \<and> release_map st (ut_version t) = Some (ReDir True)"
  have call: "ota_spec ?F ota_call (\<lambda>_. ?F) ?F ?F" "ota_spec ?W ota_call (\<lambda>_. ?W) ?F ?F"
    "ota_spec (\<lambda>st. ?F st \<and> released t st) ota_call (\<lambda>_ st. ?F st \<and> released t st) ?F ?F"
    by (rule spec_call, simp)+
  have "ota_spec ?F (ota_sys id (put_release (ut_version t) False)) (\<lambda>_. ?F) ?F ?F"
    "ota_spec ?F (ota_sys id (put_release (ut_version t) True)) (\<lambda>_. ?W) ?F ?F"
    "ota_spec ?W (ota_sys id (\<lambda>st. st\<lparr>or_current_new := n\<rparr>)) (\<lambda>_. ?W) ?F ?F"
    "ota_spec ?W (ota_sys id (\<lambda>st. st\<lparr>or_current := LkTo (path_join ''releases'' (ut_version t)), or_current_new := None\<rparr>))
      (\<lambda>_ st. ?F st \<and> released t st) ?F ?F" for n
    by (rule spec_sys; auto simp: aloft_steps released_def)+
  note steps = this
  have link: "ota_spec ?W (ota_bind (ota_get (\<lambda>st. or_current st = LkDir)) (\<lambda>directory.
       ota_seq (ota_demand (\<not> directory) ''1'')
      (ota_seq
         (ota_sys id (\<lambda>st. st\<lparr>or_current := LkTo (path_join ''releases'' (ut_version t)), or_current_new := None\<rparr>)) ota_call)))
      (\<lambda>_ st. ?F st \<and> released t st) ?F ?F"
    unfolding seq_demand
    by (rule spec_bind [where R = "\<lambda>_. ?W"], rule spec_get, simp, rule spec_if, rule spec_seq [OF steps(4) call(3)], rule spec_fail) simp
  show ?thesis unfolding install_sh_def
    by (rule spec_seq [OF call(1) spec_seq [OF steps(1) spec_seq [OF steps(2) spec_seq [OF call(2) spec_seq [OF steps(3) link]]]]])
qed

lemma recover_after_spec: "ota_spec (recoverable st0) (recover_after e) Q (recoverable st0) (recoverable st0)"
  unfolding recover_after_def
proof (rule spec_bind [OF spec_try [OF recover_spec]])
  show "ota_spec (\<lambda>st. case r of Inl _ \<Rightarrow> recoverable st0 st | Inr x \<Rightarrow> undone st0 st)
      (case r of Inl recovery_error \<Rightarrow> ota_fail (e @ ''; '' @ recovery_error) | Inr _ \<Rightarrow> ota_fail e) Q
      (recoverable st0) (recoverable st0)" for r :: "string + bool"
    by (cases r) (auto intro: spec_fail undone_recoverable)
qed

text \<open>What an installation that reports success leaves.\<close>

definition activated :: "ota_root \<Rightarrow> upgrade_transaction \<Rightarrow> ota_root \<Rightarrow> bool" where
  "activated st0 t st \<longleftrightarrow> in_flight st0 t st \<and> released t st \<and>
     (or_transaction st = TfFile DocOther \<or>
      or_transaction st = TfFile (transaction_doc \<lparr> ut_state = TxActivated, ut_version = ut_version t, ut_previous = ut_previous t \<rparr>))"

lemma activated_recoverable: "activated st0 t st \<Longrightarrow> recoverable st0 st"
  by (auto simp: activated_def recoverable_def unconfirmed_doc_def)

lemma activate_spec: "ota_spec (aloft st0 t) (activate t) (\<lambda>_. activated st0 t) (recoverable st0) (recoverable st0)"
proof -
  let ?I = "recoverable st0" and ?A = "\<lambda>st. aloft st0 t st \<and> released t st"
  let ?save = "save_transaction (t\<lparr>ut_state := TxActivated\<rparr>)"
  have save: "ota_spec ?A ?save (\<lambda>_. activated st0 t) ?I ?I"
    unfolding save_transaction_def
    by (rule spec_bind [where R = "\<lambda>_. ?A"], rule spec_get, simp, rule spec_write_yaml [where R = "activated st0 t"])
       (auto simp: aloft_recoverable activated_recoverable activated_def aloft_def publish_transaction_def in_flight_steps
          released_def transaction_doc_def)
  have saved: "ota_spec ?A (ota_bind (ota_try ?save) (\<lambda>saved. case saved of Inl e \<Rightarrow> recover_after e | Inr _ \<Rightarrow> ota_return ()))
      (\<lambda>_. activated st0 t) ?I ?I"
  proof (rule spec_bind [OF spec_try [OF save]])
    show "ota_spec (\<lambda>st. case r of Inl _ \<Rightarrow> ?I st | Inr x \<Rightarrow> activated st0 t st)
        (case r of Inl e \<Rightarrow> recover_after e | Inr _ \<Rightarrow> ota_return ()) (\<lambda>_. activated st0 t) ?I ?I" for r :: "string + unit"
      by (cases r) (auto intro: recover_after_spec spec_return)
  qed
  have look: "ota_spec ?A current_symlink (\<lambda>a st. ?A st \<and> a = Some (path_join ''releases'' (ut_version t))) ?I ?I"
    by (rule ota_spec_weaken [OF current_symlink_spec [where P = ?A and E = ?I and C = ?I]])
       (auto simp: released_def split: option.splits intro: aloft_recoverable)
  have checked: "ota_spec (\<lambda>st. ?A st \<and> a = Some (path_join ''releases'' (ut_version t)))
      (if (case a of Some p \<Rightarrow> path_elements p = path_elements (path_join ''releases'' (ut_version t)) | None \<Rightarrow> False)
       then ota_bind (ota_try ?save) (\<lambda>saved. case saved of Inl e \<Rightarrow> recover_after e | Inr _ \<Rightarrow> ota_return ())
       else recover_after e) (\<lambda>_. activated st0 t) ?I ?I" for a e
  proof (cases "a = Some (path_join ''releases'' (ut_version t))")
    case True
    show ?thesis unfolding True option.case simp_thms if_True by (rule saved)
  qed (simp add: spec_never)
  have run: "ota_spec (aloft st0 t) (install_sh (ut_version t)) (\<lambda>_. ?A) ?I ?I"
    by (rule ota_spec_weaken [OF install_sh_spec]) (auto intro: aloft_recoverable)
  show ?thesis unfolding activate_def
  proof (rule spec_bind [OF spec_try [OF run]])
    show "ota_spec (\<lambda>st. case r of Inl _ \<Rightarrow> ?I st | Inr x \<Rightarrow> ?A st)
        (case r of
           Inl exit_code \<Rightarrow> recover_after (''package installer failed with exit code '' @ exit_code)
         | Inr _ \<Rightarrow> ota_bind current_symlink (\<lambda>active.
             if (case active of Some p \<Rightarrow> path_elements p = path_elements (path_join ''releases'' (ut_version t)) | None \<Rightarrow> False)
             then ota_bind (ota_try ?save) (\<lambda>saved. case saved of Inl e \<Rightarrow> recover_after e | Inr _ \<Rightarrow> ota_return ())
             else recover_after ''package installer did not activate expected release'')) (\<lambda>_. activated st0 t) ?I ?I"
      for r :: "string + unit"
      by (cases r) (auto intro: recover_after_spec spec_bind [OF look checked])
  qed
qed

lemma stays: "ota_keeps (\<lambda>st. st = st0) m \<Longrightarrow> ota_spec (\<lambda>st. st = st0) m (\<lambda>_ st. st = st0) (\<lambda>st. st = st0) (\<lambda>st. st = st0)"
  by (rule keeps_spec)

text \<open>What the checks before the first write have established.\<close>

definition prepared :: "ota_root \<Rightarrow> string option \<Rightarrow> string \<Rightarrow> bool" where
  "prepared st0 linked version \<longleftrightarrow>
     parse_semantic_version version \<noteq> None \<and> release_map st0 version = None \<and>
     (case linked of None \<Rightarrow> True | Some p \<Rightarrow> is_safe_release_target p \<and> release_dir (release_name p) st0)"

lemma prepare_install_spec:
  "ota_spec (\<lambda>st. st = st0) (prepare_install linked version) (\<lambda>_ st. st = st0 \<and> prepared st0 linked version)
     (\<lambda>st. st = st0) (\<lambda>st. st = st0)"
proof -
  have current: "ota_spec (\<lambda>st. st = st0) (check_current linked)
      (\<lambda>_ st. st = st0 \<and> (case linked of None \<Rightarrow> True | Some p \<Rightarrow> is_safe_release_target p \<and> release_dir (release_name p) st0))
      (\<lambda>_. True) (\<lambda>_. True)"
    unfolding check_current_def seq_demand
    by (cases linked)
       (auto intro!: spec_return spec_if spec_fail spec_bind [where R = "\<lambda>b st. st = st0 \<and> b = release_dir (release_name x) st0" for x]
          spec_look spec_demand)
  have taken: "ota_spec (\<lambda>st. st = st0 \<and> F)
      (ota_bind (ota_look (\<lambda>st. release_map st version \<noteq> None)) (\<lambda>taken. ota_demand (\<not> taken) e))
      (\<lambda>_ st. st = st0 \<and> F \<and> release_map st0 version = None) (\<lambda>_. True) (\<lambda>_. True)" for F e
    by (rule spec_bind [where R = "\<lambda>b st. (st = st0 \<and> F) \<and> b = (release_map st0 version \<noteq> None)"], rule spec_look, simp,
        rule spec_demand) auto
  have "ota_spec (\<lambda>st. st = st0) (prepare_install linked version) (\<lambda>_ st. prepared st0 linked version) (\<lambda>_. True) (\<lambda>_. True)"
    unfolding prepare_install_def
    by (rule spec_seq [OF current], rule spec_seq [OF ota_spec_weaken [OF check_anti_rollback_spec
          [where P = "\<lambda>st. st = st0 \<and> (case linked of None \<Rightarrow> True | Some p \<Rightarrow> is_safe_release_target p \<and> release_dir (release_name p) st0)"]]
          ota_spec_weaken [OF taken [where F = "parse_semantic_version version \<noteq> None \<and>
            (case linked of None \<Rightarrow> True | Some p \<Rightarrow> is_safe_release_target p \<and> release_dir (release_name p) st0)"]]])
       (auto simp: prepared_def)
  then show ?thesis by (rule spec_and_keeps [OF keeps_prepare])
qed

lemma prepared_aloft:
  assumes "prepared st0 linked version" and "or_current st0 = (case linked of None \<Rightarrow> LkNone | Some p \<Rightarrow> LkTo p)"
    and "t = \<lparr> ut_state = TxPrepared, ut_version = version, ut_previous = release_text linked \<rparr>"
  shows "aloft st0 t (publish_transaction t written st0)"
proof -
  have v: "is_valid_version version" "plain_name version"
    using assms(1) by (auto simp: prepared_def plain_name_def dest: semantic_version_valid)
  have none: "release_map st0 version = None" using assms(1) by (simp add: prepared_def)
  then have "(release_map st0)(version := None) = release_map st0" by (simp add: fun_upd_idem)
  then show ?thesis using assms v none
    by (auto simp: aloft_def in_flight_def publish_transaction_def unconfirmed_doc_def prepared_def release_text_def
        split: option.splits)
qed

lemma read_current_spec:
  "ota_spec (\<lambda>st. st = st0) read_current
     (\<lambda>linked st. st = st0 \<and> or_current st0 = (case linked of None \<Rightarrow> LkNone | Some p \<Rightarrow> LkTo p))
     (\<lambda>st. st = st0) (\<lambda>st. st = st0)"
  unfolding read_current_def
  by (rule spec_bind [where R = "\<lambda>c st. st = st0 \<and> or_current st0 = c"], rule spec_look, simp)
     (auto split: link.split intro!: spec_return spec_look spec_fail)

lemma install_from_spec:
  assumes "or_transaction st0 = TfNone" and "or_current st0 = (case linked of None \<Rightarrow> LkNone | Some p \<Rightarrow> LkTo p)"
  shows "ota_spec (\<lambda>st. st = st0) (install_from linked version)
     (\<lambda>_. activated st0 \<lparr> ut_state = TxPrepared, ut_version = version, ut_previous = release_text linked \<rparr>)
     (recoverable st0) (recoverable st0)"
proof -
  let ?t = "\<lparr> ut_state = TxPrepared, ut_version = version, ut_previous = release_text linked \<rparr>" and ?I = "recoverable st0"
  have start: "?I st0" by (rule undone_recoverable) (simp add: undone_def same_installation_def assms(1))
  have save: "ota_spec (\<lambda>st. st = st0 \<and> prepared st0 linked version) (save_transaction ?t) (\<lambda>_. aloft st0 ?t) ?I ?I"
    unfolding save_transaction_def
    by (rule spec_bind [where R = "\<lambda>_ st. st = st0 \<and> prepared st0 linked version"], rule spec_get, simp,
        rule spec_write_yaml [where R = "aloft st0 ?t"])
       (auto simp: start aloft_recoverable prepared_aloft [OF _ assms(2)])
  show ?thesis unfolding install_from_def Let_def
    by (rule spec_seq [OF ota_spec_weaken [OF prepare_install_spec] spec_seq [OF save activate_spec]]) (auto simp: start)
qed

lemma install_upgrade_spec:
  assumes "or_transaction st0 = TfNone"
  shows "ota_spec (\<lambda>st. st = st0) (install_upgrade pkg version)
     (\<lambda>r st. recoverable st0 st \<and>
        (ur_activated r \<longrightarrow> activated st0 \<lparr> ut_state = TxPrepared, ut_version = version, ut_previous = ur_previous r \<rparr> st))
     (recoverable st0) (recoverable st0)"
proof -
  let ?Q = "\<lambda>r st. recoverable st0 st \<and>
        (ur_activated r \<longrightarrow> activated st0 \<lparr> ut_state = TxPrepared, ut_version = version, ut_previous = ur_previous r \<rparr> st)"
    and ?link = "\<lambda>linked. or_current st0 = (case linked of None \<Rightarrow> LkNone | Some p \<Rightarrow> LkTo p)"
  have start: "recoverable st0 st0" by (rule undone_recoverable) (simp add: undone_def same_installation_def assms)
  have first: "ota_spec (\<lambda>st. st = st0) (ota_seq (check_package pkg version) read_current)
      (\<lambda>linked st. st = st0 \<and> ?link linked) (recoverable st0) (recoverable st0)"
    by (rule ota_spec_weaken [OF spec_seq [OF stays [OF keeps_check_package] read_current_spec]]) (auto simp: start)
  have second: "ota_spec (\<lambda>st. st = st0 \<and> ?link linked)
      (reported version (release_text linked) (install_from linked version)
        (\<lambda>_. ota_return \<lparr> ur_activated = True, ur_version = version, ur_previous = release_text linked, ur_error = [] \<rparr>))
      ?Q (recoverable st0) (recoverable st0)" for linked
  proof (cases "?link linked")
    case True
    have "ota_spec (\<lambda>st. st = st0 \<and> ?link linked) (install_from linked version)
        (\<lambda>_. activated st0 \<lparr> ut_state = TxPrepared, ut_version = version, ut_previous = release_text linked \<rparr>)
        (recoverable st0) (recoverable st0)"
      by (rule ota_spec_weaken [OF install_from_spec [OF assms True]]) auto
    then show ?thesis by (rule spec_reported) (auto intro!: spec_return intro: activated_recoverable)
  qed (simp add: spec_never)
  show ?thesis unfolding install_upgrade_def by (rule spec_reported [OF first second]) auto
qed

section \<open>After the interruption\<close>

text \<open>Recoveries one after the other, each with its own outcomes, whether they end well or not.\<close>

definition recoveries :: "outcome list list \<Rightarrow> ota_root \<Rightarrow> ota_root" where
  "recoveries scripts st = fold (\<lambda>script st. fst (snd (recover_upgrade st script))) scripts st"

lemma recoveries_keep:
  assumes "ota_keeps I recover_upgrade" and "I st"
  shows "I (recoveries scripts st)"
  using assms(2) unfolding recoveries_def by (induction scripts arbitrary: st) (simp_all add: keeps_any [OF assms(1)])

lemma recover_keeps: "ota_keeps (recoverable st0) recover_upgrade"
  unfolding ota_keeps_def by (rule ota_spec_weaken [OF recover_spec]) (auto intro: undone_recoverable)

lemma install_recoverable:
  assumes "or_transaction st0 = TfNone"
  shows "recoverable st0 (fst (snd (install_upgrade pkg version st0 script)))"
proof -
  have "ota_spec (\<lambda>st. st = st0) (install_upgrade pkg version) (\<lambda>_. recoverable st0) (recoverable st0) (recoverable st0)"
    by (rule ota_spec_weaken [OF install_upgrade_spec [OF assms]]) auto
  moreover obtain r st' s' where m: "install_upgrade pkg version st0 script = (r, st', s')"
    by (cases "install_upgrade pkg version st0 script")
  ultimately have "ota_ends (\<lambda>_. recoverable st0) (recoverable st0) (recoverable st0) r st'" by (auto dest: ota_specD)
  then show ?thesis by (cases r) (simp_all add: m)
qed

text \<open>
  C8: an unconfirmed upgrade leaves no trace. An installation starts on a root without a pending transaction, and may fail in
  any system call or stop anywhere with the machine; recoveries follow, each of which may fail or stop as well. Once one of
  them reports that it is done, the current link, all the releases with their contents, and the version floor are exactly what
  they were before the installation, and no transaction is left.
\<close>

theorem interrupted_upgrade_is_undone:
  assumes "or_transaction st0 = TfNone"
    and "fst (recover_upgrade (recoveries scripts (fst (snd (install_upgrade pkg version st0 script)))) script') = OtaOk recovered"
  shows "undone st0 (fst (snd (recover_upgrade (recoveries scripts (fst (snd (install_upgrade pkg version st0 script)))) script')))"
  by (rule spec_result [OF recover_spec recoveries_keep [OF recover_keeps install_recoverable [OF assms(1)]] assms(2)])

definition sample_start :: ota_root where
  "sample_start =
     \<lparr> or_root = ''/cockpit-system'', or_current = LkTo ''releases/1.0.0'', or_current_new = None,
       or_releases = Some [''1.0.0'' \<mapsto> ReDir True], or_transaction = TfNone, or_floor = FlFile [''1.0.0''] \<rparr>"

theorem interrupted_upgrade_is_undone_witness:
  "undone sample_start (fst (snd (recover_upgrade (recoveries [replicate 12 OcOk @ [OcStopPartial], [OcFail ''EIO'']]
     (fst (snd (install_upgrade (sample_package ''1.2.0'') ''1.2.0'' sample_start (replicate 37 OcOk @ [OcStop]))))) [])))"
  by (rule interrupted_upgrade_is_undone [where recovered = True]) code_simp+

section \<open>Recovery gets there\<close>

text \<open>Computations all of whose calls succeed.\<close>

lemma quiet_simps [simp]:
  "ota_sys half effect st [] = (OtaOk (), effect st, [])"
  "ota_call st [] = (OtaOk (), st, [])"
  "ota_look f st [] = (OtaOk (f st), st, [])"
  "ota_get f st s = (OtaOk (f st), st, s)"
  "ota_return x st s = (OtaOk x, st, s)"
  "sync_path d st [] = (OtaOk (), st, [])"
  "sync_releases st [] = (OtaOk (), st, [])"
  by (simp_all add: ota_sys_def ota_call_def ota_look_def ota_get_def ota_return_def sync_path_def sync_releases_def
      ota_seq_def ota_bind_def ota_throwing_def ota_label_def ota_map_result_def)

lemma quiet_bind: "m st [] = (OtaOk x, st', []) \<Longrightarrow> ota_bind m f st [] = f x st' []"
  by (simp add: ota_bind_def)

lemma quiet_seq: "m st [] = (OtaOk (), st', []) \<Longrightarrow> ota_seq m n st [] = n st' []"
  by (simp add: ota_seq_def ota_bind_def)

lemma quiet_errors [simp]:
  "ota_label what m st s = (OtaOk x, st', s') \<longleftrightarrow> m st s = (OtaOk x, st', s')"
  "ota_throwing m st s = (OtaOk x, st', s') \<longleftrightarrow> m st s = (OtaOk x, st', s')"
  "ota_catch what m st s = (OtaOk x, st', s') \<longleftrightarrow> m st s = (OtaOk x, st', s')"
  by (auto simp: ota_label_def ota_throwing_def ota_catch_def ota_map_result_def split: prod.splits ota_result.splits)

lemma quiet_current_symlink: "current_symlink st [] = (OtaOk (case or_current st of LkTo p \<Rightarrow> Some p | _ \<Rightarrow> None), st, [])"
  by (simp add: current_symlink_def quiet_bind split: link.split)

lemma quiet_remove_release: "plain_name name \<Longrightarrow> remove_release name st [] = (OtaOk (), drop_release name st, [])"
  by (simp add: remove_release_def plain_name_def)

lemma quiet_remove_transaction: "remove_transaction e st [] = (OtaOk (), st\<lparr>or_transaction := TfNone\<rparr>, [])"
proof -
  have "ota_label e (ota_sys id (\<lambda>st. st\<lparr>or_transaction := TfNone\<rparr>)) st [] = (OtaOk (), st\<lparr>or_transaction := TfNone\<rparr>, [])"
    by simp
  then show ?thesis unfolding remove_transaction_def by (simp add: quiet_seq)
qed

lemma quiet_ignore: "ota_ignore (ota_sys half effect) st [] = (OtaOk (), effect st, [])"
  by (simp add: ota_ignore_def ota_map_result_def)

lemma quiet_relink:
  assumes "in_flight st0 t st" and "or_current_new st = None"
  shows "\<exists>st'. (if ut_previous t = [] then unlink_current else relink_current (ut_previous t)) st [] = (OtaOk (), st', [])"
proof (cases "ut_previous t = []")
  case True
  have "or_current st \<noteq> LkDir" using assms(1) by (auto simp: in_flight_def)
  then show ?thesis using True by (simp add: unlink_current_def quiet_bind seq_demand)
next
  case False
  then have p: "is_safe_release_target (ut_previous t)" "release_dir (release_name (ut_previous t)) st0"
    using assms(1) by (auto simp: in_flight_def)
  then have "release_name (ut_previous t) \<noteq> ut_version t"
    using assms(1) by (auto simp: in_flight_def release_dir_def)
  moreover have "release_map st0 = (release_map st)(ut_version t := None)" using assms(1) by (simp add: in_flight_def)
  ultimately have "release_dir (release_name (ut_previous t)) st" using p(2) by (simp add: release_dir_def)
  moreover have "or_current st \<noteq> LkDir" using assms(1) by (auto simp: in_flight_def)
  ultimately show ?thesis using False p(1) assms(2)
    by (simp add: relink_current_def quiet_bind quiet_seq seq_demand)
qed

lemma quiet_rollback:
  assumes "in_flight st0 t st"
  shows "\<exists>st'. rollback_upgrade (ut_previous t) st [] = (OtaOk (), st', [])"
proof -
  let ?a = "case or_current st of LkTo p \<Rightarrow> Some p | _ \<Rightarrow> None" and ?cleared = "st\<lparr>or_current_new := None\<rparr>"
  have v: "is_valid_version (ut_version t)" "plain_name (ut_version t)" using assms by (simp_all add: in_flight_def)
  then have new_safe: "is_safe_release_target (path_join ''releases'' (ut_version t))"
    by (simp add: release_target_safe plain_name_def)
  have known: "known_link t ?a" using assms by (auto simp: in_flight_def known_link_def split: link.split)
  have safe: "case ?a of Some p \<Rightarrow> is_safe_release_target p | None \<Rightarrow> True"
    using assms new_safe by (auto simp: in_flight_def split: link.split)
  obtain st1 where relinked:
    "(if ut_previous t = [] then unlink_current else relink_current (ut_previous t)) ?cleared [] = (OtaOk (), st1, [])"
    using quiet_relink [OF in_flight_steps(1) [OF assms, of None]] by auto
  have dropped: "\<exists>st2. (case ?a of
         Some p \<Rightarrow> if path_elements p \<noteq> path_elements (ut_previous t)
                    then ota_label e (remove_release (release_name p)) else ota_return ()
       | None \<Rightarrow> ota_return ()) st1 [] = (OtaOk (), st2, [])" for e
    using known v by (auto simp: known_link_def release_name_def path_elements_release quiet_remove_release split: option.split)
  obtain st2 where dropped: "(case ?a of
         Some p \<Rightarrow> if path_elements p \<noteq> path_elements (ut_previous t)
                    then ota_label ''remove failed release failed: '' (remove_release (release_name p)) else ota_return ()
       | None \<Rightarrow> ota_return ()) st1 [] = (OtaOk (), st2, [])"
    using dropped by blast
  have linked: "ota_bind current_symlink f st [] = f ?a st []" for f :: "string option \<Rightarrow> unit ota_m"
    by (rule quiet_bind) (rule quiet_current_symlink)
  have cleared: "ota_seq (ota_ignore (ota_sys id (\<lambda>st. st\<lparr>or_current_new := None\<rparr>))) n st [] = n ?cleared []" for n :: "unit ota_m"
    by (rule quiet_seq) (rule quiet_ignore)
  let ?link = "if ut_previous t = [] then unlink_current else relink_current (ut_previous t)"
    and ?drop = "case ?a of
         Some p \<Rightarrow> if path_elements p \<noteq> path_elements (ut_previous t)
                    then ota_label ''remove failed release failed: '' (remove_release (release_name p)) else ota_return ()
       | None \<Rightarrow> ota_return ()"
  have linked_again: "ota_seq ?link n ?cleared [] = n st1 []" for n :: "unit ota_m" by (rule quiet_seq) (rule relinked)
  have dropped_next: "ota_seq ?drop n st1 [] = n st2 []" for n :: "unit ota_m" by (rule quiet_seq) (rule dropped)
  show ?thesis unfolding rollback_upgrade_def
    by (simp only: quiet_errors linked seq_demand if_P [OF safe] cleared linked_again dropped_next) (simp add: quiet_seq)
qed

lemma quiet_load:
  assumes "or_transaction st = TfFile (transaction_doc t)" and "is_valid_version (ut_version t)"
    and "ut_previous t = [] \<or> is_safe_release_target (ut_previous t)"
    and "path_elements (ut_previous t) \<noteq> path_elements (path_join ''releases'' (ut_version t))"
  shows "load_transaction st [] = (OtaOk t, st, [])"
proof -
  have doc: "load_file st [] = (OtaOk (transaction_doc t), st, [])"
    using assms(1) by (simp add: load_file_def quiet_bind parsed_doc_def transaction_doc_def)
  have loaded: "ota_bind load_file f st [] = f (transaction_doc t) st []" for f :: "yaml_doc \<Rightarrow> upgrade_transaction ota_m"
    by (rule quiet_bind) (rule doc)
  show ?thesis unfolding load_transaction_def quiet_errors loaded
    using assms(2-4) by (cases t; cases "ut_state t")
      (simp_all add: transaction_doc_def read_required_scalar_def quiet_bind seq_demand transaction_state_name_def)
qed

lemma in_flight_loads:
  assumes "in_flight st0 t st" and "or_transaction st = TfFile (transaction_doc u)" and "ut_version u = ut_version t"
    and "ut_previous u = ut_previous t"
  shows "load_transaction st [] = (OtaOk u, st, [])"
proof (rule quiet_load [OF assms(2)])
  have v: "is_valid_version (ut_version t)" using assms(1) by (simp add: in_flight_def)
  then show "is_valid_version (ut_version u)" using assms(3) by simp
  show "ut_previous u = [] \<or> is_safe_release_target (ut_previous u)" using assms(1,4) by (auto simp: in_flight_def)
  show "path_elements (ut_previous u) \<noteq> path_elements (path_join ''releases'' (ut_version u))"
    using assms path_elements_release [OF v]
    by (auto simp: in_flight_def release_name_def release_dir_def path_elements_def [of "[]"])
qed

lemma recovery_completes:
  assumes "recoverable st0 st" and "or_transaction st \<noteq> TfFile DocOther"
  shows "\<exists>b st'. recover_upgrade st [] = (OtaOk b, st', [])"
proof (cases "or_transaction st = TfNone")
  case True
  then have "recover_upgrade st [] = (OtaOk False, st, [])" by (simp add: recover_upgrade_def quiet_bind)
  then show ?thesis by blast
next
  case False
  then obtain t where t: "in_flight st0 t st" "unconfirmed_doc (ut_version t) (ut_previous t) (or_transaction st)"
    using assms(1) by (auto simp: recoverable_def undone_def)
  then obtain u where u: "or_transaction st = TfFile (transaction_doc u)" "ut_version u = ut_version t"
    "ut_previous u = ut_previous t" "ut_state u \<noteq> TxConfirmed"
    using assms(2) by (auto simp: unconfirmed_doc_def)
  note loaded = in_flight_loads [OF t(1) u(1-3)]
  obtain st1 where "rollback_upgrade (ut_previous u) st [] = (OtaOk (), st1, [])"
    using quiet_rollback [OF t(1)] u(3) by auto
  moreover have "plain_name (ut_version u)" using t(1) u(2) by (simp add: in_flight_def)
  then have "ota_label e (remove_release (ut_version u)) st [] = (OtaOk (), drop_release (ut_version u) st, [])" for e st
    by (simp add: quiet_remove_release)
  ultimately have undone: "undo_unconfirmed u st [] = (OtaOk (), drop_release (ut_version u) st1, [])"
    unfolding undo_unconfirmed_def by (simp add: quiet_seq)
  have bound: "ota_bind load_transaction f st [] = f u st []" for f :: "upgrade_transaction \<Rightarrow> bool ota_m"
    by (rule quiet_bind) (rule loaded)
  have ended: "ota_seq (remove_transaction e) n st [] = n (st\<lparr>or_transaction := TfNone\<rparr>) []" for e and n :: "bool ota_m" and st
    by (rule quiet_seq) (rule quiet_remove_transaction)
  have reversed: "ota_seq (undo_unconfirmed u) n st [] = n (drop_release (ut_version u) st1) []" for n :: "bool ota_m"
    by (rule quiet_seq) (rule undone)
  have "recover_upgrade st [] = (OtaOk True, (drop_release (ut_version u) st1)\<lparr>or_transaction := TfNone\<rparr>, [])"
    unfolding recover_upgrade_def using u(1,4) by (simp add: quiet_bind bound ended reversed)
  then show ?thesis by blast
qed

text \<open>A transaction file without content stops every recovery: none changes the root and none completes.\<close>

lemma lost_transaction_stuck:
  assumes "or_transaction st = TfFile DocOther"
  shows "fst (snd (recover_upgrade st script)) = st \<and> (\<forall>b. fst (recover_upgrade st script) \<noteq> OtaOk b)"
proof -
  let ?S = "\<lambda>st'. st' = st"
  have load: "ota_spec ?S load_file (\<lambda>doc st'. st' = st \<and> doc = DocOther) ?S ?S"
    unfolding load_file_def
    by (rule spec_bind [where R = "\<lambda>f st'. st' = st \<and> f = TfFile DocOther"], rule spec_look, simp add: assms)
      (auto intro: spec_return spec_never simp: parsed_doc_def split: transaction_file.splits option.splits yaml_doc.splits)
  have loaded: "ota_spec ?S load_transaction (\<lambda>_ _. False) ?S ?S"
    unfolding load_transaction_def
    by (rule spec_errors, rule spec_bind [OF load]) (auto intro: spec_fail spec_raise spec_never split: yaml_doc.split)
  have "ota_spec ?S recover_upgrade (\<lambda>_ _. False) ?S ?S"
    unfolding recover_upgrade_def
    by (rule spec_errors, rule spec_bind [where R = "\<lambda>f st'. st' = st \<and> f = TfFile DocOther"], rule spec_look, simp add: assms)
      (auto intro!: spec_bind [OF ota_spec_weaken [OF loaded]] intro: spec_never split: transaction_file.split)
  then have "ota_ends (\<lambda>_ _. False) ?S ?S r st'" if "recover_upgrade st script = (r, st', script')" for r st' script'
    using that by (blast dest: ota_specD)
  then show ?thesis
    by (cases "recover_upgrade st script") (fastforce simp: ota_ends_def split: ota_result.splits)
qed

text \<open>
  That happens: the disk is full when the transaction file is closed, which goes unnoticed, and the machine stops later.
\<close>

lemma full_disk_blocks_recovery:
  fixes st defines "st \<equiv> fst (snd (install_upgrade (sample_package ''1.2.0'') ''1.2.0'' sample_start
    (replicate 14 OcOk @ [OcFail ''ENOSPC''] @ replicate 12 OcOk @ [OcStop])))"
  shows "fst (snd (recover_upgrade st script)) = st \<and> (\<forall>b. fst (recover_upgrade st script) \<noteq> OtaOk b)"
proof (rule lost_transaction_stuck)
  show "or_transaction st = TfFile DocOther" unfolding st_def by code_simp
qed

text \<open>
  C12: whether recovery can get there, for every state in which an interrupted installation and any interrupted recoveries may
  have left the root: unless the transaction file lost its content, one more recovery whose system calls succeed
  completes and puts the old installation back. If the file lost its content, no recovery ever completes or changes the root.
\<close>

theorem recovery_succeeds_when_calls_do:
  assumes "or_transaction st0 = TfNone"
    and "st = recoveries scripts (fst (snd (install_upgrade pkg version st0 script)))"
  shows "if or_transaction st = TfFile DocOther
    then \<forall>script'. fst (snd (recover_upgrade st script')) = st \<and> (\<forall>b. fst (recover_upgrade st script') \<noteq> OtaOk b)
    else \<exists>recovered st'. recover_upgrade st [] = (OtaOk recovered, st', []) \<and> undone st0 st'"
proof (cases "or_transaction st = TfFile DocOther")
  case True
  then show ?thesis using lost_transaction_stuck by auto
next
  case False
  have r: "recoverable st0 st" unfolding assms(2) by (rule recoveries_keep [OF recover_keeps install_recoverable [OF assms(1)]])
  then obtain b st' where "recover_upgrade st [] = (OtaOk b, st', [])" using recovery_completes False by blast
  moreover from this have "undone st0 st'" by (rule ota_spec_returns [OF recover_spec r])
  ultimately show ?thesis using False by auto
qed

theorem recovery_succeeds_when_calls_do_witness:
  "\<exists>recovered st'. recover_upgrade (recoveries [replicate 12 OcOk @ [OcStopPartial]]
       (fst (snd (install_upgrade (sample_package ''1.2.0'') ''1.2.0'' sample_start (replicate 37 OcOk @ [OcStop]))))) [] =
     (OtaOk recovered, st', []) \<and> undone sample_start st'"
proof -
  let ?st = "recoveries [replicate 12 OcOk @ [OcStopPartial]]
       (fst (snd (install_upgrade (sample_package ''1.2.0'') ''1.2.0'' sample_start (replicate 37 OcOk @ [OcStop]))))"
  have "or_transaction sample_start = TfNone" "or_transaction ?st \<noteq> TfFile DocOther" by code_simp+
  with recovery_succeeds_when_calls_do [OF this(1) refl, of "[replicate 12 OcOk @ [OcStopPartial]]" "sample_package ''1.2.0''"
      "''1.2.0''" "replicate 37 OcOk @ [OcStop]"]
  show ?thesis by (simp only: if_False)
qed

section \<open>Confirmation\<close>

text \<open>The new release counts, with \<open>f\<close> as its place in the order of versions; the transaction file may still be there.\<close>

definition committed :: "upgrade_transaction \<Rightarrow> semantic_version \<Rightarrow> (string \<rightharpoonup> release) \<Rightarrow> ota_root \<Rightarrow> bool" where
  "committed t f rs st \<longleftrightarrow> released t st \<and> release_map st = rs \<and>
     (or_transaction st = TfFile DocOther \<or>
      or_transaction st = TfFile (transaction_doc \<lparr> ut_state = TxConfirmed, ut_version = ut_version t, ut_previous = ut_previous t \<rparr>) \<or>
      or_transaction st = TfNone \<and> floor_guards f st)"

definition settled :: "upgrade_transaction \<Rightarrow> semantic_version \<Rightarrow> (string \<rightharpoonup> release) \<Rightarrow> ota_root \<Rightarrow> bool" where
  "settled t f rs st \<longleftrightarrow> committed t f rs st \<and> or_transaction st = TfNone"

definition decided :: "upgrade_transaction \<Rightarrow> semantic_version \<Rightarrow> (string \<rightharpoonup> release) \<Rightarrow> ota_root \<Rightarrow> bool" where
  "decided t f rs st \<longleftrightarrow> committed t f rs st \<and> or_transaction st \<noteq> TfNone"

lemma decided_floor [simp]: "decided t f rs (write_floor v w st) = decided t f rs st"
  by (auto simp: decided_def committed_def released_def write_floor_def)

lemma spec_disj: "ota_spec P m Q E C \<Longrightarrow> ota_spec P' m Q E C \<Longrightarrow> ota_spec (\<lambda>st. P st \<or> P' st) m Q E C"
  unfolding ota_spec_def by blast

lemma persist_decided:
  assumes "parse_semantic_version (ut_version t) = Some f"
  shows "ota_spec (decided t f rs) (persist_version_floor (ut_version t)) (\<lambda>_ st. decided t f rs st \<and> floor_guards f st)
     (decided t f rs) (decided t f rs)"
proof (rule spec_and_keeps)
  show "ota_keeps (decided t f rs) (persist_version_floor (ut_version t))"
    unfolding persist_version_floor_def Let_def by (intro ota_rules) simp_all
  show "ota_spec (decided t f rs) (persist_version_floor (ut_version t)) (\<lambda>_. floor_guards f) (\<lambda>_. True) (\<lambda>_. True)"
    by (rule ota_spec_weaken [OF persist_guards [OF assms]]) auto
qed

lemma remove_decided:
  "ota_spec (\<lambda>st. decided t f rs st \<and> floor_guards f st) (remove_transaction e) (\<lambda>_. settled t f rs) (committed t f rs) (committed t f rs)"
  by (rule remove_transaction_spec) (auto simp: decided_def settled_def committed_def released_def)

lemma committed_recovers:
  assumes "parse_semantic_version (ut_version t) = Some f"
  shows "ota_spec (committed t f rs) recover_upgrade (\<lambda>_. settled t f rs) (committed t f rs) (committed t f rs)"
proof -
  let ?I = "committed t f rs"
  have loads_confirmed: "ut_state u = TxConfirmed \<and> ut_version u = ut_version t" if "decided t f rs st" "loads u st" for u st
    using that by (auto simp: decided_def committed_def loads_def stored_doc_def transaction_doc_def transaction_state_name_def
        split: transaction_state.splits)
  have finish: "ota_spec (\<lambda>st. decided t f rs st \<and> loads u st)
      (ota_seq (if ut_state u = TxConfirmed then finish_confirmed u else undo_unconfirmed u)
        (ota_seq (remove_transaction e) (ota_return True))) (\<lambda>_. settled t f rs) ?I ?I" for u e
  proof (cases "\<exists>st. decided t f rs st \<and> loads u st")
    case True
    then have u: "ut_state u = TxConfirmed" "ut_version u = ut_version t" using loads_confirmed by blast+
    have quiet: "ota_spec (decided t f rs) m (\<lambda>_. decided t f rs) (decided t f rs) (decided t f rs)"
      if "ota_keeps (decided t f rs) m" for m :: "'x ota_m"
      using that by (rule keeps_spec)
    have "ota_spec (decided t f rs) (finish_confirmed u) (\<lambda>_ st. decided t f rs st \<and> floor_guards f st) ?I ?I"
      unfolding finish_confirmed_def u(2)
      by (rule ota_spec_weaken, rule spec_bind [OF quiet], intro ota_rules, rule spec_bind [OF quiet], intro ota_rules,
          rule spec_seq [OF quiet], intro ota_rules, rule persist_decided [OF assms]) (auto simp: decided_def)
    moreover have "ota_spec (settled t f rs) (ota_return True) (\<lambda>_. settled t f rs) ?I ?I" by (rule spec_return)
    ultimately have "ota_spec (decided t f rs) (ota_seq (finish_confirmed u) (ota_seq (remove_transaction e) (ota_return True)))
        (\<lambda>_. settled t f rs) ?I ?I" by (blast intro: spec_seq remove_decided)
    then show ?thesis unfolding if_P [OF u(1)] by (rule ota_spec_weaken) auto
  qed (auto intro: spec_never)
  have load: "ota_spec (decided t f rs)
      (ota_bind load_transaction (\<lambda>u.
        ota_seq (if ut_state u = TxConfirmed then finish_confirmed u else undo_unconfirmed u)
          (ota_seq (remove_transaction e) (ota_return True)))) (\<lambda>_. settled t f rs) ?I ?I" for e
    by (rule spec_bind [OF ota_spec_weaken [OF load_transaction_spec [where I = "decided t f rs"]] finish]) (auto simp: decided_def)
  show ?thesis unfolding recover_upgrade_def
  proof (rule spec_errors, rule spec_bind [where R = "\<lambda>h st. ?I st \<and> or_transaction st = h"])
    show "ota_spec ?I (ota_look or_transaction) (\<lambda>h st. ?I st \<and> or_transaction st = h) ?I ?I" by (rule spec_look) simp
    show "ota_spec (\<lambda>st. ?I st \<and> or_transaction st = h)
        (case h of
           TfNone \<Rightarrow> ota_return False
         | TfFile _ \<Rightarrow> ota_bind load_transaction (\<lambda>t.
             ota_seq (if ut_state t = TxConfirmed then finish_confirmed t else undo_unconfirmed t)
               (ota_seq (remove_transaction ''remove upgrade transaction failed: '') (ota_return True)))
         | _ \<Rightarrow> ota_fail ''upgrade transaction path is not a regular file'') (\<lambda>_. settled t f rs) ?I ?I" for h
      by (cases h) (auto intro: spec_return spec_fail ota_spec_weaken [OF load] simp: settled_def decided_def)
  qed
qed

text \<open>A confirmation either has not counted yet, and the upgrade can still be undone, or it has.\<close>

lemma confirm_spec:
  assumes "parse_semantic_version (ut_version t) = Some f"
  shows "ota_spec (\<lambda>st. activated st0 t st \<and> release_map st = rs) (confirm_upgrade version)
     (\<lambda>_. settled t f rs) (\<lambda>st. recoverable st0 st \<or> committed t f rs st)
     (\<lambda>st. recoverable st0 st \<or> committed t f rs st)"
proof -
  let ?I = "\<lambda>st. recoverable st0 st \<or> committed t f rs st" and ?A = "\<lambda>st. activated st0 t st \<and> release_map st = rs"
  have start: "?A st \<Longrightarrow> ?I st" for st using activated_recoverable by blast
  have quiet: "ota_spec ?A m (\<lambda>_. ?A) ?I ?I" if "ota_keeps ?A m" for m :: "'x ota_m"
    by (rule ota_spec_weaken [OF keeps_spec [OF that]]) (auto intro: activated_recoverable)
  have save: "ota_spec ?A (save_transaction (u\<lparr>ut_state := TxConfirmed\<rparr>)) (\<lambda>_. decided t f rs) ?I ?I"
    if "ut_version u = ut_version t" "ut_previous u = ut_previous t" for u
    unfolding save_transaction_def
    by (rule spec_bind [OF quiet], intro ota_rules, rule spec_write_yaml [where R = "decided t f rs"])
       (auto intro: activated_recoverable simp: that decided_def committed_def activated_def publish_transaction_def released_def transaction_doc_def)
  have rest: "ota_spec (\<lambda>st. ?A st \<and> loads u st)
      (ota_seq (ota_demand (ut_state u = TxActivated \<and> ut_version u = version) e)
      (ota_bind current_symlink (\<lambda>active.
       ota_seq (ota_demand (case active of
                   Some p \<Rightarrow> path_elements p = path_elements (path_join ''releases'' (ut_version u)) | None \<Rightarrow> False) e')
      (ota_seq (save_transaction (u\<lparr>ut_state := TxConfirmed\<rparr>))
      (ota_seq (persist_version_floor (ut_version u)) (remove_transaction e''))))))
      (\<lambda>_. settled t f rs) ?I ?I" for u e e' e''
  proof (cases "\<exists>st. ?A st \<and> loads u st")
    case True
    then have u: "ut_version u = ut_version t" "ut_previous u = ut_previous t"
      by (auto simp: activated_def loads_def stored_doc_def transaction_doc_def)
    have floor: "ota_spec (decided t f rs) (persist_version_floor (ut_version u))
        (\<lambda>_ st. decided t f rs st \<and> floor_guards f st) ?I ?I"
      unfolding u(1) by (rule ota_spec_weaken [OF persist_decided [OF assms]]) (auto simp: decided_def)
    have finish: "ota_spec (\<lambda>st. decided t f rs st \<and> floor_guards f st) (remove_transaction e'') (\<lambda>_. settled t f rs) ?I ?I"
      by (rule ota_spec_weaken [OF remove_decided]) auto
    have "ota_spec ?A
        (ota_seq (ota_demand (ut_state u = TxActivated \<and> ut_version u = version) e)
        (ota_bind current_symlink (\<lambda>active.
         ota_seq (ota_demand (case active of
                     Some p \<Rightarrow> path_elements p = path_elements (path_join ''releases'' (ut_version u)) | None \<Rightarrow> False) e')
        (ota_seq (save_transaction (u\<lparr>ut_state := TxConfirmed\<rparr>))
        (ota_seq (persist_version_floor (ut_version u)) (remove_transaction e''))))))
        (\<lambda>_. settled t f rs) ?I ?I"
      by (rule spec_seq [OF quiet], intro ota_rules, rule spec_bind [OF quiet], intro ota_rules, rule spec_seq [OF quiet],
          intro ota_rules, rule spec_seq [OF save [OF u] spec_seq [OF floor finish]])
    then show ?thesis by (rule ota_spec_weaken) auto
  qed (auto intro: spec_never)
  show ?thesis unfolding confirm_upgrade_def
    by (rule spec_errors, rule spec_bind [OF ota_spec_weaken [OF load_transaction_spec [where I = ?A]] rest]) (auto intro: activated_recoverable)
qed

text \<open>
  C10: a confirmation counts or it does not. After an installation that reported success, the confirmation may fail or stop
  anywhere, and recoveries may too; once a recovery reports that it is done, either the old installation is back, exactly as it
  was, or the new release is the current one, all releases are as the installation left them, and the floor keeps every
  version up to the confirmed one out. There is nothing in between.
\<close>

theorem confirmation_is_atomic:
  assumes "or_transaction st0 = TfNone"
    and "fst (install_upgrade pkg version st0 script) = OtaOk r" and "ur_activated r"
    and "st1 = fst (snd (install_upgrade pkg version st0 script))"
    and "st2 = recoveries scripts (fst (snd (confirm_upgrade version st1 script')))"
    and "fst (recover_upgrade st2 script'') = OtaOk recovered"
    and "st3 = fst (snd (recover_upgrade st2 script''))"
  shows "undone st0 st3 \<or>
     or_transaction st3 = TfNone \<and> or_current st3 = LkTo (path_join ''releases'' version) \<and>
       release_map st3 = release_map st1 \<and> release_map st3 version = Some (ReDir True) \<and>
       (\<exists>f. parse_semantic_version version = Some f \<and> floor_guards f st3)"
proof -
  let ?t = "\<lparr> ut_state = TxPrepared, ut_version = version, ut_previous = ur_previous r \<rparr>"
  have act: "activated st0 ?t st1"
    using spec_result [OF install_upgrade_spec [OF assms(1)] refl assms(2)] assms(3) unfolding assms(4) by blast
  then obtain f where f: "parse_semantic_version version = Some f" by (auto simp: activated_def in_flight_def)
  let ?C = "committed ?t f (release_map st1)"
  have "ota_spec (\<lambda>st. activated st0 ?t st \<and> release_map st = release_map st1) (confirm_upgrade version)
      (\<lambda>_. settled ?t f (release_map st1)) (\<lambda>st. recoverable st0 st \<or> ?C st) (\<lambda>st. recoverable st0 st \<or> ?C st)"
    by (rule confirm_spec) (simp add: f)
  moreover obtain res stc sc where c: "confirm_upgrade version st1 script' = (res, stc, sc)"
    by (cases "confirm_upgrade version st1 script'")
  ultimately have "ota_ends (\<lambda>_. settled ?t f (release_map st1)) (\<lambda>st. recoverable st0 st \<or> ?C st)
      (\<lambda>st. recoverable st0 st \<or> ?C st) res stc" using act by (blast dest: ota_specD)
  then have confirmed: "recoverable st0 stc \<or> ?C stc" by (cases res) (simp_all add: settled_def)
  have committed_keeps: "ota_keeps ?C recover_upgrade"
    unfolding ota_keeps_def by (rule ota_spec_weaken [OF committed_recovers]) (auto simp: f settled_def)
  have "recoverable st0 st2 \<or> ?C st2"
    using confirmed recoveries_keep [OF recover_keeps] recoveries_keep [OF committed_keeps] unfolding assms(5) c by auto
  then have "undone st0 st3 \<or> settled ?t f (release_map st1) st3"
  proof
    assume "recoverable st0 st2"
    then show ?thesis using spec_result [OF recover_spec _ assms(6)] assms(7) by blast
  next
    assume "?C st2"
    moreover have "parse_semantic_version (ut_version ?t) = Some f" by (simp add: f)
    ultimately show ?thesis using spec_result [OF committed_recovers _ assms(6)] assms(7) by blast
  qed
  then show ?thesis using f by (auto simp: settled_def committed_def released_def)
qed

definition sample_activated :: ota_root where
  "sample_activated = fst (snd (install_upgrade (sample_package ''1.2.0'') ''1.2.0'' sample_start []))"

definition sample_confirming :: ota_root where
  "sample_confirming = recoveries [[OcStop]] (fst (snd (confirm_upgrade ''1.2.0'' sample_activated (replicate 14 OcOk @ [OcStop]))))"

theorem confirmation_is_atomic_witness:
  "undone sample_start (fst (snd (recover_upgrade sample_confirming []))) \<or>
     or_transaction (fst (snd (recover_upgrade sample_confirming []))) = TfNone \<and>
     or_current (fst (snd (recover_upgrade sample_confirming []))) = LkTo (path_join ''releases'' ''1.2.0'') \<and>
     release_map (fst (snd (recover_upgrade sample_confirming []))) = release_map sample_activated \<and>
     release_map (fst (snd (recover_upgrade sample_confirming []))) ''1.2.0'' = Some (ReDir True) \<and>
     (\<exists>f. parse_semantic_version ''1.2.0'' = Some f \<and> floor_guards f (fst (snd (recover_upgrade sample_confirming []))))"
  by (rule confirmation_is_atomic [where recovered = True and
        r = "\<lparr> ur_activated = True, ur_version = ''1.2.0'', ur_previous = ''releases/1.0.0'', ur_error = [] \<rparr>",
        OF _ _ _ sample_activated_def sample_confirming_def _ refl]) code_simp+

end
