(* ===== verification/Safe_Ota.thy ===== *)
theory Safe_Ota
  imports Upgrade_Recovery
begin

text \<open>
  \<open>ExecuteSafeOta\<close> of \<open>tools/safe-ota/action/safe_ota.cc\<close>: recovery, the checks of the request, the installation in this
  process or in the upgrader, the wait for the new release, and confirmation or rollback. A command to the Navigator is a call
  that may fail; the waits are given by what they end in. The upgrader is a process of its own, which may die without a
  result, and which a switch may have started although its answer was lost. One thing is assumed: an upgrader that gave no
  result before the timeout, or none that can be read, is dead when the tool recovers. The code does not see to it: it only
  asks the Navigator for the normal mode, and goes on when that fails.
\<close>

section \<open>The files between the processes\<close>

record upgrade_request =
  rq_package_root :: string
  rq_install_root :: string
  rq_public_key :: string
  rq_version :: string

definition absolute_path :: "string \<Rightarrow> string \<Rightarrow> string" where
  "absolute_path cwd p = (if is_absolute p then p else path_join cwd p)"

definition request_doc :: "string \<Rightarrow> upgrade_request \<Rightarrow> yaml_doc" where
  "request_doc cwd rq =
     DocMap [(''package_root'', Some (absolute_path cwd (rq_package_root rq))),
             (''install_root'', Some (absolute_path cwd (rq_install_root rq))),
             (''public_key'', Some (absolute_path cwd (rq_public_key rq))), (''version'', Some (rq_version rq))]"

definition required_scalar :: "(string \<times> string option) list \<Rightarrow> string \<Rightarrow> string + string" where
  "required_scalar entries key =
     (case map_of entries key of Some (Some v) \<Rightarrow> Inr v | _ \<Rightarrow> Inl (''upgrade state requires scalar '' @ key))"

definition load_upgrade_request :: "yaml_doc \<Rightarrow> string + upgrade_request" where
  "load_upgrade_request doc =
     (case doc of
        DocBad e \<Rightarrow> Inl (''load upgrade request failed: '' @ e)
      | DocOther \<Rightarrow> Inl []
      | DocMap entries \<Rightarrow>
          sum_bind (required_scalar entries ''package_root'') (\<lambda>package_root.
          sum_bind (required_scalar entries ''install_root'') (\<lambda>install_root.
          sum_bind (required_scalar entries ''public_key'') (\<lambda>public_key.
          sum_bind (required_scalar entries ''version'') (\<lambda>version.
            Inr \<lparr> rq_package_root = package_root, rq_install_root = install_root, rq_public_key = public_key,
                  rq_version = version \<rparr>)))))"

definition result_doc :: "upgrade_result \<Rightarrow> yaml_doc" where
  "result_doc r =
     DocMap [(''state'', Some (if ur_activated r then ''activated'' else ''failed'')), (''version'', Some (ur_version r)),
             (''previous_release'', Some (ur_previous r)), (''error'', Some (ur_error r))]"

definition load_upgrade_result :: "yaml_doc \<Rightarrow> string + upgrade_result" where
  "load_upgrade_result doc =
     (case doc of
        DocBad e \<Rightarrow> Inl (''load upgrade result failed: '' @ e)
      | DocOther \<Rightarrow> Inl []
      | DocMap entries \<Rightarrow>
          sum_bind (required_scalar entries ''state'') (\<lambda>state.
          sum_bind (required_scalar entries ''version'') (\<lambda>version.
          sum_bind (required_scalar entries ''previous_release'') (\<lambda>previous_release.
          sum_bind (required_scalar entries ''error'') (\<lambda>e.
            if state \<noteq> ''activated'' \<and> state \<noteq> ''failed'' then Inl ''upgrade result state is invalid''
            else Inr \<lparr> ur_activated = (state = ''activated''), ur_version = version, ur_previous = previous_release,
                       ur_error = e \<rparr>)))))"

lemma result_doc_load: "load_upgrade_result (result_doc r) = Inr r"
  by (cases r) (simp add: load_upgrade_result_def result_doc_def required_scalar_def sum_bind_def)

text \<open>
  What the tool and the upgrader tell each other arrives: a result is read as it was saved, and a request with its paths
  made absolute, which makes no difference to a path that is absolute already.
\<close>

theorem upgrade_files_round_trip:
  "load_upgrade_result (result_doc r) = Inr r \<and>
   load_upgrade_request (request_doc cwd rq) =
     Inr \<lparr> rq_package_root = absolute_path cwd (rq_package_root rq), rq_install_root = absolute_path cwd (rq_install_root rq),
           rq_public_key = absolute_path cwd (rq_public_key rq), rq_version = rq_version rq \<rparr>"
  by (simp add: result_doc_load load_upgrade_request_def request_doc_def required_scalar_def sum_bind_def)

section \<open>The tool\<close>

datatype exit_code = ExitSuccess | ExitInvalidArguments | ExitOperationFailed | ExitUnhealthy

record safe_ota_options =
  so_recover_only :: bool
  so_standalone :: bool
  so_package_root :: string
  so_confirmed_version :: string

text \<open>What the tool finds around the root: the directory for packages, and how its waits end.\<close>

record safe_ota_world =
  sw_incoming :: string
  sw_incoming_is_dir :: bool
  sw_ready :: "string + unit"
  sw_health :: "string + unit"
  sw_ready_again :: "string + unit"

definition is_within_directory :: "string \<Rightarrow> string \<Rightarrow> bool" where
  "is_within_directory path directory \<longleftrightarrow>
     (case lexically_relative (path_elements path) (path_elements directory) of
        None \<Rightarrow> False
      | Some relative \<Rightarrow> relative \<noteq> [''.''] \<and> hd relative \<noteq> ''/'' \<and> hd relative \<noteq> ''..'')"

definition send_runtime_command :: "string \<Rightarrow> unit ota_m" where
  "send_runtime_command command = ota_call"

text \<open>A process of its own: however it ends, this one goes on.\<close>

definition ota_isolated :: "'a ota_m \<Rightarrow> 'a option ota_m" where
  "ota_isolated = ota_map_result (\<lambda>r. case r of OtaOk x \<Rightarrow> OtaOk (Some x) | _ \<Rightarrow> OtaOk None)"

definition and_recover :: "string \<Rightarrow> (string + 'a) ota_m" where
  "and_recover e =
     ota_bind (ota_try recover_upgrade) (\<lambda>r. ota_return (Inl (case r of Inl e' \<Rightarrow> e @ ''; '' @ e' | Inr _ \<Rightarrow> e)))"

definition standalone_install :: "upgrade_package \<Rightarrow> string \<Rightarrow> (string + upgrade_result) ota_m" where
  "standalone_install pkg version =
     ota_bind (install_upgrade pkg version) (\<lambda>result.
       if ur_activated result then ota_return (Inr result) else and_recover (ur_error result))"

text \<open>The worker of \<open>UpgraderRuntime\<close>, and the wait for its result file.\<close>

definition upgrader_result :: "upgrade_package \<Rightarrow> string \<Rightarrow> (string + upgrade_result) ota_m" where
  "upgrader_result pkg version =
     ota_bind (ota_isolated (install_upgrade pkg version)) (\<lambda>result.
       case result of
         None \<Rightarrow> ota_return (Inl ''upgrader did not publish a result before timeout'')
       | Some r \<Rightarrow> ota_bind (ota_try ota_call) (\<lambda>published. ota_return (case published of Inl e \<Rightarrow> Inl e | Inr _ \<Rightarrow> load_upgrade_result (result_doc r))))"

definition reexec_after :: "string \<Rightarrow> (string + upgrade_result) ota_m" where
  "reexec_after e =
     ota_bind (ota_try recover_upgrade) (\<lambda>r.
       case r of
         Inl rollback_error \<Rightarrow> ota_return (Inl (e @ ''; '' @ rollback_error))
       | Inr _ \<Rightarrow>
           ota_bind (ota_try (send_runtime_command ''reexec normal'')) (\<lambda>restored.
             ota_return (Inl (case restored of
                Inl restore_error \<Rightarrow> e @ ''; rollback activated but normal mode restore failed: '' @ restore_error
              | Inr _ \<Rightarrow> e @ ''; rolled back''))))"

text \<open>The three steps of the installation by the upgrader, last one first.\<close>

definition after_result :: "string + upgrade_result \<Rightarrow> (string + upgrade_result) ota_m" where
  "after_result result =
     (case result of
        Inl e \<Rightarrow> ota_seq (ota_ignore (send_runtime_command ''switch normal'')) (and_recover e)
      | Inr r \<Rightarrow>
          if \<not> ur_activated r
          then ota_seq (ota_ignore (send_runtime_command ''switch normal'')) (and_recover (ur_error r))
          else ota_bind (ota_try (send_runtime_command ''reexec normal'')) (\<lambda>sent.
                 case sent of Inl e \<Rightarrow> reexec_after e | Inr _ \<Rightarrow> ota_return (Inr r)))"

text \<open>
  A switch that failed may have been carried out, with its answer lost: then the upgrader runs although the tool gives up. A
  script that stops it at its first call is an upgrader that was never started.
\<close>

definition after_switch :: "upgrade_package \<Rightarrow> string \<Rightarrow> string + unit \<Rightarrow> (string + upgrade_result) ota_m" where
  "after_switch pkg version switched =
     (case switched of
        Inl e \<Rightarrow> ota_bind (ota_isolated (install_upgrade pkg version)) (\<lambda>_. ota_seq (ota_ignore ota_call) (ota_return (Inl e)))
      | Inr _ \<Rightarrow> ota_bind (upgrader_result pkg version) after_result)"

definition online_install :: "upgrade_package \<Rightarrow> string \<Rightarrow> (string + upgrade_result) ota_m" where
  "online_install pkg version =
     ota_seq (ota_ignore ota_call)
    (ota_bind (ota_try (write_yaml ''run/upgrade-request.yaml'' (ota_get (\<lambda>_. False)) (\<lambda>_ st. st))) (\<lambda>saved.
     case saved of
       Inl e \<Rightarrow> ota_return (Inl e)
     | Inr _ \<Rightarrow> ota_bind (ota_try (send_runtime_command ''switch upgrade'')) (after_switch pkg version)))"

text \<open>The end of it: the release is not healthy, or it is confirmed.\<close>

definition roll_back :: "safe_ota_options \<Rightarrow> safe_ota_world \<Rightarrow> upgrade_result \<Rightarrow> string \<Rightarrow> (exit_code \<times> string) ota_m" where
  "roll_back op sw r e =
     ota_bind (ota_try recover_upgrade) (\<lambda>recovered.
     case recovered of
       Inl rollback_error \<Rightarrow> ota_return (ExitOperationFailed, e @ ''; '' @ rollback_error)
     | Inr _ \<Rightarrow>
         if so_standalone op then ota_return (ExitUnhealthy, e @ ''; rolled back to '' @ ur_previous r)
         else
           ota_bind (ota_try (send_runtime_command ''reexec normal'')) (\<lambda>sent.
             ota_return
               (case sent of
                  Inl reload_error \<Rightarrow> (ExitOperationFailed, e @ ''; rollback activated but runtime reexec failed: '' @ reload_error)
                | Inr _ \<Rightarrow>
                    (case sw_ready_again sw of
                       Inl reload_error \<Rightarrow> (ExitOperationFailed, e @ ''; rollback Navigator did not become ready: '' @ reload_error)
                     | Inr _ \<Rightarrow> (ExitUnhealthy, e @ ''; rolled back to '' @ ur_previous r)))))"

definition confirm_release :: "safe_ota_options \<Rightarrow> safe_ota_world \<Rightarrow> string \<Rightarrow> (exit_code \<times> string) ota_m" where
  "confirm_release op sw version =
     ota_bind (ota_try (confirm_upgrade version)) (\<lambda>confirmed.
     case confirmed of
       Inr _ \<Rightarrow> ota_return (ExitSuccess, ''upgrade confirmed version='' @ version)
     | Inl e \<Rightarrow>
         ota_bind (ota_try recover_upgrade) (\<lambda>recovered.
           let e' = (case recovered of Inl recovery_error \<Rightarrow> e @ ''; '' @ recovery_error | Inr _ \<Rightarrow> e) in
           if so_standalone op then ota_return (ExitOperationFailed, e')
           else
             ota_bind (ota_try (send_runtime_command ''reexec normal'')) (\<lambda>sent.
               ota_return (ExitOperationFailed,
                 (case sent of
                    Inl reload_error \<Rightarrow> e' @ ''; runtime reexec failed: '' @ reload_error
                  | Inr _ \<Rightarrow>
                      (case sw_ready_again sw of
                         Inl reload_error \<Rightarrow> e' @ ''; rollback Navigator did not become ready: '' @ reload_error
                       | Inr _ \<Rightarrow> e'))))))"

definition run_upgrade :: "safe_ota_options \<Rightarrow> safe_ota_world \<Rightarrow> upgrade_package \<Rightarrow> string \<Rightarrow> (exit_code \<times> string) ota_m" where
  "run_upgrade op sw pkg version =
     ota_bind (if so_standalone op then standalone_install pkg version else online_install pkg version) (\<lambda>installed.
     case installed of
       Inl e \<Rightarrow> ota_return (ExitOperationFailed, e)
     | Inr r \<Rightarrow>
         (case if so_standalone op then Inr () else sw_ready sw of
            Inl e \<Rightarrow> roll_back op sw r e
          | Inr _ \<Rightarrow>
              (case sw_health sw of
                 Inl e \<Rightarrow> roll_back op sw r e
               | Inr _ \<Rightarrow> confirm_release op sw version)))"

text \<open>The tool after its first recovery.\<close>

definition after_recovery :: "safe_ota_options \<Rightarrow> safe_ota_world \<Rightarrow> upgrade_package \<Rightarrow> (exit_code \<times> string) ota_m" where
  "after_recovery op sw pkg =
     (if so_recover_only op then ota_return (ExitSuccess, [])
      else if \<not> so_standalone op \<and> (\<not> sw_incoming_is_dir sw \<or> \<not> is_within_directory (so_package_root op) (sw_incoming sw))
      then ota_return (ExitInvalidArguments, ''online OTA package must be inside '' @ sw_incoming sw)
      else
        ota_bind (ota_try (read_package_version pkg)) (\<lambda>read.
        case read of Inl e \<Rightarrow> ota_return (ExitOperationFailed, e) | Inr package_version \<Rightarrow>
          if so_confirmed_version op \<noteq> package_version
          then ota_return (ExitInvalidArguments, ''confirmation version does not match package: '' @ package_version)
          else run_upgrade op sw pkg package_version))"

definition execute_safe_ota :: "safe_ota_options \<Rightarrow> safe_ota_world \<Rightarrow> upgrade_package \<Rightarrow> (exit_code \<times> string) ota_m" where
  "execute_safe_ota op sw pkg =
     ota_bind (ota_try (ota_label ''create upgrade run directory failed: '' ota_call)) (\<lambda>created.
     case created of Inl e \<Rightarrow> ota_return (ExitOperationFailed, e) | Inr _ \<Rightarrow>
     ota_bind (ota_try (ota_say ''another safe-ota process is active'' ota_call)) (\<lambda>locked.
     case locked of Inl e \<Rightarrow> ota_return (ExitOperationFailed, e) | Inr _ \<Rightarrow>
     ota_bind (ota_try recover_upgrade) (\<lambda>recovered.
     case recovered of Inl e \<Rightarrow> ota_return (ExitOperationFailed, e) | Inr _ \<Rightarrow> after_recovery op sw pkg)))"

section \<open>What the exit code says\<close>




definition installed :: "ota_root \<Rightarrow> string \<Rightarrow> string + upgrade_result \<Rightarrow> ota_root \<Rightarrow> bool" where
  "installed st0 version r st \<longleftrightarrow>
     (case r of Inl _ \<Rightarrow> recoverable st0 st | Inr _ \<Rightarrow> \<exists>t. activated st0 t st \<and> ut_version t = version)"































definition sample_ota_options :: safe_ota_options where
  "sample_ota_options = \<lparr> so_recover_only = False, so_standalone = False, so_package_root = ''/cockpit-system/data/ota/incoming/p'',
     so_confirmed_version = ''1.2.0'' \<rparr>"

definition sample_world :: safe_ota_world where
  "sample_world = \<lparr> sw_incoming = ''/cockpit-system/data/ota/incoming'', sw_incoming_is_dir = True, sw_ready = Inr (),
     sw_health = Inr (), sw_ready_again = Inr () \<rparr>"


section \<open>Surprises\<close>

text \<open>A transaction file may name the version \<open>..\<close>, which passes as a version: recovery then removes the root's contents.\<close>

lemma dotted_version_wipes_root:
  "(let st = fst (snd (recover_upgrade (sample_start\<lparr>or_transaction := TfFile (transaction_doc
        \<lparr> ut_state = TxPrepared, ut_version = ''..'', ut_previous = ''releases/1.0.0'' \<rparr>)\<rparr>) []))
    in is_valid_version ''..'' \<and> or_current st = LkNone \<and> release_map st ''1.0.0'' = None \<and> or_floor st = FlNone)"
  by code_simp

text \<open>The content of the floor can be lost between the check of the stream and its close, and the confirmation still succeeds.\<close>

lemma lost_floor_is_confirmed:
  "(let run = confirm_upgrade ''1.2.0'' sample_activated (replicate 19 OcOk @ [OcFail ''ENOSPC''])
    in fst run = OtaOk () \<and> or_floor (fst (snd run)) = FlFile [])"
  by code_simp

text \<open>A confirmation that fails after its transaction is confirmed is finished by the recovery, and the tool reports a failure.\<close>

lemma failed_confirmation_may_count:
  "(let run = execute_safe_ota (sample_ota_options\<lparr>so_standalone := True\<rparr>) sample_world (sample_package ''1.2.0'') sample_start
          (replicate 60 OcOk @ [OcFail ''EIO''])
    in fst run = OtaOk (ExitOperationFailed, ''confirm upgrade failed: EIO'') \<and>
       or_current (fst (snd run)) = LkTo ''releases/1.2.0'' \<and> or_floor (fst (snd run)) = FlFile [''1.2.0''])"
  by code_simp

end
