(* ===== verification/Audio_Stream.thy ===== *)
theory Audio_Stream
  imports Prelude
begin

text \<open>
  The audio frames the audio process publishes and the packet that carries one to a subscriber:
  \<open>AudioFrame\<close> (driver/audio/frames/audio_frame.h) and the stream protocol
  (driver/audio/transport/audio_stream_protocol.cc), a fixed packet of 688 bytes: a header of 48
  bytes, whose last four are reserved, and 320 samples of 16 bits.

  A \<open>std::array\<close> of bytes is a list of its length, a packet the decoder is handed is \<open>None\<close> for the
  null pointer, and the decoder's out-parameter \<open>error\<close> is the left injection of its result. The
  lemmas relate a field written in place to the field read there (\<open>get_put_le\<close>, \<open>get_put_le_other\<close>)
  and the bytes of a field to its value (\<open>le_byte\<close>).
\<close>

section \<open>Little-endian fields of any width\<close>

text \<open>The loops of \<open>PutUint32\<close> and \<open>GetUint32\<close>, and of the 64 bit functions, over the bytes of a value.\<close>

definition put_le :: "nat \<Rightarrow> u8 list \<Rightarrow> nat \<Rightarrow> 'a::len word \<Rightarrow> u8 list" where
  "put_le n d i v =
     fold (\<lambda>k d. d[i + k := ucast (drop_bit (8 * k) v AND 0xFF)]) [0..<n] d"

definition get_le :: "nat \<Rightarrow> u8 list \<Rightarrow> nat \<Rightarrow> 'a::len word" where
  "get_le n d i = fold (\<lambda>k v. v OR push_bit (8 * k) (ucast (d ! (i + k)))) [0..<n] 0"

definition put_uint16 :: "u8 list \<Rightarrow> nat \<Rightarrow> u16 \<Rightarrow> u8 list" where
  "put_uint16 d i v = d[i := ucast (v AND 0xFF), i + 1 := ucast (drop_bit 8 v AND 0xFF)]"

definition put_uint32 :: "u8 list \<Rightarrow> nat \<Rightarrow> u32 \<Rightarrow> u8 list" where
  "put_uint32 = put_le 4"

definition put_uint64 :: "u8 list \<Rightarrow> nat \<Rightarrow> u64 \<Rightarrow> u8 list" where
  "put_uint64 = put_le 8"

definition get_uint16 :: "u8 list \<Rightarrow> nat \<Rightarrow> u16" where
  "get_uint16 d i = ucast (d ! i) OR push_bit 8 (ucast (d ! (i + 1)))"

definition get_uint32 :: "u8 list \<Rightarrow> nat \<Rightarrow> u32" where
  "get_uint32 = get_le 4"

definition get_uint64 :: "u8 list \<Rightarrow> nat \<Rightarrow> u64" where
  "get_uint64 = get_le 8"

text \<open>The 16 bit functions are written out in the code; they are the same loops of two steps.\<close>

lemma put_uint16_le: "put_uint16 = put_le 2"
  by (intro ext) (simp add: put_uint16_def put_le_def numeral_2_eq_2)

lemma get_uint16_le: "get_uint16 = get_le 2"
  by (intro ext) (simp add: get_uint16_def get_le_def numeral_2_eq_2)

lemmas fields_le = put_uint16_le put_uint32_def put_uint64_def get_uint16_le get_uint32_def
  get_uint64_def

lemma put_le_Suc:
  "put_le (Suc n) d i v = (put_le n d i v)[i + n := ucast (drop_bit (8 * n) v AND 0xFF)]"
  by (simp add: put_le_def)

lemma get_le_Suc: "get_le (Suc n) d i = get_le n d i OR push_bit (8 * n) (ucast (d ! (i + n)))"
  by (simp add: get_le_def)

lemma put_le_0 [simp]: "put_le 0 d i v = d"
  by (simp add: put_le_def)

lemma get_le_0 [simp]: "get_le 0 d i = 0"
  by (simp add: get_le_def)

lemma length_put_le [simp]: "length (put_le n d i v) = length d"
  by (induction n) (simp_all add: put_le_Suc)

lemma put_le_nth:
  "i + n \<le> length d \<Longrightarrow> j < length d \<Longrightarrow>
   put_le n d i v ! j =
     (if i \<le> j \<and> j < i + n then ucast (drop_bit (8 * (j - i)) v AND 0xFF) else d ! j)"
  by (induction n) (auto simp: put_le_Suc nth_list_update less_Suc_eq)

lemma get_le_cong: "(\<And>k. k < n \<Longrightarrow> d ! (i + k) = e ! (j + k)) \<Longrightarrow> get_le n d i = get_le n e j"
  by (induction n) (simp_all add: get_le_Suc)

lemma get_put_le_other:
  "i + n \<le> length d \<Longrightarrow> j + m \<le> length d \<Longrightarrow> i + n \<le> j \<or> j + m \<le> i \<Longrightarrow>
   get_le m (put_le n d i v) j = get_le m d j"
  by (rule get_le_cong) (auto simp: put_le_nth)

text \<open>A bit of a field is the bit of the byte it lies in.\<close>

lemma bit_get_le:
  fixes d :: "u8 list"
  assumes "8 * n \<le> LENGTH('a::len)"
  shows "bit (get_le n d i :: 'a word) m \<longleftrightarrow> m < 8 * n \<and> bit (d ! (i + m div 8)) (m mod 8)"
  using assms
proof (induction n)
  case (Suc n)
  then have IH: "bit (get_le n d i :: 'a word) m \<longleftrightarrow> m < 8 * n \<and> bit (d ! (i + m div 8)) (m mod 8)"
    by simp
  have step: "bit (get_le (Suc n) d i :: 'a word) m \<longleftrightarrow> bit (get_le n d i :: 'a word) m \<or>
      8 * n \<le> m \<and> m < LENGTH('a) \<and> bit (d ! (i + n)) (m - 8 * n)"
    by (auto simp: get_le_Suc bit_or_iff bit_push_bit_iff bit_ucast_iff)
  consider "m < 8 * n" | "8 * n \<le> m" "m < 8 * Suc n" | "8 * Suc n \<le> m"
    by linarith
  then show ?case
  proof cases
    case 2
    then have "m div 8 = n" "m mod 8 = m - 8 * n"
      by (auto simp: div_nat_eqI modulo_nat_def)
    with 2 Suc.prems show ?thesis
      by (simp add: step IH)
  next
    case 3
    then have "\<not> bit (d ! (i + n)) (m - 8 * n)"
      using bit_imp_le_length [of "d ! (i + n)" "m - 8 * n"] by auto
    with 3 show ?thesis
      by (simp add: step IH)
  qed (simp add: step IH)
qed simp

lemma bit_byte: "bit (ucast (drop_bit k v AND 0xFF) :: u8) m \<longleftrightarrow> m < 8 \<and> bit (v :: 'a::len word) (k + m)"
proof -
  have m: "(0xFF :: 'a word) = mask 8" by (simp add: mask_eq_exp_minus_1)
  show ?thesis
    unfolding m by (auto simp: bit_simps dest: bit_imp_le_length)
qed

text \<open>The field written is the field read, for the whole width of the word.\<close>

lemma get_put_le:
  assumes "i + n \<le> length d" "8 * n = LENGTH('a::len)"
  shows "get_le n (put_le n d i (v :: 'a word)) i = v"
proof (rule bit_word_eqI)
  fix m
  assume m: "m < LENGTH('a)"
  then have k: "m div 8 < n"
    using assms(2) by (simp add: less_mult_imp_div_less mult.commute)
  have "put_le n d i v ! (i + m div 8) = ucast (drop_bit (8 * (m div 8)) v AND 0xFF)"
    using k assms(1) by (simp add: put_le_nth)
  then show "bit (get_le n (put_le n d i v) i :: 'a word) m = bit v m"
    using m assms(2) by (simp add: bit_get_le bit_byte)
qed

text \<open>A byte is read from the value of the field that holds it.\<close>

lemma le_byte:
  assumes "8 * n \<le> LENGTH('a::len)" "k < n"
  shows "(ucast (drop_bit (8 * k) (get_le n d i :: 'a word) AND 0xFF) :: u8) = d ! (i + k)"
proof (rule bit_word_eqI)
  fix m :: nat
  assume m: "m < LENGTH(8)"
  then have "8 * k + m < 8 * n" "(8 * k + m) div 8 = k" "(8 * k + m) mod 8 = m"
    using assms by auto
  then show "bit (ucast (drop_bit (8 * k) (get_le n d i :: 'a word) AND 0xFF) :: u8) m =
      bit (d ! (i + k)) m"
    using m assms by (simp add: bit_byte bit_get_le)
qed

section \<open>Frames\<close>

record audio_frame =
  au_sequence :: u64
  au_capture_time_ns :: int
  au_flags :: u32
  au_samples :: "int list"

definition kSampleRateHz :: u32 where "kSampleRateHz = 16000"
definition kChannels :: u32 where "kChannels = 1"
definition kFrameMs :: u32 where "kFrameMs = 20"
definition kSampleCount :: nat where "kSampleCount = unat kSampleRateHz * unat kFrameMs div 1000"

definition kDiscontinuity :: u32 where "kDiscontinuity = 1"
definition kRecoveredFromXrun :: u32 where "kRecoveredFromXrun = 2"
definition kDroppedBefore :: u32 where "kDroppedBefore = 4"

definition has_flag :: "audio_frame \<Rightarrow> u32 \<Rightarrow> bool" where
  "has_flag f g \<longleftrightarrow> au_flags f AND g \<noteq> 0"

text \<open>What the types of the members say: a 64 bit time, an array of 320 samples of 16 bits.\<close>

definition audio_frame_ok :: "audio_frame \<Rightarrow> bool" where
  "audio_frame_ok f \<longleftrightarrow> fits_i64 (au_capture_time_ns f) \<and> length (au_samples f) = kSampleCount \<and>
     list_all fits_i16 (au_samples f)"

lemma sample_count: "kSampleCount = 320"
  by (simp add: kSampleCount_def kSampleRateHz_def kFrameMs_def)

section \<open>Packets\<close>

definition kMagic :: u32 where "kMagic = 0x41554443"
definition kAudioStreamProtocolVersion :: u16 where "kAudioStreamProtocolVersion = 1"
definition kCaptureFrameMessage :: u16 where "kCaptureFrameMessage = 1"
definition kAudioStreamHeaderBytes :: nat where "kAudioStreamHeaderBytes = 48"
definition kAudioStreamCapturePacketBytes :: nat where
  "kAudioStreamCapturePacketBytes = kAudioStreamHeaderBytes + kSampleCount * 2"

definition kMagicOffset :: nat where "kMagicOffset = 0"
definition kVersionOffset :: nat where "kVersionOffset = 4"
definition kMessageOffset :: nat where "kMessageOffset = 6"
definition kPacketSizeOffset :: nat where "kPacketSizeOffset = 8"
definition kFlagsOffset :: nat where "kFlagsOffset = 12"
definition kSequenceOffset :: nat where "kSequenceOffset = 16"
definition kCaptureTimeOffset :: nat where "kCaptureTimeOffset = 24"
definition kSampleRateOffset :: nat where "kSampleRateOffset = 32"
definition kChannelsOffset :: nat where "kChannelsOffset = 36"
definition kSampleCountOffset :: nat where "kSampleCountOffset = 40"
definition kReservedOffset :: nat where "kReservedOffset = 44"
definition kSamplesOffset :: nat where "kSamplesOffset = kAudioStreamHeaderBytes"

lemmas packet_layout = kMagicOffset_def kVersionOffset_def kMessageOffset_def kPacketSizeOffset_def
  kFlagsOffset_def kSequenceOffset_def kCaptureTimeOffset_def kSampleRateOffset_def
  kChannelsOffset_def kSampleCountOffset_def kReservedOffset_def kSamplesOffset_def
  kAudioStreamHeaderBytes_def

lemma packet_bytes: "kAudioStreamCapturePacketBytes = 688"
  by (simp add: kAudioStreamCapturePacketBytes_def kAudioStreamHeaderBytes_def sample_count)

text \<open>The copies of \<open>SignedBits\<close>, \<open>SignedValue\<close> and \<open>SignedSample\<close>: the same bits at the other type.\<close>

definition signed_bits :: "int \<Rightarrow> u64" where "signed_bits v = word_of_int v"
definition signed_value :: "u64 \<Rightarrow> int" where "signed_value b = sint b"
definition signed_sample :: "u16 \<Rightarrow> int" where "signed_sample b = sint b"

lemma signed_value_bits: "fits_i64 x \<Longrightarrow> signed_value (signed_bits x) = x"
  by (simp add: fits_i64_def signed_value_def signed_bits_def sint_sbintrunc'
      signed_take_bit_int_eq_self)

lemma signed_bits_value: "signed_bits (signed_value b) = b"
  by (simp add: signed_value_def signed_bits_def)

lemma fits_signed_value: "fits_i64 (signed_value b)"
  using sint_ge [of b] sint_lt [of b] by (simp add: fits_i64_def signed_value_def)

definition put_samples :: "u8 list \<Rightarrow> int list \<Rightarrow> u8 list" where
  "put_samples p xs = fold (\<lambda>k p. put_uint16 p (kSamplesOffset + k * 2) (word_of_int (xs ! k)))
     [0..<length xs] p"

definition encode_audio_stream_capture_frame :: "audio_frame \<Rightarrow> u8 list" where
  "encode_audio_stream_capture_frame frame = (
     let p = replicate kAudioStreamCapturePacketBytes 0;
         p = put_uint32 p kMagicOffset kMagic;
         p = put_uint16 p kVersionOffset kAudioStreamProtocolVersion;
         p = put_uint16 p kMessageOffset kCaptureFrameMessage;
         p = put_uint32 p kPacketSizeOffset (of_nat kAudioStreamCapturePacketBytes);
         p = put_uint32 p kFlagsOffset (au_flags frame);
         p = put_uint64 p kSequenceOffset (au_sequence frame);
         p = put_uint64 p kCaptureTimeOffset (signed_bits (au_capture_time_ns frame));
         p = put_uint32 p kSampleRateOffset kSampleRateHz;
         p = put_uint32 p kChannelsOffset kChannels;
         p = put_uint32 p kSampleCountOffset (of_nat kSampleCount);
         p = put_uint32 p kReservedOffset 0
     in put_samples p (au_samples frame))"

definition kKnownFlags :: u32 where
  "kKnownFlags = kDiscontinuity OR kRecoveredFromXrun OR kDroppedBefore"

definition decode_audio_stream_capture_frame :: "u8 list option \<Rightarrow> string + audio_frame" where
  "decode_audio_stream_capture_frame packet = (case packet of
     None \<Rightarrow> Inl ''audio stream packet is null''
   | Some bytes \<Rightarrow>
     if length bytes \<noteq> kAudioStreamCapturePacketBytes then
       Inl ''audio stream packet size is invalid''
     else if get_uint32 bytes kMagicOffset \<noteq> kMagic then
       Inl ''audio stream packet magic is invalid''
     else if get_uint16 bytes kVersionOffset \<noteq> kAudioStreamProtocolVersion then
       Inl ''audio stream protocol version is incompatible''
     else if get_uint16 bytes kMessageOffset \<noteq> kCaptureFrameMessage then
       Inl ''audio stream message type is unsupported''
     else if unat (get_uint32 bytes kPacketSizeOffset) \<noteq> kAudioStreamCapturePacketBytes then
       Inl ''audio stream packet declares an invalid size''
     else if get_uint32 bytes kSampleRateOffset \<noteq> kSampleRateHz \<or>
         get_uint32 bytes kChannelsOffset \<noteq> kChannels \<or>
         unat (get_uint32 bytes kSampleCountOffset) \<noteq> kSampleCount then
       Inl ''audio stream PCM format is incompatible''
     else let fl = get_uint32 bytes kFlagsOffset in
       if fl AND NOT kKnownFlags \<noteq> 0 then Inl ''audio stream frame flags are invalid''
       else Inr \<lparr> au_sequence = get_uint64 bytes kSequenceOffset,
              au_capture_time_ns = signed_value (get_uint64 bytes kCaptureTimeOffset),
              au_flags = fl,
              au_samples = map (\<lambda>k. signed_sample (get_uint16 bytes (kSamplesOffset + k * 2)))
                [0..<kSampleCount] \<rparr>)"

section \<open>What the encoder writes\<close>

definition put_samples_to :: "nat \<Rightarrow> u8 list \<Rightarrow> int list \<Rightarrow> u8 list" where
  "put_samples_to n p xs = fold (\<lambda>k p. put_uint16 p (kSamplesOffset + k * 2) (word_of_int (xs ! k)))
     [0..<n] p"

lemma put_samples_to_Suc:
  "put_samples_to (Suc n) p xs =
     put_le 2 (put_samples_to n p xs) (48 + n * 2) (word_of_int (xs ! n) :: u16)"
  by (simp add: put_samples_to_def fields_le packet_layout)

lemma length_put_samples_to [simp]: "length (put_samples_to n p xs) = length p"
  by (induction n) (simp_all add: put_samples_to_Suc, simp add: put_samples_to_def)

lemma put_samples_to: "put_samples p xs = put_samples_to (length xs) p xs"
  by (simp add: put_samples_def put_samples_to_def)

lemma put_samples_header:
  "i + m \<le> 48 \<Longrightarrow> 48 + 2 * n \<le> length p \<Longrightarrow> get_le m (put_samples_to n p xs) i = get_le m p i"
proof (induction n)
  case (Suc n)
  then show ?case
    by (simp add: put_samples_to_Suc get_put_le_other)
qed (simp add: put_samples_to_def)

lemma put_samples_sample:
  "k < n \<Longrightarrow> 48 + 2 * n \<le> length p \<Longrightarrow>
   get_le 2 (put_samples_to n p xs) (48 + k * 2) = (word_of_int (xs ! k) :: u16)"
proof (induction n)
  case (Suc n)
  show ?case
  proof (cases "k = n")
    case True
    with Suc.prems show ?thesis
      by (simp add: put_samples_to_Suc get_put_le)
  next
    case False
    with Suc show ?thesis
      by (simp add: put_samples_to_Suc get_put_le_other)
  qed
qed simp

text \<open>Every field of an encoded frame, read back.\<close>

lemma length_encode [simp]: "length (encode_audio_stream_capture_frame f) = 688"
  by (simp add: encode_audio_stream_capture_frame_def Let_def put_samples_to fields_le packet_bytes)

lemma encode_fields:
  assumes "length (au_samples f) = kSampleCount"
  defines "p \<equiv> encode_audio_stream_capture_frame f"
  shows "get_uint32 p kMagicOffset = kMagic"
    and "get_uint16 p kVersionOffset = kAudioStreamProtocolVersion"
    and "get_uint16 p kMessageOffset = kCaptureFrameMessage"
    and "get_uint32 p kPacketSizeOffset = 688"
    and "get_uint32 p kFlagsOffset = au_flags f"
    and "get_uint64 p kSequenceOffset = au_sequence f"
    and "get_uint64 p kCaptureTimeOffset = signed_bits (au_capture_time_ns f)"
    and "get_uint32 p kSampleRateOffset = kSampleRateHz"
    and "get_uint32 p kChannelsOffset = kChannels"
    and "get_uint32 p kSampleCountOffset = 320"
    and "get_uint32 p kReservedOffset = 0"
    and "k < kSampleCount \<Longrightarrow> get_uint16 p (kSamplesOffset + k * 2) = word_of_int (au_samples f ! k)"
  using assms(1)
  by (simp_all add: p_def encode_audio_stream_capture_frame_def Let_def put_samples_to fields_le
      packet_layout packet_bytes sample_count put_samples_header get_put_le get_put_le_other
      put_samples_sample)

text \<open>Two packets that agree on every field are the same bytes.\<close>

lemma get_le_bytes:
  assumes "get_le n p i = (get_le n q i :: 'a::len word)" "8 * n \<le> LENGTH('a)" "i \<le> j" "j < i + n"
  shows "p ! j = q ! j"
  using le_byte [OF assms(2), of "j - i" p i] le_byte [OF assms(2), of "j - i" q i] assms by simp

lemma packet_ext:
  assumes "length p = 688" "length q = 688"
    and "\<And>i. i \<in> {kMagicOffset, kPacketSizeOffset, kFlagsOffset, kSampleRateOffset, kChannelsOffset,
      kSampleCountOffset, kReservedOffset} \<Longrightarrow> get_uint32 p i = get_uint32 q i"
    and "\<And>i. i \<in> {kVersionOffset, kMessageOffset} \<Longrightarrow> get_uint16 p i = get_uint16 q i"
    and "\<And>i. i \<in> {kSequenceOffset, kCaptureTimeOffset} \<Longrightarrow> get_uint64 p i = get_uint64 q i"
    and "\<And>k. k < kSampleCount \<Longrightarrow>
      get_uint16 p (kSamplesOffset + k * 2) = get_uint16 q (kSamplesOffset + k * 2)"
  shows "p = q"
proof (rule nth_equalityI)
  fix j
  assume j: "j < length p"
  have u32: "p ! j = q ! j" if "i \<in> {0, 8, 12, 32, 36, 40, 44}" "i \<le> j" "j < i + 4" for i
  proof (rule get_le_bytes [where 'a = 32 and n = 4])
    show "get_le 4 p i = (get_le 4 q i :: u32)"
      using that(1) assms(3) [of i] by (auto simp: fields_le packet_layout)
  qed (use that in simp_all)
  have u16: "p ! j = q ! j" if "i \<in> {4, 6}" "i \<le> j" "j < i + 2" for i
  proof (rule get_le_bytes [where 'a = 16 and n = 2])
    show "get_le 2 p i = (get_le 2 q i :: u16)"
      using that(1) assms(4) [of i] by (auto simp: fields_le packet_layout)
  qed (use that in simp_all)
  have u64: "p ! j = q ! j" if "i \<in> {16, 24}" "i \<le> j" "j < i + 8" for i
  proof (rule get_le_bytes [where 'a = 64 and n = 8])
    show "get_le 8 p i = (get_le 8 q i :: u64)"
      using that(1) assms(5) [of i] by (auto simp: fields_le packet_layout)
  qed (use that in simp_all)
  have body: "p ! j = q ! j" if "48 \<le> j"
  proof (rule get_le_bytes [where 'a = 16 and n = 2])
    have k: "(j - 48) div 2 < 320"
      using that j assms(1) by simp
    show "get_le 2 p (48 + (j - 48) div 2 * 2) = (get_le 2 q (48 + (j - 48) div 2 * 2) :: u16)"
      using assms(6) [of "(j - 48) div 2"] k by (simp add: fields_le packet_layout sample_count)
    show "48 + (j - 48) div 2 * 2 \<le> j" "j < 48 + (j - 48) div 2 * 2 + 2"
      using that by presburger+
  qed simp
  consider "j < 4" | "4 \<le> j" "j < 6" | "6 \<le> j" "j < 8" | "8 \<le> j" "j < 12" | "12 \<le> j" "j < 16"
    | "16 \<le> j" "j < 24" | "24 \<le> j" "j < 32" | "32 \<le> j" "j < 36" | "36 \<le> j" "j < 40"
    | "40 \<le> j" "j < 44" | "44 \<le> j" "j < 48" | "48 \<le> j"
    by linarith
  then show "p ! j = q ! j"
    by cases (use u32 [of 0] u16 [of 4] u16 [of 6] u32 [of 8] u32 [of 12] u64 [of 16] u64 [of 24]
      u32 [of 32] u32 [of 36] u32 [of 40] u32 [of 44] body in simp_all)
qed (simp add: assms)

section \<open>What the decoder accepts\<close>

text \<open>
  The reserved field is the one thing the decoder does not look at, so a packet it accepts is the
  encoding of the frame it returns up to those four bytes.
\<close>

definition clear_reserved :: "u8 list \<Rightarrow> u8 list" where
  "clear_reserved p = put_uint32 p kReservedOffset 0"

lemma length_clear_reserved [simp]: "length (clear_reserved p) = length p"
  by (simp add: clear_reserved_def fields_le)

lemma get_clear_reserved:
  "length p = 688 \<Longrightarrow> i + n \<le> 44 \<or> 48 \<le> i \<Longrightarrow> i + n \<le> 688 \<Longrightarrow>
   get_le n (clear_reserved p) i = get_le n p i"
  by (auto simp: clear_reserved_def fields_le packet_layout get_put_le_other)

lemma decode_accepts_encoded:
  assumes "audio_frame_ok f" "au_flags f AND NOT kKnownFlags = 0"
    and "length p = 688" "clear_reserved p = encode_audio_stream_capture_frame f"
  shows "decode_audio_stream_capture_frame (Some p) = Inr f"
proof -
  note same = get_clear_reserved [OF assms(3)]
  have len: "length (au_samples f) = kSampleCount"
    using assms(1) by (simp add: audio_frame_ok_def)
  note enc = encode_fields [OF len, folded assms(4)]
  have smp: "map (\<lambda>k. signed_sample (get_uint16 p (kSamplesOffset + k * 2))) [0..<kSampleCount] =
      au_samples f"
  proof (rule nth_equalityI)
    fix k
    assume "k < length (map (\<lambda>k. signed_sample (get_uint16 p (kSamplesOffset + k * 2))) [0..<kSampleCount])"
    then have k: "k < kSampleCount" by simp
    have "fits_i16 (au_samples f ! k)"
      using assms(1) k by (simp add: audio_frame_ok_def list_all_length)
    then have "signed_sample (word_of_int (au_samples f ! k)) = au_samples f ! k"
      using to_i16_id [of "au_samples f ! k"] by (simp add: signed_sample_def to_i16_def)
    moreover have "get_uint16 p (kSamplesOffset + k * 2) = word_of_int (au_samples f ! k)"
      using enc(12) [OF k] k same [where 'a = 16]
      by (simp add: fields_le packet_layout sample_count)
    ultimately show "map (\<lambda>k. signed_sample (get_uint16 p (kSamplesOffset + k * 2))) [0..<kSampleCount] ! k =
        au_samples f ! k"
      using k by simp
  qed (simp add: len)
  have fields: "get_uint32 p kMagicOffset = kMagic"
    "get_uint16 p kVersionOffset = kAudioStreamProtocolVersion"
    "get_uint16 p kMessageOffset = kCaptureFrameMessage"
    "get_uint32 p kPacketSizeOffset = 688"
    "get_uint32 p kFlagsOffset = au_flags f"
    "get_uint64 p kSequenceOffset = au_sequence f"
    "get_uint64 p kCaptureTimeOffset = signed_bits (au_capture_time_ns f)"
    "get_uint32 p kSampleRateOffset = kSampleRateHz"
    "get_uint32 p kChannelsOffset = kChannels"
    "get_uint32 p kSampleCountOffset = 320"
    using enc(1-10) same [where 'a = 16] same [where 'a = 32] same [where 'a = 64]
    by (simp_all add: fields_le packet_layout)
  show ?thesis
    using assms(1,2,3)
    by (simp add: decode_audio_stream_capture_frame_def fields smp [unfolded sample_count] packet_bytes
        sample_count signed_value_bits audio_frame_ok_def)
qed

lemma decode_cases:
  assumes "decode_audio_stream_capture_frame (Some p) = Inr f"
  shows "length p = 688" "get_uint32 p kMagicOffset = kMagic"
    "get_uint16 p kVersionOffset = kAudioStreamProtocolVersion"
    "get_uint16 p kMessageOffset = kCaptureFrameMessage" "get_uint32 p kPacketSizeOffset = 688"
    "get_uint32 p kSampleRateOffset = kSampleRateHz" "get_uint32 p kChannelsOffset = kChannels"
    "get_uint32 p kSampleCountOffset = 320"
    "get_uint32 p kFlagsOffset AND NOT kKnownFlags = 0"
    "f = \<lparr> au_sequence = get_uint64 p kSequenceOffset,
       au_capture_time_ns = signed_value (get_uint64 p kCaptureTimeOffset),
       au_flags = get_uint32 p kFlagsOffset,
       au_samples = map (\<lambda>k. signed_sample (get_uint16 p (kSamplesOffset + k * 2))) [0..<kSampleCount] \<rparr>"
proof -
  have sz: "unat w = 688 \<longleftrightarrow> w = 688" "unat w = 320 \<longleftrightarrow> w = 320" for w :: u32
    by (simp_all add: word_unat_eq_iff)
  show "length p = 688" "get_uint32 p kMagicOffset = kMagic"
    "get_uint16 p kVersionOffset = kAudioStreamProtocolVersion"
    "get_uint16 p kMessageOffset = kCaptureFrameMessage" "get_uint32 p kPacketSizeOffset = 688"
    "get_uint32 p kSampleRateOffset = kSampleRateHz" "get_uint32 p kChannelsOffset = kChannels"
    "get_uint32 p kSampleCountOffset = 320"
    "get_uint32 p kFlagsOffset AND NOT kKnownFlags = 0"
    "f = \<lparr> au_sequence = get_uint64 p kSequenceOffset,
       au_capture_time_ns = signed_value (get_uint64 p kCaptureTimeOffset),
       au_flags = get_uint32 p kFlagsOffset,
       au_samples = map (\<lambda>k. signed_sample (get_uint16 p (kSamplesOffset + k * 2))) [0..<kSampleCount] \<rparr>"
    using assms
    by (simp_all add: decode_audio_stream_capture_frame_def packet_bytes sample_count Let_def sz
        split: if_splits)
qed

lemma decoded_is_encoded:
  assumes "decode_audio_stream_capture_frame (Some p) = Inr f"
  shows "audio_frame_ok f" "clear_reserved p = encode_audio_stream_capture_frame f"
proof -
  note d = decode_cases [OF assms]
  show "audio_frame_ok f"
    by (simp add: d(10) audio_frame_ok_def fits_signed_value list_all_length signed_sample_def)
  have len: "length (au_samples f) = kSampleCount"
    by (simp add: d(10))
  note enc = encode_fields [OF len]
  have w: "word_of_int (signed_sample b) = b" for b
    by (simp add: signed_sample_def)
  show "clear_reserved p = encode_audio_stream_capture_frame f"
  proof (rule packet_ext)
    show "get_uint32 (clear_reserved p) i = get_uint32 (encode_audio_stream_capture_frame f) i"
      if "i \<in> {kMagicOffset, kPacketSizeOffset, kFlagsOffset, kSampleRateOffset, kChannelsOffset,
        kSampleCountOffset, kReservedOffset}" for i
      using that d(1,2,5-8) enc(1,4,5,8-11)
      by (auto simp: d(10) fields_le packet_layout get_clear_reserved)
        (simp add: clear_reserved_def fields_le packet_layout get_put_le)
    show "get_uint16 (clear_reserved p) i = get_uint16 (encode_audio_stream_capture_frame f) i"
      if "i \<in> {kVersionOffset, kMessageOffset}" for i
      using that d(1,3,4) enc(2,3) by (auto simp: fields_le packet_layout get_clear_reserved)
    show "get_uint64 (clear_reserved p) i = get_uint64 (encode_audio_stream_capture_frame f) i"
      if "i \<in> {kSequenceOffset, kCaptureTimeOffset}" for i
      using that d(1) enc(6,7)
      by (auto simp: d(10) signed_bits_value fields_le packet_layout get_clear_reserved)
    show "get_uint16 (clear_reserved p) (kSamplesOffset + k * 2) =
        get_uint16 (encode_audio_stream_capture_frame f) (kSamplesOffset + k * 2)"
      if "k < kSampleCount" for k
      using that d(1) enc(12) [OF that]
      by (simp add: d(10) w) (simp add: fields_le packet_layout sample_count get_clear_reserved)
  qed (simp_all add: d(1))
qed

section \<open>Properties\<close>

text \<open>
  C27: the decoder accepts exactly the packets the encoder writes. A packet decodes to a frame if and
  only if the frame is one the types allow and carries no unknown flag, the packet has 688 bytes, and
  the packet is that frame's encoding, up to the four reserved bytes the decoder does not read. So an
  encoded frame decodes to itself, two frames never share a packet, and every other packet is an
  error.
\<close>

theorem audio_packets_decode_exactly:
  "decode_audio_stream_capture_frame (Some p) = Inr f \<longleftrightarrow>
     audio_frame_ok f \<and> au_flags f AND NOT kKnownFlags = 0 \<and>
     length p = kAudioStreamCapturePacketBytes \<and>
     clear_reserved p = encode_audio_stream_capture_frame f"
proof
  assume d: "decode_audio_stream_capture_frame (Some p) = Inr f"
  then show "audio_frame_ok f \<and> au_flags f AND NOT kKnownFlags = 0 \<and>
     length p = kAudioStreamCapturePacketBytes \<and>
     clear_reserved p = encode_audio_stream_capture_frame f"
    using decoded_is_encoded [OF d] decode_cases(1,9,10) [OF d] by (simp add: packet_bytes)
qed (use decode_accepts_encoded [of f p] in \<open>simp add: packet_bytes\<close>)

end
