(* ===== verification/Wav_File.thy ===== *)
theory Wav_File
  imports Audio_Stream
begin

text \<open>
  Uncompressed PCM files: the format the audio process opens its device with
  (driver/audio/frames/pcm_format.cc), the writer \<open>WritePcm16Wav\<close> and the reader \<open>ReadPcm16Wav\<close> of
  RIFF WAVE files (driver/audio/wav/wav_file.cc).

  A file is its bytes and a position in them. A read past the end fails, and the code gives up at the
  first read that fails, so the state a failed stream is left in is never used. A seek past the end
  succeeds, as it does on a file; the next read then fails. Errors are the left injection. What the disk
  does for the writer is a record: whether the file opens, how many of the bytes handed to the stream
  it had passed on when the code tests it, and how many bytes the disk takes. The rest is written when
  the stream is destroyed, after the function has chosen its answer.
\<close>

section \<open>PCM formats\<close>

datatype pcm_sample_format = kSigned16LittleEndian

record pcm_format =
  pf_sample_rate_hz :: int
  pf_channels :: int
  pf_frame_ms :: int
  pf_sample_format :: pcm_sample_format

definition default_pcm_format :: pcm_format where
  "default_pcm_format = \<lparr> pf_sample_rate_hz = 16000, pf_channels = 1, pf_frame_ms = 20,
     pf_sample_format = kSigned16LittleEndian \<rparr>"

definition bytes_per_sample :: "pcm_format \<Rightarrow> u64" where
  "bytes_per_sample f = (if pf_sample_format f = kSigned16LittleEndian then 2 else 0)"

definition bytes_per_frame :: "pcm_format \<Rightarrow> u64" where
  "bytes_per_frame f = bytes_per_sample f * word_of_int (pf_channels f)"

definition frames_per_period :: "pcm_format \<Rightarrow> u64" where
  "frames_per_period f = word_of_int (pf_sample_rate_hz f) * word_of_int (pf_frame_ms f) div 1000"

definition pcm_format_error :: "pcm_format \<Rightarrow> string option" where
  "pcm_format_error f =
     (if pf_sample_rate_hz f < 8000 \<or> pf_sample_rate_hz f > 192000 then
        Some ''sample_rate_hz must be between 8000 and 192000''
      else if pf_channels f < 1 \<or> pf_channels f > 8 then Some ''channels must be between 1 and 8''
      else if pf_frame_ms f < 1 \<or> pf_frame_ms f > 100 then Some ''frame_ms must be between 1 and 100''
      else if frames_per_period f = 0 then Some ''audio period must contain at least one frame''
      else if pf_sample_format f \<noteq> kSigned16LittleEndian then Some ''unsupported PCM sample format''
      else None)"

text \<open>The test of an empty period never fires: the tests before it leave at least 8 frames.\<close>

lemma pcm_format_ok:
  "pcm_format_error f = None \<longleftrightarrow> 8000 \<le> pf_sample_rate_hz f \<and> pf_sample_rate_hz f \<le> 192000 \<and>
     1 \<le> pf_channels f \<and> pf_channels f \<le> 8 \<and> 1 \<le> pf_frame_ms f \<and> pf_frame_ms f \<le> 100"
proof -
  have "frames_per_period f \<noteq> 0"
    if "8000 \<le> pf_sample_rate_hz f" "pf_sample_rate_hz f \<le> 192000" "1 \<le> pf_frame_ms f"
      "pf_frame_ms f \<le> 100"
  proof -
    have "8000 * 1 \<le> pf_sample_rate_hz f * pf_frame_ms f"
      by (rule mult_mono) (use that in auto)
    moreover have "pf_sample_rate_hz f * pf_frame_ms f \<le> 192000 * 100"
      by (rule mult_mono) (use that in auto)
    ultimately have "8 \<le> uint (frames_per_period f)"
      by (simp add: frames_per_period_def uint_div_distrib uint_word_ariths uint_word_of_int mod_mult_eq)
    then show ?thesis by auto
  qed
  then show ?thesis
    by (auto simp: pcm_format_error_def intro: pcm_sample_format.exhaust)
qed

section \<open>Writing\<close>

record pcm_buffer =
  pb_format :: pcm_format
  pb_samples :: "int list"

definition frame_count :: "pcm_buffer \<Rightarrow> nat" where
  "frame_count b = (if pf_channels (pb_format b) \<le> 0 then 0
     else length (pb_samples b) div nat (pf_channels (pb_format b)))"

definition write_u16 :: "u16 \<Rightarrow> u8 list" where
  "write_u16 v = [ucast (v AND 0xFF), ucast (drop_bit 8 v AND 0xFF)]"

definition write_u32 :: "u32 \<Rightarrow> u8 list" where
  "write_u32 v = [ucast (v AND 0xFF), ucast (drop_bit 8 v AND 0xFF), ucast (drop_bit 16 v AND 0xFF),
     ucast (drop_bit 24 v AND 0xFF)]"

text \<open>The bytes of a string literal.\<close>

definition tag_bytes :: "string \<Rightarrow> u8 list" where
  "tag_bytes t = map (\<lambda>c. of_nat (code c)) t"

definition wav_bytes :: "pcm_format \<Rightarrow> int list \<Rightarrow> u8 list" where
  "wav_bytes f xs = (let data_bytes = length xs * 2 in
     tag_bytes ''RIFF'' @ write_u32 (of_nat (36 + data_bytes)) @ tag_bytes ''WAVE'' @
     tag_bytes ''fmt '' @ write_u32 16 @ write_u16 1 @ write_u16 (word_of_int (pf_channels f)) @
     write_u32 (word_of_int (pf_sample_rate_hz f)) @
     write_u32 (word_of_int (pf_sample_rate_hz f) * ucast (bytes_per_frame f)) @
     write_u16 (ucast (bytes_per_frame f)) @ write_u16 16 @
     tag_bytes ''data'' @ write_u32 (of_nat data_bytes) @
     concat (map (\<lambda>x. write_u16 (word_of_int x)) xs))"

text \<open>
  The stream keeps a buffer. A write that fails before the test marks the stream, and the file then
  holds whatever \<open>wd_leaves\<close> says; the bytes still in the buffer at the test are written by the
  destructor, which reports nothing. \<open>wd_takes\<close> is the number of bytes the disk takes. The result is the
  error, if any, and the contents of the file, \<open>None\<close> when the code left it alone.
\<close>

record wav_disk =
  wd_opens :: bool
  wd_tested :: nat
  wd_takes :: nat
  wd_leaves :: "u8 list"

definition write_pcm16_wav ::
  "string \<Rightarrow> pcm_format \<Rightarrow> int list \<Rightarrow> wav_disk \<Rightarrow> string option \<times> u8 list option" where
  "write_pcm16_wav path f xs d = (case pcm_format_error f of
     Some e \<Rightarrow> (Some (''invalid WAV format: '' @ e), None)
   | None \<Rightarrow>
     if length xs mod nat (pf_channels f) \<noteq> 0 then
       (Some ''sample count must contain complete PCM frames'', None)
     else if length xs * 2 > 2 ^ 32 - 1 - 36 then
       (Some ''PCM data is too large for a RIFF WAV file'', None)
     else if \<not> wd_opens d then (Some (''failed to open WAV output: '' @ path), None)
     else let bs = wav_bytes f xs in
       if wd_takes d < min (wd_tested d) (length bs)
       then (Some (''failed to write WAV output: '' @ path), Some (wd_leaves d))
       else (None, Some (take (wd_takes d) bs)))"

section \<open>Reading\<close>

definition kMaxPcmDataBytes :: u32 where "kMaxPcmDataBytes = 512 * 1024 * 1024"

definition read_exact :: "u8 list \<Rightarrow> nat \<Rightarrow> nat \<Rightarrow> (u8 list \<times> nat) option" where
  "read_exact bs pos n = (if pos + n \<le> length bs then Some (take n (drop pos bs), pos + n) else None)"

definition read_u16 :: "u8 list \<Rightarrow> nat \<Rightarrow> (u16 \<times> nat) option" where
  "read_u16 bs pos = (case read_exact bs pos 2 of None \<Rightarrow> None
     | Some (b, pos') \<Rightarrow> Some (ucast (b ! 0) OR push_bit 8 (ucast (b ! 1)), pos'))"

definition read_u32 :: "u8 list \<Rightarrow> nat \<Rightarrow> (u32 \<times> nat) option" where
  "read_u32 bs pos = (case read_exact bs pos 4 of None \<Rightarrow> None
     | Some (b, pos') \<Rightarrow> Some (ucast (b ! 0) OR push_bit 8 (ucast (b ! 1)) OR
         push_bit 16 (ucast (b ! 2)) OR push_bit 24 (ucast (b ! 3)), pos'))"

definition is_tag :: "u8 list \<Rightarrow> string \<Rightarrow> bool" where
  "is_tag v expected \<longleftrightarrow> v = tag_bytes expected"

fun read_samples :: "nat \<Rightarrow> u8 list \<Rightarrow> nat \<Rightarrow> int list option" where
  "read_samples 0 bs pos = Some []"
| "read_samples (Suc n) bs pos = (case read_u16 bs pos of None \<Rightarrow> None
     | Some (v, pos') \<Rightarrow> (case read_samples n bs pos' of None \<Rightarrow> None
         | Some xs \<Rightarrow> Some (sint v # xs)))"

record wav_state =
  ws_found_format :: bool
  ws_found_data :: bool
  ws_audio_format :: u16
  ws_channels :: u16
  ws_sample_rate :: u32
  ws_bits_per_sample :: u16
  ws_samples :: "int list"

definition wav_state0 :: wav_state where
  "wav_state0 = \<lparr> ws_found_format = False, ws_found_data = False, ws_audio_format = 0, ws_channels = 0,
     ws_sample_rate = 0, ws_bits_per_sample = 0, ws_samples = [] \<rparr>"

text \<open>The format chunk: six fields, one after the other.\<close>

definition read_format_fields :: "u8 list \<Rightarrow> nat \<Rightarrow> (u16 \<times> u16 \<times> u32 \<times> u16) option" where
  "read_format_fields bs pos = (case read_u16 bs pos of None \<Rightarrow> None | Some (audio_format, p1) \<Rightarrow>
     (case read_u16 bs p1 of None \<Rightarrow> None | Some (channels, p2) \<Rightarrow>
     (case read_u32 bs p2 of None \<Rightarrow> None | Some (sample_rate, p3) \<Rightarrow>
     (case read_u32 bs p3 of None \<Rightarrow> None | Some (byte_rate, p4) \<Rightarrow>
     (case read_u16 bs p4 of None \<Rightarrow> None | Some (block_align, p5) \<Rightarrow>
     (case read_u16 bs p5 of None \<Rightarrow> None | Some (bits, p6) \<Rightarrow>
       Some (audio_format, channels, sample_rate, bits)))))))"

definition read_chunk :: "u8 list \<Rightarrow> u8 list \<Rightarrow> u32 \<Rightarrow> nat \<Rightarrow> wav_state \<Rightarrow> string + wav_state" where
  "read_chunk bs tag chunk_size start st =
     (if is_tag tag ''fmt '' then
        (case (if chunk_size < 16 then None else read_format_fields bs start) of
           None \<Rightarrow> Inl ''invalid WAV format chunk''
         | Some (audio_format, channels, sample_rate, bits) \<Rightarrow>
             Inr (st\<lparr>ws_audio_format := audio_format, ws_channels := channels,
               ws_sample_rate := sample_rate, ws_bits_per_sample := bits, ws_found_format := True\<rparr>))
      else if is_tag tag ''data'' then
        (if chunk_size > kMaxPcmDataBytes then Inl ''WAV data chunk exceeds the supported size limit''
         else if unat chunk_size mod 2 \<noteq> 0 then Inl ''WAV PCM16 data size is not sample aligned''
         else (case read_samples (unat chunk_size div 2) bs start of
             None \<Rightarrow> Inl ''truncated WAV data chunk''
           | Some xs \<Rightarrow> Inr (st\<lparr>ws_samples := xs, ws_found_data := True\<rparr>)))
      else Inr st)"

definition read_chunk_header :: "u8 list \<Rightarrow> nat \<Rightarrow> (u8 list \<times> u32 \<times> nat) option" where
  "read_chunk_header bs pos = (case read_exact bs pos 4 of None \<Rightarrow> None
     | Some (tag, p1) \<Rightarrow> (case read_u32 bs p1 of None \<Rightarrow> None
         | Some (chunk_size, p2) \<Rightarrow> Some (tag, chunk_size, p2)))"

lemma read_chunk_header_pos:
  "read_chunk_header bs pos = Some (tag, chunk_size, start) \<Longrightarrow> start = pos + 8 \<and> start \<le> length bs"
  by (auto simp: read_chunk_header_def read_u32_def read_exact_def split: option.splits if_splits)

text \<open>
  The loop over the chunks. Each turn reads a header of eight bytes and moves past it, so the loop
  ends on every file, whatever sizes its chunks claim.
\<close>

function read_chunks :: "u8 list \<Rightarrow> nat \<Rightarrow> wav_state \<Rightarrow> string + wav_state" where
  "read_chunks bs pos st =
     (if ws_found_format st \<and> ws_found_data st then Inr st
      else (case read_chunk_header bs pos of
          None \<Rightarrow> Inr st
        | Some (tag, chunk_size, start) \<Rightarrow> (case read_chunk bs tag chunk_size start st of
            Inl e \<Rightarrow> Inl e
          | Inr st' \<Rightarrow> read_chunks bs (start + unat chunk_size + unat (chunk_size AND 1)) st')))"
  by pat_completeness auto

termination
  by (relation "measure (\<lambda>(bs, pos, st). length bs - pos)") (auto dest: read_chunk_header_pos)

declare read_chunks.simps [simp del]

definition read_riff_header :: "u8 list \<Rightarrow> nat option" where
  "read_riff_header bs = (case read_exact bs 0 4 of None \<Rightarrow> None | Some (riff, p1) \<Rightarrow>
     if \<not> is_tag riff ''RIFF'' then None
     else (case read_u32 bs p1 of None \<Rightarrow> None | Some (riff_size, p2) \<Rightarrow>
       (case read_exact bs p2 4 of None \<Rightarrow> None | Some (wave, p3) \<Rightarrow>
         if is_tag wave ''WAVE'' then Some p3 else None)))"

definition finish_wav :: "wav_state \<Rightarrow> string + pcm_buffer" where
  "finish_wav st =
     (if \<not> ws_found_format st \<or> \<not> ws_found_data st then
        Inl ''WAV file must contain format and data chunks''
      else if ws_audio_format st \<noteq> 1 \<or> ws_bits_per_sample st \<noteq> 16 then
        Inl ''only uncompressed PCM16 WAV files are supported''
      else let format = default_pcm_format\<lparr>pf_sample_rate_hz := sint (ws_sample_rate st),
             pf_channels := uint (ws_channels st)\<rparr> in
        (case pcm_format_error format of
           Some e \<Rightarrow> Inl (''invalid WAV audio format: '' @ e)
         | None \<Rightarrow>
           if length (ws_samples st) mod nat (pf_channels format) \<noteq> 0 then
             Inl ''WAV data does not contain complete PCM frames''
           else Inr \<lparr> pb_format = format, pb_samples = ws_samples st \<rparr>))"

text \<open>\<open>None\<close> for a file that cannot be opened.\<close>

definition read_pcm16_wav :: "string \<Rightarrow> u8 list option \<Rightarrow> string + pcm_buffer" where
  "read_pcm16_wav path contents = (case contents of
     None \<Rightarrow> Inl (''failed to open WAV input: '' @ path)
   | Some bs \<Rightarrow> (case read_riff_header bs of
       None \<Rightarrow> Inl ''input is not a RIFF WAVE file''
     | Some pos \<Rightarrow> (case read_chunks bs pos wav_state0 of
         Inl e \<Rightarrow> Inl e
       | Inr st \<Rightarrow> finish_wav st)))"

section \<open>Reading back what was written\<close>

lemma length_write [simp]: "length (write_u16 v) = 2" "length (write_u32 w) = 4"
  "length (tag_bytes t) = length t"
  by (simp_all add: write_u16_def write_u32_def tag_bytes_def)

lemma write_le: "write_u16 v = put_le 2 [0, 0] 0 v" "write_u32 w = put_le 4 [0, 0, 0, 0] 0 w"
  by (simp_all add: write_u16_def write_u32_def put_le_def upt_rec)

lemma bytes_write: "ucast (write_u16 v ! 0) OR push_bit 8 (ucast (write_u16 v ! 1)) = v"
  "ucast (write_u32 w ! 0) OR push_bit 8 (ucast (write_u32 w ! 1)) OR
   push_bit 16 (ucast (write_u32 w ! 2)) OR push_bit 24 (ucast (write_u32 w ! 3)) = w"
proof -
  have "get_le 2 (put_le 2 [0, 0] 0 v) 0 = v" by (rule get_put_le) simp_all
  then show "ucast (write_u16 v ! 0) OR push_bit 8 (ucast (write_u16 v ! 1)) = v"
    by (simp add: write_le get_le_def upt_rec)
  have "get_le 4 (put_le 4 [0, 0, 0, 0] 0 w) 0 = w" by (rule get_put_le) simp_all
  then show "ucast (write_u32 w ! 0) OR push_bit 8 (ucast (write_u32 w ! 1)) OR
   push_bit 16 (ucast (write_u32 w ! 2)) OR push_bit 24 (ucast (write_u32 w ! 3)) = w"
    by (simp add: write_le get_le_def upt_rec or.assoc eval_nat_numeral)
qed

lemma read_exact_at:
  assumes "drop pos bs = xs @ rest" "pos \<le> length bs"
  shows "read_exact bs pos (length xs) = Some (xs, pos + length xs)"
proof -
  have "length bs - pos = length xs + length rest"
    using arg_cong [OF assms(1), of length] by simp
  then show ?thesis
    using assms by (simp add: read_exact_def)
qed

lemma read_u16_at:
  "drop pos bs = write_u16 v @ rest \<Longrightarrow> pos \<le> length bs \<Longrightarrow> read_u16 bs pos = Some (v, pos + 2)"
  using read_exact_at [of pos bs "write_u16 v" rest] bytes_write(1) [of v]
  by (simp add: read_u16_def)

lemma read_u32_at:
  "drop pos bs = write_u32 v @ rest \<Longrightarrow> pos \<le> length bs \<Longrightarrow> read_u32 bs pos = Some (v, pos + 4)"
  using read_exact_at [of pos bs "write_u32 v" rest] bytes_write(2) [of v]
  by (simp add: read_u32_def)

lemma read_samples_at:
  "drop pos bs = concat (map (\<lambda>x. write_u16 (word_of_int x)) xs) \<Longrightarrow> pos \<le> length bs \<Longrightarrow>
   list_all fits_i16 xs \<Longrightarrow> read_samples (length xs) bs pos = Some xs"
proof (induction xs arbitrary: pos)
  case (Cons x xs)
  let ?rest = "concat (map (\<lambda>x. write_u16 (word_of_int x)) xs)"
  have d: "drop pos bs = write_u16 (word_of_int x) @ ?rest"
    using Cons.prems(1) by simp
  have "length bs - pos = 2 + length ?rest"
    using arg_cong [OF d, of length] by simp
  moreover have "drop (pos + 2) bs = drop 2 (drop pos bs)"
    by (simp add: add.commute)
  then have "drop (pos + 2) bs = ?rest"
    using d by simp
  ultimately have "read_samples (length xs) bs (pos + 2) = Some xs"
    using Cons by simp
  moreover have "sint (word_of_int x :: u16) = x"
    using Cons.prems(3) to_i16_id [of x] by (simp add: to_i16_def)
  ultimately show ?case
    using read_u16_at [OF d Cons.prems(2)] by simp
qed simp

lemma length_wav_bytes [simp]: "length (wav_bytes f xs) = 44 + 2 * length xs"
proof -
  have "length (concat (map (\<lambda>x. write_u16 (word_of_int x)) xs)) = 2 * length xs"
    by (induction xs) simp_all
  then show ?thesis by (simp add: wav_bytes_def Let_def)
qed

text \<open>What the reader finds at each position of a written file.\<close>

lemma wav_bytes_at:
  shows "drop 0 (wav_bytes f xs) = tag_bytes ''RIFF'' @ drop 4 (wav_bytes f xs)"
    and "drop 4 (wav_bytes f xs) = write_u32 (of_nat (36 + length xs * 2)) @ drop 8 (wav_bytes f xs)"
    and "drop 8 (wav_bytes f xs) = tag_bytes ''WAVE'' @ drop 12 (wav_bytes f xs)"
    and "drop 12 (wav_bytes f xs) = tag_bytes ''fmt '' @ drop 16 (wav_bytes f xs)"
    and "drop 16 (wav_bytes f xs) = write_u32 16 @ drop 20 (wav_bytes f xs)"
    and "drop 20 (wav_bytes f xs) = write_u16 1 @ drop 22 (wav_bytes f xs)"
    and "drop 22 (wav_bytes f xs) = write_u16 (word_of_int (pf_channels f)) @ drop 24 (wav_bytes f xs)"
    and "drop 24 (wav_bytes f xs) =
      write_u32 (word_of_int (pf_sample_rate_hz f)) @ drop 28 (wav_bytes f xs)"
    and "drop 28 (wav_bytes f xs) =
      write_u32 (word_of_int (pf_sample_rate_hz f) * ucast (bytes_per_frame f)) @ drop 32 (wav_bytes f xs)"
    and "drop 32 (wav_bytes f xs) = write_u16 (ucast (bytes_per_frame f)) @ drop 34 (wav_bytes f xs)"
    and "drop 34 (wav_bytes f xs) = write_u16 16 @ drop 36 (wav_bytes f xs)"
    and "drop 36 (wav_bytes f xs) = tag_bytes ''data'' @ drop 40 (wav_bytes f xs)"
    and "drop 40 (wav_bytes f xs) = write_u32 (of_nat (length xs * 2)) @ drop 44 (wav_bytes f xs)"
    and "drop 44 (wav_bytes f xs) =
      concat (map (\<lambda>x. write_u16 (word_of_int x)) xs)"
  by (simp_all add: wav_bytes_def Let_def)

lemma read_tag_at:
  "drop pos bs = tag_bytes t @ rest \<Longrightarrow> pos \<le> length bs \<Longrightarrow> length t = 4 \<Longrightarrow>
   read_exact bs pos 4 = Some (tag_bytes t, pos + 4)"
  using read_exact_at [of pos bs "tag_bytes t" rest] by simp

lemma wav_headers:
  "read_riff_header (wav_bytes f xs) = Some 12"
  "read_chunk_header (wav_bytes f xs) 12 = Some (tag_bytes ''fmt '', 16, 20)"
  "read_format_fields (wav_bytes f xs) 20 =
     Some (1, word_of_int (pf_channels f), word_of_int (pf_sample_rate_hz f), 16)"
  "read_chunk_header (wav_bytes f xs) 36 = Some (tag_bytes ''data'', of_nat (length xs * 2), 44)"
proof -
  note at = wav_bytes_at [where f = f and xs = xs]
  show "read_riff_header (wav_bytes f xs) = Some 12"
    using read_tag_at [OF at(1)] read_u32_at [OF at(2)] read_tag_at [OF at(3)]
    by (simp add: read_riff_header_def is_tag_def)
  show "read_chunk_header (wav_bytes f xs) 12 = Some (tag_bytes ''fmt '', 16, 20)"
    using read_tag_at [OF at(4)] read_u32_at [OF at(5)] by (simp add: read_chunk_header_def)
  show "read_format_fields (wav_bytes f xs) 20 =
     Some (1, word_of_int (pf_channels f), word_of_int (pf_sample_rate_hz f), 16)"
    using read_u16_at [OF at(6)] read_u16_at [OF at(7)] read_u32_at [OF at(8)]
      read_u32_at [OF at(9)] read_u16_at [OF at(10)] read_u16_at [OF at(11)]
    by (simp add: read_format_fields_def)
  show "read_chunk_header (wav_bytes f xs) 36 = Some (tag_bytes ''data'', of_nat (length xs * 2), 44)"
    using read_tag_at [OF at(12)] read_u32_at [OF at(13)] by (simp add: read_chunk_header_def)
qed

lemma tag_neq: "is_tag (tag_bytes ''data'') ''fmt ''  = False" "is_tag (tag_bytes t) t = True"
  by (simp_all add: is_tag_def tag_bytes_def code_def)

lemma read_chunks_done:
  "ws_found_format st \<Longrightarrow> ws_found_data st \<Longrightarrow> read_chunks bs pos st = Inr st"
  by (subst read_chunks.simps) simp

text \<open>The two chunks of a written file, and what the reader makes of them.\<close>

lemma read_written:
  assumes "pcm_format_error f = None" "length xs mod nat (pf_channels f) = 0"
    and "length xs * 2 \<le> 2 ^ 32 - 1 - 36" "list_all fits_i16 xs"
  shows "read_pcm16_wav path (Some (wav_bytes f xs)) =
    (if length xs * 2 \<le> 512 * 1024 * 1024
     then Inr \<lparr> pb_format = f\<lparr>pf_frame_ms := 20\<rparr>, pb_samples = xs \<rparr>
     else Inl ''WAV data chunk exceeds the supported size limit'')"
proof -
  let ?bs = "wav_bytes f xs"
  let ?st = "wav_state0\<lparr>ws_audio_format := 1, ws_channels := word_of_int (pf_channels f),
    ws_sample_rate := word_of_int (pf_sample_rate_hz f), ws_bits_per_sample := 16,
    ws_found_format := True\<rparr>"
  have n: "unat (of_nat (length xs * 2) :: u32) = length xs * 2"
    unfolding unat_of_nat using assms(3) by simp
  have big: "of_nat (length xs * 2) > kMaxPcmDataBytes \<longleftrightarrow> \<not> length xs * 2 \<le> 512 * 1024 * 1024"
    unfolding word_less_nat_alt n by (simp add: kMaxPcmDataBytes_def not_le)
  have smp: "read_samples (length xs) ?bs 44 = Some xs"
    by (rule read_samples_at) (use wav_bytes_at(14) assms(4) in simp_all)
  have ok: "pcm_format_error (f\<lparr>pf_frame_ms := 20\<rparr>) = None"
    using assms(1) by (simp add: pcm_format_ok)
  have casts: "sint (word_of_int (pf_sample_rate_hz f) :: u32) = pf_sample_rate_hz f"
    "uint (word_of_int (pf_channels f) :: u16) = pf_channels f"
    using assms(1)
    by (simp_all add: pcm_format_ok sint_sbintrunc' signed_take_bit_int_eq_self uint_word_of_int)
  have fmt: "default_pcm_format\<lparr>pf_sample_rate_hz := pf_sample_rate_hz f, pf_channels := pf_channels f\<rparr> =
      f\<lparr>pf_frame_ms := 20\<rparr>"
    by (cases f, cases "pf_sample_format f") (simp add: default_pcm_format_def)
  have first: "read_chunks ?bs 12 wav_state0 = read_chunks ?bs 36 ?st"
    by (subst read_chunks.simps)
      (simp add: wav_headers read_chunk_def tag_neq, simp add: wav_state0_def)
  have second: "read_chunks ?bs 36 ?st = (if length xs * 2 \<le> 512 * 1024 * 1024
      then Inr (?st\<lparr>ws_samples := xs, ws_found_data := True\<rparr>)
      else Inl ''WAV data chunk exceeds the supported size limit'')"
    by (subst read_chunks.simps)
      (simp add: wav_headers read_chunk_def tag_neq big n smp read_chunks_done
        wav_state0_def del: of_nat_mult)
  show ?thesis
    using assms(2)
    by (simp add: read_pcm16_wav_def wav_headers first second finish_wav_def casts fmt ok Let_def)
qed

section \<open>Reading a file cut short\<close>

lemma read_exact_take:
  "k \<le> length bs \<Longrightarrow> read_exact (take k bs) pos n = (if pos + n \<le> k then read_exact bs pos n else None)"
  by (auto simp: read_exact_def drop_take min_def)

lemma read_u16_take:
  "k \<le> length bs \<Longrightarrow> read_u16 (take k bs) pos = (if pos + 2 \<le> k then read_u16 bs pos else None)"
  by (simp add: read_u16_def read_exact_take)

lemma read_u32_take:
  "k \<le> length bs \<Longrightarrow> read_u32 (take k bs) pos = (if pos + 4 \<le> k then read_u32 bs pos else None)"
  by (simp add: read_u32_def read_exact_take)

lemmas read_take = read_exact_take read_u16_take read_u32_take

lemma wav_headers_take:
  fixes f xs k
  defines "bs \<equiv> take k (wav_bytes f xs)"
  assumes "k \<le> 44 + 2 * length xs"
  shows "read_riff_header bs = (if 12 \<le> k then Some 12 else None)"
    and "read_chunk_header bs 12 = (if 20 \<le> k then Some (tag_bytes ''fmt '', 16, 20) else None)"
    and "read_format_fields bs 20 = (if 36 \<le> k then
       Some (1, word_of_int (pf_channels f), word_of_int (pf_sample_rate_hz f), 16) else None)"
    and "read_chunk_header bs 36 =
       (if 44 \<le> k then Some (tag_bytes ''data'', of_nat (length xs * 2), 44) else None)"
proof -
  note at = wav_bytes_at [where f = f and xs = xs]
  have k: "k \<le> length (wav_bytes f xs)"
    using assms(2) by simp
  note take = read_take [OF k, folded bs_def]
  show "read_riff_header bs = (if 12 \<le> k then Some 12 else None)"
    using read_tag_at [OF at(1)] read_u32_at [OF at(2)] read_tag_at [OF at(3)]
    by (simp add: read_riff_header_def is_tag_def take)
  show "read_chunk_header bs 12 = (if 20 \<le> k then Some (tag_bytes ''fmt '', 16, 20) else None)"
    using read_tag_at [OF at(4)] read_u32_at [OF at(5)] by (simp add: read_chunk_header_def take)
  show "read_format_fields bs 20 = (if 36 \<le> k then
       Some (1, word_of_int (pf_channels f), word_of_int (pf_sample_rate_hz f), 16) else None)"
    using read_u16_at [OF at(6)] read_u16_at [OF at(7)] read_u32_at [OF at(8)]
      read_u32_at [OF at(9)] read_u16_at [OF at(10)] read_u16_at [OF at(11)]
    by (simp add: read_format_fields_def take)
  show "read_chunk_header bs 36 =
       (if 44 \<le> k then Some (tag_bytes ''data'', of_nat (length xs * 2), 44) else None)"
    using read_tag_at [OF at(12)] read_u32_at [OF at(13)] by (simp add: read_chunk_header_def take)
qed

lemma read_samples_ok:
  "read_samples n bs pos = Some xs \<Longrightarrow> length xs = n \<and> list_all fits_i16 xs \<and> (0 < n \<longrightarrow> pos + 2 * n \<le> length bs)"
proof (induction n arbitrary: pos xs)
  case (Suc n)
  then obtain v pos' ys where r: "read_u16 bs pos = Some (v, pos')"
    "read_samples n bs pos' = Some ys" "xs = sint v # ys"
    by (auto split: option.splits)
  moreover have "pos' = pos + 2" "pos + 2 \<le> length bs"
    using r(1) by (auto simp: read_u16_def read_exact_def split: if_splits)
  ultimately show ?case
    using Suc.IH [OF r(2)] by (cases n) auto
qed simp

text \<open>Every strict prefix of a written file is refused, at the first read that finds it too short.\<close>

lemma read_cut_short:
  assumes "k < 44 + 2 * length xs" "length xs * 2 \<le> 2 ^ 32 - 1 - 36"
  shows "\<exists>e. read_pcm16_wav path (Some (take k (wav_bytes f xs))) = Inl e"
proof -
  let ?bs = "take k (wav_bytes f xs)"
  have h: "k \<le> 44 + 2 * length xs"
    using assms(1) by simp
  note hd = wav_headers_take [OF h, where f = f]
  let ?st = "wav_state0\<lparr>ws_audio_format := 1, ws_channels := word_of_int (pf_channels f),
    ws_sample_rate := word_of_int (pf_sample_rate_hz f), ws_bits_per_sample := 16,
    ws_found_format := True\<rparr>"
  have n: "unat (of_nat (length xs * 2) :: u32) = length xs * 2"
    unfolding unat_of_nat using assms(2) by simp
  consider (riff) "k < 12" | (chunk) "12 \<le> k" "k < 20" | (fmt) "20 \<le> k" "k < 36" | (dat) "36 \<le> k"
    by linarith
  then show ?thesis
  proof cases
    case riff
    then show ?thesis by (simp add: read_pcm16_wav_def hd)
  next
    case chunk
    have "read_chunks ?bs 12 wav_state0 = Inr wav_state0"
      by (subst read_chunks.simps) (use chunk in \<open>simp add: hd wav_state0_def\<close>)
    then show ?thesis
      using chunk by (simp add: read_pcm16_wav_def hd finish_wav_def wav_state0_def)
  next
    case fmt
    have "read_chunks ?bs 12 wav_state0 = Inl ''invalid WAV format chunk''"
      by (subst read_chunks.simps) (use fmt in \<open>simp add: hd read_chunk_def tag_neq wav_state0_def\<close>)
    then show ?thesis
      using fmt by (simp add: read_pcm16_wav_def hd)
  next
    case dat
    have first: "read_chunks ?bs 12 wav_state0 = read_chunks ?bs 36 ?st"
      by (subst read_chunks.simps)
        (use dat in \<open>simp add: hd read_chunk_def tag_neq\<close>, simp add: wav_state0_def)
    have "\<exists>e. (case read_chunks ?bs 36 ?st of Inl e \<Rightarrow> Inl e | Inr st \<Rightarrow> finish_wav st) = Inl e"
    proof (cases "44 \<le> k")
      case False
      have "read_chunks ?bs 36 ?st = Inr ?st"
        by (subst read_chunks.simps) (use False in \<open>simp add: hd wav_state0_def\<close>)
      then show ?thesis by (simp add: finish_wav_def wav_state0_def)
    next
      case True
      have "length xs = 0 \<or> read_samples (length xs) ?bs 44 = None"
        using read_samples_ok [of "length xs" ?bs 44] assms(1) by (cases "read_samples (length xs) ?bs 44") auto
      moreover have "length xs \<noteq> 0"
        using True assms(1) by linarith
      ultimately show ?thesis
        by (subst read_chunks.simps)
          (use True in \<open>simp add: hd read_chunk_def tag_neq n wav_state0_def del: of_nat_mult\<close>)
    qed
    then show ?thesis
      using dat by (simp add: read_pcm16_wav_def hd first)
  qed
qed

section \<open>Properties\<close>

text \<open>
  C35: a recording written to a file is the recording read from it, or the file is refused. If
  \<open>WritePcm16Wav\<close> succeeds and the disk took all of the bytes, then \<open>ReadPcm16Wav\<close> returns the
  samples and the format, the period length apart, which the file does not hold; the one exception is a
  recording above the 512 MiB the reader takes, which it refuses with the error for that. The writer
  also succeeds when the flush after its test was cut short; then the reader refuses the file, wherever
  it ends: a shortened recording is never taken for a whole one.
\<close>

theorem wav_files_read_back:
  assumes "write_pcm16_wav path f xs d = (None, Some bs)" "list_all fits_i16 xs"
  shows "if 44 + 2 * length xs \<le> wd_takes d
    then read_pcm16_wav path (Some bs) = (if length xs * 2 \<le> 512 * 1024 * 1024
      then Inr \<lparr> pb_format = f\<lparr>pf_frame_ms := 20\<rparr>, pb_samples = xs \<rparr>
      else Inl ''WAV data chunk exceeds the supported size limit'')
    else \<exists>e. read_pcm16_wav path (Some bs) = Inl e"
proof -
  have "pcm_format_error f = None" "length xs mod nat (pf_channels f) = 0"
    "length xs * 2 \<le> 2 ^ 32 - 1 - 36" "bs = take (wd_takes d) (wav_bytes f xs)"
    using assms(1) by (auto simp: write_pcm16_wav_def Let_def split: option.splits if_splits)
  with read_written [of f xs path] read_cut_short [of "wd_takes d" xs path f] assms(2) show ?thesis
    by simp
qed

theorem wav_files_read_back_witness:
  "read_pcm16_wav ''a.wav'' (Some (wav_bytes (default_pcm_format\<lparr>pf_channels := 2\<rparr>) [1, - 32768])) =
     Inr \<lparr> pb_format = default_pcm_format\<lparr>pf_channels := 2\<rparr>, pb_samples = [1, - 32768] \<rparr>"
proof -
  let ?f = "default_pcm_format\<lparr>pf_channels := 2\<rparr>"
  let ?d = "\<lparr> wd_opens = True, wd_tested = 0, wd_takes = 48, wd_leaves = [] \<rparr>"
  have "pcm_format_error ?f = None"
    by (simp add: pcm_format_ok default_pcm_format_def)
  then have "write_pcm16_wav ''a.wav'' ?f [1, - 32768] ?d = (None, Some (wav_bytes ?f [1, - 32768]))"
    by (simp add: write_pcm16_wav_def Let_def)
  from wav_files_read_back [OF this] show ?thesis
    by (simp add: fits_i16_def default_pcm_format_def)
qed

text \<open>
  The writer tests the stream before it is closed, so it reports success for a recording of which the
  disk took only the header; the reader does find out.
\<close>

lemma writer_trusts_unflushed_stream:
  "write_pcm16_wav ''a.wav'' default_pcm_format [5]
     \<lparr> wd_opens = True, wd_tested = 0, wd_takes = 44, wd_leaves = [] \<rparr> =
   (None, Some (take 44 (wav_bytes default_pcm_format [5]))) \<and>
   (\<exists>e. read_pcm16_wav ''a.wav'' (Some (take 44 (wav_bytes default_pcm_format [5]))) = Inl e)"
proof -
  have "pcm_format_error default_pcm_format = None"
    by (simp add: pcm_format_ok default_pcm_format_def)
  then show ?thesis
    using read_cut_short [of 44 "[5]" "''a.wav''" default_pcm_format]
    by (simp add: write_pcm16_wav_def default_pcm_format_def Let_def)
qed

text \<open>Whatever the file holds, the samples the reader has are samples of the file.\<close>

definition wav_state_ok :: "u8 list \<Rightarrow> wav_state \<Rightarrow> bool" where
  "wav_state_ok bs st \<longleftrightarrow> list_all fits_i16 (ws_samples st) \<and> 2 * length (ws_samples st) \<le> length bs \<and>
     2 * length (ws_samples st) \<le> 512 * 1024 * 1024"

lemma read_chunk_ok:
  assumes "wav_state_ok bs st" "read_chunk bs tag n start st = Inr st'"
  shows "wav_state_ok bs st'"
proof -
  consider (fmt) "is_tag tag ''fmt ''" | (dat) "\<not> is_tag tag ''fmt ''" "is_tag tag ''data''"
    | (other) "\<not> is_tag tag ''fmt ''" "\<not> is_tag tag ''data''"
    by blast
  then show ?thesis
  proof cases
    case fmt
    then have "ws_samples st' = ws_samples st"
      using assms(2) by (auto simp: read_chunk_def split: option.splits if_splits)
    with assms(1) show ?thesis by (simp add: wav_state_ok_def)
  next
    case dat
    then obtain xs where xs: "read_samples (unat n div 2) bs start = Some xs" "ws_samples st' = xs"
      "\<not> n > kMaxPcmDataBytes"
      using assms(2) by (auto simp: read_chunk_def split: option.splits if_splits)
    have "unat n \<le> 512 * 1024 * 1024"
      using xs(3) by (simp add: word_less_nat_alt kMaxPcmDataBytes_def not_less)
    with read_samples_ok [OF xs(1)] xs(2) show ?thesis
      by (auto simp: wav_state_ok_def)
  next
    case other
    then show ?thesis
      using assms by (simp add: read_chunk_def)
  qed
qed

lemma read_chunks_ok:
  "wav_state_ok bs st \<Longrightarrow> read_chunks bs pos st = Inr st' \<Longrightarrow> wav_state_ok bs st'"
proof (induction bs pos st rule: read_chunks.induct)
  case (1 bs pos st)
  show ?case
  proof (cases "ws_found_format st \<and> ws_found_data st \<or> read_chunk_header bs pos = None")
    case True
    then show ?thesis
      using 1 by (subst (asm) (2) read_chunks.simps) (auto split: if_splits)
  next
    case False
    then obtain tag n start where h: "read_chunk_header bs pos = Some (tag, n, start)"
      by auto
    from False h "1.prems"(2) obtain st1 where s: "read_chunk bs tag n start st = Inr st1"
      "read_chunks bs (start + unat n + unat (n AND 1)) st1 = Inr st'"
      by (subst (asm) read_chunks.simps) (auto split: sum.splits)
    show ?thesis
      by (rule "1.IH" [OF _ h refl refl s(1)]) (use False s read_chunk_ok "1.prems" in auto)
  qed
qed

text \<open>
  Whatever bytes a file holds, what \<open>ReadPcm16Wav\<close> returns from it is a valid recording: a format
  the device code accepts, samples of 16 bits in complete frames, no more of them than the file has
  bytes for and never more than 512 MiB. The loop over the chunks ends on every file.
\<close>

theorem wav_reader_returns_recordings:
  assumes "read_pcm16_wav path (Some bs) = Inr b"
  shows "pcm_format_error (pb_format b) = None \<and> list_all fits_i16 (pb_samples b) \<and>
    length (pb_samples b) = frame_count b * nat (pf_channels (pb_format b)) \<and>
    2 * length (pb_samples b) \<le> length bs \<and> 2 * length (pb_samples b) \<le> 512 * 1024 * 1024"
proof -
  obtain pos st where st: "read_chunks bs pos wav_state0 = Inr st" "finish_wav st = Inr b"
    using assms by (auto simp: read_pcm16_wav_def split: option.splits sum.splits)
  have "wav_state_ok bs wav_state0"
    by (simp add: wav_state_ok_def wav_state0_def)
  from read_chunks_ok [OF this st(1)] have ok: "wav_state_ok bs st" .
  from st(2) have b: "pcm_format_error (pb_format b) = None" "pb_samples b = ws_samples st"
    "length (pb_samples b) mod nat (pf_channels (pb_format b)) = 0"
    by (auto simp: finish_wav_def Let_def split: if_splits option.splits)
  have "0 < pf_channels (pb_format b)"
    using b(1) by (simp add: pcm_format_ok)
  then have "length (pb_samples b) = frame_count b * nat (pf_channels (pb_format b))"
    using b(3) by (auto simp: frame_count_def elim: dvdE dest: mod_0_imp_dvd)
  with ok b show ?thesis
    by (simp add: wav_state_ok_def)
qed

theorem wav_reader_returns_recordings_witness:
  "\<exists>b. read_pcm16_wav ''a.wav'' (Some (wav_bytes default_pcm_format [5])) = Inr b \<and>
     2 * length (pb_samples b) \<le> length (wav_bytes default_pcm_format [5])"
proof -
  have "read_pcm16_wav ''a.wav'' (Some (wav_bytes default_pcm_format [5])) =
      Inr \<lparr> pb_format = default_pcm_format\<lparr>pf_frame_ms := 20\<rparr>, pb_samples = [5] \<rparr>"
    using read_written [of default_pcm_format "[5]"]
    by (simp add: pcm_format_ok default_pcm_format_def fits_i16_def)
  with wav_reader_returns_recordings [OF this] show ?thesis
    by blast
qed

end
