(* ===== verification/Camera_Frame.thy ===== *)
theory Camera_Frame
  imports Prelude
begin

text \<open>
  Camera frames and the buffer of the latest one (driver/camera/frames/camera_frame.cc,
  driver/camera/frames/latest_frame_buffer.cc). The enumerations are stored and cast as 32 bit words in shared
  memory, so they are words here too, with the code's enumerators as constants. \<open>std::size_t\<close> is a
  64 bit word, and the checked multiplication keeps its test.
\<close>

section \<open>Frames\<close>

type_synonym pixel_format = u32
type_synonym timestamp_clock = u32

definition kFormatUnknown :: pixel_format where "kFormatUnknown = 0"
definition kRgb :: pixel_format where "kRgb = 1"
definition kBgrx :: pixel_format where "kBgrx = 2"
definition kYuyv :: pixel_format where "kYuyv = 3"
definition kMjpeg :: pixel_format where "kMjpeg = 4"
definition kNv12 :: pixel_format where "kNv12 = 5"
definition kSrgGb10 :: pixel_format where "kSrgGb10 = 6"

definition kClockUnknown :: timestamp_clock where "kClockUnknown = 0"
definition kClockMonotonic :: timestamp_clock where "kClockMonotonic = 1"
definition kClockRealtime :: timestamp_clock where "kClockRealtime = 2"
definition kGstreamerRunningTime :: timestamp_clock where "kGstreamerRunningTime = 3"

lemmas pixel_formats = kFormatUnknown_def kRgb_def kBgrx_def kYuyv_def kMjpeg_def kNv12_def kSrgGb10_def
lemmas timestamp_clocks = kClockUnknown_def kClockMonotonic_def kClockRealtime_def
  kGstreamerRunningTime_def

record camera_frame =
  cf_sequence :: u64
  cf_timestamp_ms :: u64
  cf_source_timestamp_ns :: int
  cf_received_at_ns :: int
  cf_source_clock :: timestamp_clock
  cf_source_timestamp_flags :: u32
  cf_source_timestamp_valid :: bool
  cf_width :: u32
  cf_height :: u32
  cf_stride_bytes :: u32
  cf_format :: pixel_format
  cf_data :: "u8 list"

definition checked_multiply :: "u64 \<Rightarrow> u64 \<Rightarrow> u64 option" where
  "checked_multiply left right =
     (if left \<noteq> 0 \<and> right > - 1 div left then None else Some (left * right))"

definition bytes_per_pixel :: "pixel_format \<Rightarrow> u64" where
  "bytes_per_pixel f = (if f = kRgb then 3 else if f = kBgrx then 4 else if f = kYuyv then 2
     else if f = kSrgGb10 then 2 else 0)"

definition has_valid_layout :: "camera_frame \<Rightarrow> bool" where
  "has_valid_layout f =
     (if cf_width f = 0 \<or> cf_height f = 0 \<or> cf_stride_bytes f = 0 \<or> cf_format f = kFormatUnknown then False
      else if bytes_per_pixel (cf_format f) \<noteq> 0 then
        (case checked_multiply (ucast (cf_width f)) (bytes_per_pixel (cf_format f)) of
           None \<Rightarrow> False
         | Some minimum_stride \<Rightarrow> (ucast (cf_stride_bytes f) :: u64) \<ge> minimum_stride)
      else if cf_format f = kNv12 then cf_height f mod 2 = 0 \<and> cf_stride_bytes f \<ge> cf_width f
      else cf_format f = kMjpeg)"

definition has_valid_payload_size :: "camera_frame \<Rightarrow> u64 \<Rightarrow> bool" where
  "has_valid_payload_size f payload_size =
     (if \<not> has_valid_layout f \<or> payload_size = 0 then False
      else if cf_format f = kMjpeg then True
      else (case checked_multiply (ucast (cf_stride_bytes f)) (ucast (cf_height f)) of
          None \<Rightarrow> False
        | Some required \<Rightarrow>
            if cf_format f = kNv12 then
              (case checked_multiply (ucast (cf_stride_bytes f)) (ucast (cf_height f div 2)) of
                 None \<Rightarrow> False
               | Some chroma \<Rightarrow>
                   if chroma > - 1 - required then False else payload_size \<ge> required + chroma)
            else payload_size \<ge> required))"

definition frame_valid :: "camera_frame \<Rightarrow> bool" where
  "frame_valid f \<longleftrightarrow> has_valid_payload_size f (of_nat (length (cf_data f)))"

definition format_name :: "pixel_format \<Rightarrow> string" where
  "format_name f = (if f = kRgb then ''rgb'' else if f = kBgrx then ''bgrx'' else if f = kYuyv then ''yuyv''
     else if f = kMjpeg then ''mjpeg'' else if f = kNv12 then ''nv12'' else if f = kSrgGb10 then ''srg_gb10''
     else ''unknown'')"

definition clock_name :: "timestamp_clock \<Rightarrow> string" where
  "clock_name c = (if c = kClockMonotonic then ''monotonic'' else if c = kClockRealtime then ''realtime''
     else if c = kGstreamerRunningTime then ''gstreamer_running_time'' else ''unknown'')"

lemma unat_max64: "unat (- 1 :: u64) = 2 ^ 64 - 1"
  by (simp add: unsigned_minus_1_eq_mask mask_eq_exp_minus_1)

lemma unat_u32_u64: "unat (ucast (w :: u32) :: u64) = unat w"
  using unsigned_less [where 'b = 32 and 'a = nat, of w] by (simp add: unsigned_ucast_eq take_bit_nat_eq_self)

text \<open>The multiplication is the mathematical one whenever it returns.\<close>

lemma checked_multiply_exact:
  "checked_multiply a b = Some c \<longleftrightarrow> unat a * unat b < 2 ^ 64 \<and> c = a * b"
proof (cases "a = 0")
  case True
  then show ?thesis by (auto simp: checked_multiply_def)
next
  case False
  then have pos: "0 < unat a" by (simp add: unat_gt_0)
  from unat_max64 have "b > - 1 div a \<longleftrightarrow> (2 ^ 64 - 1) div unat a < unat b"
    by (simp add: word_less_nat_alt unat_div_distrib)
  also have "\<dots> \<longleftrightarrow> 2 ^ 64 - 1 < unat b * unat a"
    using pos by (simp only: div_less_iff_less_mult)
  also have "\<dots> \<longleftrightarrow> \<not> unat a * unat b < 2 ^ 64"
    by (auto simp: mult.commute)
  finally show ?thesis
    using False by (auto simp: checked_multiply_def)
qed

lemma checked_multiply_unat:
  "checked_multiply a b = Some c \<Longrightarrow> unat c = unat a * unat b"
  by (simp add: checked_multiply_exact unat_word_ariths)

text \<open>
  The pixels a valid frame's header promises are in its payload: every row of a packed format, and
  both planes of NV12. A row of a packed format holds the pixels of the width.
\<close>

definition frame_bytes :: "camera_frame \<Rightarrow> nat" where
  "frame_bytes f = unat (cf_stride_bytes f) *
     (unat (cf_height f) + (if cf_format f = kNv12 then unat (cf_height f) div 2 else 0))"

lemma frame_valid_bytes:
  assumes "frame_valid f" "length (cf_data f) < 2 ^ 64" "cf_format f \<noteq> kMjpeg"
  shows "frame_bytes f \<le> length (cf_data f)"
    and "cf_format f \<noteq> kNv12 \<Longrightarrow>
      unat (cf_width f) * unat (bytes_per_pixel (cf_format f)) \<le> unat (cf_stride_bytes f)"
proof -
  let ?n = "of_nat (length (cf_data f)) :: u64"
  have n: "unat ?n = length (cf_data f)"
    unfolding unat_of_nat using assms(2) by simp
  note u = unat_u32_u64
  from assms obtain req where req: "has_valid_layout f"
    "checked_multiply (ucast (cf_stride_bytes f)) (ucast (cf_height f)) = Some req"
    by (auto simp: frame_valid_def has_valid_payload_size_def split: if_splits option.splits)
  have r: "unat req = unat (cf_stride_bytes f) * unat (cf_height f)"
    using checked_multiply_unat [OF req(2)] by (simp add: u)
  show "frame_bytes f \<le> length (cf_data f)"
  proof (cases "cf_format f = kNv12")
    case True
    then obtain ch where ch:
      "checked_multiply (ucast (cf_stride_bytes f)) (ucast (cf_height f div 2)) = Some ch"
      "\<not> ch > - 1 - req" "?n \<ge> req + ch"
      using assms req
      by (auto simp: frame_valid_def has_valid_payload_size_def split: if_splits option.splits)
    have c: "unat ch = unat (cf_stride_bytes f) * (unat (cf_height f) div 2)"
      using checked_multiply_unat [OF ch(1)] by (simp add: u unat_div_distrib)
    have "unat (- 1 - req) = 2 ^ 64 - 1 - unat req"
      by (subst unat_sub) (simp_all add: unat_max64)
    with ch(2) have "unat req + unat ch < 2 ^ 64"
      using unsigned_less [where 'b = 64 and 'a = nat, of req] by (simp add: word_less_nat_alt)
    then have "unat (req + ch) = unat req + unat ch"
      by (simp add: unat_word_ariths)
    with ch(3) have "unat req + unat ch \<le> length (cf_data f)"
      by (simp add: word_le_nat_alt n)
    then show ?thesis
      using True r c by (simp add: frame_bytes_def algebra_simps)
  next
    case False
    then have "?n \<ge> req"
      using assms req
      by (auto simp: frame_valid_def has_valid_payload_size_def split: if_splits option.splits)
    then show ?thesis
      using False r n by (simp add: frame_bytes_def word_le_nat_alt)
  qed
  show "unat (cf_width f) * unat (bytes_per_pixel (cf_format f)) \<le> unat (cf_stride_bytes f)"
    if "cf_format f \<noteq> kNv12"
  proof -
    from req(1) that assms(3) obtain m where
      "checked_multiply (ucast (cf_width f)) (bytes_per_pixel (cf_format f)) = Some m"
      "(ucast (cf_stride_bytes f) :: u64) \<ge> m"
      by (auto simp: has_valid_layout_def split: if_splits option.splits)
    then show ?thesis
      using checked_multiply_unat by (fastforce simp: word_le_nat_alt u)
  qed
qed

section \<open>The buffer of the latest frame\<close>

text \<open>The buffer is shared between threads; every operation runs under its mutex, so it is one step.\<close>

record latest_buffer =
  lb_latest :: "camera_frame option"
  lb_published :: u64
  lb_replaced :: u64
  lb_generation :: u64

definition latest_buffer0 :: latest_buffer where
  "latest_buffer0 = \<lparr> lb_latest = None, lb_published = 0, lb_replaced = 0, lb_generation = 0 \<rparr>"

definition publish_handle :: "camera_frame option \<Rightarrow> latest_buffer \<Rightarrow> bool \<times> latest_buffer" where
  "publish_handle h b = (case h of
     None \<Rightarrow> (False, b)
   | Some f \<Rightarrow>
     if \<not> frame_valid f then (False, b)
     else (True, b\<lparr>lb_replaced := lb_replaced b + (if lb_latest b \<noteq> None then 1 else 0),
             lb_latest := Some f, lb_published := lb_published b + 1,
             lb_generation := lb_generation b + 1\<rparr>))"

definition latest_publish :: "camera_frame \<Rightarrow> latest_buffer \<Rightarrow> bool \<times> latest_buffer" where
  "latest_publish f b = publish_handle (Some f) b"

definition latest_handle :: "latest_buffer \<Rightarrow> camera_frame option \<times> u64" where
  "latest_handle b = (lb_latest b, lb_generation b)"

definition latest_read :: "latest_buffer \<Rightarrow> (camera_frame \<times> u64) option" where
  "latest_read b = (case lb_latest b of None \<Rightarrow> None | Some f \<Rightarrow> Some (f, lb_generation b))"

record latest_status =
  ls_published :: u64
  ls_replaced :: u64
  ls_generation :: u64
  ls_has_frame :: bool

definition latest_status_of :: "latest_buffer \<Rightarrow> latest_status" where
  "latest_status_of b = \<lparr> ls_published = lb_published b, ls_replaced = lb_replaced b,
     ls_generation = lb_generation b, ls_has_frame = (lb_latest b \<noteq> None) \<rparr>"

definition latest_clear :: "latest_buffer \<Rightarrow> latest_buffer" where
  "latest_clear b = b\<lparr>lb_latest := None\<rparr>"

text \<open>The buffer holds valid frames only, and its generation counts the frames it took.\<close>

definition latest_inv :: "latest_buffer \<Rightarrow> bool" where
  "latest_inv b \<longleftrightarrow> (\<forall>f. lb_latest b = Some f \<longrightarrow> frame_valid f) \<and> lb_generation b = lb_published b"

lemma latest_inv0: "latest_inv latest_buffer0"
  by (simp add: latest_inv_def latest_buffer0_def)

lemma latest_inv_publish: "latest_inv b \<Longrightarrow> latest_inv (snd (publish_handle h b))"
  by (auto simp: latest_inv_def publish_handle_def split: option.splits)

lemma latest_inv_clear: "latest_inv b \<Longrightarrow> latest_inv (latest_clear b)"
  by (simp add: latest_inv_def latest_clear_def)

lemma latest_read_publish:
  "latest_publish f b = (True, b') \<Longrightarrow> latest_read b' = Some (f, lb_generation b + 1)"
  by (auto simp: latest_publish_def publish_handle_def latest_read_def split: if_splits)

end
