(* ===== verification/Shared_Frames.thy ===== *)
theory Shared_Frames
  imports Camera_Frame
begin

text \<open>
  The shared-memory double buffer through which the camera process hands preview frames to the
  processes that show them (driver/camera/shared_memory/shared_frame_buffer.cc).

  The mapping is a header and two slots, each behind a robust process-shared mutex. One writer and
  any number of readers work on it, every one at its own pace, and any of them may be killed between
  two instructions. The model is a state and a function \<open>frames_step\<close> that performs one event: one
  atomic load or store, one lock operation, or one store of a field or of a payload byte under the
  lock. A run is any list of events, so every interleaving and every crash is one. What the code does
  without touching shared memory in between belongs to the step before. A mutex operation that the
  library may refuse takes the outcome as an input.

  The loads and stores are interleaved, that is, sequentially consistent; the code orders the two
  atomics with acquire and release, and guards everything else by the locks.

  The ghost component \<open>fm_log\<close> lists the frames in the order their writes were finished, and
  \<open>fm_done\<close> counts the ones whose generation the header shows; no step reads them.
\<close>

section \<open>The layout of the mapping\<close>

definition kSharedMagic :: u32 where "kSharedMagic = 0x43414D46"
definition kSharedVersion :: u32 where "kSharedVersion = 3"
definition kSlotCount :: u64 where "kSlotCount = 2"
definition kAlignment :: u64 where "kAlignment = 64"

text \<open>The sizes of the two structures, whose alignment is 64, on 64 bit Linux.\<close>

definition sizeof_shared_header :: u64 where "sizeof_shared_header = 64"
definition sizeof_shared_slot :: u64 where "sizeof_shared_slot = 128"

definition align_up :: "u64 \<Rightarrow> u64" where
  "align_up v = (v + kAlignment - 1) AND NOT (kAlignment - 1)"

definition align_up_checked :: "u64 \<Rightarrow> u64 option" where
  "align_up_checked v = (if v > - 1 - (kAlignment - 1) then None else Some (align_up v))"

definition slot_stride :: "u64 \<Rightarrow> u64 option" where
  "slot_stride capacity = (case align_up_checked capacity of
     None \<Rightarrow> None
   | Some payload_size \<Rightarrow>
       let header_size = align_up sizeof_shared_slot in
       if payload_size > - 1 - header_size then None else Some (header_size + payload_size))"

definition mapping_size :: "u64 \<Rightarrow> u64 option" where
  "mapping_size capacity = (case slot_stride capacity of
     None \<Rightarrow> None
   | Some stride \<Rightarrow>
       if stride > (- 1 - align_up sizeof_shared_header) div kSlotCount then None
       else Some (align_up sizeof_shared_header + kSlotCount * stride))"

text \<open>The offsets of a slot and of its payload in the mapping.\<close>

definition slot_offset :: "u64 \<Rightarrow> u32 \<Rightarrow> u64" where
  "slot_offset capacity index =
     align_up sizeof_shared_header + ucast index * the (slot_stride capacity)"

definition payload_offset :: "u64 \<Rightarrow> u32 \<Rightarrow> u64" where
  "payload_offset capacity index = slot_offset capacity index + align_up sizeof_shared_slot"

lemma align_up_consts: "align_up sizeof_shared_header = 64" "align_up sizeof_shared_slot = 128"
  by (simp_all add: align_up_def kAlignment_def sizeof_shared_header_def sizeof_shared_slot_def)

lemma align_up_ge:
  assumes "v \<le> - 1 - 63"
  shows "unat v \<le> unat (align_up v)" "unat (align_up v) \<le> unat v + 63"
    "unat (align_up v) mod 64 = 0"
proof -
  have vm: "unat v \<le> 2 ^ 64 - 64"
  proof -
    have "unat (- 1 - 63 :: u64) = 2 ^ 64 - 64"
      by (subst unat_sub) (simp_all add: unat_max64)
    with assms show ?thesis by (simp add: word_le_nat_alt)
  qed
  have n: "NOT (63 :: u64) = NOT (mask 6)"
    by (simp add: mask_eq_exp_minus_1)
  have "unat (v + 63) = unat v + 63"
    using vm by (simp add: unat_word_ariths)
  moreover have "align_up v = (v + 63) AND NOT (mask 6)"
    using n by (simp add: align_up_def kAlignment_def add.commute)
  moreover have "(v + 63) AND NOT (mask 6) = push_bit 6 (drop_bit 6 (v + 63))"
    by (rule bit_word_eqI) (auto simp: bit_simps)
  moreover have "unat (push_bit 6 (drop_bit 6 (v + 63))) = (unat (v + 63) div 64) * 64"
  proof -
    have "unat (push_bit 6 (drop_bit 6 (v + 63))) = unat (drop_bit 6 (v + 63)) * 64 mod 2 ^ 64"
      by (simp add: push_bit_eq_mult unat_word_ariths)
    moreover have "unat (drop_bit 6 (v + 63)) = unat (v + 63) div 64"
      by (simp add: drop_bit_eq_div unat_div_distrib)
    moreover have "(unat (v + 63) div 64) * 64 < 2 ^ 64"
      using unsigned_less [where 'b = 64 and 'a = nat, of "v + 63"]
        div_times_less_eq_dividend [of "unat (v + 63)" 64] by simp
    ultimately show ?thesis by simp
  qed
  ultimately have a: "unat (align_up v) = ((unat v + 63) div 64) * 64"
    by simp
  have "(unat v + 63) div 64 * 64 + (unat v + 63) mod 64 = unat v + 63" "(unat v + 63) mod 64 < 64"
    by simp_all
  then show "unat v \<le> unat (align_up v)" "unat (align_up v) \<le> unat v + 63"
    unfolding a by linarith+
  show "unat (align_up v) mod 64 = 0" unfolding a by simp
qed

lemma slot_stride_exact:
  assumes "slot_stride c = Some s"
  shows "unat s = 128 + unat (align_up c)" "unat c \<le> unat (align_up c)"
proof -
  have c: "\<not> c > - 1 - 63" "\<not> align_up c > - 1 - 128" "s = 128 + align_up c"
    using assms
    by (auto simp: slot_stride_def align_up_checked_def kAlignment_def align_up_consts Let_def
        split: if_splits)
  have "unat (- 1 - 128 :: u64) = 2 ^ 64 - 129"
    by (subst unat_sub) (simp_all add: unat_max64)
  with c(2) have "unat (align_up c) \<le> 2 ^ 64 - 129"
    by (simp add: not_less word_le_nat_alt)
  with c(3) show "unat s = 128 + unat (align_up c)"
    by (simp add: unat_word_ariths)
  show "unat c \<le> unat (align_up c)"
    using c(1) by (intro align_up_ge(1)) (simp add: not_less)
qed

lemma mapping_size_exact:
  assumes "mapping_size c = Some m"
  obtains s where "slot_stride c = Some s" "unat m = 64 + 2 * unat s"
proof -
  obtain s where s: "slot_stride c = Some s" "\<not> s > (- 1 - 64) div 2" "m = 64 + 2 * s"
    using assms by (auto simp: mapping_size_def kSlotCount_def align_up_consts split: option.splits if_splits)
  have "unat (- 1 - 64 :: u64) = 2 ^ 64 - 65"
    by (subst unat_sub) (simp_all add: unat_max64)
  then have "unat s \<le> (2 ^ 64 - 65) div 2"
    using s(2) by (simp add: not_less word_le_nat_alt unat_div_distrib)
  then have "unat m = 64 + 2 * unat s"
    using s(3) by (simp add: unat_word_ariths)
  with s(1) show ?thesis by (rule that)
qed

text \<open>
  In a mapping of the computed size, the payload areas of the two slots lie inside the mapping, after
  the header and apart from each other and from the slot headers; no offset wraps.
\<close>

lemma slots_fit:
  assumes "mapping_size c = Some m"
  shows "64 + 128 \<le> unat (payload_offset c 0)"
    and "unat (payload_offset c 0) + unat c \<le> unat (slot_offset c 1)"
    and "unat (payload_offset c 1) = unat (slot_offset c 1) + 128"
    and "unat (payload_offset c 1) + unat c \<le> unat m"
proof -
  obtain s where s: "slot_stride c = Some s" "unat m = 64 + 2 * unat s"
    by (rule mapping_size_exact [OF assms])
  note st = slot_stride_exact [OF s(1)]
  have lim: "64 + 2 * unat s < 2 ^ 64"
    using s(2) unsigned_less [where 'b = 64 and 'a = nat, of m] by simp
  have o0: "unat (payload_offset c 0) = 192"
    by (simp add: payload_offset_def slot_offset_def align_up_consts)
  have o1: "unat (slot_offset c 1) = 64 + unat s"
    using lim by (simp add: slot_offset_def align_up_consts s(1) unat_word_ariths)
  have p1: "unat (payload_offset c 1) = 64 + unat s + 128"
    using lim st by (simp add: payload_offset_def align_up_consts unat_word_ariths o1)
  show "64 + 128 \<le> unat (payload_offset c 0)"
    and "unat (payload_offset c 0) + unat c \<le> unat (slot_offset c 1)"
    and "unat (payload_offset c 1) = unat (slot_offset c 1) + 128"
    and "unat (payload_offset c 1) + unat c \<le> unat m"
    using o0 o1 p1 st s(2) by simp_all
qed

section \<open>Slots, locks and the state\<close>

datatype actor = Writer | Reader nat

text \<open>A robust mutex: free, held, left by an owner that died, or given up after a recovery that failed.\<close>

datatype robust_mutex = Unlocked | Held actor | Owner_Died | Not_Recoverable

record shared_slot =
  sl_lock :: robust_mutex
  sl_generation :: u64
  sl_sequence :: u64
  sl_timestamp_ms :: u64
  sl_source_timestamp_ns :: int
  sl_received_at_ns :: int
  sl_payload_size :: u64
  sl_width :: u32
  sl_height :: u32
  sl_stride_bytes :: u32
  sl_format :: u32
  sl_source_clock :: u32
  sl_source_timestamp_flags :: u32
  sl_source_timestamp_valid :: u32
  sl_payload :: "u8 list"

type_synonym store = "shared_slot \<Rightarrow> shared_slot"

text \<open>The stores of \<open>ClearSlot\<close> and of \<open>Publish\<close>, in their order; \<open>memcpy\<close> is a store for each byte.\<close>

definition clear_stores :: "store list" where
  "clear_stores = [sl_generation_update (\<lambda>_. 0), sl_sequence_update (\<lambda>_. 0),
     sl_timestamp_ms_update (\<lambda>_. 0), sl_source_timestamp_ns_update (\<lambda>_. 0),
     sl_received_at_ns_update (\<lambda>_. 0), sl_payload_size_update (\<lambda>_. 0), sl_width_update (\<lambda>_. 0),
     sl_height_update (\<lambda>_. 0), sl_stride_bytes_update (\<lambda>_. 0),
     sl_format_update (\<lambda>_. kFormatUnknown), sl_source_clock_update (\<lambda>_. kClockUnknown),
     sl_source_timestamp_flags_update (\<lambda>_. 0), sl_source_timestamp_valid_update (\<lambda>_. 0)]"

definition payload_store :: "camera_frame \<Rightarrow> nat \<Rightarrow> store" where
  "payload_store f j = sl_payload_update (\<lambda>p. p[j := cf_data f ! j])"

definition header_stores :: "camera_frame \<Rightarrow> u64 \<Rightarrow> store list" where
  "header_stores f g = [sl_generation_update (\<lambda>_. g), sl_sequence_update (\<lambda>_. cf_sequence f),
     sl_timestamp_ms_update (\<lambda>_. cf_timestamp_ms f),
     sl_source_timestamp_ns_update (\<lambda>_. cf_source_timestamp_ns f),
     sl_received_at_ns_update (\<lambda>_. cf_received_at_ns f),
     sl_payload_size_update (\<lambda>_. of_nat (length (cf_data f))), sl_width_update (\<lambda>_. cf_width f),
     sl_height_update (\<lambda>_. cf_height f), sl_stride_bytes_update (\<lambda>_. cf_stride_bytes f),
     sl_format_update (\<lambda>_. cf_format f), sl_source_clock_update (\<lambda>_. cf_source_clock f),
     sl_source_timestamp_flags_update (\<lambda>_. cf_source_timestamp_flags f),
     sl_source_timestamp_valid_update (\<lambda>_. if cf_source_timestamp_valid f then 1 else 0)]"

definition slot_stores :: "camera_frame \<Rightarrow> u64 \<Rightarrow> store list" where
  "slot_stores f g = header_stores f g @ map (payload_store f) [0..<length (cf_data f)]"

text \<open>The frame a reader copies out of a slot.\<close>

definition slot_frame :: "shared_slot \<Rightarrow> camera_frame" where
  "slot_frame sl = \<lparr> cf_sequence = sl_sequence sl, cf_timestamp_ms = sl_timestamp_ms sl,
     cf_source_timestamp_ns = sl_source_timestamp_ns sl, cf_received_at_ns = sl_received_at_ns sl,
     cf_source_clock = sl_source_clock sl, cf_source_timestamp_flags = sl_source_timestamp_flags sl,
     cf_source_timestamp_valid = (sl_source_timestamp_valid sl \<noteq> 0), cf_width = sl_width sl,
     cf_height = sl_height sl, cf_stride_bytes = sl_stride_bytes sl, cf_format = sl_format sl,
     cf_data = take (unat (sl_payload_size sl)) (sl_payload sl) \<rparr>"

text \<open>
  Where the writer is in \<open>Publish\<close>, with the values of its local variables: before the lock, clearing a
  slot whose owner died, storing the frame, after the unlock, after the store of the active slot.
  \<open>P_Gone\<close> is a writer that crashed or closed.
\<close>

datatype publish_pc = P_Idle
  | P_Target camera_frame u32
  | P_Clearing camera_frame u32 "store list"
  | P_Writing camera_frame u32 u64 "store list"
  | P_Written u32 u64
  | P_Switched u64
  | P_Gone

text \<open>
  Where a reader is in \<open>ReadLatest\<close>. The ghost number counts the frames published when it loaded the
  generation.
\<close>

datatype read_result = Read_Error string | Read_Frame camera_frame u64

datatype read_pc = R_Idle
  | R_Available
  | R_Ready nat
  | R_Target u32 nat
  | R_Clearing u32 "store list"
  | R_Recovered u32
  | R_Holding u32 nat
  | R_Done read_result nat
  | R_Gone

record shared_frames =
  fm_initialized :: bool
  fm_active :: u32
  fm_generation :: u64
  fm_slots :: "u32 \<Rightarrow> shared_slot"
  fm_capacity :: u64
  fm_published :: u64
  fm_rejected :: u64
  fm_writer :: publish_pc
  fm_readers :: "nat \<Rightarrow> read_pc"
  fm_log :: "camera_frame list"
  fm_done :: nat

section \<open>The steps\<close>

definition on_slot :: "u32 \<Rightarrow> store \<Rightarrow> shared_frames \<Rightarrow> shared_frames" where
  "on_slot t h s = s\<lparr>fm_slots := (fm_slots s)(t := h (fm_slots s t))\<rparr>"

definition set_lock :: "u32 \<Rightarrow> robust_mutex \<Rightarrow> shared_frames \<Rightarrow> shared_frames" where
  "set_lock t l = on_slot t (sl_lock_update (\<lambda>_. l))"

definition set_reader :: "nat \<Rightarrow> read_pc \<Rightarrow> shared_frames \<Rightarrow> shared_frames" where
  "set_reader i pc s = s\<lparr>fm_readers := (fm_readers s)(i := pc)\<rparr>"

definition set_writer :: "publish_pc \<Rightarrow> shared_frames \<Rightarrow> shared_frames" where
  "set_writer pc s = s\<lparr>fm_writer := pc\<rparr>"

text \<open>\<open>pthread_mutex_lock\<close>: it waits while another process lives and holds the lock.\<close>

datatype lock_outcome = Locked | Recovering | Lock_Failed | Waits

definition lock_outcome :: "robust_mutex \<Rightarrow> bool \<Rightarrow> lock_outcome" where
  "lock_outcome l ok = (if \<not> ok then Lock_Failed else (case l of
     Unlocked \<Rightarrow> Locked | Owner_Died \<Rightarrow> Recovering | Not_Recoverable \<Rightarrow> Lock_Failed | Held a \<Rightarrow> Waits))"

definition writer_reject :: "shared_frames \<Rightarrow> shared_frames" where
  "writer_reject s = s\<lparr>fm_rejected := fm_rejected s + 1, fm_writer := P_Idle\<rparr>"

definition begin_write :: "camera_frame \<Rightarrow> u32 \<Rightarrow> shared_frames \<Rightarrow> shared_frames" where
  "begin_write f t s = (let next_generation = fm_generation s + 1 in
     set_writer (P_Writing f t next_generation (slot_stores f next_generation)) s)"

definition publish_begin :: "camera_frame \<Rightarrow> shared_frames \<Rightarrow> shared_frames" where
  "publish_begin f s =
     (if \<not> frame_valid f \<or> length (cf_data f) > unat (fm_capacity s) then writer_reject s
      else set_writer (P_Target f ((fm_active s + 1) mod ucast kSlotCount)) s)"

fun writer_step :: "bool \<Rightarrow> publish_pc \<Rightarrow> shared_frames \<Rightarrow> shared_frames" where
  "writer_step ok (P_Target f t) s = (case lock_outcome (sl_lock (fm_slots s t)) ok of
     Waits \<Rightarrow> s
   | Lock_Failed \<Rightarrow> writer_reject s
   | Locked \<Rightarrow> begin_write f t (set_lock t (Held Writer) s)
   | Recovering \<Rightarrow> set_writer (P_Clearing f t clear_stores) (set_lock t (Held Writer) s))"
| "writer_step ok (P_Clearing f t (p # ps)) s = set_writer (P_Clearing f t ps) (on_slot t p s)"
| "writer_step ok (P_Clearing f t []) s =
     (if ok then begin_write f t s else writer_reject (set_lock t Not_Recoverable s))"
| "writer_step ok (P_Writing f t g (p # ps)) s = set_writer (P_Writing f t g ps) (on_slot t p s)"
| "writer_step ok (P_Writing f t g []) s =
     set_writer (P_Written t g) ((set_lock t Unlocked s)\<lparr>fm_log := fm_log s @ [f]\<rparr>)"
| "writer_step ok (P_Written t g) s = set_writer (P_Switched g) (s\<lparr>fm_active := t\<rparr>)"
| "writer_step ok (P_Switched g) s = set_writer P_Idle
     (s\<lparr>fm_generation := g, fm_published := fm_published s + 1, fm_done := fm_done s + 1\<rparr>)"
| "writer_step ok P_Idle s = s"
| "writer_step ok P_Gone s = s"

definition read_begin :: "nat \<Rightarrow> bool \<Rightarrow> shared_frames \<Rightarrow> shared_frames" where
  "read_begin i has_output s =
     (if \<not> has_output then set_reader i (R_Done (Read_Error ''camera frame output must not be null'') 0) s
      else if \<not> fm_initialized s then
        set_reader i (R_Done (Read_Error ''shared frame writer is not available'') 0) s
      else set_reader i R_Available s)"

text \<open>The copy under the lock, the unlock and the checks of the copy.\<close>

definition read_slot :: "u64 \<Rightarrow> shared_slot \<Rightarrow> read_result" where
  "read_slot capacity sl =
     (if sl_payload_size sl > capacity then
        Read_Error ''shared camera frame payload exceeds slot capacity''
      else if \<not> frame_valid (slot_frame sl) then
        Read_Error ''shared camera frame layout or payload is invalid''
      else Read_Frame (slot_frame sl) (sl_generation sl))"

fun reader_step :: "nat \<Rightarrow> bool \<Rightarrow> read_pc \<Rightarrow> shared_frames \<Rightarrow> shared_frames" where
  "reader_step i ok R_Available s =
     (if fm_generation s = 0 then
        set_reader i (R_Done (Read_Error ''shared frame buffer has no frame'') 0) s
      else set_reader i (R_Ready (fm_done s)) s)"
| "reader_step i ok (R_Ready n) s = set_reader i (R_Target (fm_active s) n) s"
| "reader_step i ok (R_Target t n) s = (case lock_outcome (sl_lock (fm_slots s t)) ok of
     Waits \<Rightarrow> s
   | Lock_Failed \<Rightarrow> set_reader i (R_Done (Read_Error ''lock shared camera frame failed'') n) s
   | Locked \<Rightarrow> set_reader i (R_Holding t n) (set_lock t (Held (Reader i)) s)
   | Recovering \<Rightarrow> set_reader i (R_Clearing t clear_stores) (set_lock t (Held (Reader i)) s))"
| "reader_step i ok (R_Clearing t (p # ps)) s = set_reader i (R_Clearing t ps) (on_slot t p s)"
| "reader_step i ok (R_Clearing t []) s =
     (if ok then set_reader i (R_Recovered t) s
      else set_reader i (R_Done (Read_Error ''recover interrupted shared camera frame write failed'') 0)
        (set_lock t Not_Recoverable s))"
| "reader_step i ok (R_Recovered t) s =
     set_reader i (R_Done (Read_Error ''recovered interrupted shared camera frame write'') 0)
       (set_lock t Unlocked s)"
| "reader_step i ok (R_Holding t n) s =
     set_reader i (R_Done (read_slot (fm_capacity s) (fm_slots s t)) n) (set_lock t Unlocked s)"
| "reader_step i ok pc s = s"

text \<open>
  A process that dies leaves its locks to the next owner. A writer that closes, or finds a mapping a
  dead writer left, marks it unavailable.
\<close>

definition abandon :: "actor \<Rightarrow> shared_frames \<Rightarrow> shared_frames" where
  "abandon a s = s\<lparr>fm_slots := (\<lambda>t. if sl_lock (fm_slots s t) = Held a
     then (fm_slots s t)\<lparr>sl_lock := Owner_Died\<rparr> else fm_slots s t)\<rparr>"

datatype frames_event =
    Publish camera_frame
  | Writer_Moves bool
  | Writer_Crashes
  | Writer_Closes
  | Mapping_Invalidated
  | Read_Latest nat bool
  | Reader_Moves nat bool
  | Reader_Crashes nat

fun frames_step :: "shared_frames \<Rightarrow> frames_event \<Rightarrow> shared_frames" where
  "frames_step s (Publish f) = (case fm_writer s of P_Idle \<Rightarrow> publish_begin f s | _ \<Rightarrow> s)"
| "frames_step s (Writer_Moves ok) = writer_step ok (fm_writer s) s"
| "frames_step s Writer_Crashes = set_writer P_Gone (abandon Writer s)"
| "frames_step s Writer_Closes =
     (case fm_writer s of P_Idle \<Rightarrow> set_writer P_Gone (s\<lparr>fm_initialized := False\<rparr>) | _ \<Rightarrow> s)"
| "frames_step s Mapping_Invalidated =
     (case fm_writer s of P_Gone \<Rightarrow> s\<lparr>fm_initialized := False\<rparr> | _ \<Rightarrow> s)"
| "frames_step s (Read_Latest i has_output) =
     (case fm_readers s i of
        R_Idle \<Rightarrow> read_begin i has_output s
      | R_Done r n \<Rightarrow> read_begin i has_output s
      | _ \<Rightarrow> s)"
| "frames_step s (Reader_Moves i ok) = reader_step i ok (fm_readers s i) s"
| "frames_step s (Reader_Crashes i) = set_reader i R_Gone (abandon (Reader i) s)"

definition fresh_slot :: "u64 \<Rightarrow> shared_slot" where
  "fresh_slot capacity = \<lparr> sl_lock = Unlocked, sl_generation = 0, sl_sequence = 0, sl_timestamp_ms = 0,
     sl_source_timestamp_ns = 0, sl_received_at_ns = 0, sl_payload_size = 0, sl_width = 0,
     sl_height = 0, sl_stride_bytes = 0, sl_format = kFormatUnknown, sl_source_clock = kClockUnknown,
     sl_source_timestamp_flags = 0, sl_source_timestamp_valid = 0,
     sl_payload = replicate (unat capacity) 0 \<rparr>"

definition frames_start :: "u64 \<Rightarrow> shared_frames" where
  "frames_start capacity = \<lparr> fm_initialized = True, fm_active = 0, fm_generation = 0,
     fm_slots = (\<lambda>t. fresh_slot capacity), fm_capacity = capacity, fm_published = 0, fm_rejected = 0,
     fm_writer = P_Idle, fm_readers = (\<lambda>i. R_Idle), fm_log = [], fm_done = 0 \<rparr>"

definition frames_run :: "u64 \<Rightarrow> frames_event list \<Rightarrow> shared_frames" where
  "frames_run capacity evs = foldl frames_step (frames_start capacity) evs"

section \<open>Creating and opening a mapping\<close>

text \<open>
  The system calls on the shared-memory object (exchange/foundation/ipc/shared_memory_region.cc) are
  inputs: each is \<open>None\<close> when it succeeds and the error text otherwise. The checks the code makes
  before it calls are part of the model.
\<close>

definition valid_region_name :: "string \<Rightarrow> bool" where
  "valid_region_name name \<longleftrightarrow> length name > 1 \<and> hd name = CHR ''/'' \<and> CHR ''/'' \<notin> set (tl name)"

definition name_error :: string where
  "name_error = ''shared memory name must be a single POSIX name beginning with '' @
     [CHR 0x27, CHR ''/'', CHR 0x27]"

definition region_create :: "string \<Rightarrow> u64 \<Rightarrow> string option \<Rightarrow> string option" where
  "region_create name n call =
     (if \<not> valid_region_name name then Some name_error
      else if n = 0 then Some ''shared memory size must be positive''
      else call)"

definition region_open :: "string \<Rightarrow> string option \<Rightarrow> int \<Rightarrow> string option" where
  "region_open name call st_size =
     (if \<not> valid_region_name name then Some name_error
      else (case call of Some e \<Rightarrow> Some e
        | None \<Rightarrow> if st_size \<le> 0 then Some ''shared memory size must be positive'' else None))"

definition region_unlink :: "string \<Rightarrow> string option \<Rightarrow> string option" where
  "region_unlink name call = (if \<not> valid_region_name name then Some name_error else call)"

record writer_calls =
  wc_create :: "string option"
  wc_open_stale :: "string option"
  wc_stale_size :: int
  wc_stale_magic :: u32
  wc_lock_stale :: "string option"
  wc_unlink :: "string option"
  wc_create_again :: "string option"
  wc_lock :: "string option"
  wc_slots :: "string option list"

text \<open>
  The object a dead writer left: whether its header is marked unavailable, before it is unlinked.
\<close>

definition invalidates_stale :: "int \<Rightarrow> u32 \<Rightarrow> bool" where
  "invalidates_stale n magic \<longleftrightarrow> \<not> n < int (unat (align_up sizeof_shared_header)) \<and> magic = kSharedMagic"

definition recover_region :: "string \<Rightarrow> u64 \<Rightarrow> writer_calls \<Rightarrow> string \<Rightarrow> string option \<times> bool" where
  "recover_region name n c create_error =
     (case region_open name (wc_open_stale c) (wc_stale_size c) of
        Some e \<Rightarrow> (Some create_error, False)
      | None \<Rightarrow> (case wc_lock_stale c of
          Some e \<Rightarrow> (Some (''shared camera frame writer is already active: '' @ e), False)
        | None \<Rightarrow> let stale = invalidates_stale (wc_stale_size c) (wc_stale_magic c) in
            (case region_unlink name (wc_unlink c) of
               Some e \<Rightarrow> (Some e, stale)
             | None \<Rightarrow> (region_create name n (wc_create_again c), stale))))"

text \<open>The result is the error or the state of the new mapping, and whether an old one was invalidated.\<close>

definition writer_create :: "string \<Rightarrow> u64 \<Rightarrow> writer_calls \<Rightarrow> (string + shared_frames) \<times> bool" where
  "writer_create name max_frame_bytes c =
     (if max_frame_bytes = 0 then (Inl ''shared frame capacity must be positive'', False)
      else (case mapping_size max_frame_bytes of
          None \<Rightarrow> (Inl ''shared frame capacity is too large'', False)
        | Some n \<Rightarrow>
            (case (case region_create name n (wc_create c) of
                None \<Rightarrow> (None, False)
              | Some e \<Rightarrow> recover_region name n c e) of
               (Some e, stale) \<Rightarrow> (Inl e, stale)
             | (None, stale) \<Rightarrow> (case wc_lock c of
                 Some e \<Rightarrow> (Inl e, stale)
               | None \<Rightarrow> (case List.find (\<lambda>r. r \<noteq> None) (take (unat kSlotCount) (wc_slots c)) of
                   Some (Some e) \<Rightarrow> (Inl e, stale)
                 | _ \<Rightarrow> (Inr (frames_start max_frame_bytes), stale))))))"

record shared_header =
  sh_magic :: u32
  sh_version :: u32
  sh_mapping_size :: u64
  sh_slot_capacity :: u64
  sh_initialized :: u32

text \<open>\<open>SharedFrameReader::Open\<close>, on the header some process left and the size of the object.\<close>

definition validate_mapping :: "shared_header \<Rightarrow> u64 \<Rightarrow> string + u64" where
  "validate_mapping h n =
     (if n < align_up sizeof_shared_header then Inl ''shared frame mapping is too small''
      else if sh_initialized h \<noteq> 1 \<or> sh_magic h \<noteq> kSharedMagic \<or> sh_version h \<noteq> kSharedVersion then
        Inl ''shared frame mapping is not initialized or has an unsupported version''
      else if sh_mapping_size h \<noteq> n \<or> sh_slot_capacity h = 0 \<or>
          mapping_size (sh_slot_capacity h) \<noteq> Some n then
        Inl ''shared frame mapping layout is invalid''
      else Inr (sh_slot_capacity h))"

definition reader_open :: "string \<Rightarrow> string option \<Rightarrow> int \<Rightarrow> shared_header \<Rightarrow> string + u64" where
  "reader_open name call st_size h = (case region_open name call st_size of
     Some e \<Rightarrow> Inl e
   | None \<Rightarrow> validate_mapping h (word_of_int st_size))"

record frames_status =
  fs_published :: u64
  fs_rejected :: u64
  fs_generation :: u64

definition writer_status :: "shared_frames \<Rightarrow> frames_status" where
  "writer_status s = \<lparr> fs_published = fm_published s, fs_rejected = fm_rejected s,
     fs_generation = fm_generation s \<rparr>"

section \<open>Properties\<close>

text \<open>
  C32: a mapping that is opened is laid out so that no access leaves it. Whatever header a process
  finds, if \<open>SharedFrameReader::Open\<close> accepts it with capacity \<open>c\<close>, then the headers and the payload
  areas of both slots lie behind the mapping's header, do not overlap and end inside the object, with
  no 64 bit offset wrapping.
\<close>

theorem opened_mapping_holds_slots:
  assumes "reader_open name call st_size h = Inr c" "st_size < 2 ^ 63"
  shows "unat (align_up sizeof_shared_header) \<le> unat (slot_offset c 0) \<and>
    unat (slot_offset c 0) + unat sizeof_shared_slot = unat (payload_offset c 0) \<and>
    unat (payload_offset c 0) + unat c \<le> unat (slot_offset c 1) \<and>
    unat (slot_offset c 1) + unat sizeof_shared_slot = unat (payload_offset c 1) \<and>
    unat (payload_offset c 1) + unat c \<le> nat st_size"
proof -
  have o: "mapping_size c = Some (word_of_int st_size)" "0 < st_size"
    using assms(1) by (auto simp: reader_open_def validate_mapping_def region_open_def
        split: if_splits option.splits)
  note fit = slots_fit [OF o(1)]
  have "unat (payload_offset c 0) = 192" "unat (slot_offset c 0) = 64"
    by (simp_all add: payload_offset_def slot_offset_def align_up_consts)
  moreover have "unat (word_of_int st_size :: u64) = nat st_size"
    using o(2) assms(2) by (simp add: unat_eq_nat_uint uint_word_of_int)
  ultimately show ?thesis
    using fit by (simp add: align_up_consts) (simp add: sizeof_shared_slot_def)
qed

theorem opened_mapping_holds_slots_witness:
  "unat (payload_offset 100 0) + 100 \<le> unat (slot_offset 100 1) \<and>
   unat (payload_offset 100 1) + 100 \<le> 576"
proof -
  have "reader_open ''/frames'' None 576 \<lparr> sh_magic = 0x43414D46, sh_version = 3,
      sh_mapping_size = 576, sh_slot_capacity = 100, sh_initialized = 1 \<rparr> = Inr 100"
    by code_simp
  from opened_mapping_holds_slots [OF this] show ?thesis
    by simp
qed

end
