(* ===== verification/Frames_Safety.thy ===== *)
theory Frames_Safety
  imports Shared_Frames
begin

text \<open>
  Why a frame read from the shared buffer is a frame that was published, under every interleaving of
  the writer and the readers and every crash: the invariant \<open>frames_inv\<close> of Shared_Frames says what
  each slot holds, by the state of its lock and the place its holder is at, and every step keeps it.
\<close>

section \<open>What the stores leave in a slot\<close>

abbreviation run_stores :: "store list \<Rightarrow> shared_slot \<Rightarrow> shared_slot" where
  "run_stores ps sl \<equiv> fold (\<lambda>p. p) ps sl"

text \<open>A slot that holds a frame under a generation, and a slot that holds none.\<close>

definition slot_is :: "camera_frame \<Rightarrow> u64 \<Rightarrow> shared_slot \<Rightarrow> bool" where
  "slot_is f g sl \<longleftrightarrow> slot_frame sl = f \<and> sl_generation sl = g"

definition slot_cleared :: "shared_slot \<Rightarrow> bool" where
  "slot_cleared sl \<longleftrightarrow> sl_width sl = 0"

lemma cleared_by_stores: "slot_cleared (run_stores clear_stores sl)"
  by (simp add: slot_cleared_def clear_stores_def)

lemma cleared_invalid: "slot_cleared sl \<Longrightarrow> \<not> frame_valid (slot_frame sl)"
  by (simp add: slot_cleared_def frame_valid_def has_valid_payload_size_def has_valid_layout_def
      slot_frame_def)

lemma payload_stores:
  "run_stores (map (payload_store f) [0..<n]) sl =
     sl\<lparr>sl_payload := fold (\<lambda>j p. p[j := cf_data f ! j]) [0..<n] (sl_payload sl)\<rparr>"
  by (induction n) (simp_all add: payload_store_def)

lemma copy_bytes:
  "n \<le> length xs \<Longrightarrow> n \<le> length p \<Longrightarrow>
   take n (fold (\<lambda>j p. p[j := xs ! j]) [0..<n] p) = take n xs \<and>
   length (fold (\<lambda>j p. p[j := xs ! j]) [0..<n] p) = length p"
  by (induction n) (auto simp: take_Suc_conv_app_nth take_update_cancel)

lemma written_by_stores:
  assumes "length (cf_data f) \<le> length (sl_payload sl)" "length (cf_data f) < 2 ^ 64"
  shows "slot_is f g (run_stores (slot_stores f g) sl)"
proof -
  let ?sl = "run_stores (header_stores f g) sl"
  have p: "sl_payload ?sl = sl_payload sl"
    by (simp add: header_stores_def)
  have n: "unat (of_nat (length (cf_data f)) :: u64) = length (cf_data f)"
    unfolding unat_of_nat using assms(2) by simp
  have "take (length (cf_data f))
      (fold (\<lambda>j p. p[j := cf_data f ! j]) [0..<length (cf_data f)] (sl_payload sl)) = cf_data f"
    using copy_bytes [of "length (cf_data f)" "cf_data f" "sl_payload sl"] assms(1) by simp
  then show ?thesis
    by (simp add: slot_stores_def payload_stores p slot_is_def slot_frame_def)
      (simp add: header_stores_def n)
qed

text \<open>The stores under the lock leave the lock and the size of the payload area alone.\<close>

definition plain_store :: "store \<Rightarrow> bool" where
  "plain_store p \<longleftrightarrow> (\<forall>sl. sl_lock (p sl) = sl_lock sl \<and>
     length (sl_payload (p sl)) = length (sl_payload sl))"

lemma plain_clear: "list_all plain_store clear_stores"
  by (simp add: clear_stores_def plain_store_def)

lemma plain_slot_stores: "list_all plain_store (slot_stores f g)"
  by (simp add: slot_stores_def header_stores_def plain_store_def payload_store_def list_all_iff)

section \<open>The invariant\<close>

text \<open>A slot that is empty, or holds the frame of a finished write numbered \<open>n\<close> or later.\<close>

definition slot_good :: "nat \<Rightarrow> camera_frame list \<Rightarrow> shared_slot \<Rightarrow> bool" where
  "slot_good n log sl \<longleftrightarrow> slot_cleared sl \<or>
     (\<exists>k < length log. n \<le> k + 1 \<and> slot_is (log ! k) (of_nat (k + 1)) sl)"

text \<open>What a slot holds, by the state of its lock and the place its holder is at.\<close>

fun writer_holds :: "u32 \<Rightarrow> shared_slot \<Rightarrow> publish_pc \<Rightarrow> bool" where
  "writer_holds t sl (P_Clearing f t' ps) \<longleftrightarrow> t' = t \<and> list_all plain_store ps"
| "writer_holds t sl (P_Writing f t' g ps) \<longleftrightarrow>
     t' = t \<and> list_all plain_store ps \<and> slot_is f g (run_stores ps sl)"
| "writer_holds t sl pc \<longleftrightarrow> False"

fun reader_holds :: "nat \<Rightarrow> camera_frame list \<Rightarrow> u32 \<Rightarrow> shared_slot \<Rightarrow> read_pc \<Rightarrow> bool" where
  "reader_holds n log t sl (R_Clearing t' ps) \<longleftrightarrow>
     t' = t \<and> list_all plain_store ps \<and> slot_cleared (run_stores ps sl)"
| "reader_holds n log t sl (R_Recovered t') \<longleftrightarrow> t' = t \<and> slot_cleared sl"
| "reader_holds n log t sl (R_Holding t' m) \<longleftrightarrow> t' = t \<and> slot_good n log sl"
| "reader_holds n log t sl pc \<longleftrightarrow> False"

definition slot_ok :: "nat \<Rightarrow> shared_frames \<Rightarrow> u32 \<Rightarrow> bool" where
  "slot_ok n s t = (let sl = fm_slots s t in case sl_lock sl of
     Unlocked \<Rightarrow> slot_good n (fm_log s) sl
   | Held Writer \<Rightarrow> writer_holds t sl (fm_writer s)
   | Held (Reader i) \<Rightarrow> reader_holds n (fm_log s) t sl (fm_readers s i)
   | Owner_Died \<Rightarrow> True
   | Not_Recoverable \<Rightarrow> True)"

fun writer_ok :: "shared_frames \<Rightarrow> publish_pc \<Rightarrow> bool" where
  "writer_ok s P_Idle \<longleftrightarrow> length (fm_log s) = fm_done s"
| "writer_ok s (P_Target f t) \<longleftrightarrow> length (fm_log s) = fm_done s \<and>
     length (cf_data f) \<le> unat (fm_capacity s) \<and> t \<noteq> fm_active s"
| "writer_ok s (P_Clearing f t ps) \<longleftrightarrow> length (fm_log s) = fm_done s \<and>
     length (cf_data f) \<le> unat (fm_capacity s) \<and> t \<noteq> fm_active s \<and> sl_lock (fm_slots s t) = Held Writer"
| "writer_ok s (P_Writing f t g ps) \<longleftrightarrow> length (fm_log s) = fm_done s \<and> g = of_nat (fm_done s + 1) \<and>
     t \<noteq> fm_active s \<and> sl_lock (fm_slots s t) = Held Writer"
| "writer_ok s (P_Written t g) \<longleftrightarrow> length (fm_log s) = fm_done s + 1 \<and> g = of_nat (fm_done s + 1) \<and>
     slot_ok (fm_done s + 1) s t"
| "writer_ok s (P_Switched g) \<longleftrightarrow> length (fm_log s) = fm_done s + 1 \<and> g = of_nat (fm_done s + 1) \<and>
     slot_ok (fm_done s + 1) s (fm_active s)"
| "writer_ok s P_Gone \<longleftrightarrow> fm_done s \<le> length (fm_log s)"

fun reader_ok :: "shared_frames \<Rightarrow> nat \<Rightarrow> read_pc \<Rightarrow> bool" where
  "reader_ok s i (R_Ready n) \<longleftrightarrow> n \<le> fm_done s"
| "reader_ok s i (R_Target t n) \<longleftrightarrow> slot_ok n s t \<and> n \<le> fm_done s"
| "reader_ok s i (R_Holding t n) \<longleftrightarrow> slot_ok n s t \<and> n \<le> fm_done s \<and>
     sl_lock (fm_slots s t) = Held (Reader i)"
| "reader_ok s i (R_Clearing t ps) \<longleftrightarrow> sl_lock (fm_slots s t) = Held (Reader i)"
| "reader_ok s i (R_Recovered t) \<longleftrightarrow> sl_lock (fm_slots s t) = Held (Reader i)"
| "reader_ok s i (R_Done (Read_Frame f g) n) \<longleftrightarrow>
     (\<exists>k < length (fm_log s). n \<le> k + 1 \<and> g = of_nat (k + 1) \<and> f = fm_log s ! k \<and> frame_valid f)"
| "reader_ok s i pc \<longleftrightarrow> True"

definition frames_inv :: "shared_frames \<Rightarrow> bool" where
  "frames_inv s \<longleftrightarrow> fm_generation s = of_nat (fm_done s) \<and>
     (\<forall>t. length (sl_payload (fm_slots s t)) = unat (fm_capacity s)) \<and>
     (\<forall>t. slot_ok 0 s t) \<and> slot_ok (fm_done s) s (fm_active s) \<and>
     writer_ok s (fm_writer s) \<and> (\<forall>i. reader_ok s i (fm_readers s i))"

lemma slot_good_mono: "slot_good n log sl \<Longrightarrow> m \<le> n \<Longrightarrow> slot_good m log sl"
  by (auto simp: slot_good_def)

lemma slot_good_log: "slot_good n log sl \<Longrightarrow> slot_good n (log @ fs) sl"
  by (auto simp: slot_good_def nth_append intro: exI)

lemma frames_inv_start: "frames_inv (frames_start capacity)"
  by (simp add: frames_inv_def frames_start_def slot_ok_def fresh_slot_def slot_good_def
      slot_cleared_def)

section \<open>Every step keeps the invariant\<close>

lemma slot_ok_mono: "slot_ok n s t \<Longrightarrow> m \<le> n \<Longrightarrow> slot_ok m s t"
proof -
  have r: "reader_holds n log t sl pc \<Longrightarrow> m \<le> n \<Longrightarrow> reader_holds m log t sl pc" for log sl pc
    by (cases pc) (auto intro: slot_good_mono)
  show "slot_ok n s t \<Longrightarrow> m \<le> n \<Longrightarrow> slot_ok m s t"
    by (auto simp: slot_ok_def Let_def split: robust_mutex.splits actor.splits
        intro: slot_good_mono r)
qed

lemma holding_good:
  assumes "slot_ok n s t" "sl_lock (fm_slots s t) = Held (Reader i)" "fm_readers s i = R_Holding t m"
  shows "slot_good n (fm_log s) (fm_slots s t)"
  using assms by (simp add: slot_ok_def Let_def)

text \<open>A step that leaves the slots and the log alone, and moves a process that holds no lock.\<close>

lemma writer_free_slot_ok:
  assumes "\<And>t sl. \<not> writer_holds t sl (fm_writer s)"
  shows "slot_ok n s t \<Longrightarrow> slot_ok n (set_writer pc s) t"
  using assms by (auto simp: slot_ok_def Let_def set_writer_def split: robust_mutex.splits actor.splits)

lemma reader_free_slot_ok:
  assumes "\<And>n log t sl. \<not> reader_holds n log t sl (fm_readers s i)"
  shows "slot_ok n s t \<Longrightarrow> slot_ok n (set_reader i pc s) t"
  using assms by (auto simp: slot_ok_def Let_def set_reader_def split: robust_mutex.splits actor.splits)

lemma frames_simps [simp]:
  "fm_active (set_reader i pc s) = fm_active s" "fm_generation (set_reader i pc s) = fm_generation s"
  "fm_slots (set_reader i pc s) = fm_slots s" "fm_capacity (set_reader i pc s) = fm_capacity s"
  "fm_writer (set_reader i pc s) = fm_writer s" "fm_log (set_reader i pc s) = fm_log s"
  "fm_done (set_reader i pc s) = fm_done s"
  "fm_readers (set_reader i pc s) = (fm_readers s)(i := pc)"
  "fm_active (set_writer wpc s) = fm_active s" "fm_generation (set_writer wpc s) = fm_generation s"
  "fm_slots (set_writer wpc s) = fm_slots s" "fm_capacity (set_writer wpc s) = fm_capacity s"
  "fm_writer (set_writer wpc s) = wpc" "fm_log (set_writer wpc s) = fm_log s"
  "fm_done (set_writer wpc s) = fm_done s" "fm_readers (set_writer wpc s) = fm_readers s"
  "fm_active (on_slot t h s) = fm_active s" "fm_generation (on_slot t h s) = fm_generation s"
  "fm_slots (on_slot t h s) = (fm_slots s)(t := h (fm_slots s t))"
  "fm_capacity (on_slot t h s) = fm_capacity s"
  "fm_writer (on_slot t h s) = fm_writer s" "fm_log (on_slot t h s) = fm_log s"
  "fm_done (on_slot t h s) = fm_done s" "fm_readers (on_slot t h s) = fm_readers s"
  by (simp_all add: set_reader_def set_writer_def on_slot_def)

text \<open>The parts of the invariant depend on the parts of the state they name.\<close>

lemma writer_ok_cong:
  assumes "fm_log s' = fm_log s" "fm_done s' = fm_done s" "fm_capacity s' = fm_capacity s"
    "fm_active s' = fm_active s" "\<And>n t. slot_ok n s t \<Longrightarrow> slot_ok n s' t"
    "\<And>t. sl_lock (fm_slots s t) = Held Writer \<Longrightarrow> sl_lock (fm_slots s' t) = Held Writer"
  shows "writer_ok s pc \<Longrightarrow> writer_ok s' pc"
  by (cases pc) (use assms in auto)

lemma reader_ok_cong:
  assumes "fm_log s' = fm_log s @ fs" "fm_done s \<le> fm_done s'"
    "\<And>n t. n \<le> fm_done s \<Longrightarrow> slot_ok n s t \<Longrightarrow> slot_ok n s' t"
    "\<And>t. sl_lock (fm_slots s t) = Held (Reader i) \<Longrightarrow> sl_lock (fm_slots s' t) = Held (Reader i)"
  shows "reader_ok s i pc \<Longrightarrow> reader_ok s' i pc"
proof (cases pc)
  case (R_Done r n)
  then show "reader_ok s i pc \<Longrightarrow> reader_ok s' i pc"
    by (cases r) (auto simp: assms(1) nth_append intro: exI)
qed (use assms in \<open>auto intro: le_trans\<close>)

text \<open>A process holds at most the lock of the slot it is working on.\<close>

definition reader_slot :: "read_pc \<Rightarrow> u32 option" where
  "reader_slot pc = (case pc of R_Clearing t ps \<Rightarrow> Some t | R_Recovered t \<Rightarrow> Some t
     | R_Holding t n \<Rightarrow> Some t | _ \<Rightarrow> None)"

definition writer_slot :: "publish_pc \<Rightarrow> u32 option" where
  "writer_slot pc = (case pc of P_Clearing f t ps \<Rightarrow> Some t | P_Writing f t g ps \<Rightarrow> Some t | _ \<Rightarrow> None)"

lemma reader_holds_slot: "reader_holds n log t sl pc \<Longrightarrow> reader_slot pc = Some t"
  by (cases pc) (auto simp: reader_slot_def)

lemma writer_holds_slot: "writer_holds t sl pc \<Longrightarrow> writer_slot pc = Some t"
  by (cases pc) (auto simp: writer_slot_def)

lemma reader_lock:
  assumes "frames_inv s" "sl_lock (fm_slots s t) = Held (Reader i)"
  shows "reader_slot (fm_readers s i) = Some t"
proof -
  have "slot_ok 0 s t" using assms(1) by (simp add: frames_inv_def)
  with assms(2) have "reader_holds 0 (fm_log s) t (fm_slots s t) (fm_readers s i)"
    by (simp add: slot_ok_def)
  then show ?thesis by (rule reader_holds_slot)
qed

lemma writer_lock:
  assumes "frames_inv s" "sl_lock (fm_slots s t) = Held Writer"
  shows "writer_slot (fm_writer s) = Some t"
proof -
  have "slot_ok 0 s t" using assms(1) by (simp add: frames_inv_def)
  with assms(2) have "writer_holds t (fm_slots s t) (fm_writer s)"
    by (simp add: slot_ok_def)
  then show ?thesis by (rule writer_holds_slot)
qed

lemma reader_move:
  assumes inv: "frames_inv s"
    and at_slot: "reader_slot (fm_readers s i) \<in> {None, Some t}"
    and free: "\<And>a. sl_lock (fm_slots s t) = Held a \<Longrightarrow> a = Reader i"
    and here: "\<And>n. slot_ok n s t \<Longrightarrow> slot_ok n (set_reader i pc (on_slot t h s)) t"
    and bytes: "length (sl_payload (h (fm_slots s t))) = length (sl_payload (fm_slots s t))"
    and own: "reader_ok (set_reader i pc (on_slot t h s)) i pc"
  shows "frames_inv (set_reader i pc (on_slot t h s))"
proof -
  let ?s = "set_reader i pc (on_slot t h s)"
  have only: "sl_lock (fm_slots s t') \<noteq> Held (Reader i)" if "t' \<noteq> t" for t'
    using reader_lock [OF inv] at_slot that by auto
  have ok: "slot_ok n ?s t'" if "slot_ok n s t'" for n t'
  proof (cases "t' = t")
    case False
    with that only [of t'] show ?thesis
      by (auto simp: slot_ok_def Let_def split: robust_mutex.splits actor.splits)
  qed (use here that in simp)
  have writer: "writer_ok ?s (fm_writer s)"
    using inv ok free [of Writer]
    by (cases "fm_writer s") (auto simp: frames_inv_def slot_ok_mono split: if_splits)
  have readers: "reader_ok ?s j (fm_readers s j)" if "j \<noteq> i" for j
    by (rule reader_ok_cong [where s = s and fs = "[]"])
      (use ok free inv that in \<open>auto simp: frames_inv_def\<close>)
  show ?thesis
    using inv ok bytes writer readers own by (auto simp: frames_inv_def)
qed

text \<open>The same without a slot: a step that only moves a reader that holds no lock.\<close>

lemma reader_goes:
  assumes inv: "frames_inv s" and free: "reader_slot (fm_readers s i) = None"
    and own: "reader_ok (set_reader i pc s) i pc"
  shows "frames_inv (set_reader i pc s)"
proof -
  have ok: "slot_ok n (set_reader i pc s) t" if "slot_ok n s t" for n t
    using that by (rule reader_free_slot_ok [rotated]) (use free in \<open>auto dest: reader_holds_slot\<close>)
  have "writer_ok (set_reader i pc s) (fm_writer s)"
    by (rule writer_ok_cong [where s = s]) (use ok inv in \<open>auto simp: frames_inv_def\<close>)
  moreover have "reader_ok (set_reader i pc s) j (fm_readers s j)" for j
    by (rule reader_ok_cong [where s = s and fs = "[]"])
      (use ok inv in \<open>auto simp: frames_inv_def\<close>)
  ultimately show ?thesis
    using inv ok own by (auto simp: frames_inv_def)
qed

lemma read_begin_inv:
  assumes "frames_inv s" "reader_slot (fm_readers s i) = None"
  shows "frames_inv (read_begin i has_output s)"
  using assms by (auto simp: read_begin_def intro!: reader_goes)

section \<open>The steps of a reader\<close>

lemma set_lock_move:
  "set_lock t l s = on_slot t (sl_lock_update (\<lambda>_. l)) s"
  by (simp add: set_lock_def)

lemma lock_kept [simp]:
  "slot_cleared (sl_lock_update h sl) = slot_cleared sl"
  "slot_frame (sl_lock_update h sl) = slot_frame sl"
  "slot_is f g (sl_lock_update h sl) = slot_is f g sl"
  "slot_good n log (sl_lock_update h sl) = slot_good n log sl"
  by (simp_all add: slot_cleared_def slot_frame_def slot_is_def slot_good_def)

lemma slot_ok_locked:
  "sl_lock (fm_slots s t) = Unlocked \<Longrightarrow> slot_ok n s t = slot_good n (fm_log s) (fm_slots s t)"
  "sl_lock (fm_slots s t) = Held Writer \<Longrightarrow> slot_ok n s t = writer_holds t (fm_slots s t) (fm_writer s)"
  "sl_lock (fm_slots s t) = Held (Reader i) \<Longrightarrow>
     slot_ok n s t = reader_holds n (fm_log s) t (fm_slots s t) (fm_readers s i)"
  "sl_lock (fm_slots s t) = Owner_Died \<Longrightarrow> slot_ok n s t"
  "sl_lock (fm_slots s t) = Not_Recoverable \<Longrightarrow> slot_ok n s t"
  by (simp_all add: slot_ok_def)

text \<open>A slot that was good from \<open>n\<close> on and is copied out is one of the finished frames.\<close>

lemma read_slot_good:
  assumes "slot_good n log sl" "read_slot c sl = Read_Frame f g"
  shows "\<exists>k < length log. n \<le> k + 1 \<and> g = of_nat (k + 1) \<and> f = log ! k \<and> frame_valid f"
proof -
  have r: "f = slot_frame sl" "g = sl_generation sl" "frame_valid (slot_frame sl)"
    using assms(2) by (auto simp: read_slot_def split: if_splits)
  then have "\<not> slot_cleared sl" using cleared_invalid by blast
  with assms(1) obtain k where "k < length log" "n \<le> k + 1" "slot_is (log ! k) (of_nat (k + 1)) sl"
    by (auto simp: slot_good_def)
  with r show ?thesis by (auto simp: slot_is_def)
qed

lemma reader_locks:
  assumes inv: "frames_inv s" and pc: "fm_readers s i = R_Target t n"
    and l: "sl_lock (fm_slots s t) = Unlocked"
  shows "frames_inv (set_reader i (R_Holding t n) (set_lock t (Held (Reader i)) s))"
proof -
  have "reader_ok s i (R_Target t n)" using inv pc by (metis frames_inv_def)
  then have g: "slot_good n (fm_log s) (fm_slots s t)" "n \<le> fm_done s"
    by (simp_all add: slot_ok_locked(1) [OF l])
  show ?thesis
    unfolding set_lock_move
    by (rule reader_move) (use inv pc l g in \<open>auto simp: reader_slot_def slot_ok_locked\<close>)
qed

lemma reader_recovers:
  assumes inv: "frames_inv s" and pc: "fm_readers s i = R_Target t n"
    and l: "sl_lock (fm_slots s t) = Owner_Died"
  shows "frames_inv (set_reader i (R_Clearing t clear_stores) (set_lock t (Held (Reader i)) s))"
  unfolding set_lock_move
  by (rule reader_move)
    (use inv pc l in \<open>auto simp: reader_slot_def slot_ok_locked plain_clear cleared_by_stores\<close>)

lemma reader_holding_lock:
  assumes "frames_inv s" "reader_slot (fm_readers s i) = Some t"
  shows "sl_lock (fm_slots s t) = Held (Reader i)"
proof -
  have "reader_ok s i (fm_readers s i)" using assms(1) by (simp add: frames_inv_def)
  with assms(2) show ?thesis by (cases "fm_readers s i") (auto simp: reader_slot_def)
qed

lemma reader_slot_holds:
  assumes "frames_inv s" "reader_slot (fm_readers s i) = Some t"
  shows "reader_holds 0 (fm_log s) t (fm_slots s t) (fm_readers s i)"
proof -
  have "slot_ok 0 s t" using assms(1) by (simp add: frames_inv_def)
  then show ?thesis by (simp add: slot_ok_locked(3) [OF reader_holding_lock [OF assms]])
qed

lemma reader_clears:
  assumes inv: "frames_inv s" and pc: "fm_readers s i = R_Clearing t (p # ps)"
  shows "frames_inv (set_reader i (R_Clearing t ps) (on_slot t p s))"
proof -
  have rs: "reader_slot (fm_readers s i) = Some t" by (simp add: pc reader_slot_def)
  note l = reader_holding_lock [OF inv rs]
  have h: "plain_store p" "list_all plain_store ps" "slot_cleared (run_stores ps (p (fm_slots s t)))"
    using reader_slot_holds [OF inv rs] by (simp_all add: pc)
  have k: "sl_lock (p (fm_slots s t)) = Held (Reader i)"
    "length (sl_payload (p (fm_slots s t))) = length (sl_payload (fm_slots s t))"
    using h(1) l by (simp_all add: plain_store_def)
  show ?thesis
    by (rule reader_move) (use inv rs l h k in \<open>auto simp: slot_ok_locked(3)\<close>)
qed

lemma reader_unlocks:
  assumes inv: "frames_inv s" and rs: "reader_slot (fm_readers s i) = Some t"
    and l': "l = Not_Recoverable \<or> l = Unlocked \<and>
      (fm_readers s i = R_Recovered t \<or> (\<exists>n. fm_readers s i = R_Holding t n))"
    and own: "reader_ok (set_reader i pc (set_lock t l s)) i pc"
  shows "frames_inv (set_reader i pc (set_lock t l s))"
proof -
  note l = reader_holding_lock [OF inv rs]
  have u: "slot_good n (fm_log s) (fm_slots s t)" if "slot_ok n s t" "l = Unlocked" for n
    using l' that by (auto simp: slot_ok_locked(3) [OF l] slot_good_def)
  show ?thesis
    unfolding set_lock_move
    by (rule reader_move)
      (use inv rs l l' u own in \<open>auto simp: slot_ok_locked(1,5) set_lock_move\<close>)
qed

lemma reader_step_inv:
  assumes inv: "frames_inv s"
  shows "frames_inv (reader_step i ok (fm_readers s i) s)"
proof -
  have own: "reader_ok s i (fm_readers s i)" using inv by (simp add: frames_inv_def)
  show ?thesis
  proof (cases "fm_readers s i")
    case R_Available
    then show ?thesis
      by (auto intro!: reader_goes inv simp: reader_slot_def)
  next
    case (R_Ready n)
    then have "n \<le> fm_done s" using own by simp
    moreover have "slot_ok (fm_done s) s (fm_active s)" using inv by (simp add: frames_inv_def)
    ultimately have "slot_ok n s (fm_active s)" using slot_ok_mono by blast
    then have "slot_ok n (set_reader i (R_Target (fm_active s) n) s) (fm_active s)"
      by (rule reader_free_slot_ok [rotated]) (simp add: R_Ready)
    with \<open>n \<le> fm_done s\<close> show ?thesis
      by (simp add: R_Ready) (rule reader_goes, auto simp: inv R_Ready reader_slot_def)
  next
    case (R_Target t n)
    consider (run) "lock_outcome (sl_lock (fm_slots s t)) ok = Waits"
      | (fails) "lock_outcome (sl_lock (fm_slots s t)) ok = Lock_Failed"
      | (locks) "lock_outcome (sl_lock (fm_slots s t)) ok = Locked"
      | (recovers) "lock_outcome (sl_lock (fm_slots s t)) ok = Recovering"
      using lock_outcome.exhaust by blast
    then show ?thesis
    proof cases
      case locks
      then have "sl_lock (fm_slots s t) = Unlocked"
        by (auto simp: lock_outcome_def split: if_splits robust_mutex.splits)
      with reader_locks [OF inv R_Target] locks R_Target show ?thesis by simp
    next
      case recovers
      then have "sl_lock (fm_slots s t) = Owner_Died"
        by (auto simp: lock_outcome_def split: if_splits robust_mutex.splits)
      with reader_recovers [OF inv R_Target] recovers R_Target show ?thesis by simp
    next
      case fails
      with R_Target show ?thesis by (auto intro!: reader_goes inv simp: reader_slot_def)
    qed (simp add: R_Target inv)
  next
    case (R_Clearing t ps)
    then have rs: "reader_slot (fm_readers s i) = Some t" by (simp add: reader_slot_def)
    show ?thesis
    proof (cases ps)
      case Nil
      have holds: "slot_cleared (fm_slots s t)"
        using reader_slot_holds [OF inv rs] by (simp add: R_Clearing Nil)
      note l = reader_holding_lock [OF inv rs]
      have "frames_inv (set_reader i (R_Recovered t) (on_slot t (\<lambda>sl. sl) s))"
        by (rule reader_move) (use inv rs l holds in \<open>auto simp: slot_ok_locked(3)\<close>)
      moreover have "on_slot t (\<lambda>sl. sl) s = s" by (simp add: on_slot_def)
      ultimately show ?thesis
        using reader_unlocks [OF inv rs, of Not_Recoverable
            "R_Done (Read_Error ''recover interrupted shared camera frame write failed'') 0"]
        by (simp add: R_Clearing Nil)
    qed (use reader_clears [OF inv] R_Clearing in simp)
  next
    case (R_Recovered t)
    with reader_unlocks [OF inv, of i t Unlocked
        "R_Done (Read_Error ''recovered interrupted shared camera frame write'') 0"]
    show ?thesis by (simp add: reader_slot_def)
  next
    case (R_Holding t n)
    then have rs: "reader_slot (fm_readers s i) = Some t" by (simp add: reader_slot_def)
    have "slot_good n (fm_log s) (fm_slots s t)"
      using own R_Holding slot_ok_locked(3) [OF reader_holding_lock [OF inv rs], of n] by simp
    note frame = read_slot_good [OF this]
    have "reader_ok s' i (R_Done (read_slot (fm_capacity s) (fm_slots s t)) n)"
      if "fm_log s' = fm_log s" for s'
      using frame that by (cases "read_slot (fm_capacity s) (fm_slots s t)") auto
    with reader_unlocks [OF inv rs, of Unlocked "R_Done (read_slot (fm_capacity s) (fm_slots s t)) n"]
      R_Holding show ?thesis by (simp add: set_lock_move)
  qed (simp_all add: inv)
qed

section \<open>The steps of the writer\<close>

text \<open>
  A step of the writer that changes the slot it works on, or finishes a write, which appends to the
  log; and a step that changes no slot.
\<close>

lemma reader_holds_log: "reader_holds n log t sl pc \<Longrightarrow> reader_holds n (log @ fs) t sl pc"
  by (cases pc) (auto intro: slot_good_log)

lemma writer_move:
  assumes inv: "frames_inv s" and s': "s' = set_writer pc ((on_slot t h s)\<lparr>fm_log := fm_log s @ fs\<rparr>)"
    and at_slot: "writer_slot (fm_writer s) \<in> {None, Some t}"
    and free: "\<And>a. sl_lock (fm_slots s t) = Held a \<Longrightarrow> a = Writer"
    and here: "\<And>n. n \<le> fm_done s \<Longrightarrow> slot_ok n s t \<Longrightarrow> slot_ok n s' t"
    and bytes: "length (sl_payload (h (fm_slots s t))) = length (sl_payload (fm_slots s t))"
    and own: "writer_ok s' pc"
  shows "frames_inv s'"
proof -
  have parts: "fm_slots s' = (fm_slots s)(t := h (fm_slots s t))" "fm_log s' = fm_log s @ fs"
    "fm_done s' = fm_done s" "fm_active s' = fm_active s" "fm_generation s' = fm_generation s"
    "fm_capacity s' = fm_capacity s" "fm_readers s' = fm_readers s" "fm_writer s' = pc"
    by (simp_all add: s' set_writer_def on_slot_def)
  have only: "sl_lock (fm_slots s t') \<noteq> Held Writer" if "t' \<noteq> t" for t'
    using writer_lock [OF inv] at_slot that by auto
  have ok: "slot_ok n s' t'" if "n \<le> fm_done s" "slot_ok n s t'" for n t'
  proof (cases "t' = t")
    case False
    with that only [of t'] show ?thesis
      by (auto simp: slot_ok_def Let_def parts split: robust_mutex.splits actor.splits
          intro: slot_good_log reader_holds_log)
  qed (use here that in simp)
  have readers: "reader_ok s' i (fm_readers s i)" for i
    by (rule reader_ok_cong [where s = s and fs = fs])
      (use ok free inv parts in \<open>auto simp: frames_inv_def\<close>)
  show ?thesis
    using inv ok bytes readers own by (auto simp: frames_inv_def parts)
qed

lemma writer_change:
  assumes "frames_inv s" "writer_slot (fm_writer s) \<in> {None, Some t}"
    and "\<And>a. sl_lock (fm_slots s t) = Held a \<Longrightarrow> a = Writer"
    and "\<And>n. n \<le> fm_done s \<Longrightarrow> slot_ok n s t \<Longrightarrow> slot_ok n (set_writer pc (on_slot t h s)) t"
    and "length (sl_payload (h (fm_slots s t))) = length (sl_payload (fm_slots s t))"
    and "writer_ok (set_writer pc (on_slot t h s)) pc"
  shows "frames_inv (set_writer pc (on_slot t h s))"
  by (rule writer_move [where s = s and t = t and h = h and pc = pc and fs = "[]"])
    (use assms in \<open>auto simp: set_writer_def on_slot_def\<close>)

lemma writer_goes:
  assumes inv: "frames_inv s" and s': "s' = set_writer pc (s\<lparr>fm_active := a, fm_generation := g,
      fm_published := p, fm_rejected := r, fm_initialized := b, fm_done := d\<rparr>)"
    and free: "writer_slot (fm_writer s) = None"
    and d: "fm_done s \<le> d" "g = of_nat d" "slot_ok d s a"
    and own: "writer_ok s' pc"
  shows "frames_inv s'"
proof -
  have parts: "fm_slots s' = fm_slots s" "fm_log s' = fm_log s" "fm_done s' = d" "fm_active s' = a"
    "fm_generation s' = g" "fm_capacity s' = fm_capacity s" "fm_readers s' = fm_readers s"
    "fm_writer s' = pc"
    by (simp_all add: s' set_writer_def)
  have ok: "slot_ok n s' t" if "slot_ok n s t" for n t
  proof -
    have "\<not> writer_holds t sl (fm_writer s)" for sl
      using free writer_holds_slot by fastforce
    with that show ?thesis
      by (auto simp: slot_ok_def Let_def parts split: robust_mutex.splits actor.splits)
  qed
  have readers: "reader_ok s' i (fm_readers s i)" for i
    by (rule reader_ok_cong [where s = s and fs = "[]"])
      (use ok inv d parts in \<open>auto simp: frames_inv_def\<close>)
  show ?thesis
    using inv ok d readers own by (auto simp: frames_inv_def parts)
qed

lemma writer_rejects:
  assumes "frames_inv s" "writer_slot (fm_writer s) = None" "length (fm_log s) = fm_done s"
  shows "frames_inv (writer_reject s)"
  by (rule writer_goes [OF assms(1) _ assms(2), where pc = P_Idle and d = "fm_done s"
        and a = "fm_active s" and g = "fm_generation s" and p = "fm_published s"
        and r = "fm_rejected s + 1" and b = "fm_initialized s"])
    (use assms in \<open>auto simp: writer_reject_def set_writer_def frames_inv_def\<close>)

lemma publish_begin_inv:
  assumes inv: "frames_inv s" and idle: "fm_writer s = P_Idle"
  shows "frames_inv (publish_begin f s)"
proof -
  have w: "length (fm_log s) = fm_done s" "writer_slot (fm_writer s) = None"
    using inv idle by (auto simp: frames_inv_def writer_slot_def)
  have n: "(a + 1) mod 2 \<noteq> a" for a :: u32
  proof
    assume e: "(a + 1) mod 2 = a"
    have "(a + 1) mod 2 < 2" by (rule word_mod_less_divisor) simp
    with e have "a < 2" by simp
    then have "a = 0 \<or> a = 1" by (auto simp: word_less_nat_alt word_unat_eq_iff)
    with e show False by auto
  qed
  have "frames_inv (set_writer (P_Target f ((fm_active s + 1) mod ucast kSlotCount)) s)"
    if "length (cf_data f) \<le> unat (fm_capacity s)"
    by (rule writer_goes [OF inv _ w(2), where pc = "P_Target f ((fm_active s + 1) mod 2)" and d = "fm_done s" and a = "fm_active s"
          and g = "fm_generation s" and p = "fm_published s" and r = "fm_rejected s"
          and b = "fm_initialized s"])
      (use that inv w n in \<open>auto simp: set_writer_def frames_inv_def kSlotCount_def\<close>)
  then show ?thesis
    using writer_rejects [OF inv w(2,1)] by (auto simp: publish_begin_def not_less)
qed

lemma writer_slot_lock:
  assumes "frames_inv s" "writer_slot (fm_writer s) = Some t"
  shows "sl_lock (fm_slots s t) = Held Writer" "writer_holds t (fm_slots s t) (fm_writer s)"
proof -
  have "writer_ok s (fm_writer s)" "slot_ok 0 s t" using assms(1) by (simp_all add: frames_inv_def)
  with assms(2) show l: "sl_lock (fm_slots s t) = Held Writer"
    by (cases "fm_writer s") (auto simp: writer_slot_def)
  with \<open>slot_ok 0 s t\<close> show "writer_holds t (fm_slots s t) (fm_writer s)"
    by (simp add: slot_ok_locked)
qed

lemma slot_ok_writing:
  assumes "sl_lock sl = Held Writer" "fm_slots s t = sl" "writer_holds t sl (fm_writer s)"
  shows "slot_ok n s t"
  using assms by (simp add: slot_ok_locked)

text \<open>The step into the stores of a frame, with the lock taken or with the slot already cleared.\<close>

lemma begin_write_inv:
  assumes inv: "frames_inv s" and w: "length (fm_log s) = fm_done s"
      "length (cf_data f) \<le> unat (fm_capacity s)" "t \<noteq> fm_active s"
    and at_slot: "writer_slot (fm_writer s) \<in> {None, Some t}"
    and l: "sl_lock (fm_slots s t) = Held Writer \<or> sl_lock (fm_slots s t) = Unlocked"
  shows "frames_inv (begin_write f t (set_lock t (Held Writer) s))"
proof -
  let ?g = "of_nat (fm_done s + 1) :: u64"
  let ?h = "sl_lock_update (\<lambda>_. Held Writer)"
  have g: "fm_generation s + 1 = ?g" and p: "length (sl_payload (fm_slots s t)) = unat (fm_capacity s)"
    using inv by (simp_all add: frames_inv_def)
  have "length (cf_data f) < 2 ^ 64"
    using w(2) unsigned_less [where 'b = 64 and 'a = nat, of "fm_capacity s"] by simp
  then have held: "slot_is f ?g (run_stores (slot_stores f ?g) (?h (fm_slots s t)))"
    using w(2) by (intro written_by_stores) (simp_all add: p)
  have "frames_inv (set_writer (P_Writing f t ?g (slot_stores f ?g)) (on_slot t ?h s))"
  proof (rule writer_change [OF inv at_slot])
    show "slot_ok n (set_writer (P_Writing f t ?g (slot_stores f ?g)) (on_slot t ?h s)) t" for n
      by (rule slot_ok_writing [OF _ refl]) (use held in \<open>simp_all add: plain_slot_stores\<close>)
  qed (use w l in auto)
  then show ?thesis
    using g by (simp add: begin_write_def set_lock_move Let_def add.commute)
qed

lemma relock: "sl_lock (fm_slots s t) = l \<Longrightarrow> set_lock t l s = s"
  by (simp add: set_lock_def on_slot_def fun_upd_idem)

lemma writer_step_inv:
  assumes inv: "frames_inv s"
  shows "frames_inv (writer_step ok (fm_writer s) s)"
proof -
  have own: "writer_ok s (fm_writer s)" using inv by (simp add: frames_inv_def)
  show ?thesis
  proof (cases "fm_writer s")
    case (P_Target f t)
    then have w: "length (fm_log s) = fm_done s" "length (cf_data f) \<le> unat (fm_capacity s)"
      "t \<noteq> fm_active s" "writer_slot (fm_writer s) = None"
      using own by (simp_all add: writer_slot_def)
    consider (run) "lock_outcome (sl_lock (fm_slots s t)) ok = Waits"
      | (fails) "lock_outcome (sl_lock (fm_slots s t)) ok = Lock_Failed"
      | (locks) "lock_outcome (sl_lock (fm_slots s t)) ok = Locked"
      | (recovers) "lock_outcome (sl_lock (fm_slots s t)) ok = Recovering"
      using lock_outcome.exhaust by blast
    then show ?thesis
    proof cases
      case locks
      then have "sl_lock (fm_slots s t) = Unlocked"
        by (auto simp: lock_outcome_def split: if_splits robust_mutex.splits)
      with begin_write_inv [OF inv w(1-3)] w(4) locks P_Target show ?thesis by simp
    next
      case recovers
      then have l: "sl_lock (fm_slots s t) = Owner_Died"
        by (auto simp: lock_outcome_def split: if_splits robust_mutex.splits)
      have "frames_inv (set_writer (P_Clearing f t clear_stores)
          (on_slot t (sl_lock_update (\<lambda>_. Held Writer)) s))"
      proof (rule writer_change [OF inv])
        show "slot_ok n (set_writer (P_Clearing f t clear_stores)
            (on_slot t (sl_lock_update (\<lambda>_. Held Writer)) s)) t" for n
          by (rule slot_ok_writing [OF _ refl]) (simp_all add: plain_clear)
      qed (use w l in auto)
      with recovers P_Target show ?thesis by (simp add: set_lock_move)
    next
      case fails
      with writer_rejects [OF inv w(4,1)] P_Target show ?thesis by simp
    qed (simp add: P_Target inv)
  next
    case (P_Clearing f t ps)
    then have ws: "writer_slot (fm_writer s) = Some t" by (simp add: writer_slot_def)
    note l = writer_slot_lock [OF inv ws]
    have w: "length (fm_log s) = fm_done s" "length (cf_data f) \<le> unat (fm_capacity s)"
      "t \<noteq> fm_active s"
      using own P_Clearing by simp_all
    show ?thesis
    proof (cases ps)
      case Nil
      have "frames_inv (begin_write f t s)"
        using begin_write_inv [OF inv w] ws l(1) by (simp add: relock)
      moreover have "frames_inv (writer_reject (set_lock t Not_Recoverable s))"
      proof -
        let ?s1 = "set_writer P_Idle (on_slot t (sl_lock_update (\<lambda>_. Not_Recoverable)) s)"
        have "frames_inv ?s1"
          by (rule writer_change [OF inv]) (use ws l w in \<open>auto simp: slot_ok_locked(5)\<close>)
        from writer_rejects [OF this] w(1) have "frames_inv (writer_reject ?s1)"
          by (simp add: writer_slot_def)
        moreover have "writer_reject ?s1 = writer_reject (set_lock t Not_Recoverable s)"
          by (simp add: writer_reject_def set_writer_def set_lock_move on_slot_def)
        ultimately show ?thesis by simp
      qed
      ultimately show ?thesis by (simp add: P_Clearing Nil)
    next
      case (Cons p qs)
      have h: "plain_store p" "list_all plain_store qs"
        using l(2) by (simp_all add: P_Clearing Cons)
      then have k: "sl_lock (p (fm_slots s t)) = Held Writer"
        "length (sl_payload (p (fm_slots s t))) = length (sl_payload (fm_slots s t))"
        using l(1) by (simp_all add: plain_store_def)
      have "frames_inv (set_writer (P_Clearing f t qs) (on_slot t p s))"
      proof (rule writer_change [OF inv])
        show "slot_ok n (set_writer (P_Clearing f t qs) (on_slot t p s)) t" for n
          by (rule slot_ok_writing [OF _ refl]) (use k h in simp_all)
      qed (use ws l k w in auto)
      then show ?thesis by (simp add: P_Clearing Cons)
    qed
  next
    case (P_Writing f t g ps)
    then have ws: "writer_slot (fm_writer s) = Some t" by (simp add: writer_slot_def)
    note l = writer_slot_lock [OF inv ws]
    have w: "length (fm_log s) = fm_done s" "g = of_nat (fm_done s + 1)" "t \<noteq> fm_active s"
      using own P_Writing by simp_all
    show ?thesis
    proof (cases ps)
      case Nil
      have held: "slot_is f g (fm_slots s t)" using l(2) by (simp add: P_Writing Nil)
      let ?s' = "set_writer (P_Written t g) ((on_slot t (sl_lock_update (\<lambda>_. Unlocked)) s)\<lparr>fm_log := fm_log s @ [f]\<rparr>)"
      have good: "slot_ok n ?s' t" if "n \<le> fm_done s + 1" for n
        using held that w by (auto simp: slot_ok_def slot_good_def set_writer_def on_slot_def nth_append
            intro!: exI [of _ "fm_done s"])
      have "frames_inv ?s'"
        by (rule writer_move [OF inv refl]) (use ws l w good in \<open>auto simp: set_writer_def on_slot_def\<close>)
      then show ?thesis by (simp add: P_Writing Nil set_lock_move)
    next
      case (Cons p qs)
      have h: "plain_store p" "list_all plain_store qs" "slot_is f g (run_stores qs (p (fm_slots s t)))"
        using l(2) by (simp_all add: P_Writing Cons)
      then have k: "sl_lock (p (fm_slots s t)) = Held Writer"
        "length (sl_payload (p (fm_slots s t))) = length (sl_payload (fm_slots s t))"
        using l(1) by (simp_all add: plain_store_def)
      have "frames_inv (set_writer (P_Writing f t g qs) (on_slot t p s))"
      proof (rule writer_change [OF inv])
        show "slot_ok n (set_writer (P_Writing f t g qs) (on_slot t p s)) t" for n
          by (rule slot_ok_writing [OF _ refl]) (use k h in simp_all)
      qed (use ws l k w in auto)
      then show ?thesis by (simp add: P_Writing Cons)
    qed
  next
    case (P_Written t g)
    then have w: "length (fm_log s) = fm_done s + 1" "g = of_nat (fm_done s + 1)"
      "slot_ok (fm_done s + 1) s t"
      using own by simp_all
    have ok: "slot_ok n (set_writer (P_Switched g) (s\<lparr>fm_active := t\<rparr>)) t'" if "slot_ok n s t'" for n t'
      using that P_Written by (auto simp: slot_ok_def Let_def set_writer_def split: robust_mutex.splits actor.splits)
    have "frames_inv (set_writer (P_Switched g) (s\<lparr>fm_active := t\<rparr>))"
      by (rule writer_goes [OF inv, where pc = "P_Switched g" and d = "fm_done s" and a = t
            and g = "fm_generation s" and p = "fm_published s" and r = "fm_rejected s"
            and b = "fm_initialized s"], simp)
        (use inv w P_Written ok [OF w(3)] slot_ok_mono [OF w(3)] in
          \<open>auto simp: writer_slot_def frames_inv_def\<close>)
    then show ?thesis by (simp add: P_Written)
  next
    case (P_Switched g)
    then have w: "length (fm_log s) = fm_done s + 1" "g = of_nat (fm_done s + 1)"
      "slot_ok (fm_done s + 1) s (fm_active s)"
      using own by simp_all
    have "frames_inv (set_writer P_Idle
        (s\<lparr>fm_generation := g, fm_published := fm_published s + 1, fm_done := fm_done s + 1\<rparr>))"
      by (rule writer_goes [OF inv, where pc = P_Idle and d = "fm_done s + 1" and a = "fm_active s"
            and g = g and p = "fm_published s + 1" and r = "fm_rejected s" and b = "fm_initialized s"])
        (use w P_Switched in \<open>auto simp: writer_slot_def\<close>)
    then show ?thesis by (simp add: P_Switched)
  qed (simp_all add: inv)
qed

section \<open>Crashes, and the whole run\<close>

lemma abandon_slot: "fm_slots (abandon a s) t = (if sl_lock (fm_slots s t) = Held a
    then (fm_slots s t)\<lparr>sl_lock := Owner_Died\<rparr> else fm_slots s t)"
  by (simp add: abandon_def)

lemma abandon_simps [simp]:
  "fm_active (abandon a s) = fm_active s" "fm_generation (abandon a s) = fm_generation s"
  "fm_capacity (abandon a s) = fm_capacity s" "fm_writer (abandon a s) = fm_writer s"
  "fm_log (abandon a s) = fm_log s" "fm_done (abandon a s) = fm_done s"
  "fm_readers (abandon a s) = fm_readers s"
  by (simp_all add: abandon_def)

lemma reader_crash_inv:
  assumes inv: "frames_inv s"
  shows "frames_inv (set_reader i R_Gone (abandon (Reader i) s))"
proof -
  let ?s = "set_reader i R_Gone (abandon (Reader i) s)"
  have ok: "slot_ok n ?s t" if "slot_ok n s t" for n t
    using that by (auto simp: slot_ok_def Let_def abandon_slot split: robust_mutex.splits actor.splits)
  have "writer_ok ?s (fm_writer s)"
    by (rule writer_ok_cong [where s = s]) (use ok inv in \<open>auto simp: frames_inv_def abandon_slot\<close>)
  moreover have "reader_ok ?s j (fm_readers s j)" if "j \<noteq> i" for j
    by (rule reader_ok_cong [where s = s and fs = "[]"])
      (use ok inv that in \<open>auto simp: frames_inv_def abandon_slot\<close>)
  ultimately show ?thesis
    using inv ok by (auto simp: frames_inv_def abandon_slot)
qed

lemma writer_gone_inv:
  assumes inv: "frames_inv s"
  shows "frames_inv (set_writer P_Gone (abandon Writer s))"
proof -
  let ?s = "set_writer P_Gone (abandon Writer s)"
  have ok: "slot_ok n ?s t" if "slot_ok n s t" for n t
    using that by (auto simp: slot_ok_def Let_def abandon_slot split: robust_mutex.splits actor.splits)
  have "writer_ok s (fm_writer s)" using inv by (simp add: frames_inv_def)
  then have "fm_done s \<le> length (fm_log s)" by (cases "fm_writer s") auto
  moreover have "reader_ok ?s j (fm_readers s j)" for j
    by (rule reader_ok_cong [where s = s and fs = "[]"])
      (use ok inv in \<open>auto simp: frames_inv_def abandon_slot\<close>)
  ultimately show ?thesis
    using inv ok by (auto simp: frames_inv_def abandon_slot)
qed

lemma writer_closes_inv:
  assumes inv: "frames_inv s" and w: "fm_writer s = P_Idle \<or> fm_writer s = P_Gone"
  shows "frames_inv (set_writer P_Gone (s\<lparr>fm_initialized := False\<rparr>))"
proof -
  have "writer_ok s (fm_writer s)" using inv by (simp add: frames_inv_def)
  with w have "fm_done s \<le> length (fm_log s)" by auto
  then show ?thesis
    by (intro writer_goes [OF inv, where pc = P_Gone and d = "fm_done s" and a = "fm_active s"
          and g = "fm_generation s" and p = "fm_published s" and r = "fm_rejected s" and b = False], simp)
      (use inv w in \<open>auto simp: writer_slot_def frames_inv_def\<close>)
qed

lemma frames_step_inv:
  assumes inv: "frames_inv s"
  shows "frames_inv (frames_step s e)"
proof (cases e)
  case (Publish f)
  then show ?thesis
    using inv publish_begin_inv by (simp split: publish_pc.splits)
next
  case Writer_Closes
  then show ?thesis
    using inv writer_closes_inv by (simp split: publish_pc.splits)
next
  case Mapping_Invalidated
  have "s\<lparr>fm_initialized := False\<rparr> = set_writer P_Gone (s\<lparr>fm_initialized := False\<rparr>)"
    if "fm_writer s = P_Gone"
    using that by (simp add: set_writer_def)
  with Mapping_Invalidated inv writer_closes_inv show ?thesis
    by (fastforce split: publish_pc.splits)
next
  case (Read_Latest i b)
  then show ?thesis
    using inv by (auto intro!: read_begin_inv simp: reader_slot_def split: read_pc.splits)
qed (use inv in \<open>simp_all add: writer_step_inv reader_step_inv writer_gone_inv reader_crash_inv\<close>)

lemma frames_run_inv: "frames_inv (frames_run capacity evs)"
proof -
  have "frames_inv (foldl frames_step s evs)" if "frames_inv s" for s
    using that by (induction evs arbitrary: s) (simp_all add: frames_step_inv)
  then show ?thesis by (simp add: frames_run_def frames_inv_start)
qed

section \<open>Where the frames come from\<close>

text \<open>The frames the writer works on and has finished were handed to \<open>Publish\<close>, valid and small enough.\<close>

definition accepted_frames :: "u64 \<Rightarrow> frames_event list \<Rightarrow> camera_frame set" where
  "accepted_frames capacity evs =
     {f. Publish f \<in> set evs \<and> frame_valid f \<and> length (cf_data f) \<le> unat capacity}"

fun writer_frame :: "publish_pc \<Rightarrow> camera_frame option" where
  "writer_frame (P_Target f t) = Some f"
| "writer_frame (P_Clearing f t ps) = Some f"
| "writer_frame (P_Writing f t g ps) = Some f"
| "writer_frame pc = None"

definition frames_from :: "camera_frame set \<Rightarrow> shared_frames \<Rightarrow> bool" where
  "frames_from F s \<longleftrightarrow> set (fm_log s) \<subseteq> F \<and> (\<forall>f. writer_frame (fm_writer s) = Some f \<longrightarrow> f \<in> F)"

lemma frames_from_cong:
  "fm_log s' = fm_log s \<Longrightarrow> fm_writer s' = fm_writer s \<Longrightarrow> frames_from F s' = frames_from F s"
  by (simp add: frames_from_def)

lemma reader_step_writer:
  "fm_log (reader_step i ok pc s) = fm_log s" "fm_writer (reader_step i ok pc s) = fm_writer s"
  "fm_capacity (reader_step i ok pc s) = fm_capacity s"
  by (induction i ok pc s rule: reader_step.induct)
    (simp_all add: set_lock_def split: lock_outcome.splits)

lemma writer_step_from:
  "set (fm_log s) \<subseteq> F \<Longrightarrow> (\<And>f. writer_frame pc = Some f \<Longrightarrow> f \<in> F) \<Longrightarrow> fm_writer s = pc \<Longrightarrow>
   frames_from F (writer_step ok pc s) \<and> fm_capacity (writer_step ok pc s) = fm_capacity s"
  by (induction ok pc s rule: writer_step.induct)
    (auto simp: frames_from_def set_lock_def begin_write_def writer_reject_def set_writer_def
      on_slot_def Let_def split: lock_outcome.splits)

lemma frames_step_from:
  assumes "frames_from F s" "\<And>f. e = Publish f \<Longrightarrow> frame_valid f \<Longrightarrow>
    length (cf_data f) \<le> unat (fm_capacity s) \<Longrightarrow> f \<in> F"
  shows "frames_from F (frames_step s e) \<and> fm_capacity (frames_step s e) = fm_capacity s"
proof (cases e)
  case (Publish f)
  then show ?thesis
    using assms by (auto simp: frames_from_def publish_begin_def writer_reject_def set_writer_def
        split: publish_pc.splits)
next
  case (Read_Latest i b)
  then show ?thesis
    using assms(1) by (auto simp: read_begin_def frames_from_def split: read_pc.splits)
next
  case (Reader_Moves i ok)
  then show ?thesis
    using assms(1) frames_from_cong [of "reader_step i ok (fm_readers s i) s" s F]
    by (simp add: reader_step_writer)
next
  case (Writer_Moves ok)
  then show ?thesis
    using assms(1) writer_step_from [of s F "fm_writer s" ok] by (simp add: frames_from_def)
qed (use assms(1) in \<open>auto simp: frames_from_def set_writer_def abandon_def split: publish_pc.splits\<close>)

lemma frames_run_from:
  "frames_from (accepted_frames capacity evs) (frames_run capacity evs) \<and>
   fm_capacity (frames_run capacity evs) = capacity"
proof -
  have "frames_from F (foldl frames_step s evs) \<and> fm_capacity (foldl frames_step s evs) = fm_capacity s"
    if "frames_from F s" "accepted_frames (fm_capacity s) evs \<subseteq> F" for F s
    using that
  proof (induction evs arbitrary: s)
    case (Cons e evs)
    have "frames_from F (frames_step s e) \<and> fm_capacity (frames_step s e) = fm_capacity s"
      by (rule frames_step_from) (use Cons.prems in \<open>auto simp: accepted_frames_def\<close>)
    moreover have "accepted_frames (fm_capacity s) evs \<subseteq> F"
      using Cons.prems(2) by (auto simp: accepted_frames_def)
    ultimately show ?case using Cons.IH [of "frames_step s e"] by simp
  qed simp
  from this [of "accepted_frames capacity evs" "frames_start capacity"] show ?thesis
    by (simp add: frames_run_def frames_start_def frames_from_def)
qed

section \<open>Properties\<close>

text \<open>
  C17: a frame read from the shared buffer is a frame that was published, whole and current, whatever
  the writer and the readers do at the same time and whichever of them is killed where. If
  \<open>ReadLatest\<close> returns a frame with generation \<open>g\<close>, then it is, with all its fields and bytes, a valid
  frame handed to \<open>Publish\<close> that fits a slot, the one whose write was finished as number \<open>g\<close>; and
  it is not older than the last frame published when the read loaded the generation (\<open>n\<close>).
\<close>

theorem frames_read_were_published:
  assumes "fm_readers (frames_run capacity evs) i = R_Done (Read_Frame f g) n"
  shows "\<exists>k < length (fm_log (frames_run capacity evs)).
    f = fm_log (frames_run capacity evs) ! k \<and> g = of_nat (k + 1) \<and> n \<le> k + 1 \<and>
    f \<in> accepted_frames capacity evs"
proof -
  let ?s = "frames_run capacity evs"
  have "reader_ok ?s i (fm_readers ?s i)"
    using frames_run_inv by (simp add: frames_inv_def)
  with assms obtain k where "k < length (fm_log ?s)" "n \<le> k + 1" "g = of_nat (k + 1)"
    "f = fm_log ?s ! k"
    by auto
  moreover from this have "f \<in> accepted_frames capacity evs"
    using frames_run_from [of capacity evs] nth_mem by (fastforce simp: frames_from_def)
  ultimately show ?thesis by blast
qed

text \<open>A frame of one compressed byte, the steps that publish it, and the ones that read it.\<close>

definition byte_frame :: "u8 \<Rightarrow> camera_frame" where
  "byte_frame b = \<lparr> cf_sequence = ucast b, cf_timestamp_ms = 0, cf_source_timestamp_ns = 0,
     cf_received_at_ns = 0, cf_source_clock = kClockUnknown, cf_source_timestamp_flags = 0,
     cf_source_timestamp_valid = False, cf_width = 1, cf_height = 1, cf_stride_bytes = 1,
     cf_format = kMjpeg, cf_data = [b] \<rparr>"

definition publish_run :: "u8 \<Rightarrow> nat \<Rightarrow> frames_event list" where
  "publish_run b n = Publish (byte_frame b) # replicate n (Writer_Moves True)"

definition read_run :: "nat \<Rightarrow> frames_event list" where
  "read_run n = Read_Latest 0 True # replicate n (Reader_Moves 0 True)"

theorem frames_read_were_published_witness:
  "byte_frame 7 \<in> accepted_frames 1 (publish_run 7 18 @ read_run 4)"
proof -
  have "case fm_readers (frames_run 1 (publish_run 7 18 @ read_run 4)) 0 of
      R_Done (Read_Frame f g) n \<Rightarrow> f = byte_frame 7 \<and> g = 1 | _ \<Rightarrow> False"
    by code_simp
  then obtain n where "fm_readers (frames_run 1 (publish_run 7 18 @ read_run 4)) 0 =
      R_Done (Read_Frame (byte_frame 7) 1) n"
    by (auto split: read_pc.splits read_result.splits)
  from frames_read_were_published [OF this] show ?thesis
    by blast
qed

text \<open>
  The generations a reader sees need not grow. A reader that has loaded the active slot and is
  overtaken by two publications gets the second of them, whose slot is not active yet; its next read
  takes the slot that is, and returns the frame before it.
\<close>

definition overtaken_run :: "frames_event list" where
  "overtaken_run = publish_run 1 18 @ read_run 2 @ publish_run 2 18 @ publish_run 3 16 @
     replicate 2 (Reader_Moves 0 True)"

definition last_read :: "shared_frames \<Rightarrow> nat \<Rightarrow> u64 option" where
  "last_read s i = (case fm_readers s i of R_Done (Read_Frame f g) n \<Rightarrow> Some g | _ \<Rightarrow> None)"

lemma older_frame_after_newer:
  "last_read (frames_run 1 overtaken_run) 0 = Some 3"
  "last_read (frames_run 1 (overtaken_run @ read_run 4)) 0 = Some 2"
  by code_simp+

end
