(* ===== verification/Run_Config.thy ===== *)
theory Run_Config
  imports Paths
begin

text \<open>
  The modules the Navigator runs and the modes they are grouped in:
  \<open>cockpit/navigator/common/module_id.cc\<close>, \<open>run_mode.cc\<close> and \<open>run_config/run_config.cc\<close>. The hash map of
  the modes is the list of its entries in the order the code iterates over them, with one entry for a
  mode. Every caller of \<open>Validate\<close> passes an error string, so its result is the error, or \<open>None\<close>.
\<close>

section \<open>Modules and modes\<close>

datatype module_id = MUnknown | MTransfer | MVehicleDriver | MAudioDriver | MCameraDriver | MAgent
  | MHmi | MCarupload | MRecording | MMedia | MSentinel | MBridge | MUpgrader | MDebugger
  | MCalibration | MWatchdog

datatype run_mode = RmUnknown | RmNormal | RmDevelopment | RmUi | RmCloud | RmUpgrade

definition kModuleNames :: "(module_id \<times> string) list" where
  "kModuleNames = [(MTransfer, ''transfer''), (MVehicleDriver, ''vehicle_driver''),
     (MAudioDriver, ''audio_driver''), (MCameraDriver, ''camera_driver''), (MAgent, ''agent''),
     (MHmi, ''hmi''), (MCarupload, ''carupload''), (MRecording, ''recording''), (MMedia, ''media''),
     (MSentinel, ''sentinel''), (MBridge, ''bridge''), (MUpgrader, ''upgrader''),
     (MDebugger, ''debugger''), (MCalibration, ''calibration''), (MWatchdog, ''watchdog'')]"

definition kRunModeNames :: "(run_mode \<times> string) list" where
  "kRunModeNames = [(RmNormal, ''normal''), (RmDevelopment, ''development''), (RmUi, ''ui''),
     (RmCloud, ''cloud''), (RmUpgrade, ''upgrade'')]"

definition name_of_module :: "module_id \<Rightarrow> string" where
  "name_of_module m = (case List.find (\<lambda>e. fst e = m) kModuleNames of Some e \<Rightarrow> snd e | None \<Rightarrow> ''unknown'')"

definition parse_module_id :: "string \<Rightarrow> module_id option" where
  "parse_module_id n = map_option fst (List.find (\<lambda>e. n = snd e) kModuleNames)"

definition name_of_mode :: "run_mode \<Rightarrow> string" where
  "name_of_mode m = (case List.find (\<lambda>e. fst e = m) kRunModeNames of Some e \<Rightarrow> snd e | None \<Rightarrow> ''unknown'')"

definition parse_run_mode :: "string \<Rightarrow> run_mode option" where
  "parse_run_mode n = map_option fst (List.find (\<lambda>e. n = snd e) kRunModeNames)"

lemma parse_module_name: "m \<noteq> MUnknown \<Longrightarrow> parse_module_id (name_of_module m) = Some m"
  by (cases m) (simp_all add: parse_module_id_def name_of_module_def kModuleNames_def)

lemma module_name_parse: "parse_module_id n = Some m \<Longrightarrow> name_of_module m = n \<and> m \<noteq> MUnknown"
  by (auto simp: parse_module_id_def name_of_module_def kModuleNames_def split: if_splits)

lemma parse_mode_name: "m \<noteq> RmUnknown \<Longrightarrow> parse_run_mode (name_of_mode m) = Some m"
  by (cases m) (simp_all add: parse_run_mode_def name_of_mode_def kRunModeNames_def)

lemma mode_name_parse: "parse_run_mode n = Some m \<Longrightarrow> name_of_mode m = n \<and> m \<noteq> RmUnknown"
  by (auto simp: parse_run_mode_def name_of_mode_def kRunModeNames_def split: if_splits)

lemma mode_name_nonempty [simp]: "name_of_mode m \<noteq> []"
  by (cases m) (simp_all add: name_of_mode_def kRunModeNames_def)

section \<open>The configuration\<close>

record module_config =
  mc_id :: module_id
  mc_library :: string
  mc_critical :: bool
  mc_restart_limit :: int
  mc_restart_delay_ms :: int

definition module_entry :: "module_id \<Rightarrow> string \<Rightarrow> bool \<Rightarrow> module_config" where
  "module_entry m l c = \<lparr> mc_id = m, mc_library = l, mc_critical = c, mc_restart_limit = 3,
     mc_restart_delay_ms = 200 \<rparr>"

record run_config =
  rc_initial_mode :: run_mode
  rc_socket_path :: string
  rc_startup_timeout_ms :: int
  rc_stop_timeout_ms :: int
  rc_restart_window_seconds :: int
  rc_modules :: "module_config list"
  rc_modes :: "(run_mode \<times> module_id list) list"

definition default_run_config :: run_config where
  "default_run_config = \<lparr> rc_initial_mode = RmNormal, rc_socket_path = ''/tmp/cockpit-navigator.sock'',
     rc_startup_timeout_ms = 10000, rc_stop_timeout_ms = 3000, rc_restart_window_seconds = 30,
     rc_modules = [module_entry MTransfer ''libtransfer.so'' True,
       module_entry MVehicleDriver ''libvehicle_driver.so'' True,
       module_entry MAudioDriver ''libaudio_driver.so'' True,
       module_entry MCameraDriver ''libcamera_driver.so'' True,
       module_entry MAgent ''libagent.so'' True,
       module_entry MHmi ''libhmi.so'' False,
       module_entry MCarupload ''libcarupload.so'' False,
       module_entry MRecording ''librecording.so'' False,
       module_entry MMedia ''libmedia.so'' False,
       module_entry MSentinel ''libsentinel.so'' False,
       module_entry MBridge ''libbridge.so'' False,
       module_entry MUpgrader ''libupgrader.so'' True,
       module_entry MDebugger ''libdebugger.so'' False,
       module_entry MCalibration ''libcalibration.so'' False,
       module_entry MWatchdog ''libwatchdog.so'' False],
     rc_modes = [
       (RmNormal, [MTransfer, MVehicleDriver, MAudioDriver, MCameraDriver, MAgent, MRecording, MSentinel]),
       (RmDevelopment, [MTransfer, MVehicleDriver, MAudioDriver, MCameraDriver, MAgent, MRecording,
         MSentinel, MBridge]),
       (RmUi, [MTransfer, MVehicleDriver, MAudioDriver, MCameraDriver, MAgent, MMedia, MRecording,
         MSentinel, MHmi]),
       (RmCloud, [MTransfer, MVehicleDriver, MCarupload]),
       (RmUpgrade, [MUpgrader])] \<rparr>"

text \<open>\<open>path::extension\<close> of a name without a slash: from its last dot, unless that is its first character.\<close>

definition name_extension :: "string \<Rightarrow> string" where
  "name_extension n =
     (let tail = takeWhile (\<lambda>c. c \<noteq> CHR ''.'') (rev n) in
      if n = ''.'' \<or> n = ''..'' \<or> CHR ''.'' \<notin> set n \<or> length tail + 1 = length n then []
      else CHR ''.'' # rev tail)"

definition is_valid_library_name :: "string \<Rightarrow> bool" where
  "is_valid_library_name library \<longleftrightarrow> library \<noteq> [] \<and> \<not> is_absolute library \<and> CHR ''/'' \<notin> set library \<and>
     name_extension library = ''.so''"

definition find_module :: "run_config \<Rightarrow> module_id \<Rightarrow> module_config option" where
  "find_module c m = List.find (\<lambda>x. mc_id x = m) (rc_modules c)"

definition find_mode :: "run_config \<Rightarrow> run_mode \<Rightarrow> module_id list option" where
  "find_mode c m = map_of (rc_modes c) m"

fun validate_modules :: "module_id list \<Rightarrow> module_config list \<Rightarrow> string option" where
  "validate_modules seen [] = None"
| "validate_modules seen (x # xs) =
     (let module_n = name_of_module (mc_id x) in
      if mc_id x = MUnknown \<or> module_n = ''unknown'' then Some ''Navigator module has an unknown id''
      else if mc_id x \<in> set seen then Some (''duplicate Navigator module: '' @ module_n)
      else if \<not> is_valid_library_name (mc_library x) then
        Some (''invalid library name for module '' @ module_n @ '': '' @ mc_library x)
      else if mc_restart_limit x < 0 \<or> mc_restart_delay_ms x < 0 then
        Some (''invalid restart policy for module '' @ module_n)
      else validate_modules (mc_id x # seen) xs)"

fun validate_mode_modules :: "string \<Rightarrow> module_id list \<Rightarrow> module_id list \<Rightarrow> module_id list \<Rightarrow> string option" where
  "validate_mode_modules mode_n configured seen [] = None"
| "validate_mode_modules mode_n configured seen (m # ms) =
     (if m \<notin> set configured then
        Some (''mode '' @ mode_n @ '' references unconfigured module '' @ name_of_module m)
      else if m \<in> set seen then Some (''mode '' @ mode_n @ '' contains duplicate module '' @ name_of_module m)
      else validate_mode_modules mode_n configured (m # seen) ms)"

fun validate_modes :: "module_id list \<Rightarrow> (run_mode \<times> module_id list) list \<Rightarrow> string option" where
  "validate_modes configured [] = None"
| "validate_modes configured ((mode, ms) # rest) =
     (if mode = RmUnknown \<or> name_of_mode mode = ''unknown'' then Some ''Navigator has an unknown mode''
      else if ms = [] then Some (''Navigator mode is empty: '' @ name_of_mode mode)
      else (case validate_mode_modules (name_of_mode mode) configured [] ms of
          Some e \<Rightarrow> Some e
        | None \<Rightarrow> validate_modes configured rest))"

definition validate_run_config :: "run_config \<Rightarrow> string option" where
  "validate_run_config c =
     (if rc_socket_path c = [] \<or> \<not> is_absolute (rc_socket_path c) then
        Some ''Navigator socket path must be absolute''
      else if rc_startup_timeout_ms c \<le> 0 \<or> rc_stop_timeout_ms c \<le> 0 \<or> rc_restart_window_seconds c \<le> 0 then
        Some ''Navigator timeouts and restart window must be positive''
      else if rc_modules c = [] then Some ''Navigator module list is empty''
      else (case validate_modules [] (rc_modules c) of
          Some e \<Rightarrow> Some e
        | None \<Rightarrow>
            if rc_modes c = [] then Some ''Navigator mode list is empty''
            else (case validate_modes (map mc_id (rc_modules c)) (rc_modes c) of
                Some e \<Rightarrow> Some e
              | None \<Rightarrow>
                  if find_mode c (rc_initial_mode c) = None then
                    Some (''initial Navigator mode is not configured: '' @ name_of_mode (rc_initial_mode c))
                  else None)))"

section \<open>What a valid configuration says\<close>

lemma validate_modules_ok:
  "validate_modules seen xs = None \<longleftrightarrow> distinct (map mc_id xs) \<and> set (map mc_id xs) \<inter> set seen = {} \<and>
     (\<forall>x \<in> set xs. mc_id x \<noteq> MUnknown \<and> is_valid_library_name (mc_library x) \<and>
       0 \<le> mc_restart_limit x \<and> 0 \<le> mc_restart_delay_ms x)"
proof (induction xs arbitrary: seen)
  case (Cons x xs)
  have "name_of_module m = ''unknown'' \<Longrightarrow> m = MUnknown" for m
    by (cases m) (simp_all add: name_of_module_def kModuleNames_def)
  then show ?case
    using Cons.IH [of "mc_id x # seen"] by (auto simp: Let_def not_less)
qed simp

lemma validate_mode_modules_ok:
  "validate_mode_modules n configured seen ms = None \<longleftrightarrow>
     distinct ms \<and> set ms \<inter> set seen = {} \<and> set ms \<subseteq> set configured"
  by (induction ms arbitrary: seen) auto

lemma validate_modes_ok:
  "validate_modes configured es = None \<longleftrightarrow>
     (\<forall>(mode, ms) \<in> set es. mode \<noteq> RmUnknown \<and> ms \<noteq> [] \<and> distinct ms \<and> set ms \<subseteq> set configured)"
proof (induction configured es rule: validate_modes.induct)
  case (2 configured mode ms rest)
  have "name_of_mode m = ''unknown'' \<Longrightarrow> m = RmUnknown" for m
    by (cases m) (simp_all add: name_of_mode_def kRunModeNames_def)
  then have n: "mode = RmUnknown \<or> name_of_mode mode = ''unknown'' \<longleftrightarrow> mode = RmUnknown"
    by blast
  show ?case
  proof (cases "validate_mode_modules (name_of_mode mode) configured [] ms")
    case None
    with 2 n show ?thesis
      using validate_mode_modules_ok [of "name_of_mode mode" configured "[]" ms] by simp
  next
    case (Some e)
    with validate_mode_modules_ok [of "name_of_mode mode" configured "[]" ms] show ?thesis
      by auto
  qed
qed simp

lemma valid_config_modules:
  assumes "validate_run_config c = None"
  shows "distinct (map mc_id (rc_modules c))" "x \<in> set (rc_modules c) \<Longrightarrow> 0 \<le> mc_restart_limit x"
    "0 < rc_restart_window_seconds c" "find_mode c (rc_initial_mode c) \<noteq> None"
  using assms by (auto simp: validate_run_config_def validate_modules_ok split: if_splits option.splits)

lemma valid_config_mode:
  assumes "validate_run_config c = None" "find_mode c m = Some ms"
  shows "set ms \<subseteq> set (map mc_id (rc_modules c))" "distinct ms" "ms \<noteq> []"
proof -
  have "(m, ms) \<in> set (rc_modes c)"
    using assms(2) by (auto simp: find_mode_def dest: map_of_SomeD)
  moreover have "validate_modes (map mc_id (rc_modules c)) (rc_modes c) = None"
    using assms(1) by (auto simp: validate_run_config_def split: if_splits option.splits)
  ultimately show "set ms \<subseteq> set (map mc_id (rc_modules c))" "distinct ms" "ms \<noteq> []"
    by (auto simp: validate_modes_ok)
qed

text \<open>The configuration the code ships is valid.\<close>

lemma default_config_valid: "validate_run_config default_run_config = None"
  by code_simp

end
