(* ===== verification/Process_Manager.thy ===== *)
theory Process_Manager
  imports Run_Config
begin

text \<open>
  The supervisor of the cockpit's processes, \<open>cockpit/navigator/process/process_manager.cc\<close>: it starts
  and stops modules, switches between modes and puts the previous one back when that fails, and
  restarts a module that died, a limited number of times in a window.

  What the system calls of a start or of a stop answer is an outcome of that start or stop; the
  outcomes are two sequences, an argument \<open>w\<close> of every operation, and the state counts how many of
  each were used. So every behaviour of the modules, of \<open>posix_spawn\<close>, \<open>kill\<close> and \<open>waitpid\<close> is some \<open>w\<close>.
  Steady times are nanoseconds. A method that reports an error returns it, \<open>None\<close> when it succeeds.
  Log lines are left out; crash reports are kept in the order they are recorded.
\<close>

section \<open>What the system answers\<close>

text \<open>The status \<open>waitpid\<close> stores, as its macros take it apart.\<close>

datatype wait_status = Exited int | Signaled int bool | Other_Status

definition exit_code_of :: "wait_status \<Rightarrow> int" where
  "exit_code_of st = (case st of Exited c \<Rightarrow> c | Signaled g core \<Rightarrow> 128 + g | Other_Status \<Rightarrow> - 1)"

definition termination_signal :: "wait_status \<Rightarrow> int" where
  "termination_signal st = (case st of Signaled g core \<Rightarrow> g | _ \<Rightarrow> 0)"

definition core_dumped :: "wait_status \<Rightarrow> bool" where
  "core_dumped st = (case st of Signaled g core \<Rightarrow> core | _ \<Rightarrow> False)"

definition termination_kind :: "wait_status \<Rightarrow> string" where
  "termination_kind st = (case st of Exited c \<Rightarrow> ''exit'' | Signaled g core \<Rightarrow> ''signal'' | Other_Status \<Rightarrow> ''unknown'')"

text \<open>A start: no pipe, no process, a process that did not get ready, or one that did, at a time.\<close>

datatype start_outcome = No_Pipe | No_Spawn string | Not_Ready wait_status | Started int int

text \<open>
  A stop: whether the injected failure of the tests strikes, the answer to \<open>SIGTERM\<close>, the answers of
  \<open>waitpid\<close> until the deadline, the answer to \<open>SIGKILL\<close> and the one of the last wait. \<open>Gone\<close> is \<open>ECHILD\<close> for a
  process that does not exist any more.
\<close>

datatype kill_answer = Kill_Sent | Kill_No_Process | Kill_Refused string
datatype poll_answer = Reaped wait_status | Still_Running | Interrupted | Gone | Poll_Failed string

record stop_outcome =
  so_injected :: bool
  so_term :: kill_answer
  so_polls :: "poll_answer list"
  so_kill :: kill_answer
  so_last_wait :: poll_answer

record world =
  w_starts :: "nat \<Rightarrow> start_outcome"
  w_stops :: "nat \<Rightarrow> stop_outcome"

section \<open>Processes\<close>

datatype process_state = PsStopped | PsRestarting | PsRunning | PsFailed

definition process_state_name :: "process_state \<Rightarrow> string" where
  "process_state_name s = (case s of PsStopped \<Rightarrow> ''stopped'' | PsRestarting \<Rightarrow> ''restarting''
     | PsRunning \<Rightarrow> ''running'' | PsFailed \<Rightarrow> ''failed'')"

record process_record =
  pr_config :: module_config
  pr_state :: process_state
  pr_pid :: int
  pr_last_exit_code :: int
  pr_desired :: bool
  pr_restart_times :: "int list"
  pr_start_count :: u64
  pr_started_at :: int
  pr_last_failure_ms :: int
  pr_last_signal :: int
  pr_restart_pending :: bool
  pr_restart_at :: int
  pr_failed_pid :: int
  pr_failed_wait_status :: wait_status

definition new_process :: "module_config \<Rightarrow> process_record" where
  "new_process c = \<lparr> pr_config = c, pr_state = PsStopped, pr_pid = 0, pr_last_exit_code = 0,
     pr_desired = False, pr_restart_times = [], pr_start_count = 0, pr_started_at = 0,
     pr_last_failure_ms = 0, pr_last_signal = 0, pr_restart_pending = False, pr_restart_at = 0,
     pr_failed_pid = 0, pr_failed_wait_status = Exited 0 \<rparr>"

abbreviation pr_id :: "process_record \<Rightarrow> module_id" where
  "pr_id p \<equiv> mc_id (pr_config p)"

record crash_report =
  cr_timestamp_ms :: int
  cr_module :: string
  cr_mode :: string
  cr_pid :: int
  cr_termination :: string
  cr_exit_code :: int
  cr_signal :: int
  cr_core_dumped :: bool
  cr_restart_result :: string
  cr_restart_count :: int
  cr_replacement_pid :: int

record process_manager =
  pm_config :: run_config
  pm_mode :: string
  pm_processes :: "process_record list"
  pm_critical_failure :: bool
  pm_crashes :: "crash_report list"
  pm_starts :: nat
  pm_stops :: nat

definition new_manager :: "run_config \<Rightarrow> process_manager" where
  "new_manager c = \<lparr> pm_config = c, pm_mode = [], pm_processes = map new_process (rc_modules c),
     pm_critical_failure = False, pm_crashes = [], pm_starts = 0, pm_stops = 0 \<rparr>"

text \<open>\<open>Find\<close>, and an update of the process it points to.\<close>

definition find_process :: "process_manager \<Rightarrow> module_id \<Rightarrow> process_record option" where
  "find_process s m = List.find (\<lambda>p. pr_id p = m) (pm_processes s)"

fun update_first :: "('a \<Rightarrow> bool) \<Rightarrow> ('a \<Rightarrow> 'a) \<Rightarrow> 'a list \<Rightarrow> 'a list" where
  "update_first P f [] = []"
| "update_first P f (x # xs) = (if P x then f x # xs else x # update_first P f xs)"

definition set_process :: "module_id \<Rightarrow> process_record \<Rightarrow> process_manager \<Rightarrow> process_manager" where
  "set_process m p s = s\<lparr>pm_processes := update_first (\<lambda>q. pr_id q = m) (\<lambda>q. p) (pm_processes s)\<rparr>"

section \<open>Starting and stopping one process\<close>

definition start_process :: "start_outcome \<Rightarrow> process_record \<Rightarrow> string option \<times> process_record" where
  "start_process outcome p = (let n = name_of_module (pr_id p) in case outcome of
     No_Pipe \<Rightarrow> (Some (''failed to create readiness pipe for '' @ n), p\<lparr>pr_state := PsFailed\<rparr>)
   | No_Spawn e \<Rightarrow> (Some (''failed to spawn module '' @ n @ '': '' @ e), p\<lparr>pr_state := PsFailed\<rparr>)
   | Not_Ready st \<Rightarrow> (Some (''module '' @ n @ '' failed before ready''),
       p\<lparr>pr_pid := 0, pr_state := PsFailed, pr_last_exit_code := exit_code_of st\<rparr>)
   | Started pid now \<Rightarrow> (None, p\<lparr>pr_pid := pid, pr_state := PsRunning, pr_last_exit_code := 0,
       pr_started_at := now, pr_start_count := pr_start_count p + 1\<rparr>))"

definition prepare_start :: "process_record \<Rightarrow> process_record" where
  "prepare_start p = p\<lparr>pr_desired := True, pr_restart_pending := False, pr_restart_times := []\<rparr>"

definition stopped_with :: "int \<Rightarrow> process_record \<Rightarrow> process_record" where
  "stopped_with c p = p\<lparr>pr_pid := 0, pr_state := PsStopped, pr_last_exit_code := c\<rparr>"

text \<open>The wait until the deadline: \<open>None\<close> when it passes, else the exit code or the error.\<close>

fun stop_poll :: "string \<Rightarrow> poll_answer list \<Rightarrow> (string + int) option" where
  "stop_poll n [] = None"
| "stop_poll n (Reaped st # as) = Some (Inr (exit_code_of st))"
| "stop_poll n (Interrupted # as) = stop_poll n as"
| "stop_poll n (Gone # as) = Some (Inr 0)"
| "stop_poll n (Poll_Failed e # as) = Some (Inl (''failed while waiting for module '' @ n @ '': '' @ e))"
| "stop_poll n (Still_Running # as) = stop_poll n as"

text \<open>
  After the deadline: \<open>SIGKILL\<close> and a wait that blocks. Its interruptions are the loop's, and \<open>Still_Running\<close>
  is not an answer of a wait that blocks; the answer that ends it is \<open>so_last_wait\<close>.
\<close>

definition kill_process :: "stop_outcome \<Rightarrow> process_record \<Rightarrow> string option \<times> process_record" where
  "kill_process o1 p = (let n = name_of_module (pr_id p) in case so_kill o1 of
     Kill_Refused e \<Rightarrow> (Some (''failed to kill module '' @ n @ '': '' @ e), p)
   | _ \<Rightarrow> (case so_last_wait o1 of
       Poll_Failed e \<Rightarrow> (Some (''module '' @ n @ '' termination state is unknown: '' @ e), p)
     | Reaped st \<Rightarrow> (None, stopped_with (exit_code_of st) p)
     | _ \<Rightarrow> (None, stopped_with 0 p)))"

definition stop_process :: "stop_outcome \<Rightarrow> process_record \<Rightarrow> string option \<times> process_record" where
  "stop_process o1 p0 = (
     let n = name_of_module (pr_id p0);
         p = p0\<lparr>pr_desired := False, pr_restart_pending := False, pr_restart_times := []\<rparr> in
     if pr_pid p = 0 then (None, p\<lparr>pr_state := PsStopped\<rparr>)
     else (case so_term o1 of
         Kill_Refused e \<Rightarrow> (Some (''failed to terminate module '' @ n @ '': '' @ e), p)
       | _ \<Rightarrow> (case stop_poll n (so_polls o1) of
           Some (Inl e) \<Rightarrow> (Some e, p)
         | Some (Inr c) \<Rightarrow> (None, stopped_with c p)
         | None \<Rightarrow> kill_process o1 p)))"

section \<open>Starting and stopping modules\<close>

definition start_module :: "world \<Rightarrow> module_id \<Rightarrow> process_manager \<Rightarrow> string option \<times> process_manager" where
  "start_module w m s = (case find_process s m of
     None \<Rightarrow> (Some (''module is not configured: '' @ name_of_module m), s)
   | Some p \<Rightarrow>
     if pr_state p = PsRunning then (None, set_process m (p\<lparr>pr_desired := True\<rparr>) s)
     else (case start_process (w_starts w (pm_starts s)) (prepare_start p) of
         (e, p') \<Rightarrow> (e, (set_process m p' s)\<lparr>pm_starts := pm_starts s + 1\<rparr>)))"

definition stop_module :: "world \<Rightarrow> module_id \<Rightarrow> process_manager \<Rightarrow> string option \<times> process_manager" where
  "stop_module w m s = (case find_process s m of
     None \<Rightarrow> (Some (''module is not configured: '' @ name_of_module m), s)
   | Some p \<Rightarrow> (let o1 = w_stops w (pm_stops s); s1 = s\<lparr>pm_stops := pm_stops s + 1\<rparr> in
     if so_injected o1 then (Some (''injected stop failure for module '' @ name_of_module m), s1)
     else (case stop_process o1 p of (e, p') \<Rightarrow> (e, set_process m p' s1))))"

definition start_module_named :: "world \<Rightarrow> string \<Rightarrow> process_manager \<Rightarrow> string option \<times> process_manager" where
  "start_module_named w n s = (case parse_module_id n of
     None \<Rightarrow> (Some (''unknown module: '' @ n), s)
   | Some m \<Rightarrow> start_module w m s)"

definition stop_module_named :: "world \<Rightarrow> string \<Rightarrow> process_manager \<Rightarrow> string option \<times> process_manager" where
  "stop_module_named w n s = (case parse_module_id n of
     None \<Rightarrow> (Some (''unknown module: '' @ n), s)
   | Some m \<Rightarrow> stop_module w m s)"

definition restart_module :: "world \<Rightarrow> string \<Rightarrow> process_manager \<Rightarrow> string option \<times> process_manager" where
  "restart_module w n s = (case stop_module_named w n s of
     (Some e, s1) \<Rightarrow> (Some e, s1)
   | (None, s1) \<Rightarrow> start_module_named w n s1)"

section \<open>Switching modes\<close>

text \<open>
  The three loops of \<open>SwitchMode\<close>. A loop over \<open>processes_\<close> runs over its indices, which no operation
  changes. \<open>stop_unwanted\<close> ends at the first error; the rollback goes on and says whether all went well.
\<close>

fun stop_unwanted :: "world \<Rightarrow> module_id set \<Rightarrow> nat list \<Rightarrow> process_manager \<Rightarrow> string option \<times> process_manager" where
  "stop_unwanted w desired [] s = (None, s)"
| "stop_unwanted w desired (i # is) s = (let p = pm_processes s ! i in
     if pr_desired p \<and> pr_id p \<notin> desired then
       (case stop_module w (pr_id p) s of
          (Some e, s1) \<Rightarrow> (Some e, s1)
        | (None, s1) \<Rightarrow> stop_unwanted w desired is s1)
     else stop_unwanted w desired is s)"

fun start_wanted :: "world \<Rightarrow> module_id list \<Rightarrow> process_manager \<Rightarrow> string option \<times> process_manager" where
  "start_wanted w [] s = (None, s)"
| "start_wanted w (m # ms) s =
     (if (case find_process s m of None \<Rightarrow> True | Some p \<Rightarrow> \<not> pr_desired p \<or> pr_state p \<noteq> PsRunning) then
        (case start_module w m s of
           (Some e, s1) \<Rightarrow> (Some e, s1)
         | (None, s1) \<Rightarrow> start_wanted w ms s1)
      else start_wanted w ms s)"

fun restore_stops :: "world \<Rightarrow> module_id set \<Rightarrow> nat list \<Rightarrow> process_manager \<Rightarrow> bool \<times> process_manager" where
  "restore_stops w previous [] s = (True, s)"
| "restore_stops w previous (i # is) s = (let p = pm_processes s ! i in
     if pr_desired p \<and> pr_id p \<notin> previous then
       (case stop_module w (pr_id p) s of
          (e, s1) \<Rightarrow> (case restore_stops w previous is s1 of (ok, s2) \<Rightarrow> (e = None \<and> ok, s2)))
     else restore_stops w previous is s)"

fun restore_starts :: "world \<Rightarrow> module_id list \<Rightarrow> process_manager \<Rightarrow> bool \<times> process_manager" where
  "restore_starts w [] s = (True, s)"
| "restore_starts w (m # ms) s = (case start_module w m s of
     (e, s1) \<Rightarrow> (case restore_starts w ms s1 of (ok, s2) \<Rightarrow> (e = None \<and> ok, s2)))"

definition desired_modules :: "process_manager \<Rightarrow> module_id list" where
  "desired_modules s = map pr_id (filter pr_desired (pm_processes s))"

definition reverse_indices :: "process_manager \<Rightarrow> nat list" where
  "reverse_indices s = rev [0..<length (pm_processes s)]"

definition restore_previous_mode :: "world \<Rightarrow> module_id list \<Rightarrow> process_manager \<Rightarrow> bool \<times> process_manager" where
  "restore_previous_mode w previous s = (case restore_stops w (set previous) (reverse_indices s) s of
     (ok1, s1) \<Rightarrow> (case restore_starts w previous s1 of (ok2, s2) \<Rightarrow> (ok1 \<and> ok2, s2)))"

definition fail_switch :: "world \<Rightarrow> module_id list \<Rightarrow> string \<Rightarrow> process_manager \<Rightarrow> string option \<times> process_manager" where
  "fail_switch w previous e s = (case restore_previous_mode w previous s of
     (ok, s1) \<Rightarrow> (Some (e @ (if ok then [] else ''; rollback failed'')), s1))"

definition switch_mode :: "world \<Rightarrow> run_mode \<Rightarrow> process_manager \<Rightarrow> string option \<times> process_manager" where
  "switch_mode w mode s = (case find_mode (pm_config s) mode of
     None \<Rightarrow> (Some (''unknown mode: '' @ name_of_mode mode), s)
   | Some mode_modules \<Rightarrow> (let previous = desired_modules s in
     (case stop_unwanted w (set mode_modules) (reverse_indices s) s of
        (Some e, s1) \<Rightarrow> fail_switch w previous e s1
      | (None, s1) \<Rightarrow> (case start_wanted w mode_modules s1 of
          (Some e, s2) \<Rightarrow> fail_switch w previous e s2
        | (None, s2) \<Rightarrow> (None, s2\<lparr>pm_mode := name_of_mode mode, pm_critical_failure := False\<rparr>)))))"

definition switch_mode_named :: "world \<Rightarrow> string \<Rightarrow> process_manager \<Rightarrow> string option \<times> process_manager" where
  "switch_mode_named w n s = (case parse_run_mode n of
     None \<Rightarrow> (Some (''unknown mode: '' @ n), s)
   | Some mode \<Rightarrow> switch_mode w mode s)"

fun stop_all_loop :: "world \<Rightarrow> nat list \<Rightarrow> process_manager \<Rightarrow> process_manager" where
  "stop_all_loop w [] s = s"
| "stop_all_loop w (i # is) s = (let p = pm_processes s ! i in
     stop_all_loop w is (if pr_pid p \<noteq> 0 \<or> pr_desired p \<or> pr_restart_pending p
       then snd (stop_module w (pr_id p) s) else s))"

definition stop_all :: "world \<Rightarrow> process_manager \<Rightarrow> process_manager" where
  "stop_all w s = (stop_all_loop w (reverse_indices s) s)\<lparr>pm_mode := [], pm_critical_failure := False\<rparr>"

definition reload :: "world \<Rightarrow> process_manager \<Rightarrow> string option \<times> process_manager" where
  "reload w s = (let mode = pm_mode s in
     if mode = [] then (Some ''runtime mode is not active'', s)
     else switch_mode_named w mode (stop_all w s))"

section \<open>Deaths and restarts\<close>

definition crash_of :: "process_manager \<Rightarrow> process_record \<Rightarrow> int \<Rightarrow> wait_status \<Rightarrow> string \<Rightarrow> int \<Rightarrow> crash_report" where
  "crash_of s p pid st result wall_ms = \<lparr> cr_timestamp_ms = wall_ms, cr_module = name_of_module (pr_id p),
     cr_mode = pm_mode s, cr_pid = pid, cr_termination = termination_kind st,
     cr_exit_code = exit_code_of st, cr_signal = termination_signal st, cr_core_dumped = core_dumped st,
     cr_restart_result = result, cr_restart_count = int (length (pr_restart_times p)),
     cr_replacement_pid = (if result = ''succeeded'' then pr_pid p else 0) \<rparr>"

definition mark_failed :: "process_record \<Rightarrow> process_record" where
  "mark_failed p = p\<lparr>pr_state := PsFailed, pr_restart_pending := False\<rparr>"

definition restart_window :: "process_manager \<Rightarrow> int" where
  "restart_window s = rc_restart_window_seconds (pm_config s) * 1000000000"

definition recent_restarts :: "int \<Rightarrow> int \<Rightarrow> int list \<Rightarrow> int list" where
  "recent_restarts window now ts = dropWhile (\<lambda>t. now - t > window) ts"

text \<open>
  \<open>HandleExit\<close> on the process that died: the process as it is left, and whether it was given up, which is
  when the code calls \<open>MarkFailed\<close> and records a crash. \<open>TerminateRemainingProcessGroup\<close>, the signal that the
  code sends to the rest of the dead leader's group before, changes nothing the supervisor keeps and is left out.
\<close>

definition exit_process :: "int \<Rightarrow> int \<Rightarrow> int \<Rightarrow> wait_status \<Rightarrow> int \<Rightarrow> process_record \<Rightarrow> process_record \<times> bool" where
  "exit_process window now pid st wall_ms p0 = (
     let p = p0\<lparr>pr_pid := 0, pr_last_exit_code := exit_code_of st, pr_last_failure_ms := wall_ms,
               pr_last_signal := termination_signal st\<rparr> in
     if \<not> pr_desired p then (p\<lparr>pr_state := PsStopped\<rparr>, False)
     else (let ts = recent_restarts window now (pr_restart_times p);
               q = p\<lparr>pr_restart_times := ts\<rparr> in
       if int (length ts) \<ge> mc_restart_limit (pr_config p) then (mark_failed q, True)
       else (q\<lparr>pr_restart_times := ts @ [now], pr_state := PsRestarting, pr_restart_pending := True,
               pr_restart_at := now + mc_restart_delay_ms (pr_config p) * 1000000,
               pr_failed_pid := pid, pr_failed_wait_status := st\<rparr>, False)))"

definition note_failure :: "process_record \<Rightarrow> crash_report \<Rightarrow> process_manager \<Rightarrow> process_manager" where
  "note_failure p report s = s\<lparr>pm_critical_failure := pm_critical_failure s \<or> mc_critical (pr_config p),
     pm_crashes := pm_crashes s @ [report]\<rparr>"

text \<open>
  The child that \<open>waitpid(-1)\<close> returned, with the steady time and the wall times read while it is
  handled and while its crash is recorded.
\<close>

record dead_child =
  dc_pid :: int
  dc_status :: wait_status
  dc_now :: int
  dc_wall_ms :: int
  dc_report_ms :: int

definition handle_exit :: "process_manager \<Rightarrow> dead_child \<Rightarrow> process_manager" where
  "handle_exit s d = (case List.find (\<lambda>p. pr_pid p = dc_pid d) (pm_processes s) of
     None \<Rightarrow> s
   | Some p \<Rightarrow> (case exit_process (restart_window s) (dc_now d) (dc_pid d) (dc_status d) (dc_wall_ms d) p of
       (q, given_up) \<Rightarrow>
         let s1 = s\<lparr>pm_processes := update_first (\<lambda>r. pr_pid r = dc_pid d) (\<lambda>r. q) (pm_processes s)\<rparr> in
         if given_up
         then note_failure q (crash_of s q (dc_pid d) (dc_status d) ''limit_exceeded'' (dc_report_ms d)) s1
         else s1))"

text \<open>\<open>RestartPending\<close> on the process at an index; each crash it records reads the wall clock.\<close>

definition restart_due :: "int \<Rightarrow> process_record \<Rightarrow> bool" where
  "restart_due now p \<longleftrightarrow> pr_restart_pending p \<and> \<not> now < pr_restart_at p"

definition restart_one :: "world \<Rightarrow> int \<Rightarrow> (nat \<Rightarrow> int) \<Rightarrow> nat \<Rightarrow> process_manager \<Rightarrow> process_manager" where
  "restart_one w now wall_ms i s = (let p = pm_processes s ! i in
     if \<not> restart_due now p then s
     else (let p1 = p\<lparr>pr_restart_pending := False, pr_failed_pid := 0, pr_failed_wait_status := Exited 0\<rparr>;
               s1 = s\<lparr>pm_starts := pm_starts s + 1\<rparr> in
       (case start_process (w_starts w (pm_starts s)) p1 of
          (Some e, p2) \<Rightarrow> (let q = mark_failed p2 in
             note_failure q (crash_of s q (pr_failed_pid p) (pr_failed_wait_status p) ''failed'' (wall_ms i))
               (s1\<lparr>pm_processes := (pm_processes s)[i := q]\<rparr>))
        | (None, p2) \<Rightarrow> s1\<lparr>pm_processes := (pm_processes s)[i := p2],
             pm_crashes := pm_crashes s @
               [crash_of s p2 (pr_failed_pid p) (pr_failed_wait_status p) ''succeeded'' (wall_ms i)]\<rparr>)))"

definition restart_pending :: "world \<Rightarrow> int \<Rightarrow> (nat \<Rightarrow> int) \<Rightarrow> process_manager \<Rightarrow> process_manager" where
  "restart_pending w now wall_ms s = fold (restart_one w now wall_ms) [0..<length (pm_processes s)] s"

definition reap_exited :: "world \<Rightarrow> dead_child list \<Rightarrow> int \<Rightarrow> (nat \<Rightarrow> int) \<Rightarrow> process_manager \<Rightarrow> process_manager" where
  "reap_exited w children now wall_ms s = restart_pending w now wall_ms (foldl handle_exit s children)"

record process_status =
  pst_name :: string
  pst_state :: process_state
  pst_pid :: int
  pst_last_exit_code :: int
  pst_restart_count :: int
  pst_start_count :: u64
  pst_uptime_ms :: int
  pst_last_failure_ms :: int
  pst_last_signal :: int

definition status_of_process :: "int \<Rightarrow> process_record \<Rightarrow> process_status" where
  "status_of_process now p = \<lparr> pst_name = name_of_module (pr_id p), pst_state = pr_state p, pst_pid = pr_pid p,
     pst_last_exit_code = pr_last_exit_code p, pst_restart_count = int (length (pr_restart_times p)),
     pst_start_count = pr_start_count p,
     pst_uptime_ms = (if pr_state p = PsRunning then (now - pr_started_at p) sdiv 1000000 else 0),
     pst_last_failure_ms = pr_last_failure_ms p, pst_last_signal = pr_last_signal p \<rparr>"

definition manager_status :: "int \<Rightarrow> process_manager \<Rightarrow> process_status list" where
  "manager_status now s = map (status_of_process now) (pm_processes s)"

end
