(* ===== verification/Process_Safety.thy ===== *)
theory Process_Safety
  imports Process_Manager
begin

text \<open>
  What the supervisor keeps: the state it shows for a module agrees with whether a process of it
  lives, a switch of the mode happens or is undone, and a module that keeps dying is restarted only so
  often. The invariants hold for every sequence of answers of the system, \<open>w\<close>.
\<close>

section \<open>One process in the list\<close>

lemma update_first_length [simp]: "length (update_first P f xs) = length xs"
  by (induction xs) simp_all

lemma find_update:
  assumes "List.find P xs = Some x"
  obtains i where "i < length xs" "xs ! i = x" "P x" "\<And>y. update_first P (\<lambda>_. y) xs = xs[i := y]"
  using assms
proof (induction xs arbitrary: thesis)
  case (Cons a xs)
  show ?case
  proof (cases "P a")
    case True
    with Cons.prems show ?thesis by (intro Cons.prems(1) [of 0]) auto
  next
    case False
    with Cons.prems(2) have "List.find P xs = Some x" by simp
    then obtain i where "i < length xs" "xs ! i = x" "P x" "\<And>y. update_first P (\<lambda>_. y) xs = xs[i := y]"
      using Cons.IH by blast
    with False show ?thesis
      by (intro Cons.prems(1) [of "Suc i"]) auto
  qed
qed simp

lemma find_process_at:
  assumes "find_process s m = Some p"
  obtains i where "i < length (pm_processes s)" "pm_processes s ! i = p" "pr_id p = m"
    "\<And>q. set_process m q s = s\<lparr>pm_processes := (pm_processes s)[i := q]\<rparr>"
proof -
  from assms have "List.find (\<lambda>q. pr_id q = m) (pm_processes s) = Some p"
    by (simp add: find_process_def)
  then obtain i where "i < length (pm_processes s)" "pm_processes s ! i = p" "pr_id p = m"
    "\<And>q. update_first (\<lambda>r. pr_id r = m) (\<lambda>_. q) (pm_processes s) = (pm_processes s)[i := q]"
    by (rule find_update) blast
  with that show ?thesis by (simp add: set_process_def)
qed

section \<open>The state of a process\<close>

text \<open>
  A process shows as running exactly when a process id is kept for it, as restarting exactly when a
  restart is pending, and then it is wanted; its restarts stay within its limit. \<open>posix_spawn\<close> gives
  process ids that are not zero.
\<close>

definition process_ok :: "process_record \<Rightarrow> bool" where
  "process_ok p \<longleftrightarrow> (pr_pid p \<noteq> 0 \<longleftrightarrow> pr_state p = PsRunning) \<and>
     (pr_restart_pending p \<longleftrightarrow> pr_state p = PsRestarting) \<and> (pr_restart_pending p \<longrightarrow> pr_desired p) \<and>
     int (length (pr_restart_times p)) \<le> max 0 (mc_restart_limit (pr_config p))"

definition spawns_processes :: "world \<Rightarrow> bool" where
  "spawns_processes w \<longleftrightarrow> (\<forall>n pid t. w_starts w n = Started pid t \<longrightarrow> pid \<noteq> 0)"

definition manager_ok :: "process_manager \<Rightarrow> bool" where
  "manager_ok s \<longleftrightarrow> map pr_config (pm_processes s) = rc_modules (pm_config s) \<and>
     list_all process_ok (pm_processes s)"

definition unwanted :: "process_record \<Rightarrow> bool" where
  "unwanted p \<longleftrightarrow> process_ok p \<and> \<not> pr_desired p"

lemma stopped_with_ok:
  assumes "unwanted p"
  shows "unwanted (stopped_with c p)" "pr_config (stopped_with c p) = pr_config p"
    "pr_state (stopped_with c p) = PsStopped"
  using assms by (auto simp: unwanted_def stopped_with_def process_ok_def)

lemma kill_process_ok:
  assumes "unwanted p" "kill_process o1 p = (e, q)"
  shows "unwanted q" "pr_config q = pr_config p" "e = None \<Longrightarrow> pr_state q = PsStopped"
  using assms stopped_with_ok [OF assms(1)]
  by (cases "so_kill o1"; cases "so_last_wait o1"; auto simp: kill_process_def Let_def)+

lemma stop_process_ok:
  assumes "process_ok p" "stop_process o1 p = (e, q)"
  shows "unwanted q" "pr_config q = pr_config p" "e = None \<Longrightarrow> pr_state q = PsStopped"
proof -
  let ?n = "name_of_module (pr_id p)"
  let ?p = "p\<lparr>pr_desired := False, pr_restart_pending := False, pr_restart_times := []\<rparr>"
  have r: "(e, q) = (if pr_pid p = 0 then (None, ?p\<lparr>pr_state := PsStopped\<rparr>)
     else (case so_term o1 of
         Kill_Refused e \<Rightarrow> (Some (''failed to terminate module '' @ ?n @ '': '' @ e), ?p)
       | _ \<Rightarrow> (case stop_poll ?n (so_polls o1) of
           Some (Inl e) \<Rightarrow> (Some e, ?p)
         | Some (Inr c) \<Rightarrow> (None, stopped_with c ?p)
         | None \<Rightarrow> kill_process o1 ?p)))"
    using assms(2) by (simp add: stop_process_def Let_def)
  have "unwanted q \<and> pr_config q = pr_config p \<and> (e = None \<longrightarrow> pr_state q = PsStopped)"
  proof (cases "pr_pid p = 0")
    case True
    with r assms(1) show ?thesis by (simp add: unwanted_def process_ok_def)
  next
    case False
    then have run: "unwanted ?p" using assms(1) by (auto simp: unwanted_def process_ok_def)
    have kill: ?thesis if "(e, q) = kill_process o1 ?p"
      using kill_process_ok [OF run that [symmetric]] by simp
    have polls: ?thesis if "(e, q) = (case stop_poll ?n (so_polls o1) of
           Some (Inl e) \<Rightarrow> (Some e, ?p)
         | Some (Inr c) \<Rightarrow> (None, stopped_with c ?p)
         | None \<Rightarrow> kill_process o1 ?p)"
    proof (cases "stop_poll ?n (so_polls o1)")
      case (Some a)
      with that run stopped_with_ok [OF run] show ?thesis by (cases a) simp_all
    qed (use kill that in simp)
    from False r run polls show ?thesis by (cases "so_term o1") simp_all
  qed
  then show "unwanted q" "pr_config q = pr_config p" "e = None \<Longrightarrow> pr_state q = PsStopped" by simp_all
qed

section \<open>The state of the manager\<close>

definition process_ids :: "process_manager \<Rightarrow> module_id list" where
  "process_ids s = map pr_id (pm_processes s)"

lemma manager_ok_update:
  assumes "manager_ok s" "i < length (pm_processes s)" "process_ok q"
    "pr_config q = pr_config (pm_processes s ! i)"
    "pm_processes s' = (pm_processes s)[i := q]" "pm_config s' = pm_config s"
  shows "manager_ok s'"
proof -
  have "map pr_config ((pm_processes s)[i := q]) = map pr_config (pm_processes s)"
    using assms(2,4) by (simp add: map_update list_update_same_conv)
  moreover have "list_all process_ok ((pm_processes s)[i := q])"
    using assms(1,3)
    by (auto simp: manager_ok_def list_all_iff dest!: set_update_subset_insert [THEN subsetD])
  ultimately show ?thesis
    using assms(1,5,6) by (simp add: manager_ok_def)
qed

lemma manager_ok_cong:
  "pm_processes s' = pm_processes s \<Longrightarrow> pm_config s' = pm_config s \<Longrightarrow> manager_ok s' = manager_ok s"
  by (simp add: manager_ok_def)

lemma manager_ok_nth: "manager_ok s \<Longrightarrow> i < length (pm_processes s) \<Longrightarrow> process_ok (pm_processes s ! i)"
  by (simp add: manager_ok_def list_all_length)

text \<open>What starting and stopping a module do to the list, in one statement each.\<close>

lemma start_module_effect:
  assumes ok: "manager_ok s" and w: "spawns_processes w" and m: "m \<in> set (process_ids s)"
    and r: "start_module w m s = (e, s')"
  obtains i q where "i < length (pm_processes s)" "pr_id (pm_processes s ! i) = m"
    "pm_processes s' = (pm_processes s)[i := q]" "pm_config s' = pm_config s" "pm_mode s' = pm_mode s"
    "process_ok q" "pr_config q = pr_config (pm_processes s ! i)" "pr_desired q"
    "e = None \<longleftrightarrow> pr_state q = PsRunning"
proof -
  obtain p where p: "find_process s m = Some p"
    using m unfolding process_ids_def find_process_def
    by (cases "List.find (\<lambda>p. pr_id p = m) (pm_processes s)") (auto simp: find_None_iff)
  then obtain i where i: "i < length (pm_processes s)" "pm_processes s ! i = p" "pr_id p = m"
    "\<And>q. set_process m q s = s\<lparr>pm_processes := (pm_processes s)[i := q]\<rparr>"
    by (rule find_process_at) blast
  have pok: "process_ok p" using manager_ok_nth [OF ok i(1)] i(2) by simp
  show ?thesis
  proof (cases "pr_state p = PsRunning")
    case True
    have "process_ok (p\<lparr>pr_desired := True\<rparr>)" using pok by (simp add: process_ok_def)
    with True r i p show ?thesis
      by (intro that [of i "p\<lparr>pr_desired := True\<rparr>"]) (auto simp: start_module_def)
  next
    case False
    let ?o = "w_starts w (pm_starts s)"
    have pre: "process_ok ((prepare_start p)\<lparr>pr_state := (if pr_state p = PsRestarting then PsStopped else pr_state p)\<rparr>)"
      "pr_pid p = 0" "int (length (pr_restart_times (prepare_start p))) \<le> max 0 (mc_restart_limit (pr_config p))"
      using pok False by (auto simp: process_ok_def prepare_start_def)
    have q: "process_ok (snd (start_process ?o (prepare_start p)))"
      "pr_config (snd (start_process ?o (prepare_start p))) = pr_config p"
      "pr_desired (snd (start_process ?o (prepare_start p)))"
      "fst (start_process ?o (prepare_start p)) = None \<longleftrightarrow>
        pr_state (snd (start_process ?o (prepare_start p))) = PsRunning"
      using pre(2,3) w
      by (cases ?o; auto simp: start_process_def prepare_start_def process_ok_def Let_def spawns_processes_def)+
    with False r i p show ?thesis
      by (intro that [of i "snd (start_process ?o (prepare_start p))"])
        (auto simp: start_module_def split: prod.splits)
  qed
qed

lemma stop_module_effect:
  assumes ok: "manager_ok s" and m: "m \<in> set (process_ids s)" and r: "stop_module w m s = (e, s')"
  obtains (injected) "so_injected (w_stops w (pm_stops s))" "e \<noteq> None" "pm_processes s' = pm_processes s"
      "pm_config s' = pm_config s" "pm_mode s' = pm_mode s" "pm_stops s' = pm_stops s + 1"
    | (stopped) i q where "i < length (pm_processes s)" "pr_id (pm_processes s ! i) = m"
    "pm_processes s' = (pm_processes s)[i := q]" "pm_config s' = pm_config s" "pm_mode s' = pm_mode s"
    "process_ok q" "pr_config q = pr_config (pm_processes s ! i)" "\<not> pr_desired q"
    "e = None \<Longrightarrow> pr_state q = PsStopped" "pm_stops s' = pm_stops s + 1"
    "(e, q) = stop_process (w_stops w (pm_stops s)) (pm_processes s ! i)"
proof -
  obtain p where p: "find_process s m = Some p"
    using m unfolding process_ids_def find_process_def
    by (cases "List.find (\<lambda>p. pr_id p = m) (pm_processes s)") (auto simp: find_None_iff)
  let ?o = "w_stops w (pm_stops s)"
  let ?s1 = "s\<lparr>pm_stops := pm_stops s + 1\<rparr>"
  show ?thesis
  proof (cases "so_injected ?o")
    case True
    with r p show ?thesis by (intro injected) (auto simp: stop_module_def Let_def)
  next
    case False
    have "find_process ?s1 m = Some p" using p by (simp add: find_process_def)
    then obtain i where i: "i < length (pm_processes ?s1)" "pm_processes ?s1 ! i = p" "pr_id p = m"
      "\<And>q. set_process m q ?s1 = ?s1\<lparr>pm_processes := (pm_processes ?s1)[i := q]\<rparr>"
      by (rule find_process_at) blast
    have pok: "process_ok p" using manager_ok_nth [OF ok, of i] i by simp
    obtain e1 q where q: "stop_process ?o p = (e1, q)" by fastforce
    have e: "e = e1" "s' = set_process m q ?s1"
      using False r p q by (simp_all add: stop_module_def Let_def)
    show ?thesis
      by (rule stopped [of i q])
        (use i q e stop_process_ok [OF pok q] in \<open>simp_all add: unwanted_def\<close>)
  qed
qed

lemma start_module_ok:
  assumes "manager_ok s" "spawns_processes w"
  shows "manager_ok (snd (start_module w m s))"
proof (cases "m \<in> set (process_ids s)")
  case True
  obtain e s' where r: "start_module w m s = (e, s')" by (cases "start_module w m s") auto
  show ?thesis
    using start_module_effect [OF assms True r] manager_ok_update [OF assms(1)] r by (metis snd_conv)
next
  case False
  then have "find_process s m = None"
    by (auto simp: find_process_def find_None_iff process_ids_def)
  then show ?thesis using assms by (simp add: start_module_def)
qed

lemma stop_module_ok:
  assumes "manager_ok s"
  shows "manager_ok (snd (stop_module w m s))"
proof (cases "m \<in> set (process_ids s)")
  case True
  obtain e s' where r: "stop_module w m s = (e, s')" by (cases "stop_module w m s") auto
  from assms True r show ?thesis
  proof (cases rule: stop_module_effect)
    case injected
    then show ?thesis using assms r manager_ok_cong by (metis snd_conv)
  next
    case (stopped i q)
    then show ?thesis using manager_ok_update [OF assms] r by (metis snd_conv)
  qed
next
  case False
  then have "find_process s m = None"
    by (auto simp: find_process_def find_None_iff process_ids_def)
  then show ?thesis using assms by (simp add: stop_module_def)
qed

lemma named_ok:
  assumes "manager_ok s" "spawns_processes w"
  shows "manager_ok (snd (start_module_named w n s))" "manager_ok (snd (stop_module_named w n s))"
    "manager_ok (snd (restart_module w n s))"
proof -
  have stop: "manager_ok (snd (stop_module_named w n s))"
    using assms stop_module_ok by (simp add: stop_module_named_def split: option.splits)
  have start: "manager_ok (snd (start_module_named w n t))" if "manager_ok t" for t
    using that assms(2) start_module_ok by (simp add: start_module_named_def split: option.splits)
  show "manager_ok (snd (start_module_named w n s))" by (rule start) (rule assms)
  show "manager_ok (snd (stop_module_named w n s))" by (rule stop)
  show "manager_ok (snd (restart_module w n s))"
    using stop start by (auto simp: restart_module_def split: prod.splits option.splits)
qed

lemma loops_ok:
  assumes "spawns_processes w"
  shows "manager_ok s \<Longrightarrow> manager_ok (snd (stop_unwanted w D is s))"
    and "manager_ok s \<Longrightarrow> manager_ok (snd (start_wanted w ms s))"
    and "manager_ok s \<Longrightarrow> manager_ok (snd (restore_stops w D is s))"
    and "manager_ok s \<Longrightarrow> manager_ok (snd (restore_starts w ms s))"
    and "manager_ok s \<Longrightarrow> manager_ok (stop_all_loop w is s)"
proof -
  have stop: "manager_ok s \<Longrightarrow> stop_module w m s = (e, s') \<Longrightarrow> manager_ok s'" for m e s s'
    using stop_module_ok [of s w m] by simp
  have start: "manager_ok s \<Longrightarrow> start_module w m s = (e, s') \<Longrightarrow> manager_ok s'" for m e s s'
    using start_module_ok [OF _ assms, of s m] by simp
  show "manager_ok s \<Longrightarrow> manager_ok (snd (stop_unwanted w D is s))"
    by (induction "is" arbitrary: s) (auto simp: Let_def stop split: prod.splits option.splits)
  show "manager_ok s \<Longrightarrow> manager_ok (snd (start_wanted w ms s))"
    by (induction ms arbitrary: s) (auto simp: start split: prod.splits option.splits)
  show "manager_ok s \<Longrightarrow> manager_ok (snd (restore_stops w D is s))"
    by (induction "is" arbitrary: s) (auto simp: Let_def dest: stop split: prod.splits, (metis snd_conv stop)+)
  show "manager_ok s \<Longrightarrow> manager_ok (snd (restore_starts w ms s))"
    by (induction ms arbitrary: s) (auto dest: start split: prod.splits, (metis snd_conv start)+)
  show "manager_ok s \<Longrightarrow> manager_ok (stop_all_loop w is s)"
    by (induction "is" arbitrary: s) (simp_all add: Let_def stop_module_ok)
qed

lemma restore_ok:
  assumes "spawns_processes w" "manager_ok s"
  shows "manager_ok (snd (restore_previous_mode w previous s))" "manager_ok (snd (fail_switch w previous e s))"
proof -
  show r: "manager_ok (snd (restore_previous_mode w previous s))"
    using loops_ok(3,4) [OF assms(1)] assms(2)
    by (auto simp: restore_previous_mode_def split: prod.splits) (metis snd_conv)
  then show "manager_ok (snd (fail_switch w previous e s))"
    by (cases "restore_previous_mode w previous s") (simp add: fail_switch_def)
qed

lemma switch_mode_ok:
  assumes "spawns_processes w" "manager_ok s"
  shows "manager_ok (snd (switch_mode w mode s))" "manager_ok (snd (switch_mode_named w n s))"
proof -
  have sw: "manager_ok (snd (switch_mode w mode s))" for mode
  proof (cases "find_mode (pm_config s) mode")
    case (Some ms)
    obtain e1 s1 where s1: "stop_unwanted w (set ms) (reverse_indices s) s = (e1, s1)" by fastforce
    then have ok1: "manager_ok s1" using loops_ok(1) [OF assms] by (metis snd_conv)
    obtain e2 s2 where s2: "start_wanted w ms s1 = (e2, s2)" by fastforce
    then have ok2: "manager_ok s2" using loops_ok(2) [OF assms(1) ok1] by (metis snd_conv)
    then have "manager_ok (s2\<lparr>pm_mode := name_of_mode mode, pm_critical_failure := False\<rparr>)"
      by (simp add: manager_ok_def)
    with Some s1 s2 ok1 ok2 restore_ok(2) [OF assms(1)] show ?thesis
      by (simp add: switch_mode_def Let_def split: option.splits)
  qed (simp add: switch_mode_def assms)
  show "manager_ok (snd (switch_mode w mode s))" by (rule sw)
  show "manager_ok (snd (switch_mode_named w n s))"
    using sw assms(2) by (simp add: switch_mode_named_def split: option.splits)
qed

lemma stop_all_ok: "spawns_processes w \<Longrightarrow> manager_ok s \<Longrightarrow> manager_ok (stop_all w s)"
  using loops_ok(5) [of w s "reverse_indices s"] by (simp add: stop_all_def manager_ok_def)

lemma reload_ok: "spawns_processes w \<Longrightarrow> manager_ok s \<Longrightarrow> manager_ok (snd (reload w s))"
  by (simp add: reload_def Let_def switch_mode_ok stop_all_ok)

section \<open>Deaths\<close>

lemma recent_restarts_suffix: "length (recent_restarts window now ts) \<le> length ts"
  by (simp add: recent_restarts_def length_dropWhile_le)

lemma exit_process_ok:
  assumes "process_ok p" "pr_pid p \<noteq> 0"
  shows "process_ok (fst (exit_process window now pid st wall p))"
    "pr_config (fst (exit_process window now pid st wall p)) = pr_config p"
proof -
  have "int (length (recent_restarts window now (pr_restart_times p))) \<le> max 0 (mc_restart_limit (pr_config p))"
    using assms(1) recent_restarts_suffix [of window now "pr_restart_times p"]
    by (simp add: process_ok_def)
  then show "process_ok (fst (exit_process window now pid st wall p))"
    "pr_config (fst (exit_process window now pid st wall p)) = pr_config p"
    using assms by (auto simp: exit_process_def mark_failed_def process_ok_def Let_def)
qed

lemma note_failure_simps [simp]:
  "pm_processes (note_failure p r s) = pm_processes s" "pm_config (note_failure p r s) = pm_config s"
  "pm_mode (note_failure p r s) = pm_mode s" "pm_starts (note_failure p r s) = pm_starts s"
  by (simp_all add: note_failure_def)

text \<open>A child that \<open>waitpid\<close> returns has an id above zero.\<close>

lemma handle_exit_ok:
  assumes ok: "manager_ok s" and pid: "dc_pid d \<noteq> 0"
  shows "manager_ok (handle_exit s d)"
proof (cases "List.find (\<lambda>p. pr_pid p = dc_pid d) (pm_processes s)")
  case (Some p)
  then obtain i where i: "i < length (pm_processes s)" "pm_processes s ! i = p" "pr_pid p = dc_pid d"
    "\<And>q. update_first (\<lambda>r. pr_pid r = dc_pid d) (\<lambda>_. q) (pm_processes s) = (pm_processes s)[i := q]"
    by (rule find_update) blast
  obtain q g where q: "exit_process (restart_window s) (dc_now d) (dc_pid d) (dc_status d) (dc_wall_ms d) p = (q, g)"
    by fastforce
  have qok: "process_ok q" "pr_config q = pr_config p"
    using exit_process_ok [of p] manager_ok_nth [OF ok i(1)] i(2,3) pid q by (metis fst_conv)+
  show ?thesis
    by (rule manager_ok_update [OF ok i(1) qok(1)])
      (use Some q qok(2) i in \<open>simp_all add: handle_exit_def Let_def\<close>)
qed (simp add: handle_exit_def ok)

text \<open>Starting a process whose restart came due.\<close>

lemma start_due_ok:
  assumes p: "process_ok p" "pr_restart_pending p" "pr_state p = PsRestarting" "pr_pid p = 0"
    and pid: "\<forall>i t. outcome = Started i t \<longrightarrow> i \<noteq> 0"
    and r: "start_process outcome (p\<lparr>pr_restart_pending := False, pr_failed_pid := 0, pr_failed_wait_status := Exited 0\<rparr>) = (e, q)"
  shows "pr_config q = pr_config p" "process_ok (if e = None then q else mark_failed q)"
proof -
  have n: "int (length (pr_restart_times p)) \<le> max 0 (mc_restart_limit (pr_config p))"
    using p(1) by (simp add: process_ok_def)
  have "pr_config q = pr_config p \<and> process_ok (if e = None then q else mark_failed q)"
  proof (cases outcome)
    case (Started i t)
    with r n p(4) pid show ?thesis by (auto simp: start_process_def process_ok_def)
  qed (use r n p(4) in \<open>auto simp: start_process_def process_ok_def mark_failed_def\<close>)
  then show "pr_config q = pr_config p" "process_ok (if e = None then q else mark_failed q)" by simp_all
qed

lemma restart_one_ok:
  assumes ok: "manager_ok s" and w: "spawns_processes w" and i: "i < length (pm_processes s)"
  shows "manager_ok (restart_one w now wall i s)"
    "length (pm_processes (restart_one w now wall i s)) = length (pm_processes s)"
proof -
  let ?p = "pm_processes s ! i"
  let ?p1 = "?p\<lparr>pr_restart_pending := False, pr_failed_pid := 0, pr_failed_wait_status := Exited 0\<rparr>"
  obtain e p2 where r: "start_process (w_starts w (pm_starts s)) ?p1 = (e, p2)" by fastforce
  have len: "length (pm_processes (restart_one w now wall i s)) = length (pm_processes s)"
    using r by (cases e) (auto simp: restart_one_def Let_def)
  show "length (pm_processes (restart_one w now wall i s)) = length (pm_processes s)" by (rule len)
  show "manager_ok (restart_one w now wall i s)"
  proof (cases "restart_due now ?p")
    case True
    then have pok: "process_ok ?p" "pr_restart_pending ?p" "pr_state ?p = PsRestarting" "pr_pid ?p = 0"
      using manager_ok_nth [OF ok i] by (auto simp: restart_due_def process_ok_def)
    have pid: "\<forall>i t. w_starts w (pm_starts s) = Started i t \<longrightarrow> i \<noteq> 0"
      using w by (simp add: spawns_processes_def)
    have p2: "pr_config p2 = pr_config ?p" "process_ok (if e = None then p2 else mark_failed p2)"
      using start_due_ok [OF pok pid r] by blast+
    show ?thesis
    proof (cases e)
      case None
      show ?thesis
        by (rule manager_ok_update [OF ok i, of p2]) (use True r p2 None in \<open>simp_all add: restart_one_def Let_def\<close>)
    next
      case (Some x)
      show ?thesis
        by (rule manager_ok_update [OF ok i, of "mark_failed p2"])
          (use True r p2 Some in \<open>simp_all add: restart_one_def Let_def mark_failed_def\<close>)
    qed
  qed (use ok in \<open>simp add: restart_one_def Let_def\<close>)
qed

lemma restart_pending_ok:
  assumes "manager_ok s" "spawns_processes w"
  shows "manager_ok (restart_pending w now wall s)"
proof -
  have "manager_ok (fold (restart_one w now wall) is s)"
    if "manager_ok s" "set is \<subseteq> {..<length (pm_processes s)}" for "is"
    using that
  proof (induction "is" arbitrary: s)
    case (Cons i js)
    then show ?case
      using restart_one_ok [OF Cons.prems(1) assms(2), of i now wall] by simp
  qed simp
  then show ?thesis
    using assms(1) by (simp add: restart_pending_def atLeast0LessThan)
qed

lemma reap_exited_ok:
  assumes "manager_ok s" "spawns_processes w" "list_all (\<lambda>d. dc_pid d \<noteq> 0) ds"
  shows "manager_ok (reap_exited w ds now wall s)"
proof -
  have "manager_ok (foldl handle_exit s ds)"
    using assms(1,3) by (induction ds arbitrary: s) (simp_all add: handle_exit_ok)
  then show ?thesis
    using assms(2) by (simp add: reap_exited_def restart_pending_ok)
qed

section \<open>Everything the supervisor is asked to do\<close>

text \<open>
  The states of a manager made from a configuration, after any sequence of its public methods.
  \<open>waitpid\<close> has found a child when it returns an id above zero.
\<close>

inductive supervised :: "world \<Rightarrow> run_config \<Rightarrow> process_manager \<Rightarrow> bool" for w c where
  made: "supervised w c (new_manager c)"
| switched: "supervised w c s \<Longrightarrow> supervised w c (snd (switch_mode w mode s))"
| switched_named: "supervised w c s \<Longrightarrow> supervised w c (snd (switch_mode_named w n s))"
| started: "supervised w c s \<Longrightarrow> supervised w c (snd (start_module_named w n s))"
| stopped: "supervised w c s \<Longrightarrow> supervised w c (snd (stop_module_named w n s))"
| restarted: "supervised w c s \<Longrightarrow> supervised w c (snd (restart_module w n s))"
| reloaded: "supervised w c s \<Longrightarrow> supervised w c (snd (reload w s))"
| all_stopped: "supervised w c s \<Longrightarrow> supervised w c (stop_all w s)"
| reaped: "supervised w c s \<Longrightarrow> list_all (\<lambda>d. 0 < dc_pid d) ds \<Longrightarrow>
    supervised w c (reap_exited w ds now wall s)"

lemma new_manager_ok: "manager_ok (new_manager c)"
  by (simp add: manager_ok_def new_manager_def new_process_def process_ok_def list_all_iff comp_def)

lemma supervised_ok:
  assumes "spawns_processes w"
  shows "supervised w c s \<Longrightarrow> manager_ok s"
proof (induction rule: supervised.induct)
  case (reaped s ds now wall)
  then have "list_all (\<lambda>d. dc_pid d \<noteq> 0) ds" by (auto simp: list_all_iff)
  with reaped assms show ?case by (simp add: reap_exited_ok)
qed (simp_all add: assms new_manager_ok switch_mode_ok named_ok reload_ok stop_all_ok)

text \<open>The configuration never changes.\<close>

lemma start_stop_config [simp]:
  "pm_config (snd (start_module w m s)) = pm_config s" "pm_config (snd (stop_module w m s)) = pm_config s"
  by (auto simp: start_module_def stop_module_def set_process_def Let_def split: option.splits prod.splits)

lemma loops_config [simp]:
  "pm_config (snd (stop_unwanted w D is s)) = pm_config s"
  "pm_config (snd (start_wanted w ms s)) = pm_config s"
  "pm_config (snd (restore_stops w D is s)) = pm_config s"
  "pm_config (snd (restore_starts w ms s)) = pm_config s"
  "pm_config (stop_all_loop w is s) = pm_config s"
proof -
  have stop: "pm_config s' = pm_config s" if "stop_module w m s = (e, s')" for m s e s'
    using start_stop_config(2) [of w m s] that by simp
  have start: "pm_config s' = pm_config s" if "start_module w m s = (e, s')" for m s e s'
    using start_stop_config(1) [of w m s] that by simp
  show "pm_config (snd (stop_unwanted w D is s)) = pm_config s"
    by (induction "is" arbitrary: s) (auto simp: Let_def dest: stop split: prod.splits option.splits)
  show "pm_config (snd (start_wanted w ms s)) = pm_config s"
    by (induction ms arbitrary: s) (auto dest: start split: prod.splits option.splits)
  show "pm_config (snd (restore_stops w D is s)) = pm_config s"
    by (induction "is" arbitrary: s) (auto simp: Let_def dest: stop split: prod.splits, (metis snd_conv stop)+)
  show "pm_config (snd (restore_starts w ms s)) = pm_config s"
    by (induction ms arbitrary: s) (auto dest: start split: prod.splits, (metis snd_conv start)+)
  show "pm_config (stop_all_loop w is s) = pm_config s"
    by (induction "is" arbitrary: s) (simp_all add: Let_def)
qed

lemma switch_config [simp]:
  "pm_config (snd (switch_mode w mode s)) = pm_config s"
proof -
  have stops: "pm_config s1 = pm_config s" if "restore_stops w D js s = (ok, s1)" for D js s ok s1
    using loops_config(3) [of w D js s] that by simp
  have starts: "pm_config s1 = pm_config s" if "restore_starts w ms s = (ok, s1)" for ms s ok s1
    using loops_config(4) [of w ms s] that by simp
  have restore: "pm_config s1 = pm_config s" if "restore_previous_mode w previous s = (ok, s1)" for previous s ok s1
    using that by (auto simp: restore_previous_mode_def stops starts split: prod.splits)
  have "pm_config (snd (fail_switch w previous e s)) = pm_config s" for previous e s
    by (auto simp: fail_switch_def restore split: prod.splits)
  moreover have "pm_config s1 = pm_config s" if "stop_unwanted w D js s = (e, s1)" for D js s e s1
    using loops_config(1) [of w D js s] that by simp
  moreover have "pm_config s1 = pm_config s" if "start_wanted w ms s = (e, s1)" for ms s e s1
    using loops_config(2) [of w ms s] that by simp
  ultimately show ?thesis
    by (auto simp: switch_mode_def Let_def split: option.splits prod.splits)
qed

lemma named_config [simp]:
  "pm_config (snd (switch_mode_named w n s)) = pm_config s"
  "pm_config (snd (start_module_named w n s)) = pm_config s"
  "pm_config (snd (stop_module_named w n s)) = pm_config s"
  "pm_config (snd (restart_module w n s)) = pm_config s"
  "pm_config (stop_all w s) = pm_config s"
  "pm_config (snd (reload w s)) = pm_config s"
proof -
  have start: "pm_config (snd (start_module_named w n s)) = pm_config s" for s
    by (simp add: start_module_named_def split: option.splits)
  have stop: "pm_config (snd (stop_module_named w n s)) = pm_config s"
    by (simp add: stop_module_named_def split: option.splits)
  show "pm_config (snd (restart_module w n s)) = pm_config s"
    using stop start by (auto simp: restart_module_def split: prod.splits option.splits)
  show sw: "pm_config (snd (switch_mode_named w n s)) = pm_config s" for n s
    by (simp add: switch_mode_named_def split: option.splits)
  show all: "pm_config (stop_all w s) = pm_config s"
    by (simp add: stop_all_def)
  show "pm_config (snd (reload w s)) = pm_config s"
    by (simp add: reload_def Let_def sw all)
qed (simp_all add: start_module_named_def stop_module_named_def split: option.splits)

lemma handle_exit_config [simp]: "pm_config (handle_exit s d) = pm_config s"
  by (simp add: handle_exit_def Let_def split: option.splits prod.splits)

lemma restart_one_config [simp]: "pm_config (restart_one w now wall i s) = pm_config s"
  by (auto simp: restart_one_def Let_def split: option.splits prod.splits)

lemma reap_exited_config [simp]: "pm_config (reap_exited w ds now wall s) = pm_config s"
proof -
  have "pm_config (fold (restart_one w now wall) is s) = pm_config s" for "is" s
    by (induction "is" arbitrary: s) simp_all
  moreover have "pm_config (foldl handle_exit s ds) = pm_config s" for s
    by (induction ds arbitrary: s) simp_all
  ultimately show ?thesis by (simp add: reap_exited_def restart_pending_def)
qed

lemma supervised_config: "supervised w c s \<Longrightarrow> pm_config s = c"
  by (induction rule: supervised.induct) (simp_all add: new_manager_def)

section \<open>What a restart costs\<close>

text \<open>The process at an index, after a child died and after restarts came due.\<close>

lemma exit_process_desired:
  "pr_desired (fst (exit_process window now pid st wall p)) = pr_desired p"
  by (simp add: exit_process_def Let_def mark_failed_def)

lemma handle_exit_at:
  assumes "i < length (pm_processes s)"
  obtains (other) "pm_processes (handle_exit s d) ! i = pm_processes s ! i"
  | (died) "pr_pid (pm_processes s ! i) = dc_pid d"
      "pm_processes (handle_exit s d) ! i =
        fst (exit_process (restart_window s) (dc_now d) (dc_pid d) (dc_status d) (dc_wall_ms d) (pm_processes s ! i))"
proof (cases "List.find (\<lambda>p. pr_pid p = dc_pid d) (pm_processes s)")
  case (Some p)
  then obtain j where j: "j < length (pm_processes s)" "pm_processes s ! j = p" "pr_pid p = dc_pid d"
    "\<And>q. update_first (\<lambda>r. pr_pid r = dc_pid d) (\<lambda>_. q) (pm_processes s) = (pm_processes s)[j := q]"
    by (rule find_update) blast
  have u: "pm_processes (handle_exit s d) = (pm_processes s)[j :=
      fst (exit_process (restart_window s) (dc_now d) (dc_pid d) (dc_status d) (dc_wall_ms d) p)]"
    using Some j(4) by (simp add: handle_exit_def Let_def split: prod.splits)
  show ?thesis
  proof (cases "j = i")
    case True
    with j u assms died show ?thesis by simp
  qed (use u other in simp)
qed (use other in \<open>simp add: handle_exit_def\<close>)

lemma handle_exit_length [simp]: "length (pm_processes (handle_exit s d)) = length (pm_processes s)"
  by (simp add: handle_exit_def Let_def split: option.splits prod.splits)

lemma start_process_keeps:
  "start_process outcome p = (e, q) \<Longrightarrow> pr_restart_times q = pr_restart_times p \<and> pr_config q = pr_config p"
  by (cases outcome) (auto simp: start_process_def Let_def)

lemma restart_one_at:
  "pr_restart_times (pm_processes (restart_one w now wall j s) ! i) = pr_restart_times (pm_processes s ! i)"
  "pr_config (pm_processes (restart_one w now wall j s) ! i) = pr_config (pm_processes s ! i)"
proof -
  have "pr_restart_times (pm_processes (restart_one w now wall j s) ! i) = pr_restart_times (pm_processes s ! i) \<and>
    pr_config (pm_processes (restart_one w now wall j s) ! i) = pr_config (pm_processes s ! i)"
    by (cases "i = j"; cases "j < length (pm_processes s)")
      (auto simp: restart_one_def Let_def mark_failed_def list_update_beyond not_less
        dest!: start_process_keeps split: option.splits prod.splits)
  then show "pr_restart_times (pm_processes (restart_one w now wall j s) ! i) = pr_restart_times (pm_processes s ! i)"
    "pr_config (pm_processes (restart_one w now wall j s) ! i) = pr_config (pm_processes s ! i)" by simp_all
qed

lemma restart_pending_at:
  "pr_restart_times (pm_processes (restart_pending w now wall s) ! i) = pr_restart_times (pm_processes s ! i)"
  "pr_config (pm_processes (restart_pending w now wall s) ! i) = pr_config (pm_processes s ! i)"
  "length (pm_processes (restart_pending w now wall s)) = length (pm_processes s)"
proof -
  have "pr_restart_times (pm_processes (fold (restart_one w now wall) js s) ! i) = pr_restart_times (pm_processes s ! i) \<and>
    pr_config (pm_processes (fold (restart_one w now wall) js s) ! i) = pr_config (pm_processes s ! i)" for js
    by (induction js arbitrary: s) (simp_all add: restart_one_at)
  moreover have len: "length (pm_processes (restart_one w now wall j s)) = length (pm_processes s)" for j s
    by (simp add: restart_one_def Let_def split: option.splits prod.splits)
  have "length (pm_processes (fold (restart_one w now wall) js s)) = length (pm_processes s)" for js
    by (induction js arbitrary: s) (simp_all add: len)
  ultimately show
    "pr_restart_times (pm_processes (restart_pending w now wall s) ! i) = pr_restart_times (pm_processes s ! i)"
    "pr_config (pm_processes (restart_pending w now wall s) ! i) = pr_config (pm_processes s ! i)"
    "length (pm_processes (restart_pending w now wall s)) = length (pm_processes s)"
    by (simp_all add: restart_pending_def)
qed

section \<open>The budget of restarts\<close>

text \<open>
  One pass of the supervisor reaps the children that died and starts what is due; a run is a list of
  passes. The times at which a run schedules restarts of the process at an index are those of the
  deaths that leave it waiting for one.
\<close>

type_synonym reaping = "dead_child list \<times> int \<times> (nat \<Rightarrow> int)"

fun restart_log :: "nat \<Rightarrow> process_manager \<Rightarrow> dead_child list \<Rightarrow> int list" where
  "restart_log i s [] = []"
| "restart_log i s (d # ds) = (let s' = handle_exit s d in
     (if pr_pid (pm_processes s ! i) = dc_pid d \<and> pr_restart_pending (pm_processes s' ! i) then [dc_now d] else [])
     @ restart_log i s' ds)"

fun restarts_of :: "world \<Rightarrow> nat \<Rightarrow> reaping list \<Rightarrow> process_manager \<Rightarrow> int list" where
  "restarts_of w i [] s = []"
| "restarts_of w i ((ds, now, wall) # es) s =
     restart_log i s ds @ restarts_of w i es (reap_exited w ds now wall s)"

definition in_window :: "int \<Rightarrow> int \<Rightarrow> int list \<Rightarrow> nat" where
  "in_window window t ts = length (filter (\<lambda>x. t \<le> x \<and> x \<le> t + window) ts)"

text \<open>
  At a time \<open>T\<close>, the restarts so far are those the code has forgotten, all of them more than a window
  ago, and those it remembers; no window holds more than the limit.
\<close>

definition within_budget :: "int \<Rightarrow> int \<Rightarrow> int list \<Rightarrow> process_record \<Rightarrow> bool" where
  "within_budget window T log p \<longleftrightarrow>
     (\<exists>old. log = old @ pr_restart_times p \<and> (\<forall>x \<in> set old. window < T - x)) \<and>
     length (pr_restart_times p) \<le> nat (mc_restart_limit (pr_config p)) \<and>
     (\<forall>t. in_window window t log \<le> nat (mc_restart_limit (pr_config p)))"

lemma in_window_append: "in_window window t (xs @ ys) = in_window window t xs + in_window window t ys"
  by (simp add: in_window_def)

lemma in_window_le: "in_window window t xs \<le> length xs"
  by (simp add: in_window_def)

lemma in_window_none: "(\<And>x. x \<in> set xs \<Longrightarrow> x < t) \<Longrightarrow> in_window window t xs = 0"
  by (fastforce simp: in_window_def filter_empty_conv)

lemma within_budget_cong:
  "pr_restart_times q = pr_restart_times p \<Longrightarrow> pr_config q = pr_config p \<Longrightarrow>
    within_budget window T log p \<Longrightarrow> T \<le> n \<Longrightarrow> within_budget window n log q"
  by (fastforce simp: within_budget_def)

text \<open>Forgetting what left the window, and remembering one more restart when that leaves room.\<close>

lemma within_budget_forget:
  assumes "within_budget window T log p" "T \<le> n"
    "pr_restart_times q = recent_restarts window n (pr_restart_times p)" "pr_config q = pr_config p"
  shows "within_budget window n log q"
proof -
  let ?gone = "takeWhile (\<lambda>t. n - t > window) (pr_restart_times p)"
  obtain old where old: "log = old @ pr_restart_times p" "\<And>x. x \<in> set old \<Longrightarrow> window < T - x"
    using assms(1) by (auto simp: within_budget_def)
  have "log = (old @ ?gone) @ pr_restart_times q"
    using old(1) assms(3) by (simp add: recent_restarts_def)
  moreover have "window < n - x" if "x \<in> set (old @ ?gone)" for x
    using that old(2) [of x] assms(2) by (auto dest: set_takeWhileD)
  moreover have "length (pr_restart_times q) \<le> length (pr_restart_times p)"
    using assms(3) recent_restarts_suffix by simp
  ultimately show ?thesis
    using assms(1,4) unfolding within_budget_def by auto
qed

lemma within_budget_remember:
  assumes "within_budget window n log p" "length (pr_restart_times p) < nat (mc_restart_limit (pr_config p))"
    "pr_restart_times q = pr_restart_times p @ [n]" "pr_config q = pr_config p"
  shows "within_budget window n (log @ [n]) q"
proof -
  let ?L = "nat (mc_restart_limit (pr_config p))"
  obtain old where old: "log = old @ pr_restart_times p" "\<And>x. x \<in> set old \<Longrightarrow> window < n - x"
    using assms(1) by (auto simp: within_budget_def)
  have "in_window window t (log @ [n]) \<le> ?L" for t
  proof (cases "t \<le> n \<and> n \<le> t + window")
    case True
    then have "in_window window t old = 0"
      using old(2) by (intro in_window_none) fastforce
    then have "in_window window t (log @ [n]) = in_window window t (pr_restart_times p @ [n])"
      by (simp add: old(1) in_window_append)
    also have "\<dots> \<le> length (pr_restart_times p @ [n])" by (rule in_window_le)
    finally show ?thesis using assms(2) by simp
  next
    case False
    then have "in_window window t (log @ [n]) = in_window window t log"
      by (simp add: in_window_append) (simp add: in_window_def)
    then show ?thesis using assms(1) by (simp add: within_budget_def)
  qed
  then show ?thesis
    using old assms(2-4) unfolding within_budget_def by auto
qed

lemma within_budget_exit:
  assumes b: "within_budget window T log p" and T: "T \<le> n" and p: "\<not> pr_restart_pending p"
    and r: "fst (exit_process window n pid st wall p) = q"
  shows "within_budget window n (log @ (if pr_restart_pending q then [n] else [])) q"
proof (cases "pr_desired p")
  case False
  then show ?thesis
    using p r within_budget_cong [OF _ _ b T, of q] by (auto simp: exit_process_def Let_def)
next
  case True
  let ?p1 = "p\<lparr>pr_restart_times := recent_restarts window n (pr_restart_times p)\<rparr>"
  have p1: "within_budget window n log ?p1"
    by (rule within_budget_forget [OF b T]) simp_all
  show ?thesis
  proof (cases "int (length (pr_restart_times ?p1)) \<ge> mc_restart_limit (pr_config p)")
    case full: True
    then have "pr_restart_times q = pr_restart_times ?p1" "pr_config q = pr_config p" "\<not> pr_restart_pending q"
      using True r by (auto simp: exit_process_def Let_def mark_failed_def)
    then show ?thesis
      using within_budget_cong [OF _ _ p1, of q n] by simp
  next
    case room: False
    then have "pr_restart_times q = pr_restart_times ?p1 @ [n]" "pr_config q = pr_config p" "pr_restart_pending q"
      using True r by (auto simp: exit_process_def Let_def)
    then show ?thesis
      using within_budget_remember [OF p1, of q] room by simp
  qed
qed

lemma budget_handle_exit:
  assumes ok: "manager_ok s" and i: "i < length (pm_processes s)" and pid: "dc_pid d \<noteq> 0" and T: "T \<le> dc_now d"
    and b: "within_budget (restart_window s) T log (pm_processes s ! i)"
  shows "within_budget (restart_window s) (dc_now d) (log @ restart_log i s [d]) (pm_processes (handle_exit s d) ! i)"
proof -
  have pok: "process_ok (pm_processes s ! i)" by (rule manager_ok_nth [OF ok i])
  from i show ?thesis
  proof (cases rule: handle_exit_at [where d = d])
    case other
    have "restart_log i s [d] = []"
      using pok pid other by (auto simp: Let_def process_ok_def)
    with other show ?thesis
      using within_budget_cong [OF refl refl b T] by simp
  next
    case died
    then have "\<not> pr_restart_pending (pm_processes s ! i)"
      using pok pid by (auto simp: process_ok_def)
    from within_budget_exit [OF b T this died(2) [symmetric]] died(1) show ?thesis
      by (simp add: Let_def)
  qed
qed

lemma restart_window_config: "pm_config s' = pm_config s \<Longrightarrow> restart_window s' = restart_window s"
  by (simp add: restart_window_def)

lemma budget_deaths:
  assumes "manager_ok s" "i < length (pm_processes s)" "list_all (\<lambda>d. 0 < dc_pid d) ds"
    "sorted (T # map dc_now ds)" "within_budget (restart_window s) T log (pm_processes s ! i)"
  shows "within_budget (restart_window s) (last (T # map dc_now ds)) (log @ restart_log i s ds)
    (pm_processes (foldl handle_exit s ds) ! i)" "manager_ok (foldl handle_exit s ds)"
    "length (pm_processes (foldl handle_exit s ds)) = length (pm_processes s)"
    "pm_config (foldl handle_exit s ds) = pm_config s"
proof -
  have "within_budget (restart_window s) (last (T # map dc_now ds)) (log @ restart_log i s ds)
    (pm_processes (foldl handle_exit s ds) ! i) \<and> manager_ok (foldl handle_exit s ds) \<and>
    length (pm_processes (foldl handle_exit s ds)) = length (pm_processes s) \<and>
    pm_config (foldl handle_exit s ds) = pm_config s"
    using assms
  proof (induction ds arbitrary: s T log)
    case (Cons d ds)
    let ?s = "handle_exit s d"
    have ok: "manager_ok ?s" using Cons.prems(1,3) by (intro handle_exit_ok) auto
    have w: "restart_window ?s = restart_window s" by (simp add: restart_window_def)
    have "within_budget (restart_window ?s) (dc_now d) (log @ restart_log i s [d]) (pm_processes ?s ! i)"
      using budget_handle_exit [OF Cons.prems(1,2) _ _ Cons.prems(5), of d] Cons.prems(3,4) w by simp
    from Cons.IH [OF ok _ _ _ this] Cons.prems(2,3,4) w show ?case
      by (simp add: Let_def split: if_splits)
  qed simp
  then show "within_budget (restart_window s) (last (T # map dc_now ds)) (log @ restart_log i s ds)
    (pm_processes (foldl handle_exit s ds) ! i)" "manager_ok (foldl handle_exit s ds)"
    "length (pm_processes (foldl handle_exit s ds)) = length (pm_processes s)"
    "pm_config (foldl handle_exit s ds) = pm_config s" by simp_all
qed

lemma sorted_join: "sorted (T # xs @ ys) \<Longrightarrow> sorted (T # xs) \<and> sorted (last (T # xs) # ys)"
proof (induction xs arbitrary: T)
  case (Cons x xs)
  then show ?case by (cases "xs = []") auto
qed simp

lemma budget_run:
  assumes "spawns_processes w" "manager_ok s" "i < length (pm_processes s)"
    "list_all (\<lambda>d. 0 < dc_pid d) (concat (map fst es))" "sorted (T # map dc_now (concat (map fst es)))"
    "within_budget (restart_window s) T log (pm_processes s ! i)"
  shows "in_window (restart_window s) t (log @ restarts_of w i es s)
    \<le> nat (mc_restart_limit (pr_config (pm_processes s ! i)))"
  using assms(2-)
proof (induction es arbitrary: s T log)
  case Nil
  then show ?case by (simp add: within_budget_def)
next
  case (Cons e es)
  obtain ds now wall where e: "e = (ds, now, wall)" by (cases e)
  let ?s1 = "foldl handle_exit s ds"
  let ?s2 = "reap_exited w ds now wall s"
  let ?T = "last (T # map dc_now ds)"
  have ds: "list_all (\<lambda>d. 0 < dc_pid d) ds" "list_all (\<lambda>d. 0 < dc_pid d) (concat (map fst es))"
    using Cons.prems(3) e by simp_all
  have times: "sorted (T # map dc_now ds)" "sorted (?T # map dc_now (concat (map fst es)))"
  proof -
    have "sorted (T # map dc_now ds @ map dc_now (concat (map fst es)))"
      using Cons.prems(4) unfolding e by (simp only: list.map concat.simps fst_conv map_append)
    from sorted_join [OF this] show "sorted (T # map dc_now ds)" "sorted (?T # map dc_now (concat (map fst es)))"
      by simp_all
  qed
  note d = budget_deaths [OF Cons.prems(1,2) ds(1) times(1) Cons.prems(5)]
  have s2: "?s2 = restart_pending w now wall ?s1" by (simp add: reap_exited_def)
  have ok: "manager_ok ?s2" using restart_pending_ok [OF d(2) assms(1)] s2 by simp
  have W: "restart_window ?s2 = restart_window s" by (rule restart_window_config) simp
  have conf: "pr_config (pm_processes ?s2 ! i) = pr_config (pm_processes s ! i)"
  proof -
    have "pr_config (pm_processes t ! i) = rc_modules (pm_config t) ! i"
      if "manager_ok t" "i < length (pm_processes t)" for t
      using that by (metis manager_ok_def nth_map)
    from this [OF ok] this [OF Cons.prems(1,2)] show ?thesis
      using d(3) Cons.prems(2) reap_exited_config [of w ds now wall s] unfolding s2 by (simp add: restart_pending_at(3))
  qed
  have "within_budget (restart_window ?s2) ?T (log @ restart_log i s ds) (pm_processes ?s2 ! i)"
    using within_budget_cong [OF _ _ d(1) order_refl] W s2 restart_pending_at by simp
  from Cons.IH [OF ok _ ds(2) times(2) this] show ?case
    using Cons.prems(2) d(3) s2 restart_pending_at(3) W conf e by simp
qed

text \<open>
  C14: a crash loop is cut off. From any state the supervisor can be in, while no command changes what is
  wanted, the times at which a module's restarts are scheduled have at most \<open>restart_limit\<close> in every
  window of \<open>restart_window_seconds\<close>, the window measured from any instant, however its processes die, however
  fast, and whatever starting them answers. The clock that times the deaths is steady.
\<close>

theorem restarts_within_budget:
  assumes "spawns_processes w" "supervised w c s" "i < length (pm_processes s)"
    "list_all (\<lambda>d. 0 < dc_pid d) (concat (map fst es))" "sorted (map dc_now (concat (map fst es)))"
  shows "in_window (rc_restart_window_seconds c * 1000000000) t (restarts_of w i es s)
    \<le> nat (mc_restart_limit (rc_modules c ! i))"
proof -
  have ok: "manager_ok s" by (rule supervised_ok [OF assms(1,2)])
  have c: "pm_config s = c" by (rule supervised_config [OF assms(2)])
  have conf: "pr_config (pm_processes s ! i) = rc_modules c ! i"
    using ok c assms(3) by (metis manager_ok_def nth_map)
  let ?p = "pm_processes s ! i"
  have "length (pr_restart_times ?p) \<le> nat (mc_restart_limit (pr_config ?p))"
    using manager_ok_nth [OF ok assms(3)] by (auto simp: process_ok_def max_def split: if_splits)
  then have b: "within_budget (restart_window s) T (pr_restart_times ?p) ?p" for T
    using le_trans [OF in_window_le] by (simp add: within_budget_def)
  obtain T where "sorted (T # map dc_now (concat (map fst es)))"
  proof (cases "map dc_now (concat (map fst es))")
    case (Cons T ts)
    with assms(5) that [of T] show ?thesis by simp
  next
    case Nil
    show ?thesis by (rule that [of 0]) (unfold Nil, simp)
  qed
  from budget_run [OF assms(1) ok assms(3,4) this b, of t] show ?thesis
    using conf c by (simp add: restart_window_def in_window_append)
qed

definition crash_world :: world where
  "crash_world = \<lparr> w_starts = (\<lambda>n. Started (int n + 100) 0),
     w_stops = (\<lambda>n. \<lparr> so_injected = False, so_term = Kill_Sent, so_polls = [Still_Running, Reaped (Exited 0)],
       so_kill = Kill_Sent, so_last_wait = Gone \<rparr>) \<rparr>"

definition crash_loop :: "reaping list" where
  "crash_loop = map (\<lambda>k. ([\<lparr> dc_pid = int k + 100, dc_status = Signaled 11 True, dc_now = int k * 2000000000,
     dc_wall_ms = 0, dc_report_ms = 0 \<rparr>], int k * 2000000000 + 1500000000, \<lambda>i. 0)) [0..<6]"

lemma crash_loop_restarts:
  "restarts_of crash_world 0 crash_loop (snd (start_module_named crash_world ''transfer'' (new_manager default_run_config)))
    = [0, 2000000000, 4000000000]"
  by code_simp

lemma restarts_within_budget_witness:
  "in_window 30000000000 0 [0, 2000000000, 4000000000] \<le> nat 3"
proof -
  let ?s = "snd (start_module_named crash_world ''transfer'' (new_manager default_run_config))"
  have w: "spawns_processes crash_world" by (simp add: spawns_processes_def crash_world_def)
  have s: "supervised crash_world default_run_config ?s" by (intro supervised.intros)
  have "0 < length (pm_processes ?s)" "list_all (\<lambda>d. 0 < dc_pid d) (concat (map fst crash_loop))"
    "sorted (map dc_now (concat (map fst crash_loop)))"
    "mc_restart_limit (rc_modules default_run_config ! 0) = 3" "rc_restart_window_seconds default_run_config = 30"
    by code_simp+
  from restarts_within_budget [OF w s this(1-3), of 0] this(4,5) show ?thesis
    unfolding crash_loop_restarts by simp
qed

text \<open>
  C25: whatever is asked of the supervisor and however its processes behave, what it shows of a module is
  what it keeps of its process: it runs exactly when there is a process id to signal, it waits for a restart
  exactly when one is pending, which is only so while it is wanted, and it remembers no more restarts than
  its limit. The modules stay those of the configuration, in its order.
\<close>

theorem supervisor_state_true:
  assumes "spawns_processes w" "supervised w c s"
  shows "map pr_config (pm_processes s) = rc_modules c \<and>
    (\<forall>p \<in> set (pm_processes s). (pr_pid p \<noteq> 0 \<longleftrightarrow> pr_state p = PsRunning) \<and>
       (pr_restart_pending p \<longleftrightarrow> pr_state p = PsRestarting) \<and> (pr_restart_pending p \<longrightarrow> pr_desired p) \<and>
       int (length (pr_restart_times p)) \<le> max 0 (mc_restart_limit (pr_config p)))"
  using supervised_ok [OF assms] supervised_config [OF assms(2)]
  by (auto simp: manager_ok_def process_ok_def list_all_iff)

definition crashed_manager :: process_manager where
  "crashed_manager = reap_exited crash_world [\<lparr> dc_pid = 100, dc_status = Exited 1, dc_now = 7, dc_wall_ms = 0,
     dc_report_ms = 0 \<rparr>] 8 (\<lambda>i. 0)
     (snd (start_module_named crash_world ''transfer'' (new_manager default_run_config)))"

lemma supervisor_state_true_witness:
  "pr_state (hd (pm_processes crashed_manager)) = PsRestarting \<and> pr_desired (hd (pm_processes crashed_manager))"
proof -
  have w: "spawns_processes crash_world" by (simp add: spawns_processes_def crash_world_def)
  have s: "supervised crash_world default_run_config crashed_manager"
    unfolding crashed_manager_def by (intro supervised.intros) simp
  have p: "pm_processes crashed_manager \<noteq> []" "pr_state (hd (pm_processes crashed_manager)) = PsRestarting"
    by code_simp+
  then have "hd (pm_processes crashed_manager) \<in> set (pm_processes crashed_manager)" by simp
  with supervisor_state_true [OF w s] p show ?thesis by blast
qed

end
