(* ===== verification/Mode_Switch.thy ===== *)
theory Mode_Switch
  imports Process_Safety
begin

text \<open>
  The switch of the run mode, \<open>ProcessManager::SwitchMode\<close>: it stops what the new mode does not have, starts
  what it has, and puts the old set of modules back when one of these fails. The lemmas follow the two
  sets a switch moves, the modules that are wanted and those that run, through its loops.
\<close>

section \<open>The modules that are wanted, and the ones that run\<close>

definition wanted :: "process_manager \<Rightarrow> module_id set" where
  "wanted s = set (desired_modules s)"

definition live :: "process_manager \<Rightarrow> module_id set" where
  "live s = {pr_id p |p. p \<in> set (pm_processes s) \<and> pr_state p = PsRunning}"

definition no_injected_failure :: "world \<Rightarrow> bool" where
  "no_injected_failure w \<longleftrightarrow> (\<forall>n. \<not> so_injected (w_stops w n))"

lemma wanted_nth: "wanted s = {pr_id (pm_processes s ! j) |j. j < length (pm_processes s) \<and> pr_desired (pm_processes s ! j)}"
  by (auto simp: wanted_def desired_modules_def in_set_conv_nth image_iff)

lemma live_nth: "live s = {pr_id (pm_processes s ! j) |j. j < length (pm_processes s) \<and> pr_state (pm_processes s ! j) = PsRunning}"
  by (auto simp: live_def in_set_conv_nth)

lemma sets_update:
  assumes "distinct (process_ids s)" "i < length (pm_processes s)" "pr_id (pm_processes s ! i) = m"
    "pm_processes s' = (pm_processes s)[i := q]" "pr_config q = pr_config (pm_processes s ! i)"
  shows "wanted s' = (if pr_desired q then insert m (wanted s) else wanted s - {m})"
    "live s' = (if pr_state q = PsRunning then insert m (live s) else live s - {m})"
    "process_ids s' = process_ids s"
proof -
  have other: "pr_id (pm_processes s ! j) \<noteq> m" if "j < length (pm_processes s)" "j \<noteq> i" for j
    using assms(1-3) that by (auto simp: process_ids_def distinct_conv_nth)
  have id: "pr_id ((pm_processes s)[i := q] ! j) = pr_id (pm_processes s ! j)" if "j < length (pm_processes s)" for j
    using that assms(5) by (cases "j = i") simp_all
  show "process_ids s' = process_ids s"
    using id by (simp add: process_ids_def assms(4) list_eq_iff_nth_eq)
  show "wanted s' = (if pr_desired q then insert m (wanted s) else wanted s - {m})"
    using other assms(2-5) unfolding wanted_nth
    by (auto simp: nth_list_update split: if_splits) (metis nth_list_update_neq nth_list_update_eq)+
  show "live s' = (if pr_state q = PsRunning then insert m (live s) else live s - {m})"
    using other assms(2-5) unfolding live_nth
    by (auto simp: nth_list_update split: if_splits) (metis nth_list_update_neq nth_list_update_eq)+
qed

text \<open>What every step of a switch leaves as it was.\<close>

definition switching :: "process_manager \<Rightarrow> process_manager \<Rightarrow> bool" where
  "switching s s' \<longleftrightarrow> manager_ok s' \<and> process_ids s' = process_ids s \<and> pm_mode s' = pm_mode s \<and>
     pm_config s' = pm_config s"

lemma switching_refl: "manager_ok s \<Longrightarrow> switching s s"
  by (simp add: switching_def)

lemma switching_trans: "switching s t \<Longrightarrow> switching t u \<Longrightarrow> switching s u"
  by (simp add: switching_def)

lemma start_step:
  assumes w: "spawns_processes w" and ok: "manager_ok s" and dist: "distinct (process_ids s)"
    and m: "m \<in> set (process_ids s)" and r: "start_module w m s = (e, s')"
  shows "switching s s'" "wanted s' = insert m (wanted s)" "live s \<subseteq> live s'" "e = None \<Longrightarrow> m \<in> live s'"
proof -
  obtain i q where q: "i < length (pm_processes s)" "pr_id (pm_processes s ! i) = m"
    "pm_processes s' = (pm_processes s)[i := q]" "pm_config s' = pm_config s" "pm_mode s' = pm_mode s"
    "process_ok q" "pr_config q = pr_config (pm_processes s ! i)" "pr_desired q"
    "e = None \<longleftrightarrow> pr_state q = PsRunning"
    using start_module_effect [OF ok w m r] by blast
  note u = sets_update [OF dist q(1-3,7)]
  show "switching s s'"
    using manager_ok_update [OF ok q(1,6,7,3,4)] u(3) q(4,5) by (simp add: switching_def)
  show "wanted s' = insert m (wanted s)" using u(1) q(8) by simp
  show "e = None \<Longrightarrow> m \<in> live s'" using u(2) q(9) by simp
  show "live s \<subseteq> live s'"
  proof (cases "m \<in> live s")
    case True
    then obtain j where "j < length (pm_processes s)" "pr_id (pm_processes s ! j) = m"
      "pr_state (pm_processes s ! j) = PsRunning"
      by (auto simp: live_nth)
    then have "pr_state (pm_processes s ! i) = PsRunning"
      using q(1,2) dist by (auto simp: process_ids_def distinct_conv_nth)
    moreover obtain p where p: "find_process s m = Some p"
      using m unfolding process_ids_def find_process_def
      by (cases "List.find (\<lambda>p. pr_id p = m) (pm_processes s)") (auto simp: find_None_iff)
    then obtain k where k: "k < length (pm_processes s)" "pm_processes s ! k = p" "pr_id p = m"
      by (rule find_process_at) blast
    then have "k = i"
      using q(1,2) dist by (auto simp: process_ids_def distinct_conv_nth)
    ultimately have "pr_state p = PsRunning" using k(2) by simp
    with r p have "e = None" by (simp add: start_module_def)
    with u(2) q(9) show ?thesis by auto
  qed (use u(2) in auto)
qed

lemma stop_step:
  assumes inj: "no_injected_failure w" and ok: "manager_ok s" and dist: "distinct (process_ids s)"
    and m: "m \<in> set (process_ids s)" and r: "stop_module w m s = (e, s')"
  shows "switching s s'" "wanted s' = wanted s - {m}" "live s - {m} \<subseteq> live s'"
proof -
  have "switching s s' \<and> wanted s' = wanted s - {m} \<and> live s - {m} \<subseteq> live s'"
    using ok m r
  proof (cases rule: stop_module_effect)
    case injected
    with inj show ?thesis by (simp add: no_injected_failure_def)
  next
    case (stopped i q)
    note u = sets_update [OF dist stopped(1-3,7)]
    have "switching s s'"
      using manager_ok_update [OF ok stopped(1,6,7,3,4)] u(3) stopped(4,5) by (simp add: switching_def)
    moreover have "live s - {m} \<subseteq> live s'"
      using u(2) by (cases "pr_state q = PsRunning") auto
    ultimately show ?thesis using u(1) stopped(8) by simp
  qed
  then show "switching s s'" "wanted s' = wanted s - {m}" "live s - {m} \<subseteq> live s'" by simp_all
qed

lemma desired_nth:
  "distinct (process_ids s) \<Longrightarrow> i < length (pm_processes s) \<Longrightarrow>
    pr_desired (pm_processes s ! i) \<longleftrightarrow> process_ids s ! i \<in> wanted s"
  by (auto simp: wanted_nth process_ids_def distinct_conv_nth)

section \<open>The loops of a switch\<close>

text \<open>
  A loop that stops modules at some indices leaves alone what is in \<open>D\<close>, and a loop that came to its end
  leaves wanted, of the indices it visited, only what is in \<open>D\<close>.
\<close>

definition stops_outside :: "module_id set \<Rightarrow> process_manager \<Rightarrow> process_manager \<Rightarrow> bool" where
  "stops_outside D s s' \<longleftrightarrow> switching s s' \<and> wanted s \<inter> D \<subseteq> wanted s' \<and> wanted s' \<subseteq> wanted s \<and>
     live s \<inter> D \<subseteq> live s'"

lemma stops_outside_refl: "manager_ok s \<Longrightarrow> stops_outside D s s"
  by (simp add: stops_outside_def switching_refl)

lemma stops_outside_trans: "stops_outside D s t \<Longrightarrow> stops_outside D t u \<Longrightarrow> stops_outside D s u"
  using switching_trans by (auto simp: stops_outside_def)

lemma stop_step_outside:
  assumes "no_injected_failure w" "manager_ok s" "distinct (process_ids s)" "i < length (pm_processes s)"
    "process_ids s ! i \<notin> D" "stop_module w (process_ids s ! i) s = (e, s')"
  shows "stops_outside D s s'" "process_ids s ! i \<notin> wanted s'"
proof -
  have "process_ids s ! i \<in> set (process_ids s)"
    using assms(4) by (simp add: process_ids_def)
  from stop_step [OF assms(1-3) this assms(6)] assms(5)
  show "stops_outside D s s'" "process_ids s ! i \<notin> wanted s'" by (auto simp: stops_outside_def)
qed

definition cleared :: "module_id set \<Rightarrow> nat list \<Rightarrow> process_manager \<Rightarrow> process_manager \<Rightarrow> bool" where
  "cleared D is s s' \<longleftrightarrow> (\<forall>i \<in> set is. process_ids s ! i \<in> wanted s' \<longrightarrow> process_ids s ! i \<in> D)"

lemma cleared_step:
  assumes "stops_outside D s t" "stops_outside D t u" "process_ids s ! i \<notin> wanted t \<or> process_ids s ! i \<in> D"
    "cleared D is t u"
  shows "cleared D (i # is) s u"
  using assms by (auto simp: cleared_def stops_outside_def switching_def)

lemma processes_length: "length (pm_processes s) = length (process_ids s)"
  by (simp add: process_ids_def)

lemma process_id_nth: "i < length (pm_processes s) \<Longrightarrow> pr_id (pm_processes s ! i) = process_ids s ! i"
  by (simp add: process_ids_def)

lemma stop_unwanted_effect:
  assumes "no_injected_failure w" "manager_ok s" "distinct (process_ids s)"
    "set is \<subseteq> {..<length (pm_processes s)}" "stop_unwanted w D is s = (e, s')"
  shows "stops_outside D s s' \<and> (e = None \<longrightarrow> cleared D is s s')"
  using assms(2-)
proof (induction "is" arbitrary: s)
  case Nil
  then show ?case by (simp add: stops_outside_refl cleared_def)
next
  case (Cons i js)
  let ?m = "process_ids s ! i"
  have i: "i < length (pm_processes s)" using Cons.prems(3) by simp
  show ?case
  proof (cases "?m \<in> wanted s \<and> ?m \<notin> D")
    case True
    obtain e1 s1 where s1: "stop_module w ?m s = (e1, s1)" by fastforce
    note st = stop_step_outside [OF assms(1) Cons.prems(1,2) i conjunct2 [OF True] s1]
    have s1_ok: "manager_ok s1" "distinct (process_ids s1)" "set js \<subseteq> {..<length (pm_processes s1)}"
      using st(1) Cons.prems(2,3) by (simp_all add: stops_outside_def switching_def processes_length)
    have r: "(e, s') = (case e1 of Some x \<Rightarrow> (e1, s1) | None \<Rightarrow> stop_unwanted w D js s1)"
      using Cons.prems(4) True s1 i desired_nth [OF Cons.prems(2) i]
      by (cases e1) (auto simp: Let_def process_id_nth)
    show ?thesis
    proof (cases e1)
      case None
      with r have "stop_unwanted w D js s1 = (e, s')" by simp
      from Cons.IH [OF s1_ok this] st show ?thesis
        using stops_outside_trans [OF st(1)] cleared_step [OF st(1), of s' i js] by blast
    qed (use r st(1) in simp)
  next
    case False
    have "stop_unwanted w D js s = (e, s')"
      using Cons.prems(4) False i desired_nth [OF Cons.prems(2) i] by (simp add: Let_def process_id_nth)
    moreover have "set js \<subseteq> {..<length (pm_processes s)}" using Cons.prems(3) by simp
    ultimately have IH: "stops_outside D s s'" "e = None \<longrightarrow> cleared D js s s'"
      using Cons.IH [OF Cons.prems(1,2)] by blast+
    from False have "?m \<notin> wanted s \<or> ?m \<in> D" by blast
    from cleared_step [OF stops_outside_refl [OF Cons.prems(1)] IH(1) this] IH show ?thesis by blast
  qed
qed

lemma restore_stops_effect:
  assumes "no_injected_failure w" "manager_ok s" "distinct (process_ids s)"
    "set is \<subseteq> {..<length (pm_processes s)}" "restore_stops w D is s = (ok, s')"
  shows "stops_outside D s s' \<and> cleared D is s s'"
  using assms(2-)
proof (induction "is" arbitrary: s ok)
  case Nil
  then show ?case by (simp add: stops_outside_refl cleared_def)
next
  case (Cons i js)
  let ?m = "process_ids s ! i"
  have i: "i < length (pm_processes s)" using Cons.prems(3) by simp
  show ?case
  proof (cases "?m \<in> wanted s \<and> ?m \<notin> D")
    case True
    obtain e1 s1 where s1: "stop_module w ?m s = (e1, s1)" by fastforce
    note st = stop_step_outside [OF assms(1) Cons.prems(1,2) i conjunct2 [OF True] s1]
    have s1_ok: "manager_ok s1" "distinct (process_ids s1)" "set js \<subseteq> {..<length (pm_processes s1)}"
      using st(1) Cons.prems(2,3) by (simp_all add: stops_outside_def switching_def processes_length)
    obtain ok1 where "restore_stops w D js s1 = (ok1, s')"
      using Cons.prems(4) True s1 i desired_nth [OF Cons.prems(2) i]
      by (auto simp: Let_def process_id_nth split: prod.splits)
    from Cons.IH [OF s1_ok this] st show ?thesis
      using stops_outside_trans [OF st(1)] cleared_step [OF st(1), of s' i js] by blast
  next
    case False
    have "restore_stops w D js s = (ok, s')"
      using Cons.prems(4) False i desired_nth [OF Cons.prems(2) i] by (simp add: Let_def process_id_nth)
    moreover have "set js \<subseteq> {..<length (pm_processes s)}" using Cons.prems(3) by simp
    ultimately have IH: "stops_outside D s s'" "cleared D js s s'"
      using Cons.IH [OF Cons.prems(1,2)] by blast+
    from False have "?m \<notin> wanted s \<or> ?m \<in> D" by blast
    from cleared_step [OF stops_outside_refl [OF Cons.prems(1)] IH(1) this] IH show ?thesis by blast
  qed
qed

text \<open>The loops that start modules.\<close>

definition starts_only :: "module_id set \<Rightarrow> process_manager \<Rightarrow> process_manager \<Rightarrow> bool" where
  "starts_only M s s' \<longleftrightarrow> switching s s' \<and> wanted s \<subseteq> wanted s' \<and> wanted s' \<subseteq> wanted s \<union> M \<and> live s \<subseteq> live s'"

lemma starts_only_refl: "manager_ok s \<Longrightarrow> starts_only M s s"
  by (simp add: starts_only_def switching_refl)

lemma starts_only_trans: "starts_only M s t \<Longrightarrow> starts_only M t u \<Longrightarrow> starts_only M s u"
  using switching_trans by (auto simp: starts_only_def)

lemma starts_only_mono: "starts_only M s t \<Longrightarrow> M \<subseteq> N \<Longrightarrow> starts_only N s t"
  by (auto simp: starts_only_def)

lemma start_step_only:
  assumes "spawns_processes w" "manager_ok s" "distinct (process_ids s)" "m \<in> set (process_ids s)"
    "start_module w m s = (e, s')"
  shows "starts_only {m} s s'" "m \<in> wanted s'" "e = None \<Longrightarrow> m \<in> live s'"
  using start_step [OF assms] by (auto simp: starts_only_def)

lemma restore_starts_effect:
  assumes "spawns_processes w" "manager_ok s" "distinct (process_ids s)" "set ms \<subseteq> set (process_ids s)"
    "restore_starts w ms s = (ok, s')"
  shows "starts_only (set ms) s s' \<and> set ms \<subseteq> wanted s' \<and> (ok \<longrightarrow> set ms \<subseteq> live s')"
  using assms(2-)
proof (induction ms arbitrary: s ok)
  case Nil
  then show ?case by (simp add: starts_only_refl)
next
  case (Cons m ms)
  obtain e s1 where s1: "start_module w m s = (e, s1)" by fastforce
  obtain ok1 where r: "restore_starts w ms s1 = (ok1, s')" "ok \<longleftrightarrow> e = None \<and> ok1"
    using Cons.prems(4) s1 by (auto split: prod.splits)
  have "m \<in> set (process_ids s)" using Cons.prems(3) by simp
  note st = start_step_only [OF assms(1) Cons.prems(1,2) this s1]
  have s1_ok: "manager_ok s1" "distinct (process_ids s1)" "set ms \<subseteq> set (process_ids s1)"
    using st(1) Cons.prems(2,3) by (simp_all add: starts_only_def switching_def)
  note IH = Cons.IH [OF s1_ok r(1)]
  have "starts_only (set (m # ms)) s s'"
    using starts_only_trans [OF starts_only_mono [OF st(1)] starts_only_mono [OF conjunct1 [OF IH]]] by auto
  moreover have "wanted s1 \<subseteq> wanted s'" "live s1 \<subseteq> live s'" using IH by (simp_all add: starts_only_def)
  ultimately show ?case using IH st(2,3) r(2) by auto
qed

lemma find_process_nth:
  assumes "distinct (process_ids s)" "m \<in> set (process_ids s)"
  obtains p where "find_process s m = Some p" "pr_desired p \<longleftrightarrow> m \<in> wanted s" "pr_state p = PsRunning \<longleftrightarrow> m \<in> live s"
proof -
  obtain p where p: "find_process s m = Some p"
    using assms(2) unfolding process_ids_def find_process_def
    by (cases "List.find (\<lambda>p. pr_id p = m) (pm_processes s)") (auto simp: find_None_iff)
  then obtain k where k: "k < length (pm_processes s)" "pm_processes s ! k = p" "pr_id p = m"
    by (rule find_process_at) blast
  have "pr_desired p \<longleftrightarrow> m \<in> wanted s" "pr_state p = PsRunning \<longleftrightarrow> m \<in> live s"
    using k assms(1) by (auto simp: wanted_nth live_nth process_ids_def distinct_conv_nth)
  with p that show ?thesis by blast
qed

lemma start_wanted_effect:
  assumes "spawns_processes w" "manager_ok s" "distinct (process_ids s)" "set ms \<subseteq> set (process_ids s)"
    "start_wanted w ms s = (e, s')"
  shows "starts_only (set ms) s s' \<and> (e = None \<longrightarrow> set ms \<subseteq> wanted s' \<inter> live s')"
  using assms(2-)
proof (induction ms arbitrary: s)
  case Nil
  then show ?case by (simp add: starts_only_refl)
next
  case (Cons m ms)
  have m: "m \<in> set (process_ids s)" using Cons.prems(3) by simp
  obtain p where p: "find_process s m = Some p" "pr_desired p \<longleftrightarrow> m \<in> wanted s" "pr_state p = PsRunning \<longleftrightarrow> m \<in> live s"
    by (rule find_process_nth [OF Cons.prems(2) m])
  show ?case
  proof (cases "m \<in> wanted s \<and> m \<in> live s")
    case True
    then have "start_wanted w ms s = (e, s')" using Cons.prems(4) p by simp
    moreover have "set ms \<subseteq> set (process_ids s)" using Cons.prems(3) by simp
    ultimately have IH: "starts_only (set ms) s s' \<and> (e = None \<longrightarrow> set ms \<subseteq> wanted s' \<inter> live s')"
      using Cons.IH [OF Cons.prems(1,2)] by blast
    have "wanted s \<subseteq> wanted s'" "live s \<subseteq> live s'" using IH by (simp_all add: starts_only_def)
    with IH True starts_only_mono [of "set ms" s s' "set (m # ms)"] show ?thesis by auto
  next
    case False
    obtain e1 s1 where s1: "start_module w m s = (e1, s1)" by fastforce
    note st = start_step_only [OF assms(1) Cons.prems(1,2) m s1]
    have s1_ok: "manager_ok s1" "distinct (process_ids s1)" "set ms \<subseteq> set (process_ids s1)"
      using st(1) Cons.prems(2,3) by (simp_all add: starts_only_def switching_def)
    have r: "(e, s') = (case e1 of Some x \<Rightarrow> (e1, s1) | None \<Rightarrow> start_wanted w ms s1)"
      using Cons.prems(4) False p s1 by (cases e1) auto
    have st1: "starts_only (set (m # ms)) s s1" by (rule starts_only_mono [OF st(1)]) simp
    show ?thesis
    proof (cases e1)
      case None
      with r have "start_wanted w ms s1 = (e, s')" by simp
      note IH = Cons.IH [OF s1_ok this]
      have "starts_only (set (m # ms)) s1 s'" by (rule starts_only_mono [OF conjunct1 [OF IH]]) auto
      moreover have "wanted s1 \<subseteq> wanted s'" "live s1 \<subseteq> live s'" using IH by (simp_all add: starts_only_def)
      ultimately show ?thesis using IH st(2,3) starts_only_trans [OF st1] None by auto
    qed (use r st1 in simp)
  qed
qed

section \<open>A switch happens, or is undone\<close>

lemma restore_previous_effect:
  assumes "spawns_processes w" "no_injected_failure w" "manager_ok s" "distinct (process_ids s)"
    "set previous \<subseteq> set (process_ids s)" "restore_previous_mode w previous s = (ok, s')"
  shows "switching s s' \<and> wanted s' = set previous \<and> (ok \<longrightarrow> set previous \<subseteq> live s')"
proof -
  obtain ok1 s1 where s1: "restore_stops w (set previous) (reverse_indices s) s = (ok1, s1)" by fastforce
  obtain ok2 where s2: "restore_starts w previous s1 = (ok2, s')" "ok \<longleftrightarrow> ok1 \<and> ok2"
    using assms(6) s1 by (auto simp: restore_previous_mode_def split: prod.splits)
  have "set (reverse_indices s) \<subseteq> {..<length (pm_processes s)}" by (auto simp: reverse_indices_def)
  from restore_stops_effect [OF assms(2-4) this s1]
  have stops: "stops_outside (set previous) s s1" "cleared (set previous) (reverse_indices s) s s1" by simp_all
  have s1_ok: "manager_ok s1" "process_ids s1 = process_ids s"
    using stops(1) by (simp_all add: stops_outside_def switching_def)
  have "m \<in> set previous" if m: "m \<in> wanted s1" for m
  proof -
    have "m \<in> set (process_ids s1)" using m by (auto simp: wanted_nth process_ids_def)
    then obtain i where "i < length (pm_processes s)" "process_ids s ! i = m"
      unfolding s1_ok(2) by (auto simp: in_set_conv_nth processes_length)
    with stops(2) m show ?thesis by (auto simp: cleared_def reverse_indices_def)
  qed
  then have only: "wanted s1 \<subseteq> set previous" by blast
  have "starts_only (set previous) s1 s' \<and> set previous \<subseteq> wanted s' \<and> (ok2 \<longrightarrow> set previous \<subseteq> live s')"
    using restore_starts_effect [OF assms(1) s1_ok(1) _ _ s2(1)] assms(4,5) s1_ok(2) by simp
  then show ?thesis
    using only s2(2) stops(1) switching_trans by (auto simp: starts_only_def stops_outside_def)
qed

lemma find_ids: "validate_run_config c = None \<Longrightarrow> spawns_processes w \<Longrightarrow> supervised w c s \<Longrightarrow>
    manager_ok s \<and> process_ids s = map mc_id (rc_modules c) \<and> distinct (process_ids s) \<and> pm_config s = c"
  using supervised_ok [of w c s] supervised_config [of w c s] valid_config_modules(1) [of c]
  by (auto simp: manager_ok_def process_ids_def comp_def dest: arg_cong [where f = "map mc_id"])

lemma fail_switch_effect:
  assumes "spawns_processes w" "no_injected_failure w" "manager_ok s" "distinct (process_ids s)"
    "set previous \<subseteq> set (process_ids s)" "fail_switch w previous e s = (r, s')"
  shows "switching s s' \<and> wanted s' = set previous \<and>
    (r = Some e \<and> set previous \<subseteq> live s' \<or> r = Some (e @ ''; rollback failed''))"
proof -
  obtain ok where ok: "restore_previous_mode w previous s = (ok, s')"
    "r = Some (e @ (if ok then [] else ''; rollback failed''))"
    using assms(6) by (auto simp: fail_switch_def split: prod.splits)
  from restore_previous_effect [OF assms(1-5) ok(1)] ok(2) show ?thesis by (cases ok) simp_all
qed

lemma desired_previous: "set (desired_modules s) = wanted s" "wanted s \<subseteq> set (process_ids s)"
  by (auto simp: wanted_def desired_modules_def process_ids_def)

lemma switch_mode_effect:
  assumes w: "spawns_processes w" "no_injected_failure w" and ok: "manager_ok s" and dist: "distinct (process_ids s)"
    and ms: "find_mode (pm_config s) mode = Some ms" "set ms \<subseteq> set (process_ids s)"
    and r: "switch_mode w mode s = (e, s')"
  shows "(e = None \<and> wanted s' = set ms \<and> set ms \<subseteq> live s' \<and> pm_mode s' = name_of_mode mode \<and> \<not> pm_critical_failure s') \<or>
    (\<exists>e0. wanted s' = wanted s \<and> pm_mode s' = pm_mode s \<and>
       (e = Some e0 \<and> wanted s \<subseteq> live s' \<or> e = Some (e0 @ ''; rollback failed'')))"
proof -
  let ?prev = "desired_modules s"
  obtain e1 s1 where s1: "stop_unwanted w (set ms) (reverse_indices s) s = (e1, s1)" by fastforce
  have "set (reverse_indices s) \<subseteq> {..<length (pm_processes s)}" by (auto simp: reverse_indices_def)
  from stop_unwanted_effect [OF w(2) ok dist this s1]
  have stops: "stops_outside (set ms) s s1" "e1 = None \<longrightarrow> cleared (set ms) (reverse_indices s) s s1" by simp_all
  have s1_ok: "manager_ok s1" "process_ids s1 = process_ids s" "pm_mode s1 = pm_mode s"
    using stops(1) by (simp_all add: stops_outside_def switching_def)
  have undo: ?thesis if "manager_ok t" "process_ids t = process_ids s" "pm_mode t = pm_mode s"
    "fail_switch w ?prev x t = (e, s')" for t x
  proof -
    have "distinct (process_ids t)" "set ?prev \<subseteq> set (process_ids t)"
      using dist desired_previous that(2) by simp_all
    from fail_switch_effect [OF w that(1) this that(4)] that(3) show ?thesis
      unfolding desired_previous(1) by (auto simp: switching_def)
  qed
  show ?thesis
  proof (cases e1)
    case (Some x)
    then have "fail_switch w ?prev x s1 = (e, s')"
      using r ms(1) s1 by (simp add: switch_mode_def Let_def)
    from undo [OF s1_ok this] show ?thesis .
  next
    case None
    have "m \<in> set ms" if m: "m \<in> wanted s1" for m
    proof -
      have "m \<in> set (process_ids s1)" using m desired_previous(2) by blast
      then obtain i where "i < length (pm_processes s)" "process_ids s ! i = m"
        unfolding s1_ok(2) by (auto simp: in_set_conv_nth processes_length)
      with stops(2) m None show ?thesis by (auto simp: cleared_def reverse_indices_def)
    qed
    then have only: "wanted s1 \<subseteq> set ms" by blast
    obtain e2 s2 where s2: "start_wanted w ms s1 = (e2, s2)" by fastforce
    from start_wanted_effect [OF w(1) s1_ok(1) _ _ s2] dist ms(2) s1_ok(2)
    have starts: "starts_only (set ms) s1 s2" "e2 = None \<longrightarrow> set ms \<subseteq> wanted s2 \<inter> live s2" by simp_all
    have s2_ok: "manager_ok s2" "process_ids s2 = process_ids s" "pm_mode s2 = pm_mode s"
      using starts(1) s1_ok by (simp_all add: starts_only_def switching_def)
    show ?thesis
    proof (cases e2)
      case (Some x)
      then have "fail_switch w ?prev x s2 = (e, s')"
        using r ms(1) s1 s2 None by (simp add: switch_mode_def Let_def)
      from undo [OF s2_ok this] show ?thesis .
    next
      case None2: None
      then have s': "e = None" "s' = s2\<lparr>pm_mode := name_of_mode mode, pm_critical_failure := False\<rparr>"
        using r ms(1) s1 s2 None by (simp_all add: switch_mode_def Let_def)
      have "wanted s' = wanted s2" "live s' = live s2"
        unfolding s' by (simp_all add: wanted_def desired_modules_def live_def)
      then show ?thesis
        using s' starts None2 only by (auto simp: starts_only_def)
    qed
  qed
qed

text \<open>
  C13: a switch of the mode happens or is undone. It answers no error only when exactly the modules of the
  new mode are wanted, each of them runs, the mode is the new one and no critical failure is left over. When it answers
  an error, the mode is the one from before and exactly the modules wanted before are wanted again, and
  each of them runs unless the error ends in the words \<open>rollback failed\<close>. This holds whatever the stops and the
  starts answer, for a valid configuration, after any history of commands and deaths.
\<close>

theorem switch_happens_or_is_undone:
  assumes "validate_run_config c = None" "spawns_processes w" "no_injected_failure w" "supervised w c s"
    "find_mode c mode = Some ms" "switch_mode w mode s = (e, s')"
  shows "(e = None \<and> wanted s' = set ms \<and> set ms \<subseteq> live s' \<and> pm_mode s' = name_of_mode mode \<and> \<not> pm_critical_failure s') \<or>
    (\<exists>e0. wanted s' = wanted s \<and> pm_mode s' = pm_mode s \<and>
       (e = Some e0 \<and> wanted s \<subseteq> live s' \<or> e = Some (e0 @ ''; rollback failed'')))"
proof -
  have s: "manager_ok s" "process_ids s = map mc_id (rc_modules c)" "distinct (process_ids s)" "pm_config s = c"
    using find_ids [OF assms(1,2,4)] by blast+
  have "set ms \<subseteq> set (process_ids s)"
    using valid_config_mode(1) [OF assms(1,5)] s(2) by simp
  with switch_mode_effect [OF assms(2,3) s(1,3) _ _ assms(6)] assms(5) s(4) show ?thesis by blast
qed

text \<open>A world where the driver of the cameras does not start the second time.\<close>

definition camera_world :: world where
  "camera_world = crash_world\<lparr>w_starts := (\<lambda>n. if n = 4 then Not_Ready (Exited 3) else Started (int n + 100) 0)\<rparr>"

definition cloud_manager :: process_manager where
  "cloud_manager = snd (switch_mode camera_world RmCloud (new_manager default_run_config))"

lemma camera_fails:
  "switch_mode camera_world RmNormal cloud_manager =
    (Some ''module camera_driver failed before ready'', snd (switch_mode camera_world RmNormal cloud_manager))"
  "wanted cloud_manager = {MTransfer, MVehicleDriver, MCarupload}"
proof -
  have "fst (switch_mode camera_world RmNormal cloud_manager) = Some ''module camera_driver failed before ready''"
    by code_simp
  then show "switch_mode camera_world RmNormal cloud_manager =
    (Some ''module camera_driver failed before ready'', snd (switch_mode camera_world RmNormal cloud_manager))"
    by (metis prod.collapse)
  have "desired_modules cloud_manager = [MTransfer, MVehicleDriver, MCarupload]" by code_simp
  then show "wanted cloud_manager = {MTransfer, MVehicleDriver, MCarupload}" by (simp add: wanted_def)
qed

lemma switch_happens_or_is_undone_witness:
  "wanted (snd (switch_mode camera_world RmNormal cloud_manager)) = {MTransfer, MVehicleDriver, MCarupload}"
proof -
  have w: "spawns_processes camera_world" "no_injected_failure camera_world"
    by (auto simp: spawns_processes_def no_injected_failure_def camera_world_def crash_world_def split: if_splits)
  have s: "supervised camera_world default_run_config cloud_manager"
    unfolding cloud_manager_def by (intro supervised.intros)
  obtain ms where "find_mode default_run_config RmNormal = Some ms"
    by (simp add: find_mode_def default_run_config_def)
  from switch_happens_or_is_undone [OF default_config_valid w s this camera_fails(1)] camera_fails(2)
  show ?thesis by auto
qed

lemma stop_all_loop_effect:
  assumes "no_injected_failure w" "manager_ok s" "distinct (process_ids s)" "set is \<subseteq> {..<length (pm_processes s)}"
  shows "stops_outside {} s (stop_all_loop w is s) \<and> cleared {} is s (stop_all_loop w is s)"
  using assms(2-)
proof (induction "is" arbitrary: s)
  case Nil
  then show ?case by (simp add: stops_outside_refl cleared_def)
next
  case (Cons i js)
  let ?m = "process_ids s ! i"
  let ?p = "pm_processes s ! i"
  define t where "t = (if pr_pid ?p \<noteq> 0 \<or> pr_desired ?p \<or> pr_restart_pending ?p then snd (stop_module w (pr_id ?p) s) else s)"
  have i: "i < length (pm_processes s)" using Cons.prems(3) by simp
  have t: "stops_outside {} s t" "?m \<notin> wanted t"
  proof -
    obtain e s1 where s1: "stop_module w ?m s = (e, s1)" by fastforce
    note st = stop_step_outside [OF assms(1) Cons.prems(1,2) i _ s1, of "{}"]
    show "stops_outside {} s t"
      using st(1) s1 i stops_outside_refl [OF Cons.prems(1)] by (simp add: t_def process_id_nth)
    show "?m \<notin> wanted t"
      using st(2) s1 i desired_nth [OF Cons.prems(2) i] by (auto simp: t_def process_id_nth)
  qed
  have "manager_ok t" "distinct (process_ids t)" "set js \<subseteq> {..<length (pm_processes t)}"
    using t(1) Cons.prems(2,3) by (simp_all add: stops_outside_def switching_def processes_length)
  note IH = Cons.IH [OF this]
  have "stop_all_loop w (i # js) s = stop_all_loop w js t" by (simp add: Let_def t_def)
  then show ?case
    using IH stops_outside_trans [OF t(1)] cleared_step [OF t(1), of _ i js] t(2) by metis
qed

lemma stop_all_effect:
  assumes "no_injected_failure w" "manager_ok s" "distinct (process_ids s)"
  shows "wanted (stop_all w s) = {}" "pm_mode (stop_all w s) = []"
proof -
  let ?t = "stop_all_loop w (reverse_indices s) s"
  have "set (reverse_indices s) \<subseteq> {..<length (pm_processes s)}" by (auto simp: reverse_indices_def)
  from stop_all_loop_effect [OF assms this]
  have t: "stops_outside {} s ?t" "cleared {} (reverse_indices s) s ?t" by simp_all
  have "m \<notin> wanted ?t" for m
  proof
    assume m: "m \<in> wanted ?t"
    then have "m \<in> set (process_ids s)"
      using desired_previous(2) [of ?t] t(1) by (auto simp: stops_outside_def switching_def)
    then obtain i where "i < length (pm_processes s)" "process_ids s ! i = m"
      by (auto simp: in_set_conv_nth processes_length)
    with t(2) m show False by (auto simp: cleared_def reverse_indices_def)
  qed
  then show "wanted (stop_all w s) = {}"
    by (auto simp: stop_all_def wanted_def desired_modules_def)
  show "pm_mode (stop_all w s) = []" by (simp add: stop_all_def)
qed

text \<open>
  A reload that fails is not undone. Unlike a switch, it stops every module and forgets the mode before
  it starts them again, so that when the start fails no module is wanted any more, the mode is empty and another
  reload is refused, although the error says nothing of it.
\<close>

theorem failed_reload_forgets_mode:
  assumes "validate_run_config c = None" "spawns_processes w" "no_injected_failure w" "supervised w c s"
    "pm_mode s \<noteq> []" "reload w s = (Some e, s')"
  shows "wanted s' = {} \<and> pm_mode s' = [] \<and> reload w s' = (Some ''runtime mode is not active'', s')"
proof -
  let ?t = "stop_all w s"
  have s: "manager_ok s" "distinct (process_ids s)" using find_ids [OF assms(1,2,4)] by blast+
  note empty = stop_all_effect [OF assms(3) s]
  have t: "manager_ok ?t" "process_ids ?t = map mc_id (rc_modules c)" "distinct (process_ids ?t)" "pm_config ?t = c"
    using find_ids [OF assms(1,2) all_stopped [OF assms(4)]] by blast+
  have r: "switch_mode_named w (pm_mode s) ?t = (Some e, s')"
    using assms(5,6) by (simp add: reload_def Let_def)
  have "wanted s' = {} \<and> pm_mode s' = []"
  proof (cases "parse_run_mode (pm_mode s)")
    case None
    with r empty show ?thesis by (auto simp: switch_mode_named_def)
  next
    case (Some mode)
    then have sw: "switch_mode w mode ?t = (Some e, s')" using r by (simp add: switch_mode_named_def)
    show ?thesis
    proof (cases "find_mode c mode")
      case None
      with sw t(4) empty show ?thesis by (auto simp: switch_mode_def)
    next
      case (Some ms)
      have "set ms \<subseteq> set (process_ids ?t)" using valid_config_mode(1) [OF assms(1) Some] t(2) by simp
      with switch_mode_effect [OF assms(2,3) t(1,3) _ _ sw] Some t(4) empty show ?thesis by auto
    qed
  qed
  then show ?thesis by (simp add: reload_def)
qed

lemma failed_reload_forgets_mode_witness:
  "pm_mode (snd (reload camera_world cloud_manager)) = []"
proof -
  have w: "spawns_processes camera_world" "no_injected_failure camera_world"
    by (auto simp: spawns_processes_def no_injected_failure_def camera_world_def crash_world_def split: if_splits)
  have s: "supervised camera_world default_run_config cloud_manager"
    unfolding cloud_manager_def by (intro supervised.intros)
  have "pm_mode cloud_manager \<noteq> []" by code_simp
  moreover have "fst (reload camera_world cloud_manager) = Some ''module vehicle_driver failed before ready''" by code_simp
  then have "reload camera_world cloud_manager =
    (Some ''module vehicle_driver failed before ready'', snd (reload camera_world cloud_manager))"
    by (metis prod.collapse)
  ultimately show ?thesis
    using failed_reload_forgets_mode [OF default_config_valid w s] by blast
qed

end
