(* ===== verification/Ipc_Connector.thy ===== *)
theory Ipc_Connector
  imports Prelude
begin

text \<open>
  The exchange of a request and its reply on the Navigator's socket,
  \<open>cockpit/navigator/connection/ipc_connector.cc\<close>: how the client writes a line, how the server collects it
  from as many reads as it takes, and how the client collects the reply. What \<open>send\<close>, \<open>poll\<close> and \<open>read\<close>
  answer are lists; a function that has used its list up, so that it still waits, is \<open>None\<close>.
\<close>

definition kMaximumRequestBytes :: nat where
  "kMaximumRequestBytes = 64 * 1024"

definition newline :: char where
  "newline = CHR 0x0A"

section \<open>Writing\<close>

datatype send_answer = Sent nat | Send_Interrupted | Send_Timed_Out | Send_Failed string

text \<open>The result of a write is an error or nothing, beside the bytes the kernel took.\<close>

fun write_all :: "string \<Rightarrow> send_answer list \<Rightarrow> (string option \<times> string) option" where
  "write_all v [] = (if v = [] then Some (None, []) else None)"
| "write_all v (a # as) =
     (if v = [] then Some (None, [])
      else (case a of
          Send_Interrupted \<Rightarrow> write_all v as
        | Send_Timed_Out \<Rightarrow> Some (Some ''timed out writing Unix socket request'', [])
        | Send_Failed e \<Rightarrow> Some (Some (''failed to write Unix socket: '' @ e), [])
        | Sent n \<Rightarrow>
            if n = 0 then Some (Some ''Unix socket closed while writing request'', [])
            else (case write_all (drop n v) as of
                None \<Rightarrow> None
              | Some (e, sent) \<Rightarrow> Some (e, take n v @ sent))))"

section \<open>Reading a request\<close>

text \<open>
  One turn of the server's loop: the deadline has passed, the wait for data was interrupted or had another
  end than data, the read was interrupted, or found the end or an error, or bytes.
\<close>

datatype read_answer = Past_Deadline | Poll_Interrupted | Poll_Ended | Read_Interrupted | Read_Ended | Read string

datatype request_result = No_Request | Request_Too_Long | Request string

fun receive_request :: "string \<Rightarrow> read_answer list \<Rightarrow> request_result option" where
  "receive_request request [] = None"
| "receive_request request (a # as) = (case a of
     Past_Deadline \<Rightarrow> Some No_Request
   | Poll_Interrupted \<Rightarrow> receive_request request as
   | Poll_Ended \<Rightarrow> Some No_Request
   | Read_Interrupted \<Rightarrow> receive_request request as
   | Read_Ended \<Rightarrow> Some No_Request
   | Read bytes \<Rightarrow> (let r = request @ bytes; line = takeWhile (\<lambda>c. c \<noteq> newline) r in
       if newline \<in> set r then
         (if length line > kMaximumRequestBytes then Some Request_Too_Long else Some (Request line))
       else if length r > kMaximumRequestBytes then Some Request_Too_Long
       else receive_request r as))"

definition too_long_reply :: string where
  "too_long_reply = ''ERROR request exceeds 64 KiB'' @ [newline]"

section \<open>Reading the reply\<close>

datatype reply_answer = Reply_Interrupted | Reply_Timed_Out | Reply_Failed string | Reply_End | Reply_Bytes string

fun read_to_end :: "string \<Rightarrow> reply_answer list \<Rightarrow> (string + string) option" where
  "read_to_end v [] = None"
| "read_to_end v (a # as) = (case a of
     Reply_Interrupted \<Rightarrow> read_to_end v as
   | Reply_Timed_Out \<Rightarrow> Some (Inl ''timed out waiting for Unix socket response'')
   | Reply_Failed e \<Rightarrow> Some (Inl (''failed to read Unix socket: '' @ e))
   | Reply_End \<Rightarrow> Some (Inr v)
   | Reply_Bytes bytes \<Rightarrow> (let r = v @ bytes in
       if length r > 64 * 1024 then Some (Inl ''Unix socket response exceeds 64 KiB'') else read_to_end r as))"

section \<open>A request arrives whole\<close>

lemma write_all_sends: "write_all v as = Some (None, sent) \<Longrightarrow> sent = v"
proof (induction v as arbitrary: sent rule: write_all.induct)
  case (2 v a as)
  then show ?case
    by (cases a) (auto split: if_splits option.splits, metis append_take_drop_id)
qed (simp split: if_splits)

text \<open>
  What the socket carries: the bytes of a list of answers, that has data or interruptions only. A read that
  returns data returns at least one byte.
\<close>

fun carried :: "read_answer list \<Rightarrow> string option" where
  "carried [] = Some []"
| "carried (a # as) = (case a of
     Read bytes \<Rightarrow> if bytes = [] then None else map_option ((@) bytes) (carried as)
   | Poll_Interrupted \<Rightarrow> carried as
   | Read_Interrupted \<Rightarrow> carried as
   | _ \<Rightarrow> None)"

lemma line_of_start:
  assumes "newline \<notin> set r" "r @ [newline] = a @ b" "newline \<in> set a"
  shows "a = r @ [newline]" "b = []"
proof -
  from assms(2) have "(\<exists>us. r = a @ us \<and> us @ [newline] = b) \<or> (\<exists>us. r @ us = a \<and> [newline] = us @ b)"
    by (auto simp: append_eq_append_conv2)
  with assms(1,3) have "\<exists>us. r @ us = a \<and> [newline] = us @ b" by auto
  then show "a = r @ [newline]" "b = []" using assms(1,3) by (auto simp: Cons_eq_append_conv)
qed

lemma receive_request_line:
  assumes "newline \<notin> set r" "carried as = Some rest" "got @ rest = r @ [newline]" "newline \<notin> set got"
  shows "receive_request got as = Some (if length r \<le> kMaximumRequestBytes then Request r else Request_Too_Long)"
  using assms
proof (induction as arbitrary: got rest)
  case Nil
  then show ?case by (metis append.right_neutral carried.simps(1) in_set_conv_decomp option.inject)
next
  case (Cons a as)
  show ?case
  proof (cases a)
    case (Read bytes)
    with Cons.prems(2) obtain rest' where rest: "carried as = Some rest'" "rest = bytes @ rest'"
      by (auto split: if_splits)
    with Cons.prems(3) have all: "r @ [newline] = (got @ bytes) @ rest'" by simp
    show ?thesis
    proof (cases "newline \<in> set (got @ bytes)")
      case True
      then have g: "got @ bytes = r @ [newline]" by (rule line_of_start(1) [OF Cons.prems(1) all])
      have "takeWhile (\<lambda>c. c \<noteq> newline) (got @ bytes) = r"
        unfolding g using Cons.prems(1) by (induction r) auto
      with Read True show ?thesis by (simp add: Let_def)
    next
      case False
      then have nl: "newline \<notin> set (got @ bytes)" by simp
      have "length (got @ bytes) \<le> length r"
      proof (rule ccontr)
        assume "\<not> length (got @ bytes) \<le> length r"
        then have "length (r @ [newline]) \<le> length (got @ bytes)" by simp
        then have "rest' = []" using arg_cong [OF all, of length] by simp
        with all nl show False by (metis append.right_neutral in_set_conv_decomp)
      qed
      then show ?thesis
        using Cons.IH [OF Cons.prems(1) rest(1) all [symmetric] nl] Read nl by (auto simp: Let_def)
    qed
  qed (use Cons in auto)
qed

text \<open>
  C34: a request arrives whole. However the kernel splits what the client writes and what the server reads, and
  whatever is interrupted, a line the client could write is the request the server executes, byte for
  byte, when it has at most 64 KiB, and is refused when it has more.
\<close>

theorem request_arrives_whole:
  assumes "newline \<notin> set r" "write_all (r @ [newline]) sends = Some (None, sent)" "carried reads = Some sent"
  shows "receive_request [] reads = Some (if length r \<le> kMaximumRequestBytes then Request r else Request_Too_Long)"
  using receive_request_line [OF assms(1,3), of "[]"] write_all_sends [OF assms(2)] by simp

lemma request_arrives_whole_witness:
  "receive_request [] [Read ''sta'', Read_Interrupted, Read ''tus'', Poll_Interrupted, Read [newline]] = Some (Request ''status'')"
proof -
  have "write_all (''status'' @ [newline]) [Sent 2, Send_Interrupted, Sent 5] = Some (None, ''status'' @ [newline])"
    "carried [Read ''sta'', Read_Interrupted, Read ''tus'', Poll_Interrupted, Read [newline]] = Some (''status'' @ [newline])"
    "newline \<notin> set ''status''" "length ''status'' \<le> kMaximumRequestBytes"
    by (simp_all add: newline_def kMaximumRequestBytes_def)
  with request_arrives_whole [OF this(3,1,2)] show ?thesis by simp
qed

section \<open>The reply arrives whole\<close>

fun reply_bytes :: "reply_answer list \<Rightarrow> string option" where
  "reply_bytes [] = None"
| "reply_bytes (a # as) = (case a of
     Reply_Bytes bytes \<Rightarrow> map_option ((@) bytes) (reply_bytes as)
   | Reply_Interrupted \<Rightarrow> reply_bytes as
   | Reply_End \<Rightarrow> Some []
   | _ \<Rightarrow> None)"

lemma reply_arrives_whole:
  "reply_bytes as = Some rest \<Longrightarrow> length (v @ rest) \<le> 64 * 1024 \<Longrightarrow> read_to_end v as = Some (Inr (v @ rest))"
  by (induction as arbitrary: v rest) (auto simp: Let_def split: reply_answer.splits)

lemma long_reply_refused:
  "reply_bytes as = Some rest \<Longrightarrow> length v \<le> 64 * 1024 \<Longrightarrow> 64 * 1024 < length (v @ rest) \<Longrightarrow>
    read_to_end v as = Some (Inl ''Unix socket response exceeds 64 KiB'')"
  by (induction as arbitrary: v rest) (auto simp: Let_def split: reply_answer.splits)

end
