(* ===== verification/Navigator.thy ===== *)
theory Navigator
  imports Mode_Switch Ipc_Connector
begin

text \<open>
  The Navigator, \<open>cockpit/navigator/navigator.cc\<close>: the commands of its socket, and its main loop, which serves one
  request and reaps the children in every turn until it is told to stop, gets a signal or loses a critical module.
  What a turn finds is a record; a loop whose turns are used up has not ended, \<open>None\<close>.
\<close>

section \<open>The words of a command\<close>

text \<open>\<open>std::isspace\<close> in the C locale, and what \<open>input >> word\<close> takes from a stream, one word after the other.\<close>

definition is_blank :: "char \<Rightarrow> bool" where
  "is_blank c \<longleftrightarrow> code c = 32 \<or> 9 \<le> code c \<and> code c \<le> 13"

function words_of :: "string \<Rightarrow> string list" where
  "words_of cs = (let t = dropWhile is_blank cs in
     if t = [] then [] else takeWhile (\<lambda>c. \<not> is_blank c) t # words_of (dropWhile (\<lambda>c. \<not> is_blank c) t))"
  by pat_completeness auto

termination words_of
proof (relation "measure length")
  fix cs :: string and t
  assume t: "t = dropWhile is_blank cs" "t \<noteq> []"
  then have "\<not> is_blank (hd t)" by (metis hd_dropWhile)
  with t(2) have "length (dropWhile (\<lambda>c. \<not> is_blank c) t) < length t"
    by (cases t) (simp_all add: le_imp_less_Suc length_dropWhile_le)
  also have "\<dots> \<le> length cs" unfolding t by (rule length_dropWhile_le)
  finally show "(dropWhile (\<lambda>c. \<not> is_blank c) t, cs) \<in> measure length" by simp
qed simp

declare words_of.simps [simp del]

text \<open>A stream at its end, or one that failed, has no word left.\<close>

fun read_word :: "string list \<Rightarrow> string option \<times> string list" where
  "read_word [] = (None, [])"
| "read_word (t # ts) = (Some t, ts)"

section \<open>Commands\<close>

record navigator =
  nv_config :: run_config
  nv_manager :: process_manager
  nv_stop_requested :: bool
  nv_reexec_mode :: string

definition new_navigator :: "run_config \<Rightarrow> navigator" where
  "new_navigator c = \<lparr> nv_config = c, nv_manager = new_manager c, nv_stop_requested = False, nv_reexec_mode = [] \<rparr>"

text \<open>What the status names of the running program, and the time it is asked at.\<close>

record identity =
  id_pid :: int
  id_version :: string
  id_commit :: string
  id_executable :: string

definition status_line :: "process_status \<Rightarrow> string" where
  "status_line p = ''module='' @ pst_name p @ '' state='' @ process_state_name (pst_state p) @
     '' pid='' @ dec_str_int (pst_pid p) @ '' exit='' @ dec_str_int (pst_last_exit_code p) @
     '' restarts='' @ dec_str_int (pst_restart_count p) @ '' starts='' @ dec_str (unat (pst_start_count p)) @
     '' uptime_ms='' @ dec_str_int (pst_uptime_ms p) @ '' last_failure_ms='' @ dec_str_int (pst_last_failure_ms p) @
     '' last_signal='' @ dec_str_int (pst_last_signal p) @ [newline]"

definition status_text :: "identity \<Rightarrow> int \<Rightarrow> process_manager \<Rightarrow> string" where
  "status_text d now s = ''OK mode='' @ pm_mode s @ '' pid='' @ dec_str_int (id_pid d) @
     '' version='' @ id_version d @ '' commit='' @ id_commit d @ '' executable='' @ id_executable d @ [newline] @
     concat (map status_line (manager_status now s))"

definition answer_of :: "string option \<Rightarrow> string" where
  "answer_of e = (case e of None \<Rightarrow> ''OK'' @ [newline] | Some x \<Rightarrow> ''ERROR '' @ x @ [newline])"

text \<open>
  The tests of \<open>ExecuteCommand\<close> take words off the stream as they go, so a command with too many words
  reaches the last ones with those words gone.
\<close>

definition run_operation :: "world \<Rightarrow> string \<Rightarrow> string \<Rightarrow> process_manager \<Rightarrow> string \<times> process_manager" where
  "run_operation w operation argument s =
     (if operation = ''switch'' then (case switch_mode_named w argument s of (e, s1) \<Rightarrow> (answer_of e, s1))
      else if operation = ''start'' then (case start_module_named w argument s of (e, s1) \<Rightarrow> (answer_of e, s1))
      else if operation = ''stop'' then (case stop_module_named w argument s of (e, s1) \<Rightarrow> (answer_of e, s1))
      else if operation = ''restart'' then (case restart_module w argument s of (e, s1) \<Rightarrow> (answer_of e, s1))
      else (''ERROR unknown command'' @ [newline], s))"

definition last_words :: "world \<Rightarrow> string \<Rightarrow> string list \<Rightarrow> navigator \<Rightarrow> string \<times> navigator" where
  "last_words w operation ts v = (case read_word ts of
     (None, _) \<Rightarrow> (''ERROR invalid command'' @ [newline], v)
   | (Some argument, ts1) \<Rightarrow>
       if fst (read_word ts1) \<noteq> None then (''ERROR invalid command'' @ [newline], v)
       else (case run_operation w operation argument (nv_manager v) of (r, s) \<Rightarrow> (r, v\<lparr>nv_manager := s\<rparr>)))"

definition reexec_command :: "world \<Rightarrow> string list \<Rightarrow> navigator \<Rightarrow> string \<times> navigator" where
  "reexec_command w ts v = (case read_word ts of
     (None, ts1) \<Rightarrow> last_words w ''reexec'' ts1 v
   | (Some argument, ts1) \<Rightarrow> (case read_word ts1 of
       (Some _, ts2) \<Rightarrow> last_words w ''reexec'' ts2 v
     | (None, _) \<Rightarrow>
         (case parse_run_mode argument of
            None \<Rightarrow> (''ERROR unknown mode: '' @ argument @ [newline], v)
          | Some mode \<Rightarrow>
              if find_mode (nv_config v) mode = None then (''ERROR unknown mode: '' @ argument @ [newline], v)
              else (''OK'' @ [newline], v\<lparr>nv_reexec_mode := argument, nv_stop_requested := True\<rparr>))))"

definition execute_command :: "world \<Rightarrow> identity \<Rightarrow> int \<Rightarrow> string \<Rightarrow> navigator \<Rightarrow> string \<times> navigator" where
  "execute_command w d now command v = (case read_word (words_of command) of
     (op1, ts) \<Rightarrow>
       let operation = (case op1 of None \<Rightarrow> [] | Some t \<Rightarrow> t); alone = fst (read_word ts) = None; rest = snd (read_word ts) in
       if operation = ''status'' then
         (if alone then (status_text d now (nv_manager v), v) else last_words w operation rest v)
       else if operation = ''mode'' then
         (if alone then (''OK mode='' @ pm_mode (nv_manager v) @ [newline], v) else last_words w operation rest v)
       else if operation = ''shutdown'' then
         (if alone then (''OK'' @ [newline], v\<lparr>nv_stop_requested := True\<rparr>) else last_words w operation rest v)
       else if operation = ''reexec'' then reexec_command w ts v
       else if operation = ''reload'' then
         (if alone then (case reload w (nv_manager v) of (e, s) \<Rightarrow> (answer_of e, v\<lparr>nv_manager := s\<rparr>))
          else last_words w operation rest v)
       else last_words w operation ts v)"

section \<open>The main loop\<close>

text \<open>What a turn of the loop finds: a signal before it, the request it receives, the children that died, the times.\<close>

record turn =
  tn_signal :: bool
  tn_request :: "string option"
  tn_status_now :: int
  tn_children :: "dead_child list"
  tn_now :: int
  tn_wall_ms :: "nat \<Rightarrow> int"

definition serve_turn :: "world \<Rightarrow> identity \<Rightarrow> turn \<Rightarrow> navigator \<Rightarrow> navigator" where
  "serve_turn w d t v = (
     let v1 = (case tn_request t of None \<Rightarrow> v | Some r \<Rightarrow> snd (execute_command w d (tn_status_now t) r v)) in
     v1\<lparr>nv_manager := reap_exited w (tn_children t) (tn_now t) (tn_wall_ms t) (nv_manager v1)\<rparr>)"

fun navigate :: "world \<Rightarrow> identity \<Rightarrow> turn list \<Rightarrow> navigator \<Rightarrow> (bool \<times> navigator) option" where
  "navigate w d [] v = (if nv_stop_requested v then Some (False, v) else None)"
| "navigate w d (t # ts) v =
     (if nv_stop_requested v \<or> tn_signal t then Some (False, v)
      else (let v1 = serve_turn w d t v in
        if pm_critical_failure (nv_manager v1) then Some (True, v1) else navigate w d ts v1))"

text \<open>
  \<open>Run\<close>: the exit code and the Navigator as it is left. \<open>opened\<close> says whether the socket could be opened.
\<close>

definition run_navigator :: "world \<Rightarrow> identity \<Rightarrow> bool \<Rightarrow> turn list \<Rightarrow> navigator \<Rightarrow> (int \<times> navigator) option" where
  "run_navigator w d opened ts v =
     (if validate_run_config (nv_config v) \<noteq> None \<or> \<not> opened then Some (1, v)
      else (case switch_mode w (rc_initial_mode (nv_config v)) (nv_manager v) of
          (Some e, s) \<Rightarrow> Some (1, v\<lparr>nv_manager := s\<rparr>)
        | (None, s) \<Rightarrow> (case navigate w d ts (v\<lparr>nv_manager := s\<rparr>) of
            None \<Rightarrow> None
          | Some (critical, v1) \<Rightarrow>
              let v2 = v1\<lparr>nv_manager := stop_all w (nv_manager v1)\<rparr> in
              Some (if critical then 1 else if nv_reexec_mode v2 = [] then 0 else 75, v2))))"

text \<open>The end of the program destroys the process manager, which stops everything again.\<close>

definition destroy_navigator :: "world \<Rightarrow> navigator \<Rightarrow> navigator" where
  "destroy_navigator w v = v\<lparr>nv_manager := stop_all w (nv_manager v)\<rparr>"

section \<open>The manager under the Navigator\<close>

text \<open>Every command and every turn is a sequence of the manager's methods, and the configuration stays.\<close>

definition navigating :: "world \<Rightarrow> run_config \<Rightarrow> navigator \<Rightarrow> bool" where
  "navigating w c v \<longleftrightarrow> supervised w c (nv_manager v) \<and> nv_config v = c \<and>
     (nv_reexec_mode v \<noteq> [] \<longrightarrow> (\<exists>mode. parse_run_mode (nv_reexec_mode v) = Some mode \<and> find_mode c mode \<noteq> None))"

lemma run_operation_supervised:
  assumes "supervised w c s" "run_operation w operation argument s = (r, s')"
  shows "supervised w c s'"
proof -
  have "\<And>e t. switch_mode_named w argument s = (e, t) \<Longrightarrow> supervised w c t"
    "\<And>e t. start_module_named w argument s = (e, t) \<Longrightarrow> supervised w c t"
    "\<And>e t. stop_module_named w argument s = (e, t) \<Longrightarrow> supervised w c t"
    "\<And>e t. restart_module w argument s = (e, t) \<Longrightarrow> supervised w c t"
    using supervised.intros(3-6) [OF assms(1)] by (metis snd_conv)+
  then show ?thesis
    using assms by (auto simp: run_operation_def split: if_splits prod.splits)
qed

lemma last_words_navigating:
  "navigating w c v \<Longrightarrow> navigating w c (snd (last_words w operation ts v))"
  by (auto simp: last_words_def navigating_def dest: run_operation_supervised split: option.splits prod.splits)

lemma reexec_command_navigating:
  "navigating w c v \<Longrightarrow> navigating w c (snd (reexec_command w ts v))"
  using last_words_navigating
  by (auto simp: reexec_command_def split: option.splits prod.splits) (auto simp: navigating_def)

lemma execute_command_navigating:
  assumes "navigating w c v"
  shows "navigating w c (snd (execute_command w d now command v))"
proof -
  have "supervised w c s" if "reload w (nv_manager v) = (e, s)" for e s
    using supervised.reloaded [of w c "nv_manager v"] assms that by (simp add: navigating_def)
  then have reload: "navigating w c (snd (case reload w (nv_manager v) of (e, s) \<Rightarrow> (answer_of e, v\<lparr>nv_manager := s\<rparr>)))"
    using assms by (auto simp: navigating_def split: prod.splits)
  have stop: "navigating w c (v\<lparr>nv_stop_requested := True\<rparr>)" using assms by (simp add: navigating_def)
  show ?thesis
    using assms reload stop last_words_navigating [OF assms] reexec_command_navigating [OF assms]
    by (simp add: execute_command_def Let_def split: prod.splits)
qed

lemma serve_turn_navigating:
  assumes "navigating w c v" "list_all (\<lambda>d. 0 < dc_pid d) (tn_children t)"
  shows "navigating w c (serve_turn w d t v)"
proof -
  have "navigating w c (case tn_request t of None \<Rightarrow> v | Some r \<Rightarrow> snd (execute_command w d (tn_status_now t) r v))"
    using assms(1) execute_command_navigating by (simp split: option.splits)
  then show ?thesis
    using assms(2) by (auto simp: serve_turn_def Let_def navigating_def intro: supervised.reaped)
qed

definition real_children :: "turn list \<Rightarrow> bool" where
  "real_children ts \<longleftrightarrow> list_all (\<lambda>t. list_all (\<lambda>d. 0 < dc_pid d) (tn_children t)) ts"

lemma navigate_navigating:
  "navigating w c v \<Longrightarrow> real_children ts \<Longrightarrow> navigate w d ts v = Some (b, v') \<Longrightarrow> navigating w c v'"
proof (induction ts arbitrary: v)
  case (Cons t ts)
  have "navigating w c (serve_turn w d t v)"
    using Cons.prems(1,2) by (intro serve_turn_navigating) (simp_all add: real_children_def)
  with Cons show ?case by (auto simp: Let_def real_children_def split: if_splits)
qed (simp split: if_splits)

section \<open>Nothing runs when the Navigator has ended\<close>

definition stops_work :: "world \<Rightarrow> bool" where
  "stops_work w \<longleftrightarrow> (\<forall>n p. \<not> so_injected (w_stops w n) \<and> fst (stop_process (w_stops w n) p) = None)"

lemma stop_step_live:
  assumes w: "stops_work w" and ok: "manager_ok s" and dist: "distinct (process_ids s)"
    and m: "m \<in> set (process_ids s)" and r: "stop_module w m s = (e, s')"
  shows "live s' = live s - {m}"
  using ok m r
proof (cases rule: stop_module_effect)
  case injected
  with w show ?thesis by (simp add: stops_work_def)
next
  case (stopped i q)
  have "fst (e, q) = None" unfolding stopped(11) using w by (simp add: stops_work_def)
  with stopped(9) have "pr_state q = PsStopped" by simp
  with sets_update(2) [OF dist stopped(1-3,7)] show ?thesis by simp
qed

lemma live_at:
  "distinct (process_ids s) \<Longrightarrow> i < length (pm_processes s) \<Longrightarrow>
    pr_state (pm_processes s ! i) = PsRunning \<longleftrightarrow> process_ids s ! i \<in> live s"
  by (auto simp: live_nth process_ids_def distinct_conv_nth)

lemma stop_all_loop_live:
  assumes "stops_work w" "manager_ok s" "distinct (process_ids s)" "set is \<subseteq> {..<length (pm_processes s)}"
  shows "live (stop_all_loop w is s) \<subseteq> live s - (\<lambda>i. process_ids s ! i) ` set is"
  using assms(2-)
proof (induction "is" arbitrary: s)
  case (Cons i js)
  let ?m = "process_ids s ! i"
  let ?p = "pm_processes s ! i"
  define t where "t = (if pr_pid ?p \<noteq> 0 \<or> pr_desired ?p \<or> pr_restart_pending ?p then snd (stop_module w (pr_id ?p) s) else s)"
  have i: "i < length (pm_processes s)" using Cons.prems(3) by simp
  have m: "?m \<in> set (process_ids s)" using i by (simp add: process_ids_def)
  have inj: "no_injected_failure w" using assms(1) by (simp add: stops_work_def no_injected_failure_def)
  obtain e s1 where s1: "stop_module w ?m s = (e, s1)" by fastforce
  have sw: "switching s t"
    using stop_step(1) [OF inj Cons.prems(1,2) m s1] s1 i switching_refl [OF Cons.prems(1)]
    by (simp add: t_def process_id_nth)
  have t: "live t \<subseteq> live s - {?m}"
  proof (cases "pr_pid ?p \<noteq> 0 \<or> pr_desired ?p \<or> pr_restart_pending ?p")
    case True
    then show ?thesis
      using stop_step_live [OF assms(1) Cons.prems(1,2) m s1] s1 i by (simp add: t_def process_id_nth)
  next
    case False
    then have "?m \<notin> live s"
      using manager_ok_nth [OF Cons.prems(1) i] live_at [OF Cons.prems(2) i] by (simp add: process_ok_def)
    with False show ?thesis by (simp add: t_def)
  qed
  have "manager_ok t" "distinct (process_ids t)" "set js \<subseteq> {..<length (pm_processes t)}"
    using sw Cons.prems(2,3) by (simp_all add: switching_def processes_length)
  note IH = Cons.IH [OF this]
  have "stop_all_loop w (i # js) s = stop_all_loop w js t" by (simp add: Let_def t_def)
  with IH t sw show ?case by (auto simp: switching_def)
qed simp

lemma stop_all_live:
  assumes "stops_work w" "manager_ok s" "distinct (process_ids s)"
  shows "live (stop_all w s) = {}"
proof -
  have "live (stop_all w s) = live (stop_all_loop w (reverse_indices s) s)"
    by (simp add: stop_all_def live_def)
  also have "\<dots> \<subseteq> live s - (\<lambda>i. process_ids s ! i) ` set (reverse_indices s)"
    by (rule stop_all_loop_live [OF assms]) (auto simp: reverse_indices_def)
  also have "\<dots> = {}"
    by (auto simp: live_nth reverse_indices_def process_id_nth)
  finally show ?thesis by blast
qed

lemma stop_all_idle: "list_all (\<lambda>p. pr_pid p = 0 \<and> \<not> pr_desired p \<and> \<not> pr_restart_pending p) (pm_processes s) \<Longrightarrow>
    set is \<subseteq> {..<length (pm_processes s)} \<Longrightarrow> stop_all_loop w is s = s"
  by (induction "is") (auto simp: list_all_length Let_def)

lemma run_navigator_navigating:
  assumes "validate_run_config c = None" "real_children ts"
    "run_navigator w d opened ts (new_navigator c) = Some (r, v)"
  shows "navigating w c v"
proof -
  have v0: "navigating w c (new_navigator c)"
    by (simp add: navigating_def new_navigator_def supervised.made)
  obtain e s where s: "switch_mode w (rc_initial_mode c) (new_manager c) = (e, s)" by fastforce
  have "supervised w c s"
    using supervised.switched [OF supervised.made, of w c "rc_initial_mode c"] s by simp
  then have v1: "navigating w c ((new_navigator c)\<lparr>nv_manager := s\<rparr>)"
    by (simp add: navigating_def new_navigator_def)
  have stop: "navigating w c (u\<lparr>nv_manager := stop_all w (nv_manager u)\<rparr>)" if "navigating w c u" for u
    using that by (simp add: navigating_def supervised.all_stopped)
  have nav: "navigating w c u" if "navigate w d ts ((new_navigator c)\<lparr>nv_manager := s\<rparr>) = Some (b, u)" for b u
    by (rule navigate_navigating [OF v1 assms(2) that])
  show ?thesis
    using assms(3) v0 v1 s stop nav
    by (auto simp: run_navigator_def Let_def new_navigator_def split: if_splits option.splits prod.splits)
qed

text \<open>
  C16: the Navigator leaves nothing behind. However it ends, by a signal, a command, a critical failure, a
  socket that cannot be opened, a first mode that cannot be entered or a configuration that is not
  valid, once it is destroyed no module has a process, when every stop it asks for succeeds. Its exit code is 0, 1
  or 75, and it is 75 only with the name of a configured mode to start the replacement in.
\<close>

theorem navigator_leaves_nothing_running:
  assumes "spawns_processes w" "stops_work w" "real_children ts"
    "run_navigator w d opened ts (new_navigator c) = Some (r, v)"
  shows "(\<forall>p \<in> set (pm_processes (nv_manager (destroy_navigator w v))). pr_pid p = 0) \<and> r \<in> {0, 1, 75} \<and>
    (r = 75 \<longrightarrow> (\<exists>mode. parse_run_mode (nv_reexec_mode v) = Some mode \<and> find_mode c mode \<noteq> None))"
proof (cases "validate_run_config c = None")
  case True
  have v: "navigating w c v" by (rule run_navigator_navigating [OF True assms(3,4)])
  then have sup: "supervised w c (nv_manager v)" by (simp add: navigating_def)
  have s: "manager_ok (nv_manager v)" "distinct (process_ids (nv_manager v))"
    using find_ids [OF True assms(1) sup] by blast+
  have "live (stop_all w (nv_manager v)) = {}" by (rule stop_all_live [OF assms(2) s])
  moreover have "list_all process_ok (pm_processes (stop_all w (nv_manager v)))"
    using stop_all_ok [OF assms(1) s(1)] by (simp add: manager_ok_def)
  ultimately have "\<forall>p \<in> set (pm_processes (stop_all w (nv_manager v))). pr_pid p = 0"
    by (auto simp: live_def list_all_iff process_ok_def)
  moreover have "r \<in> {0, 1, 75}" "r = 75 \<Longrightarrow> nv_reexec_mode v \<noteq> []"
    using assms(4) by (auto simp: run_navigator_def Let_def split: if_splits option.splits prod.splits)
  ultimately show ?thesis using v by (auto simp: destroy_navigator_def navigating_def)
next
  case False
  then have v: "v = new_navigator c" "r = 1"
    using assms(4) by (auto simp: run_navigator_def new_navigator_def)
  have "list_all (\<lambda>p. pr_pid p = 0 \<and> \<not> pr_desired p \<and> \<not> pr_restart_pending p) (pm_processes (new_manager c))"
    by (simp add: new_manager_def new_process_def list_all_iff)
  then have "stop_all_loop w (reverse_indices (new_manager c)) (new_manager c) = new_manager c"
    by (rule stop_all_idle) (auto simp: reverse_indices_def)
  then have "pm_processes (nv_manager (destroy_navigator w v)) = map new_process (rc_modules c)"
    by (simp add: v destroy_navigator_def new_navigator_def stop_all_def) (simp add: new_manager_def)
  then show ?thesis by (simp add: v(2) new_process_def)
qed

definition idle_turn :: turn where
  "idle_turn = \<lparr> tn_signal = False, tn_request = None, tn_status_now = 0, tn_children = [], tn_now = 0, tn_wall_ms = (\<lambda>i. 0) \<rparr>"

definition reexec_turns :: "turn list" where
  "reexec_turns = [idle_turn\<lparr>tn_request := Some ''start hmi''\<rparr>, idle_turn\<lparr>tn_request := Some ''reexec cloud''\<rparr>]"

definition test_identity :: identity where
  "test_identity = \<lparr> id_pid = 1, id_version = ''1'', id_commit = ''c'', id_executable = ''x'' \<rparr>"

lemma navigator_leaves_nothing_running_witness:
  "\<exists>v. run_navigator crash_world test_identity True reexec_turns (new_navigator default_run_config) = Some (75, v) \<and>
    nv_reexec_mode v = ''cloud'' \<and> (\<forall>p \<in> set (pm_processes (nv_manager (destroy_navigator crash_world v))). pr_pid p = 0)"
proof -
  let ?r = "run_navigator crash_world test_identity True reexec_turns (new_navigator default_run_config)"
  have w: "spawns_processes crash_world" "stops_work crash_world"
    by (simp_all add: spawns_processes_def stops_work_def crash_world_def stop_process_def Let_def)
  have t: "real_children reexec_turns" by code_simp
  have "map_option (\<lambda>x. (fst x, nv_reexec_mode (snd x))) ?r = Some (75, ''cloud'')" by code_simp
  then obtain v where v: "?r = Some (75, v)" "nv_reexec_mode v = ''cloud''" by (cases ?r) auto
  from navigator_leaves_nothing_running [OF w t v(1)] v show ?thesis by blast
qed

section \<open>A critical module that is lost\<close>

lemma critical_stays:
  "pm_critical_failure s \<Longrightarrow> pm_critical_failure (handle_exit s d)"
  "pm_critical_failure s \<Longrightarrow> pm_critical_failure (restart_one w now wall i s)"
  by (auto simp: handle_exit_def restart_one_def note_failure_def Let_def split: option.splits prod.splits)

lemma critical_stays_pass:
  assumes "pm_critical_failure s"
  shows "pm_critical_failure (foldl handle_exit s ds)" "pm_critical_failure (restart_pending w now wall s)"
proof -
  show "pm_critical_failure (foldl handle_exit s ds)"
    using assms by (induction ds arbitrary: s) (simp_all add: critical_stays)
  have "pm_critical_failure (fold (restart_one w now wall) is s)" for "is"
    using assms by (induction "is" arbitrary: s) (simp_all add: critical_stays)
  then show "pm_critical_failure (restart_pending w now wall s)" by (simp add: restart_pending_def)
qed

text \<open>A process that is the only one with its id.\<close>

definition only_process :: "process_manager \<Rightarrow> nat \<Rightarrow> process_record \<Rightarrow> bool" where
  "only_process s i p \<longleftrightarrow> i < length (pm_processes s) \<and> pm_processes s ! i = p \<and>
     (\<forall>j < length (pm_processes s). pr_pid (pm_processes s ! j) = pr_pid p \<longrightarrow> j = i)"

lemma only_process_find:
  assumes "only_process s i p"
  shows "List.find (\<lambda>q. pr_pid q = pr_pid p) (pm_processes s) = Some p"
proof (cases "List.find (\<lambda>q. pr_pid q = pr_pid p) (pm_processes s)")
  case None
  moreover have "p \<in> set (pm_processes s)" using assms by (auto simp: only_process_def)
  ultimately show ?thesis by (auto simp: find_None_iff)
next
  case (Some q)
  then obtain j where "j < length (pm_processes s)" "pm_processes s ! j = q" "pr_pid q = pr_pid p"
    by (rule find_update) blast
  with assms Some show ?thesis by (auto simp: only_process_def)
qed

lemma exit_process_pid: "pr_pid (fst (exit_process window now pid st wall p)) = 0"
  by (simp add: exit_process_def Let_def mark_failed_def)

lemma only_process_other:
  assumes p: "only_process s i p" and d: "dc_pid d \<noteq> pr_pid p" and pid: "pr_pid p \<noteq> 0"
  shows "only_process (handle_exit s d) i p"
proof -
  have at: "pm_processes (handle_exit s d) ! j = pm_processes s ! j \<or>
      pr_pid (pm_processes s ! j) = dc_pid d \<and> pr_pid (pm_processes (handle_exit s d) ! j) = 0"
    if "j < length (pm_processes s)" for j
    using that by (cases rule: handle_exit_at [where d = d]) (simp_all add: exit_process_pid)
  have "pm_processes (handle_exit s d) ! i = p"
    using at [of i] p d by (auto simp: only_process_def)
  moreover have "j = i" if "j < length (pm_processes s)" "pr_pid (pm_processes (handle_exit s d) ! j) = pr_pid p" for j
    using at [OF that(1)] that p pid by (auto simp: only_process_def)
  ultimately show ?thesis using p by (auto simp: only_process_def)
qed

lemma only_process_others:
  "only_process s i p \<Longrightarrow> pr_pid p \<noteq> 0 \<Longrightarrow> \<forall>d \<in> set ds. dc_pid d \<noteq> pr_pid p \<Longrightarrow>
    only_process (foldl handle_exit s ds) i p"
  by (induction ds arbitrary: s) (simp_all add: only_process_other)

lemma critical_death:
  assumes "only_process s i p" "dc_pid d = pr_pid p" "pr_desired p" "mc_critical (pr_config p)"
    "mc_restart_limit (pr_config p) \<le> int (length (recent_restarts (restart_window s) (dc_now d) (pr_restart_times p)))"
  shows "pm_critical_failure (handle_exit s d)"
  using only_process_find [OF assms(1)] assms(2-5)
  by (simp add: handle_exit_def exit_process_def mark_failed_def note_failure_def Let_def)

text \<open>A turn that follows others the loop went through.\<close>

definition after_turns :: "world \<Rightarrow> identity \<Rightarrow> turn list \<Rightarrow> navigator \<Rightarrow> navigator" where
  "after_turns w d ts v = foldl (\<lambda>v t. serve_turn w d t v) v ts"

lemma navigate_on:
  "navigate w d pre v = None \<Longrightarrow>
    navigate w d (pre @ ts) v = navigate w d ts (after_turns w d pre v) \<and> \<not> nv_stop_requested (after_turns w d pre v)"
proof (induction pre arbitrary: v)
  case (Cons t pre)
  then show ?case by (auto simp: after_turns_def Let_def split: if_splits)
qed (simp add: after_turns_def split: if_splits)

text \<open>The Navigator once the command of a turn was executed, before the turn looks for dead children.\<close>

definition after_request :: "world \<Rightarrow> identity \<Rightarrow> turn \<Rightarrow> navigator \<Rightarrow> navigator" where
  "after_request w d t v =
     (case tn_request t of None \<Rightarrow> v | Some r \<Rightarrow> snd (execute_command w d (tn_status_now t) r v))"

lemma critical_turn:
  assumes "tn_children t = early @ dc # late" "\<forall>x \<in> set early. dc_pid x \<noteq> dc_pid dc"
    "only_process (nv_manager (after_request w d t v)) i p" "dc_pid dc = pr_pid p" "pr_pid p \<noteq> 0" "pr_desired p"
    "mc_critical (pr_config p)"
    "mc_restart_limit (pr_config p) \<le> int (length (recent_restarts
       (restart_window (nv_manager (after_request w d t v))) (dc_now dc) (pr_restart_times p)))"
  shows "pm_critical_failure (nv_manager (serve_turn w d t v))"
proof -
  let ?m = "nv_manager (after_request w d t v)"
  let ?s = "foldl handle_exit ?m early"
  have p: "only_process ?s i p"
    using only_process_others [OF assms(3,5)] assms(2,4) by simp
  have "pm_config ?s = pm_config ?m"
    by (induction early rule: rev_induct) simp_all
  then have "restart_window ?s = restart_window ?m" by (rule restart_window_config)
  with critical_death [OF p assms(4,6,7)] assms(8) have "pm_critical_failure (handle_exit ?s dc)" by simp
  then show ?thesis
    using assms(1) critical_stays_pass by (simp add: serve_turn_def reap_exited_def after_request_def Let_def)
qed

text \<open>
  C15: losing a critical module ends the Navigator with exit code 1. When the Navigator entered its first mode and
  its loop goes on to a turn before which no signal came, and in this turn, after the command it may bring, a process
  of a module that is wanted and critical is among the children that died, whatever else died with it, and the
  module has had all the restarts its limit allows in the window, then \<open>Run\<close> ends in this very turn and returns 1,
  whatever command came and whatever would have come later. Process ids of processes that live are distinct.
\<close>

theorem critical_loss_ends_navigator:
  assumes "validate_run_config (nv_config v0) = None"
    and "switch_mode w (rc_initial_mode (nv_config v0)) (nv_manager v0) = (None, s)"
    and "navigate w d pre (v0\<lparr>nv_manager := s\<rparr>) = None" "v = after_turns w d pre (v0\<lparr>nv_manager := s\<rparr>)"
    and "\<not> tn_signal t" "m = nv_manager (after_request w d t v)"
    and "tn_children t = early @ dc # late" "\<forall>x \<in> set early. dc_pid x \<noteq> dc_pid dc"
    and "only_process m i p" "dc_pid dc = pr_pid p" "pr_pid p \<noteq> 0" "pr_desired p" "mc_critical (pr_config p)"
    and "mc_restart_limit (pr_config p) \<le>
       int (length (recent_restarts (restart_window m) (dc_now dc) (pr_restart_times p)))"
  shows "\<exists>v'. run_navigator w d True (pre @ t # ts) v0 = Some (1, v')"
proof -
  have "pm_critical_failure (nv_manager (serve_turn w d t v))"
    by (rule critical_turn [OF assms(7,8,9) [unfolded assms(6)] assms(10-13) assms(14) [unfolded assms(6)]])
  moreover note navigate_on [OF assms(3), of "t # ts", folded assms(4)]
  ultimately have "navigate w d (pre @ t # ts) (v0\<lparr>nv_manager := s\<rparr>) = Some (True, serve_turn w d t v)"
    using assms(5) by (simp add: Let_def)
  then show ?thesis
    using assms(1,2) by (simp add: run_navigator_def Let_def)
qed

definition death_turn :: "int \<Rightarrow> int \<Rightarrow> turn" where
  "death_turn pid at' = idle_turn\<lparr>tn_children := [\<lparr> dc_pid = pid, dc_status = Signaled 11 True, dc_now = at',
     dc_wall_ms = 0, dc_report_ms = 0 \<rparr>], tn_now := at' + 1500000000\<rparr>"

definition worn_turns :: "turn list" where
  "worn_turns = [death_turn 100 0, death_turn 107 2000000000, death_turn 108 4000000000]"

definition worn_manager :: process_manager where
  "worn_manager = nv_manager (after_turns crash_world test_identity worn_turns
     ((new_navigator default_run_config)\<lparr>nv_manager :=
       snd (switch_mode crash_world RmNormal (new_manager default_run_config))\<rparr>))"

lemma critical_loss_ends_navigator_witness:
  "\<exists>v'. run_navigator crash_world test_identity True (worn_turns @ [death_turn 109 6000000000])
    (new_navigator default_run_config) = Some (1, v')"
proof -
  let ?s = "snd (switch_mode crash_world RmNormal (new_manager default_run_config))"
  let ?p = "pm_processes worn_manager ! 0"
  have started: "fst (switch_mode crash_world RmNormal (new_manager default_run_config)) = None" by code_simp
  have goes: "navigate crash_world test_identity worn_turns ((new_navigator default_run_config)\<lparr>nv_manager := ?s\<rparr>) = None"
    by code_simp
  have pids: "filter (\<lambda>j. pr_pid (pm_processes worn_manager ! j) = 109) [0..<length (pm_processes worn_manager)] = [0]"
    by code_simp
  have p: "pr_pid ?p = 109" "pr_desired ?p" "mc_critical (pr_config ?p)"
    "mc_restart_limit (pr_config ?p) \<le> int (length (recent_restarts (restart_window worn_manager) 6000000000 (pr_restart_times ?p)))"
    by code_simp+
  have "j \<in> set [0]" if "j < length (pm_processes worn_manager)" "pr_pid (pm_processes worn_manager ! j) = 109" for j
    unfolding pids [symmetric] using that by simp
  moreover have "0 < length (pm_processes worn_manager)" by code_simp
  ultimately have only: "only_process worn_manager 0 ?p"
    using p(1) by (simp add: only_process_def)
  have c: "rc_initial_mode default_run_config = RmNormal" by code_simp
  show ?thesis
    by (rule critical_loss_ends_navigator [where pre = worn_turns and ts = "[]" and early = "[]" and late = "[]" and i = 0 and
        p = ?p and s = ?s and m = worn_manager and dc = "hd (tn_children (death_turn 109 6000000000))"])
      (use started goes p only default_config_valid in
        \<open>simp_all add: new_navigator_def c prod_eq_iff death_turn_def idle_turn_def after_request_def worn_manager_def\<close>)
qed

end
