(* ===== verification/Speech_Segments.thy ===== *)
theory Speech_Segments
  imports Audio_Stream
begin

text \<open>
  The segmenter of speech, \<open>cockpit/voice/speech/segment/speech_segmenter.cc\<close>: it cuts the stream of captured
  frames into segments of speech with a little sound from before, and hands each one to the recogniser. The
  detector's probability is not used by it and left out; so is the capacity \<open>StartSegment\<close> reserves.
\<close>

section \<open>Segments\<close>

datatype voice_activity = VaSilence | VaSpeech

record speech_segment =
  sg_start_sequence :: u64
  sg_end_sequence :: u64
  sg_start_time_ns :: int
  sg_end_time_ns :: int
  sg_truncated :: bool
  sg_discontinuous :: bool
  sg_samples :: "int list"

definition empty_segment :: speech_segment where
  "empty_segment = \<lparr> sg_start_sequence = 0, sg_end_sequence = 0, sg_start_time_ns = 0, sg_end_time_ns = 0,
     sg_truncated = False, sg_discontinuous = False, sg_samples = [] \<rparr>"

definition segment_frame_count :: "speech_segment \<Rightarrow> nat" where
  "segment_frame_count g = length (sg_samples g) div kSampleCount"

definition segment_duration_ms :: "speech_segment \<Rightarrow> nat" where
  "segment_duration_ms g = segment_frame_count g * unat kFrameMs"

record segmenter =
  sm_pre_roll_frames :: nat
  sm_max_segment_frames :: nat
  sm_pre_roll :: "audio_frame list"
  sm_active :: "speech_segment option"

definition new_segmenter :: "nat \<Rightarrow> nat \<Rightarrow> segmenter" where
  "new_segmenter pre m = \<lparr> sm_pre_roll_frames = pre, sm_max_segment_frames = m, sm_pre_roll = [], sm_active = None \<rparr>"

section \<open>Operations\<close>

definition append_frame :: "audio_frame \<Rightarrow> speech_segment \<Rightarrow> speech_segment" where
  "append_frame f g = (let g1 = (if sg_samples g = [] then
       g\<lparr>sg_start_sequence := au_sequence f, sg_start_time_ns := au_capture_time_ns f\<rparr> else g) in
     g1\<lparr>sg_end_sequence := au_sequence f, sg_end_time_ns := au_capture_time_ns f,
        sg_samples := sg_samples g @ au_samples f\<rparr>)"

definition push_pre_roll :: "audio_frame \<Rightarrow> segmenter \<Rightarrow> segmenter" where
  "push_pre_roll f s = (if sm_pre_roll_frames s = 0 then s
     else (let ps = sm_pre_roll s @ [f] in s\<lparr>sm_pre_roll := drop (length ps - sm_pre_roll_frames s) ps\<rparr>))"

definition start_segment :: "audio_frame \<Rightarrow> segmenter \<Rightarrow> segmenter" where
  "start_segment f s = s\<lparr>sm_active := Some (append_frame f (fold append_frame (sm_pre_roll s) empty_segment)),
     sm_pre_roll := []\<rparr>"

definition finish_segment :: "bool \<Rightarrow> bool \<Rightarrow> segmenter \<Rightarrow> speech_segment option \<times> segmenter" where
  "finish_segment truncated discontinuous s = (case sm_active s of
     None \<Rightarrow> (None, s)
   | Some g \<Rightarrow> (Some (g\<lparr>sg_truncated := truncated, sg_discontinuous := discontinuous\<rparr>), s\<lparr>sm_active := None\<rparr>))"

definition finish_if_full :: "segmenter \<Rightarrow> speech_segment option \<times> segmenter" where
  "finish_if_full s = (case sm_active s of
     None \<Rightarrow> (None, s)
   | Some g \<Rightarrow> if segment_frame_count g \<ge> sm_max_segment_frames s then finish_segment True False s else (None, s))"

text \<open>What follows the check for a discontinuity.\<close>

definition process_activity :: "audio_frame \<Rightarrow> voice_activity \<Rightarrow> segmenter \<Rightarrow> speech_segment option \<times> segmenter" where
  "process_activity f a s = (case sm_active s of
     None \<Rightarrow> (if a = VaSilence then (None, push_pre_roll f s) else finish_if_full (start_segment f s))
   | Some g \<Rightarrow>
       (if a = VaSpeech then finish_if_full (s\<lparr>sm_active := Some (append_frame f g)\<rparr>)
        else (case finish_segment False False s of (completed, s1) \<Rightarrow> (completed, push_pre_roll f s1))))"

definition process_speech :: "audio_frame \<Rightarrow> voice_activity \<Rightarrow> segmenter \<Rightarrow> speech_segment option \<times> segmenter" where
  "process_speech f a s =
     (if has_flag f kDiscontinuity then
        (case finish_segment False True s of (interrupted, s1) \<Rightarrow>
           let s2 = s1\<lparr>sm_pre_roll := []\<rparr> in
           if interrupted \<noteq> None then (interrupted, push_pre_roll f s2)
           else if a = VaSilence then (None, push_pre_roll f s2)
           else process_activity f a s2)
      else process_activity f a s)"

definition flush_segmenter :: "segmenter \<Rightarrow> speech_segment option \<times> segmenter" where
  "flush_segmenter s = finish_segment False False s"

definition reset_segmenter :: "segmenter \<Rightarrow> segmenter" where
  "reset_segmenter s = s\<lparr>sm_pre_roll := [], sm_active := None\<rparr>"

text \<open>A stream of frames, each with what the detector says of it: the segments completed, in order.\<close>

fun process_stream :: "(audio_frame \<times> voice_activity) list \<Rightarrow> segmenter \<Rightarrow> speech_segment list \<times> segmenter" where
  "process_stream [] s = ([], s)"
| "process_stream ((f, a) # fs) s = (case process_speech f a s of (completed, s1) \<Rightarrow>
     (case process_stream fs s1 of (gs, s2) \<Rightarrow> ((case completed of None \<Rightarrow> [] | Some g \<Rightarrow> [g]) @ gs, s2)))"

section \<open>A segment and its frames\<close>

definition built :: "audio_frame list \<Rightarrow> speech_segment" where
  "built fs = fold append_frame fs empty_segment"

lemma built_snoc: "append_frame f (built fs) = built (fs @ [f])"
  by (simp add: built_def)

definition full_frame :: "audio_frame \<Rightarrow> bool" where
  "full_frame f \<longleftrightarrow> length (au_samples f) = kSampleCount"

lemma sample_count_pos: "0 < kSampleCount"
  by (simp add: kSampleCount_def kSampleRateHz_def kFrameMs_def)

lemma built_fields:
  assumes "fs \<noteq> []" "list_all full_frame fs"
  shows "sg_samples (built fs) = concat (map au_samples fs) \<and> sg_samples (built fs) \<noteq> [] \<and>
    sg_start_sequence (built fs) = au_sequence (hd fs) \<and> sg_end_sequence (built fs) = au_sequence (last fs) \<and>
    sg_start_time_ns (built fs) = au_capture_time_ns (hd fs) \<and> sg_end_time_ns (built fs) = au_capture_time_ns (last fs)"
  using assms
proof (induction fs rule: rev_induct)
  case (snoc f fs)
  have f: "au_samples f \<noteq> []" using snoc.prems(2) sample_count_pos by (auto simp: full_frame_def)
  show ?case
  proof (cases "fs = []")
    case True
    then show ?thesis using f by (simp add: built_def append_frame_def empty_segment_def)
  next
    case False
    have "list_all full_frame fs" using snoc.prems(2) by simp
    note all = snoc.IH [OF False this]
    have IH: "sg_samples (built fs) = concat (map au_samples fs)" "sg_samples (built fs) \<noteq> []"
      "sg_start_sequence (built fs) = au_sequence (hd fs)" "sg_start_time_ns (built fs) = au_capture_time_ns (hd fs)"
      using all by blast+
    have "built (fs @ [f]) = (built fs)\<lparr>sg_end_sequence := au_sequence f, sg_end_time_ns := au_capture_time_ns f,
      sg_samples := sg_samples (built fs) @ au_samples f\<rparr>"
      using IH(2) by (simp add: built_snoc [symmetric] append_frame_def)
    with False IH(1,3,4) f show ?thesis by simp
  qed
qed simp

lemma built_frames: "list_all full_frame fs \<Longrightarrow> segment_frame_count (built fs) = length fs"
proof (induction fs rule: rev_induct)
  case Nil
  then show ?case by (simp add: built_def empty_segment_def segment_frame_count_def)
next
  case (snoc f fs)
  have "length (concat (map au_samples gs)) = length gs * kSampleCount" if "list_all full_frame gs" for gs
    using that by (induction gs) (simp_all add: full_frame_def)
  from this [OF snoc.prems] built_fields [OF _ snoc.prems] show ?case
    using sample_count_pos by (simp add: segment_frame_count_def)
qed

section \<open>How the stream is cut\<close>

text \<open>
  A cut of the frames so far: pairs of a gap and the frames of a segment, then a gap and the frames at hand,
  which are the pre-roll or the active segment. Gaps hold frames of silence or that follow a discontinuity, and a
  segment has no discontinuity after its first frame.
\<close>

type_synonym heard = "(audio_frame \<times> voice_activity) list"

definition may_skip :: "audio_frame \<times> voice_activity \<Rightarrow> bool" where
  "may_skip x \<longleftrightarrow> snd x = VaSilence \<or> has_flag (fst x) kDiscontinuity"

definition unbroken :: "heard \<Rightarrow> bool" where
  "unbroken xs \<longleftrightarrow> list_all (\<lambda>x. \<not> has_flag (fst x) kDiscontinuity) (tl xs)"

definition segment_of :: "segmenter \<Rightarrow> heard \<times> heard \<Rightarrow> speech_segment \<Rightarrow> bool" where
  "segment_of s c g \<longleftrightarrow> list_all may_skip (fst c) \<and> snd c \<noteq> [] \<and> unbroken (snd c) \<and>
     length (snd c) \<le> max (sm_max_segment_frames s) (sm_pre_roll_frames s + 1) \<and>
     (\<exists>t d. g = (built (map fst (snd c)))\<lparr>sg_truncated := t, sg_discontinuous := d\<rparr>)"

definition at_hand :: "heard \<Rightarrow> segmenter \<Rightarrow> bool" where
  "at_hand cur s \<longleftrightarrow> unbroken cur \<and> (case sm_active s of
     None \<Rightarrow> map fst cur = sm_pre_roll s \<and> list_all may_skip cur \<and> length cur \<le> sm_pre_roll_frames s
   | Some g \<Rightarrow> sm_pre_roll s = [] \<and> cur \<noteq> [] \<and> g = built (map fst cur) \<and> length cur < sm_max_segment_frames s)"

definition same_limits :: "segmenter \<Rightarrow> segmenter \<Rightarrow> bool" where
  "same_limits s t \<longleftrightarrow> sm_pre_roll_frames t = sm_pre_roll_frames s \<and> sm_max_segment_frames t = sm_max_segment_frames s"

text \<open>One step: the frames at hand and the new one are, in this order, a gap, a segment if one was completed, and what is at hand then.\<close>

definition cut_step :: "heard \<Rightarrow> audio_frame \<times> voice_activity \<Rightarrow> segmenter \<Rightarrow> speech_segment option \<times> segmenter \<Rightarrow> bool" where
  "cut_step cur x s r \<longleftrightarrow> same_limits s (snd r) \<and> (case fst r of
     None \<Rightarrow> \<exists>gap cur'. cur @ [x] = gap @ cur' \<and> list_all may_skip gap \<and> at_hand cur' (snd r)
   | Some g \<Rightarrow> \<exists>gap fs gap' cur'. cur @ [x] = gap @ fs @ gap' @ cur' \<and> segment_of s (gap, fs) g \<and>
       list_all may_skip gap' \<and> at_hand cur' (snd r))"

lemma cut_none:
  "same_limits s t \<Longrightarrow> cur @ [x] = gap @ cur' \<Longrightarrow> list_all may_skip gap \<Longrightarrow> at_hand cur' t \<Longrightarrow> cut_step cur x s (None, t)"
  unfolding cut_step_def by (simp only: fst_conv snd_conv option.case) blast

lemma cut_some:
  "same_limits s t \<Longrightarrow> cur @ [x] = gap @ fs @ gap' @ cur' \<Longrightarrow> segment_of s (gap, fs) g \<Longrightarrow> list_all may_skip gap' \<Longrightarrow>
    at_hand cur' t \<Longrightarrow> cut_step cur x s (Some g, t)"
  unfolding cut_step_def by (simp only: fst_conv snd_conv option.case) blast

lemma unbroken_snoc: "unbroken cur \<Longrightarrow> \<not> has_flag (fst x) kDiscontinuity \<Longrightarrow> unbroken (cur @ [x])"
  by (cases cur) (simp_all add: unbroken_def)

lemma unbroken_drop: "unbroken cur \<Longrightarrow> unbroken (drop n cur)"
  unfolding unbroken_def tl_drop list_all_iff by (blast dest: in_set_dropD)

lemma unbroken_single [simp]: "unbroken [x]" "unbroken []"
  by (simp_all add: unbroken_def)

text \<open>A skippable frame is kept for later.\<close>

lemma push_cut:
  assumes "sm_active s = None" "map fst cur = sm_pre_roll s" "list_all may_skip (cur @ [x])" "unbroken (cur @ [x])"
    "length cur \<le> sm_pre_roll_frames s"
  obtains gap cur' where "cur @ [x] = gap @ cur'" "list_all may_skip gap" "at_hand cur' (push_pre_roll (fst x) s)"
    "same_limits s (push_pre_roll (fst x) s)"
proof (cases "sm_pre_roll_frames s = 0")
  case True
  with assms show ?thesis
    by (intro that [of "cur @ [x]" "[]"]) (simp_all add: push_pre_roll_def at_hand_def same_limits_def)
next
  case False
  define cs where "cs = cur @ [x]"
  define n where "n = length cs - sm_pre_roll_frames s"
  have len: "length (sm_pre_roll s @ [fst x]) = length cs"
    using arg_cong [OF assms(2), of length] by (simp add: cs_def)
  have "sm_pre_roll s @ [fst x] = map fst cs" using assms(2) by (simp add: cs_def)
  with len False have p: "push_pre_roll (fst x) s = s\<lparr>sm_pre_roll := drop n (map fst cs)\<rparr>"
    by (simp add: push_pre_roll_def n_def Let_def)
  have cs: "list_all may_skip cs" "unbroken cs" using assms(3,4) by (simp_all add: cs_def)
  show ?thesis
  proof (rule that [of "take n cs" "drop n cs"])
    show "cur @ [x] = take n cs @ drop n cs" by (simp add: cs_def [symmetric])
    show "list_all may_skip (take n cs)"
      using cs(1) unfolding list_all_iff by (blast dest: in_set_takeD)
    have "list_all may_skip (drop n cs)"
      using cs(1) unfolding list_all_iff by (blast dest: in_set_dropD)
    moreover have "length (drop n cs) \<le> sm_pre_roll_frames s" by (simp add: n_def)
    ultimately show "at_hand (drop n cs) (push_pre_roll (fst x) s)"
      using assms(1) unbroken_drop [OF cs(2)] unfolding p at_hand_def by (simp add: drop_map)
    show "same_limits s (push_pre_roll (fst x) s)" unfolding p by (simp add: same_limits_def)
  qed
qed

text \<open>A segment that grew is finished when it is full.\<close>

lemma full_cut:
  assumes "sm_pre_roll s = []" "sm_active s = Some (built (map fst cs))" "cs \<noteq> []" "unbroken cs"
    "list_all full_frame (map fst cs)" "length cs \<le> max (sm_max_segment_frames s) (sm_pre_roll_frames s + 1)"
    and that: "cur @ [x] = cs" "same_limits s0 s"
  shows "cut_step cur x s0 (finish_if_full s)"
proof (cases "sm_max_segment_frames s \<le> length cs")
  case True
  then have r: "finish_if_full s = (Some ((built (map fst cs))\<lparr>sg_truncated := True, sg_discontinuous := False\<rparr>), s\<lparr>sm_active := None\<rparr>)"
    using assms(2) built_frames [OF assms(5)] by (simp add: finish_if_full_def finish_segment_def)
  have "segment_of s0 ([], cs) ((built (map fst cs))\<lparr>sg_truncated := True, sg_discontinuous := False\<rparr>)"
    using assms(3,4,6) that(2) by (auto simp: segment_of_def same_limits_def)
  moreover have "at_hand [] (s\<lparr>sm_active := None\<rparr>)" using assms(1) by (simp add: at_hand_def)
  ultimately show ?thesis
    unfolding r using that
    by (intro cut_some [where gap = "[]" and fs = cs and gap' = "[]" and cur' = "[]"]) (simp_all add: same_limits_def)
next
  case False
  then have r: "finish_if_full s = (None, s)"
    using assms(2) built_frames [OF assms(5)] by (simp add: finish_if_full_def)
  have "at_hand cs s" using assms(1-4) False by (simp add: at_hand_def)
  then show ?thesis
    unfolding r using that by (intro cut_none [where gap = "[]" and cur' = cs]) simp_all
qed

lemma process_activity_cut:
  assumes h: "at_hand cur s" and u: "unbroken (cur @ [(f, a)])" and full: "list_all full_frame (map fst (cur @ [(f, a)]))"
  shows "cut_step cur (f, a) s (process_activity f a s)"
proof (cases "sm_active s")
  case None
  with h have pre: "map fst cur = sm_pre_roll s" "list_all may_skip cur" "length cur \<le> sm_pre_roll_frames s"
    by (simp_all add: at_hand_def)
  show ?thesis
  proof (cases a)
    case VaSilence
    then have skip: "list_all may_skip (cur @ [(f, a)])" using pre(2) by (simp add: may_skip_def)
    obtain gap cur' where "cur @ [(f, a)] = gap @ cur'" "list_all may_skip gap"
      "at_hand cur' (push_pre_roll (fst (f, a)) s)" "same_limits s (push_pre_roll (fst (f, a)) s)"
      by (rule push_cut [OF None pre(1) skip u pre(3)])
    with None VaSilence show ?thesis by (auto simp: process_activity_def intro: cut_none)
  next
    case VaSpeech
    let ?s = "start_segment f s"
    have "cut_step cur (f, a) s (finish_if_full ?s)"
    proof (rule full_cut [OF _ _ _ u full _ refl])
      show "sm_active ?s = Some (built (map fst (cur @ [(f, a)])))"
        using pre(1) by (simp add: start_segment_def built_def)
      show "length (cur @ [(f, a)]) \<le> max (sm_max_segment_frames ?s) (sm_pre_roll_frames ?s + 1)"
        using pre(3) by (simp add: start_segment_def)
    qed (simp_all add: start_segment_def same_limits_def)
    with None VaSpeech show ?thesis by (simp add: process_activity_def)
  qed
next
  case (Some g)
  with h have act: "sm_pre_roll s = []" "cur \<noteq> []" "g = built (map fst cur)" "length cur < sm_max_segment_frames s"
    "unbroken cur"
    by (simp_all add: at_hand_def)
  show ?thesis
  proof (cases a)
    case VaSpeech
    let ?s = "s\<lparr>sm_active := Some (append_frame f g)\<rparr>"
    have "cut_step cur (f, a) s (finish_if_full ?s)"
    proof (rule full_cut [OF _ _ _ u full _ refl])
      show "sm_active ?s = Some (built (map fst (cur @ [(f, a)])))"
        using act(3) by (simp add: built_snoc)
      show "length (cur @ [(f, a)]) \<le> max (sm_max_segment_frames ?s) (sm_pre_roll_frames ?s + 1)"
        using act(4) by simp
    qed (use act(1) in \<open>simp_all add: same_limits_def\<close>)
    with Some VaSpeech show ?thesis by (simp add: process_activity_def)
  next
    case VaSilence
    let ?s = "s\<lparr>sm_active := None\<rparr>"
    have g: "segment_of s ([], cur) (g\<lparr>sg_truncated := False, sg_discontinuous := False\<rparr>)"
      using act by (auto simp: segment_of_def)
    have skip: "list_all may_skip ([] @ [(f, a)])" using VaSilence by (simp add: may_skip_def)
    obtain gap cur' where "[] @ [(f, a)] = gap @ cur'" "list_all may_skip gap"
      "at_hand cur' (push_pre_roll (fst (f, a)) ?s)" "same_limits ?s (push_pre_roll (fst (f, a)) ?s)"
      by (rule push_cut [of ?s "[]" "(f, a)"]) (use act(1) skip in simp_all)
    then have "cut_step cur (f, a) s (Some (g\<lparr>sg_truncated := False, sg_discontinuous := False\<rparr>), push_pre_roll f ?s)"
      by (intro cut_some [OF _ _ g]) (simp_all add: same_limits_def)
    then show ?thesis
      using Some VaSilence by (simp add: process_activity_def finish_segment_def)
  qed
qed

text \<open>What was skippable may lie before a step.\<close>

lemma cut_after:
  assumes "cut_step [] x s t" "list_all may_skip cur" "same_limits s0 s"
  shows "cut_step cur x s0 t"
proof -
  obtain c r where t: "t = (c, r)" by (cases t)
  have lim: "same_limits s0 r" using assms(1,3) by (simp add: t cut_step_def same_limits_def)
  show ?thesis
  proof (cases c)
    case None
    with assms(1) t obtain gap cur' where "[x] = gap @ cur'" "list_all may_skip gap" "at_hand cur' r"
      by (auto simp: cut_step_def)
    then show ?thesis
      unfolding t None using assms(2) by (intro cut_none [OF lim, where gap = "cur @ gap"]) simp_all
  next
    case (Some g)
    with assms(1) t obtain gap fs gap' cur' where "[x] = gap @ fs @ gap' @ cur'" "segment_of s (gap, fs) g"
      "list_all may_skip gap'" "at_hand cur' r"
      by (auto simp: cut_step_def)
    then show ?thesis
      unfolding t Some using assms(2,3)
      by (intro cut_some [OF lim, where gap = "cur @ gap" and fs = fs]) (auto simp: segment_of_def same_limits_def)
  qed
qed

lemma push_alone:
  assumes "sm_active s = None" "sm_pre_roll s = []" "may_skip x" "same_limits s0 s"
  shows "cut_step [] x s0 (None, push_pre_roll (fst x) s)"
proof -
  have "list_all may_skip ([] @ [x])" "unbroken ([] @ [x])" using assms(3) by simp_all
  then obtain gap cur' where "[] @ [x] = gap @ cur'" "list_all may_skip gap" "at_hand cur' (push_pre_roll (fst x) s)"
    "same_limits s (push_pre_roll (fst x) s)"
    by (rule push_cut [of s "[]" x, rotated 2]) (simp_all add: assms)
  then show ?thesis using assms(4) by (intro cut_none) (simp_all add: same_limits_def)
qed

lemma process_speech_cut:
  assumes h: "at_hand cur s" and full: "list_all full_frame (map fst (cur @ [(f, a)]))"
  shows "cut_step cur (f, a) s (process_speech f a s)"
proof (cases "has_flag f kDiscontinuity")
  case False
  have "unbroken (cur @ [(f, a)])" using h False by (intro unbroken_snoc) (simp_all add: at_hand_def)
  with process_activity_cut [OF h _ full] False show ?thesis by (simp add: process_speech_def)
next
  case True
  then have skip: "may_skip (f, a)" by (simp add: may_skip_def)
  show ?thesis
  proof (cases "sm_active s")
    case (Some g)
    let ?s = "s\<lparr>sm_active := None, sm_pre_roll := []\<rparr>"
    let ?g = "g\<lparr>sg_truncated := False, sg_discontinuous := True\<rparr>"
    have g: "segment_of s ([], cur) ?g" using h Some by (auto simp: segment_of_def at_hand_def)
    have "cut_step [] (f, a) ?s (None, push_pre_roll f ?s)"
      using push_alone [of ?s "(f, a)" ?s] skip by (simp add: same_limits_def)
    then obtain gap cur' where "[(f, a)] = gap @ cur'" "list_all may_skip gap" "at_hand cur' (push_pre_roll f ?s)"
      "same_limits ?s (push_pre_roll f ?s)"
      by (auto simp: cut_step_def)
    then have "cut_step cur (f, a) s (Some ?g, push_pre_roll f ?s)"
      by (intro cut_some [OF _ _ g]) (simp_all add: same_limits_def)
    with True Some show ?thesis by (simp add: process_speech_def finish_segment_def Let_def)
  next
    case None
    let ?s = "s\<lparr>sm_pre_roll := []\<rparr>"
    have cur: "list_all may_skip cur" using h None by (simp add: at_hand_def)
    have lim: "same_limits s ?s" by (simp add: same_limits_def)
    have "cut_step [] (f, a) ?s (if a = VaSilence then (None, push_pre_roll f ?s) else process_activity f a ?s)"
    proof (cases "a = VaSilence")
      case True
      then show ?thesis using push_alone [of ?s "(f, a)" ?s] skip None by (simp add: same_limits_def)
    next
      case False
      have "at_hand [] ?s" using None by (simp add: at_hand_def)
      from process_activity_cut [OF this] False full show ?thesis by simp
    qed
    from cut_after [OF this cur lim] True None show ?thesis
      by (simp add: process_speech_def finish_segment_def Let_def split: if_splits)
  qed
qed

lemma stream_cut:
  assumes "at_hand cur s" "list_all may_skip skipped" "list_all full_frame (map fst (cur @ fs))"
    "process_stream fs s = (gs, s')"
  shows "\<exists>cs gap rest. skipped @ cur @ fs = concat (map (\<lambda>(g, xs). g @ xs) cs) @ gap @ rest \<and>
    list_all2 (segment_of s) cs gs \<and> list_all may_skip gap \<and> at_hand rest s'"
  using assms
proof (induction fs arbitrary: cur s skipped gs)
  case Nil
  then show ?case by (intro exI [of _ "[]"] exI [of _ skipped] exI [of _ cur]) simp
next
  case (Cons x fs)
  obtain f a where x: "x = (f, a)" by (cases x)
  obtain c s1 where step: "process_speech f a s = (c, s1)" by fastforce
  obtain gs1 where rest: "process_stream fs s1 = (gs1, s')" "gs = (case c of None \<Rightarrow> [] | Some g \<Rightarrow> [g]) @ gs1"
    using Cons.prems(4) x step by (auto split: prod.splits)
  have "cut_step cur (f, a) s (c, s1)"
    using process_speech_cut [OF Cons.prems(1), of f a] Cons.prems(3) x step by simp
  then have cut: "cut_step cur x s (c, s1)" "same_limits s s1" by (simp_all add: x cut_step_def)
  then have seg: "segment_of s1 = segment_of s" by (intro ext) (simp add: segment_of_def same_limits_def)
  show ?case
  proof (cases c)
    case None
    with cut(1) obtain gap cur' where cur': "cur @ [x] = gap @ cur'" "list_all may_skip gap" "at_hand cur' s1"
      by (auto simp: cut_step_def)
    have "list_all full_frame (map fst ((cur @ [x]) @ fs))" using Cons.prems(3) by simp
    then have "list_all full_frame (map fst (cur' @ fs))" unfolding cur'(1) by simp
    moreover have "list_all may_skip (skipped @ gap)" using Cons.prems(2) cur'(2) by simp
    ultimately obtain cs g r where "(skipped @ gap) @ cur' @ fs = concat (map (\<lambda>(g, xs). g @ xs) cs) @ g @ r"
      "list_all2 (segment_of s) cs gs1" "list_all may_skip g" "at_hand r s'"
      using Cons.IH [OF cur'(3) _ _ rest(1)] seg by metis
    moreover have "skipped @ cur @ x # fs = (skipped @ gap) @ cur' @ fs"
      using arg_cong [OF cur'(1), of "\<lambda>ys. skipped @ ys @ fs"] by simp
    ultimately show ?thesis using rest(2) None by auto
  next
    case (Some g)
    with cut(1) obtain gap xs gap' cur' where cur': "cur @ [x] = gap @ xs @ gap' @ cur'" "segment_of s (gap, xs) g"
      "list_all may_skip gap'" "at_hand cur' s1"
      by (auto simp: cut_step_def)
    have "list_all full_frame (map fst ((cur @ [x]) @ fs))" using Cons.prems(3) by simp
    then have "list_all full_frame (map fst (cur' @ fs))" unfolding cur'(1) by simp
    then obtain cs h r where IH: "gap' @ cur' @ fs = concat (map (\<lambda>(g, xs). g @ xs) cs) @ h @ r"
      "list_all2 (segment_of s) cs gs1" "list_all may_skip h" "at_hand r s'"
      using Cons.IH [OF cur'(4,3) _ rest(1)] seg by metis
    have "segment_of s (skipped @ gap, xs) g" using cur'(2) Cons.prems(2) by (simp add: segment_of_def)
    moreover have "skipped @ cur @ x # fs = concat (map (\<lambda>(g, xs). g @ xs) ((skipped @ gap, xs) # cs)) @ h @ r"
      using arg_cong [OF cur'(1), of "\<lambda>ys. skipped @ ys @ fs"] IH(1) by simp
    ultimately show ?thesis
      using rest(2) Some IH(2-4) by (intro exI [of _ "(skipped @ gap, xs) # cs"] exI [of _ h] exI [of _ r]) simp
  qed
qed

lemma step_limits: "same_limits s (snd (process_speech f a s))"
  by (simp add: process_speech_def process_activity_def finish_segment_def finish_if_full_def push_pre_roll_def
      start_segment_def same_limits_def Let_def split: option.splits)

lemma stream_limits: "same_limits s (snd (process_stream fs s))"
proof (induction fs arbitrary: s)
  case (Cons x fs)
  obtain f a where x: "x = (f, a)" by (cases x)
  obtain c s1 where "process_speech f a s = (c, s1)" by fastforce
  with step_limits [of s f a] Cons [of s1] x show ?case
    by (auto simp: same_limits_def split: prod.splits)
qed (simp add: same_limits_def)

text \<open>What a segment says of the frames it is made of.\<close>

definition covers :: "speech_segment \<Rightarrow> heard \<Rightarrow> bool" where
  "covers g xs \<longleftrightarrow> xs \<noteq> [] \<and> unbroken xs \<and> sg_samples g = concat (map (au_samples \<circ> fst) xs) \<and>
     sg_start_sequence g = au_sequence (fst (hd xs)) \<and> sg_end_sequence g = au_sequence (fst (last xs)) \<and>
     sg_start_time_ns g = au_capture_time_ns (fst (hd xs)) \<and> sg_end_time_ns g = au_capture_time_ns (fst (last xs))"

lemma built_covers:
  assumes "xs \<noteq> []" "unbroken xs" "list_all full_frame (map fst xs)"
  shows "covers ((built (map fst xs))\<lparr>sg_truncated := t, sg_discontinuous := d\<rparr>) xs" "covers (built (map fst xs)) xs"
proof -
  have "map fst xs \<noteq> []" using assms(1) by simp
  from built_fields [OF this assms(3)] assms(1,2)
  show "covers ((built (map fst xs))\<lparr>sg_truncated := t, sg_discontinuous := d\<rparr>) xs" "covers (built (map fst xs)) xs"
    by (simp_all add: covers_def hd_map last_map)
qed

text \<open>
  C22: the stream is cut into segments without loss. The frames heard are, in their order, pairs of a gap and a segment's
  frames, then a last gap, then the frames of the active segment or the pre-roll. Each completed segment holds exactly the
  samples of its frames with the numbers and times of the first and the last, has no discontinuity inside and at most
  \<open>max_segment_frames\<close> frames, or the pre-roll and one. A gap holds nothing but silence and frames that follow
  a discontinuity: no other frame of speech is missed, and none is in two segments. A captured frame has 320 samples.
\<close>

theorem segments_partition_speech:
  assumes "list_all full_frame (map fst fs)" "process_stream fs (new_segmenter pre m) = (gs, s)"
  shows "\<exists>cs gap rest. fs = concat (map (\<lambda>(gap, xs). gap @ xs) cs) @ gap @ rest \<and>
    list_all2 (\<lambda>(gap, xs) g. list_all may_skip gap \<and> covers g xs \<and> length xs \<le> max m (pre + 1)) cs gs \<and>
    list_all may_skip gap \<and>
    (case sm_active s of None \<Rightarrow> list_all may_skip rest \<and> length rest \<le> pre | Some g \<Rightarrow> covers g rest)"
proof -
  let ?s = "new_segmenter pre m"
  have "at_hand [] ?s" by (simp add: at_hand_def new_segmenter_def)
  from stream_cut [OF this, of "[]" fs gs s] assms obtain cs gap rest where
    cut: "fs = concat (map (\<lambda>(g, xs). g @ xs) cs) @ gap @ rest" "list_all2 (segment_of ?s) cs gs"
      "list_all may_skip gap" "at_hand rest s"
    by auto
  have full: "list_all full_frame (map fst xs)" if "(g, xs) \<in> set cs" for g xs
    using assms(1) that unfolding cut(1) by (fastforce simp: list_all_iff)
  have "list_all2 (\<lambda>(gap, xs) g. list_all may_skip gap \<and> covers g xs \<and> length xs \<le> max m (pre + 1)) cs gs"
    unfolding list_all2_conv_all_nth
  proof (intro conjI allI impI)
    show "length cs = length gs" using cut(2) by (rule list_all2_lengthD)
    fix i
    assume i: "i < length cs"
    obtain g xs where c: "cs ! i = (g, xs)" by fastforce
    have "(g, xs) \<in> set cs" using i c nth_mem by force
    moreover have "segment_of ?s (g, xs) (gs ! i)" using list_all2_nthD [OF cut(2) i] c by simp
    ultimately show "(\<lambda>(gap, xs) g. list_all may_skip gap \<and> covers g xs \<and> length xs \<le> max m (pre + 1)) (cs ! i) (gs ! i)"
      using full built_covers(1) c by (auto simp: segment_of_def new_segmenter_def)
  qed
  moreover have "case sm_active s of None \<Rightarrow> list_all may_skip rest \<and> length rest \<le> pre | Some g \<Rightarrow> covers g rest"
  proof (cases "sm_active s")
    case None
    have "sm_pre_roll_frames s = pre"
      using stream_limits [of ?s fs] assms(2) by (simp add: same_limits_def new_segmenter_def)
    with None cut(4) show ?thesis by (simp add: at_hand_def)
  next
    case (Some g)
    have "list_all full_frame (map fst rest)" using assms(1) unfolding cut(1) by simp
    with Some cut(4) built_covers(2) show ?thesis by (simp add: at_hand_def)
  qed
  ultimately show ?thesis using cut(1,3) by blast
qed

definition test_frame :: "nat \<Rightarrow> u32 \<Rightarrow> audio_frame" where
  "test_frame n flags = \<lparr> au_sequence = of_nat n, au_capture_time_ns = int n * 20000000, au_flags = flags,
     au_samples = replicate 320 (int n) \<rparr>"

definition test_stream :: heard where
  "test_stream = [(test_frame 1 0, VaSilence), (test_frame 2 0, VaSilence), (test_frame 3 0, VaSpeech),
     (test_frame 4 0, VaSpeech), (test_frame 5 0, VaSilence), (test_frame 8 1, VaSpeech)]"

lemma segments_partition_speech_witness:
  "\<exists>gs s cs gap rest. process_stream test_stream (new_segmenter 1 750) = (gs, s) \<and>
    test_stream = concat (map (\<lambda>(gap, xs). gap @ xs) cs) @ gap @ rest \<and> length cs = length gs \<and> list_all may_skip gap"
proof -
  have full: "list_all full_frame (map fst test_stream)"
    by (simp add: test_stream_def test_frame_def full_frame_def kSampleCount_def kSampleRateHz_def kFrameMs_def)
  obtain gs s where r: "process_stream test_stream (new_segmenter 1 750) = (gs, s)" by fastforce
  show ?thesis
    using segments_partition_speech [OF full r] r list_all2_lengthD by blast
qed

end
