(* ===== verification/Event_Video.thy ===== *)
theory Event_Video
  imports Paths
begin

text \<open>
  The video of an event, \<open>cockpit/spider/recording/video\<close>: a ring of the groups of pictures of the last seconds,
  \<open>h264_gop_ring.cc\<close>, and the recorder that writes them and what follows to a file when something happens,
  \<open>event_video_recorder.cc\<close>. The muxer behind it is GStreamer: what its calls answer is a sequence \<open>w\<close>,
  \<open>None\<close> for success, and the state counts the calls. Every method holds the recorder's mutex and is one step.
  Presentation times are \<open>int\<close>; the products of the constructor and of \<open>Trigger\<close> are those of settings.
\<close>

section \<open>The ring\<close>

record video_packet =
  vp_data :: "u8 list"
  vp_pts :: int
  vp_dts :: int
  vp_keyframe :: bool

record gop_ring =
  gr_max_duration_pts :: int
  gr_gops :: "video_packet list list"
  gr_current :: "video_packet list"

definition new_gop_ring :: "int \<Rightarrow> nat \<Rightarrow> gop_ring" where
  "new_gop_ring max_duration_ms fps = \<lparr> gr_max_duration_pts = (max 1 max_duration_ms * int (max 1 fps)) div 1000,
     gr_gops = [], gr_current = [] \<rparr>"

definition ring_snapshot :: "gop_ring \<Rightarrow> video_packet list" where
  "ring_snapshot r = concat (gr_gops r) @ gr_current r"

definition ring_size :: "gop_ring \<Rightarrow> nat" where
  "ring_size r = length (gr_current r) + sum_list (map length (gr_gops r))"

definition expired :: "int \<Rightarrow> int \<Rightarrow> video_packet list \<Rightarrow> bool" where
  "expired newest limit gop \<longleftrightarrow> \<not> (gop = [] \<or> newest - vp_pts (hd gop) \<le> limit)"

definition ring_trim :: "gop_ring \<Rightarrow> gop_ring" where
  "ring_trim r = (if ring_snapshot r = [] then r
     else r\<lparr>gr_gops := dropWhile (expired (vp_pts (last (ring_snapshot r))) (gr_max_duration_pts r)) (gr_gops r)\<rparr>)"

definition ring_append :: "video_packet \<Rightarrow> gop_ring \<Rightarrow> bool \<times> gop_ring" where
  "ring_append p r = (if vp_data p = [] then (False, r)
     else (let r1 = (if vp_keyframe p \<and> gr_current r \<noteq> [] then r\<lparr>gr_gops := gr_gops r @ [gr_current r], gr_current := []\<rparr> else r) in
       if gr_current r1 = [] \<and> \<not> vp_keyframe p then (False, r1)
       else (True, ring_trim (r1\<lparr>gr_current := gr_current r1 @ [p]\<rparr>))))"

definition ring_clear :: "gop_ring \<Rightarrow> gop_ring" where
  "ring_clear r = r\<lparr>gr_gops := [], gr_current := []\<rparr>"

lemma ring_size_snapshot: "ring_size r = length (ring_snapshot r)"
  by (simp add: ring_size_def ring_snapshot_def length_concat)

section \<open>The recorder\<close>

record video_recorder =
  vr_directory :: string
  vr_pre_event_ms :: int
  vr_post_event_ms :: int
  vr_fps :: nat
  vr_ring :: gop_ring
  vr_active :: bool
  vr_finish_pts :: int
  vr_open :: "(string \<times> video_packet list) option"
  vr_clips :: "(string \<times> video_packet list) list"
  vr_calls :: nat

definition new_video_recorder :: "string \<Rightarrow> int \<Rightarrow> int \<Rightarrow> nat \<Rightarrow> video_recorder" where
  "new_video_recorder dir pre post fps = \<lparr> vr_directory = dir, vr_pre_event_ms = pre, vr_post_event_ms = post, vr_fps = fps,
     vr_ring = new_gop_ring pre fps, vr_active = False, vr_finish_pts = 0, vr_open = None, vr_clips = [], vr_calls = 0 \<rparr>"

definition safe_event_char :: "char \<Rightarrow> char" where
  "safe_event_char c = (if is_alnum c \<or> c = CHR ''-'' \<or> c = CHR ''_'' then c else CHR ''_'')"

definition safe_event_id :: "string \<Rightarrow> string" where
  "safe_event_id s = map safe_event_char s"

text \<open>
  The muxer: its file with the packets it took, if one is open, and the files it closed. \<open>mux_open\<close> closes a
  file that is open; a file ends with \<open>mux_close\<close>, whatever that answers. Its answer is an input, so it may also be the failure the
  code reports when the error string of the caller was not empty before.
\<close>

type_synonym mux_answers = "nat \<Rightarrow> string option"

definition mux_end :: "video_recorder \<Rightarrow> video_recorder" where
  "mux_end v = (case vr_open v of None \<Rightarrow> v | Some clip \<Rightarrow> v\<lparr>vr_open := None, vr_clips := vr_clips v @ [clip]\<rparr>)"

definition mux_open :: "mux_answers \<Rightarrow> string \<Rightarrow> video_recorder \<Rightarrow> string option \<times> video_recorder" where
  "mux_open w path v0 = (let v = mux_end v0 in
     if path = [] \<or> vr_fps v = 0 then (Some ''invalid MP4 muxer configuration'', v)
     else (case w (vr_calls v) of
         Some e \<Rightarrow> (Some e, v\<lparr>vr_calls := vr_calls v + 1\<rparr>)
       | None \<Rightarrow> (None, v\<lparr>vr_calls := vr_calls v + 1, vr_open := Some (path, [])\<rparr>)))"

definition mux_write :: "mux_answers \<Rightarrow> video_packet \<Rightarrow> video_recorder \<Rightarrow> string option \<times> video_recorder" where
  "mux_write w p v = (case vr_open v of
     None \<Rightarrow> (Some ''MP4 muxer is not open or packet is empty'', v)
   | Some (path, ps) \<Rightarrow>
       if vp_data p = [] then (Some ''MP4 muxer is not open or packet is empty'', v)
       else (case w (vr_calls v) of
           Some e \<Rightarrow> (Some ''write MP4 packet failed'', v\<lparr>vr_calls := vr_calls v + 1\<rparr>)
         | None \<Rightarrow> (None, v\<lparr>vr_calls := vr_calls v + 1, vr_open := Some (path, ps @ [p])\<rparr>)))"

definition mux_close :: "mux_answers \<Rightarrow> video_recorder \<Rightarrow> string option \<times> video_recorder" where
  "mux_close w v = (case vr_open v of
     None \<Rightarrow> (None, v)
   | Some clip \<Rightarrow> (w (vr_calls v), (mux_end v)\<lparr>vr_calls := vr_calls v + 1\<rparr>))"

definition recorder_finish :: "mux_answers \<Rightarrow> video_recorder \<Rightarrow> string option \<times> video_recorder" where
  "recorder_finish w v = (if \<not> vr_active v then (None, v) else mux_close w (v\<lparr>vr_active := False\<rparr>))"

definition recorder_append :: "mux_answers \<Rightarrow> video_packet \<Rightarrow> video_recorder \<Rightarrow> string option \<times> video_recorder" where
  "recorder_append w p v = (case ring_append p (vr_ring v) of (accepted, ring) \<Rightarrow>
     let v1 = v\<lparr>vr_ring := ring\<rparr> in
     if \<not> accepted then ((if vp_data p = [] then Some ''encoded video packet is empty'' else None), v1)
     else if \<not> vr_active v1 then (None, v1)
     else (case mux_write w p v1 of
         (Some e, v2) \<Rightarrow> (Some e, v2)
       | (None, v2) \<Rightarrow> if vp_pts p \<ge> vr_finish_pts v2 then recorder_finish w v2 else (None, v2)))"

fun write_packets :: "mux_answers \<Rightarrow> video_packet list \<Rightarrow> video_recorder \<Rightarrow> string option \<times> video_recorder" where
  "write_packets w [] v = (None, v)"
| "write_packets w (p # ps) v = (case mux_write w p v of
     (Some e, v1) \<Rightarrow> (Some e, snd (mux_close w v1))
   | (None, v1) \<Rightarrow> write_packets w ps v1)"

definition clip_path :: "video_recorder \<Rightarrow> string \<Rightarrow> string" where
  "clip_path v event_id = path_join (vr_directory v) (safe_event_id event_id @ ''.mp4'')"

definition recorder_trigger :: "mux_answers \<Rightarrow> string \<Rightarrow> int \<Rightarrow> video_recorder \<Rightarrow> string option \<times> video_recorder" where
  "recorder_trigger w event_id timestamp_pts v =
     (if event_id = [] \<or> timestamp_pts < 0 \<or> vr_directory v = [] \<or> vr_fps v = 0 then (Some ''invalid event video trigger'', v)
      else (case recorder_finish w v of
          (Some e, v1) \<Rightarrow> (Some e, v1)
        | (None, v1) \<Rightarrow> (case mux_open w (clip_path v1 event_id) v1 of
            (Some e, v2) \<Rightarrow> (Some e, v2)
          | (None, v2) \<Rightarrow> (case write_packets w (ring_snapshot (vr_ring v2)) v2 of
              (Some e, v3) \<Rightarrow> (Some e, v3)
            | (None, v3) \<Rightarrow> (None, v3\<lparr>vr_finish_pts := timestamp_pts + max 1 (vr_post_event_ms v3) * int (vr_fps v3) div 1000,
                vr_active := True\<rparr>)))))"

section \<open>What the ring holds\<close>

text \<open>
  The packets that can be decoded: those with data, from the first keyframe on. A group of pictures is a keyframe and
  the packets up to the next one.
\<close>

definition decodable :: "video_packet list \<Rightarrow> video_packet list" where
  "decodable ps = dropWhile (\<lambda>p. \<not> vp_keyframe p) (filter (\<lambda>p. vp_data p \<noteq> []) ps)"

definition gop_ok :: "video_packet list \<Rightarrow> bool" where
  "gop_ok g \<longleftrightarrow> g \<noteq> [] \<and> vp_keyframe (hd g) \<and> list_all (\<lambda>p. \<not> vp_keyframe p) (tl g)"

definition too_old :: "gop_ring \<Rightarrow> video_packet list \<Rightarrow> video_packet \<Rightarrow> bool" where
  "too_old r ps p \<longleftrightarrow> gr_max_duration_pts r < vp_pts (last ps) - vp_pts p"

definition ring_holds :: "video_packet list \<Rightarrow> gop_ring \<Rightarrow> bool" where
  "ring_holds ps r \<longleftrightarrow> list_all gop_ok (gr_gops r) \<and> (if ps = [] then gr_current r = [] \<and> gr_gops r = [] else gop_ok (gr_current r)) \<and>
     (\<exists>old. ps = old @ ring_snapshot r \<and> (\<forall>p \<in> set old. vp_keyframe p \<longrightarrow> too_old r ps p)) \<and>
     (gr_gops r \<noteq> [] \<longrightarrow> \<not> too_old r ps (hd (hd (gr_gops r))))"

lemma decodable_snoc:
  "decodable (ps @ [p]) = (if vp_data p = [] \<or> decodable ps = [] \<and> \<not> vp_keyframe p then decodable ps else decodable ps @ [p])"
proof -
  have d: "dropWhile P (xs @ [p]) = (if dropWhile P xs = [] \<and> P p then [] else dropWhile P xs @ [p])"
    for P and xs :: "video_packet list"
    by (induction xs) auto
  show ?thesis
    unfolding decodable_def filter_append by (simp add: d del: dropWhile_eq_Nil_conv)
qed

lemma expired_old: "gop_ok g \<Longrightarrow> expired newest limit g \<longleftrightarrow> limit < newest - vp_pts (hd g)"
  by (auto simp: expired_def gop_ok_def)

lemma key_of_gop: "gop_ok g \<Longrightarrow> p \<in> set g \<Longrightarrow> vp_keyframe p \<Longrightarrow> p = hd g"
  by (cases g) (auto simp: gop_ok_def list_all_iff)

text \<open>A ring with one more packet, before it is trimmed.\<close>

lemma trim_holds:
  assumes gops: "list_all gop_ok gs" "gop_ok cur" and ps: "ps = old @ concat gs @ cur"
    and old: "\<forall>p \<in> set old. vp_keyframe p \<longrightarrow> limit < vp_pts (last ps) - vp_pts p"
  shows "ring_holds ps (ring_trim \<lparr> gr_max_duration_pts = limit, gr_gops = gs, gr_current = cur \<rparr>)"
proof -
  let ?e = "expired (vp_pts (last cur)) limit"
  let ?r = "\<lparr> gr_max_duration_pts = limit, gr_gops = dropWhile ?e gs, gr_current = cur \<rparr>"
  have cur: "cur \<noteq> []" using gops(2) by (simp add: gop_ok_def)
  have last: "last ps = last cur" using ps cur by simp
  have r: "ring_trim \<lparr> gr_max_duration_pts = limit, gr_gops = gs, gr_current = cur \<rparr> = ?r"
    using cur by (simp add: ring_trim_def ring_snapshot_def)
  have split: "concat gs = concat (takeWhile ?e gs) @ concat (dropWhile ?e gs)"
    by (simp flip: concat_append)
  have "too_old ?r ps p" if p: "p \<in> set (concat (takeWhile ?e gs))" "vp_keyframe p" for p
  proof -
    obtain g where g: "g \<in> set (takeWhile ?e gs)" "p \<in> set g" using p(1) by auto
    then have "gop_ok g" "?e g" using gops(1) by (auto simp: list_all_iff dest: set_takeWhileD)
    with g(2) p(2) show ?thesis using key_of_gop last by (auto simp: too_old_def expired_old)
  qed
  moreover have "ps = (old @ concat (takeWhile ?e gs)) @ ring_snapshot ?r"
    unfolding ps split by (simp add: ring_snapshot_def)
  moreover have "too_old ?r ps p" if "p \<in> set old" "vp_keyframe p" for p
    using old that by (simp add: too_old_def)
  ultimately have "\<exists>old. ps = old @ ring_snapshot ?r \<and> (\<forall>p \<in> set old. vp_keyframe p \<longrightarrow> too_old ?r ps p)"
    by (intro exI [of _ "old @ concat (takeWhile ?e gs)"]) auto
  moreover have "\<not> too_old ?r ps (hd (hd (dropWhile ?e gs)))" if "dropWhile ?e gs \<noteq> []"
  proof -
    have "\<not> ?e (hd (dropWhile ?e gs))" using that by (rule hd_dropWhile)
    moreover have "gop_ok (hd (dropWhile ?e gs))"
      using that gops(1) by (metis hd_in_set list_all_iff set_dropWhileD)
    ultimately show ?thesis by (simp add: expired_old too_old_def last)
  qed
  moreover have "list_all gop_ok (dropWhile ?e gs)"
    using gops(1) by (auto simp: list_all_iff dest: set_dropWhileD)
  moreover have "ps \<noteq> []" using ps cur by simp
  ultimately show ?thesis unfolding r ring_holds_def using gops(2) by simp
qed

lemma ring_fields:
  "r\<lparr>gr_current := b\<rparr> = \<lparr> gr_max_duration_pts = gr_max_duration_pts r, gr_gops = gr_gops r, gr_current = b \<rparr>"
  "r\<lparr>gr_gops := a, gr_current := b\<rparr> = \<lparr> gr_max_duration_pts = gr_max_duration_pts r, gr_gops = a, gr_current = b \<rparr>"
  for r :: gop_ring
  by (cases r; simp)+

lemma ring_append_holds:
  assumes h: "ring_holds ps r" and later: "ps \<noteq> [] \<Longrightarrow> vp_data p \<noteq> [] \<Longrightarrow> vp_pts (last ps) \<le> vp_pts p"
  shows "fst (ring_append p r) \<longleftrightarrow> \<not> (vp_data p = [] \<or> ps = [] \<and> \<not> vp_keyframe p)"
    "ring_holds (if vp_data p = [] \<or> ps = [] \<and> \<not> vp_keyframe p then ps else ps @ [p]) (snd (ring_append p r))"
    "gr_max_duration_pts (snd (ring_append p r)) = gr_max_duration_pts r"
proof -
  let ?m = "gr_max_duration_pts r"
  obtain old where old: "ps = old @ ring_snapshot r" "\<forall>x \<in> set old. vp_keyframe x \<longrightarrow> too_old r ps x"
    using h by (auto simp: ring_holds_def)
  have gops: "list_all gop_ok (gr_gops r)" using h by (simp add: ring_holds_def)
  have empty: "gr_current r = [] \<longleftrightarrow> ps = []" "ps = [] \<Longrightarrow> gr_gops r = []" "ps \<noteq> [] \<Longrightarrow> gop_ok (gr_current r)"
    using h by (auto simp: ring_holds_def gop_ok_def split: if_splits)
  have "(fst (ring_append p r) \<longleftrightarrow> \<not> (vp_data p = [] \<or> ps = [] \<and> \<not> vp_keyframe p)) \<and>
    ring_holds (if vp_data p = [] \<or> ps = [] \<and> \<not> vp_keyframe p then ps else ps @ [p]) (snd (ring_append p r)) \<and>
    gr_max_duration_pts (snd (ring_append p r)) = ?m"
  proof (cases "vp_data p = [] \<or> ps = [] \<and> \<not> vp_keyframe p")
    case True
    then have "ring_append p r = (False, r)" using empty(1) by (auto simp: ring_append_def)
    with True h show ?thesis by simp
  next
    case False
    have old': "\<forall>x \<in> set old. vp_keyframe x \<longrightarrow> ?m < vp_pts (last (ps @ [p])) - vp_pts x"
    proof (intro ballI impI)
      fix x
      assume x: "x \<in> set old" "vp_keyframe x"
      then have "ps \<noteq> []" using old(1) by auto
      with later False have "vp_pts (last ps) \<le> vp_pts p" by simp
      moreover have "?m < vp_pts (last ps) - vp_pts x" using old(2) x by (simp add: too_old_def)
      ultimately show "?m < vp_pts (last (ps @ [p])) - vp_pts x" by simp
    qed
    let ?gs = "if vp_keyframe p \<and> ps \<noteq> [] then gr_gops r @ [gr_current r] else gr_gops r"
    let ?cur = "if vp_keyframe p then [p] else gr_current r @ [p]"
    have a: "ring_append p r = (True, ring_trim \<lparr> gr_max_duration_pts = ?m, gr_gops = ?gs, gr_current = ?cur \<rparr>)"
    proof (cases "vp_keyframe p \<and> ps \<noteq> []")
      case True
      with False empty(1) show ?thesis by (simp add: ring_append_def Let_def ring_fields)
    next
      case other: False
      then have c: "\<not> (vp_keyframe p \<and> gr_current r \<noteq> [])" "\<not> (gr_current r = [] \<and> \<not> vp_keyframe p)"
        using False empty(1) by blast+
      have cur: "gr_current r @ [p] = ?cur"
      proof (cases "vp_keyframe p")
        case True
        with c(1) have "gr_current r = []" by blast
        with True show ?thesis by simp
      qed simp
      have "ring_append p r = (True, ring_trim (r\<lparr>gr_current := gr_current r @ [p]\<rparr>))"
        using False unfolding ring_append_def Let_def if_not_P [OF c(1)] if_not_P [OF c(2)] by simp
      then show ?thesis unfolding cur [symmetric] ring_fields if_not_P [OF other] .
    qed
    have gs: "list_all gop_ok ?gs" using gops empty(3) by simp
    have cur: "gop_ok ?cur" using False empty(3) by (auto simp: gop_ok_def)
    have snap: "concat ?gs @ ?cur = ring_snapshot r @ [p]"
    proof (cases "ps = []")
      case True
      with empty False show ?thesis by (simp add: ring_snapshot_def)
    qed (simp add: ring_snapshot_def)
    have "ps @ [p] = old @ concat ?gs @ ?cur" unfolding snap by (subst old(1)) simp
    from trim_holds [OF gs cur this old'] have "ring_holds (ps @ [p]) (snd (ring_append p r))" unfolding a by simp
    moreover have "gr_max_duration_pts (snd (ring_append p r)) = ?m" unfolding a by (simp add: ring_trim_def)
    moreover have "fst (ring_append p r)" unfolding a by simp
    ultimately show ?thesis unfolding if_not_P [OF False] using False by blast
  qed
  then show "fst (ring_append p r) \<longleftrightarrow> \<not> (vp_data p = [] \<or> ps = [] \<and> \<not> vp_keyframe p)"
    "ring_holds (if vp_data p = [] \<or> ps = [] \<and> \<not> vp_keyframe p then ps else ps @ [p]) (snd (ring_append p r))"
    "gr_max_duration_pts (snd (ring_append p r)) = ?m" by blast+
qed

lemma new_ring_holds: "ring_holds [] (new_gop_ring ms fps)"
  by (simp add: ring_holds_def new_gop_ring_def ring_snapshot_def)

lemma ring_holds_snapshot:
  assumes "ring_holds ps r"
  obtains old where "ps = old @ ring_snapshot r" "\<And>p. p \<in> set old \<Longrightarrow> vp_keyframe p \<Longrightarrow> too_old r ps p"
    "ps \<noteq> [] \<Longrightarrow> ring_snapshot r \<noteq> [] \<and> vp_keyframe (hd (ring_snapshot r))"
proof -
  obtain old where old: "ps = old @ ring_snapshot r" "\<forall>p \<in> set old. vp_keyframe p \<longrightarrow> too_old r ps p"
    using assms by (auto simp: ring_holds_def)
  have "ring_snapshot r \<noteq> [] \<and> vp_keyframe (hd (ring_snapshot r))" if "ps \<noteq> []"
  proof (cases "gr_gops r")
    case Nil
    then show ?thesis using assms that by (simp add: ring_holds_def ring_snapshot_def gop_ok_def)
  next
    case (Cons g gs)
    then have "gop_ok g" using assms by (simp add: ring_holds_def)
    then show ?thesis using Cons by (simp add: ring_snapshot_def gop_ok_def)
  qed
  with old that show ?thesis by blast
qed

section \<open>What a clip holds\<close>

text \<open>The packets up to the first one at or after a time, that one included.\<close>

fun upto_pts :: "int \<Rightarrow> video_packet list \<Rightarrow> video_packet list" where
  "upto_pts t [] = []"
| "upto_pts t (p # ps) = p # (if vp_pts p \<ge> t then [] else upto_pts t ps)"

definition append_all :: "mux_answers \<Rightarrow> video_packet list \<Rightarrow> video_recorder \<Rightarrow> video_recorder" where
  "append_all w ps v = fold (\<lambda>p v. snd (recorder_append w p v)) ps v"

definition recorded :: "video_recorder \<Rightarrow> (string \<times> video_packet list) list" where
  "recorded v = vr_clips v @ (case vr_open v of None \<Rightarrow> [] | Some c \<Rightarrow> [c])"

text \<open>A recorder that was given packets \<open>ps\<close>: with no clip open, or with an open clip that still wants packets.\<close>

definition recording_state :: "video_packet list \<Rightarrow> (string \<times> video_packet list) option \<Rightarrow> int \<Rightarrow> video_recorder \<Rightarrow> bool" where
  "recording_state ps clip fin v \<longleftrightarrow> ring_holds (decodable ps) (vr_ring v) \<and> vr_open v = clip \<and>
     (vr_active v \<longleftrightarrow> clip \<noteq> None) \<and> (clip \<noteq> None \<longrightarrow> vr_finish_pts v = fin)"

text \<open>One more packet, when the muxer does what it is asked.\<close>

lemma append_step:
  assumes w: "\<And>n. w n = None" and st: "recording_state ps clip fin v"
    and later: "sorted (map vp_pts (decodable (ps @ [p])))"
  defines "new \<equiv> drop (length (decodable ps)) (decodable (ps @ [p]))"
  shows "recording_state (ps @ [p])
      (case clip of None \<Rightarrow> None | Some (path, c) \<Rightarrow> if \<exists>q \<in> set new. vp_pts q \<ge> fin then None else Some (path, c @ new)) fin
      (snd (recorder_append w p v))"
    "recorded (snd (recorder_append w p v)) = vr_clips v @ (case clip of None \<Rightarrow> [] | Some (path, c) \<Rightarrow> [(path, c @ upto_pts fin new)])"
proof -
  let ?ps = "decodable ps"
  have h: "ring_holds ?ps (vr_ring v)" and o: "vr_open v = clip" "vr_active v \<longleftrightarrow> clip \<noteq> None"
    "clip \<noteq> None \<Longrightarrow> vr_finish_pts v = fin"
    using st by (simp_all add: recording_state_def)
  have le: "vp_pts (last ?ps) \<le> vp_pts p" if "?ps \<noteq> []" "vp_data p \<noteq> []"
    using later that by (auto simp: decodable_snoc sorted_append)
  obtain acc r where r: "ring_append p (vr_ring v) = (acc, r)" by fastforce
  note ring = ring_append_holds [OF h le, unfolded r fst_conv snd_conv]
  have dec: "ring_holds (decodable (ps @ [p])) r" using ring(2) by (simp add: decodable_snoc)
  have "recording_state (ps @ [p])
      (case clip of None \<Rightarrow> None | Some (path, c) \<Rightarrow> if \<exists>q \<in> set new. vp_pts q \<ge> fin then None else Some (path, c @ new)) fin
      (snd (recorder_append w p v)) \<and>
    recorded (snd (recorder_append w p v)) = vr_clips v @ (case clip of None \<Rightarrow> [] | Some (path, c) \<Rightarrow> [(path, c @ upto_pts fin new)])"
  proof (cases acc)
    case False
    then have new: "new = []" using ring(1) by (auto simp: new_def decodable_snoc)
    have "snd (recorder_append w p v) = v\<lparr>vr_ring := r\<rparr>" using False r by (simp add: recorder_append_def)
    then show ?thesis
      using dec o new by (auto simp: recording_state_def recorded_def split: option.splits)
  next
    case True
    then have new: "new = [p]" and data: "vp_data p \<noteq> []" using ring(1) by (auto simp: new_def decodable_snoc)
    show ?thesis
    proof (cases clip)
      case None
      then have "snd (recorder_append w p v) = v\<lparr>vr_ring := r\<rparr>" using True r o by (simp add: recorder_append_def)
      then show ?thesis using dec o None by (simp add: recording_state_def recorded_def)
    next
      case (Some pc)
      obtain path c where pc: "pc = (path, c)" by fastforce
      let ?v = "v\<lparr>vr_ring := r, vr_calls := vr_calls v + 1, vr_open := Some (path, c @ [p])\<rparr>"
      have "mux_write w p (v\<lparr>vr_ring := r\<rparr>) = (None, ?v)"
        using o(1) Some pc data w by (simp add: mux_write_def)
      then have a: "recorder_append w p v = (if vp_pts p \<ge> fin then recorder_finish w ?v else (None, ?v))"
        using True r o Some by (simp add: recorder_append_def)
      show ?thesis
      proof (cases "vp_pts p \<ge> fin")
        case True
        have "snd (recorder_append w p v) = ?v\<lparr>vr_active := False, vr_open := None,
            vr_clips := vr_clips v @ [(path, c @ [p])], vr_calls := vr_calls v + 2\<rparr>"
          using True a o Some by (simp add: recorder_finish_def mux_close_def mux_end_def)
        then show ?thesis using dec o Some pc new True by (simp add: recording_state_def recorded_def)
      next
        case False
        then have "snd (recorder_append w p v) = ?v" using a by simp
        then show ?thesis using dec o Some pc new False by (simp add: recording_state_def recorded_def)
      qed
    qed
  qed
  then show "recording_state (ps @ [p])
      (case clip of None \<Rightarrow> None | Some (path, c) \<Rightarrow> if \<exists>q \<in> set new. vp_pts q \<ge> fin then None else Some (path, c @ new)) fin
      (snd (recorder_append w p v))"
    "recorded (snd (recorder_append w p v)) = vr_clips v @ (case clip of None \<Rightarrow> [] | Some (path, c) \<Rightarrow> [(path, c @ upto_pts fin new)])"
    by blast+
qed

lemma decodable_append: "\<exists>new. decodable (ps @ qs) = decodable ps @ new"
proof (induction qs rule: rev_induct)
  case (snoc q qs)
  then show ?case using decodable_snoc [of "ps @ qs" q] by auto
qed simp

lemma upto_pts_append:
  "upto_pts t (xs @ ys) = (if \<exists>x \<in> set xs. vp_pts x \<ge> t then upto_pts t xs else xs @ upto_pts t ys)"
  by (induction xs) auto

lemma upto_pts_all: "\<not> (\<exists>x \<in> set xs. vp_pts x \<ge> t) \<Longrightarrow> upto_pts t xs = xs"
  by (induction xs) auto

lemma append_run:
  assumes w: "\<And>n. w n = None" and "recording_state ps clip fin v" "sorted (map vp_pts (decodable (ps @ qs)))"
  shows "recorded (append_all w qs v) = vr_clips v @ (case clip of None \<Rightarrow> []
    | Some (path, c) \<Rightarrow> [(path, c @ upto_pts fin (drop (length (decodable ps)) (decodable (ps @ qs))))])"
  using assms(2,3)
proof (induction qs arbitrary: ps clip v)
  case Nil
  then show ?case by (auto simp: append_all_def recorded_def recording_state_def split: option.splits)
next
  case (Cons q qs)
  let ?v = "snd (recorder_append w q v)"
  obtain n1 where n1: "decodable (ps @ [q]) = decodable ps @ n1" using decodable_append by blast
  obtain n2 where n2: "decodable ((ps @ [q]) @ qs) = decodable (ps @ [q]) @ n2" using decodable_append by blast
  have new: "drop (length (decodable ps)) (decodable (ps @ [q])) = n1"
    "drop (length (decodable (ps @ [q]))) (decodable ((ps @ [q]) @ qs)) = n2"
    "drop (length (decodable ps)) (decodable (ps @ q # qs)) = n1 @ n2"
    using n1 n2 by simp_all
  have "sorted (map vp_pts (decodable (ps @ [q])))"
    using Cons.prems(2) n2 by (simp add: sorted_append)
  note step = append_step [OF w Cons.prems(1) this, unfolded new(1)]
  have "sorted (map vp_pts (decodable ((ps @ [q]) @ qs)))" using Cons.prems(2) by simp
  note IH = Cons.IH [OF step(1) this, unfolded new(2)]
  have run: "append_all w (q # qs) v = append_all w qs ?v" by (simp add: append_all_def)
  show ?case
  proof (cases clip)
    case None
    then have "vr_clips ?v = vr_clips v"
      using step by (simp add: recorded_def recording_state_def)
    then show ?thesis using IH None unfolding run by simp
  next
    case (Some pc)
    obtain path c where pc: "clip = Some (path, c)" using Some by (cases pc) simp
    show ?thesis
    proof (cases "\<exists>x \<in> set n1. vp_pts x \<ge> fin")
      case True
      then have "vr_clips ?v = vr_clips v @ [(path, c @ upto_pts fin n1)]"
        using step pc by (simp add: recorded_def recording_state_def)
      then show ?thesis using IH True pc unfolding run new(3) by (simp add: upto_pts_append)
    next
      case False
      then have "vr_clips ?v = vr_clips v"
        using step pc upto_pts_all [OF False] by (simp add: recorded_def recording_state_def)
      then show ?thesis using IH False pc unfolding run new(3) by (simp add: upto_pts_append)
    qed
  qed
qed

lemma write_packets_ok:
  assumes "\<And>n. w n = None"
  shows "vr_open v = Some (path, c) \<Longrightarrow> \<forall>p \<in> set ps. vp_data p \<noteq> [] \<Longrightarrow>
    write_packets w ps v = (None, v\<lparr>vr_calls := vr_calls v + length ps, vr_open := Some (path, c @ ps)\<rparr>)"
proof (induction ps arbitrary: v c)
  case (Cons p ps)
  then show ?case using assms by (simp add: mux_write_def)
qed simp

lemma trigger_starts:
  assumes w: "\<And>n. w n = None" and st: "recording_state ps None fin0 v"
    and ok: "event_id \<noteq> []" "0 \<le> ts" "vr_directory v \<noteq> []" "0 < vr_fps v" and r: "recorder_trigger w event_id ts v = (e, v')"
  shows "e = None" "vr_clips v' = vr_clips v"
    "recording_state ps (Some (clip_path v event_id, ring_snapshot (vr_ring v)))
      (ts + max 1 (vr_post_event_ms v) * int (vr_fps v) div 1000) v'"
proof -
  have s: "vr_open v = None" "\<not> vr_active v" "ring_holds (decodable ps) (vr_ring v)"
    using st by (simp_all add: recording_state_def)
  have path: "clip_path v event_id \<noteq> []" by (simp add: clip_path_def path_join_def)
  obtain old where "decodable ps = old @ ring_snapshot (vr_ring v)" using s(3) by (auto simp: ring_holds_def)
  moreover have "\<forall>p \<in> set (decodable ps). vp_data p \<noteq> []"
    by (auto simp: decodable_def dest: set_dropWhileD)
  ultimately have data: "\<forall>p \<in> set (ring_snapshot (vr_ring v)). vp_data p \<noteq> []" by simp
  let ?v = "v\<lparr>vr_calls := vr_calls v + 1, vr_open := Some (clip_path v event_id, [])\<rparr>"
  have "mux_open w (clip_path v event_id) v = (None, ?v)"
    using s(1) ok(4) path w by (simp add: mux_open_def mux_end_def)
  then have "recorder_trigger w event_id ts v = (None, ?v\<lparr>vr_calls := vr_calls v + 1 + length (ring_snapshot (vr_ring v)),
      vr_open := Some (clip_path v event_id, ring_snapshot (vr_ring v)),
      vr_finish_pts := ts + max 1 (vr_post_event_ms v) * int (vr_fps v) div 1000, vr_active := True\<rparr>)"
    using ok s(2) write_packets_ok [OF w, of ?v "clip_path v event_id" "[]" "ring_snapshot (vr_ring v)"] data
    by (simp add: recorder_trigger_def recorder_finish_def)
  with r s(3) show "e = None" "vr_clips v' = vr_clips v"
    "recording_state ps (Some (clip_path v event_id, ring_snapshot (vr_ring v)))
      (ts + max 1 (vr_post_event_ms v) * int (vr_fps v) div 1000) v'"
    by (auto simp: recording_state_def)
qed

lemma decodable_starts: "decodable ps \<noteq> [] \<Longrightarrow> vp_keyframe (hd (decodable ps))"
  unfolding decodable_def by (drule hd_dropWhile) simp

lemma idle_append_all:
  assumes w: "\<And>n. w n = None" and "sorted (map vp_pts (decodable (ps @ qs)))" "recording_state ps None fin v"
  shows "recording_state (ps @ qs) None fin (append_all w qs v)" "vr_clips (append_all w qs v) = vr_clips v"
    "vr_directory (append_all w qs v) = vr_directory v" "vr_fps (append_all w qs v) = vr_fps v"
    "vr_post_event_ms (append_all w qs v) = vr_post_event_ms v"
    "gr_max_duration_pts (vr_ring (append_all w qs v)) = gr_max_duration_pts (vr_ring v)"
proof -
  have "recording_state (ps @ qs) None fin (append_all w qs v) \<and> vr_clips (append_all w qs v) = vr_clips v \<and>
    vr_directory (append_all w qs v) = vr_directory v \<and> vr_fps (append_all w qs v) = vr_fps v \<and>
    vr_post_event_ms (append_all w qs v) = vr_post_event_ms v \<and>
    gr_max_duration_pts (vr_ring (append_all w qs v)) = gr_max_duration_pts (vr_ring v)"
    using assms(2,3)
  proof (induction qs rule: rev_induct)
    case Nil
    then show ?case by (simp add: append_all_def)
  next
    case (snoc q qs)
    obtain n where n: "decodable ((ps @ qs) @ [q]) = decodable (ps @ qs) @ n" using decodable_append by blast
    have le: "sorted (map vp_pts (decodable ((ps @ qs) @ [q])))" using snoc.prems(1) by simp
    then have "sorted (map vp_pts (decodable (ps @ qs)))" unfolding n by (simp add: sorted_append)
    note IH = snoc.IH [OF this snoc.prems(2)]
    let ?v = "append_all w qs v"
    have st: "recording_state (ps @ qs) None fin ?v" using IH by blast
    obtain acc r where r: "ring_append q (vr_ring ?v) = (acc, r)" by fastforce
    have h: "ring_holds (decodable (ps @ qs)) (vr_ring ?v)" "\<not> vr_active ?v" using st by (simp_all add: recording_state_def)
    have later: "vp_pts (last (decodable (ps @ qs))) \<le> vp_pts q" if "decodable (ps @ qs) \<noteq> []" "vp_data q \<noteq> []"
    proof -
      have "sorted (map vp_pts (decodable (ps @ qs) @ [q]))"
        using le that decodable_snoc [of "ps @ qs" q] by (simp del: append_assoc)
      with that(1) show ?thesis by (simp add: sorted_append)
    qed
    have "snd (recorder_append w q ?v) = ?v\<lparr>vr_ring := r\<rparr>"
      using h(2) r by (cases acc) (simp_all add: recorder_append_def Let_def)
    moreover have "append_all w (qs @ [q]) v = snd (recorder_append w q ?v)" by (simp add: append_all_def)
    ultimately have e: "append_all w (qs @ [q]) v = ?v\<lparr>vr_ring := r\<rparr>" by simp
    have "recording_state ((ps @ qs) @ [q]) None fin (append_all w (qs @ [q]) v)"
      using append_step(1) [OF w st le] \<open>append_all w (qs @ [q]) v = snd (recorder_append w q ?v)\<close> by simp
    moreover have "gr_max_duration_pts r = gr_max_duration_pts (vr_ring ?v)"
      using ring_append_holds(3) [OF h(1) later] r by simp
    ultimately show ?case using IH e by simp
  qed
  then show "recording_state (ps @ qs) None fin (append_all w qs v)" "vr_clips (append_all w qs v) = vr_clips v"
    "vr_directory (append_all w qs v) = vr_directory v" "vr_fps (append_all w qs v) = vr_fps v"
    "vr_post_event_ms (append_all w qs v) = vr_post_event_ms v"
    "gr_max_duration_pts (vr_ring (append_all w qs v)) = gr_max_duration_pts (vr_ring v)" by blast+
qed

text \<open>
  C26: the clip of an event can be played and has no hole. On a new recorder, after packets \<open>ps\<close>, one trigger, and packets \<open>qs\<close>, there is one
  file. It holds an unbroken run of the packets that can be decoded, from a keyframe on: the last ones before the trigger, then
  every one after it up to the first that is past the end of the event, or all of them so far. Of the
  packets before the run, a keyframe was let go only when it was more than \<open>pre_event_ms\<close> of video old. Packets
  come in the order of their times and the muxer takes them.
\<close>

theorem event_clip_is_playable:
  assumes "\<forall>n. w n = None" "sorted (map vp_pts (decodable (ps @ qs)))"
    "event_id \<noteq> []" "0 \<le> ts" "dir \<noteq> []" "0 < fps"
    "recorder_trigger w event_id ts (append_all w ps (new_video_recorder dir pre post fps)) = (e, v)"
  shows "e = None \<and> (\<exists>old kept clip. decodable ps = old @ kept \<and>
    recorded (append_all w qs v) = [(path_join dir (safe_event_id event_id @ ''.mp4''), clip)] \<and>
    clip = kept @ upto_pts (ts + max 1 post * int fps div 1000) (drop (length (decodable ps)) (decodable (ps @ qs))) \<and>
    (clip \<noteq> [] \<longrightarrow> vp_keyframe (hd clip)) \<and>
    (\<forall>p \<in> set old. vp_keyframe p \<longrightarrow> max 1 pre * int fps div 1000 < vp_pts (last (decodable ps)) - vp_pts p))"
proof -
  let ?v0 = "new_video_recorder dir pre post fps"
  let ?v1 = "append_all w ps ?v0"
  let ?new = "drop (length (decodable ps)) (decodable (ps @ qs))"
  have w: "\<And>n. w n = None" using assms(1) by blast
  obtain n where n: "decodable (ps @ qs) = decodable ps @ n" using decodable_append by blast
  have "recording_state [] None 0 ?v0"
    using new_ring_holds [of pre fps] by (simp add: recording_state_def new_video_recorder_def decodable_def)
  moreover have "sorted (map vp_pts (decodable ([] @ ps)))" using assms(2) n by (simp add: sorted_append)
  ultimately have v1: "recording_state ps None 0 ?v1" "vr_clips ?v1 = []" "vr_directory ?v1 = dir" "vr_fps ?v1 = fps"
    "vr_post_event_ms ?v1 = post" "gr_max_duration_pts (vr_ring ?v1) = max 1 pre * int fps div 1000"
    using idle_append_all [OF w, of "[]" ps 0 ?v0] assms(6)
    by (simp_all add: new_video_recorder_def new_gop_ring_def max_def)
  have trig: "e = None" "vr_clips v = []"
    "recording_state ps (Some (clip_path ?v1 event_id, ring_snapshot (vr_ring ?v1))) (ts + max 1 post * int fps div 1000) v"
    using trigger_starts [OF w v1(1) assms(3,4) _ _ assms(7)] v1 assms(5,6) by simp_all
  have "ring_holds (decodable ps) (vr_ring ?v1)" using v1(1) by (simp add: recording_state_def)
  then obtain old where old: "decodable ps = old @ ring_snapshot (vr_ring ?v1)"
    "\<And>p. p \<in> set old \<Longrightarrow> vp_keyframe p \<Longrightarrow> too_old (vr_ring ?v1) (decodable ps) p"
    "decodable ps \<noteq> [] \<Longrightarrow> ring_snapshot (vr_ring ?v1) \<noteq> [] \<and> vp_keyframe (hd (ring_snapshot (vr_ring ?v1)))"
    by (rule ring_holds_snapshot) blast
  let ?clip = "ring_snapshot (vr_ring ?v1) @ upto_pts (ts + max 1 post * int fps div 1000) ?new"
  have "recorded (append_all w qs v) = [(path_join dir (safe_event_id event_id @ ''.mp4''), ?clip)]"
    using append_run [OF w trig(3) assms(2)] trig(2) v1(3) by (simp add: clip_path_def)
  moreover have "vp_keyframe (hd ?clip)" if "?clip \<noteq> []"
  proof (cases "decodable ps = []")
    case True
    then have "ring_snapshot (vr_ring ?v1) = []" using old(1) by simp
    moreover have "vp_keyframe (hd (decodable (ps @ qs)))" if "decodable (ps @ qs) \<noteq> []"
      by (rule decodable_starts [OF that])
    moreover have "hd (upto_pts t xs) = hd xs" if "upto_pts t xs \<noteq> []" for t xs
      using that by (cases xs) simp_all
    ultimately show ?thesis using that True by (metis append_Nil drop0 list.size(3) upto_pts.simps(1))
  next
    case False
    then show ?thesis using old(3) by simp
  qed
  moreover have "\<forall>p \<in> set old. vp_keyframe p \<longrightarrow> max 1 pre * int fps div 1000 < vp_pts (last (decodable ps)) - vp_pts p"
    using old(2) v1(6) by (simp add: too_old_def)
  ultimately show ?thesis using trig(1) old(1) by blast
qed

definition test_packet :: "int \<Rightarrow> bool \<Rightarrow> video_packet" where
  "test_packet t key = \<lparr> vp_data = [1], vp_pts = t, vp_dts = t, vp_keyframe = key \<rparr>"

definition packets_before :: "video_packet list" where
  "packets_before = [test_packet 0 False, test_packet 1 True, test_packet 2 False, test_packet 40 True, test_packet 41 False]"

definition packets_after :: "video_packet list" where
  "packets_after = [test_packet 42 False, test_packet 80 True, test_packet 81 False]"

lemma event_clip_is_playable_witness:
  "\<exists>old kept. decodable packets_before = old @ kept \<and>
    recorded (append_all (\<lambda>n. None) packets_after (snd (recorder_trigger (\<lambda>n. None) ''e 1'' 41
      (append_all (\<lambda>n. None) packets_before (new_video_recorder ''/v'' 1000 1000 30))))) =
      [(''/v/e_1.mp4'', kept @ upto_pts 71 (drop 4 (decodable (packets_before @ packets_after))))]"
proof -
  let ?t = "recorder_trigger (\<lambda>n. None) ''e 1'' 41 (append_all (\<lambda>n. None) packets_before (new_video_recorder ''/v'' 1000 1000 30))"
  obtain e v where r: "?t = (e, v)" by fastforce
  have s: "sorted (map vp_pts (decodable (packets_before @ packets_after)))"
    "path_join ''/v'' (safe_event_id ''e 1'' @ ''.mp4'') = ''/v/e_1.mp4''" "length (decodable packets_before) = 4"
    by code_simp+
  have h: "\<forall>n. (\<lambda>n. None) n = (None :: string option)" by simp
  from event_clip_is_playable [OF h s(1) _ _ _ _ r] s(2,3) show ?thesis unfolding r by auto
qed

text \<open>Two events whose identifiers differ in a character that a file name may not have share a file: the later clip replaces the earlier one.\<close>

lemma distinct_events_same_clip: "clip_path v ''rear left'' = clip_path v ''rear_left''"
  by (simp add: clip_path_def safe_event_id_def safe_event_char_def is_alnum_def is_digit_def code_def)

end
