(* ===== verification/Spec2Isabelle.thy ===== *)
theory Spec2Isabelle
  imports Can_Frame Socket_Can Chassis_Codec Heartbeat_Monitor Chassis_Client Float64 Safety_Adapter
    Safety_Source Safety_Loop Odometry_Time Json
    Conversation Event_Queue Message_Bus Sentinel Nav_Bridge
    Float_Division Vehicle_Codec Vehicle_Data Media_Player Media_Service Media_Manifest Audio_Focus
    Upgrade_Version Upgrade_Root Upgrade Upgrade_Safety Upgrade_Recovery Safe_Ota
    Audio_Stream Wav_File Camera_Frame Shared_Frames Frames_Safety
    Run_Config Process_Manager Process_Safety Mode_Switch Ipc_Connector Navigator
    Speech_Segments Event_Video
begin

text \<open>
  The modular cockpit system: a verification development for the repository.

  The program is a set of processes of a vehicle's cockpit computer, under \<open>src/cockpit\<close>. The
  Navigator starts and supervises the others; the vehicle driver talks to the chassis controller on a
  CAN bus; the shield decides which velocity commands may reach it; the voice agent, the media player
  and the HMI serve the driver; the sentinel records motion events; the bridge passes goals to a
  navigation stack; the camera and audio drivers publish frames; the upgrader replaces the
  installation. Each part below is modelled from its source, in the order the data flows, and the
  lemmas of a theory are about the definitions of that theory.

  \<^bold>\<open>Conventions.\<close> Unsigned integers are words of their width and wrap; signed ones are \<open>int\<close>, with
  the narrowing casts written out and lemmas that the values fit where they could overflow. A class or
  struct is a record, an enumeration a datatype, \<open>std::optional\<close> and null pointers are \<open>option\<close>, an
  error text is the left injection of a sum. A method that holds a mutex from its first access to its
  last is one step; where a method releases it, the place of the thread between its sections is part
  of the state. Clocks, system calls and libraries that are not under \<open>src/\<close> are arguments, in the
  order the code asks them; whatever they answer, the theorems hold, save for the laws a locale states.

  \<^bold>\<open>The chassis.\<close>
  \<^item> \<open>Can_Frame\<close>, \<open>Socket_Can\<close>: \<open>driver/can\<close> and \<open>driver/platform/socketcan\<close>. Frames, their validity, the
    kernel's layout and receive times. A frame that is sent is the frame that is received.
  \<^item> \<open>Chassis_Codec\<close>: \<open>driver/vehicle/chassis_can_codec.cc\<close>. Round trips of the messages, the exact range
    of velocities, detection of every corrupted byte.
  \<^item> \<open>Heartbeat_Monitor\<close>, \<open>Chassis_Client\<close>, \<open>Odometry_Time\<close>: the monitor of heartbeats with serial
    numbers that wrap, the client's state, and the mapping of the controller's clock to the host's.
  \<^item> \<open>Safety_Adapter\<close>: \<open>shield/chassis\<close>. When motion is enabled, bounds and slew of every command, what a
    stop does. \<open>Safety_Source\<close>: the interlocks read off the bus; the locale \<open>safety_source\<close> is what the
    shield relies on, interpreted on that model. \<open>Safety_Loop\<close>: \<open>driver/vehicle/runtime\<close>, the loop that
    composes source, shield and sink; the end-to-end properties are proved over it.
  \<^item> \<open>Float64\<close>, \<open>Float_Division\<close>: the binary64 arithmetic the codecs use, on integers. \<open>Vehicle_Codec\<close>,
    \<open>Vehicle_Data\<close>: vehicle frames, the published JSON texts, and the service that reads the bus.

  \<^bold>\<open>Shared foundations.\<close>
  \<^item> \<open>Prelude\<close>, \<open>Paths\<close>: words, bytes, number texts, \<open>std::filesystem::path\<close> on strings.
  \<^item> \<open>Json\<close>: \<open>exchange/foundation/json\<close>. What the validator accepts is a text of the grammar, an inductive
    relation (that it accepts every such text is not shown); its fuel, twice the length and two more, is
    proved never to run out.
  \<^item> \<open>Event_Queue\<close>, \<open>Message_Bus\<close>: \<open>exchange/foundation/event\<close>. The queue is a \<open>channel\<close> (a locale); the
    bus keeps a heap of queues, so that expired subscriptions are absent addresses.

  \<^bold>\<open>Services.\<close>
  \<^item> \<open>Conversation\<close>, \<open>Audio_Focus\<close>: \<open>voice/conversation\<close> and \<open>voice/audio/audio_focus_controller.cc\<close>. The
    states of an interaction, and the lease that pauses the media process.
  \<^item> \<open>Speech_Segments\<close>: \<open>voice/speech/segment\<close>. The stream of microphone frames is cut into segments without loss.
  \<^item> \<open>Event_Video\<close>: \<open>spider/recording/video\<close>. The ring of groups of pictures and the recorder of events; every clip is
    a run of the encoder's packets from a keyframe on.
  \<^item> \<open>Media_Player\<close>, \<open>Media_Service\<close>, \<open>Media_Manifest\<close>: \<open>hmi/media\<close>. Three players interpret the locale
    \<open>media_player\<close>; runs refine an abstract player.
  \<^item> \<open>Sentinel\<close>: \<open>vanguard/sentinel\<close>. A step system of a worker and its callers.
  \<^item> \<open>Nav_Bridge\<close>: \<open>ros/bridge\<close>. Providers interpret the locale \<open>navigation_provider\<close>.
  \<^item> \<open>Run_Config\<close>, \<open>Process_Manager\<close>: \<open>navigator/run_config\<close> and \<open>navigator/process\<close>, the modes and the supervisor
    of the modules. \<open>Process_Safety\<close>: what it shows of a module is true, and no crash loop outlasts its
    budget of restarts. \<open>Mode_Switch\<close>: a switch of the mode happens or is undone.
  \<^item> \<open>Ipc_Connector\<close>, \<open>Navigator\<close>: the control socket, its commands and the main loop. A request arrives
    whole; the loss of a critical module ends the Navigator; it leaves no process behind.
  \<^bold>\<open>Frames.\<close>
  \<^item> \<open>Audio_Stream\<close>, \<open>Wav_File\<close>: \<open>driver/audio/transport\<close>, \<open>driver/audio/frames\<close>, \<open>driver/audio/wav\<close>. The
    packet codec is exact; a written recording reads back, and one cut short by the disk is refused; the reader's loop over chunks ends on every
    file, because each turn moves at least eight bytes on.
  \<^item> \<open>Camera_Frame\<close>, \<open>Shared_Frames\<close>, \<open>Frames_Safety\<close>: \<open>driver/camera/frames\<close>, \<open>driver/camera/shared_memory\<close>
    and \<open>exchange/foundation/ipc/shared_memory_region.cc\<close>. The double buffer as single loads, stores and
    lock operations of a writer and any number of readers, each of which may die anywhere; the
    invariant says what a slot holds by the state of its lock and the place its holder is at.

  \<^bold>\<open>Upgrades.\<close> \<open>Upgrade_Version\<close>, \<open>Upgrade_Root\<close>, \<open>Upgrade\<close>, \<open>Upgrade_Safety\<close>, \<open>Upgrade_Recovery\<close>,
  \<open>Safe_Ota\<close>: \<open>upgrader/runtime/upgrade_transaction.cc\<close>, \<open>deploy/install.sh\<close> and \<open>tools/safe-ota\<close>. A
  computation runs against a script that says which call fails and in which the machine stops; a logic
  of pre- and postconditions carries the proofs that an interrupted installation is undone, that a
  confirmation is atomic and that versions never go back. The upgrader is a process of its own; one that
  gave no result before the tool's timeout is assumed to be dead, which the code does not see to. Versions are a linear order by the order the
  code computes.

  \<^bold>\<open>Bounds and fuel.\<close> Apart from the JSON parser every recursion is structural or has a measure. The
  waits of the upgrade are given by the answers each poll gets.

  \<^bold>\<open>Modelled in part.\<close> Of the SocketCAN driver the socket options and the poll are left out; of the
  OTA tool the options it parses and the upgrader's start-up.

  \<^bold>\<open>Not modelled\<close>, and why.
  \<^item> Camera capture, image processing, encoders, calibration: calls of Argus, GStreamer, V4L2, CUDA and
    OpenCV, which are not under \<open>src/\<close>. The broker of native frames hands out reference-counted buffers
    whose lifetimes are those of C++ objects.
  \<^item> ALSA devices, speech models, the language model server: the same, with threads around them.
  \<^item> gRPC servers and clients of the services, the HMI's Qt models, recording over FFmpeg, RTSP: glue over
    generated code and frameworks.
  \<^item> YAML configuration: a long list of keys read with yaml-cpp.
  \<^item> Of the Navigator: the opening and locking of its socket, the loop of a child around a library it loads
    with \<open>dlopen\<close>, and the files of the crash reports.
  \<^item> Entry points, command-line tools, log files: output and argument parsing.
\<close>

end
